(* ===== verification/Prelude.thy ===== *)
theory Prelude
  imports Complex_Main "HOL-Library.Monad_Syntax"
begin

section \<open>Shared vocabulary of the development\<close>

text \<open>
  What every component theory uses: Go strings as lists of bytes, the error values of the
  server (\<open>core.Error\<close>), the error monad a Go function with an \<open>error\<close> result becomes,
  and a few generic lemmas on lists and maps.

  Go's \<open>string\<close> is a sequence of bytes and \<open>len\<close> counts bytes, so \<open>string\<close> (a
  \<open>char list\<close>, one \<open>char\<close> per byte) is its model. Ids and counters of the code
  (\<open>int64\<close>, \<open>int\<close>) are \<open>int\<close>; instants and durations are \<open>int\<close> as well, in the
  unit the code compares them in (milliseconds for the Redis scripts).
\<close>

named_theorems err_simps "unfolding rules of the error monad"

subsection \<open>Fallible functions\<close>

text \<open>
  A Go function returning \<open>(T, error)\<close> is a function into \<open>'e + 'a\<close>: \<open>Inl\<close> is a non-nil
  error, \<open>Inr\<close> the value. \<open>and_then\<close> is the \<open>if err != nil \<lbrace> return err \<rbrace>\<close> idiom.
\<close>

definition and_then :: "'e + 'a \<Rightarrow> ('a \<Rightarrow> 'e + 'b) \<Rightarrow> 'e + 'b" where
  "and_then m f = (case m of Inl e \<Rightarrow> Inl e | Inr a \<Rightarrow> f a)"

lemma and_then_Inl [simp, err_simps]: "and_then (Inl e) f = Inl e"
  by (simp add: and_then_def)

lemma and_then_Inr [simp, err_simps]: "and_then (Inr a) f = f a"
  by (simp add: and_then_def)

lemma and_then_eq_Inr [err_simps]:
  "and_then m f = Inr b \<longleftrightarrow> (\<exists>a. m = Inr a \<and> f a = Inr b)"
  by (cases m) simp_all

lemma and_then_eq_Inl [err_simps]:
  "and_then m f = Inl e \<longleftrightarrow> m = Inl e \<or> (\<exists>a. m = Inr a \<and> f a = Inl e)"
  by (cases m) simp_all

lemma and_then_assoc:
  "and_then (and_then m f) g = and_then m (\<lambda>a. and_then (f a) g)"
  by (cases m) simp_all

definition ensure :: "bool \<Rightarrow> 'e \<Rightarrow> 'e + unit" where
  "ensure c e = (if c then Inr () else Inl e)"

lemma ensure_eq_Inr [simp, err_simps]: "ensure c e = Inr u \<longleftrightarrow> c"
  by (simp add: ensure_def)

subsection \<open>Decimal numbers\<close>

text \<open>\<open>strconv.FormatInt(n, 10)\<close>, which is also \<open>%d\<close>.\<close>

fun nat_str :: "nat \<Rightarrow> string" where
  "nat_str n = (if n < 10 then [char_of (48 + n)] else nat_str (n div 10) @ [char_of (48 + n mod 10)])"

declare nat_str.simps [simp del]

definition itoa :: "int \<Rightarrow> string" where
  "itoa i = (if i < 0 then CHR ''-'' # nat_str (nat (- i)) else nat_str (nat i))"

subsection \<open>Lists\<close>

lemma drop_Cons_nth_conv: "i < length xs \<Longrightarrow> drop i xs = xs ! i # drop (Suc i) xs"
  by (rule Cons_nth_drop_Suc [symmetric])

lemma find_SomeD: "List.find P xs = Some x \<Longrightarrow> x \<in> set xs \<and> P x"
  by (auto simp: find_Some_iff)

lemma sum_list_map_filter_le:
  fixes f :: "'a \<Rightarrow> nat"
  shows "sum_list (map f (filter P xs)) \<le> sum_list (map f xs)"
  by (induction xs) auto

lemma filter_length_le_if:
  assumes "\<And>x. x \<in> set xs \<Longrightarrow> P x \<Longrightarrow> Q x"
  shows "length (filter P xs) \<le> length (filter Q xs)"
  using assms by (induction xs) auto

end
