(* ===== verification/GoStrings.thy ===== *)
theory GoStrings
  imports Prelude "HOL-Library.Word"
begin

section \<open>The string functions of Go's library the server uses\<close>

text \<open>
  \<open>strings.TrimSpace\<close>, \<open>strings.Split\<close> and \<open>strings.Join\<close> with a separator of one byte, \<open>strings.Cut\<close>,
  \<open>strconv.Atoi\<close>, digits and 64-bit wrap-around. Strings are sequences of bytes, and the white space of \<open>TrimSpace\<close> is
  Unicode's, so a space is one of the UTF-8 encodings in \<open>space_runes\<close>.
\<close>

subsection \<open>White space\<close>

definition space_runes :: "string list" where
  "space_runes = [[CHR 0x20], [CHR 0x09], [CHR 0x0A], [CHR 0x0B], [CHR 0x0C], [CHR 0x0D],
     [CHR 0xC2, CHR 0x85], [CHR 0xC2, CHR 0xA0], [CHR 0xE1, CHR 0x9A, CHR 0x80],
     [CHR 0xE2, CHR 0x80, CHR 0x80], [CHR 0xE2, CHR 0x80, CHR 0x81], [CHR 0xE2, CHR 0x80, CHR 0x82],
     [CHR 0xE2, CHR 0x80, CHR 0x83], [CHR 0xE2, CHR 0x80, CHR 0x84], [CHR 0xE2, CHR 0x80, CHR 0x85],
     [CHR 0xE2, CHR 0x80, CHR 0x86], [CHR 0xE2, CHR 0x80, CHR 0x87], [CHR 0xE2, CHR 0x80, CHR 0x88],
     [CHR 0xE2, CHR 0x80, CHR 0x89], [CHR 0xE2, CHR 0x80, CHR 0x8A], [CHR 0xE2, CHR 0x80, CHR 0xA8],
     [CHR 0xE2, CHR 0x80, CHR 0xA9], [CHR 0xE2, CHR 0x80, CHR 0xAF], [CHR 0xE2, CHR 0x81, CHR 0x9F],
     [CHR 0xE3, CHR 0x80, CHR 0x80]]"

text \<open>Strip prefixes from \<open>es\<close> as long as there is one.\<close>

definition leading :: "string list \<Rightarrow> string \<Rightarrow> string option" where
  "leading es s = List.find (\<lambda>e. e \<noteq> [] \<and> take (length e) s = e) es"

lemma leading_shorter:
  assumes "leading es s = Some e"
  shows "length (drop (length e) s) < length s"
proof -
  have "e \<noteq> []" "take (length e) s = e" using assms by (auto simp: leading_def dest: find_SomeD)
  then have "s \<noteq> []" by auto
  then show ?thesis using \<open>e \<noteq> []\<close> by (simp add: diff_less)
qed

function strip :: "string list \<Rightarrow> string \<Rightarrow> string" where
  "strip es s = (case leading es s of None \<Rightarrow> s | Some e \<Rightarrow> strip es (drop (length e) s))"
  by pat_completeness auto

termination strip
  by (relation "measure (\<lambda>(_, s). length s)") (use leading_shorter in auto)

declare strip.simps [simp del]

definition trimSpace :: "string \<Rightarrow> string" where
  "trimSpace s = rev (strip (map rev space_runes) (rev (strip space_runes s)))"

lemma strip_none: "leading es s = None \<Longrightarrow> strip es s = s"
  by (simp add: strip.simps)

lemma leading_none_hd:
  assumes "s = [] \<or> hd s \<notin> hd ` set es"
  shows "leading es s = None"
proof -
  have "\<not> (e \<noteq> [] \<and> take (length e) s = e)" if "e \<in> set es" for e
  proof -
    have "hd e \<in> hd ` set es" using that by (rule imageI)
    then show ?thesis using assms by (cases s; cases e) auto
  qed
  then show ?thesis by (auto simp: leading_def find_None_iff)
qed

text \<open>Bytes no encoded space begins or ends with.\<close>

definition solid :: "char \<Rightarrow> bool" where
  "solid c \<longleftrightarrow> c \<notin> hd ` set space_runes \<and> c \<notin> hd ` set (map rev space_runes)"

lemma trimSpace_solid:
  assumes "s = [] \<or> solid (hd s) \<and> solid (last s)"
  shows "trimSpace s = s"
proof -
  have "strip space_runes s = s" using assms by (intro strip_none leading_none_hd) (auto simp: solid_def)
  moreover have "strip (map rev space_runes) (rev s) = rev s"
    using assms by (intro strip_none leading_none_hd) (auto simp: solid_def hd_rev)
  ultimately show ?thesis by (simp add: trimSpace_def)
qed

lemma trimSpace_Nil [simp]: "trimSpace [] = []"
  by (rule trimSpace_solid) simp

subsection \<open>Splitting and joining\<close>

fun splitOn :: "char \<Rightarrow> string \<Rightarrow> string list" where
  "splitOn d [] = [[]]"
| "splitOn d (c # cs) =
     (if c = d then [] # splitOn d cs
      else (case splitOn d cs of w # ws \<Rightarrow> (c # w) # ws | [] \<Rightarrow> [[c]]))"

fun joinWith :: "char \<Rightarrow> string list \<Rightarrow> string" where
  "joinWith d [] = []"
| "joinWith d [w] = w"
| "joinWith d (w # v # ws) = w @ d # joinWith d (v # ws)"

lemma splitOn_ne [simp]: "splitOn d s \<noteq> []"
  by (cases s) (auto split: list.splits)

lemma splitOn_solid: "d \<notin> set w \<Longrightarrow> splitOn d w = [w]"
  by (induction w) auto

lemma splitOn_append: "d \<notin> set w \<Longrightarrow> splitOn d (w @ d # s) = w # splitOn d s"
  by (induction w) auto

lemma split_join:
  "ws \<noteq> [] \<Longrightarrow> \<forall>w \<in> set ws. d \<notin> set w \<Longrightarrow> splitOn d (joinWith d ws) = ws"
  by (induction d ws rule: joinWith.induct) (auto simp: splitOn_solid splitOn_append)

text \<open>\<open>strings.Cut\<close> at one byte.\<close>

definition cut :: "char \<Rightarrow> string \<Rightarrow> string \<times> string \<times> bool" where
  "cut d s = (let a = takeWhile (\<lambda>c. c \<noteq> d) s; r = dropWhile (\<lambda>c. c \<noteq> d) s in
     case r of [] \<Rightarrow> (s, [], False) | _ # b \<Rightarrow> (a, b, True))"

lemma cut_none: "d \<notin> set s \<Longrightarrow> cut d s = (s, [], False)"
proof -
  assume "d \<notin> set s"
  then have "dropWhile (\<lambda>c. c \<noteq> d) s = []" by (auto simp: dropWhile_eq_Nil_conv)
  then show ?thesis unfolding cut_def Let_def by (simp only: list.case)
qed

lemma cut_at: "d \<notin> set a \<Longrightarrow> cut d (a @ d # b) = (a, b, True)"
proof -
  assume "d \<notin> set a"
  then have "takeWhile (\<lambda>c. c \<noteq> d) (a @ d # b) = a" "dropWhile (\<lambda>c. c \<noteq> d) (a @ d # b) = d # b"
    by (induction a) auto
  then show ?thesis by (simp add: cut_def Let_def)
qed

subsection \<open>Numbers\<close>

text \<open>The value of an \<open>int64\<close> computation.\<close>

definition wrap64 :: "int \<Rightarrow> int" where
  "wrap64 x = sint (word_of_int x :: 64 word)"

definition isDigit :: "char \<Rightarrow> bool" where
  "isDigit c \<longleftrightarrow> c \<in> set ''0123456789''"

definition digitVal :: "char \<Rightarrow> int" where
  "digitVal c = of_char c - 48"

primrec digitsVal :: "int \<Rightarrow> string \<Rightarrow> int" where
  "digitsVal acc [] = acc"
| "digitsVal acc (c # cs) = digitsVal (10 * acc + digitVal c) cs"

lemma digitsVal_append [simp]: "digitsVal a (xs @ ys) = digitsVal (digitsVal a xs) ys"
  by (induction xs arbitrary: a) simp_all

text \<open>\<open>strconv.Atoi\<close> with its 64-bit range.\<close>

definition Atoi :: "string \<Rightarrow> int option" where
  "Atoi s =
     (let neg = (case s of c # _ \<Rightarrow> c = CHR ''-'' | [] \<Rightarrow> False);
          body = (case s of c # r \<Rightarrow> if c = CHR ''-'' \<or> c = CHR ''+'' then r else s | [] \<Rightarrow> s);
          v = (if neg then - digitsVal 0 body else digitsVal 0 body)
      in if body = [] \<or> \<not> list_all isDigit body \<or> v < - 9223372036854775808 \<or> 9223372036854775807 < v then None
         else Some v)"

lemma char_digit:
  assumes "n < 10"
  shows "isDigit (char_of (48 + n :: nat))" "digitVal (char_of (48 + n :: nat)) = int n"
    "solid (char_of (48 + n :: nat))" "char_of (48 + n :: nat) \<notin> {CHR ''-'', CHR ''+'', CHR '',''}"
proof -
  have all: "\<forall>n \<in> set [0..<10]. isDigit (char_of (48 + n :: nat)) \<and> digitVal (char_of (48 + n :: nat)) = int n \<and>
      solid (char_of (48 + n :: nat)) \<and> char_of (48 + n :: nat) \<notin> {CHR ''-'', CHR ''+'', CHR '',''}"
    by code_simp
  have "n \<in> set [0..<10]" using assms by simp
  with all show "isDigit (char_of (48 + n :: nat))" "digitVal (char_of (48 + n :: nat)) = int n"
    "solid (char_of (48 + n :: nat))" "char_of (48 + n :: nat) \<notin> {CHR ''-'', CHR ''+'', CHR '',''}"
    by blast+
qed

lemma nat_str_digits:
  "nat_str n \<noteq> [] \<and> list_all isDigit (nat_str n) \<and> digitsVal 0 (nat_str n) = int n \<and>
     (\<forall>c \<in> set (nat_str n). solid c \<and> c \<notin> {CHR ''-'', CHR ''+'', CHR '',''})"
proof (induction n rule: nat_str.induct)
  case (1 n)
  show ?case
  proof (cases "n < 10")
    case True
    then show ?thesis using char_digit [OF True] by (simp add: nat_str.simps [of n])
  next
    case False
    have m: "n mod 10 < 10" by simp
    have eq: "nat_str n = nat_str (n div 10) @ [char_of (48 + n mod 10)]"
      using False by (simp add: nat_str.simps [of n])
    have "digitsVal 0 (nat_str n) = 10 * int (n div 10) + int (n mod 10)"
      using 1 [OF False] char_digit(2) [OF m] by (simp add: eq)
    also have "\<dots> = int n" by (metis mult.commute div_mult_mod_eq of_nat_add of_nat_mult of_nat_numeral)
    finally show ?thesis using 1 [OF False] char_digit(1,3,4) [OF m] unfolding eq by auto
  qed
qed

lemma Atoi_nat_str:
  assumes "int n \<le> 9223372036854775807"
  shows "Atoi (nat_str n) = Some (int n)"
proof -
  obtain c r where cr: "nat_str n = c # r" using nat_str_digits [of n] by (cases "nat_str n") auto
  then have "c \<noteq> CHR ''-''" "c \<noteq> CHR ''+''" using nat_str_digits [of n] by auto
  then show ?thesis using nat_str_digits [of n] assms cr by (auto simp: Atoi_def Let_def)
qed

lemma trimSpace_nat_str [simp]: "trimSpace (nat_str n) = nat_str n"
  by (rule trimSpace_solid) (use nat_str_digits [of n] in \<open>auto\<close>)

end
