(* ===== verification/Routes.thy ===== *)
theory Routes
  imports GoStrings "HOL-Library.Product_Lexorder"
begin

section \<open>Routing of gateway requests (\<open>gateway/routes.go\<close>)\<close>

text \<open>
  Path patterns of the endpoints platforms declare, the table one generation of plugins is served
  from, and the lookup of a request in it. The lemmas show that dropping duplicate endpoints and
  sorting by precision loses no path: a request is answered whenever any endpoint matches it, and by a most
  precise one.
\<close>

subsection \<open>Segments\<close>

record segment =
  sg_literal :: string
  sg_param :: string
  sg_isParam :: bool
  sg_rest :: bool

definition parseSegment :: "string \<Rightarrow> segment" where
  "parseSegment s =
     (case s of
        [] \<Rightarrow> \<lparr>sg_literal = s, sg_param = [], sg_isParam = False, sg_rest = False\<rparr>
      | c # name \<Rightarrow>
          if c = CHR ''*'' then \<lparr>sg_literal = [], sg_param = name, sg_isParam = True, sg_rest = True\<rparr>
          else if c = CHR '':'' then
            (if CHR '':'' \<in> set name
             then \<lparr>sg_literal = dropWhile (\<lambda>x. x \<noteq> CHR '':'') name, sg_param = takeWhile (\<lambda>x. x \<noteq> CHR '':'') name,
                sg_isParam = True, sg_rest = False\<rparr>
             else \<lparr>sg_literal = [], sg_param = name, sg_isParam = True, sg_rest = False\<rparr>)
          else \<lparr>sg_literal = s, sg_param = [], sg_isParam = False, sg_rest = False\<rparr>)"

definition segment_match :: "segment \<Rightarrow> string \<Rightarrow> string option" where
  "segment_match g s =
     (if \<not> sg_isParam g then (if s = sg_literal g then Some [] else None)
      else if length s \<le> length (sg_literal g) \<or> drop (length s - length (sg_literal g)) s \<noteq> sg_literal g then None
      else Some (take (length s - length (sg_literal g)) s))"

definition segment_key :: "segment \<Rightarrow> string" where
  "segment_key g =
     (if sg_rest g then ''*'' else if sg_isParam g then CHR '':'' # sg_literal g else sg_literal g)"

subsection \<open>Patterns\<close>

record pathPattern =
  pp_method :: string
  pp_segs :: "segment list"
  pp_static :: nat
  pp_suffixed :: nat

definition trimSlash :: "string \<Rightarrow> string" where
  "trimSlash s = rev (dropWhile (\<lambda>c. c = CHR ''/'') (rev (dropWhile (\<lambda>c. c = CHR ''/'') s)))"

definition splitPath :: "string \<Rightarrow> string list" where
  "splitPath path = (if trimSlash path = [] then [] else splitOn CHR ''/'' (trimSlash path))"

definition add_segment :: "pathPattern \<Rightarrow> string \<Rightarrow> pathPattern" where
  "add_segment p s =
     (let g = parseSegment s;
          q = (if \<not> sg_isParam g then p\<lparr>pp_static := pp_static p + 1\<rparr>
               else if sg_literal g \<noteq> [] then p\<lparr>pp_suffixed := pp_suffixed p + 1\<rparr> else p)
      in q\<lparr>pp_segs := pp_segs p @ [g]\<rparr>)"

text \<open>\<open>upper\<close> is \<open>strings.ToUpper\<close>.\<close>

definition parsePattern :: "(string \<Rightarrow> string) \<Rightarrow> string \<Rightarrow> string \<Rightarrow> pathPattern" where
  "parsePattern upper method path =
     (let m = upper (trimSpace method) in
      foldl add_segment \<lparr>pp_method = (if m = [] then ''POST'' else m), pp_segs = [], pp_static = 0, pp_suffixed = 0\<rparr>
        (splitPath path))"

definition pattern_key :: "pathPattern \<Rightarrow> string" where
  "pattern_key p = pp_method p @ '' /'' @ joinWith CHR ''/'' (map segment_key (pp_segs p))"

definition set_param :: "(string \<rightharpoonup> string) \<Rightarrow> string \<Rightarrow> string \<Rightarrow> (string \<rightharpoonup> string)" where
  "set_param m k v = (if k = [] then m else m(k \<mapsto> v))"

fun match_segs :: "segment list \<Rightarrow> string list \<Rightarrow> (string \<rightharpoonup> string) \<Rightarrow> (string \<rightharpoonup> string) option" where
  "match_segs [] segs m = (if segs = [] then Some m else None)"
| "match_segs (g # gs) segs m =
     (if sg_rest g then Some (set_param m (sg_param g) (joinWith CHR ''/'' segs))
      else case segs of
          [] \<Rightarrow> None
        | s # ss \<Rightarrow>
            (case segment_match g s of
               None \<Rightarrow> None
             | Some v \<Rightarrow> match_segs gs ss (if sg_isParam g then set_param m (sg_param g) v else m)))"

definition pattern_match :: "pathPattern \<Rightarrow> string list \<Rightarrow> (string \<rightharpoonup> string) option" where
  "pattern_match p segs = match_segs (pp_segs p) segs Map.empty"

definition morePrecise :: "pathPattern \<Rightarrow> pathPattern \<Rightarrow> bool" where
  "morePrecise a b =
     (if pp_static a \<noteq> pp_static b then pp_static b < pp_static a
      else if pp_suffixed a \<noteq> pp_suffixed b then pp_suffixed b < pp_suffixed a
      else length (pp_segs b) < length (pp_segs a))"

subsection \<open>The table of a generation\<close>

record endpoint =
  en_plugin :: string
  en_platform :: string
  en_method :: string
  en_path :: string

record route =
  ro_pattern :: pathPattern
  ro_binding :: endpoint

definition builtin :: "endpoint \<Rightarrow> bool" where
  "builtin b \<longleftrightarrow> en_plugin b = []"

definition endpoint_pattern :: "(string \<Rightarrow> string) \<Rightarrow> endpoint \<Rightarrow> pathPattern" where
  "endpoint_pattern upper b = parsePattern upper (en_method b) (en_path b)"

definition add_route :: "(string \<Rightarrow> string) \<Rightarrow> endpoint \<Rightarrow> route list \<Rightarrow> route list" where
  "add_route upper b rs =
     (let p = endpoint_pattern upper b in
      if pattern_key p \<in> (\<lambda>r. pattern_key (ro_pattern r)) ` set rs then rs
      else rs @ [\<lparr>ro_pattern = p, ro_binding = b\<rparr>])"

text \<open>
  Both sorts are stable, as \<open>sort_key\<close> is; \<open>precision_less\<close> below shows that ordering by \<open>precision\<close>
  is ordering by \<open>morePrecise\<close>.
\<close>

definition precision :: "pathPattern \<Rightarrow> int \<times> int \<times> int" where
  "precision p = (- int (pp_static p), - int (pp_suffixed p), - int (length (pp_segs p)))"

definition buildRouteTable :: "(string \<Rightarrow> string) \<Rightarrow> endpoint list \<Rightarrow> route list" where
  "buildRouteTable upper eps =
     sort_key (\<lambda>r. precision (ro_pattern r))
       (fold (add_route upper) (sort_key (\<lambda>b. if builtin b then 0 else 1 :: nat) eps) [])"

primrec first_match :: "string \<Rightarrow> string list \<Rightarrow> route list \<Rightarrow> (route \<times> (string \<rightharpoonup> string)) option" where
  "first_match method segs [] = None"
| "first_match method segs (r # rs) =
     (if pp_method (ro_pattern r) \<noteq> method then first_match method segs rs
      else case pattern_match (ro_pattern r) segs of
          Some params \<Rightarrow> Some (r, params)
        | None \<Rightarrow> first_match method segs rs)"

definition match_route :: "route list \<Rightarrow> string \<Rightarrow> string \<Rightarrow> (route \<times> (string \<rightharpoonup> string)) option" where
  "match_route t method path = first_match method (splitPath path) t"

lemma precision_less: "precision a < precision b \<longleftrightarrow> morePrecise a b"
  by (auto simp: precision_def morePrecise_def)


subsection \<open>Keys\<close>

text \<open>A segment the parser makes: what it matches is a function of its key.\<close>

definition parsed :: "segment \<Rightarrow> bool" where
  "parsed g \<longleftrightarrow> (\<exists>s. CHR ''/'' \<notin> set s \<and> g = parseSegment s)"

lemma parsed_cases:
  assumes "parsed g"
  obtains (Rest) "sg_rest g" "sg_isParam g" "sg_literal g = []"
  | (Param) "\<not> sg_rest g" "sg_isParam g" "CHR ''/'' \<notin> set (sg_literal g)"
  | (Literal) "\<not> sg_rest g" "\<not> sg_isParam g" "CHR ''/'' \<notin> set (sg_literal g)"
      "\<forall>x. sg_literal g \<noteq> CHR ''*'' # x" "\<forall>x. sg_literal g \<noteq> CHR '':'' # x"
proof -
  from assms obtain s where s: "CHR ''/'' \<notin> set s" and g: "g = parseSegment s" unfolding parsed_def by blast
  show thesis
  proof (cases s)
    case Nil
    then show ?thesis using g by (intro Literal) (simp_all add: parseSegment_def)
  next
    case (Cons c name)
    have free: "CHR ''/'' \<notin> set (dropWhile (\<lambda>x. x \<noteq> CHR '':'') name)"
      using s Cons by (auto dest: set_dropWhileD)
    consider "c = CHR ''*''" | "c = CHR '':''" | "c \<noteq> CHR ''*''" "c \<noteq> CHR '':''" by blast
    then show ?thesis
    proof cases
      case 1
      then show ?thesis using g Cons by (intro Rest) (simp_all add: parseSegment_def)
    next
      case 2
      then show ?thesis using g Cons free by (intro Param) (simp_all add: parseSegment_def)
    next
      case 3
      then show ?thesis using g Cons s by (intro Literal) (simp_all add: parseSegment_def)
    qed
  qed
qed

lemma key_segment_alike:
  assumes "parsed g" and "parsed h" and "segment_key g = segment_key h"
  shows "sg_rest g = sg_rest h \<and> sg_isParam g = sg_isParam h \<and> sg_literal g = sg_literal h"
proof -
  show ?thesis
    using assms(1) assms(3) by (cases rule: parsed_cases; cases rule: parsed_cases [OF assms(2)])
      (simp_all add: segment_key_def, metis+)
qed

lemma key_no_slash: "parsed g \<Longrightarrow> CHR ''/'' \<notin> set (segment_key g)"
  by (erule parsed_cases) (simp_all add: segment_key_def)

definition alike :: "segment \<Rightarrow> segment \<Rightarrow> bool" where
  "alike g h \<longleftrightarrow> sg_rest g = sg_rest h \<and> sg_isParam g = sg_isParam h \<and> sg_literal g = sg_literal h"

lemma alike_match: "alike g h \<Longrightarrow> segment_match g s = segment_match h s"
  by (simp add: alike_def segment_match_def)

lemma match_segs_alike:
  assumes "list_all2 alike gs hs"
  shows "match_segs gs segs m = None \<longleftrightarrow> match_segs hs segs n = None"
  using assms
proof (induction gs hs arbitrary: segs m n rule: list_all2_induct)
  case (Cons g gs h hs)
  from Cons(1) have "sg_rest g = sg_rest h" by (simp add: alike_def)
  then show ?case
    using Cons(3) alike_match [OF Cons(1)] by (cases segs) (simp_all split: option.splits)
qed simp

lemma joinWith_inj:
  assumes "joinWith d xs = joinWith d ys" and "\<forall>w \<in> set xs. d \<notin> set w" "\<forall>w \<in> set ys. d \<notin> set w"
    and "xs \<noteq> []" "ys \<noteq> []"
  shows "xs = ys"
  using split_join [OF assms(4,2)] split_join [OF assms(5,3)] assms(1) by metis

lemma splitOn_no_sep: "w \<in> set (splitOn d s) \<Longrightarrow> d \<notin> set w"
  by (induction d s arbitrary: w rule: splitOn.induct) (auto split: list.splits if_splits)

lemma foldl_add_segment:
  "pp_method (foldl add_segment p ss) = pp_method p"
  "pp_segs (foldl add_segment p ss) = pp_segs p @ map parseSegment ss"
  "pp_static (foldl add_segment p ss) = pp_static p + length (filter (\<lambda>g. \<not> sg_isParam g) (map parseSegment ss))"
  "pp_suffixed (foldl add_segment p ss) = pp_suffixed p +
     length (filter (\<lambda>g. sg_isParam g \<and> sg_literal g \<noteq> []) (map parseSegment ss))"
  by (induction ss arbitrary: p) (simp_all add: add_segment_def Let_def)

lemma parsePattern_segs:
  "pp_segs (parsePattern upper method path) = map parseSegment (splitPath path)"
  "pp_static (parsePattern upper method path) = length (filter (\<lambda>g. \<not> sg_isParam g) (map parseSegment (splitPath path)))"
  "pp_suffixed (parsePattern upper method path) =
     length (filter (\<lambda>g. sg_isParam g \<and> sg_literal g \<noteq> []) (map parseSegment (splitPath path)))"
  by (simp_all add: parsePattern_def Let_def foldl_add_segment)

lemma splitPath_no_slash: "w \<in> set (splitPath path) \<Longrightarrow> CHR ''/'' \<notin> set w"
  by (auto simp: splitPath_def dest: splitOn_no_sep split: if_splits)

lemma trimSlash_hd: "trimSlash s \<noteq> [] \<Longrightarrow> hd (trimSlash s) \<noteq> CHR ''/''"
proof -
  let ?t = "dropWhile (\<lambda>c. c = CHR ''/'') s"
  assume ne: "trimSlash s \<noteq> []"
  have "rev (takeWhile (\<lambda>c. c = CHR ''/'') (rev ?t) @ dropWhile (\<lambda>c. c = CHR ''/'') (rev ?t)) = ?t" by simp
  then have split: "?t = trimSlash s @ rev (takeWhile (\<lambda>c. c = CHR ''/'') (rev ?t))"
    unfolding trimSlash_def rev_append by (rule sym)
  have first: "hd ?t = hd (trimSlash s)" by (subst split) (simp add: ne)
  have "?t \<noteq> []" by (subst split) (simp add: ne)
  then have "hd ?t \<noteq> CHR ''/''" using hd_dropWhile [of "\<lambda>c. c = CHR ''/''" s] by blast
  then show ?thesis unfolding first .
qed

text \<open>The first segment of a path is not empty, so the key of a pattern with segments is not either.\<close>

lemma splitPath_hd: "splitPath path \<noteq> [] \<Longrightarrow> hd (splitPath path) \<noteq> []"
proof -
  assume "splitPath path \<noteq> []"
  then have ne: "trimSlash path \<noteq> []" and sp: "splitPath path = splitOn CHR ''/'' (trimSlash path)"
    by (auto simp: splitPath_def split: if_splits)
  obtain c cs where c: "trimSlash path = c # cs" using ne by (cases "trimSlash path") auto
  with trimSlash_hd [OF ne] have "c \<noteq> CHR ''/''" by simp
  with c sp show ?thesis by (cases "splitOn CHR ''/'' cs") auto
qed

lemma joinWith_ne: "xs \<noteq> [] \<Longrightarrow> hd xs \<noteq> [] \<Longrightarrow> joinWith d xs \<noteq> []"
  by (cases xs rule: remdups_adj.cases) auto

lemma key_ne: "s \<noteq> [] \<Longrightarrow> segment_key (parseSegment s) \<noteq> []"
  by (cases s) (simp_all add: segment_key_def parseSegment_def)

definition keys_of :: "string \<Rightarrow> string list" where
  "keys_of path = map (\<lambda>s. segment_key (parseSegment s)) (splitPath path)"

lemma keys_of_inj:
  assumes "joinWith CHR ''/'' (keys_of a) = joinWith CHR ''/'' (keys_of b)"
  shows "keys_of a = keys_of b"
proof -
  have parsed: "parsed (parseSegment s)" if "s \<in> set (splitPath x)" for s x
    using that splitPath_no_slash by (auto simp: parsed_def)
  have free: "\<forall>w \<in> set (keys_of x). CHR ''/'' \<notin> set w" for x
    using key_no_slash [OF parsed] by (auto simp: keys_of_def)
  have empty: "keys_of x = []" if "joinWith CHR ''/'' (keys_of x) = []" for x
  proof (rule ccontr)
    assume ne: "keys_of x \<noteq> []"
    then have "splitPath x \<noteq> []" by (simp add: keys_of_def)
    with splitPath_hd [OF this] have "hd (keys_of x) \<noteq> []" by (simp add: keys_of_def hd_map key_ne)
    with joinWith_ne [OF ne] that show False by blast
  qed
  show ?thesis
  proof (cases "keys_of a = [] \<or> keys_of b = []")
    case True
    then show ?thesis using empty [of a] empty [of b] assms by (metis joinWith.simps(1))
  next
    case False
    then show ?thesis using joinWith_inj [OF assms free free] by blast
  qed
qed

text \<open>Endpoints with the same key match the same requests, and are equally precise.\<close>

lemma same_key_alike:
  assumes "pattern_key (parsePattern upper m a) = pattern_key (parsePattern upper n b)"
    and "CHR '' '' \<notin> set (pp_method (parsePattern upper m a))" "CHR '' '' \<notin> set (pp_method (parsePattern upper n b))"
  shows "pp_method (parsePattern upper m a) = pp_method (parsePattern upper n b)"
    and "list_all2 alike (pp_segs (parsePattern upper m a)) (pp_segs (parsePattern upper n b))"
proof -
  let ?p = "parsePattern upper m a" and ?q = "parsePattern upper n b"
  have segs: "map segment_key (pp_segs ?p) = keys_of a" "map segment_key (pp_segs ?q) = keys_of b"
    by (simp_all add: parsePattern_segs keys_of_def)
  from assms(1) have "pp_method ?p @ CHR '' '' # CHR ''/'' # joinWith CHR ''/'' (keys_of a) =
      pp_method ?q @ CHR '' '' # CHR ''/'' # joinWith CHR ''/'' (keys_of b)"
    by (simp add: pattern_key_def segs)
  from this [THEN arg_cong, of "cut CHR '' ''"]
  have "pp_method ?p = pp_method ?q" "joinWith CHR ''/'' (keys_of a) = joinWith CHR ''/'' (keys_of b)"
    using cut_at [OF assms(2)] cut_at [OF assms(3)] by simp_all
  then show "pp_method ?p = pp_method ?q" and "list_all2 alike (pp_segs ?p) (pp_segs ?q)"
  proof -
    assume "joinWith CHR ''/'' (keys_of a) = joinWith CHR ''/'' (keys_of b)"
    then have keys: "map segment_key (pp_segs ?p) = map segment_key (pp_segs ?q)"
      using keys_of_inj by (simp only: segs)
    have parsed: "parsed g" if "g \<in> set (pp_segs ?p) \<union> set (pp_segs ?q)" for g
      using that splitPath_no_slash by (auto simp: parsePattern_segs parsed_def)
    from keys show "list_all2 alike (pp_segs ?p) (pp_segs ?q)"
      unfolding alike_def list_all2_conv_all_nth
      by (metis (no_types, lifting) UnI1 UnI2 key_segment_alike length_map nth_map nth_mem parsed)
  qed
qed

lemma alike_precision:
  assumes "list_all2 alike gs hs"
  shows "length gs = length hs \<and> length (filter (\<lambda>g. \<not> sg_isParam g) gs) = length (filter (\<lambda>g. \<not> sg_isParam g) hs) \<and>
    length (filter (\<lambda>g. sg_isParam g \<and> sg_literal g \<noteq> []) gs) = length (filter (\<lambda>g. sg_isParam g \<and> sg_literal g \<noteq> []) hs)"
  using assms by (induction rule: list_all2_induct) (auto simp: alike_def)

lemma same_key_precision:
  assumes "list_all2 alike (pp_segs (parsePattern upper m a)) (pp_segs (parsePattern upper n b))"
  shows "precision (parsePattern upper m a) = precision (parsePattern upper n b)"
  using alike_precision [OF assms] by (simp add: precision_def parsePattern_segs)


subsection \<open>The table\<close>

definition mk_route :: "(string \<Rightarrow> string) \<Rightarrow> endpoint \<Rightarrow> route" where
  "mk_route upper b = \<lparr>ro_pattern = endpoint_pattern upper b, ro_binding = b\<rparr>"

definition route_key :: "route \<Rightarrow> string" where
  "route_key r = pattern_key (ro_pattern r)"

abbreviation end_key :: "(string \<Rightarrow> string) \<Rightarrow> endpoint \<Rightarrow> string" where
  "end_key upper b \<equiv> pattern_key (endpoint_pattern upper b)"

lemma add_route_simp:
  "add_route upper b rs = (if end_key upper b \<in> route_key ` set rs then rs else rs @ [mk_route upper b])"
  by (simp add: add_route_def Let_def route_key_def mk_route_def)

lemma route_key_mk [simp]: "route_key (mk_route upper b) = end_key upper b"
  by (simp add: route_key_def mk_route_def)

text \<open>A route is the first endpoint of its key, and every key has a route.\<close>

lemma fold_routes_first:
  assumes "r \<in> set (fold (add_route upper) xs rs)" and "r \<notin> set rs"
  shows "\<exists>ys b zs. xs = ys @ b # zs \<and> r = mk_route upper b \<and> (\<forall>y \<in> set ys. end_key upper y \<noteq> end_key upper b)"
  using assms
proof (induction xs arbitrary: rs)
  case (Cons x xs)
  show ?case
  proof (cases "r \<in> set (add_route upper x rs)")
    case True
    with Cons.prems(2) have "r = mk_route upper x" by (auto simp: add_route_simp split: if_splits)
    then show ?thesis by (intro exI [of _ "[]"] exI [of _ x] exI [of _ xs]) simp
  next
    case False
    with Cons.IH [of "add_route upper x rs"] Cons.prems(1)
    obtain ys b zs where x: "xs = ys @ b # zs" "r = mk_route upper b" "\<forall>y \<in> set ys. end_key upper y \<noteq> end_key upper b"
      by auto
    have known: "end_key upper x \<in> route_key ` set (add_route upper x rs)"
      by (auto simp: add_route_simp)
    have "route_key r \<notin> route_key ` set (add_route upper x rs)"
      if "r \<in> set (fold (add_route upper) xs ts)" "r \<notin> set ts" "ts = add_route upper x rs" for ts
    proof -
      have "route_key q \<notin> route_key ` set ts" if "q \<in> set (fold (add_route upper) ws ts)" "q \<notin> set ts" for q ws ts
        using that
      proof (induction ws arbitrary: ts)
        case (Cons w ws)
        show ?case
        proof (cases "q \<in> set (add_route upper w ts)")
          case True
          with Cons.prems(2) show ?thesis by (auto simp: add_route_simp split: if_splits)
        next
          case False
          with Cons show ?thesis by (force simp: add_route_simp split: if_splits)
        qed
      qed simp
      with that show ?thesis by blast
    qed
    with False Cons.prems(1) known x(2) have "end_key upper x \<noteq> end_key upper b" by auto
    with x show ?thesis by (intro exI [of _ "x # ys"] exI [of _ b] exI [of _ zs]) simp
  qed
qed simp

lemma fold_routes_key:
  "b \<in> set xs \<Longrightarrow> \<exists>r \<in> set (fold (add_route upper) xs rs). route_key r = end_key upper b"
proof (induction xs arbitrary: rs)
  case (Cons x xs)
  have mono: "r \<in> set (fold (add_route upper) ws ts)" if "r \<in> set ts" for r ws ts
    using that by (induction ws arbitrary: ts) (auto simp: add_route_simp)
  show ?case
  proof (cases "b = x")
    case True
    have "\<exists>r \<in> set (add_route upper x rs). route_key r = end_key upper x" by (auto simp: add_route_simp)
    with True mono show ?thesis by fastforce
  next
    case False
    with Cons show ?thesis by simp
  qed
qed simp

text \<open>The sort puts built-in endpoints first, so they win their key.\<close>

definition flag :: "endpoint \<Rightarrow> nat" where
  "flag b = (if builtin b then 0 else 1)"

lemma table_route:
  assumes "r \<in> set (buildRouteTable upper eps)"
  shows "ro_binding r \<in> set eps \<and> ro_pattern r = endpoint_pattern upper (ro_binding r) \<and>
    (\<forall>b \<in> set eps. builtin b \<and> end_key upper b = route_key r \<longrightarrow> builtin (ro_binding r))"
proof -
  let ?xs = "sort_key flag eps"
  have "r \<in> set (fold (add_route upper) ?xs [])" using assms by (simp add: buildRouteTable_def flag_def [abs_def])
  from fold_routes_first [OF this] obtain ys b zs where split: "?xs = ys @ b # zs" and r: "r = mk_route upper b"
    and first: "\<forall>y \<in> set ys. end_key upper y \<noteq> end_key upper b" by auto
  have mem: "set eps = set ys \<union> {b} \<union> set zs" using split by (metis Un_insert_left Un_insert_right list.simps(15) set_append set_sort sup_bot.right_neutral sup_commute)
  have sorted: "\<forall>z \<in> set zs. flag b \<le> flag z"
    using sorted_sort_key [of flag eps] unfolding split by (simp add: sorted_append)
  have "builtin b" if "c \<in> set eps" "builtin c" "end_key upper c = end_key upper b" for c
  proof -
    from that(1,3) mem first consider "c = b" | "c \<in> set zs" by blast
    then show ?thesis
    proof cases
      case 2
      with sorted that(2) show ?thesis by (force simp: flag_def split: if_splits)
    qed (use that in simp)
  qed
  then show ?thesis using r mem by (auto simp: mk_route_def route_key_def)
qed

lemma table_key:
  assumes "b \<in> set eps"
  shows "\<exists>r \<in> set (buildRouteTable upper eps). route_key r = end_key upper b"
  using fold_routes_key [of b "sort_key flag eps" upper "[]"] assms by (simp add: buildRouteTable_def flag_def [abs_def])

lemma table_sorted: "sorted (map (\<lambda>r. precision (ro_pattern r)) (buildRouteTable upper eps))"
  by (simp add: buildRouteTable_def)

definition route_serves :: "route \<Rightarrow> string \<Rightarrow> string list \<Rightarrow> bool" where
  "route_serves r method segs \<longleftrightarrow> pp_method (ro_pattern r) = method \<and> pattern_match (ro_pattern r) segs \<noteq> None"

lemma first_match_Some:
  assumes "first_match method segs rs = Some (r, params)"
  shows "\<exists>ys zs. rs = ys @ r # zs \<and> pp_method (ro_pattern r) = method \<and> pattern_match (ro_pattern r) segs = Some params \<and>
    (\<forall>y \<in> set ys. \<not> route_serves y method segs)"
  using assms
proof (induction rs)
  case (Cons x xs)
  show ?case
  proof (cases "route_serves x method segs")
    case True
    with Cons.prems have "x = r \<and> pp_method (ro_pattern r) = method \<and> pattern_match (ro_pattern r) segs = Some params"
      by (auto simp: route_serves_def)
    then show ?thesis by (intro exI [of _ "[]"] exI [of _ xs]) simp
  next
    case False
    with Cons.prems have "first_match method segs xs = Some (r, params)"
      by (auto simp: route_serves_def split: if_splits option.splits)
    from Cons.IH [OF this] obtain ys zs where "xs = ys @ r # zs" "pp_method (ro_pattern r) = method"
      "pattern_match (ro_pattern r) segs = Some params" "\<forall>y \<in> set ys. \<not> route_serves y method segs" by blast
    with False show ?thesis by (intro exI [of _ "x # ys"] exI [of _ zs]) simp
  qed
qed simp

lemma first_match_None: "first_match method segs rs = None \<longleftrightarrow> (\<forall>r \<in> set rs. \<not> route_serves r method segs)"
  by (induction rs) (auto simp: route_serves_def split: option.splits)

subsection \<open>Properties\<close>

definition serves :: "(string \<Rightarrow> string) \<Rightarrow> endpoint \<Rightarrow> string \<Rightarrow> string \<Rightarrow> bool" where
  "serves upper b method path \<longleftrightarrow>
     pp_method (endpoint_pattern upper b) = method \<and> pattern_match (endpoint_pattern upper b) (splitPath path) \<noteq> None"

lemma table_serves:
  assumes "b \<in> set eps" and "serves upper b method path"
    and methods: "\<forall>e \<in> set eps. CHR '' '' \<notin> set (pp_method (endpoint_pattern upper e))"
  shows "\<exists>r \<in> set (buildRouteTable upper eps). route_key r = end_key upper b \<and> route_serves r method (splitPath path) \<and>
    precision (ro_pattern r) = precision (endpoint_pattern upper b)"
proof -
  from table_key [OF assms(1)] obtain r where r: "r \<in> set (buildRouteTable upper eps)" "route_key r = end_key upper b" by blast
  from table_route [OF r(1)] have e: "ro_binding r \<in> set eps" "ro_pattern r = endpoint_pattern upper (ro_binding r)" by blast+
  have key: "pattern_key (endpoint_pattern upper (ro_binding r)) = end_key upper b"
    using r(2) e(2) by (simp add: route_key_def)
  have sp: "CHR '' '' \<notin> set (pp_method (endpoint_pattern upper (ro_binding r)))" "CHR '' '' \<notin> set (pp_method (endpoint_pattern upper b))"
    using methods e(1) assms(1) by blast+
  note same = same_key_alike [OF key [unfolded endpoint_pattern_def] sp [unfolded endpoint_pattern_def]]
  have "route_serves r method (splitPath path)"
    using assms(2) same(1) match_segs_alike [OF same(2), of "splitPath path" Map.empty Map.empty]
    by (simp add: route_serves_def serves_def e(2) endpoint_pattern_def pattern_match_def del: not_None_eq)
  moreover have "precision (ro_pattern r) = precision (endpoint_pattern upper b)"
    using same_key_precision [OF same(2)] by (simp add: e(2) endpoint_pattern_def)
  ultimately show ?thesis using r by blast
qed

text \<open>C21: A request is routed exactly when some endpoint of the generation serves its method and path,
  whatever endpoints were dropped as duplicates. The route then serves it with the parameters
  returned, no endpoint that serves the request is more precise, and it is a built-in endpoint's
  whenever a built-in endpoint has its key.\<close>

theorem routing_finds_best_endpoint:
  assumes "\<forall>e \<in> set eps. CHR '' '' \<notin> set (pp_method (endpoint_pattern upper e))"
  shows "(match_route (buildRouteTable upper eps) method path = None \<longleftrightarrow> (\<forall>b \<in> set eps. \<not> serves upper b method path)) \<and>
    (\<forall>r params. match_route (buildRouteTable upper eps) method path = Some (r, params) \<longrightarrow>
      ro_binding r \<in> set eps \<and> serves upper (ro_binding r) method path \<and>
      pattern_match (endpoint_pattern upper (ro_binding r)) (splitPath path) = Some params \<and>
      (\<forall>b \<in> set eps. serves upper b method path \<longrightarrow>
        \<not> morePrecise (endpoint_pattern upper b) (endpoint_pattern upper (ro_binding r))) \<and>
      (\<forall>b \<in> set eps. builtin b \<and> end_key upper b = end_key upper (ro_binding r) \<longrightarrow> builtin (ro_binding r)))"
proof (intro conjI allI impI)
  let ?t = "buildRouteTable upper eps"
  have reverse: "serves upper (ro_binding r) method path" if "r \<in> set ?t" "route_serves r method (splitPath path)" for r
    using that table_route [OF that(1)] by (simp add: serves_def route_serves_def)
  show "match_route ?t method path = None \<longleftrightarrow> (\<forall>b \<in> set eps. \<not> serves upper b method path)"
    unfolding match_route_def first_match_None using reverse table_serves [OF _ _ assms] table_route by metis
  fix r params
  assume "match_route ?t method path = Some (r, params)"
  from first_match_Some [OF this [unfolded match_route_def]] obtain ys zs where split: "?t = ys @ r # zs"
    and r: "pp_method (ro_pattern r) = method" "pattern_match (ro_pattern r) (splitPath path) = Some params"
    and before: "\<forall>y \<in> set ys. \<not> route_serves y method (splitPath path)" by blast
  have mem: "r \<in> set ?t" unfolding split by simp
  note route = table_route [OF mem]
  show "ro_binding r \<in> set eps" "pattern_match (endpoint_pattern upper (ro_binding r)) (splitPath path) = Some params"
    using route r by auto
  show "serves upper (ro_binding r) method path" using reverse [OF mem] r by (simp add: route_serves_def)
  show "\<forall>b \<in> set eps. builtin b \<and> end_key upper b = end_key upper (ro_binding r) \<longrightarrow> builtin (ro_binding r)"
    using route by (simp add: route_key_def)
  show "\<forall>b \<in> set eps. serves upper b method path \<longrightarrow>
      \<not> morePrecise (endpoint_pattern upper b) (endpoint_pattern upper (ro_binding r))"
  proof (intro ballI impI)
    fix b
    assume b: "b \<in> set eps" "serves upper b method path"
    from table_serves [OF b assms] obtain q where q: "q \<in> set ?t" "route_serves q method (splitPath path)"
      "precision (ro_pattern q) = precision (endpoint_pattern upper b)" by blast
    from q(1,2) before split have "q = r \<or> q \<in> set zs" by auto
    moreover have "\<forall>z \<in> set zs. precision (ro_pattern r) \<le> precision (ro_pattern z)"
      using table_sorted [of upper eps] unfolding split by (simp add: sorted_append)
    ultimately have "precision (ro_pattern r) \<le> precision (endpoint_pattern upper b)" using q(3) by auto
    then show "\<not> morePrecise (endpoint_pattern upper b) (endpoint_pattern upper (ro_binding r))"
      using route by (simp add: precision_less [symmetric])
  qed
qed

subsection \<open>Parameters\<close>

text \<open>The path a pattern and its parameters stand for; a trailing \<open>*name\<close> stands for the rest.\<close>

fun fill_segs :: "segment list \<Rightarrow> (string \<rightharpoonup> string) \<Rightarrow> string list" where
  "fill_segs [] m = []"
| "fill_segs (g # gs) m =
     (if sg_rest g
      then (case m (sg_param g) of None \<Rightarrow> [] | Some v \<Rightarrow> if v = [] then [] else splitOn CHR ''/'' v)
      else (if sg_isParam g then (case m (sg_param g) of None \<Rightarrow> [] | Some v \<Rightarrow> v) @ sg_literal g
            else sg_literal g) # fill_segs gs m)"

definition param_names :: "segment list \<Rightarrow> string list" where
  "param_names gs = map sg_param (filter sg_isParam gs)"

definition well_named :: "segment list \<Rightarrow> bool" where
  "well_named gs \<longleftrightarrow> distinct (param_names gs) \<and> [] \<notin> set (param_names gs) \<and> (\<forall>g \<in> set gs. sg_rest g \<longrightarrow> sg_isParam g)"

lemma match_segs_other:
  "match_segs gs segs m0 = Some m \<Longrightarrow> \<forall>g \<in> set gs. sg_rest g \<longrightarrow> sg_isParam g \<Longrightarrow> k \<notin> set (param_names gs) \<Longrightarrow> m k = m0 k"
proof (induction gs segs m0 rule: match_segs.induct)
  case (2 g gs segs m0)
  show ?case
  proof (cases "sg_rest g")
    case True
    with 2(2,3,4) show ?thesis by (auto simp: set_param_def param_names_def split: if_splits)
  next
    case False
    with 2(2) obtain s ss v where sv: "segs = s # ss" "segment_match g s = Some v"
      "match_segs gs ss (if sg_isParam g then set_param m0 (sg_param g) v else m0) = Some m"
      by (auto split: list.splits option.splits)
    have "k \<notin> set (param_names gs)" "sg_isParam g \<longrightarrow> k \<noteq> sg_param g" using 2(4) by (auto simp: param_names_def split: if_splits)
    with 2(1) [OF False sv(1,2,3)] 2(3) show ?thesis by (auto simp: set_param_def split: if_splits)
  qed
qed (auto split: if_splits)

lemma joinWith_last: "xs \<noteq> [] \<Longrightarrow> last xs \<noteq> [] \<Longrightarrow> joinWith d xs \<noteq> []"
  by (induction d xs rule: joinWith.induct) auto

lemma segment_match_whole: "segment_match g s = Some v \<Longrightarrow> s = (if sg_isParam g then v @ sg_literal g else sg_literal g)"
  by (auto simp: segment_match_def split: if_splits) (metis append_take_drop_id)

lemma fill_segs_back:
  assumes "match_segs gs segs m0 = Some m" and "well_named gs"
    and "segs = [] \<or> last segs \<noteq> []" and "\<forall>w \<in> set segs. CHR ''/'' \<notin> set w"
  shows "fill_segs gs m = segs"
  using assms
proof (induction gs segs m0 rule: match_segs.induct)
  case (2 g gs segs m0)
  have named: "sg_isParam g \<longrightarrow> sg_param g \<noteq> [] \<and> sg_param g \<notin> set (param_names gs)" "well_named gs"
    "\<forall>g \<in> set gs. sg_rest g \<longrightarrow> sg_isParam g" "sg_rest g \<longrightarrow> sg_isParam g"
    using 2(3) by (cases "sg_isParam g"; auto simp: well_named_def param_names_def)+
  show ?case
  proof (cases "sg_rest g")
    case True
    with 2(2) named have "m (sg_param g) = Some (joinWith CHR ''/'' segs)"
      by (auto simp: set_param_def split: if_splits)
    then show ?thesis
      using True joinWith_last [of segs] split_join [of segs] 2(4,5) by (cases "segs = []") auto
  next
    case False
    with 2(2) obtain s ss v where sv: "segs = s # ss" "segment_match g s = Some v"
      "match_segs gs ss (if sg_isParam g then set_param m0 (sg_param g) v else m0) = Some m"
      by (auto split: list.splits option.splits)
    have rest: "fill_segs gs m = ss"
      using 2(1) [OF False sv(1,2,3) named(2)] 2(4,5) sv(1) by (auto split: if_splits)
    have "m (sg_param g) = Some v" if "sg_isParam g"
      using match_segs_other [OF sv(3) named(3)] named(1) that by (auto simp: set_param_def)
    then show ?thesis using False rest segment_match_whole [OF sv(2)] sv(1) by simp
  qed
qed (simp split: if_splits)

lemma splitOn_last: "s \<noteq> [] \<Longrightarrow> last s \<noteq> d \<Longrightarrow> last (splitOn d s) \<noteq> []"
proof (induction d s rule: splitOn.induct)
  case (2 d c cs)
  show ?case
  proof (cases "cs = []")
    case True
    with 2 show ?thesis by simp
  next
    case False
    with 2 have IH: "last (splitOn d cs) \<noteq> []" by (auto split: if_splits)
    obtain w ws where w: "splitOn d cs = w # ws" using splitOn_ne by (cases "splitOn d cs") auto
    with IH show ?thesis by (cases ws) auto
  qed
qed simp

lemma splitPath_last: "splitPath path = [] \<or> last (splitPath path) \<noteq> []"
proof (cases "trimSlash path = []")
  case False
  then have "last (trimSlash path) \<noteq> CHR ''/''"
    unfolding trimSlash_def last_rev
    using hd_dropWhile [of "\<lambda>c. c = CHR ''/''" "rev (dropWhile (\<lambda>c. c = CHR ''/'') path)"] by auto
  with splitOn_last [OF False] show ?thesis using False by (simp add: splitPath_def)
qed (simp add: splitPath_def)

text \<open>The parameters a route is called with are exactly the request's: putting them into the
  route's pattern gives back the segments of the requested path, also for suffixed parameters and for
  a rest of any length, provided the pattern's parameter names are distinct.\<close>

lemma route_params_rebuild_path:
  assumes "match_route (buildRouteTable upper eps) method path = Some (r, params)"
    and "well_named (pp_segs (ro_pattern r))"
  shows "fill_segs (pp_segs (ro_pattern r)) params = splitPath path"
proof -
  from first_match_Some [OF assms(1) [unfolded match_route_def]]
  have "match_segs (pp_segs (ro_pattern r)) (splitPath path) Map.empty = Some params"
    by (auto simp: pattern_match_def)
  from fill_segs_back [OF this assms(2) splitPath_last] show ?thesis using splitPath_no_slash by blast
qed

subsection \<open>A concrete table\<close>

definition demo_endpoints :: "endpoint list" where
  "demo_endpoints =
     [\<lparr>en_plugin = ''p'', en_platform = ''p'', en_method = ''POST'', en_path = ''/v1/models/:m''\<rparr>,
      \<lparr>en_plugin = [], en_platform = ''g'', en_method = ''POST'', en_path = ''/v1/models/:model:generateContent''\<rparr>,
      \<lparr>en_plugin = [], en_platform = ''o'', en_method = [], en_path = ''v1/models/:id''\<rparr>,
      \<lparr>en_plugin = ''p'', en_platform = ''p'', en_method = ''GET'', en_path = ''/files/*rest''\<rparr>]"

lemma demo_methods: "\<forall>e \<in> set demo_endpoints. CHR '' '' \<notin> set (pp_method (endpoint_pattern id e))"
  by code_simp

lemma demo_routes:
  "map_option (\<lambda>(r, m). (en_platform (ro_binding r), m ''model'')) (match_route (buildRouteTable id demo_endpoints) ''POST'' ''/v1/models/x:generateContent'') =
     Some (''g'', Some ''x'')"
  "map_option (\<lambda>(r, m). (en_platform (ro_binding r), m ''id'')) (match_route (buildRouteTable id demo_endpoints) ''POST'' ''/v1/models/x/'') =
     Some (''o'', Some ''x'')"
  "map_option (\<lambda>(r, m). (well_named (pp_segs (ro_pattern r)), m ''rest'')) (match_route (buildRouteTable id demo_endpoints) ''GET'' ''files/a//b'') =
     Some (True, Some ''a//b'')"
  by code_simp+

theorem routing_finds_best_endpoint_witness:
  "\<exists>r m. match_route (buildRouteTable id demo_endpoints) ''POST'' ''/v1/models/x/'' = Some (r, m) \<and>
     en_platform (ro_binding r) = ''o'' \<and> serves id (ro_binding r) ''POST'' ''/v1/models/x/''"
proof -
  obtain r m where rm: "match_route (buildRouteTable id demo_endpoints) ''POST'' ''/v1/models/x/'' = Some (r, m)"
    "en_platform (ro_binding r) = ''o''" using demo_routes(2) by auto
  with routing_finds_best_endpoint [OF demo_methods, of "''POST''" "''/v1/models/x/''"] show ?thesis by blast
qed

lemma route_params_rebuild_path_witness:
  "\<exists>r m. match_route (buildRouteTable id demo_endpoints) ''GET'' ''files/a//b'' = Some (r, m) \<and>
     fill_segs (pp_segs (ro_pattern r)) m = [''files'', ''a'', [], ''b'']"
proof -
  obtain r m where rm: "match_route (buildRouteTable id demo_endpoints) ''GET'' ''files/a//b'' = Some (r, m)"
    "well_named (pp_segs (ro_pattern r))" using demo_routes(3) by auto
  have "splitPath ''files/a//b'' = [''files'', ''a'', [], ''b'']" by code_simp
  with route_params_rebuild_path [OF rm] rm(1) show ?thesis by auto
qed

end
