(* ===== verification/EventOutbox.thy ===== *)
theory EventOutbox
  imports GoStrings
begin

section \<open>Delivery of events to plugins (\<open>event/event.go\<close>, \<open>event/delivery/\<close>)\<close>

text \<open>
  Business transactions insert events, numbered by a sequence, into a table; for every subscribed plugin a worker on
  each node reads the events after the plugin's cursor, hands those that match the subscription to the plugin and moves the
  cursor. A number missing between two rows may belong to a transaction that has not committed yet, so the worker waits at such
  a gap until the transactions that were running are finished. The snapshot functions of PostgreSQL are
  a parameter; times are in nanoseconds.
\<close>

subsection \<open>Options\<close>

record options =
  op_batch :: int
  op_poll :: int
  op_lockTTL :: int
  op_call :: int
  op_maxFailures :: int
  op_backoffMin :: int
  op_backoffMax :: int
  op_scan :: int
  op_gapMin :: int
  op_gapMax :: int
  op_age :: int
  op_retention :: int

definition seconds :: "int \<Rightarrow> int" where
  "seconds n = n * 1000000000"

definition or_default :: "int \<Rightarrow> int \<Rightarrow> int" where
  "or_default x d = (if x \<le> 0 then d else x)"

definition stepValidity :: "options \<Rightarrow> int" where
  "stepValidity opt = op_call opt + seconds 5"

definition minLockTTL :: "options \<Rightarrow> int" where
  "minLockTTL opt = max (op_call opt + seconds 10) ((stepValidity opt + seconds 4) * 100 div 99)"

definition defaults :: "options \<Rightarrow> options" where
  "defaults p =
     (let q = p\<lparr>op_batch := or_default (op_batch p) 100, op_poll := or_default (op_poll p) (seconds 1),
            op_call := or_default (op_call p) (seconds 20)\<rparr>
      in q\<lparr>op_lockTTL := max (or_default (op_lockTTL p) (seconds 30)) (minLockTTL q),
        op_maxFailures := or_default (op_maxFailures p) 10,
        op_backoffMin := or_default (op_backoffMin p) (seconds 1), op_backoffMax := or_default (op_backoffMax p) (seconds 300),
        op_scan := or_default (op_scan p) 1000,
        op_gapMin := or_default (op_gapMin p) (seconds 1), op_gapMax := or_default (op_gapMax p) (seconds 300),
        op_age := or_default (op_age p) (seconds 604800), op_retention := or_default (op_retention p) (seconds 3600)\<rparr>)"

text \<open>The lock taken with the defaults is long enough for a step after the margin of one percent is taken off.\<close>

lemma lock_outlasts_step:
  "stepValidity (defaults p) + seconds 3 < op_lockTTL (defaults p) - op_lockTTL (defaults p) div 100"
proof -
  define s t k where "s = stepValidity (defaults p)" and "t = op_lockTTL (defaults p)" and "k = seconds 1"
  have "minLockTTL (defaults p) \<le> t"
    by (simp add: t_def defaults_def Let_def minLockTTL_def stepValidity_def)
  moreover define q m where "q = (s + 4 * k) * 100 div 99" and "m = (s + 4 * k) * 100 mod 99"
  ultimately have "q \<le> t" "m < 99" "(s + 4 * k) * 100 = 99 * q + m" by (simp_all add: minLockTTL_def s_def k_def seconds_def)
  moreover have "(s + 4 * k) * 100 = 100 * s + 400 * k" by (simp add: distrib_right)
  ultimately have "100 * s + 400 * k < 99 * t + 99" by linarith
  moreover have "100 * (t div 100) \<le> t" using mult_div_mod_eq [of 100 t] pos_mod_sign [of 100 t, OF zero_less_numeral] by linarith
  moreover have "99 \<le> k" by (simp add: k_def seconds_def)
  ultimately have "s + 3 * k < t - t div 100" by linarith
  then show ?thesis by (simp add: s_def t_def k_def seconds_def)
qed

subsection \<open>Waiting after a failure\<close>

fun backoff_loop :: "nat \<Rightarrow> int \<Rightarrow> int \<Rightarrow> int" where
  "backoff_loop 0 hi d = d"
| "backoff_loop (Suc n) hi d = (if d < hi then backoff_loop n hi (d * 2) else d)"

definition backoff :: "int \<Rightarrow> int \<Rightarrow> int \<Rightarrow> int" where
  "backoff failures lo hi = min (backoff_loop (nat (failures - 1)) hi lo) hi"

lemma backoff_loop_eq: "0 < d \<Longrightarrow> min (backoff_loop n hi d) hi = min (d * 2 ^ n) hi"
proof (induction n arbitrary: d)
  case (Suc n)
  have "(1 :: int) \<le> 2 ^ Suc n" by (rule one_le_power) simp
  then have "d * 1 \<le> d * 2 ^ Suc n" using Suc.prems by (intro mult_left_mono) auto
  then have "hi \<le> d \<Longrightarrow> min (d * 2 ^ Suc n) hi = hi" by (intro min.absorb2) linarith
  then show ?case using Suc.IH [of "d * 2"] Suc.prems by (cases "d < hi") (simp_all add: mult.assoc)
qed simp

lemma backoff_eq: "0 < lo \<Longrightarrow> backoff f lo hi = min (lo * 2 ^ nat (f - 1)) hi"
  by (simp add: backoff_def backoff_loop_eq)

subsection \<open>Subscriptions\<close>

record matcher =
  ma_all :: bool
  ma_exact :: "string list"
  ma_prefixes :: "string list"

definition hasSuffix :: "string \<Rightarrow> string \<Rightarrow> bool" where
  "hasSuffix s t \<longleftrightarrow> length t \<le> length s \<and> drop (length s - length t) s = t"

definition add_subscription :: "string \<Rightarrow> matcher \<Rightarrow> matcher" where
  "add_subscription p m =
     (if p = ''*'' then m\<lparr>ma_all := True\<rparr>
      else if hasSuffix p ''.*'' then m\<lparr>ma_prefixes := ma_prefixes m @ [butlast p]\<rparr>
      else if p \<noteq> [] then m\<lparr>ma_exact := p # ma_exact m\<rparr> else m)"

definition newMatcher :: "string list \<Rightarrow> matcher" where
  "newMatcher ps = fold add_subscription ps \<lparr>ma_all = False, ma_exact = [], ma_prefixes = []\<rparr>"

definition matches :: "matcher \<Rightarrow> string \<Rightarrow> bool" where
  "matches m typ \<longleftrightarrow> ma_all m \<or> typ \<in> set (ma_exact m) \<or> list_ex (\<lambda>p. take (length p) typ = p) (ma_prefixes m)"

subsection \<open>The table of events and the transactions that write it\<close>

record outbox_event =
  ev_id :: int
  ev_typ :: string
  ev_at :: int

record txn =
  tx_xid :: int
  tx_events :: "outbox_event list"

text \<open>
  \<open>ob_events\<close> holds the committed rows in the order of their ids; \<open>ob_next\<close> is the sequence, which a rollback does not
  set back; \<open>ob_completed\<close> is the highest transaction id that is finished.
\<close>

record outbox =
  ob_events :: "outbox_event list"
  ob_next :: int
  ob_running :: "txn list"
  ob_next_xid :: int
  ob_completed :: int

text \<open>A transaction has its id from the start, so before any of its events. PostgreSQL may draw the number of a row before it gives
  the writing transaction its id; that order is not modelled.\<close>

definition begin_tx :: "outbox \<Rightarrow> outbox" where
  "begin_tx b = b\<lparr>ob_running := ob_running b @ [\<lparr>tx_xid = ob_next_xid b, tx_events = []\<rparr>], ob_next_xid := ob_next_xid b + 1\<rparr>"

definition insert_event :: "int \<Rightarrow> outbox_event \<Rightarrow> txn \<Rightarrow> txn" where
  "insert_event xid e t = (if tx_xid t = xid then t\<lparr>tx_events := tx_events t @ [e]\<rparr> else t)"

definition Emit :: "int \<Rightarrow> string \<Rightarrow> int \<Rightarrow> outbox \<Rightarrow> outbox" where
  "Emit xid typ now b = b\<lparr>ob_running := map (insert_event xid \<lparr>ev_id = ob_next b, ev_typ = typ, ev_at = now\<rparr>) (ob_running b),
     ob_next := ob_next b + 1\<rparr>"

definition written :: "outbox \<Rightarrow> int \<Rightarrow> outbox_event list" where
  "written b xid = concat (map tx_events (filter (\<lambda>t. tx_xid t = xid) (ob_running b)))"

definition finish_tx :: "int \<Rightarrow> outbox_event list \<Rightarrow> outbox \<Rightarrow> outbox" where
  "finish_tx xid new b = b\<lparr>ob_events := sort_key ev_id (ob_events b @ new),
     ob_running := filter (\<lambda>t. tx_xid t \<noteq> xid) (ob_running b), ob_completed := max (ob_completed b) xid\<rparr>"

text \<open>\<open>scan\<close>, and the rows one round of \<open>PurgeEvents\<close> deletes; \<open>cursors\<close> are those of all plugins.\<close>

definition scan_rows :: "int \<Rightarrow> int \<Rightarrow> outbox \<Rightarrow> outbox_event list" where
  "scan_rows after limit b = take (nat limit) (filter (\<lambda>e. after < ev_id e) (ob_events b))"

definition retentionChunk :: nat where "retentionChunk = 5000"

definition purgeable :: "int \<Rightarrow> int \<Rightarrow> int list \<Rightarrow> outbox \<Rightarrow> outbox_event list" where
  "purgeable now age cursors b =
     take retentionChunk (filter (\<lambda>e. ev_at e < now - age \<and> list_all (\<lambda>c. ev_id e \<le> c) cursors) (ob_events b))"

definition PurgeEvents :: "int \<Rightarrow> int \<Rightarrow> int list \<Rightarrow> outbox \<Rightarrow> outbox" where
  "PurgeEvents now age cursors b =
     b\<lparr>ob_events := filter (\<lambda>e. ev_id e \<notin> ev_id ` set (purgeable now age cursors b)) (ob_events b)\<rparr>"

text \<open>
  \<open>pg_current_snapshot\<close>: \<open>xmax\<close> is a parameter \<open>sx\<close>, \<open>xmin\<close> the lowest id below it that is still running.
  PostgreSQL documents \<open>xmax\<close> as one past the highest transaction id that is completed.
\<close>

definition snapshot_xmin :: "(outbox \<Rightarrow> int) \<Rightarrow> outbox \<Rightarrow> int" where
  "snapshot_xmin sx b = fold min (map tx_xid (ob_running b)) (sx b)"

definition pg_xmax :: "outbox \<Rightarrow> int" where
  "pg_xmax b = ob_completed b + 1"

subsection \<open>Gaps\<close>

record gapState =
  ga_start :: int
  ga_seen :: int
  ga_xmax :: int
  ga_resolved :: bool

definition checkGap :: "options \<Rightarrow> int \<Rightarrow> int \<Rightarrow> gapState \<Rightarrow> gapState" where
  "checkGap opt now xmin g =
     (if now - ga_seen g < op_gapMin opt then g
      else if op_gapMax opt \<le> now - ga_seen g then g\<lparr>ga_resolved := True\<rparr>
      else g\<lparr>ga_resolved := (ga_xmax g \<le> xmin)\<rparr>)"

definition gapPassable :: "gapState option \<Rightarrow> int \<Rightarrow> bool" where
  "gapPassable g start = (case g of Some g \<Rightarrow> ga_start g = start \<and> ga_resolved g | None \<Rightarrow> False)"

text \<open>
  The loop of \<open>step\<close> over the rows. \<open>sc_blocked\<close> is the gap it stopped at, as its first id and the id
  of the row after it. \<open>sc_rows\<close> and \<open>sc_holes\<close>, the rows and gaps passed, are kept for the theorems.
\<close>

record scan =
  sc_ids :: "int list"
  sc_horizon :: int
  sc_expected :: int
  sc_blocked :: "(int \<times> int) option"
  sc_rows :: "outbox_event list"
  sc_holes :: "(int \<times> int) list"

definition pass_row :: "outbox_event \<Rightarrow> scan \<Rightarrow> scan" where
  "pass_row r s = s\<lparr>sc_horizon := ev_id r, sc_expected := ev_id r + 1, sc_rows := sc_rows s @ [r],
     sc_holes := (if ev_id r \<noteq> sc_expected s then (sc_expected s, ev_id r) # sc_holes s else sc_holes s)\<rparr>"

fun scan_loop :: "gapState option \<Rightarrow> matcher \<Rightarrow> int \<Rightarrow> outbox_event list \<Rightarrow> scan \<Rightarrow> scan" where
  "scan_loop g m batch [] s = s"
| "scan_loop g m batch (r # rs) s =
     (if ev_id r \<noteq> sc_expected s \<and> \<not> gapPassable g (sc_expected s) then s\<lparr>sc_blocked := Some (sc_expected s, ev_id r)\<rparr>
      else if matches m (ev_typ r)
        then let s' = (pass_row r s)\<lparr>sc_ids := sc_ids s @ [ev_id r]\<rparr> in
          if batch \<le> int (length (sc_ids s')) then s' else scan_loop g m batch rs s'
      else scan_loop g m batch rs (pass_row r s))"

definition scan_from :: "int \<Rightarrow> scan" where
  "scan_from c = \<lparr>sc_ids = [], sc_horizon = c, sc_expected = c + 1, sc_blocked = None, sc_rows = [], sc_holes = []\<rparr>"

end
