(* ===== verification/EventDelivery.thy ===== *)
theory EventDelivery
  imports EventOutbox
begin

section \<open>Workers, transactions and the cursor of a plugin\<close>

text \<open>
  The workers of all nodes for one plugin, the transactions that write events and the retention interleave at the
  statements of the database; these are the steps of \<open>dstep\<close>. The worker's lock over the nodes is not assumed: any number of workers may be
  in a step at the same time. Beside the program's state, the state keeps the events committed since the subscription, where the
  subscription began, and a log of the moves of the cursor.
\<close>

subsection \<open>The cursor\<close>

record cursor =
  cu_last :: int
  cu_failures :: int
  cu_retry :: "int option"

text \<open>What a step works on once it has scanned. \<open>ba_rows\<close>, \<open>ba_match\<close>, and \<open>ba_given_up\<close> (the gaps passed only because
  \<open>GapMaxWait\<close> was over) are kept for the theorems.\<close>

record batch =
  ba_cur :: cursor
  ba_ids :: "int list"
  ba_horizon :: int
  ba_rows :: "outbox_event list"
  ba_match :: matcher
  ba_given_up :: "(int \<times> int) list"

datatype pass_outcome = Silent | AckedTo int | DeadLettered

record pass =
  pa_batch :: batch
  pa_to :: int
  pa_outcome :: pass_outcome

text \<open>\<open>Scanning\<close> is between the cursor and the scan, \<open>Observing\<close> before the snapshot of a new gap, which starts and ends at the
  two numbers.\<close>

datatype step_phase =
    Resting
  | Checking cursor matcher int
  | Scanning cursor matcher int
  | Observing batch int int
  | Batched batch
  | Answered batch "int option"

text \<open>\<open>wk_bound\<close> is the id of the row after the gap, \<open>wk_forced\<close> says that the wait for it was given up.\<close>

record worker =
  wk_gap :: "gapState option"
  wk_phase :: step_phase
  wk_bound :: int
  wk_forced :: bool

record delivery =
  dl_now :: int
  dl_box :: outbox
  dl_cursor :: "cursor option"
  dl_dead :: "(int \<times> int) list"
  dl_workers :: "nat \<Rightarrow> worker"
  dl_start :: int
  dl_ever :: "outbox_event list"
  dl_log :: "pass list"

definition fresh_worker :: worker where
  "fresh_worker = \<lparr>wk_gap = None, wk_phase = Resting, wk_bound = 0, wk_forced = False\<rparr>"

definition set_worker :: "nat \<Rightarrow> worker \<Rightarrow> delivery \<Rightarrow> delivery" where
  "set_worker i w s = s\<lparr>dl_workers := (dl_workers s)(i := w)\<rparr>"

definition rest :: "nat \<Rightarrow> delivery \<Rightarrow> delivery" where
  "rest i s = set_worker i ((dl_workers s i)\<lparr>wk_phase := Resting\<rparr>) s"

text \<open>The statement of \<open>loadCursor\<close> that creates the cursor; history is not delivered, and neither is an event with a lower
  id whose transaction commits only later: it lies below \<open>dl_start\<close>.\<close>

definition create_cursor :: "delivery \<Rightarrow> delivery" where
  "create_cursor s = (let m = fold max (map ev_id (ob_events (dl_box s))) 0 in
     s\<lparr>dl_cursor := Some \<lparr>cu_last = m, cu_failures = 0, cu_retry = None\<rparr>, dl_start := m, dl_ever := [], dl_log := []\<rparr>)"

definition waiting :: "int \<Rightarrow> cursor \<Rightarrow> bool" where
  "waiting now c \<longleftrightarrow> (case cu_retry c of Some t \<Rightarrow> now < t | None \<Rightarrow> False)"

definition check_worker :: "options \<Rightarrow> int \<Rightarrow> int \<Rightarrow> worker \<Rightarrow> worker" where
  "check_worker opt now xmin w = (case wk_gap w of
       Some g \<Rightarrow> if ga_resolved g then w
         else w\<lparr>wk_gap := Some (checkGap opt now xmin g), wk_forced := (op_gapMax opt \<le> now - ga_seen g \<and> op_gapMin opt \<le> now - ga_seen g)\<rparr>
     | None \<Rightarrow> w)"

text \<open>The scan with its loop. A gap other than the one recorded has to be observed first, which ends the loop as well.\<close>

definition scan_phase :: "options \<Rightarrow> cursor \<Rightarrow> matcher \<Rightarrow> int \<Rightarrow> outbox \<Rightarrow> worker \<Rightarrow> step_phase" where
  "scan_phase opt c m bsize b w =
     (let s = scan_loop (wk_gap w) m bsize (scan_rows (cu_last c) (op_scan opt) b) (scan_from (cu_last c));
          batch = \<lparr>ba_cur = c, ba_ids = sc_ids s, ba_horizon = sc_horizon s, ba_rows = sc_rows s, ba_match = m,
            ba_given_up = (if wk_forced w then sc_holes s else [])\<rparr>
      in case sc_blocked s of
          Some (start, next) \<Rightarrow>
            (case wk_gap w of
               Some g \<Rightarrow> if ga_start g = start then Batched batch else Observing batch start next
             | None \<Rightarrow> Observing batch start next)
        | None \<Rightarrow> Batched batch)"

definition observe_gap :: "int \<Rightarrow> int \<Rightarrow> int \<Rightarrow> int \<Rightarrow> worker \<Rightarrow> worker" where
  "observe_gap now xmax start next w =
     w\<lparr>wk_gap := Some \<lparr>ga_start = start, ga_seen = now, ga_xmax = xmax, ga_resolved = False\<rparr>, wk_bound := next, wk_forced := False\<rparr>"

text \<open>\<open>advance\<close> is conditional on the cursor that was read; otherwise nothing changes (\<open>errCursorMoved\<close>).\<close>

definition advance_cursor :: "batch \<Rightarrow> int \<Rightarrow> pass_outcome \<Rightarrow> delivery \<Rightarrow> delivery" where
  "advance_cursor b to out s =
     (if map_option cu_last (dl_cursor s) = Some (cu_last (ba_cur b))
      then s\<lparr>dl_cursor := Some \<lparr>cu_last = to, cu_failures = 0, cu_retry = None\<rparr>,
        dl_log := \<lparr>pa_batch = b, pa_to = to, pa_outcome = out\<rparr> # dl_log s\<rparr>
      else s)"

definition dead_letter :: "batch \<Rightarrow> delivery \<Rightarrow> delivery" where
  "dead_letter b s =
     (if map_option cu_last (dl_cursor s) = Some (cu_last (ba_cur b))
      then advance_cursor b (ba_horizon b) DeadLettered (s\<lparr>dl_dead := (hd (ba_ids b), last (ba_ids b)) # dl_dead s\<rparr>)
      else s)"

definition fail_batch :: "options \<Rightarrow> batch \<Rightarrow> delivery \<Rightarrow> delivery" where
  "fail_batch opt b s =
     (let failures = cu_failures (ba_cur b) + 1 in
      if op_maxFailures opt \<le> failures then dead_letter b s
      else if map_option cu_last (dl_cursor s) = Some (cu_last (ba_cur b))
      then s\<lparr>dl_cursor := Some \<lparr>cu_last = cu_last (ba_cur b), cu_failures = failures,
          cu_retry = Some (dl_now s + backoff failures (op_backoffMin opt) (op_backoffMax opt))\<rparr>\<rparr>
      else s)"

text \<open>What the step does with the answer of the plugin; \<open>None\<close> is an error of the call.\<close>

definition settle_batch :: "options \<Rightarrow> batch \<Rightarrow> int option \<Rightarrow> delivery \<Rightarrow> delivery" where
  "settle_batch opt b answer s =
     (case answer of
        Some acked \<Rightarrow>
          if cu_last (ba_cur b) < acked
          then advance_cursor b (if last (ba_ids b) \<le> acked then ba_horizon b else acked) (AckedTo acked) s
          else fail_batch opt b s
      | None \<Rightarrow> fail_batch opt b s)"

subsection \<open>Steps\<close>

text \<open>\<open>LoadCursor\<close> reads the binding of the plugin too; \<open>Leave\<close> is the end of the lease or of the node; \<open>cursors\<close> are those of the other
  plugins.\<close>

inductive dstep :: "options \<Rightarrow> (outbox \<Rightarrow> int) \<Rightarrow> delivery \<Rightarrow> delivery \<Rightarrow> bool" for opt sx where
  Tick: "dl_now s \<le> t \<Longrightarrow> dstep opt sx s (s\<lparr>dl_now := t\<rparr>)"
| BeginTx: "dstep opt sx s (s\<lparr>dl_box := begin_tx (dl_box s)\<rparr>)"
| EmitEvent: "x \<in> tx_xid ` set (ob_running (dl_box s)) \<Longrightarrow> typ \<noteq> [] \<Longrightarrow>
    dstep opt sx s (s\<lparr>dl_box := Emit x typ (dl_now s) (dl_box s)\<rparr>)"
| CommitTx: "x \<in> tx_xid ` set (ob_running (dl_box s)) \<Longrightarrow>
    dstep opt sx s (s\<lparr>dl_box := finish_tx x (written (dl_box s) x) (dl_box s), dl_ever := written (dl_box s) x @ dl_ever s\<rparr>)"
| AbortTx: "x \<in> tx_xid ` set (ob_running (dl_box s)) \<Longrightarrow> dstep opt sx s (s\<lparr>dl_box := finish_tx x [] (dl_box s)\<rparr>)"
| Purge: "dstep opt sx s (s\<lparr>dl_box := PurgeEvents (dl_now s) (op_age opt)
    (case dl_cursor s of Some c \<Rightarrow> cu_last c # cursors | None \<Rightarrow> cursors) (dl_box s)\<rparr>)"
| Subscribe: "dl_cursor s = None \<Longrightarrow> dstep opt sx s (create_cursor s)"
| Leave: "dstep opt sx s (rest i s)"
| Restart: "dstep opt sx s (set_worker i fresh_worker s)"
| LoadCursor: "wk_phase (dl_workers s i) = Resting \<Longrightarrow> dl_cursor s = Some c \<Longrightarrow> \<not> waiting (dl_now s) c \<Longrightarrow>
    dstep opt sx s (set_worker i ((dl_workers s i)\<lparr>wk_phase := Checking c (newMatcher pats) bsize\<rparr>) s)"
| Check: "wk_phase (dl_workers s i) = Checking c m bsize \<Longrightarrow>
    dstep opt sx s (set_worker i ((check_worker opt (dl_now s) (snapshot_xmin sx (dl_box s)) (dl_workers s i))
      \<lparr>wk_phase := Scanning c m bsize\<rparr>) s)"
| Scan: "wk_phase (dl_workers s i) = Scanning c m bsize \<Longrightarrow>
    dstep opt sx s (set_worker i ((dl_workers s i)\<lparr>wk_phase := scan_phase opt c m bsize (dl_box s) (dl_workers s i)\<rparr>) s)"
| Observe: "wk_phase (dl_workers s i) = Observing b start next \<Longrightarrow>
    dstep opt sx s (set_worker i ((observe_gap (dl_now s) (sx (dl_box s)) start next (dl_workers s i))\<lparr>wk_phase := Batched b\<rparr>) s)"
| Pass: "wk_phase (dl_workers s i) = Batched b \<Longrightarrow> ba_ids b = [] \<Longrightarrow> cu_last (ba_cur b) < ba_horizon b \<Longrightarrow>
    dstep opt sx s (rest i (advance_cursor b (ba_horizon b) Silent s))"
| Call: "wk_phase (dl_workers s i) = Batched b \<Longrightarrow> ba_ids b \<noteq> [] \<Longrightarrow>
    dstep opt sx s (set_worker i ((dl_workers s i)\<lparr>wk_phase := Answered b answer\<rparr>) s)"
| Settle: "wk_phase (dl_workers s i) = Answered b answer \<Longrightarrow> dstep opt sx s (rest i (settle_batch opt b answer s))"

inductive_cases dstepE: "dstep opt sx s t"

definition no_events :: delivery where
  "no_events = \<lparr>dl_now = 0, dl_box = \<lparr>ob_events = [], ob_next = 1, ob_running = [], ob_next_xid = 1, ob_completed = 0\<rparr>,
     dl_cursor = None, dl_dead = [], dl_workers = (\<lambda>_. fresh_worker), dl_start = 0, dl_ever = [], dl_log = []\<rparr>"

subsection \<open>The loop over the rows\<close>

definition ascending :: "outbox_event list \<Rightarrow> bool" where
  "ascending es \<longleftrightarrow> sorted_wrt (\<lambda>x y. ev_id x < ev_id y) es"

definition scan_ok :: "gapState option \<Rightarrow> matcher \<Rightarrow> int \<Rightarrow> scan \<Rightarrow> bool" where
  "scan_ok g m c s \<longleftrightarrow> sc_expected s = sc_horizon s + 1 \<and> c \<le> sc_horizon s \<and> ascending (sc_rows s) \<and>
     (\<forall>r \<in> set (sc_rows s). c < ev_id r \<and> ev_id r \<le> sc_horizon s) \<and>
     sc_ids s = map ev_id (filter (\<lambda>r. matches m (ev_typ r)) (sc_rows s)) \<and>
     (\<forall>k. c < k \<and> k \<le> sc_horizon s \<longrightarrow> k \<in> ev_id ` set (sc_rows s) \<or> (\<exists>h \<in> set (sc_holes s). fst h \<le> k \<and> k < snd h)) \<and>
     (\<forall>h \<in> set (sc_holes s). gapPassable g (fst h) \<and> c < fst h \<and> fst h < snd h \<and> snd h \<in> ev_id ` set (sc_rows s) \<and>
        (\<forall>r \<in> set (sc_rows s). \<not> (fst h \<le> ev_id r \<and> ev_id r < snd h))) \<and>
     (sc_horizon s = c \<or> sc_horizon s \<in> ev_id ` set (sc_rows s))"

lemma scan_from_ok: "scan_ok g m c (scan_from c)"
  by (simp add: scan_ok_def scan_from_def ascending_def)

lemma pass_row_ok:
  assumes s: "scan_ok g m c s" and r: "sc_expected s \<le> ev_id r"
    and gap: "ev_id r = sc_expected s \<or> gapPassable g (sc_expected s)"
  shows "scan_ok g m c ((pass_row r s)\<lparr>sc_ids := sc_ids s @ (if matches m (ev_typ r) then [ev_id r] else [])\<rparr>)"
proof -
  have e: "sc_expected s = sc_horizon s + 1" "c \<le> sc_horizon s" using s by (auto simp: scan_ok_def)
  have old: "\<forall>x \<in> set (sc_rows s). c < ev_id x \<and> ev_id x < sc_expected s" using s by (auto simp: scan_ok_def)
  have cover: "k \<in> ev_id ` set (sc_rows s @ [r]) \<or> (\<exists>h \<in> set (sc_holes (pass_row r s)). fst h \<le> k \<and> k < snd h)"
    if k: "c < k" "k \<le> ev_id r" for k
  proof (cases "k \<le> sc_horizon s")
    case True
    then have "k \<in> ev_id ` set (sc_rows s) \<or> (\<exists>h \<in> set (sc_holes s). fst h \<le> k \<and> k < snd h)"
      using s k by (simp add: scan_ok_def)
    then show ?thesis by (auto simp: pass_row_def)
  next
    case False
    then show ?thesis using k e by (cases "k = ev_id r") (auto simp: pass_row_def)
  qed
  have asc: "ascending (sc_rows s @ [r])"
    using s r old by (force simp: scan_ok_def ascending_def sorted_wrt_append)
  have holes: "gapPassable g (fst h) \<and> c < fst h \<and> fst h < snd h \<and> snd h \<in> ev_id ` set (sc_rows s @ [r]) \<and>
      (\<forall>x \<in> set (sc_rows s @ [r]). \<not> (fst h \<le> ev_id x \<and> ev_id x < snd h))"
    if h: "h \<in> set (sc_holes (pass_row r s))" for h
  proof (cases "h \<in> set (sc_holes s)")
    case True
    then have "gapPassable g (fst h) \<and> c < fst h \<and> fst h < snd h \<and> snd h \<in> ev_id ` set (sc_rows s) \<and>
      (\<forall>x \<in> set (sc_rows s). \<not> (fst h \<le> ev_id x \<and> ev_id x < snd h))" using s by (simp add: scan_ok_def)
    then show ?thesis using old r by auto
  next
    case False
    then have "h = (sc_expected s, ev_id r)" "ev_id r \<noteq> sc_expected s" using h by (auto simp: pass_row_def split: if_splits)
    then show ?thesis using gap e r old by auto
  qed
  have ids: "sc_ids s = map ev_id (filter (\<lambda>r. matches m (ev_typ r)) (sc_rows s))" using s by (simp add: scan_ok_def)
  have rows: "\<forall>x \<in> set (sc_rows s @ [r]). c < ev_id x \<and> ev_id x \<le> ev_id r" using old r e by auto
  show ?thesis
    unfolding scan_ok_def using asc holes ids rows cover e r by (simp add: pass_row_def)
qed

declare scan_loop.simps(2) [simp del]

lemma scan_loop_ok:
  assumes "scan_ok g m c s" "ascending rs" "\<forall>r \<in> set rs. sc_expected s \<le> ev_id r" "sc_blocked s = None"
  shows "scan_ok g m c (scan_loop g m n rs s) \<and> set (sc_rows (scan_loop g m n rs s)) \<subseteq> set (sc_rows s) \<union> set rs \<and>
    (\<forall>r \<in> set rs. ev_id r \<le> sc_horizon (scan_loop g m n rs s) \<longrightarrow> r \<in> set (sc_rows (scan_loop g m n rs s))) \<and>
    set (sc_rows s) \<subseteq> set (sc_rows (scan_loop g m n rs s)) \<and>
    (\<forall>a b. sc_blocked (scan_loop g m n rs s) = Some (a, b) \<longrightarrow> c < a \<and> a < b \<and> b \<in> ev_id ` set rs)"
  using assms
proof (induction rs arbitrary: s)
  case (Cons r rs)
  have e: "sc_expected s = sc_horizon s + 1" "c \<le> sc_horizon s" using Cons.prems(1) by (auto simp: scan_ok_def)
  have rs: "ascending rs" "\<forall>x \<in> set rs. ev_id r < ev_id x" using Cons.prems(2) by (auto simp: ascending_def)
  show ?case
  proof (cases "ev_id r \<noteq> sc_expected s \<and> \<not> gapPassable g (sc_expected s)")
    case True
    then have "scan_loop g m n (r # rs) s = s\<lparr>sc_blocked := Some (sc_expected s, ev_id r)\<rparr>" by (simp add: scan_loop.simps)
    then show ?thesis using Cons.prems e True rs by (fastforce simp: scan_ok_def)
  next
    case False
    define t where "t = (pass_row r s)\<lparr>sc_ids := sc_ids s @ (if matches m (ev_typ r) then [ev_id r] else [])\<rparr>"
    have t: "scan_ok g m c t" unfolding t_def using Cons.prems False by (intro pass_row_ok) auto
    have u: "scan_loop g m n (r # rs) s =
        (if matches m (ev_typ r) \<and> n \<le> int (length (sc_ids t)) then t else scan_loop g m n rs t)"
      using False by (auto simp: scan_loop.simps t_def Let_def) (auto simp: pass_row_def)
    have p: "sc_rows t = sc_rows s @ [r]" "sc_horizon t = ev_id r" "sc_expected t = ev_id r + 1" "sc_blocked t = None"
      using Cons.prems(4) by (simp_all add: t_def pass_row_def)
    have "\<forall>x \<in> set rs. sc_expected t \<le> ev_id x" using rs(2) p(3) by fastforce
    note IH = Cons.IH [OF t rs(1) this p(4)]
    show ?thesis
    proof (cases "matches m (ev_typ r) \<and> n \<le> int (length (sc_ids t))")
      case True
      then have "scan_loop g m n (r # rs) s = t" using u by simp
      then show ?thesis using t p rs(2) by fastforce
    next
      case False
      have "scan_loop g m n (r # rs) s = scan_loop g m n rs t" by (rule trans [OF u if_not_P [OF False]])
      then show ?thesis using IH p by auto
    qed
  qed
qed auto

end
