(* ===== verification/EventSafety.thy ===== *)
theory EventSafety
  imports EventDelivery
begin

section \<open>Events are not skipped\<close>

text \<open>
  Whatever transactions, workers and the retention do, the cursor passes an event only after the plugin acknowledged it, after
  its batch was written to the dead letters, because the subscription did not match it, or after the longest wait for a
  gap. This needs snapshots whose upper bound is above every transaction that is running. The bound
  PostgreSQL documents is not, and with it an event is lost.
\<close>

subsection \<open>The table\<close>

definition uncommitted :: "outbox \<Rightarrow> outbox_event list" where
  "uncommitted b = concat (map tx_events (ob_running b))"

definition box_ok :: "outbox \<Rightarrow> bool" where
  "box_ok b \<longleftrightarrow> ascending (ob_events b) \<and> distinct (map ev_id (uncommitted b)) \<and>
     ev_id ` set (uncommitted b) \<inter> ev_id ` set (ob_events b) = {} \<and> 0 < ob_next b \<and>
     (\<forall>e \<in> set (ob_events b) \<union> set (uncommitted b). ev_id e < ob_next b) \<and>
     distinct (map tx_xid (ob_running b)) \<and> (\<forall>t \<in> set (ob_running b). tx_xid t < ob_next_xid b)"

lemma ascending_distinct: "ascending es \<Longrightarrow> distinct (map ev_id es)"
  by (induction es) (auto simp: ascending_def)

lemma ascending_sort: "distinct (map ev_id es) \<Longrightarrow> ascending (sort_key ev_id es)"
proof -
  assume d: "distinct (map ev_id es)"
  have "sorted (map ev_id (sort_key ev_id es))" by simp
  moreover have "distinct (map ev_id (sort_key ev_id es))"
    using d by (simp add: distinct_map)
  ultimately show ?thesis
    by (simp add: ascending_def strict_sorted_iff flip: sorted_wrt_map)
qed

lemma ascending_filter: "ascending es \<Longrightarrow> ascending (filter P es)"
  by (simp add: ascending_def sorted_wrt_filter)

lemma uncommitted_iff: "e \<in> set (uncommitted b) \<longleftrightarrow> (\<exists>t \<in> set (ob_running b). e \<in> set (tx_events t))"
  by (simp add: uncommitted_def)

lemma written_iff: "e \<in> set (written b x) \<longleftrightarrow> (\<exists>t \<in> set (ob_running b). tx_xid t = x \<and> e \<in> set (tx_events t))"
  by (auto simp: written_def)

lemma distinct_concat_parts:
  "distinct (concat (map h ts)) \<Longrightarrow>
     distinct (concat (map h (filter P ts))) \<and>
     set (concat (map h (filter P ts))) \<inter> set (concat (map h (filter (\<lambda>t. \<not> P t) ts))) = {}"
proof (induction ts)
  case (Cons t ts)
  have "set (concat (map h (filter Q ts))) \<subseteq> set (concat (map h ts))" for Q by auto
  then have "set (h t) \<inter> set (concat (map h (filter Q ts))) = {}" for Q using Cons.prems by (auto 0 3)
  then show ?case using Cons by (cases "P t") (simp_all add: Int_commute Int_Un_distrib Int_Un_distrib2)
qed simp

lemma distinct_concat_filter:
  "distinct (map ev_id (concat (map tx_events ts))) \<Longrightarrow>
     distinct (map ev_id (concat (map tx_events (filter P ts)))) \<and>
     ev_id ` set (concat (map tx_events (filter P ts))) \<inter> ev_id ` set (concat (map tx_events (filter (\<lambda>t. \<not> P t) ts))) = {}"
proof -
  have c: "map ev_id (concat (map tx_events xs)) = concat (map (\<lambda>t. map ev_id (tx_events t)) xs)" for xs
    by (simp add: map_concat comp_def)
  assume "distinct (map ev_id (concat (map tx_events ts)))"
  then show ?thesis
    using distinct_concat_parts [of "\<lambda>t. map ev_id (tx_events t)" ts P] unfolding c set_map [symmetric] by blast
qed

lemma finish_tx_ok:
  assumes "box_ok b" "new = written b x \<or> new = []"
  shows "box_ok (finish_tx x new b)"
proof -
  let ?P = "\<lambda>t. tx_xid t \<noteq> x"
  have d: "distinct (map ev_id (concat (map tx_events (filter ?P (ob_running b)))))"
    "distinct (map ev_id (written b x))"
    "ev_id ` set (concat (map tx_events (filter ?P (ob_running b)))) \<inter> ev_id ` set (written b x) = {}"
    using assms(1) distinct_concat_filter [of "ob_running b" ?P] distinct_concat_filter [of "ob_running b" "\<lambda>t. tx_xid t = x"]
    by (auto simp: box_ok_def uncommitted_def written_def)
  have sub: "set (written b x) \<subseteq> set (uncommitted b)" "set (concat (map tx_events (filter ?P (ob_running b)))) \<subseteq> set (uncommitted b)"
    by (auto simp: written_iff uncommitted_iff)
  have new: "distinct (map ev_id new)" "set new \<subseteq> set (uncommitted b)"
    "ev_id ` set (concat (map tx_events (filter ?P (ob_running b)))) \<inter> ev_id ` set new = {}"
    using assms(2) d sub by auto
  have "distinct (map ev_id (ob_events b @ new))"
    using assms(1) new(1,2) by (auto simp: box_ok_def ascending_distinct)
  then have "ascending (sort_key ev_id (ob_events b @ new))" by (rule ascending_sort)
  moreover have p: "uncommitted (finish_tx x new b) = concat (map tx_events (filter ?P (ob_running b)))"
    by (simp add: uncommitted_def finish_tx_def)
  moreover have "ev_id ` set (uncommitted (finish_tx x new b)) \<inter> (ev_id ` set (ob_events b) \<union> ev_id ` set new) = {}"
  proof -
    have "ev_id ` set (uncommitted (finish_tx x new b)) \<subseteq> ev_id ` set (uncommitted b)" using sub(2) unfolding p by (rule image_mono)
    moreover have "ev_id ` set (uncommitted b) \<inter> ev_id ` set (ob_events b) = {}" using assms(1) by (simp add: box_ok_def)
    ultimately show ?thesis using new(3) unfolding p by blast
  qed
  moreover have "\<forall>e \<in> set (ob_events b) \<union> set new \<union> set (uncommitted (finish_tx x new b)). ev_id e < ob_next b"
    using assms(1) sub(2) new(2) unfolding p box_ok_def by blast
  ultimately show ?thesis
    using assms(1) d(1) unfolding box_ok_def by (simp add: finish_tx_def distinct_map_filter Int_Un_distrib image_Un)
qed

lemma begin_tx_ok: "box_ok b \<Longrightarrow> box_ok (begin_tx b)"
  by (fastforce simp: box_ok_def begin_tx_def uncommitted_def)

lemma PurgeEvents_ok: "box_ok b \<Longrightarrow> box_ok (PurgeEvents now age cs b)"
  by (auto simp: box_ok_def PurgeEvents_def uncommitted_def ascending_filter)

lemma Emit_running:
  assumes "t \<in> set (ob_running (Emit x typ now b))" "e \<in> set (tx_events t)"
  shows "(\<exists>t' \<in> set (ob_running b). tx_xid t' = tx_xid t \<and> e \<in> set (tx_events t')) \<or> ev_id e = ob_next b"
  using assms by (auto simp: Emit_def insert_event_def split: if_splits)

lemma insert_event_parts:
  assumes "distinct (map tx_xid ts)" "distinct (map ev_id (concat (map tx_events ts)))" "ev_id e \<notin> ev_id ` set (concat (map tx_events ts))"
  shows "distinct (map ev_id (concat (map tx_events (map (insert_event x e) ts)))) \<and>
    set (concat (map tx_events (map (insert_event x e) ts))) \<subseteq> insert e (set (concat (map tx_events ts)))"
  using assms
proof (induction ts)
  case (Cons t ts)
  define c d where "c = concat (map tx_events ts)" and "d = concat (map tx_events (map (insert_event x e) ts))"
  have p: "distinct (map ev_id (tx_events t))" "distinct (map ev_id c)" "ev_id ` set (tx_events t) \<inter> ev_id ` set c = {}"
    "ev_id e \<notin> ev_id ` set (tx_events t)" "ev_id e \<notin> ev_id ` set c"
    using Cons.prems unfolding c_def by auto
  have IH: "distinct (map ev_id d)" "set d \<subseteq> insert e (set c)"
    using Cons unfolding c_def d_def by auto
  have g: "concat (map tx_events (map (insert_event x e) (t # ts))) = tx_events (insert_event x e t) @ d"
    "concat (map tx_events (t # ts)) = tx_events t @ c" by (simp_all add: c_def d_def)
  show ?case
  proof (cases "tx_xid t = x")
    case True
    then have "tx_xid u \<noteq> x" if "u \<in> set ts" for u using Cons.prems(1) that by (auto simp: image_iff)
    then have "map (insert_event x e) ts = ts" by (simp add: insert_event_def map_idI)
    then have "d = c" by (simp only: d_def c_def)
    then show ?thesis unfolding g using True p by (auto simp: insert_event_def)
  next
    case False
    have "ev_id ` set d \<subseteq> insert (ev_id e) (ev_id ` set c)" using image_mono [OF IH(2), of ev_id] by simp
    moreover have "ev_id ` set (tx_events t) \<inter> insert (ev_id e) (ev_id ` set c) = {}" using p(3,4) by simp
    ultimately have "ev_id ` set (tx_events t) \<inter> ev_id ` set d = {}" by (meson disjoint_iff subsetD)
    then have "distinct (map ev_id (tx_events t @ d))" using p(1) IH(1) by simp
    moreover have "set (tx_events t @ d) \<subseteq> insert e (set (tx_events t @ c))" using IH(2) by auto
    moreover have "insert_event x e t = t" using False by (simp add: insert_event_def)
    ultimately show ?thesis unfolding g by simp
  qed
qed simp

lemma Emit_ok: "box_ok b \<Longrightarrow> box_ok (Emit x typ now b)"
proof -
  assume b: "box_ok b"
  let ?e = "\<lparr>ev_id = ob_next b, ev_typ = typ, ev_at = now\<rparr>"
  have "ev_id ?e \<notin> ev_id ` set (concat (map tx_events (ob_running b)))" using b by (fastforce simp: box_ok_def uncommitted_def)
  then have p: "distinct (map ev_id (uncommitted (Emit x typ now b)))" "set (uncommitted (Emit x typ now b)) \<subseteq> insert ?e (set (uncommitted b))"
    using insert_event_parts [of "ob_running b" ?e x] b unfolding box_ok_def uncommitted_def Emit_def by simp_all
  have "map tx_xid (map (insert_event x ?e) (ob_running b)) = map tx_xid (ob_running b)"
    by (simp add: insert_event_def)
  moreover have "ev_id e < ob_next b + 1" if "e \<in> set (ob_events b) \<union> set (uncommitted (Emit x typ now b))" for e
  proof -
    have "e \<in> set (ob_events b) \<union> set (uncommitted b) \<or> e = ?e" using that p(2) by blast
    then show ?thesis using b unfolding box_ok_def by force
  qed
  moreover have "ev_id ` set (uncommitted (Emit x typ now b)) \<inter> ev_id ` set (ob_events b) = {}"
    using p(2) b by (fastforce simp: box_ok_def)
  ultimately show "box_ok (Emit x typ now b)"
    using b p(1) unfolding box_ok_def by (auto simp: Emit_def insert_event_def simp del: map_map)
qed

subsection \<open>What workers and the log rely on\<close>

definition passes :: "(int \<times> int) list \<Rightarrow> int \<Rightarrow> bool" where
  "passes holes k \<longleftrightarrow> (\<exists>h \<in> set holes. fst h \<le> k \<and> k < snd h)"

text \<open>The rows of a batch, and what is known of the ids up to its horizon while the cursor has not moved.\<close>

definition batch_rows_ok :: "batch \<Rightarrow> bool" where
  "batch_rows_ok b \<longleftrightarrow> ascending (ba_rows b) \<and> cu_last (ba_cur b) \<le> ba_horizon b \<and>
     (\<forall>r \<in> set (ba_rows b). cu_last (ba_cur b) < ev_id r \<and> ev_id r \<le> ba_horizon b) \<and>
     ba_ids b = map ev_id (filter (\<lambda>r. matches (ba_match b) (ev_typ r)) (ba_rows b))"

definition batch_settled :: "delivery \<Rightarrow> batch \<Rightarrow> bool" where
  "batch_settled s b \<longleftrightarrow>
     (\<forall>e \<in> set (dl_ever s). cu_last (ba_cur b) < ev_id e \<longrightarrow> ev_id e \<le> ba_horizon b \<longrightarrow>
        e \<in> set (ba_rows b) \<or> passes (ba_given_up b) (ev_id e)) \<and>
     (\<forall>e \<in> set (uncommitted (dl_box s)). cu_last (ba_cur b) < ev_id e \<longrightarrow> ev_id e \<le> ba_horizon b \<longrightarrow>
        passes (ba_given_up b) (ev_id e))"

definition scanned_ok :: "delivery \<Rightarrow> batch \<Rightarrow> bool" where
  "scanned_ok s b \<longleftrightarrow> batch_rows_ok b \<and> ba_horizon b < ob_next (dl_box s) \<and>
     (map_option cu_last (dl_cursor s) = Some (cu_last (ba_cur b)) \<longrightarrow> batch_settled s b)"

fun phase_cur :: "step_phase \<Rightarrow> cursor option" where
  "phase_cur Resting = None"
| "phase_cur (Checking c _ _) = Some c"
| "phase_cur (Scanning c _ _) = Some c"
| "phase_cur (Observing b _ _) = Some (ba_cur b)"
| "phase_cur (Batched b) = Some (ba_cur b)"
| "phase_cur (Answered b _) = Some (ba_cur b)"

fun phase_batch :: "step_phase \<Rightarrow> batch option" where
  "phase_batch (Observing b _ _) = Some b"
| "phase_batch (Batched b) = Some b"
| "phase_batch (Answered b _) = Some b"
| "phase_batch _ = None"

text \<open>The end of a gap is a committed row as long as the cursor is before it.\<close>

definition bound_ok :: "delivery \<Rightarrow> int \<Rightarrow> int \<Rightarrow> bool" where
  "bound_ok s start bound \<longleftrightarrow> start < bound \<and> bound < ob_next (dl_box s) \<and>
     (\<exists>c. dl_cursor s = Some c \<and> (cu_last c < bound \<longrightarrow> bound \<in> ev_id ` set (ob_events (dl_box s))))"

definition gap_ok :: "delivery \<Rightarrow> gapState \<Rightarrow> int \<Rightarrow> bool \<Rightarrow> bool" where
  "gap_ok s g bound forced \<longleftrightarrow> bound_ok s (ga_start g) bound \<and>
     (\<not> ga_resolved g \<longrightarrow> (\<forall>t \<in> set (ob_running (dl_box s)). \<forall>e \<in> set (tx_events t).
        ga_start g \<le> ev_id e \<longrightarrow> ev_id e < bound \<longrightarrow> tx_xid t < ga_xmax g)) \<and>
     (ga_resolved g \<longrightarrow> \<not> forced \<longrightarrow> (\<forall>e \<in> set (uncommitted (dl_box s)). \<not> (ga_start g \<le> ev_id e \<and> ev_id e < bound)))"

definition worker_ok :: "delivery \<Rightarrow> worker \<Rightarrow> bool" where
  "worker_ok s w \<longleftrightarrow>
     (\<forall>c. phase_cur (wk_phase w) = Some c \<longrightarrow> (\<exists>k. dl_cursor s = Some k \<and> cu_last c \<le> cu_last k)) \<and>
     (\<forall>b. phase_batch (wk_phase w) = Some b \<longrightarrow> scanned_ok s b) \<and>
     (\<forall>b start bound. wk_phase w = Observing b start bound \<longrightarrow> bound_ok s start bound) \<and>
     (\<forall>b answer. wk_phase w = Answered b answer \<longrightarrow> ba_ids b \<noteq> []) \<and>
     (\<forall>g. wk_gap w = Some g \<longrightarrow> gap_ok s g (wk_bound w) (wk_forced w))"

definition covered :: "delivery \<Rightarrow> outbox_event \<Rightarrow> bool" where
  "covered s e \<longleftrightarrow> (\<exists>p \<in> set (dl_log s). cu_last (ba_cur (pa_batch p)) < ev_id e \<and> ev_id e \<le> pa_to p \<and>
     (e \<in> set (ba_rows (pa_batch p)) \<or> passes (ba_given_up (pa_batch p)) (ev_id e)))"

definition given_up :: "delivery \<Rightarrow> int \<Rightarrow> bool" where
  "given_up s k \<longleftrightarrow> (\<exists>p \<in> set (dl_log s). cu_last (ba_cur (pa_batch p)) < k \<and> k \<le> pa_to p \<and> passes (ba_given_up (pa_batch p)) k)"

definition cursor_ok :: "delivery \<Rightarrow> bool" where
  "cursor_ok s \<longleftrightarrow> (\<forall>c. dl_cursor s = Some c \<longrightarrow> cu_last c < ob_next (dl_box s) \<and>
     (\<forall>e \<in> set (dl_ever s). cu_last c < ev_id e \<longrightarrow> e \<in> set (ob_events (dl_box s))) \<and>
     (\<forall>e \<in> set (dl_ever s). dl_start s < ev_id e \<longrightarrow> ev_id e \<le> cu_last c \<longrightarrow> covered s e) \<and>
     (\<forall>e \<in> set (uncommitted (dl_box s)). dl_start s < ev_id e \<longrightarrow> ev_id e \<le> cu_last c \<longrightarrow> given_up s (ev_id e)))"

text \<open>A row that was passed and matched is in the batch, and the batch was acknowledged through it or is in the dead letters.\<close>

definition accounted :: "(int \<times> int) list \<Rightarrow> pass \<Rightarrow> int \<Rightarrow> bool" where
  "accounted dead p k \<longleftrightarrow> k \<in> set (ba_ids (pa_batch p)) \<and>
     (case pa_outcome p of Silent \<Rightarrow> False | AckedTo a \<Rightarrow> k \<le> a | DeadLettered \<Rightarrow> (\<exists>h \<in> set dead. fst h \<le> k \<and> k \<le> snd h))"

definition log_ok :: "delivery \<Rightarrow> bool" where
  "log_ok s \<longleftrightarrow> (\<forall>p \<in> set (dl_log s). \<forall>r \<in> set (ba_rows (pa_batch p)).
     ev_id r \<le> pa_to p \<longrightarrow> matches (ba_match (pa_batch p)) (ev_typ r) \<longrightarrow> accounted (dl_dead s) p (ev_id r))"

definition delivery_ok :: "delivery \<Rightarrow> bool" where
  "delivery_ok s \<longleftrightarrow> box_ok (dl_box s) \<and> (\<forall>i. worker_ok s (dl_workers s i)) \<and> cursor_ok s \<and> log_ok s"

subsection \<open>Transactions and retention\<close>

text \<open>What every step outside the workers leaves.\<close>

definition box_later :: "delivery \<Rightarrow> delivery \<Rightarrow> bool" where
  "box_later s t \<longleftrightarrow> dl_cursor t = dl_cursor s \<and> dl_log t = dl_log s \<and> dl_dead t = dl_dead s \<and> dl_start t = dl_start s \<and>
     dl_workers t = dl_workers s \<and> ob_next (dl_box s) \<le> ob_next (dl_box t) \<and>
     (\<forall>x \<in> set (ob_running (dl_box t)). \<forall>e \<in> set (tx_events x). ob_next (dl_box s) \<le> ev_id e \<or>
        (\<exists>y \<in> set (ob_running (dl_box s)). tx_xid y = tx_xid x \<and> e \<in> set (tx_events y))) \<and>
     (\<forall>e \<in> set (dl_ever t). e \<in> set (dl_ever s) \<or> e \<in> set (uncommitted (dl_box s)) \<and> e \<in> set (ob_events (dl_box t))) \<and>
     (\<forall>c. dl_cursor s = Some c \<longrightarrow> (\<forall>e \<in> set (ob_events (dl_box s)). cu_last c < ev_id e \<longrightarrow> e \<in> set (ob_events (dl_box t))))"

lemma box_later_pending:
  "box_later s t \<Longrightarrow> e \<in> set (uncommitted (dl_box t)) \<Longrightarrow> e \<in> set (uncommitted (dl_box s)) \<or> ob_next (dl_box s) \<le> ev_id e"
  by (fastforce simp: box_later_def uncommitted_iff)

lemma scanned_ok_later:
  assumes "box_later s t" "scanned_ok s b"
  shows "scanned_ok t b"
proof -
  have "batch_settled t b" if "batch_settled s b" "ba_horizon b < ob_next (dl_box s)"
    using that assms(1) box_later_pending [OF assms(1)] unfolding batch_settled_def box_later_def by fastforce
  then show ?thesis using assms unfolding scanned_ok_def by (auto simp: box_later_def)
qed

lemma bound_ok_later:
  assumes "box_later s t" "bound_ok s a b"
  shows "bound_ok t a b"
proof -
  from assms(2) obtain c where c: "dl_cursor s = Some c" "a < b" "b < ob_next (dl_box s)"
    "cu_last c < b \<longrightarrow> b \<in> ev_id ` set (ob_events (dl_box s))"
    by (auto simp: bound_ok_def)
  moreover have "b \<in> ev_id ` set (ob_events (dl_box t))" if "cu_last c < b"
    using assms(1) c that by (auto simp: box_later_def)
  ultimately show ?thesis using assms(1) by (auto simp: bound_ok_def box_later_def)
qed

lemma gap_ok_later:
  assumes "box_later s t" "gap_ok s g b f"
  shows "gap_ok t g b f"
proof -
  have b: "b < ob_next (dl_box s)" using assms(2) by (simp add: gap_ok_def bound_ok_def)
  have "tx_xid x < ga_xmax g"
    if r: "\<not> ga_resolved g" "x \<in> set (ob_running (dl_box t))" "e \<in> set (tx_events x)" "ga_start g \<le> ev_id e" "ev_id e < b" for x e
  proof -
    from assms(1) r(2,3) b r(5) obtain y where "y \<in> set (ob_running (dl_box s))" "tx_xid y = tx_xid x" "e \<in> set (tx_events y)"
      unfolding box_later_def by (meson leD order.strict_trans2 order_less_trans)
    then show ?thesis using assms(2) r unfolding gap_ok_def by metis
  qed
  moreover have "\<not> (ga_start g \<le> ev_id e \<and> ev_id e < b)"
    if "ga_resolved g" "\<not> f" "e \<in> set (uncommitted (dl_box t))" for e
    using box_later_pending [OF assms(1) that(3)] assms(2) that(1,2) b by (auto simp: gap_ok_def)
  ultimately show ?thesis using bound_ok_later [OF assms(1)] assms(2) by (simp add: gap_ok_def)
qed

lemma delivery_ok_later:
  assumes "box_later s t" "delivery_ok s" "box_ok (dl_box t)"
  shows "delivery_ok t"
proof -
  have "worker_ok t (dl_workers t i)" for i
    using assms(1,2) scanned_ok_later [OF assms(1)] bound_ok_later [OF assms(1)] gap_ok_later [OF assms(1)]
    by (simp add: delivery_ok_def worker_ok_def box_later_def)
  have same: "covered t e = covered s e" "given_up t k = given_up s k" for e k
    using assms(1) by (simp_all add: covered_def given_up_def box_later_def)
  have gc: "given_up s (ev_id e) \<Longrightarrow> covered s e" for e by (auto simp: covered_def given_up_def)
  have "cursor_ok t" unfolding cursor_ok_def
  proof (intro allI impI conjI ballI)
    fix c assume "dl_cursor t = Some c"
    then have c: "dl_cursor s = Some c" using assms(1) by (simp add: box_later_def)
    then have ok: "cu_last c < ob_next (dl_box s)" using assms(2) by (simp add: delivery_ok_def cursor_ok_def)
    then show "cu_last c < ob_next (dl_box t)" using assms(1) by (simp add: box_later_def)
    have st: "dl_start t = dl_start s" using assms(1) by (simp add: box_later_def)
    have ever: "e \<in> set (dl_ever s) \<or> e \<in> set (uncommitted (dl_box s)) \<and> e \<in> set (ob_events (dl_box t))" if "e \<in> set (dl_ever t)" for e
      using assms(1) that by (simp add: box_later_def)
    show "e \<in> set (ob_events (dl_box t))" if e: "e \<in> set (dl_ever t)" "cu_last c < ev_id e" for e
      using ever [OF e(1)] e(2) c assms(1,2) unfolding delivery_ok_def cursor_ok_def box_later_def by blast
    show "covered t e" if e: "e \<in> set (dl_ever t)" "dl_start t < ev_id e" "ev_id e \<le> cu_last c" for e
    proof -
      have "covered s e"
        using ever [OF e(1)] e(2,3) c assms(2) gc unfolding delivery_ok_def cursor_ok_def st by blast
      then show ?thesis by (simp add: same)
    qed
    show "given_up t (ev_id e)" if e: "e \<in> set (uncommitted (dl_box t))" "dl_start t < ev_id e" "ev_id e \<le> cu_last c" for e
    proof -
      have "e \<in> set (uncommitted (dl_box s))" using box_later_pending [OF assms(1) e(1)] e(3) ok by linarith
      then have "given_up s (ev_id e)" using e(2,3) c assms(2) unfolding delivery_ok_def cursor_ok_def st by blast
      then show ?thesis by (simp add: same)
    qed
  qed
  then show ?thesis using assms \<open>\<And>i. worker_ok t (dl_workers t i)\<close> by (simp add: delivery_ok_def log_ok_def box_later_def)
qed

lemma box_steps_later:
  "box_ok (dl_box s) \<Longrightarrow> box_later s (s\<lparr>dl_now := t\<rparr>)"
  "box_later s (s\<lparr>dl_box := begin_tx (dl_box s)\<rparr>)"
  "box_later s (s\<lparr>dl_box := Emit x typ now (dl_box s)\<rparr>)"
  "box_later s (s\<lparr>dl_box := finish_tx x (written (dl_box s) x) (dl_box s), dl_ever := written (dl_box s) x @ dl_ever s\<rparr>)"
  "box_later s (s\<lparr>dl_box := finish_tx x [] (dl_box s)\<rparr>)"
  "box_later s (s\<lparr>dl_box := PurgeEvents now age (case dl_cursor s of Some c \<Rightarrow> cu_last c # cs | None \<Rightarrow> cs) (dl_box s)\<rparr>)"
proof -
  show "box_later s (s\<lparr>dl_box := Emit x typ now (dl_box s)\<rparr>)"
    using Emit_running [where x = x and b = "dl_box s"] by (fastforce simp: box_later_def Emit_def)
  show "box_later s (s\<lparr>dl_box := PurgeEvents now age (case dl_cursor s of Some c \<Rightarrow> cu_last c # cs | None \<Rightarrow> cs) (dl_box s)\<rparr>)"
  proof (cases "dl_cursor s")
    case (Some c)
    have "ev_id e \<le> cu_last c" if "e \<in> set (purgeable now age (cu_last c # cs) (dl_box s))" for e
      using that by (auto simp: purgeable_def dest!: in_set_takeD)
    then show ?thesis using Some by (fastforce simp: box_later_def PurgeEvents_def)
  qed (auto simp: box_later_def PurgeEvents_def)
qed (auto simp: box_later_def begin_tx_def finish_tx_def written_iff uncommitted_iff)

subsection \<open>The cursor and the workers\<close>

lemma set_worker_ok:
  assumes "delivery_ok s" "worker_ok s w"
  shows "delivery_ok (set_worker i w s)"
proof -
  have "worker_ok (set_worker i w s) v = worker_ok s v" for v
    by (simp add: worker_ok_def set_worker_def scanned_ok_def batch_settled_def bound_ok_def gap_ok_def)
  then show ?thesis using assms
    by (auto simp: delivery_ok_def cursor_ok_def log_ok_def covered_def given_up_def set_worker_def)
qed

lemma resting_ok: "worker_ok s w \<Longrightarrow> worker_ok s (w\<lparr>wk_phase := Resting\<rparr>)"
  by (simp add: worker_ok_def)

lemma rest_ok: "delivery_ok s \<Longrightarrow> delivery_ok (rest i s)"
  unfolding rest_def by (rule set_worker_ok, assumption, rule resting_ok) (simp add: delivery_ok_def)

text \<open>A change of the cursor row, and dead letters.\<close>

lemma cursor_moved_ok:
  assumes "delivery_ok s" "dl_cursor s = Some c" "cu_last c \<le> cu_last k" "cu_last k < ob_next (dl_box s)"
    and "cu_last c < cu_last k \<Longrightarrow> \<exists>p \<in> set (dl_log t). cu_last (ba_cur (pa_batch p)) = cu_last c \<and> pa_to p = cu_last k \<and>
      batch_settled s (pa_batch p) \<and> cu_last k \<le> ba_horizon (pa_batch p)"
    and t: "dl_cursor t = Some k" "dl_box t = dl_box s" "dl_workers t = dl_workers s" "dl_start t = dl_start s" "dl_ever t = dl_ever s"
      "set (dl_log s) \<subseteq> set (dl_log t)"
    and "log_ok t"
  shows "delivery_ok t"
proof -
  have mono: "covered s e \<Longrightarrow> covered t e" "given_up s j \<Longrightarrow> given_up t j" for e j
    using t(6) by (auto simp: covered_def given_up_def)
  have settled: "\<exists>p \<in> set (dl_log t). cu_last (ba_cur (pa_batch p)) = cu_last c \<and> pa_to p = cu_last k \<and>
      batch_settled s (pa_batch p) \<and> ev_id e \<le> ba_horizon (pa_batch p)"
    if "cu_last c < ev_id e" "ev_id e \<le> cu_last k" for e
    using assms(5) that by fastforce
  have new: "covered t e" if e: "e \<in> set (dl_ever s)" "cu_last c < ev_id e" "ev_id e \<le> cu_last k" for e
    using settled [OF e(2,3)] e unfolding batch_settled_def covered_def by metis
  have newg: "given_up t (ev_id e)" if e: "e \<in> set (uncommitted (dl_box s))" "cu_last c < ev_id e" "ev_id e \<le> cu_last k" for e
    using settled [OF e(2,3)] e unfolding batch_settled_def given_up_def by metis
  have c: "cursor_ok s" "box_ok (dl_box s)" using assms(1) by (auto simp: delivery_ok_def)
  have "cursor_ok t"
    unfolding cursor_ok_def
  proof (intro allI impI conjI ballI)
    fix k' assume "dl_cursor t = Some k'"
    then have k: "k' = k" using t by simp
    show "cu_last k' < ob_next (dl_box t)" using k t assms(4) by simp
    show "e \<in> set (ob_events (dl_box t))" if "e \<in> set (dl_ever t)" "cu_last k' < ev_id e" for e
    proof -
      have "cu_last c < ev_id e" using that(2) assms(3) unfolding k by linarith
      then show ?thesis using c(1) assms(2) t that(1) by (simp add: cursor_ok_def)
    qed
    show "covered t e" if e: "e \<in> set (dl_ever t)" "dl_start t < ev_id e" "ev_id e \<le> cu_last k'" for e
      using c(1) assms(2) t e new mono k by (cases "ev_id e \<le> cu_last c") (auto simp: cursor_ok_def)
    show "given_up t (ev_id e)" if e: "e \<in> set (uncommitted (dl_box t))" "dl_start t < ev_id e" "ev_id e \<le> cu_last k'" for e
      using c(1) assms(2) t e newg mono k by (cases "ev_id e \<le> cu_last c") (auto simp: cursor_ok_def)
  qed
  moreover have "worker_ok t w" if w: "worker_ok s w" for w
  proof -
    have p: "\<exists>k'. dl_cursor t = Some k' \<and> cu_last d \<le> cu_last k'" if "phase_cur (wk_phase w) = Some d" for d
      using w that assms(2,3) t(1) by (fastforce simp: worker_ok_def)
    have b: "scanned_ok t b" if "phase_batch (wk_phase w) = Some b" for b
    proof -
      have ok: "scanned_ok s b" using w that by (simp add: worker_ok_def)
      have "cu_last (ba_cur b) \<le> cu_last c"
        using w that assms(2) by (cases "wk_phase w") (auto simp: worker_ok_def)
      then have "cu_last k = cu_last (ba_cur b) \<Longrightarrow> cu_last c = cu_last (ba_cur b)" using assms(3) by linarith
      then show ?thesis using ok t assms(2) by (auto simp: scanned_ok_def batch_settled_def)
    qed
    have bd: "bound_ok t a e" if "bound_ok s a e" for a e
      using that t assms(2,3) by (auto simp: bound_ok_def)
    show ?thesis using w p b bd t(2) by (auto simp: worker_ok_def gap_ok_def)
  qed
  ultimately show ?thesis using assms(1,12) t by (simp add: delivery_ok_def)
qed

lemma advance_ok:
  assumes s: "delivery_ok s" and b: "scanned_ok s b" and to: "cu_last (ba_cur b) < to" "to \<le> ba_horizon b"
    and out: "\<And>r. r \<in> set (ba_rows b) \<Longrightarrow> ev_id r \<le> to \<Longrightarrow> matches (ba_match b) (ev_typ r) \<Longrightarrow>
      accounted (dl_dead s) \<lparr>pa_batch = b, pa_to = to, pa_outcome = out\<rparr> (ev_id r)"
  shows "delivery_ok (advance_cursor b to out s)"
proof (cases "map_option cu_last (dl_cursor s) = Some (cu_last (ba_cur b))")
  case True
  then obtain c where c: "dl_cursor s = Some c" "cu_last c = cu_last (ba_cur b)" by auto
  let ?k = "\<lparr>cu_last = to, cu_failures = 0, cu_retry = None\<rparr>"
  let ?t = "advance_cursor b to out s"
  have settled: "batch_settled s b" "ba_horizon b < ob_next (dl_box s)" using b True by (auto simp: scanned_ok_def)
  have "log_ok ?t" using s out True by (auto simp: log_ok_def delivery_ok_def advance_cursor_def)
  then show ?thesis
    using s c to settled by (intro cursor_moved_ok [of s c ?k ?t]) (auto simp: advance_cursor_def)
next
  case False
  then show ?thesis using s unfolding advance_cursor_def by (simp only: if_False)
qed

lemma dead_ok: "delivery_ok s \<Longrightarrow> delivery_ok (s\<lparr>dl_dead := h # dl_dead s\<rparr>)"
  by (fastforce simp: delivery_ok_def worker_ok_def scanned_ok_def batch_settled_def bound_ok_def gap_ok_def cursor_ok_def covered_def
    given_up_def log_ok_def accounted_def split: pass_outcome.splits)

lemma scanned_ok_dead: "scanned_ok (s\<lparr>dl_dead := d\<rparr>) b = scanned_ok s b"
  by (simp add: scanned_ok_def batch_settled_def)

lemma ids_sorted: "batch_rows_ok b \<Longrightarrow> sorted (ba_ids b)"
  using ascending_filter [of "ba_rows b"] by (auto simp: batch_rows_ok_def ascending_def sorted_map sorted_wrt_iff_nth_less less_imp_le)

lemma sorted_between: "sorted xs \<Longrightarrow> k \<in> set xs \<Longrightarrow> hd xs \<le> k \<and> k \<le> (last xs :: int)"
proof (induction xs)
  case (Cons x xs)
  then show ?case by (cases "xs = []") (auto intro: order_trans)
qed simp

lemma ids_between: "batch_rows_ok b \<Longrightarrow> k \<in> set (ba_ids b) \<Longrightarrow> hd (ba_ids b) \<le> k \<and> k \<le> last (ba_ids b)"
  by (rule sorted_between [OF ids_sorted])

lemma fail_ok:
  assumes s: "delivery_ok s" and b: "scanned_ok s b" and i: "ba_ids b \<noteq> []"
  shows "delivery_ok (fail_batch opt b s)"
proof (cases "map_option cu_last (dl_cursor s) = Some (cu_last (ba_cur b))")
  case True
  then obtain c where c: "dl_cursor s = Some c" "cu_last c = cu_last (ba_cur b)" by auto
  have ok: "batch_rows_ok b" using b by (simp add: scanned_ok_def)
  have row: "\<And>r. r \<in> set (ba_rows b) \<Longrightarrow> matches (ba_match b) (ev_typ r) \<Longrightarrow> ev_id r \<in> set (ba_ids b)"
    using ok by (auto simp: batch_rows_ok_def)
  let ?s = "s\<lparr>dl_dead := (hd (ba_ids b), last (ba_ids b)) # dl_dead s\<rparr>"
  have "hd (ba_ids b) \<in> set (ba_ids b)" using i by simp
  then have "cu_last (ba_cur b) < ba_horizon b" using ok by (fastforce simp: batch_rows_ok_def)
  then have "delivery_ok (advance_cursor b (ba_horizon b) DeadLettered ?s)"
    using row ids_between [OF ok] b
    by (intro advance_ok dead_ok s) (auto simp: scanned_ok_dead accounted_def)
  moreover have "delivery_ok (s\<lparr>dl_cursor := Some k\<rparr>)" if "cu_last k = cu_last (ba_cur b)" for k
  proof (rule cursor_moved_ok [OF s c(1)])
    have "cu_last c < ob_next (dl_box s)" using s c(1) by (simp add: delivery_ok_def cursor_ok_def)
    then show "cu_last k < ob_next (dl_box s)" using c(2) that by simp
    show "log_ok (s\<lparr>dl_cursor := Some k\<rparr>)" using s by (simp add: delivery_ok_def log_ok_def)
  qed (use c that in auto)
  ultimately show ?thesis by (simp add: fail_batch_def dead_letter_def Let_def True s)
next
  case False
  then show ?thesis using s by (auto simp: fail_batch_def dead_letter_def Let_def)
qed

lemma settle_ok:
  assumes s: "delivery_ok s" and b: "scanned_ok s b" and i: "ba_ids b \<noteq> []"
  shows "delivery_ok (settle_batch opt b answer s)"
proof (cases answer)
  case (Some a)
  show ?thesis
  proof (cases "cu_last (ba_cur b) < a")
    case True
    have ok: "batch_rows_ok b" using b by (simp add: scanned_ok_def)
    let ?to = "if last (ba_ids b) \<le> a then ba_horizon b else a"
    have l: "last (ba_ids b) \<in> set (ba_ids b)" using i by simp
    then have h: "cu_last (ba_cur b) < ba_horizon b" "last (ba_ids b) \<le> ba_horizon b" using ok by (auto simp: batch_rows_ok_def)
    have "ev_id r \<in> set (ba_ids b) \<and> ev_id r \<le> a"
      if r: "r \<in> set (ba_rows b)" "ev_id r \<le> ?to" "matches (ba_match b) (ev_typ r)" for r
    proof -
      have "ev_id r \<in> set (ba_ids b)" using ok r(1,3) by (auto simp: batch_rows_ok_def)
      then show ?thesis using ids_between [OF ok] r(2) by (fastforce split: if_splits)
    qed
    then have "delivery_ok (advance_cursor b ?to (AckedTo a) s)"
      using s b h True by (intro advance_ok) (auto simp: accounted_def split: if_splits)
    then show ?thesis using Some True by (simp add: settle_batch_def)
  next
    case False
    then show ?thesis using Some fail_ok [OF s b i] by (simp add: settle_batch_def)
  qed
qed (simp add: settle_batch_def fail_ok [OF s b i])

subsection \<open>Scanning and waiting for gaps\<close>

lemma ascending_take:
  assumes "ascending xs" "e \<in> set xs" "e \<notin> set (take n xs)" "r \<in> set (take n xs)"
  shows "ev_id r < ev_id e"
proof -
  have "e \<in> set (drop n xs)" using assms(2,3) by (metis Un_iff append_take_drop_id set_append)
  moreover have "ascending (take n xs @ drop n xs)" using assms(1) by simp
  ultimately show ?thesis using assms(4) unfolding ascending_def sorted_wrt_append by blast
qed

lemma scan_batch_settled:
  fixes c m n lim s w
  defines "R \<equiv> scan_rows c lim (dl_box s)"
  defines "t \<equiv> scan_loop (wk_gap w) m n R (scan_from c)"
  assumes s: "delivery_ok s" and w: "worker_ok s w"
    and cur: "map_option cu_last (dl_cursor s) = Some c"
    and ok: "scan_ok (wk_gap w) m c t" "set (sc_rows t) \<subseteq> set R" "\<forall>r \<in> set R. ev_id r \<le> sc_horizon t \<longrightarrow> r \<in> set (sc_rows t)"
    and b: "cu_last (ba_cur b) = c" "ba_horizon b = sc_horizon t" "ba_rows b = sc_rows t"
      "ba_given_up b = (if wk_forced w then sc_holes t else [])"
  shows "batch_settled s b"
proof -
  have box: "box_ok (dl_box s)" using s by (simp add: delivery_ok_def)
  let ?F = "filter (\<lambda>e. c < ev_id e) (ob_events (dl_box s))"
  have asc: "ascending ?F" using box by (simp add: box_ok_def ascending_filter)
  have R: "R = take (nat lim) ?F" by (simp add: R_def scan_rows_def)
  have early: "e \<in> set (sc_rows t)" if e: "e \<in> set (ob_events (dl_box s))" "c < ev_id e" "ev_id e \<le> sc_horizon t" for e
  proof (cases "e \<in> set R")
    case False
    have "sc_horizon t = c \<or> sc_horizon t \<in> ev_id ` set (sc_rows t)" using ok(1) by (simp add: scan_ok_def)
    then obtain r where "r \<in> set (sc_rows t)" "ev_id r = sc_horizon t" using e(2,3) by auto
    then have "r \<in> set R" "ev_id r = sc_horizon t" using ok(2) by auto
    then have "sc_horizon t < ev_id e" using ascending_take [OF asc, of e "nat lim" r] e(1,2) False unfolding R by simp
    then show ?thesis using e(3) by simp
  qed (use ok(3) e(3) in blast)
  have pend: "passes (ba_given_up b) (ev_id e)" if e: "e \<in> set (uncommitted (dl_box s))" "c < ev_id e" "ev_id e \<le> sc_horizon t" for e
  proof -
    have sub: "set (sc_rows t) \<subseteq> set (ob_events (dl_box s))" using ok(2) unfolding R by (auto dest!: in_set_takeD)
    have "ev_id e \<notin> ev_id ` set (ob_events (dl_box s))" using box e(1) unfolding box_ok_def by blast
    then have "ev_id e \<notin> ev_id ` set (sc_rows t)" using image_mono [OF sub, of ev_id] by blast
    then obtain h where h: "h \<in> set (sc_holes t)" "fst h \<le> ev_id e" "ev_id e < snd h" using ok(1) e(2,3) unfolding scan_ok_def by blast
    then have hh: "gapPassable (wk_gap w) (fst h)" "c < fst h" "snd h \<in> ev_id ` set (sc_rows t)"
      "\<forall>r \<in> set (sc_rows t). \<not> (fst h \<le> ev_id r \<and> ev_id r < snd h)"
      using ok(1) unfolding scan_ok_def by blast+
    then obtain g where g: "wk_gap w = Some g" "ga_start g = fst h" "ga_resolved g" by (auto simp: gapPassable_def split: option.splits)
    then have gok: "gap_ok s g (wk_bound w) (wk_forced w)" using w by (simp add: worker_ok_def)
    have "wk_forced w"
    proof (rule ccontr)
      assume f: "\<not> wk_forced w"
      have "\<not> (fst h \<le> ev_id e \<and> ev_id e < wk_bound w)" using gok g f e(1) by (simp add: gap_ok_def)
      then have lt: "wk_bound w < snd h" using h by linarith
      obtain k where k: "dl_cursor s = Some k" "cu_last k = c" using cur by auto
      have "fst h < wk_bound w" "wk_bound w \<in> ev_id ` set (ob_events (dl_box s))"
        using gok g(2) k hh(2) by (auto simp: gap_ok_def bound_ok_def)
      then obtain eb where eb: "eb \<in> set (ob_events (dl_box s))" "ev_id eb = wk_bound w" "fst h < ev_id eb" by auto
      have "snd h \<le> sc_horizon t" using hh(3) ok(1) unfolding scan_ok_def by auto
      then have "eb \<in> set (sc_rows t)" using early [OF eb(1)] eb(2,3) hh(2) lt by linarith
      then show False using hh(4) eb lt by force
    qed
    then show ?thesis using h b(4) by (auto simp: passes_def)
  qed
  have "e \<in> set (sc_rows t)" if e: "e \<in> set (dl_ever s)" "c < ev_id e" "ev_id e \<le> sc_horizon t" for e
  proof -
    have "e \<in> set (ob_events (dl_box s))" using s cur e(1,2) by (auto simp: delivery_ok_def cursor_ok_def)
    then show ?thesis using early e by blast
  qed
  then show ?thesis using pend b by (simp add: batch_settled_def)
qed

lemma scan_phase_ok:
  assumes s: "delivery_ok s" and w: "worker_ok s w" and p: "wk_phase w = Scanning c m n"
  shows "worker_ok s (w\<lparr>wk_phase := scan_phase opt c m n (dl_box s) w\<rparr>)"
proof -
  let ?R = "scan_rows (cu_last c) (op_scan opt) (dl_box s)"
  let ?t = "scan_loop (wk_gap w) m n ?R (scan_from (cu_last c))"
  have box: "box_ok (dl_box s)" using s by (simp add: delivery_ok_def)
  obtain k where k: "dl_cursor s = Some k" "cu_last c \<le> cu_last k" using w p by (auto simp: worker_ok_def)
  have asc: "ascending ?R" using box by (simp add: scan_rows_def box_ok_def ascending_def sorted_wrt_filter sorted_wrt_take)
  have sub: "set ?R \<subseteq> set (ob_events (dl_box s))" by (auto simp: scan_rows_def dest!: in_set_takeD)
  have after: "\<forall>r \<in> set ?R. sc_expected (scan_from (cu_last c)) \<le> ev_id r" by (auto simp: scan_rows_def scan_from_def dest!: in_set_takeD)
  have "sc_blocked (scan_from (cu_last c)) = None" "sc_rows (scan_from (cu_last c)) = []" by (simp_all add: scan_from_def)
  then have t: "scan_ok (wk_gap w) m (cu_last c) ?t" "set (sc_rows ?t) \<subseteq> set ?R"
      "\<forall>r \<in> set ?R. ev_id r \<le> sc_horizon ?t \<longrightarrow> r \<in> set (sc_rows ?t)"
      "\<And>a b. sc_blocked ?t = Some (a, b) \<Longrightarrow> cu_last c < a \<and> a < b \<and> b \<in> ev_id ` set ?R"
    using scan_loop_ok [OF scan_from_ok asc after] by auto
  have "scanned_ok s b" if b: "ba_cur b = c" "ba_ids b = sc_ids ?t" "ba_horizon b = sc_horizon ?t" "ba_rows b = sc_rows ?t" "ba_match b = m"
      "ba_given_up b = (if wk_forced w then sc_holes ?t else [])" for b
  proof -
    have "batch_rows_ok b" using t(1) b by (simp add: batch_rows_ok_def scan_ok_def)
    moreover have "sc_horizon ?t < ob_next (dl_box s)"
    proof (cases "sc_horizon ?t = cu_last c")
      case True
      then show ?thesis using s k by (auto simp: delivery_ok_def cursor_ok_def)
    next
      case False
      then have "sc_horizon ?t \<in> ev_id ` set (ob_events (dl_box s))" using t(1,2) sub unfolding scan_ok_def by blast
      then show ?thesis using box by (auto simp: box_ok_def)
    qed
    moreover have "batch_settled s b" if "map_option cu_last (dl_cursor s) = Some (cu_last c)"
      by (rule scan_batch_settled [OF s w that t(1-3)]) (simp_all add: b)
    ultimately show ?thesis using b(1,3) by (simp add: scanned_ok_def)
  qed
  moreover have "bound_ok s a b" if "sc_blocked ?t = Some (a, b)" for a b
  proof -
    have "b \<in> ev_id ` set (ob_events (dl_box s))" "a < b" using t(4) [OF that] sub by auto
    then show ?thesis using box k(1) by (auto simp: bound_ok_def box_ok_def)
  qed
  ultimately show ?thesis
    using w k by (auto simp: worker_ok_def scan_phase_def Let_def split: option.splits if_splits)
qed

text \<open>A snapshot whose upper bound lies above every running transaction, and the step that takes the bound for a gap.\<close>

definition above_running :: "(outbox \<Rightarrow> int) \<Rightarrow> outbox \<Rightarrow> bool" where
  "above_running sx b \<longleftrightarrow> (\<forall>t \<in> set (ob_running b). tx_xid t < sx b)"

definition observes :: "delivery \<Rightarrow> delivery \<Rightarrow> bool" where
  "observes s t \<longleftrightarrow> (\<exists>i b start bound. wk_phase (dl_workers s i) = Observing b start bound \<and> wk_phase (dl_workers t i) = Batched b)"

definition in_order :: "options \<Rightarrow> delivery \<Rightarrow> delivery \<Rightarrow> bool" where
  "in_order opt s t \<longleftrightarrow> dstep opt pg_xmax s t \<and> (observes s t \<longrightarrow> above_running pg_xmax (dl_box s))"

lemma snapshot_xmin_le:
  "t \<in> set (ob_running b) \<Longrightarrow> snapshot_xmin sx b \<le> tx_xid t"
proof -
  have "fold min xs m \<le> m \<and> (\<forall>x \<in> set xs. fold min xs m \<le> x)" for xs and m :: int
    by (induction xs arbitrary: m) (auto, (meson min.cobounded1 min.cobounded2 order_trans)+)
  then show "t \<in> set (ob_running b) \<Longrightarrow> snapshot_xmin sx b \<le> tx_xid t" by (simp add: snapshot_xmin_def)
qed

lemma check_worker_ok:
  assumes w: "worker_ok s w"
  shows "worker_ok s (check_worker opt now (snapshot_xmin sx (dl_box s)) w)"
proof (cases "wk_gap w")
  case (Some g)
  have ok: "gap_ok s g (wk_bound w) (wk_forced w)" using w Some by (simp add: worker_ok_def)
  have "gap_ok s (checkGap opt now (snapshot_xmin sx (dl_box s)) g) (wk_bound w)
      (op_gapMax opt \<le> now - ga_seen g \<and> op_gapMin opt \<le> now - ga_seen g)" if u: "\<not> ga_resolved g"
  proof -
    have "\<not> (ga_start g \<le> ev_id e \<and> ev_id e < wk_bound w)"
      if x: "ga_xmax g \<le> snapshot_xmin sx (dl_box s)" "e \<in> set (uncommitted (dl_box s))" for e
    proof -
      obtain t where t: "t \<in> set (ob_running (dl_box s))" "e \<in> set (tx_events t)" using x(2) by (auto simp: uncommitted_iff)
      then have "ga_xmax g \<le> tx_xid t" using x(1) snapshot_xmin_le order_trans by blast
      then show ?thesis using ok u t by (fastforce simp: gap_ok_def)
    qed
    then show ?thesis using ok u by (auto simp: gap_ok_def checkGap_def)
  qed
  then show ?thesis using w Some by (auto simp: worker_ok_def check_worker_def)
qed (use w in \<open>simp add: check_worker_def\<close>)

subsection \<open>Every step keeps the state in order\<close>

lemma create_cursor_ok:
  assumes "delivery_ok s" "dl_cursor s = None"
  shows "delivery_ok (create_cursor s)"
proof -
  have m: "fold max xs a < n" if "a < n" "\<forall>x \<in> set xs. x < n" for xs and a n :: int
    using that by (induction xs arbitrary: a) auto
  have "box_ok (dl_box s)" using assms(1) by (simp add: delivery_ok_def)
  then have "fold max (map ev_id (ob_events (dl_box s))) 0 < ob_next (dl_box s)" by (intro m) (auto simp: box_ok_def)
  then have "cursor_ok (create_cursor s)" by (simp add: cursor_ok_def create_cursor_def Let_def)
  moreover have "worker_ok (create_cursor s) w" if w: "worker_ok s w" for w
  proof -
    have "phase_cur (wk_phase w) = None" using w assms(2) unfolding worker_ok_def by (metis option.distinct(1) option.exhaust)
    moreover have "wk_gap w = None" using w assms(2) unfolding worker_ok_def gap_ok_def bound_ok_def
      by (metis option.distinct(1) option.exhaust)
    ultimately show ?thesis by (cases "wk_phase w") (simp_all add: worker_ok_def)
  qed
  ultimately show ?thesis using assms(1) by (simp add: delivery_ok_def log_ok_def create_cursor_def Let_def)
qed

lemma observe_gap_ok:
  assumes s: "delivery_ok s" and w: "worker_ok s w" and p: "wk_phase w = Observing b a e" and sx: "above_running sx (dl_box s)"
  shows "worker_ok s ((observe_gap now (sx (dl_box s)) a e w)\<lparr>wk_phase := Batched b\<rparr>)"
proof -
  have "box_ok (dl_box s)" using s by (simp add: delivery_ok_def)
  then show ?thesis using w p sx by (auto simp: worker_ok_def observe_gap_def gap_ok_def above_running_def)
qed

lemma dstep_ok:
  assumes "dstep opt sx s t" "delivery_ok s" "observes s t \<Longrightarrow> above_running sx (dl_box s)"
  shows "delivery_ok t"
proof -
  have box: "box_ok (dl_box s)" and w: "worker_ok s (dl_workers s i)" for i using assms(2) by (auto simp: delivery_ok_def)
  show ?thesis
    using assms(1)
  proof cases
    case (Tick now)
    then show ?thesis using delivery_ok_later [OF box_steps_later(1) [OF box] assms(2)] box by simp
  next
    case BeginTx
    then show ?thesis using delivery_ok_later [OF box_steps_later(2) assms(2)] begin_tx_ok [OF box] by simp
  next
    case (EmitEvent x ty)
    then show ?thesis using delivery_ok_later [OF box_steps_later(3) assms(2)] Emit_ok [OF box] by simp
  next
    case (CommitTx x)
    then show ?thesis using delivery_ok_later [OF box_steps_later(4) assms(2)] finish_tx_ok [OF box] by simp
  next
    case (AbortTx x)
    then show ?thesis using delivery_ok_later [OF box_steps_later(5) assms(2)] finish_tx_ok [OF box] by simp
  next
    case (Purge cs)
    then show ?thesis using delivery_ok_later [OF box_steps_later(6) assms(2)] PurgeEvents_ok [OF box] by simp
  next
    case Subscribe
    then show ?thesis using create_cursor_ok assms(2) by simp
  next
    case (Leave i)
    then show ?thesis using rest_ok assms(2) by simp
  next
    case (Restart i)
    then show ?thesis using assms(2) by (auto intro!: set_worker_ok simp: worker_ok_def fresh_worker_def)
  next
    case (LoadCursor i c pats n)
    then show ?thesis using assms(2) w [of i] by (auto intro!: set_worker_ok simp: worker_ok_def)
  next
    case (Check i c m n)
    then have "worker_ok s (check_worker opt (dl_now s) (snapshot_xmin sx (dl_box s)) (dl_workers s i))"
      by (intro check_worker_ok w)
    moreover have "wk_phase (check_worker opt (dl_now s) (snapshot_xmin sx (dl_box s)) (dl_workers s i)) = Checking c m n"
      using Check by (simp add: check_worker_def split: option.splits)
    ultimately show ?thesis using Check assms(2) by (auto intro!: set_worker_ok simp: worker_ok_def)
  next
    case (Scan i c m n)
    then show ?thesis using assms(2) scan_phase_ok [OF assms(2) w] by (auto intro!: set_worker_ok)
  next
    case (Observe i b a e)
    then have "wk_phase (dl_workers t i) = Batched b" by (simp add: set_worker_def)
    then have "above_running sx (dl_box s)" using Observe by (intro assms(3)) (auto simp: observes_def)
    then show ?thesis using Observe assms(2) observe_gap_ok [OF assms(2) w] by (auto intro!: set_worker_ok)
  next
    case (Pass i b)
    then have ok: "scanned_ok s b" using w [of i] by (simp add: worker_ok_def)
    then have "ev_id r \<in> set (ba_ids b)" if "r \<in> set (ba_rows b)" "matches (ba_match b) (ev_typ r)" for r
      using that by (auto simp: scanned_ok_def batch_rows_ok_def)
    then show ?thesis using Pass assms(2) ok by (auto intro!: rest_ok advance_ok)
  next
    case (Call i b answer)
    then show ?thesis using assms(2) w [of i] by (auto intro!: set_worker_ok simp: worker_ok_def)
  next
    case (Settle i b answer)
    then have ok: "scanned_ok s b" using w [of i] by (simp add: worker_ok_def)
    moreover have "ba_ids b \<noteq> []" using Settle w [of i] by (simp add: worker_ok_def)
    ultimately show ?thesis using Settle assms(2) by (auto intro!: rest_ok settle_ok)
  qed
qed

end
