(* ===== verification/EventRuns.thy ===== *)
theory EventRuns
  imports EventSafety
begin

section \<open>What delivery promises, and an event that is lost\<close>

text \<open>
  An event committed after the subscription is not skipped, provided that no transaction younger than all finished ones is
  running when a worker takes the bound for a gap; and it can be skipped otherwise.
\<close>

text \<open>C35: Every event committed since the subscription that the cursor has passed was in a batch the plugin acknowledged
  through it or that went to the dead letters, or did not match the subscription, or lies in a gap whose wait was given up, if
  a bound is only taken for a gap when PostgreSQL's xmax lies above all running transactions.\<close>

theorem events_are_not_skipped:
  assumes "(in_order opt)\<^sup>*\<^sup>* no_events s"
    and "dl_cursor s = Some c" "e \<in> set (dl_ever s)" "dl_start s < ev_id e" "ev_id e \<le> cu_last c"
  shows "\<exists>p \<in> set (dl_log s). ev_id e \<le> pa_to p \<and>
    ((e \<in> set (ba_rows (pa_batch p)) \<and>
      (matches (ba_match (pa_batch p)) (ev_typ e) \<longrightarrow> accounted (dl_dead s) p (ev_id e))) \<or>
     passes (ba_given_up (pa_batch p)) (ev_id e))"
proof -
  have "delivery_ok no_events"
    by (auto simp: delivery_ok_def no_events_def box_ok_def ascending_def uncommitted_def worker_ok_def fresh_worker_def cursor_ok_def log_ok_def)
  with assms(1) have "delivery_ok s" by (induction rule: rtranclp_induct) (auto simp: in_order_def intro: dstep_ok)
  then have "covered s e" "log_ok s" using assms(2-5) by (auto simp: delivery_ok_def cursor_ok_def)
  then show ?thesis unfolding covered_def log_ok_def by blast
qed

subsection \<open>Runs with one worker\<close>

definition demo_delivery :: "int \<Rightarrow> outbox \<Rightarrow> cursor \<Rightarrow> worker \<Rightarrow> outbox_event list \<Rightarrow> pass list \<Rightarrow> delivery" where
  "demo_delivery now b c w ever lg = \<lparr>dl_now = now, dl_box = b, dl_cursor = Some c, dl_dead = [],
     dl_workers = (\<lambda>_. fresh_worker)(0 := w), dl_start = 0, dl_ever = ever, dl_log = lg\<rparr>"

definition demo_options :: options where
  "demo_options = defaults \<lparr>op_batch = 0, op_poll = 0, op_lockTTL = 0, op_call = 0, op_maxFailures = 0, op_backoffMin = 0,
     op_backoffMax = 0, op_scan = 0, op_gapMin = 0, op_gapMax = 0, op_age = 0, op_retention = 0\<rparr>"

definition demo_cursor :: "int \<Rightarrow> cursor" where
  "demo_cursor n = \<lparr>cu_last = n, cu_failures = 0, cu_retry = None\<rparr>"

definition demo_worker :: "gapState option \<Rightarrow> step_phase \<Rightarrow> int \<Rightarrow> worker" where
  "demo_worker g p bound = \<lparr>wk_gap = g, wk_phase = p, wk_bound = bound, wk_forced = False\<rparr>"

definition demo_event :: "int \<Rightarrow> outbox_event" where
  "demo_event n = \<lparr>ev_id = n, ev_typ = ''user.created'', ev_at = 0\<rparr>"

lemma demo_options_simps [simp]: "op_scan demo_options = 1000" "op_gapMin demo_options = 1000000000"
  "op_gapMax demo_options = 300000000000"
  by (simp_all add: demo_options_def defaults_def Let_def or_default_def seconds_def)

lemmas demo_run = demo_delivery_def demo_cursor_def demo_worker_def set_worker_def rest_def fresh_worker_def waiting_def
  begin_tx_def Emit_def insert_event_def finish_tx_def written_def demo_event_def

lemma demo_subscribe: "dstep opt sx no_events
    (demo_delivery 0 \<lparr>ob_events = [], ob_next = 1, ob_running = [], ob_next_xid = 1, ob_completed = 0\<rparr> (demo_cursor 0) fresh_worker [] [])"
proof -
  have "(\<lambda>_. fresh_worker)((0 :: nat) := fresh_worker) = (\<lambda>_. fresh_worker)" by auto
  then show ?thesis using Subscribe [of no_events opt sx] by (simp add: no_events_def create_cursor_def demo_delivery_def demo_cursor_def)
qed

lemma demo_matches: "matches (newMatcher [''*'']) t"
  by (simp add: matches_def newMatcher_def add_subscription_def)

text \<open>A worker with a fresh gap state reads the cursor.\<close>

lemma demo_load: "wk_phase w = Resting \<Longrightarrow> dstep opt sx (demo_delivery now b (demo_cursor n) w ever lg)
    (demo_delivery now b (demo_cursor n) (w\<lparr>wk_phase := Checking (demo_cursor n) (newMatcher [''*'']) 100\<rparr>) ever lg)"
  using LoadCursor [of "demo_delivery now b (demo_cursor n) w ever lg" 0 "demo_cursor n" opt sx "[''*'']" 100]
  by (simp add: demo_run)

lemma demo_check: "wk_phase w = Checking c m n \<Longrightarrow> dstep opt sx (demo_delivery now b k w ever lg)
    (demo_delivery now b k ((check_worker opt now (snapshot_xmin sx b) w)\<lparr>wk_phase := Scanning c m n\<rparr>) ever lg)"
  using Check [of "demo_delivery now b k w ever lg" 0 c m n opt sx] by (simp add: demo_delivery_def set_worker_def)

lemma demo_scan: "wk_phase w = Scanning c m n \<Longrightarrow> dstep opt sx (demo_delivery now b k w ever lg)
    (demo_delivery now b k (w\<lparr>wk_phase := scan_phase opt c m n b w\<rparr>) ever lg)"
  using Scan [of "demo_delivery now b k w ever lg" 0 c m n opt sx] by (simp add: demo_delivery_def set_worker_def)

lemma demo_observe: "wk_phase w = Observing a i j \<Longrightarrow> dstep opt sx (demo_delivery now b k w ever lg)
    (demo_delivery now b k ((observe_gap now (sx b) i j w)\<lparr>wk_phase := Batched a\<rparr>) ever lg)"
  using Observe [of "demo_delivery now b k w ever lg" 0 a i j opt sx] by (simp add: demo_delivery_def set_worker_def)

lemma demo_call: "wk_phase w = Batched a \<Longrightarrow> ba_ids a \<noteq> [] \<Longrightarrow> dstep opt sx (demo_delivery now b k w ever lg)
    (demo_delivery now b k (w\<lparr>wk_phase := Answered a answer\<rparr>) ever lg)"
  using Call [of "demo_delivery now b k w ever lg" 0 a opt sx answer] by (simp add: demo_delivery_def set_worker_def)

lemma demo_settle: "wk_phase w = Answered a (Some n) \<Longrightarrow> cu_last (ba_cur a) = cu_last k \<Longrightarrow> cu_last k < n \<Longrightarrow> last (ba_ids a) \<le> n \<Longrightarrow>
    dstep opt sx (demo_delivery now b k w ever lg)
    (demo_delivery now b (demo_cursor (ba_horizon a)) (w\<lparr>wk_phase := Resting\<rparr>) ever
      (\<lparr>pa_batch = a, pa_to = ba_horizon a, pa_outcome = AckedTo n\<rparr> # lg))"
  using Settle [of "demo_delivery now b k w ever lg" 0 a "Some n" opt sx]
  by (simp add: demo_delivery_def set_worker_def rest_def settle_batch_def advance_cursor_def demo_cursor_def)

lemma demo_leave: "dstep opt sx (demo_delivery now b k w ever lg) (demo_delivery now b k (w\<lparr>wk_phase := Resting\<rparr>) ever lg)"
  using Leave [of opt sx "demo_delivery now b k w ever lg" 0] by (simp add: demo_delivery_def set_worker_def rest_def)

lemma demo_tick: "now \<le> t \<Longrightarrow> dstep opt sx (demo_delivery now b k w ever lg) (demo_delivery t b k w ever lg)"
  using Tick [of "demo_delivery now b k w ever lg" t opt sx] by (simp add: demo_delivery_def)

lemma demo_begin: "dstep opt sx (demo_delivery now b k w ever lg) (demo_delivery now (begin_tx b) k w ever lg)"
  using BeginTx [of opt sx "demo_delivery now b k w ever lg"] by (simp add: demo_delivery_def)

lemma demo_emit: "x \<in> tx_xid ` set (ob_running b) \<Longrightarrow>
    dstep opt sx (demo_delivery now b k w ever lg) (demo_delivery now (Emit x ''user.created'' now b) k w ever lg)"
  using EmitEvent [of x "demo_delivery now b k w ever lg" "''user.created''" opt sx] by (simp add: demo_delivery_def)

lemma demo_commit: "x \<in> tx_xid ` set (ob_running b) \<Longrightarrow>
    dstep opt sx (demo_delivery now b k w ever lg) (demo_delivery now (finish_tx x (written b x) b) k w (written b x @ ever) lg)"
  using CommitTx [of x "demo_delivery now b k w ever lg" opt sx] by (simp add: demo_delivery_def)

lemma demo_in_order:
  "dstep opt pg_xmax (demo_delivery now b k w ever lg) s \<Longrightarrow> (\<And>a i j. wk_phase w \<noteq> Observing a i j) \<Longrightarrow>
    in_order opt (demo_delivery now b k w ever lg) s"
  by (auto simp: in_order_def observes_def demo_delivery_def fresh_worker_def split: if_splits)

lemma demo_subscribe_in_order: "(in_order opt)\<^sup>*\<^sup>* no_events
    (demo_delivery 0 \<lparr>ob_events = [], ob_next = 1, ob_running = [], ob_next_xid = 1, ob_completed = 0\<rparr> (demo_cursor 0) fresh_worker [] [])"
  using demo_subscribe [of opt pg_xmax] by (intro r_into_rtranclp) (auto simp: in_order_def observes_def no_events_def fresh_worker_def)

theorem events_are_not_skipped_witness:
  "\<exists>s p. (in_order demo_options)\<^sup>*\<^sup>* no_events s \<and> demo_event 1 \<in> set (dl_ever s) \<and> p \<in> set (dl_log s) \<and>
     accounted (dl_dead s) p 1 \<and> pa_outcome p = AckedTo 1"
proof -
  let ?nb = "\<lparr>ob_events = [], ob_next = 1, ob_running = [], ob_next_xid = 1, ob_completed = 0\<rparr>"
  let ?b = "\<lparr>ob_events = [demo_event 1], ob_next = 2, ob_running = [], ob_next_xid = 2, ob_completed = 1\<rparr>"
  let ?k = "demo_cursor 0" let ?m = "newMatcher [''*'']"
  let ?a = "\<lparr>ba_cur = ?k, ba_ids = [1], ba_horizon = 1, ba_rows = [demo_event 1], ba_match = ?m, ba_given_up = []\<rparr>"
  let ?S = "in_order demo_options"
  let ?w = "\<lambda>p. demo_worker None p 0"
  have fw: "fresh_worker = ?w Resting" by (simp add: fresh_worker_def demo_worker_def)
  have b: "finish_tx 1 (written (Emit 1 ''user.created'' 0 (begin_tx ?nb)) 1) (Emit 1 ''user.created'' 0 (begin_tx ?nb)) = ?b"
    "written (Emit 1 ''user.created'' 0 (begin_tx ?nb)) 1 = [demo_event 1]"
    by (simp_all add: begin_tx_def Emit_def insert_event_def finish_tx_def written_def demo_event_def)
  have "?S\<^sup>*\<^sup>* no_events (demo_delivery 0 ?nb ?k (?w Resting) [] [])" 
    using demo_subscribe_in_order by (simp add: fw)
  also have "?S \<dots> (demo_delivery 0 (begin_tx ?nb) ?k (?w Resting) [] [])" by (intro demo_in_order demo_begin) (simp add: demo_worker_def)
  also have "?S \<dots> (demo_delivery 0 (Emit 1 ''user.created'' 0 (begin_tx ?nb)) ?k (?w Resting) [] [])"
    by (intro demo_in_order demo_emit) (simp_all add: begin_tx_def demo_worker_def)
  also have "?S \<dots> (demo_delivery 0 ?b ?k (?w Resting) [demo_event 1] [])"
    using demo_commit [of 1 "Emit 1 ''user.created'' 0 (begin_tx ?nb)" demo_options pg_xmax 0 ?k "?w Resting" "[]" "[]"] b
    by (intro demo_in_order) (simp_all add: demo_worker_def begin_tx_def Emit_def insert_event_def)
  also have "?S \<dots> (demo_delivery 0 ?b ?k (?w (Checking ?k ?m 100)) [demo_event 1] [])"
    using demo_load [of "?w Resting"] by (intro demo_in_order) (simp_all add: demo_worker_def)
  also have "?S \<dots> (demo_delivery 0 ?b ?k (?w (Scanning ?k ?m 100)) [demo_event 1] [])"
    using demo_check [of "?w (Checking ?k ?m 100)" ?k ?m 100] by (intro demo_in_order) (simp_all add: demo_worker_def check_worker_def)
  also have "?S \<dots> (demo_delivery 0 ?b ?k (?w (Batched ?a)) [demo_event 1] [])"
    using demo_scan [of "?w (Scanning ?k ?m 100)" ?k ?m 100 demo_options pg_xmax 0 ?b ?k "[demo_event 1]" "[]"] demo_matches
    by (intro demo_in_order) (simp_all add: demo_worker_def scan_phase_def scan_rows_def scan_from_def scan_loop.simps pass_row_def demo_event_def demo_cursor_def)
  also have "?S \<dots> (demo_delivery 0 ?b ?k (?w (Answered ?a (Some 1))) [demo_event 1] [])"
    using demo_call [of "?w (Batched ?a)" ?a] by (intro demo_in_order) (simp_all add: demo_worker_def)
  also have "?S \<dots> (demo_delivery 0 ?b (demo_cursor 1) (?w Resting) [demo_event 1]
      [\<lparr>pa_batch = ?a, pa_to = 1, pa_outcome = AckedTo 1\<rparr>])" (is "in_order _ _ ?s")
    using demo_settle [of "?w (Answered ?a (Some 1))" ?a 1 ?k demo_options pg_xmax 0 ?b "[demo_event 1]" "[]"]
    by (intro demo_in_order) (simp_all add: demo_worker_def demo_cursor_def)
  finally have run: "?S\<^sup>*\<^sup>* no_events ?s" .
  have "\<exists>p \<in> set (dl_log ?s). ev_id (demo_event 1) \<le> pa_to p \<and>
    ((demo_event 1 \<in> set (ba_rows (pa_batch p)) \<and>
      (matches (ba_match (pa_batch p)) (ev_typ (demo_event 1)) \<longrightarrow> accounted (dl_dead ?s) p (ev_id (demo_event 1)))) \<or>
     passes (ba_given_up (pa_batch p)) (ev_id (demo_event 1)))"
    by (rule events_are_not_skipped [OF run, of "demo_cursor 1"])
      (simp_all add: demo_delivery_def demo_cursor_def demo_event_def)
  then have "accounted (dl_dead ?s) \<lparr>pa_batch = ?a, pa_to = 1, pa_outcome = AckedTo 1\<rparr> 1"
    using demo_matches by (auto simp: demo_delivery_def passes_def demo_event_def)
  then show ?thesis using run by (intro exI [of _ ?s] exI [of _ "\<lparr>pa_batch = ?a, pa_to = 1, pa_outcome = AckedTo 1\<rparr>"])
    (simp add: demo_delivery_def)
qed

subsection \<open>The bound of PostgreSQL\<close>

text \<open>Once the cursor and every batch under way are past an id, no batch will ever hold it again.\<close>

definition past_batch :: "int \<Rightarrow> batch \<Rightarrow> bool" where
  "past_batch n b \<longleftrightarrow> n \<le> cu_last (ba_cur b) \<and> n \<le> ba_horizon b \<and> list_all (\<lambda>r. n < ev_id r) (ba_rows b)"

fun past_phase :: "int \<Rightarrow> step_phase \<Rightarrow> bool" where
  "past_phase n Resting \<longleftrightarrow> True"
| "past_phase n (Checking c _ _) \<longleftrightarrow> n \<le> cu_last c"
| "past_phase n (Scanning c _ _) \<longleftrightarrow> n \<le> cu_last c"
| "past_phase n (Observing b _ _) \<longleftrightarrow> past_batch n b"
| "past_phase n (Batched b) \<longleftrightarrow> past_batch n b"
| "past_phase n (Answered b _) \<longleftrightarrow> past_batch n b"

definition gone :: "outbox_event \<Rightarrow> delivery \<Rightarrow> bool" where
  "gone e s \<longleftrightarrow> (\<exists>c. dl_cursor s = Some c \<and> ev_id e \<le> cu_last c) \<and>
     (\<forall>i. past_phase (ev_id e) (wk_phase (dl_workers s i))) \<and>
     list_all (\<lambda>p. e \<notin> set (ba_rows (pa_batch p))) (dl_log s)"

lemma scan_loop_past:
  assumes "n \<le> sc_horizon s" "list_all (\<lambda>r. n < ev_id r) (sc_rows s)" "list_all (\<lambda>r. n < ev_id r) rs"
  shows "n \<le> sc_horizon (scan_loop g m k rs s) \<and> list_all (\<lambda>r. n < ev_id r) (sc_rows (scan_loop g m k rs s))"
  using assms
proof (induction rs arbitrary: s)
  case (Cons r rs)
  have "n \<le> sc_horizon (pass_row r s)" "list_all (\<lambda>r. n < ev_id r) (sc_rows (pass_row r s))"
    using Cons.prems by (simp_all add: pass_row_def)
  then show ?case using Cons by (auto simp: scan_loop.simps Let_def)
qed simp

lemma scan_phase_past:
  assumes "n \<le> cu_last c"
  shows "past_phase n (scan_phase opt c m k b w)"
proof -
  let ?s = "scan_loop (wk_gap w) m k (scan_rows (cu_last c) (op_scan opt) b) (scan_from (cu_last c))"
  have "list_all (\<lambda>r. n < ev_id r) (scan_rows (cu_last c) (op_scan opt) b)"
    using assms by (auto simp: scan_rows_def list_all_iff dest!: in_set_takeD)
  then have "n \<le> sc_horizon ?s \<and> list_all (\<lambda>r. n < ev_id r) (sc_rows ?s)"
    using assms by (intro scan_loop_past) (simp_all add: scan_from_def)
  then show ?thesis using assms by (auto simp: scan_phase_def Let_def past_batch_def split: option.splits)
qed

lemma gone_worker: "gone e s \<Longrightarrow> past_phase (ev_id e) (wk_phase w) \<Longrightarrow> gone e (set_worker i w s)"
  by (simp add: gone_def set_worker_def)

lemma gone_rest: "gone e s \<Longrightarrow> gone e (rest i s)"
  by (simp add: rest_def gone_worker)

lemma gone_advance:
  assumes "gone e s" "past_batch (ev_id e) b" "ev_id e \<le> to"
  shows "gone e (advance_cursor b to out s)"
proof -
  have "e \<notin> set (ba_rows b)" using assms(2) by (auto simp: past_batch_def list_all_iff)
  then show ?thesis using assms by (auto simp: advance_cursor_def gone_def)
qed

lemma gone_settle:
  assumes g: "gone e s" and p: "past_batch (ev_id e) b"
  shows "gone e (settle_batch opt b answer s)"
proof -
  have "ev_id e \<le> ba_horizon b" "ev_id e \<le> cu_last (ba_cur b)" using p by (auto simp: past_batch_def)
  moreover have "gone e (s\<lparr>dl_dead := x\<rparr>)" for x using g by (simp add: gone_def)
  ultimately have "gone e (fail_batch opt b s)"
    using g p gone_advance [of e "s\<lparr>dl_dead := (hd (ba_ids b), last (ba_ids b)) # dl_dead s\<rparr>" b "ba_horizon b" DeadLettered]
    by (auto simp: fail_batch_def dead_letter_def Let_def gone_def)
  then show ?thesis
    using g p \<open>ev_id e \<le> ba_horizon b\<close> \<open>ev_id e \<le> cu_last (ba_cur b)\<close>
    by (auto simp: settle_batch_def intro!: gone_advance split: option.splits)
qed

lemma gone_step: "dstep opt sx s t \<Longrightarrow> gone e s \<Longrightarrow> gone e t"
proof (induction rule: dstep.induct)
  case (LoadCursor s i c pats bsize)
  then show ?case by (intro gone_worker) (auto simp: gone_def)
next
  case (Check s i c m bsize)
  then have "past_phase (ev_id e) (Checking c m bsize)" unfolding gone_def by metis
  then show ?case using Check(2) by (intro gone_worker) simp_all
next
  case (Scan s i c m bsize)
  then have "past_phase (ev_id e) (Scanning c m bsize)" unfolding gone_def by metis
  then show ?case using Scan(2) scan_phase_past by (intro gone_worker) simp_all
next
  case (Observe s i b start after)
  then have "past_phase (ev_id e) (Observing b start after)" unfolding gone_def by metis
  then show ?case using Observe(2) by (intro gone_worker) simp_all
next
  case (Pass s i b)
  then have "past_phase (ev_id e) (Batched b)" unfolding gone_def by metis
  then show ?case using Pass by (intro gone_rest gone_advance) (simp_all add: past_batch_def)
next
  case (Call s i b answer)
  then have "past_phase (ev_id e) (Batched b)" unfolding gone_def by metis
  then show ?case using Call(3) by (intro gone_worker) simp_all
next
  case (Settle s i b answer)
  then have "past_phase (ev_id e) (Answered b answer)" unfolding gone_def by metis
  then show ?case using Settle(2) by (intro gone_rest gone_settle) simp_all
next
  case (Leave s i)
  then show ?case by (rule gone_rest)
next
  case (Restart s i)
  then show ?case by (intro gone_worker) (simp_all add: fresh_worker_def)
qed (simp_all add: gone_def)

lemma gone_steps: "(dstep opt sx)\<^sup>*\<^sup>* s t \<Longrightarrow> gone e s \<Longrightarrow> gone e t"
  by (induction rule: rtranclp_induct) (auto intro: gone_step)

text \<open>C40: With the bound PostgreSQL documents, one past the highest completed transaction, an event can be lost. There
  is a run in which the cursor passes an event while its transaction is still running (a younger id was committed by an
  older transaction, and the gap counted as settled after the shortest wait); the transaction then commits, and
  whatever happens from there on, no batch of the plugin ever holds the event, though the subscription matches it and
  no wait was given up.\<close>

theorem late_commit_is_lost:
  "\<exists>s0 s e. (dstep demo_options pg_xmax)\<^sup>*\<^sup>* no_events s0 \<and> dl_start s0 < ev_id e \<and>
     (\<exists>c. dl_cursor s0 = Some c \<and> ev_id e \<le> cu_last c) \<and> e \<in> set (uncommitted (dl_box s0)) \<and> e \<notin> set (dl_ever s0) \<and>
     dstep demo_options pg_xmax s0 s \<and> e \<in> set (dl_ever s) \<and> dl_now s < op_gapMax demo_options \<and>
     list_all (\<lambda>p. matches (ba_match (pa_batch p)) (ev_typ e) \<and> ba_given_up (pa_batch p) = []) (dl_log s) \<and>
     \<not> (\<exists>t p. (dstep demo_options pg_xmax)\<^sup>*\<^sup>* s t \<and> p \<in> set (dl_log t) \<and> e \<in> set (ba_rows (pa_batch p)))"
proof -
  let ?nb = "\<lparr>ob_events = [], ob_next = 1, ob_running = [], ob_next_xid = 1, ob_completed = 0\<rparr>"
  let ?b1 = "begin_tx (begin_tx ?nb)" let ?b2 = "Emit 2 ''user.created'' 0 ?b1" let ?b3 = "Emit 1 ''user.created'' 0 ?b2"
  let ?b = "\<lparr>ob_events = [demo_event 2], ob_next = 3, ob_running = [\<lparr>tx_xid = 2, tx_events = [demo_event 1]\<rparr>],
    ob_next_xid = 3, ob_completed = 1\<rparr>"
  let ?k = "demo_cursor 0" let ?m = "newMatcher [''*'']" let ?S = "dstep demo_options pg_xmax"
  let ?w = "\<lambda>p. demo_worker None p 0"
  let ?e = "\<lparr>ba_cur = ?k, ba_ids = [], ba_horizon = 0, ba_rows = [], ba_match = ?m, ba_given_up = []\<rparr>"
  let ?a = "\<lparr>ba_cur = ?k, ba_ids = [2], ba_horizon = 2, ba_rows = [demo_event 2], ba_match = ?m, ba_given_up = []\<rparr>"
  let ?g = "\<lparr>ga_start = 1, ga_seen = 0, ga_xmax = 2, ga_resolved = False\<rparr>"
  let ?v = "\<lambda>r p. demo_worker (Some (?g\<lparr>ga_resolved := r\<rparr>)) p 2"
  let ?p = "\<lparr>pa_batch = ?a, pa_to = 2, pa_outcome = AckedTo 2\<rparr>"
  have fw: "fresh_worker = ?w Resting" by (simp add: fresh_worker_def demo_worker_def)
  have b: "finish_tx 1 (written ?b3 1) ?b3 = ?b" "written ?b3 1 = [demo_event 2]" "written ?b 2 = [demo_event 1]"
    by (simp_all add: begin_tx_def Emit_def insert_event_def finish_tx_def written_def demo_event_def)
  have "?S\<^sup>*\<^sup>* no_events (demo_delivery 0 ?nb ?k (?w Resting) [] [])" using demo_subscribe fw by auto
  also have "?S \<dots> (demo_delivery 0 (begin_tx ?nb) ?k (?w Resting) [] [])" by (rule demo_begin)
  also have "?S \<dots> (demo_delivery 0 ?b1 ?k (?w Resting) [] [])" by (rule demo_begin)
  also have "?S \<dots> (demo_delivery 0 ?b2 ?k (?w Resting) [] [])" by (rule demo_emit) (simp add: begin_tx_def)
  also have "?S \<dots> (demo_delivery 0 ?b3 ?k (?w Resting) [] [])"
    by (rule demo_emit) (simp add: begin_tx_def Emit_def insert_event_def)
  also have "?S \<dots> (demo_delivery 0 ?b ?k (?w Resting) [demo_event 2] [])"
    using demo_commit [of 1 ?b3 demo_options pg_xmax 0 ?k "?w Resting" "[]" "[]"] b
    by (simp add: begin_tx_def Emit_def insert_event_def)
  also have "?S \<dots> (demo_delivery 0 ?b ?k (?w (Checking ?k ?m 100)) [demo_event 2] [])"
    using demo_load [of "?w Resting"] by (simp add: demo_worker_def)
  also have "?S \<dots> (demo_delivery 0 ?b ?k (?w (Scanning ?k ?m 100)) [demo_event 2] [])"
    using demo_check [of "?w (Checking ?k ?m 100)" ?k ?m 100] by (simp add: demo_worker_def check_worker_def)
  also have "?S \<dots> (demo_delivery 0 ?b ?k (?w (Observing ?e 1 2)) [demo_event 2] [])"
    using demo_scan [of "?w (Scanning ?k ?m 100)" ?k ?m 100 demo_options pg_xmax 0 ?b ?k "[demo_event 2]" "[]"]
    by (simp add: demo_worker_def scan_phase_def scan_rows_def scan_from_def scan_loop.simps gapPassable_def demo_event_def demo_cursor_def)
  also have "?S \<dots> (demo_delivery 0 ?b ?k (?v False (Batched ?e)) [demo_event 2] [])"
    using demo_observe [of "?w (Observing ?e 1 2)" ?e 1 2 demo_options pg_xmax 0 ?b ?k "[demo_event 2]" "[]"]
    by (simp add: demo_worker_def observe_gap_def pg_xmax_def)
  also have "?S \<dots> (demo_delivery 0 ?b ?k (?v False Resting) [demo_event 2] [])"
    using demo_leave [of demo_options pg_xmax 0 ?b ?k "?v False (Batched ?e)"] by (simp add: demo_worker_def)
  also have "?S \<dots> (demo_delivery 1000000000 ?b ?k (?v False Resting) [demo_event 2] [])" by (rule demo_tick) simp
  also have "?S \<dots> (demo_delivery 1000000000 ?b ?k (?v False (Checking ?k ?m 100)) [demo_event 2] [])"
    using demo_load [of "?v False Resting"] by (simp add: demo_worker_def)
  also have "?S \<dots> (demo_delivery 1000000000 ?b ?k (?v True (Scanning ?k ?m 100)) [demo_event 2] [])"
    using demo_check [of "?v False (Checking ?k ?m 100)" ?k ?m 100 demo_options pg_xmax 1000000000 ?b ?k "[demo_event 2]" "[]"]
    by (simp add: demo_worker_def check_worker_def checkGap_def snapshot_xmin_def pg_xmax_def)
  also have "?S \<dots> (demo_delivery 1000000000 ?b ?k (?v True (Batched ?a)) [demo_event 2] [])"
    using demo_scan [of "?v True (Scanning ?k ?m 100)" ?k ?m 100 demo_options pg_xmax 1000000000 ?b ?k "[demo_event 2]" "[]"] demo_matches
    by (simp add: demo_worker_def scan_phase_def scan_rows_def scan_from_def scan_loop.simps gapPassable_def pass_row_def demo_event_def
      demo_cursor_def)
  also have "?S \<dots> (demo_delivery 1000000000 ?b ?k (?v True (Answered ?a (Some 2))) [demo_event 2] [])"
    using demo_call [of "?v True (Batched ?a)" ?a] by (simp add: demo_worker_def)
  also have "?S \<dots> (demo_delivery 1000000000 ?b (demo_cursor 2) (?v True Resting) [demo_event 2] [?p])" (is "dstep _ _ _ ?s0")
    using demo_settle [of "?v True (Answered ?a (Some 2))" ?a 2 ?k demo_options pg_xmax 1000000000 ?b "[demo_event 2]" "[]"]
    by (simp add: demo_worker_def demo_cursor_def)
  finally have run: "?S\<^sup>*\<^sup>* no_events ?s0" .
  let ?t = "demo_delivery 1000000000 (finish_tx 2 (written ?b 2) ?b) (demo_cursor 2) (?v True Resting) (written ?b 2 @ [demo_event 2]) [?p]"
  have step: "?S ?s0 ?t" by (rule demo_commit) simp
  have 0: "dl_start ?s0 < ev_id (demo_event 1) \<and> (\<exists>c. dl_cursor ?s0 = Some c \<and> ev_id (demo_event 1) \<le> cu_last c) \<and>
      demo_event 1 \<in> set (uncommitted (dl_box ?s0)) \<and> demo_event 1 \<notin> set (dl_ever ?s0)"
    by (simp add: demo_delivery_def demo_cursor_def demo_event_def uncommitted_def)
  have 1: "demo_event 1 \<in> set (dl_ever ?t) \<and> dl_now ?t < op_gapMax demo_options \<and>
      list_all (\<lambda>p. matches (ba_match (pa_batch p)) (ev_typ (demo_event 1)) \<and> ba_given_up (pa_batch p) = []) (dl_log ?t)"
    using demo_matches by (simp add: demo_delivery_def written_def demo_event_def)
  have "gone (demo_event 1) ?t"
    by (simp add: gone_def demo_delivery_def demo_cursor_def demo_worker_def fresh_worker_def demo_event_def)
  then have "\<not> (\<exists>t p. ?S\<^sup>*\<^sup>* ?t t \<and> p \<in> set (dl_log t) \<and> demo_event 1 \<in> set (ba_rows (pa_batch p)))"
    using gone_steps by (fastforce simp: gone_def list_all_iff)
  with run 0 step 1 show ?thesis by blast
qed

end
