(* ===== verification/Authz.thy ===== *)
theory Authz
  imports GoStrings
begin

section \<open>Roles, permissions and who may change them (\<open>authz/\<close>, \<open>iam/users.go\<close>)\<close>

text \<open>
  The tables \<open>roles\<close>, \<open>permissions\<close>, \<open>role_permissions\<close>, \<open>user_roles\<close>, \<open>authz_meta\<close> and the status of the
  users, and every operation that changes them. A transaction that changes them takes the row of
  \<open>authz_meta\<close> first (\<open>Bump\<close>), so they are executed one after the other; the checks of the acting user are
  made with permission sets the node answered before or during the transaction, which may be older than
  the tables. \<open>seen k i\<close> is the answer to the \<open>k\<close>-th question of a call, about user \<open>i\<close>.
\<close>

datatype authz_err = RoleMissing | RoleExists | BuiltinRole | SuperuserPerms | LastSuperAdmin | OwnSuperAdmin
  | SuperuserGrantor | Lacking "string list" | SuperuserTarget | UnknownKeys "string list" | InvalidRole
  | UnknownUser | SelfDisable | ProtectedTarget | ForeignPermission | NoPluginKey | Denied string | NoRoute

subsection \<open>Tables\<close>

text \<open>A text in several languages, in the order a loop over the map meets them.\<close>

type_synonym localized = "(string \<times> string) list"

definition english :: "localized \<Rightarrow> string" where
  "english t = (case map_of t ''en'' of Some s \<Rightarrow> s | None \<Rightarrow> (case t of [] \<Rightarrow> [] | e # _ \<Rightarrow> snd e))"

record role_row =
  rl_id :: int
  rl_key :: string
  rl_name :: localized
  rl_description :: localized
  rl_builtin :: bool
  rl_superuser :: bool

datatype perm_status = PermActive | PermDisabled | PermRemoved

text \<open>\<open>pk_plugin\<close> is \<open>None\<close> for the rows with source \<open>core\<close>, as the table's constraint says.\<close>

record perm_row =
  pk_id :: int
  pk_key :: string
  pk_module :: string
  pk_label :: localized
  pk_plugin :: "string option"
  pk_sensitive :: bool
  pk_status :: perm_status
  pk_sort :: int

record authz_user =
  wu_id :: int
  wu_active :: bool
  wu_deleted :: bool

text \<open>\<open>za_grants\<close> pairs roles with permissions, \<open>za_holds\<close> users with roles; the last three are the sequences.\<close>

record authz_db =
  za_version :: int
  za_roles :: "role_row list"
  za_perms :: "perm_row list"
  za_grants :: "(int \<times> int) set"
  za_holds :: "(int \<times> int) set"
  za_users :: "authz_user list"
  za_next_role :: int
  za_next_perm :: int
  za_next_user :: int

definition role_of_key :: "authz_db \<Rightarrow> string \<Rightarrow> role_row option" where
  "role_of_key d k = List.find (\<lambda>r. rl_key r = k) (za_roles d)"

definition role_of_id :: "authz_db \<Rightarrow> int \<Rightarrow> role_row option" where
  "role_of_id d i = List.find (\<lambda>r. rl_id r = i) (za_roles d)"

definition roles_held :: "authz_db \<Rightarrow> int \<Rightarrow> role_row list" where
  "roles_held d i = filter (\<lambda>r. (i, rl_id r) \<in> za_holds d) (za_roles d)"

definition live_user :: "authz_db \<Rightarrow> int \<Rightarrow> bool" where
  "live_user d i \<longleftrightarrow> list_ex (\<lambda>u. wu_id u = i \<and> wu_active u \<and> \<not> wu_deleted u) (za_users d)"

subsection \<open>Permission sets (\<open>service.go\<close>)\<close>

text \<open>\<open>held_keys\<close> is the Go map, as the list a loop over it visits.\<close>

record permission_set =
  held_super :: bool
  held_keys :: "string list"
  held_version :: int

definition Has :: "permission_set \<Rightarrow> string \<Rightarrow> bool" where
  "Has s k \<longleftrightarrow> held_super s \<or> k \<in> set (held_keys s)"

definition granted_keys :: "authz_db \<Rightarrow> role_row list \<Rightarrow> string list" where
  "granted_keys d rs = map pk_key (filter (\<lambda>p. pk_status p = PermActive \<and> list_ex (\<lambda>r. (rl_id r, pk_id p) \<in> za_grants d) rs) (za_perms d))"

definition loadPermissionSet :: "authz_db \<Rightarrow> int \<Rightarrow> permission_set" where
  "loadPermissionSet d i =
     (let rs = (if live_user d i then roles_held d i else [])
      in \<lparr>held_super = list_ex rl_superuser rs, held_keys = granted_keys d rs, held_version = za_version d\<rparr>)"

definition RolesPermissions :: "authz_db \<Rightarrow> string list \<Rightarrow> permission_set" where
  "RolesPermissions d keys =
     (let rs = filter (\<lambda>r. rl_key r \<in> set keys) (za_roles d)
      in \<lparr>held_super = list_ex rl_superuser rs, held_keys = granted_keys d rs, held_version = 0\<rparr>)"

subsection \<open>What an actor may grant and change (\<open>helpers.go\<close>)\<close>

definition CanGrant :: "int \<Rightarrow> permission_set \<Rightarrow> string list \<Rightarrow> authz_err + unit" where
  "CanGrant actor s perms =
     (if actor = 0 \<or> perms = [] then Inr ()
      else if Has s ''*'' then Inr ()
      else let missing = filter (\<lambda>p. \<not> Has s p) perms in
        if missing \<noteq> [] then Inl (Lacking missing) else Inr ())"

definition CanActOn :: "int \<Rightarrow> permission_set \<Rightarrow> string list \<Rightarrow> authz_err + unit" where
  "CanActOn actor s target =
     (if actor = 0 \<or> target = [] then Inr ()
      else if Has s ''*'' then Inr ()
      else if ''*'' \<in> set target then Inl SuperuserTarget
      else let missing = filter (\<lambda>p. \<not> Has s p) target in
        if missing \<noteq> [] then Inl (Lacking missing) else Inr ())"

definition CanActOnUser :: "int \<Rightarrow> int \<Rightarrow> permission_set \<Rightarrow> permission_set \<Rightarrow> authz_err + unit" where
  "CanActOnUser actor target t s =
     (if actor = 0 \<or> actor = target then Inr ()
      else CanActOn actor s (if Has t ''*'' then [''*''] else held_keys t))"

subsection \<open>Roles (\<open>roles.go\<close>)\<close>

definition Bump :: "authz_db \<Rightarrow> authz_db" where
  "Bump d = d\<lparr>za_version := za_version d + 1\<rparr>"

definition mutate :: "(authz_db \<Rightarrow> authz_err + authz_db) \<Rightarrow> authz_db \<Rightarrow> authz_err + authz_db" where
  "mutate f d = f (Bump d)"

fun dedupe :: "string list \<Rightarrow> string list \<Rightarrow> string list" where
  "dedupe out [] = out"
| "dedupe out (k # ks) = (if k = [] \<or> k \<in> set out then dedupe out ks else dedupe (out @ [k]) ks)"

definition key_start :: "char \<Rightarrow> bool" where
  "key_start c \<longleftrightarrow> 97 \<le> (of_char c :: nat) \<and> (of_char c :: nat) \<le> 122"

definition roleKeyRe :: "string \<Rightarrow> bool" where
  "roleKeyRe k = (case k of [] \<Rightarrow> False | c # cs \<Rightarrow>
     key_start c \<and> 1 \<le> length cs \<and> length cs \<le> 49 \<and> list_all (\<lambda>x. key_start x \<or> isDigit x \<or> x = CHR ''_'') cs)"

text \<open>The permissions a list of keys names, and the keys that name none.\<close>

definition grantable :: "authz_db \<Rightarrow> string \<Rightarrow> perm_row option" where
  "grantable d k = List.find (\<lambda>p. pk_key p = k \<and> pk_status p \<noteq> PermRemoved) (za_perms d)"

definition setRolePermissions :: "int \<Rightarrow> string list \<Rightarrow> authz_db \<Rightarrow> authz_err + authz_db" where
  "setRolePermissions role keys d =
     (let ks = dedupe [] keys;
          unknown = filter (\<lambda>k. grantable d k = None) ks;
          ids = set (map pk_id (List.map_filter (grantable d) ks))
      in if unknown \<noteq> [] then Inl (UnknownKeys unknown)
         else Inr (d\<lparr>za_grants := {g \<in> za_grants d. fst g = role \<longrightarrow> snd g \<in> ids} \<union> Pair role ` ids\<rparr>))"

definition insert_role :: "string \<Rightarrow> localized \<Rightarrow> localized \<Rightarrow> bool \<Rightarrow> bool \<Rightarrow> authz_db \<Rightarrow> authz_db" where
  "insert_role key name desc builtin super d =
     d\<lparr>za_roles := za_roles d @ [\<lparr>rl_id = za_next_role d, rl_key = key, rl_name = name, rl_description = desc,
         rl_builtin = builtin, rl_superuser = super\<rparr>],
       za_next_role := za_next_role d + 1\<rparr>"

definition CreateRole :: "string \<Rightarrow> localized \<Rightarrow> localized \<Rightarrow> string list \<Rightarrow> authz_db \<Rightarrow> authz_err + authz_db" where
  "CreateRole key name desc keys d =
     (if \<not> roleKeyRe key \<or> english name = [] then Inl InvalidRole
      else mutate (\<lambda>d. if role_of_key d key \<noteq> None then Inl RoleExists
        else setRolePermissions (za_next_role d) keys (insert_role key name desc False False d)) d)"

definition update_role :: "int \<Rightarrow> (role_row \<Rightarrow> role_row) \<Rightarrow> authz_db \<Rightarrow> authz_db" where
  "update_role i f d = d\<lparr>za_roles := map (\<lambda>r. if rl_id r = i then f r else r) (za_roles d)\<rparr>"

definition UpdateRole :: "int \<Rightarrow> localized option \<Rightarrow> localized option \<Rightarrow> authz_db \<Rightarrow> authz_err + authz_db" where
  "UpdateRole i name desc d =
     (if (case name of Some n \<Rightarrow> english n = [] | None \<Rightarrow> False) then Inl InvalidRole
      else mutate (\<lambda>d. if role_of_id d i = None then Inl RoleMissing
        else Inr (update_role i (\<lambda>r. r\<lparr>rl_name := (case name of Some n \<Rightarrow> n | None \<Rightarrow> rl_name r),
          rl_description := (case desc of Some n \<Rightarrow> n | None \<Rightarrow> rl_description r)\<rparr>) d)) d)"

definition DeleteRole :: "int \<Rightarrow> authz_db \<Rightarrow> authz_err + authz_db" where
  "DeleteRole i = mutate (\<lambda>d. case role_of_id d i of
       None \<Rightarrow> Inl RoleMissing
     | Some r \<Rightarrow> if rl_builtin r then Inl BuiltinRole
         else Inr (d\<lparr>za_roles := filter (\<lambda>r. rl_id r \<noteq> i) (za_roles d),
           za_grants := {g \<in> za_grants d. fst g \<noteq> i}, za_holds := {h \<in> za_holds d. snd h \<noteq> i}\<rparr>))"

definition SetRolePermissions :: "int \<Rightarrow> permission_set \<Rightarrow> int \<Rightarrow> string list \<Rightarrow> authz_db \<Rightarrow> authz_err + authz_db" where
  "SetRolePermissions actor s i keys d =
     and_then (CanGrant actor s keys) (\<lambda>_. mutate (\<lambda>d. case role_of_id d i of
         None \<Rightarrow> Inl RoleMissing
       | Some r \<Rightarrow> if rl_superuser r then Inl SuperuserPerms else setRolePermissions i keys d) d)"

subsection \<open>Roles of users (\<open>roles.go\<close>)\<close>

definition isSuperuserTx :: "authz_db \<Rightarrow> int \<Rightarrow> bool" where
  "isSuperuserTx d i \<longleftrightarrow> live_user d i \<and> list_ex rl_superuser (roles_held d i)"

definition IsSuperuser :: "authz_db \<Rightarrow> int \<Rightarrow> bool" where
  "IsSuperuser d i \<longleftrightarrow> list_ex rl_superuser (roles_held d i)"

definition ensureOtherSuperuser :: "authz_db \<Rightarrow> int \<Rightarrow> authz_err + unit" where
  "ensureOtherSuperuser d i =
     ensure (list_ex (\<lambda>u. wu_id u \<noteq> i \<and> wu_active u \<and> \<not> wu_deleted u \<and> IsSuperuser d (wu_id u)) (za_users d)) LastSuperAdmin"

definition EnsureNotLastSuperAdmin :: "authz_db \<Rightarrow> int \<Rightarrow> authz_err + unit" where
  "EnsureNotLastSuperAdmin d i = (if \<not> IsSuperuser d i then Inr () else ensureOtherSuperuser d i)"

definition assign :: "int \<Rightarrow> int set \<Rightarrow> authz_db \<Rightarrow> authz_db" where
  "assign i ids d = d\<lparr>za_holds := {h \<in> za_holds d. fst h = i \<longrightarrow> snd h \<in> ids} \<union> Pair i ` ids\<rparr>"

text \<open>The comparison of the superuser roles before and after.\<close>

definition superChanged :: "int set \<Rightarrow> role_row list \<Rightarrow> bool" where
  "superChanged curSuper new \<longleftrightarrow>
     \<not> curSuper \<subseteq> set (map rl_id new) \<or> list_ex (\<lambda>r. rl_superuser r \<and> rl_id r \<notin> curSuper) new"

definition SetUserRoles :: "(nat \<Rightarrow> int \<Rightarrow> permission_set) \<Rightarrow> int \<Rightarrow> int \<Rightarrow> string list \<Rightarrow> authz_db \<Rightarrow> authz_err + authz_db" where
  "SetUserRoles seen actor user roleKeys d =
     (let d = Bump d;
          ks = dedupe [] roleKeys;
          unknown = filter (\<lambda>k. role_of_key d k = None) ks;
          new = List.map_filter (role_of_key d) ks;
          newSuper = list_ex rl_superuser new;
          curSuper = set (map rl_id (filter rl_superuser (roles_held d user)))
      in if unknown \<noteq> [] then Inl (UnknownKeys unknown)
         else and_then (if actor \<noteq> 0 \<and> actor \<noteq> user then CanActOn actor (seen 1 actor) (held_keys (seen 0 user)) else Inr ())
           (\<lambda>_. if superChanged curSuper new \<and> actor \<noteq> 0 \<and> \<not> isSuperuserTx d actor then Inl SuperuserGrantor
             else and_then
               (if curSuper \<noteq> {} \<and> \<not> newSuper
                then if actor = user then Inl OwnSuperAdmin else ensureOtherSuperuser d user
                else Inr ())
               (\<lambda>_. Inr (assign user (set (map rl_id new)) d))))"

subsection \<open>Users (\<open>iam/users.go\<close>)\<close>

definition user_row :: "authz_db \<Rightarrow> int \<Rightarrow> authz_user option" where
  "user_row d i = List.find (\<lambda>u. wu_id u = i \<and> \<not> wu_deleted u) (za_users d)"

definition update_status :: "int \<Rightarrow> (authz_user \<Rightarrow> authz_user) \<Rightarrow> authz_db \<Rightarrow> authz_db" where
  "update_status i f d = d\<lparr>za_users := map (\<lambda>u. if wu_id u = i then f u else u) (za_users d)\<rparr>"

definition RoleUser :: string where "RoleUser = ''user''"

definition IsDefaultRoles :: "string list \<Rightarrow> bool" where
  "IsDefaultRoles keys \<longleftrightarrow> keys = [] \<or> keys = [RoleUser]"

text \<open>\<open>requested\<close> is what \<open>RolesPermissions\<close> read outside the transaction.\<close>

definition createUserTx :: "(nat \<Rightarrow> int \<Rightarrow> permission_set) \<Rightarrow> permission_set \<Rightarrow> int \<Rightarrow> string list \<Rightarrow> authz_db \<Rightarrow> authz_err + authz_db" where
  "createUserTx seen requested actor roleKeys d =
     and_then (if actor \<noteq> 0 \<and> \<not> IsDefaultRoles roleKeys then CanGrant actor (seen 2 actor) (held_keys requested) else Inr ())
       (\<lambda>_. SetUserRoles seen actor (za_next_user d) (if roleKeys = [] then [RoleUser] else roleKeys)
         (d\<lparr>za_users := za_users d @ [\<lparr>wu_id = za_next_user d, wu_active = True, wu_deleted = False\<rparr>],
           za_next_user := za_next_user d + 1\<rparr>))"

definition AssignRoles :: "(nat \<Rightarrow> int \<Rightarrow> permission_set) \<Rightarrow> int \<Rightarrow> int \<Rightarrow> string list \<Rightarrow> authz_db \<Rightarrow> authz_err + authz_db" where
  "AssignRoles seen actor i roleKeys d =
     (if user_row d i = None then Inl UnknownUser else SetUserRoles seen actor i roleKeys d)"

definition guardTarget :: "bool \<Rightarrow> int \<Rightarrow> int \<Rightarrow> permission_set \<Rightarrow> authz_err + unit" where
  "guardTarget targetSuper actor target s =
     (if actor = 0 \<or> actor = target \<or> \<not> targetSuper then Inr ()
      else if \<not> held_super s then Inl ProtectedTarget else Inr ())"

text \<open>\<open>password\<close>: the update sets a password. \<open>targetSuper\<close> was read outside the transaction.\<close>

definition may_update :: "(nat \<Rightarrow> int \<Rightarrow> permission_set) \<Rightarrow> bool \<Rightarrow> int \<Rightarrow> int \<Rightarrow> bool \<Rightarrow> authz_err + unit" where
  "may_update seen targetSuper actor i password =
     and_then (guardTarget targetSuper actor i (seen 0 actor)) (\<lambda>_.
     and_then (if actor \<noteq> i then CanActOnUser actor i (seen 1 i) (seen 2 actor) else Inr ()) (\<lambda>_.
       if password \<and> actor \<noteq> i
       then if \<not> Has (seen 3 actor) ''user:password:reset'' then Inl (Lacking [''user:password:reset''])
         else CanActOn actor (seen 5 actor) (held_keys (seen 4 i))
       else Inr ()))"

definition UpdateUserStatus :: "(nat \<Rightarrow> int \<Rightarrow> permission_set) \<Rightarrow> bool \<Rightarrow> int \<Rightarrow> int \<Rightarrow> bool \<Rightarrow> bool option \<Rightarrow> authz_db \<Rightarrow> authz_err + authz_db" where
  "UpdateUserStatus seen targetSuper actor i password status d =
     and_then (may_update seen targetSuper actor i password) (\<lambda>_.
       let d = (if status \<noteq> None then Bump d else d) in
       case user_row d i of
         None \<Rightarrow> Inl UnknownUser
       | Some cur \<Rightarrow>
           and_then
             (if status = Some False \<and> wu_active cur
              then if actor = i then Inl SelfDisable
                else and_then (CanActOn actor (seen 7 actor) (held_keys (seen 6 i))) (\<lambda>_. EnsureNotLastSuperAdmin d i)
              else Inr ())
             (\<lambda>_. Inr (case status of None \<Rightarrow> d | Some a \<Rightarrow> update_status i (\<lambda>u. u\<lparr>wu_active := a\<rparr>) d)))"

definition RemoveUser :: "(nat \<Rightarrow> int \<Rightarrow> permission_set) \<Rightarrow> bool \<Rightarrow> int \<Rightarrow> int \<Rightarrow> authz_db \<Rightarrow> authz_err + authz_db" where
  "RemoveUser seen targetSuper actor i d =
     (if actor = i then Inl SelfDisable
      else and_then (guardTarget targetSuper actor i (seen 0 actor)) (\<lambda>_.
        and_then (CanActOnUser actor i (seen 1 i) (seen 2 actor)) (\<lambda>_.
          let d = Bump d in
          if user_row d i = None then Inl UnknownUser
          else and_then (EnsureNotLastSuperAdmin d i) (\<lambda>_. Inr (update_status i (\<lambda>u. u\<lparr>wu_deleted := True\<rparr>) d)))))"

end
