(* ===== verification/AuthzCatalog.thy ===== *)
theory AuthzCatalog
  imports Authz
begin

section \<open>The permission catalog (\<open>authz/catalog.go\<close>, \<open>sync.go\<close>, \<open>plugin_catalog.go\<close>)\<close>

text \<open>
  The core's permissions and built-in roles and their synchronization with the tables at every start, and the
  permissions of plugins. The texts shown for a permission are a parameter.
\<close>

subsection \<open>The core catalog\<close>

definition RoleSuperAdmin :: string where "RoleSuperAdmin = ''super_admin''"
definition RoleAdmin :: string where "RoleAdmin = ''admin''"

definition coreModules :: "(string \<times> (string \<times> bool) list) list" where
  "coreModules = [
    (''user'', [(''user:read'', False), (''user:create'', False), (''user:update'', False), (''user:delete'', True),
      (''user:password:reset'', True)]),
    (''role'', [(''role:read'', False), (''role:manage'', True)]),
    (''apikey'', [(''apikey:self:manage'', False), (''apikey:all:read'', False), (''apikey:all:manage'', False)]),
    (''group'', [(''group:read'', False), (''group:manage'', False)]),
    (''account'', [(''account:read'', False), (''account:create'', False), (''account:update'', False),
      (''account:delete'', True), (''account:test'', False), (''account:credential:view'', True),
      (''account:own:read'', False), (''account:own:create'', False), (''account:own:update'', False),
      (''account:own:delete'', False), (''account:own:test'', False), (''account:own:credential:view'', True),
      (''account:settings:custom'', False), (''account:group:bind'', False), (''account:relay'', False)]),
    (''proxy'', [(''proxy:read'', False), (''proxy:manage'', False), (''proxy:own:read'', False),
      (''proxy:own:manage'', False)]),
    (''price'', [(''price:read'', False), (''price:manage'', False)]),
    (''balance'', [(''balance:self:read'', False), (''balance:all:read'', False), (''balance:adjust'', True)]),
    (''usage'', [(''usage:self:read'', False), (''usage:all:read'', False), (''usage:settle'', True)]),
    (''sticky'', [(''sticky:read'', False), (''sticky:manage'', False)]),
    (''plugin'', [(''plugin:read'', False), (''plugin:install'', True), (''plugin:manage'', False),
      (''plugin:uninstall'', True), (''plugin:grant:high'', False), (''plugin:grant:critical'', True),
      (''plugin:grant:db_schema_unconfined'', True), (''plugin:egress:read'', False),
      (''plugin:market:read'', False)]),
    (''publisher'', [(''publisher:read'', False), (''publisher:manage'', True)]),
    (''node'', [(''node:read'', False), (''audit:read'', False)]),
    (''gateway'', [(''gateway:use'', False)]),
    (''settings'', [(''settings:read'', False), (''settings:manage'', False)]),
    (''system_update'', [(''system:update:read'', False), (''system:update:execute'', True), (''system:update:recover'', True)])]"

definition userRolePermissions :: "string list" where
  "userRolePermissions = [''apikey:self:manage'', ''balance:self:read'', ''usage:self:read'', ''gateway:use'']"

text \<open>Keys of the built-in roles, and whether they are superuser roles.\<close>

definition builtinRoles :: "(string \<times> bool) list" where
  "builtinRoles = [(RoleSuperAdmin, True), (RoleAdmin, False), (RoleUser, False)]"

record perm_def =
  df_key :: string
  df_module :: string
  df_label :: localized
  df_sensitive :: bool
  df_sort :: int

fun number_defs :: "int \<Rightarrow> (string \<times> string \<times> bool) list \<Rightarrow> (string \<Rightarrow> localized) \<Rightarrow> perm_def list" where
  "number_defs n [] texts = []"
| "number_defs n ((m, k, s) # ps) texts =
     \<lparr>df_key = k, df_module = m, df_label = texts k, df_sensitive = s, df_sort = n + 10\<rparr> # number_defs (n + 10) ps texts"

definition CorePermissions :: "(string \<Rightarrow> localized) \<Rightarrow> perm_def list" where
  "CorePermissions texts = number_defs 0 (concat (map (\<lambda>m. map (Pair (fst m)) (snd m)) coreModules)) texts"

subsection \<open>Synchronizing it\<close>

text \<open>What a statement with \<open>RETURNING key, (xmax = 0)\<close> answers: the rows it inserted or changed.\<close>

definition upsert_role :: "(string \<Rightarrow> localized \<times> localized) \<Rightarrow> string \<times> bool \<Rightarrow> authz_db \<times> (string \<times> bool) list \<Rightarrow>
    authz_db \<times> (string \<times> bool) list" where
  "upsert_role texts r s = (case s of (d, out) \<Rightarrow>
     (case role_of_key d (fst r) of
        None \<Rightarrow> (insert_role (fst r) (fst (texts (fst r))) (snd (texts (fst r))) True (snd r) d, out @ [(fst r, True)])
      | Some x \<Rightarrow> if rl_builtin x \<and> rl_superuser x = snd r then (d, out)
          else (update_role (rl_id x) (\<lambda>x. x\<lparr>rl_builtin := True, rl_superuser := snd r\<rparr>) d, out @ [(fst r, False)])))"

definition perm_of_key :: "authz_db \<Rightarrow> string \<Rightarrow> perm_row option" where
  "perm_of_key d k = List.find (\<lambda>p. pk_key p = k) (za_perms d)"

definition update_perm :: "int \<Rightarrow> (perm_row \<Rightarrow> perm_row) \<Rightarrow> authz_db \<Rightarrow> authz_db" where
  "update_perm i f d = d\<lparr>za_perms := map (\<lambda>p. if pk_id p = i then f p else p) (za_perms d)\<rparr>"

definition insert_perm :: "string \<Rightarrow> string \<Rightarrow> localized \<Rightarrow> string option \<Rightarrow> bool \<Rightarrow> int \<Rightarrow> authz_db \<Rightarrow> authz_db" where
  "insert_perm key modl label owner sensitive rank d =
     d\<lparr>za_perms := za_perms d @ [\<lparr>pk_id = za_next_perm d, pk_key = key, pk_module = modl, pk_label = label,
         pk_plugin = owner, pk_sensitive = sensitive, pk_status = PermActive, pk_sort = rank\<rparr>],
       za_next_perm := za_next_perm d + 1\<rparr>"

definition core_perm :: "perm_def \<Rightarrow> perm_row \<Rightarrow> perm_row" where
  "core_perm f p = p\<lparr>pk_module := df_module f, pk_label := df_label f, pk_sensitive := df_sensitive f,
     pk_status := PermActive, pk_sort := df_sort f\<rparr>"

definition upsert_perm :: "perm_def \<Rightarrow> authz_db \<times> (string \<times> bool) list \<Rightarrow> authz_db \<times> (string \<times> bool) list" where
  "upsert_perm f s = (case s of (d, out) \<Rightarrow>
     (case perm_of_key d (df_key f) of
        None \<Rightarrow> (insert_perm (df_key f) (df_module f) (df_label f) None (df_sensitive f) (df_sort f) d, out @ [(df_key f, True)])
      | Some x \<Rightarrow> if core_perm f x = x then (d, out)
          else (update_perm (pk_id x) (core_perm f) d, out @ [(df_key f, False)])))"

definition grant_keys :: "string \<Rightarrow> string list \<Rightarrow> authz_db \<Rightarrow> authz_db" where
  "grant_keys role keys d =
     d\<lparr>za_grants := za_grants d \<union> set (map rl_id (filter (\<lambda>r. rl_key r = role) (za_roles d))) \<times>
         set (map pk_id (filter (\<lambda>p. pk_key p \<in> set keys) (za_perms d)))\<rparr>"

definition drop_removed :: "string list \<Rightarrow> authz_db \<Rightarrow> authz_db \<times> bool" where
  "drop_removed keys d =
     (let gone = (\<lambda>p. pk_plugin p = None \<and> pk_status p \<noteq> PermRemoved \<and> pk_key p \<notin> set keys)
      in (d\<lparr>za_perms := map (\<lambda>p. if gone p then p\<lparr>pk_status := PermRemoved\<rparr> else p) (za_perms d)\<rparr>,
          list_ex gone (za_perms d)))"

definition SyncCore :: "(string \<Rightarrow> localized \<times> localized) \<Rightarrow> (string \<Rightarrow> localized) \<Rightarrow> authz_db \<Rightarrow> authz_err + authz_db" where
  "SyncCore role_texts texts d =
     (let defs = CorePermissions texts; keys = map df_key defs;
          (d, roles) = fold (upsert_role role_texts) builtinRoles (d, []);
          (d, perms) = fold upsert_perm defs (d, []);
          inserted = map fst (filter snd perms);
          d = grant_keys RoleAdmin (if (RoleAdmin, True) \<in> set roles then keys else inserted) d;
          d = grant_keys RoleUser (filter (\<lambda>k. (RoleUser, True) \<in> set roles \<or> k \<in> set inserted) userRolePermissions) d;
          (d, gone) = drop_removed keys d
      in Inr (if roles \<noteq> [] \<or> perms \<noteq> [] \<or> gone then Bump d else d))"

subsection \<open>Permissions of plugins\<close>

definition PluginModule :: "string \<Rightarrow> string" where
  "PluginModule plugin = ''plugin.'' @ plugin"

definition trimPrefix :: "string \<Rightarrow> string \<Rightarrow> string" where
  "trimPrefix p s = (if take (length p) s = p then drop (length p) s else s)"

definition PluginPermissionKey :: "string \<Rightarrow> string \<Rightarrow> string" where
  "PluginPermissionKey plugin name =
     (let prefix = PluginModule plugin @ '':'' in if take (length prefix) name = prefix then name else prefix @ name)"

text \<open>One turn of the loop over the declared permissions; \<open>out\<close> has the keys so far and the ids inserted.\<close>

definition sync_plugin_perm :: "string \<Rightarrow> nat \<times> perm_def \<Rightarrow> authz_db \<times> string list \<times> int set \<Rightarrow>
    authz_err + authz_db \<times> string list \<times> int set" where
  "sync_plugin_perm plugin f s = (case s of (d, keys, ids) \<Rightarrow>
     (let modl = PluginModule plugin; name = trimPrefix (modl @ '':'') (df_key (snd f)); key = modl @ '':'' @ name;
          label = (if english (df_label (snd f)) = [] then [(''en'', name)] else df_label (snd f));
          rank = (if df_sort (snd f) = 0 then (int (fst f) + 1) * 10 else df_sort (snd f))
      in if name = [] then Inl NoPluginKey
         else (case perm_of_key d key of
             None \<Rightarrow> Inr (insert_perm key modl label (Some plugin) (df_sensitive (snd f)) rank d, keys @ [key],
               insert (za_next_perm d) ids)
           | Some p \<Rightarrow> if pk_plugin p \<noteq> Some plugin then Inl ForeignPermission
               else Inr (update_perm (pk_id p) (\<lambda>p. p\<lparr>pk_module := modl, pk_label := label,
                 pk_sensitive := df_sensitive (snd f), pk_sort := rank\<rparr>) d, keys @ [key], ids))))"

fun sync_plugin_perms :: "string \<Rightarrow> (nat \<times> perm_def) list \<Rightarrow> authz_db \<times> string list \<times> int set \<Rightarrow>
    authz_err + authz_db \<times> string list \<times> int set" where
  "sync_plugin_perms plugin [] s = Inr s"
| "sync_plugin_perms plugin (f # fs) s = and_then (sync_plugin_perm plugin f s) (sync_plugin_perms plugin fs)"

definition delete_perms :: "(perm_row \<Rightarrow> bool) \<Rightarrow> authz_db \<Rightarrow> authz_db" where
  "delete_perms P d = d\<lparr>za_perms := filter (\<lambda>p. \<not> P p) (za_perms d),
     za_grants := {g \<in> za_grants d. snd g \<notin> pk_id ` set (filter P (za_perms d))}\<rparr>"

definition SyncPlugin :: "string \<Rightarrow> perm_def list \<Rightarrow> string list \<Rightarrow> authz_db \<Rightarrow> authz_err + authz_db" where
  "SyncPlugin plugin defs grantNewToRoleKeys d =
     (if plugin = [] then Inl NoPluginKey
      else and_then (sync_plugin_perms plugin (zip [0..<length defs] defs) (Bump d, [], {})) (\<lambda>(d, keys, ids).
        let d = delete_perms (\<lambda>p. pk_plugin p = Some plugin \<and> pk_key p \<notin> set keys) d;
            roles = set (map rl_id (filter (\<lambda>r. rl_key r \<in> set (dedupe [] grantNewToRoleKeys) \<and> \<not> rl_superuser r) (za_roles d)))
        in Inr (d\<lparr>za_grants := za_grants d \<union> roles \<times> ids\<rparr>)))"

definition SetPluginActive :: "string \<Rightarrow> bool \<Rightarrow> authz_db \<Rightarrow> authz_err + authz_db" where
  "SetPluginActive plugin active d =
     Inr ((Bump d)\<lparr>za_perms := map (\<lambda>p. if pk_plugin p = Some plugin
       then p\<lparr>pk_status := (if active then PermActive else PermDisabled)\<rparr> else p) (za_perms d)\<rparr>)"

definition DeletePlugin :: "string \<Rightarrow> authz_db \<Rightarrow> authz_err + authz_db" where
  "DeletePlugin plugin d = Inr (delete_perms (\<lambda>p. pk_plugin p = Some plugin) (Bump d))"

end
