(* ===== verification/AuthzRules.thy ===== *)
theory AuthzRules
  imports AuthzCatalog
begin

section \<open>What the operations on roles and users keep\<close>

text \<open>
  Every change of the tables, as a datatype of operations with their actor, and runs of them. Some active
  superuser always remains, and only superusers make or unmake superusers. The rule that nobody grants what he
  does not hold is kept by \<open>SetRolePermissions\<close>, but not by \<open>CreateRole\<close> and \<open>SetUserRoles\<close> together.
\<close>

subsection \<open>Operations\<close>

datatype authz_op =
    MakeRole string localized localized "string list"
  | EditRole int "localized option" "localized option"
  | DropRole int
  | GrantRole int permission_set int "string list"
  | MakeUser "nat \<Rightarrow> int \<Rightarrow> permission_set" permission_set int "string list"
  | AssignUser "nat \<Rightarrow> int \<Rightarrow> permission_set" int int "string list"
  | EditUser "nat \<Rightarrow> int \<Rightarrow> permission_set" bool int int bool "bool option"
  | DropUser "nat \<Rightarrow> int \<Rightarrow> permission_set" bool int int
  | CoreStart "string \<Rightarrow> localized \<times> localized" "string \<Rightarrow> localized"
  | PluginSync string "perm_def list" "string list"
  | PluginSwitch string bool
  | PluginGone string

primrec execute :: "authz_op \<Rightarrow> authz_db \<Rightarrow> authz_err + authz_db" where
  "execute (MakeRole key name desc keys) d = CreateRole key name desc keys d"
| "execute (EditRole i name desc) d = UpdateRole i name desc d"
| "execute (DropRole i) d = DeleteRole i d"
| "execute (GrantRole actor s i keys) d = SetRolePermissions actor s i keys d"
| "execute (MakeUser seen req actor keys) d = createUserTx seen req actor keys d"
| "execute (AssignUser seen actor i keys) d = AssignRoles seen actor i keys d"
| "execute (EditUser seen super actor i pw status) d = UpdateUserStatus seen super actor i pw status d"
| "execute (DropUser seen super actor i) d = RemoveUser seen super actor i d"
| "execute (CoreStart rt texts) d = SyncCore rt texts d"
| "execute (PluginSync plugin defs roles) d = SyncPlugin plugin defs roles d"
| "execute (PluginSwitch plugin active) d = SetPluginActive plugin active d"
| "execute (PluginGone plugin) d = DeletePlugin plugin d"

text \<open>Who acts; 0 is the system, and also the operations on roles that do not look at their actor.\<close>

fun acting :: "authz_op \<Rightarrow> int" where
  "acting (GrantRole actor _ _ _) = actor"
| "acting (MakeUser _ _ actor _) = actor"
| "acting (AssignUser _ actor _ _) = actor"
| "acting (EditUser _ _ actor _ _ _) = actor"
| "acting (DropUser _ _ actor _) = actor"
| "acting _ = 0"

text \<open>A failed operation is rolled back.\<close>

definition perform :: "authz_op \<Rightarrow> authz_db \<Rightarrow> authz_db" where
  "perform p d = (case execute p d of Inl _ \<Rightarrow> d | Inr d' \<Rightarrow> d')"

text \<open>
  What an operation's route asks of the caller (\<open>RegisterRoutes\<close> of \<open>authz/http.go\<close> and \<open>iam/http.go\<close>, the middleware
  \<open>require\<close> of \<open>httpapi/router.go\<close>); the start and the plugin manager use no route.
\<close>

fun RegisterRoutes :: "authz_op \<Rightarrow> string option" where
  "RegisterRoutes (MakeRole _ _ _ _) = Some ''role:manage''"
| "RegisterRoutes (EditRole _ _ _) = Some ''role:manage''"
| "RegisterRoutes (DropRole _) = Some ''role:manage''"
| "RegisterRoutes (GrantRole _ _ _ _) = Some ''role:manage''"
| "RegisterRoutes _ = None"

fun RegisterUserRoutes :: "authz_op \<Rightarrow> string option" where
  "RegisterUserRoutes (MakeUser _ _ _ _) = Some ''user:create''"
| "RegisterUserRoutes (EditUser _ _ _ _ _ _) = Some ''user:update''"
| "RegisterUserRoutes (DropUser _ _ _ _) = Some ''user:delete''"
| "RegisterUserRoutes (AssignUser _ _ _ _) = Some ''role:manage''"
| "RegisterUserRoutes _ = None"

definition require_route :: "permission_set \<Rightarrow> authz_op \<Rightarrow> authz_db \<Rightarrow> authz_err + authz_db" where
  "require_route s p d = (case (case RegisterRoutes p of None \<Rightarrow> RegisterUserRoutes p | Some k \<Rightarrow> Some k) of
       None \<Rightarrow> Inl NoRoute
     | Some k \<Rightarrow> if Has s k then execute p d else Inl (Denied k))"

subsection \<open>The tables\<close>

definition roles_ok :: "authz_db \<Rightarrow> bool" where
  "roles_ok d \<longleftrightarrow> distinct (map rl_id (za_roles d)) \<and> distinct (map rl_key (za_roles d)) \<and>
     (\<forall>r \<in> set (za_roles d). rl_id r < za_next_role d \<and> (rl_superuser r \<longrightarrow> rl_builtin r \<and> rl_key r = RoleSuperAdmin))"

definition users_ok :: "authz_db \<Rightarrow> bool" where
  "users_ok d \<longleftrightarrow> distinct (map wu_id (za_users d)) \<and> (\<forall>u \<in> set (za_users d). wu_id u < za_next_user d) \<and>
     (\<forall>h \<in> za_holds d. fst h < za_next_user d)"

definition super_ids :: "authz_db \<Rightarrow> int set" where
  "super_ids d = rl_id ` {r \<in> set (za_roles d). rl_superuser r}"

definition some_superuser :: "authz_db \<Rightarrow> bool" where
  "some_superuser d \<longleftrightarrow> (\<exists>i. live_user d i \<and> IsSuperuser d i)"

lemma IsSuperuser_iff: "IsSuperuser d i \<longleftrightarrow> (\<exists>s \<in> super_ids d. (i, s) \<in> za_holds d)"
  by (auto simp: IsSuperuser_def roles_held_def super_ids_def list_ex_iff)

lemma live_iff: "live_user d i \<longleftrightarrow> (\<exists>u \<in> set (za_users d). wu_id u = i \<and> wu_active u \<and> \<not> wu_deleted u)"
  by (simp add: live_user_def list_ex_iff)

lemma Bump_simps [simp]:
  "za_roles (Bump d) = za_roles d" "za_holds (Bump d) = za_holds d" "za_users (Bump d) = za_users d"
  "za_perms (Bump d) = za_perms d" "za_grants (Bump d) = za_grants d" "za_next_role (Bump d) = za_next_role d"
  "super_ids (Bump d) = super_ids d" "roles_held (Bump d) i = roles_held d i" "role_of_key (Bump d) = role_of_key d"
  "role_of_id (Bump d) i = role_of_id d i" "live_user (Bump d) i = live_user d i" "IsSuperuser (Bump d) i = IsSuperuser d i"
  "isSuperuserTx (Bump d) i = isSuperuserTx d i" "roles_ok (Bump d) = roles_ok d" "za_version (Bump d) = za_version d + 1"
  "grantable (Bump d) = grantable d" "granted_keys (Bump d) rs = granted_keys d rs" "user_row (Bump d) i = user_row d i"
  "za_next_user (Bump d) = za_next_user d"
  by (simp_all add: fun_eq_iff Bump_def super_ids_def roles_held_def role_of_key_def role_of_id_def live_user_def IsSuperuser_def isSuperuserTx_def
    roles_ok_def grantable_def granted_keys_def user_row_def)

lemma ensureOtherSuperuser_eq [simp]:
  "ensureOtherSuperuser d i = Inr u \<longleftrightarrow> (\<exists>j. j \<noteq> i \<and> live_user d j \<and> IsSuperuser d j)"
  by (auto simp: ensureOtherSuperuser_def list_ex_iff live_iff)

lemma role_of_keyD: "role_of_key d k = Some r \<Longrightarrow> r \<in> set (za_roles d) \<and> rl_key r = k"
  unfolding role_of_key_def by (rule find_SomeD)

lemma role_of_idD: "role_of_id d i = Some r \<Longrightarrow> r \<in> set (za_roles d) \<and> rl_id r = i"
  unfolding role_of_id_def by (rule find_SomeD)

lemma role_unique:
  "roles_ok d \<Longrightarrow> r \<in> set (za_roles d) \<Longrightarrow> s \<in> set (za_roles d) \<Longrightarrow> rl_id r = rl_id s \<Longrightarrow> r = s"
  by (auto simp: roles_ok_def distinct_map inj_on_def)

subsection \<open>What each operation leaves alone\<close>

text \<open>\<open>same_people\<close>: users and their roles stay, and no superuser role is lost.\<close>

definition same_people :: "authz_db \<Rightarrow> authz_db \<Rightarrow> bool" where
  "same_people d e \<longleftrightarrow> za_users e = za_users d \<and> za_next_user e = za_next_user d \<and> za_holds e = za_holds d \<and> super_ids d \<subseteq> super_ids e"

lemma same_people_super: "same_people d e \<Longrightarrow> some_superuser d \<Longrightarrow> some_superuser e"
  unfolding some_superuser_def same_people_def IsSuperuser_iff live_iff by fastforce

lemma same_people_refl [simp]: "same_people d d"
  by (simp add: same_people_def)

lemma same_people_trans: "same_people d e \<Longrightarrow> same_people e f \<Longrightarrow> same_people d f"
  by (auto simp: same_people_def)

lemma same_roles_ok: "roles_ok d \<Longrightarrow> za_roles e = za_roles d \<Longrightarrow> za_next_role e = za_next_role d \<Longrightarrow> roles_ok e"
  by (simp add: roles_ok_def)

lemma setRolePermissions_frame:
  "setRolePermissions i keys d = Inr e \<Longrightarrow> za_roles e = za_roles d \<and> za_users e = za_users d \<and> za_holds e = za_holds d \<and>
     za_next_role e = za_next_role d \<and> za_next_user e = za_next_user d \<and> za_version e = za_version d \<and> super_ids e = super_ids d"
  by (auto simp: setRolePermissions_def Let_def super_ids_def split: if_splits)

lemma insert_role_ok:
  assumes "roles_ok d" "role_of_key d key = None" "super \<longrightarrow> builtin \<and> key = RoleSuperAdmin"
  shows "roles_ok (insert_role key name desc builtin super d)"
proof -
  have "rl_key r \<noteq> key" if "r \<in> set (za_roles d)" for r
    using assms(2) that by (auto simp: role_of_key_def find_None_iff)
  then show ?thesis using assms(1,3) by (fastforce simp: roles_ok_def insert_role_def)
qed

lemma insert_role_frame:
  "same_people d (insert_role key name desc builtin super d) \<and>
   (\<not> super \<longrightarrow> super_ids (insert_role key name desc builtin super d) = super_ids d)"
  by (auto simp: same_people_def super_ids_def insert_role_def)

lemma update_role_ok:
  assumes "roles_ok d" "\<And>r. r \<in> set (za_roles d) \<Longrightarrow> rl_id r = i \<Longrightarrow> rl_id (f r) = i \<and> rl_key (f r) = rl_key r \<and>
     (rl_superuser (f r) \<longrightarrow> rl_builtin (f r) \<and> rl_key r = RoleSuperAdmin)"
  shows "roles_ok (update_role i f d)"
proof -
  have "map rl_id (map (\<lambda>r. if rl_id r = i then f r else r) (za_roles d)) = map rl_id (za_roles d)"
    "map rl_key (map (\<lambda>r. if rl_id r = i then f r else r) (za_roles d)) = map rl_key (za_roles d)"
    using assms(2) by auto
  then show ?thesis using assms by (auto simp: roles_ok_def update_role_def simp del: map_map)
qed

lemma update_role_frame:
  assumes "\<And>r. r \<in> set (za_roles d) \<Longrightarrow> rl_id r = i \<Longrightarrow> rl_id (f r) = i \<and> (rl_superuser r \<longrightarrow> rl_superuser (f r))"
  shows "same_people d (update_role i f d)"
proof -
  have "s \<in> super_ids (update_role i f d)" if s: "s \<in> super_ids d" for s
  proof -
    from s obtain r where "r \<in> set (za_roles d)" "rl_superuser r" "rl_id r = s" by (auto simp: super_ids_def)
    let ?x = "if rl_id r = i then f r else r"
    have "?x \<in> set (za_roles (update_role i f d))"
      using \<open>r \<in> set (za_roles d)\<close> by (auto simp: update_role_def)
    moreover have "rl_superuser ?x" "rl_id ?x = s"
      using assms [of r] \<open>r \<in> set (za_roles d)\<close> \<open>rl_superuser r\<close> \<open>rl_id r = s\<close> by auto
    ultimately show ?thesis by (force simp: super_ids_def)
  qed
  then show ?thesis by (auto simp: same_people_def update_role_def)
qed

lemma CreateRole_keeps:
  assumes "CreateRole key name desc keys d = Inr e" "roles_ok d"
  shows "roles_ok e \<and> same_people d e \<and> super_ids e = super_ids d \<and> za_version e = za_version d + 1"
proof -
  let ?d = "insert_role key name desc False False (Bump d)"
  from assms(1) have n: "role_of_key (Bump d) key = None"
    and s: "setRolePermissions (za_next_role (Bump d)) keys ?d = Inr e"
    by (auto simp: CreateRole_def mutate_def split: if_splits)
  have "roles_ok ?d" using insert_role_ok [of "Bump d"] assms(2) n by simp
  then have "roles_ok e" using setRolePermissions_frame [OF s] same_roles_ok by blast
  moreover have "za_users ?d = za_users d" "za_next_user ?d = za_next_user d" "za_holds ?d = za_holds d" "za_version ?d = za_version d + 1" "super_ids ?d = super_ids d"
    using insert_role_frame [of "Bump d" key name desc False False] by (auto simp: insert_role_def same_people_def)
  ultimately show ?thesis using setRolePermissions_frame [OF s] by (auto simp: same_people_def)
qed

lemma UpdateRole_keeps:
  assumes "UpdateRole i name desc d = Inr e" "roles_ok d"
  shows "roles_ok e \<and> same_people d e \<and> super_ids e = super_ids d \<and> za_version e = za_version d + 1"
proof -
  from assms(1) obtain f where e: "e = update_role i f (Bump d)"
    and f: "\<And>r. rl_id (f r) = rl_id r \<and> rl_key (f r) = rl_key r \<and> rl_superuser (f r) = rl_superuser r \<and> rl_builtin (f r) = rl_builtin r"
    by (fastforce simp: UpdateRole_def mutate_def split: if_splits)
  have "roles_ok e" unfolding e using assms(2) f by (intro update_role_ok) (auto simp: roles_ok_def)
  moreover have "super_ids e \<subseteq> super_ids d" using f unfolding e by (auto simp: super_ids_def update_role_def)
  then have "super_ids e = super_ids d"
    using update_role_frame [of "Bump d" i f] f by (auto simp: e same_people_def)
  moreover from \<open>super_ids e = super_ids d\<close> have "same_people d e" by (simp add: e same_people_def update_role_def)
  ultimately show ?thesis using \<open>super_ids e = super_ids d\<close> by (simp add: e update_role_def)
qed

lemma SetRolePermissions_keeps:
  assumes "SetRolePermissions actor s i keys d = Inr e"
  shows "za_roles e = za_roles d \<and> za_next_role e = za_next_role d \<and> same_people d e \<and> super_ids e = super_ids d \<and>
     za_version e = za_version d + 1"
  using assms by (auto simp: SetRolePermissions_def and_then_eq_Inr mutate_def same_people_def
    dest!: setRolePermissions_frame split: option.splits if_splits)

lemma DeleteRole_keeps:
  assumes "DeleteRole i d = Inr e" "roles_ok d"
  shows "roles_ok e \<and> za_users e = za_users d \<and> za_next_user e = za_next_user d \<and> za_holds e \<subseteq> za_holds d \<and>
     super_ids e = super_ids d \<and> za_version e = za_version d + 1 \<and>
     (\<forall>j. \<forall>s \<in> super_ids d. (j, s) \<in> za_holds e \<longleftrightarrow> (j, s) \<in> za_holds d)"
proof -
  from assms(1) obtain r where r: "role_of_id d i = Some r" "\<not> rl_builtin r"
    and e: "e = (Bump d)\<lparr>za_roles := filter (\<lambda>r. rl_id r \<noteq> i) (za_roles d),
        za_grants := {g \<in> za_grants d. fst g \<noteq> i}, za_holds := {h \<in> za_holds d. snd h \<noteq> i}\<rparr>"
    by (auto simp: DeleteRole_def mutate_def split: option.splits if_splits)
  have n: "i \<notin> super_ids d"
    using role_of_idD [OF r(1)] r(2) role_unique [OF assms(2), of r] assms(2)
    by (fastforce simp: super_ids_def roles_ok_def)
  then have "super_ids e = super_ids d" by (auto simp: super_ids_def e)
  moreover have "roles_ok e" using assms(2) by (auto simp: roles_ok_def e distinct_map inj_on_def)
  ultimately show ?thesis using n by (auto simp: e)
qed

lemma SetUserRoles_effect:
  assumes "SetUserRoles seen actor user keys d = Inr e"
  obtains new where "e = assign user (set (map rl_id new)) (Bump d)" "set new \<subseteq> set (za_roles d)"
    "superChanged (super_ids d \<inter> {s. (user, s) \<in> za_holds d}) new \<longrightarrow> actor = 0 \<or> isSuperuserTx d actor"
    "IsSuperuser d user \<longrightarrow> (\<exists>r \<in> set new. rl_superuser r) \<or> (\<exists>j. j \<noteq> user \<and> live_user d j \<and> IsSuperuser d j)"
proof -
  let ?new = "List.map_filter (role_of_key d) (dedupe [] keys)"
  have c: "set (map rl_id (filter rl_superuser (roles_held d user))) = super_ids d \<inter> {s. (user, s) \<in> za_holds d}"
    by (auto simp: roles_held_def super_ids_def)
  have n: "set ?new \<subseteq> set (za_roles d)" using role_of_keyD by (fastforce simp: List.map_filter_def)
  have i: "IsSuperuser d user \<longleftrightarrow> super_ids d \<inter> {s. (user, s) \<in> za_holds d} \<noteq> {}"
    by (auto simp: IsSuperuser_iff)
  show thesis
    using assms n c i
    by (intro that [of ?new]) (auto simp: SetUserRoles_def Let_def and_then_eq_Inr list_ex_iff simp del: set_map split: if_splits)
qed

lemma assign_simps [simp]:
  "za_roles (assign i ids d) = za_roles d" "za_users (assign i ids d) = za_users d" "za_next_role (assign i ids d) = za_next_role d"
  "za_next_user (assign i ids d) = za_next_user d"
  "za_version (assign i ids d) = za_version d" "super_ids (assign i ids d) = super_ids d"
  "(j, s) \<in> za_holds (assign i ids d) \<longleftrightarrow> (if j = i then s \<in> ids else (j, s) \<in> za_holds d)"
  by (auto simp: assign_def super_ids_def)

lemma SetUserRoles_some_superuser:
  assumes "SetUserRoles seen actor user keys d = Inr e" "some_superuser d"
  shows "some_superuser e"
proof -
  from assms(2) obtain i where i: "live_user d i" "IsSuperuser d i" by (auto simp: some_superuser_def)
  from assms(1) obtain new where e: "e = assign user (set (map rl_id new)) (Bump d)" "set new \<subseteq> set (za_roles d)"
    and "superChanged (super_ids d \<inter> {s. (user, s) \<in> za_holds d}) new \<longrightarrow> actor = 0 \<or> isSuperuserTx d actor"
    and s: "IsSuperuser d user \<longrightarrow> (\<exists>r \<in> set new. rl_superuser r) \<or> (\<exists>j. j \<noteq> user \<and> live_user d j \<and> IsSuperuser d j)"
    by (rule SetUserRoles_effect)
  have other: "some_superuser e" if "j \<noteq> user" "live_user d j" "IsSuperuser d j" for j
    using that unfolding e some_superuser_def by (intro exI [of _ j]) (auto simp: live_iff IsSuperuser_iff)
  show ?thesis
  proof (cases "i = user")
    case True
    then consider r where "r \<in> set new" "rl_superuser r" | j where "j \<noteq> user" "live_user d j" "IsSuperuser d j" using s i by auto
    then show ?thesis
    proof cases
      case 1
      then have "rl_id r \<in> super_ids d" "rl_id r \<in> set (map rl_id new)" using e(2) by (auto simp: super_ids_def)
      then have "live_user e i \<and> IsSuperuser e i" using i(1) True unfolding e by (auto simp: live_iff IsSuperuser_iff)
      then show ?thesis by (auto simp: some_superuser_def)
    qed (rule other)
  qed (use i other in blast)
qed

lemma update_status_simps [simp]:
  "za_roles (update_status i f d) = za_roles d" "za_holds (update_status i f d) = za_holds d"
  "za_next_user (update_status i f d) = za_next_user d" "za_next_role (update_status i f d) = za_next_role d" "za_version (update_status i f d) = za_version d"
  "super_ids (update_status i f d) = super_ids d"
  by (simp_all add: update_status_def super_ids_def)

lemma update_status_others:
  assumes "some_superuser d" "live_user d i \<Longrightarrow> IsSuperuser d i \<Longrightarrow> \<exists>j. j \<noteq> i \<and> live_user d j \<and> IsSuperuser d j" "\<And>u. wu_id (f u) = wu_id u"
  shows "some_superuser (update_status i f d)"
proof -
  from assms(1) obtain k where "live_user d k" "IsSuperuser d k" by (auto simp: some_superuser_def)
  then obtain j where j: "j \<noteq> i" "live_user d j" "IsSuperuser d j" using assms(2) by (cases "k = i") auto
  then have "live_user (update_status i f d) j" using assms(3) by (force simp: live_iff update_status_def)
  then show ?thesis using j by (auto simp: some_superuser_def IsSuperuser_iff)
qed

lemma EnsureNotLastSuperAdmin_eq [simp]:
  "EnsureNotLastSuperAdmin d i = Inr u \<longleftrightarrow> (IsSuperuser d i \<longrightarrow> (\<exists>j. j \<noteq> i \<and> live_user d j \<and> IsSuperuser d j))"
  by (auto simp: EnsureNotLastSuperAdmin_def)

text \<open>Without a status the tables of this model stay; with one the version moves.\<close>

lemma UpdateUserStatus_effect:
  assumes "UpdateUserStatus seen super actor i pw status d = Inr e"
  shows "(status = None \<and> e = d) \<or> (\<exists>a u. status = Some a \<and> user_row d i = Some u \<and>
     e = update_status i (\<lambda>u. u\<lparr>wu_active := a\<rparr>) (Bump d) \<and>
     (\<not> a \<and> wu_active u \<longrightarrow> IsSuperuser d i \<longrightarrow> (\<exists>j. j \<noteq> i \<and> live_user d j \<and> IsSuperuser d j)))"
  using assms by (auto simp: UpdateUserStatus_def Let_def and_then_eq_Inr split: option.splits if_splits)

lemma RemoveUser_effect:
  assumes "RemoveUser seen super actor i d = Inr e"
  shows "e = update_status i (\<lambda>u. u\<lparr>wu_deleted := True\<rparr>) (Bump d) \<and>
     (IsSuperuser d i \<longrightarrow> (\<exists>j. j \<noteq> i \<and> live_user d j \<and> IsSuperuser d j))"
  using assms by (auto simp: RemoveUser_def Let_def and_then_eq_Inr split: option.splits if_splits)

subsection \<open>The catalog leaves people and superusers alone\<close>

lemma upsert_role_keeps:
  assumes "upsert_role texts (k, su) (d, out) = (e, out')" "roles_ok d" "su \<longleftrightarrow> k = RoleSuperAdmin"
  shows "roles_ok e \<and> same_people d e \<and> za_version e = za_version d \<and> (out' = out \<and> e = d \<or> out' \<noteq> [])"
proof (cases "role_of_key d k")
  case None
  have "e = insert_role k (fst (texts k)) (snd (texts k)) True su d \<and> out' = out @ [(k, True)]"
    using assms(1) None by (simp add: upsert_role_def)
  then show ?thesis using insert_role_ok [OF assms(2) None] insert_role_frame assms(3)
    by (auto simp: insert_role_def)
next
  case (Some x)
  note x = role_of_keyD [OF Some]
  show ?thesis
  proof (cases "rl_builtin x \<and> rl_superuser x = su")
    case False
    let ?f = "\<lambda>x. x\<lparr>rl_builtin := True, rl_superuser := su\<rparr>"
    have e: "e = update_role (rl_id x) ?f d" "out' = out @ [(k, False)]" using assms(1) Some False by (auto simp: upsert_role_def)
    have same: "r = x" if "r \<in> set (za_roles d)" "rl_id r = rl_id x" for r using role_unique [OF assms(2)] that x by blast
    have "roles_ok e" unfolding e using assms(2,3) same x by (intro update_role_ok) auto
    moreover have "same_people d e" unfolding e using same x assms(2,3)
      by (intro update_role_frame) (auto simp: roles_ok_def)
    ultimately show ?thesis using e by (simp add: update_role_def)
  qed (use assms(1,2) Some in \<open>auto simp: upsert_role_def\<close>)
qed

lemma fold_upsert_role_keeps:
  assumes "fold (upsert_role texts) rs (d, out) = (e, out')" "roles_ok d" "\<forall>r \<in> set rs. snd r \<longleftrightarrow> fst r = RoleSuperAdmin"
  shows "roles_ok e \<and> same_people d e \<and> za_version e = za_version d \<and> (out' = out \<and> e = d \<or> out' \<noteq> [])"
  using assms
proof (induction rs arbitrary: d out)
  case (Cons r rs)
  obtain d1 out1 where u: "upsert_role texts r (d, out) = (d1, out1)" by fastforce
  then have "roles_ok d1 \<and> same_people d d1 \<and> za_version d1 = za_version d \<and> (out1 = out \<and> d1 = d \<or> out1 \<noteq> [])"
    using upsert_role_keeps [of texts "fst r" "snd r" d out d1 out1] Cons.prems by (cases r) simp
  then show ?case using Cons.IH [of d1 out1] Cons.prems u same_people_trans by auto
qed auto

lemma builtin_super: "\<forall>r \<in> set builtinRoles. snd r \<longleftrightarrow> fst r = RoleSuperAdmin"
  by (simp add: builtinRoles_def RoleSuperAdmin_def RoleAdmin_def RoleUser_def)

text \<open>Tables apart from permissions and grants.\<close>

definition only_perms :: "authz_db \<Rightarrow> authz_db \<Rightarrow> bool" where
  "only_perms d e \<longleftrightarrow> za_next_user e = za_next_user d \<and> za_roles e = za_roles d \<and> za_holds e = za_holds d \<and> za_users e = za_users d \<and>
     za_next_role e = za_next_role d \<and> za_version e = za_version d"

lemma only_perms_refl [simp]: "only_perms d d"
  by (simp add: only_perms_def)

lemma only_perms_trans: "only_perms d e \<Longrightarrow> only_perms e f \<Longrightarrow> only_perms d f"
  by (simp add: only_perms_def)

lemma only_perms_ops [simp]:
  "only_perms d (grant_keys k ks e) = only_perms d e" "only_perms d (update_perm i f e) = only_perms d e"
  "only_perms d (insert_perm k m l w s r e) = only_perms d e" "only_perms d (delete_perms P e) = only_perms d e"
  "only_perms d (fst (drop_removed keys e)) = only_perms d e" "only_perms d (e\<lparr>za_grants := g\<rparr>) = only_perms d e"
  "only_perms d (e\<lparr>za_perms := p\<rparr>) = only_perms d e"
  by (simp_all add: only_perms_def grant_keys_def update_perm_def insert_perm_def delete_perms_def drop_removed_def Let_def)

lemma only_perms_keeps:
  assumes "only_perms d e"
  shows "(roles_ok d \<longrightarrow> roles_ok e) \<and> same_people d e \<and> super_ids e = super_ids d \<and> za_version e = za_version d"
  using assms by (auto simp: only_perms_def roles_ok_def same_people_def super_ids_def)

lemma fold_upsert_perm_keeps:
  "fold upsert_perm fs (d, out) = (e, out') \<Longrightarrow> only_perms d e \<and> (out' = out \<and> e = d \<or> out' \<noteq> [])"
proof (induction fs arbitrary: d out)
  case (Cons f fs)
  obtain d1 out1 where u: "upsert_perm f (d, out) = (d1, out1)" by fastforce
  then have "only_perms d d1 \<and> (out1 = out \<and> d1 = d \<or> out1 \<noteq> [])"
    by (auto simp: upsert_perm_def split: option.splits if_splits)
  then show ?case using Cons.IH [of d1 out1] Cons.prems u only_perms_trans by auto
qed auto

lemma drop_removed_none: "\<not> snd (drop_removed keys d) \<Longrightarrow> fst (drop_removed keys d) = d"
  by (fastforce simp: drop_removed_def Let_def list_ex_iff intro!: authz_db.equality map_idI)

lemma grant_keys_none: "grant_keys role [] d = d"
  by (simp add: grant_keys_def)

lemma SyncCore_keeps:
  assumes "SyncCore rt texts d = Inr e" "roles_ok d"
  shows "roles_ok e \<and> same_people d e \<and> (e = d \<or> za_version e = za_version d + 1)"
proof -
  let ?defs = "CorePermissions texts" let ?keys = "map df_key ?defs"
  obtain d1 roles where r: "fold (upsert_role rt) builtinRoles (d, []) = (d1, roles)" by fastforce
  obtain d2 perms where p: "fold upsert_perm ?defs (d1, []) = (d2, perms)" by fastforce
  define ins where "ins = map fst (filter snd perms)"
  define d3 where "d3 = grant_keys RoleUser (filter (\<lambda>k. (RoleUser, True) \<in> set roles \<or> k \<in> set ins) userRolePermissions)
    (grant_keys RoleAdmin (if (RoleAdmin, True) \<in> set roles then ?keys else ins) d2)"
  obtain d4 gone where g: "drop_removed ?keys d3 = (d4, gone)" by fastforce
  have e: "e = (if roles \<noteq> [] \<or> perms \<noteq> [] \<or> gone then Bump d4 else d4)"
    using assms(1) r p g [unfolded d3_def ins_def] by (simp add: SyncCore_def Let_def split: prod.splits)
  have k1: "roles_ok d1 \<and> same_people d d1 \<and> za_version d1 = za_version d \<and> (roles = [] \<and> d1 = d \<or> roles \<noteq> [])"
    by (rule fold_upsert_role_keeps [OF r assms(2) builtin_super])
  have k2: "only_perms d1 d2 \<and> (perms = [] \<and> d2 = d1 \<or> perms \<noteq> [])" by (rule fold_upsert_perm_keeps [OF p])
  have "only_perms d1 d3" using k2 by (simp add: d3_def)
  then have "only_perms d1 (fst (drop_removed ?keys d3))" by (simp only: only_perms_ops)
  then have k4: "only_perms d1 d4" by (simp only: g fst_conv)
  have un: "d4 = d" if "roles = []" "perms = []" "\<not> gone"
    using that k1 k2 g drop_removed_none [of ?keys d3] by (simp add: d3_def ins_def grant_keys_none)
  have d4: "roles_ok d4 \<and> same_people d d4 \<and> za_version d4 = za_version d"
    using only_perms_keeps [OF k4] k1 same_people_trans [of d d1 d4] by simp
  show ?thesis
  proof (cases "roles \<noteq> [] \<or> perms \<noteq> [] \<or> gone")
    case True
    then have "e = Bump d4" using e by simp
    then show ?thesis using d4 by (simp add: same_people_def)
  next
    case False
    then show ?thesis using e un d4 by simp
  qed
qed

lemma sync_plugin_perms_keeps:
  "sync_plugin_perms plugin fs (d, keys, ids) = Inr (e, keys', ids') \<Longrightarrow> only_perms d e"
proof (induction fs arbitrary: d keys ids)
  case (Cons f fs)
  then obtain d1 keys1 ids1 where u: "sync_plugin_perm plugin f (d, keys, ids) = Inr (d1, keys1, ids1)"
    by (auto simp: and_then_eq_Inr)
  then have "only_perms d d1"
    by (auto simp: sync_plugin_perm_def Let_def split: option.splits if_splits)
  then show ?case using Cons u only_perms_trans by fastforce
qed auto

lemma SyncPlugin_keeps: "SyncPlugin plugin defs roles d = Inr e \<Longrightarrow> only_perms (Bump d) e"
  by (auto simp: SyncPlugin_def Let_def and_then_eq_Inr dest!: sync_plugin_perms_keeps split: if_splits)

lemma SetPluginActive_keeps: "SetPluginActive plugin active d = Inr e \<Longrightarrow> only_perms (Bump d) e"
  by (auto simp: SetPluginActive_def)

lemma DeletePlugin_keeps: "DeletePlugin plugin d = Inr e \<Longrightarrow> only_perms (Bump d) e"
  by (auto simp: DeletePlugin_def)

subsection \<open>Runs\<close>

text \<open>An operation changes nothing or moves the version.\<close>

lemma execute_version: "execute p d = Inr e \<Longrightarrow> roles_ok d \<Longrightarrow> e = d \<or> za_version e = za_version d + 1"
  by (cases p) (auto simp: createUserTx_def AssignRoles_def and_then_eq_Inr only_perms_def
    dest!: CreateRole_keeps UpdateRole_keeps DeleteRole_keeps SetRolePermissions_keeps UpdateUserStatus_effect RemoveUser_effect
      SyncCore_keeps SyncPlugin_keeps SetPluginActive_keeps DeletePlugin_keeps elim!: SetUserRoles_effect split: if_splits)

lemma SetUserRoles_roles: "SetUserRoles seen actor user keys d = Inr e \<Longrightarrow> za_roles e = za_roles d \<and> za_next_role e = za_next_role d"
  by (elim SetUserRoles_effect) simp

lemma execute_roles_ok:
  assumes "execute p d = Inr e" "roles_ok d"
  shows "roles_ok e"
proof (cases p)
  case (MakeUser seen req actor keys)
  then show ?thesis using assms
    by (auto simp: createUserTx_def and_then_eq_Inr roles_ok_def dest!: SetUserRoles_roles)
next
  case (AssignUser seen actor i keys)
  then show ?thesis using assms by (auto simp: AssignRoles_def roles_ok_def dest!: SetUserRoles_roles split: if_splits)
next
  case (EditUser seen super actor i pw status)
  then show ?thesis using assms by (auto simp: roles_ok_def dest!: UpdateUserStatus_effect)
next
  case (DropUser seen super actor i)
  then show ?thesis using assms by (auto simp: roles_ok_def dest!: RemoveUser_effect)
qed (use assms in \<open>auto intro: same_roles_ok dest!: CreateRole_keeps UpdateRole_keeps DeleteRole_keeps SetRolePermissions_keeps
  SyncCore_keeps SyncPlugin_keeps SetPluginActive_keeps DeletePlugin_keeps simp: only_perms_def\<close>)

lemma some_superuser_Bump [simp]: "some_superuser (Bump d) = some_superuser d"
  by (simp add: some_superuser_def)

lemma update_status_on:
  assumes "some_superuser d"
  shows "some_superuser (update_status i (\<lambda>u. u\<lparr>wu_active := True\<rparr>) d)"
proof -
  from assms obtain j where "live_user d j" "IsSuperuser d j" by (auto simp: some_superuser_def)
  moreover have "live_user (update_status i (\<lambda>u. u\<lparr>wu_active := True\<rparr>) d) j"
    using \<open>live_user d j\<close> by (force simp: live_iff update_status_def)
  ultimately show ?thesis by (auto simp: some_superuser_def IsSuperuser_iff)
qed

lemma SetUserRoles_users_ok:
  assumes "SetUserRoles seen actor i keys d = Inr e" "users_ok d" "i < za_next_user d"
  shows "users_ok e"
  using assms by (elim SetUserRoles_effect) (auto simp: users_ok_def assign_def)

lemma update_status_users_ok:
  assumes "users_ok d" "\<And>u. wu_id (f u) = wu_id u"
  shows "users_ok (update_status i f d)"
proof -
  have "map wu_id (map (\<lambda>u. if wu_id u = i then f u else u) (za_users d)) = map wu_id (za_users d)" using assms(2) by auto
  then show ?thesis using assms by (auto simp: users_ok_def update_status_def simp del: map_map)
qed

lemma same_users_ok: "users_ok d \<Longrightarrow> za_users e = za_users d \<Longrightarrow> za_next_user e = za_next_user d \<Longrightarrow>
    za_holds e \<subseteq> za_holds d \<Longrightarrow> users_ok e"
  by (auto simp: users_ok_def)

lemma user_rowD: "user_row d i = Some u \<Longrightarrow> u \<in> set (za_users d) \<and> wu_id u = i \<and> \<not> wu_deleted u"
  unfolding user_row_def by (rule find_SomeD)

lemma execute_users_ok:
  assumes "execute p d = Inr e" "roles_ok d" "users_ok d"
  shows "users_ok e"
proof (cases p)
  case (MakeUser seen req actor keys)
  let ?d = "d\<lparr>za_users := za_users d @ [\<lparr>wu_id = za_next_user d, wu_active = True, wu_deleted = False\<rparr>],
    za_next_user := za_next_user d + 1\<rparr>"
  have "users_ok ?d" using assms(3) by (fastforce simp: users_ok_def)
  then show ?thesis using assms(1) MakeUser
    by (auto simp: createUserTx_def and_then_eq_Inr elim!: SetUserRoles_users_ok)
next
  case (AssignUser seen actor i keys)
  then show ?thesis using assms
    by (auto simp: AssignRoles_def users_ok_def [of d] elim!: SetUserRoles_users_ok dest!: user_rowD split: if_splits)
next
  case (EditUser seen super actor i pw status)
  then show ?thesis using assms
    by (auto dest!: UpdateUserStatus_effect intro!: update_status_users_ok same_users_ok [of d "Bump d"])
next
  case (DropUser seen super actor i)
  then show ?thesis using assms
    by (auto dest!: RemoveUser_effect intro!: update_status_users_ok same_users_ok [of d "Bump d"])
qed (use assms in \<open>auto intro: same_users_ok dest!: CreateRole_keeps UpdateRole_keeps DeleteRole_keeps SetRolePermissions_keeps
  SyncCore_keeps SyncPlugin_keeps SetPluginActive_keeps DeletePlugin_keeps simp: only_perms_def same_people_def\<close>)

lemma execute_some_superuser:
  assumes "execute p d = Inr e" "roles_ok d" "some_superuser d" "users_ok d"
  shows "some_superuser e"
proof (cases p)
  case (DropRole i)
  then have k: "za_users e = za_users d" "super_ids e = super_ids d"
    "\<forall>j. \<forall>s \<in> super_ids d. (j, s) \<in> za_holds e \<longleftrightarrow> (j, s) \<in> za_holds d"
    using assms DeleteRole_keeps by auto
  then have "live_user e j = live_user d j" "IsSuperuser e j = IsSuperuser d j" for j by (auto simp: live_iff IsSuperuser_iff)
  then show ?thesis using assms(3) by (simp add: some_superuser_def)
next
  case (MakeUser seen req actor keys)
  let ?d = "d\<lparr>za_users := za_users d @ [\<lparr>wu_id = za_next_user d, wu_active = True, wu_deleted = False\<rparr>],
    za_next_user := za_next_user d + 1\<rparr>"
  have "some_superuser ?d"
    using assms(3) by (auto simp: some_superuser_def live_iff IsSuperuser_def roles_held_def)
  then show ?thesis using assms(1) MakeUser
    by (auto simp: createUserTx_def and_then_eq_Inr intro: SetUserRoles_some_superuser)
next
  case (AssignUser seen actor i keys)
  then show ?thesis using assms by (auto simp: AssignRoles_def intro: SetUserRoles_some_superuser split: if_splits)
next
  case (EditUser seen super actor i pw status)
  then consider "e = d" | a u where "user_row d i = Some u" "e = update_status i (\<lambda>u. u\<lparr>wu_active := a\<rparr>) (Bump d)"
      "\<not> a \<and> wu_active u \<longrightarrow> IsSuperuser d i \<longrightarrow> (\<exists>j. j \<noteq> i \<and> live_user d j \<and> IsSuperuser d j)"
    using assms(1) UpdateUserStatus_effect by fastforce
  then show ?thesis
  proof cases
    case 2
    show ?thesis
    proof (cases "a \<or> wu_active u")
      case True
      then show ?thesis using 2 assms(3)
        by (cases a) (auto intro!: update_status_on update_status_others)
    next
      case False
      note u = user_rowD [OF 2(1)]
      have "\<not> live_user d i"
      proof
        assume "live_user d i"
        then obtain v where "v \<in> set (za_users d)" "wu_id v = i" "wu_active v" "\<not> wu_deleted v" by (auto simp: live_iff)
        then show False using False u assms(4) by (metis users_ok_def distinct_map inj_onD)
      qed
      then show ?thesis using 2 assms(3) by (auto intro!: update_status_others)
    qed
  qed (use assms(3) in simp)
next
  case (DropUser seen super actor i)
  then show ?thesis using assms RemoveUser_effect by (fastforce intro!: update_status_others)
qed (use assms in \<open>auto intro: same_people_super dest!: CreateRole_keeps UpdateRole_keeps SetRolePermissions_keeps SyncCore_keeps
  SyncPlugin_keeps SetPluginActive_keeps DeletePlugin_keeps only_perms_keeps\<close>)

definition tables_ok :: "authz_db \<Rightarrow> bool" where
  "tables_ok d \<longleftrightarrow> roles_ok d \<and> users_ok d"

lemma perform_keeps:
  "tables_ok d \<Longrightarrow> tables_ok (perform p d) \<and> (some_superuser d \<longrightarrow> some_superuser (perform p d))"
  using execute_roles_ok execute_users_ok execute_some_superuser
  by (auto simp: perform_def tables_ok_def split: sum.splits)

lemma runs_keep:
  "tables_ok d \<Longrightarrow> tables_ok (fold perform ps d) \<and> (some_superuser d \<longrightarrow> some_superuser (fold perform ps d))"
  by (induction ps arbitrary: d) (use perform_keeps in auto)

subsection \<open>A small database\<close>

text \<open>Two users: 1 is the superuser, 2 holds a role that may manage roles.\<close>

definition demo_tables :: authz_db where
  "demo_tables = \<lparr>za_version = 7,
     za_roles = [\<lparr>rl_id = 1, rl_key = ''super_admin'', rl_name = [], rl_description = [], rl_builtin = True, rl_superuser = True\<rparr>,
       \<lparr>rl_id = 2, rl_key = ''clerk'', rl_name = [], rl_description = [], rl_builtin = False, rl_superuser = False\<rparr>],
     za_perms = [\<lparr>pk_id = 1, pk_key = ''role:manage'', pk_module = ''role'', pk_label = [], pk_plugin = None,
         pk_sensitive = True, pk_status = PermActive, pk_sort = 10\<rparr>,
       \<lparr>pk_id = 2, pk_key = ''balance:adjust'', pk_module = ''balance'', pk_label = [], pk_plugin = None,
         pk_sensitive = True, pk_status = PermActive, pk_sort = 20\<rparr>],
     za_grants = {(2, 1)}, za_holds = {(1, 1), (2, 2)},
     za_users = [\<lparr>wu_id = 1, wu_active = True, wu_deleted = False\<rparr>, \<lparr>wu_id = 2, wu_active = True, wu_deleted = False\<rparr>],
     za_next_role = 3, za_next_perm = 3, za_next_user = 3\<rparr>"

lemma demo_tables_ok: "tables_ok demo_tables" "some_superuser demo_tables"
  by (auto simp: tables_ok_def roles_ok_def users_ok_def demo_tables_def some_superuser_def live_user_def IsSuperuser_def
    roles_held_def RoleSuperAdmin_def intro!: exI [of _ 1])

subsection \<open>Superusers\<close>

text \<open>C12: Whatever operations anyone performs on roles, permissions and users, some active superuser
  remains.\<close>

theorem superuser_remains:
  assumes "tables_ok d" and "some_superuser d"
  shows "some_superuser (fold perform ps d)"
  using runs_keep assms by blast

definition demo_seen :: "nat \<Rightarrow> int \<Rightarrow> permission_set" where
  "demo_seen k i = loadPermissionSet demo_tables i"

theorem superuser_remains_witness:
  "some_superuser (fold perform [DropUser demo_seen True 0 1, EditUser demo_seen True 0 1 False (Some False),
     AssignUser demo_seen 0 1 [''clerk''], DropRole 1] demo_tables) \<and>
   execute (DropUser demo_seen True 0 1) demo_tables = Inl LastSuperAdmin"
proof
  show "execute (DropUser demo_seen True 0 1) demo_tables = Inl LastSuperAdmin"
    by (simp add: RemoveUser_def guardTarget_def CanActOnUser_def Let_def user_row_def Bump_def demo_tables_def
      EnsureNotLastSuperAdmin_def IsSuperuser_def roles_held_def ensureOtherSuperuser_def ensure_def)
qed (rule superuser_remains [OF demo_tables_ok])

text \<open>The operations that give or take roles of a user.\<close>

fun assigns :: "authz_op \<Rightarrow> bool" where
  "assigns (MakeUser _ _ _ _) \<longleftrightarrow> True"
| "assigns (AssignUser _ _ _ _) \<longleftrightarrow> True"
| "assigns _ \<longleftrightarrow> False"

lemma SetUserRoles_super_change:
  assumes s: "SetUserRoles seen actor user keys d = Inr e" and r: "roles_ok d" and c: "IsSuperuser e i \<noteq> IsSuperuser d i"
  shows "i = user \<and> (actor = 0 \<or> isSuperuserTx d actor)"
proof -
  let ?cur = "super_ids d \<inter> {s. (user, s) \<in> za_holds d}"
  from s obtain new where e: "e = assign user (set (map rl_id new)) (Bump d)" "set new \<subseteq> set (za_roles d)"
    and "superChanged ?cur new \<longrightarrow> actor = 0 \<or> isSuperuserTx d actor"
    and "IsSuperuser d user \<longrightarrow> (\<exists>r \<in> set new. rl_superuser r) \<or> (\<exists>j. j \<noteq> user \<and> live_user d j \<and> IsSuperuser d j)"
    by (rule SetUserRoles_effect)
  moreover have i: "i = user" using c by (auto simp: e IsSuperuser_iff split: if_splits)
  moreover have "superChanged ?cur new"
  proof (rule ccontr)
    assume n: "\<not> superChanged ?cur new"
    have "set (map rl_id new) \<inter> super_ids d \<subseteq> ?cur"
      using n role_unique [OF r] e(2) by (fastforce simp: superChanged_def list_ex_iff super_ids_def)
    then have "?cur = set (map rl_id new) \<inter> super_ids d" using n by (auto simp: superChanged_def)
    then show False using c by (auto simp: e i IsSuperuser_iff)
  qed
  ultimately show ?thesis by blast
qed

text \<open>C17: Apart from the system and the synchronization at start, only an active superuser makes or unmakes
  a superuser, whatever permission sets the checks saw.\<close>

theorem superusers_made_by_superusers:
  assumes t: "tables_ok d0" and d: "d = fold perform ps d0" and x: "execute p d = Inr e"
    and start: "\<And>rt texts. p \<noteq> CoreStart rt texts" and c: "IsSuperuser e i \<noteq> IsSuperuser d i"
  shows "assigns p \<and> (acting p = 0 \<or> isSuperuserTx d (acting p))"
proof (cases p)
  case (MakeUser seen req actor keys)
  have ok: "roles_ok d" "users_ok d" using runs_keep [OF t] d by (auto simp: tables_ok_def)
  let ?n = "za_next_user d"
  let ?d = "d\<lparr>za_users := za_users d @ [\<lparr>wu_id = ?n, wu_active = True, wu_deleted = False\<rparr>], za_next_user := ?n + 1\<rparr>"
  have s: "IsSuperuser ?d j = IsSuperuser d j" for j by (simp add: IsSuperuser_def roles_held_def)
  have "SetUserRoles seen actor ?n (if keys = [] then [RoleUser] else keys) ?d = Inr e"
    using x MakeUser by (auto simp: createUserTx_def and_then_eq_Inr)
  moreover have "roles_ok ?d" using ok by (simp add: roles_ok_def)
  ultimately have "actor = 0 \<or> isSuperuserTx ?d actor" using SetUserRoles_super_change c s by blast
  moreover have "\<not> IsSuperuser d ?n" using ok(2) by (auto simp: IsSuperuser_iff users_ok_def)
  ultimately have "actor = 0 \<or> isSuperuserTx d actor"
    using s by (auto simp: isSuperuserTx_def live_iff IsSuperuser_def)
  then show ?thesis using MakeUser by simp
next
  case (AssignUser seen actor j keys)
  have "roles_ok d" using runs_keep [OF t] d by (auto simp: tables_ok_def)
  moreover have "SetUserRoles seen actor j keys d = Inr e"
    using x AssignUser by (simp add: AssignRoles_def split: if_splits)
  ultimately show ?thesis using SetUserRoles_super_change c AssignUser by auto
next
  case (DropRole j)
  then have "IsSuperuser e i = IsSuperuser d i"
    using x DeleteRole_keeps [of j d e] runs_keep [OF t] d by (auto simp: tables_ok_def IsSuperuser_iff)
  then show ?thesis using c by simp
next
  case (EditUser seen super actor j pw status)
  then show ?thesis using x c by (auto simp: IsSuperuser_iff dest!: UpdateUserStatus_effect)
next
  case (DropUser seen super actor j)
  then show ?thesis using x c by (auto simp: IsSuperuser_iff dest!: RemoveUser_effect)
qed (use x c start runs_keep [OF t, of ps] d in \<open>auto simp: IsSuperuser_iff same_people_def tables_ok_def dest!: CreateRole_keeps
  UpdateRole_keeps SetRolePermissions_keeps SyncPlugin_keeps SetPluginActive_keeps DeletePlugin_keeps only_perms_keeps\<close>)

lemmas demo_eval = AssignRoles_def user_row_def SetUserRoles_def Let_def Bump_def demo_tables_def role_of_key_def
  roles_held_def CanActOn_def Has_def demo_seen_def loadPermissionSet_def live_user_def granted_keys_def superChanged_def
  isSuperuserTx_def List.map_filter_def assign_def

theorem superusers_made_by_superusers_witness:
  "\<exists>e. execute (AssignUser demo_seen 1 2 [''super_admin'']) demo_tables = Inr e \<and> IsSuperuser e 2 \<and>
     isSuperuserTx demo_tables 1 \<and> execute (AssignUser demo_seen 2 2 [''super_admin'']) demo_tables = Inl SuperuserGrantor"
proof -
  let ?p = "AssignUser demo_seen 1 2 [''super_admin'']"
  let ?e = "assign 2 {1} (Bump demo_tables)"
  have x: "execute ?p (fold perform [] demo_tables) = Inr ?e" by (simp add: demo_eval del: set_map set_filter filter_filter)
  have c: "IsSuperuser ?e 2 \<noteq> IsSuperuser (fold perform [] demo_tables) 2"
    by (simp add: IsSuperuser_def roles_held_def assign_def Bump_def demo_tables_def)
  have "assigns ?p \<and> (acting ?p = 0 \<or> isSuperuserTx (fold perform [] demo_tables) (acting ?p))"
    by (rule superusers_made_by_superusers [OF demo_tables_ok(1) refl x _ c]) simp
  moreover have "\<not> IsSuperuser demo_tables 2" by (simp add: IsSuperuser_def roles_held_def demo_tables_def)
  moreover have "execute (AssignUser demo_seen 2 2 [''super_admin'']) demo_tables = Inl SuperuserGrantor"
    by (simp add: demo_eval del: set_map set_filter filter_filter)
  ultimately show ?thesis using x c by (intro exI [of _ ?e]) simp
qed

subsection \<open>Granting no more than one holds\<close>

lemma find_appended: "List.find P (xs @ ys) = (case List.find P xs of None \<Rightarrow> List.find P ys | Some x \<Rightarrow> Some x)"
  by (induction xs) auto

lemma dedupe_set: "set (dedupe out ks) = set out \<union> (set ks - {[]})"
  by (induction out ks rule: dedupe.induct) auto

lemma setRolePermissions_grants:
  "setRolePermissions i keys d = Inr e \<Longrightarrow> za_perms e = za_perms d \<and>
     (\<forall>r p. (r, p) \<in> za_grants e \<longleftrightarrow> (if r = i then p \<in> pk_id ` {q. \<exists>k \<in> set keys. k \<noteq> [] \<and> grantable d k = Some q}
       else (r, p) \<in> za_grants d))"
  by (auto simp: setRolePermissions_def Let_def dedupe_set List.map_filter_def filter_empty_conv image_iff split: if_splits) fastforce+

text \<open>\<open>SetRolePermissions\<close> keeps the rule: every key it is given was held by the actor.\<close>

lemma granting_within_authority:
  assumes "SetRolePermissions actor s i keys d = Inr e" "actor \<noteq> 0" "\<not> Has s ''*''" "k \<in> set keys"
  shows "Has s k"
  using assms by (auto simp: SetRolePermissions_def CanGrant_def and_then_eq_Inr Let_def filter_empty_conv split: if_splits)

text \<open>C26: The rule that nobody hands out more than he holds is lost through the two operations that do not ask: an
  active user who is no superuser but holds \<open>role:manage\<close>, which both routes require, creates a role with any
  active permissions and gives it to himself; a user without \<open>role:manage\<close> is refused both.\<close>

theorem role_manager_escalates:
  assumes t: "tables_ok d" and a: "a \<noteq> 0" "live_user d a" "\<not> IsSuperuser d a"
    and role: "roleKeyRe rk" "role_of_key d rk = None" "english name \<noteq> []"
    and rm: "Has (loadPermissionSet d a) ''role:manage''"
    and keys: "\<And>k. k \<in> set ks \<Longrightarrow> k \<noteq> [] \<and> (\<exists>p. grantable d k = Some p \<and> pk_status p = PermActive)"
  shows "\<exists>d1 e. require_route (loadPermissionSet d a) (MakeRole rk name desc ks) d = Inr d1 \<and>
     require_route (loadPermissionSet d1 a) (AssignUser seen a a [rk]) d1 = Inr e \<and>
     (\<forall>k \<in> set ks. Has (loadPermissionSet e a) k) \<and>
     (Has s ''role:manage'' \<or> (require_route s (MakeRole rk name desc ks) d = Inl (Denied ''role:manage'') \<and>
       require_route s (AssignUser seen a a [rk]) d1 = Inl (Denied ''role:manage'')))"
proof -
  let ?n = "za_next_role d" let ?i = "insert_role rk name desc False False (Bump d)"
  let ?r = "\<lparr>rl_id = ?n, rl_key = rk, rl_name = name, rl_description = desc, rl_builtin = False, rl_superuser = False\<rparr>"
  have gr: "grantable ?i = grantable d" by (simp add: fun_eq_iff grantable_def insert_role_def Bump_def)
  have "filter (\<lambda>k. grantable ?i k = None) (dedupe [] ks) = []"
    using keys by (auto simp: filter_empty_conv dedupe_set gr)
  then obtain d1 where s: "setRolePermissions ?n ks ?i = Inr d1" by (auto simp: setRolePermissions_def Let_def)
  note f = setRolePermissions_frame [OF s]
  have x1: "execute (MakeRole rk name desc ks) d = Inr d1"
    using s role by (simp add: CreateRole_def mutate_def)
  have roles: "za_roles d1 = za_roles d @ [?r]" using f by (simp add: insert_role_def Bump_def)
  have old: "\<forall>r \<in> set (za_roles d). rl_key r \<noteq> rk \<and> rl_id r \<noteq> ?n"
    using role(2) t by (auto simp: role_of_key_def find_None_iff tables_ok_def roles_ok_def)
  have rr: "role_of_key d1 rk = Some ?r"
  proof -
    have "List.find (\<lambda>r. rl_key r = rk) (za_roles d) = None" using old by (auto simp: find_None_iff)
    then show ?thesis by (simp add: role_of_key_def roles find_appended)
  qed
  have ns: "\<not> IsSuperuser d1 a" using a(3) f insert_role_frame [of "Bump d" rk name desc False False]
    by (simp add: IsSuperuser_iff same_people_def)
  have rk: "rk \<noteq> []" using role(1) by (auto simp: roleKeyRe_def)
  have ul: "za_users d1 = za_users d" using f by (simp add: insert_role_def Bump_def)
  have "user_row d1 a \<noteq> None" using a(2) ul by (auto simp: user_row_def live_iff find_None_iff)
  moreover have "filter rl_superuser (roles_held d1 a) = []" using ns by (auto simp: IsSuperuser_def list_ex_iff filter_empty_conv)
  ultimately have x2: "execute (AssignUser seen a a [rk]) d1 = Inr (assign a {?n} (Bump d1))" (is "_ = Inr ?e")
    using rk rr by (simp add: AssignRoles_def SetUserRoles_def Let_def List.map_filter_def superChanged_def del: set_map set_filter)
  have "Has (loadPermissionSet ?e a) k" if k: "k \<in> set ks" for k
  proof -
    from keys [OF k] obtain p where p: "grantable d k = Some p" "pk_status p = PermActive" "k \<noteq> []" by auto
    have pk: "p \<in> set (za_perms d)" "pk_key p = k" using p(1) by (auto simp: grantable_def dest!: find_SomeD)
    have "(?n, pk_id p) \<in> za_grants d1" using setRolePermissions_grants [OF s] p k gr by auto
    moreover have "za_perms d1 = za_perms d"
      using setRolePermissions_grants [OF s] by (simp add: insert_role_def Bump_def)
    moreover have "live_user ?e a" using a(2) ul by (simp add: live_iff)
    moreover have "?r \<in> set (roles_held ?e a)" by (simp add: roles_held_def roles)
    ultimately have "k \<in> set (held_keys (loadPermissionSet ?e a))"
      using pk p(2) by (force simp: loadPermissionSet_def Let_def granted_keys_def list_ex_iff assign_def)
    then show ?thesis by (simp add: Has_def)
  qed
  moreover have "Has (loadPermissionSet d1 a) ''role:manage''"
  proof -
    from rm a(2,3) obtain r p where r: "r \<in> set (roles_held d a)" "p \<in> set (za_perms d)" "pk_key p = ''role:manage''"
      "pk_status p = PermActive" "(rl_id r, pk_id p) \<in> za_grants d"
      by (auto simp: Has_def loadPermissionSet_def Let_def granted_keys_def list_ex_iff IsSuperuser_def)
    have "rl_id r \<noteq> ?n" using r(1) old by (auto simp: roles_held_def)
    then have "(rl_id r, pk_id p) \<in> za_grants d1"
      using setRolePermissions_grants [OF s] r(5) by (simp add: insert_role_def Bump_def)
    moreover have "za_perms d1 = za_perms d" using setRolePermissions_grants [OF s] by (simp add: insert_role_def Bump_def)
    moreover have "za_holds d1 = za_holds d" using f by (simp add: insert_role_def Bump_def)
    then have "r \<in> set (roles_held d1 a)" using r(1) by (simp add: roles_held_def roles)
    moreover have "live_user d1 a" using a(2) ul by (simp add: live_iff)
    ultimately have "''role:manage'' \<in> set (held_keys (loadPermissionSet d1 a))"
      using r(2-4) by (force simp: loadPermissionSet_def Let_def granted_keys_def list_ex_iff)
    then show ?thesis by (simp add: Has_def)
  qed
  ultimately show ?thesis using x1 x2 rm by (intro exI [of _ d1] exI [of _ ?e]) (simp add: require_route_def)
qed

theorem role_manager_escalates_witness:
  "\<not> Has (loadPermissionSet demo_tables 2) ''balance:adjust'' \<and>
   (\<exists>d1 e. require_route (loadPermissionSet demo_tables 2) (MakeRole ''mine'' [(''en'', ''Mine'')] [] [''balance:adjust'']) demo_tables = Inr d1 \<and>
     require_route (loadPermissionSet d1 2) (AssignUser demo_seen 2 2 [''mine'']) d1 = Inr e \<and> Has (loadPermissionSet e 2) ''balance:adjust'')"
proof
  show "\<not> Has (loadPermissionSet demo_tables 2) ''balance:adjust''" by (simp add: demo_eval)
  have "live_user demo_tables 2" "\<not> IsSuperuser demo_tables 2"
    by (simp_all add: live_user_def IsSuperuser_def roles_held_def demo_tables_def)
  moreover have "roleKeyRe ''mine''" "role_of_key demo_tables ''mine'' = None" "english [(''en'', ''Mine'')] \<noteq> []"
    by (simp_all add: roleKeyRe_def key_start_def role_of_key_def demo_tables_def english_def)
  moreover have "k \<noteq> [] \<and> (\<exists>p. grantable demo_tables k = Some p \<and> pk_status p = PermActive)"
    if "k \<in> set [''balance:adjust'']" for k
    using that by (simp add: grantable_def demo_tables_def)
  moreover have "Has (loadPermissionSet demo_tables 2) ''role:manage''" by (simp add: demo_eval)
  ultimately show "\<exists>d1 e. require_route (loadPermissionSet demo_tables 2) (MakeRole ''mine'' [(''en'', ''Mine'')] [] [''balance:adjust'']) demo_tables = Inr d1 \<and>
     require_route (loadPermissionSet d1 2) (AssignUser demo_seen 2 2 [''mine'']) d1 = Inr e \<and> Has (loadPermissionSet e 2) ''balance:adjust''"
    using role_manager_escalates [of demo_tables 2 "''mine''" "[(''en'', ''Mine'')]" "[''balance:adjust'']" "[]" demo_seen]
      demo_tables_ok(1) by fastforce
qed

text \<open>\<open>SetUserRoles\<close> compares the listed permissions of the target only, and a superuser may have none listed: then the
  check of the actor passes, where \<open>CanActOnUser\<close> refuses.\<close>

lemma superuser_target_not_checked:
  assumes "held_super t" "held_keys t = []" "\<not> Has s ''*''" "actor \<noteq> 0" "actor \<noteq> target"
  shows "CanActOn actor s (held_keys t) = Inr ()" "CanActOnUser actor target t s = Inl SuperuserTarget"
  using assms by (simp_all add: CanActOn_def CanActOnUser_def Has_def)

end
