(* ===== verification/AuthzCache.thy ===== *)
theory AuthzCache
  imports AuthzRules
begin

section \<open>Permission sets a node answers with (\<open>authz/service.go\<close>)\<close>

text \<open>
  Every node keeps the permission sets of users and the catalog until a newer version of the tables is
  announced (after a commit, through the bus, or by the poll). Questions and changes interleave at the boundaries
  of the critical sections and of the database snapshots; these are the steps of \<open>zstep\<close>. The committed tables and
  \<open>zs_told\<close>, the newest version announced to the node, are kept beside the state; a question remembers \<open>zs_told\<close> as it was
  when the question was asked, which is what the theorem compares the answer with.
\<close>

type_synonym catalog = "int \<times> (string \<times> perm_status) list"

record authz_node =
  zn_min :: int
  zn_sets :: "int \<rightharpoonup> permission_set"
  zn_catalog :: "catalog option"

definition invalidate_sets :: "int \<Rightarrow> authz_node \<Rightarrow> authz_node" where
  "invalidate_sets version n =
     (if version \<le> zn_min n then n
      else n\<lparr>zn_min := version,
        zn_sets := (\<lambda>i. case zn_sets n i of Some s \<Rightarrow> if held_version s < version then None else Some s | None \<Rightarrow> None)\<rparr>)"

text \<open>The two critical sections of \<open>PermissionSet\<close>; the first is also \<open>permissionSetCached\<close>.\<close>

definition look_set :: "int \<Rightarrow> authz_node \<Rightarrow> permission_set option" where
  "look_set i n = (case zn_sets n i of
       Some s \<Rightarrow> if zn_min n \<le> held_version s then Some s else None | None \<Rightarrow> None)"

definition keep_set :: "int \<Rightarrow> permission_set \<Rightarrow> authz_node \<Rightarrow> authz_node" where
  "keep_set i s n = (if zn_min n \<le> held_version s then n\<lparr>zn_sets := (zn_sets n)(i \<mapsto> s)\<rparr> else n)"

text \<open>The sections of \<open>ensureCatalog\<close> and of \<open>ActivePermissionKeys\<close>.\<close>

definition load_catalog :: "authz_db \<Rightarrow> catalog" where
  "load_catalog d = (za_version d, map (\<lambda>p. (pk_key p, pk_status p)) (za_perms d))"

definition catalog_fresh :: "authz_node \<Rightarrow> bool" where
  "catalog_fresh n \<longleftrightarrow> (case zn_catalog n of Some c \<Rightarrow> zn_min n \<le> fst c | None \<Rightarrow> False)"

definition keep_catalog :: "catalog \<Rightarrow> authz_node \<Rightarrow> authz_node" where
  "keep_catalog c n = (case zn_catalog n of
       Some old \<Rightarrow> if fst old < fst c then n\<lparr>zn_catalog := Some c\<rparr> else n
     | None \<Rightarrow> n\<lparr>zn_catalog := Some c\<rparr>)"

definition active_keys :: "catalog \<Rightarrow> string list" where
  "active_keys c = map fst (filter (\<lambda>p. snd p = PermActive) (snd c))"

subsection \<open>Questions and changes\<close>

datatype question =
    Asked int int
  | Missing int int
  | Loaded int int permission_set
  | Told int int permission_set
  | Listing int
  | ListMissing int
  | ListLoaded int catalog
  | ListReady int
  | Listed int "string list"

record authz_sys =
  zs_db :: authz_db
  zs_history :: "authz_db list"
  zs_node :: authz_node
  zs_told :: int
  zs_asked :: "nat \<rightharpoonup> question"

definition ask :: "nat \<Rightarrow> question \<Rightarrow> authz_sys \<Rightarrow> authz_sys" where
  "ask k q s = s\<lparr>zs_asked := (zs_asked s)(k \<mapsto> q)\<rparr>"

inductive zstep :: "authz_sys \<Rightarrow> authz_sys \<Rightarrow> bool" where
  Commit: "execute p (zs_db s) = Inr d \<Longrightarrow> zstep s (s\<lparr>zs_db := d, zs_history := zs_history s @ [d]\<rparr>)"
| Announce: "d \<in> set (zs_history s) \<Longrightarrow> 
    zstep s (s\<lparr>zs_node := invalidate_sets (za_version d) (zs_node s), zs_told := max (zs_told s) (za_version d)\<rparr>)"
| Ask: "zs_asked s k = None \<Longrightarrow> zstep s (ask k (Asked i (zs_told s)) s)"
| Hit: "zs_asked s k = Some (Asked i f) \<Longrightarrow> look_set i (zs_node s) = Some x \<Longrightarrow> zstep s (ask k (Told i f x) s)"
| Miss: "zs_asked s k = Some (Asked i f) \<Longrightarrow> look_set i (zs_node s) = None \<Longrightarrow> zstep s (ask k (Missing i f) s)"
| Load: "zs_asked s k = Some (Missing i f) \<Longrightarrow> zstep s (ask k (Loaded i f (loadPermissionSet (zs_db s) i)) s)"
| Keep: "zs_asked s k = Some (Loaded i f x) \<Longrightarrow>
    zstep s (ask k (Told i f x) (s\<lparr>zs_node := keep_set i x (zs_node s)\<rparr>))"
| ListAsk: "zs_asked s k = None \<Longrightarrow> zstep s (ask k (Listing (zs_told s)) s)"
| ListFresh: "zs_asked s k = Some (Listing f) \<Longrightarrow> catalog_fresh (zs_node s) \<Longrightarrow> zstep s (ask k (ListReady f) s)"
| ListStale: "zs_asked s k = Some (Listing f) \<Longrightarrow> \<not> catalog_fresh (zs_node s) \<Longrightarrow> zstep s (ask k (ListMissing f) s)"
| ListLoad: "zs_asked s k = Some (ListMissing f) \<Longrightarrow> zstep s (ask k (ListLoaded f (load_catalog (zs_db s))) s)"
| ListKeep: "zs_asked s k = Some (ListLoaded f c) \<Longrightarrow>
    zstep s (ask k (ListReady f) (s\<lparr>zs_node := keep_catalog c (zs_node s)\<rparr>))"
| ListTell: "zs_asked s k = Some (ListReady f) \<Longrightarrow> zn_catalog (zs_node s) = Some c \<Longrightarrow>
    zstep s (ask k (Listed f (active_keys c)) s)"
| Fail: "zstep s (s\<lparr>zs_asked := (zs_asked s)(k := None)\<rparr>)"

inductive_cases zstepE: "zstep s t"

definition authz_start :: "authz_db \<Rightarrow> authz_sys" where
  "authz_start d = \<lparr>zs_db = d, zs_history = [d], zs_node = \<lparr>zn_min = 0, zn_sets = Map.empty, zn_catalog = None\<rparr>,
     zs_told = 0, zs_asked = Map.empty\<rparr>"

subsection \<open>The invariant\<close>

definition set_from :: "authz_db list \<Rightarrow> int \<Rightarrow> int \<Rightarrow> permission_set \<Rightarrow> bool" where
  "set_from h i f x \<longleftrightarrow> (\<exists>d \<in> set h. x = loadPermissionSet d i \<and> f \<le> za_version d)"

definition catalog_from :: "authz_db list \<Rightarrow> int \<Rightarrow> catalog \<Rightarrow> bool" where
  "catalog_from h f c \<longleftrightarrow> (\<exists>d \<in> set h. c = load_catalog d \<and> f \<le> za_version d)"

fun question_ok :: "authz_db list \<Rightarrow> authz_node \<Rightarrow> question \<Rightarrow> bool" where
  "question_ok h n (Asked i f) \<longleftrightarrow> f \<le> zn_min n"
| "question_ok h n (Missing i f) \<longleftrightarrow> f \<le> zn_min n"
| "question_ok h n (Loaded i f x) \<longleftrightarrow> set_from h i f x"
| "question_ok h n (Told i f x) \<longleftrightarrow> set_from h i f x"
| "question_ok h n (Listing f) \<longleftrightarrow> f \<le> zn_min n"
| "question_ok h n (ListMissing f) \<longleftrightarrow> f \<le> zn_min n"
| "question_ok h n (ListLoaded f c) \<longleftrightarrow> catalog_from h f c"
| "question_ok h n (ListReady f) \<longleftrightarrow> (\<exists>c. zn_catalog n = Some c \<and> f \<le> fst c)"
| "question_ok h n (Listed f ks) \<longleftrightarrow> (\<exists>c. catalog_from h f c \<and> ks = active_keys c)"

definition history_ok :: "authz_db \<Rightarrow> authz_db list \<Rightarrow> bool" where
  "history_ok d h \<longleftrightarrow> d \<in> set h \<and> (\<forall>x \<in> set h. za_version x \<le> za_version d) \<and> inj_on za_version (set h) \<and> roles_ok d"

definition node_sets_ok :: "authz_db list \<Rightarrow> authz_node \<Rightarrow> bool" where
  "node_sets_ok h n \<longleftrightarrow> (\<forall>i x. zn_sets n i = Some x \<longrightarrow> (\<exists>f. set_from h i f x)) \<and>
     (\<forall>c. zn_catalog n = Some c \<longrightarrow> (\<exists>f. catalog_from h f c))"

definition sys_ok :: "authz_sys \<Rightarrow> bool" where
  "sys_ok s \<longleftrightarrow> history_ok (zs_db s) (zs_history s) \<and> zs_told s \<le> zn_min (zs_node s) \<and>
     zn_min (zs_node s) \<le> za_version (zs_db s) \<and> node_sets_ok (zs_history s) (zs_node s) \<and> (\<forall>k q. zs_asked s k = Some q \<longrightarrow> question_ok (zs_history s) (zs_node s) q)"

lemma set_from_version [simp]: "held_version (loadPermissionSet d i) = za_version d"
  by (simp add: loadPermissionSet_def Let_def)

lemma catalog_version [simp]: "fst (load_catalog d) = za_version d"
  by (simp add: load_catalog_def)

lemma history_ok_snoc:
  assumes "history_ok c h" "d = c \<or> za_version d = za_version c + 1" "roles_ok d"
  shows "history_ok d (h @ [d])"
  using assms(2)
proof
  assume "d = c"
  then have "insert d (set h) = set h" using assms(1) by (auto simp: history_ok_def)
  then show ?thesis using assms(1) \<open>d = c\<close> by (simp add: history_ok_def)
next
  assume v: "za_version d = za_version c + 1"
  then have "za_version x < za_version d" if "x \<in> set h" for x using assms(1) that by (fastforce simp: history_ok_def)
  then show ?thesis using assms(1,3) by (fastforce simp: history_ok_def)
qed

text \<open>Histories grow, the announced version and the version of the catalog grow.\<close>

definition node_later :: "authz_node \<Rightarrow> authz_node \<Rightarrow> bool" where
  "node_later n m \<longleftrightarrow> zn_min n \<le> zn_min m \<and> (\<forall>c. zn_catalog n = Some c \<longrightarrow> (\<exists>c'. zn_catalog m = Some c' \<and> fst c \<le> fst c'))"

lemma question_ok_later:
  "question_ok h n q \<Longrightarrow> set h \<subseteq> set h' \<Longrightarrow> node_later n m \<Longrightarrow> question_ok h' m q"
  by (cases q) (fastforce simp: set_from_def catalog_from_def node_later_def)+

lemma node_later_ops [simp]:
  "node_later n n" "node_later n (invalidate_sets v n)" "node_later n (keep_set i x n)" "node_later n (keep_catalog c n)"
  by (cases c; auto simp: node_later_def invalidate_sets_def keep_set_def keep_catalog_def split: option.splits)+

lemma node_sets_ok_ops:
  assumes "node_sets_ok h n"
  shows "node_sets_ok h (invalidate_sets v n)" "set_from h i f x \<Longrightarrow> node_sets_ok h (keep_set i x n)"
    "catalog_from h f c \<Longrightarrow> node_sets_ok h (keep_catalog c n)"
  using assms by (auto simp: node_sets_ok_def invalidate_sets_def keep_set_def keep_catalog_def split: option.splits if_splits)

lemma keep_min [simp]: "zn_min (keep_set i x n) = zn_min n" "zn_min (keep_catalog c n) = zn_min n"
  by (simp_all add: keep_set_def keep_catalog_def split: option.splits)

lemma sys_ok_later:
  assumes "sys_ok s" "zs_db t = zs_db s" "zs_history t = zs_history s" "node_later (zs_node s) (zs_node t)"
    and "zs_told t \<le> zn_min (zs_node t)" "zn_min (zs_node t) \<le> za_version (zs_db s)" "node_sets_ok (zs_history s) (zs_node t)"
    and "\<And>k q. zs_asked t k = Some q \<Longrightarrow> zs_asked s k = Some q \<or> question_ok (zs_history s) (zs_node t) q"
  shows "sys_ok t"
proof -
  have "question_ok (zs_history t) (zs_node t) q" if "zs_asked t k = Some q" for k q
    using assms(8) [OF that] assms(1,3,4) question_ok_later [of "zs_history s" "zs_node s" q "zs_history s" "zs_node t"]
    by (auto simp: sys_ok_def)
  then show ?thesis using assms(1,2,3,5,6,7) by (simp add: sys_ok_def)
qed

lemma zstep_sys_ok:
  assumes "zstep s t" "sys_ok s"
  shows "sys_ok t"
  using assms(1)
proof cases
  case (Commit p d)
  have h: "history_ok (zs_db s) (zs_history s)" using assms(2) by (simp add: sys_ok_def)
  then have v: "d = zs_db s \<or> za_version d = za_version (zs_db s) + 1" and "roles_ok d"
    using execute_version [OF Commit(2)] execute_roles_ok [OF Commit(2)] by (auto simp: history_ok_def)
  then have "history_ok d (zs_history s @ [d])" using h history_ok_snoc by blast
  moreover have "node_sets_ok (zs_history s @ [d]) (zs_node s)"
    using assms(2) by (fastforce simp: sys_ok_def node_sets_ok_def set_from_def catalog_from_def)
  moreover have "zn_min (zs_node s) \<le> za_version d"
    using assms(2) v by (auto simp: sys_ok_def)
  moreover have "question_ok (zs_history s @ [d]) (zs_node s) q" if "zs_asked s k = Some q" for k q
    using assms(2) that question_ok_later [of "zs_history s" "zs_node s" q "zs_history s @ [d]" "zs_node s"] by (auto simp: sys_ok_def)
  moreover have "zs_told s \<le> zn_min (zs_node s)" using assms(2) by (simp add: sys_ok_def)
  ultimately show ?thesis by (simp add: sys_ok_def Commit(1))
next
  case (Announce d)
  then show ?thesis using assms(2)
    by (intro sys_ok_later [OF assms(2)])
      (auto simp: sys_ok_def history_ok_def node_sets_ok_ops, auto simp: invalidate_sets_def)
next
  case (Hit k i f x)
  then have "set_from (zs_history s) i f x"
    using assms(2) by (fastforce simp: sys_ok_def look_set_def node_sets_ok_def set_from_def split: option.splits if_splits)
  then show ?thesis using Hit assms(2)
    by (intro sys_ok_later [OF assms(2)]) (auto simp: ask_def sys_ok_def split: if_splits)
next
  case (Load k i f)
  then have "set_from (zs_history s) i f (loadPermissionSet (zs_db s) i)"
    using assms(2) by (fastforce simp: sys_ok_def history_ok_def set_from_def)
  then show ?thesis using Load assms(2)
    by (intro sys_ok_later [OF assms(2)]) (auto simp: ask_def sys_ok_def split: if_splits)
next
  case (Keep k i f x)
  then have q: "set_from (zs_history s) i f x" using assms(2) by (fastforce simp: sys_ok_def)
  then show ?thesis using Keep assms(2) node_sets_ok_ops(2)
    by (intro sys_ok_later [OF assms(2)]) (auto simp: ask_def sys_ok_def split: if_splits)
next
  case (ListFresh k f)
  then have "\<exists>c. zn_catalog (zs_node s) = Some c \<and> f \<le> fst c"
    using assms(2) by (fastforce simp: sys_ok_def catalog_fresh_def split: option.splits)
  then show ?thesis using ListFresh assms(2)
    by (intro sys_ok_later [OF assms(2)]) (auto simp: ask_def sys_ok_def split: if_splits)
next
  case (ListLoad k f)
  then have "catalog_from (zs_history s) f (load_catalog (zs_db s))"
    using assms(2) by (fastforce simp: sys_ok_def history_ok_def catalog_from_def)
  then show ?thesis using ListLoad assms(2)
    by (intro sys_ok_later [OF assms(2)]) (auto simp: ask_def sys_ok_def split: if_splits)
next
  case (ListKeep k f c)
  then have q: "catalog_from (zs_history s) f c" using assms(2) by (fastforce simp: sys_ok_def)
  then have "f \<le> fst c" by (auto simp: catalog_from_def)
  then have "\<exists>c'. zn_catalog (keep_catalog c (zs_node s)) = Some c' \<and> f \<le> fst c'"
    by (auto simp: keep_catalog_def simp del: split_paired_Ex split: option.splits)
  then show ?thesis using ListKeep assms(2) q node_sets_ok_ops(3)
    by (intro sys_ok_later [OF assms(2)]) (auto simp: ask_def sys_ok_def split: if_splits)
next
  case (ListTell k f c)
  then have "catalog_from (zs_history s) f c"
    using assms(2) by (fastforce simp: sys_ok_def node_sets_ok_def catalog_from_def)
  then have "question_ok (zs_history s) (zs_node s) (Listed f (active_keys c))" unfolding question_ok.simps by blast
  then show ?thesis using ListTell assms(2)
    by (intro sys_ok_later [OF assms(2)]) (auto simp: ask_def sys_ok_def simp del: question_ok.simps split: if_splits)
qed (use assms(2) in \<open>intro sys_ok_later [OF assms(2)]; fastforce simp: ask_def sys_ok_def split: if_splits\<close>)+

lemma sys_ok_start: "roles_ok d \<Longrightarrow> 0 \<le> za_version d \<Longrightarrow> sys_ok (authz_start d)"
  by (simp add: sys_ok_def authz_start_def history_ok_def node_sets_ok_def)

lemma zsteps_sys_ok: "zstep\<^sup>*\<^sup>* s t \<Longrightarrow> sys_ok s \<Longrightarrow> sys_ok t"
  by (induction rule: rtranclp_induct) (auto intro: zstep_sys_ok)

text \<open>C19: A permission set a node answers with is the one of a single committed state of all the tables, and not
  of one older than any change the node had been told of when it was asked; the same holds of the list of all active
  permissions. So a revoked permission is gone as soon as the change is announced.\<close>

theorem permission_answers_are_current:
  assumes "tables_ok d0" "0 \<le> za_version d0" and "zstep\<^sup>*\<^sup>* (authz_start d0) s"
  shows "(zs_asked s k = Some (Told i f x) \<longrightarrow>
      (\<exists>!d. d \<in> set (zs_history s) \<and> za_version d = held_version x) \<and> f \<le> held_version x \<and>
      (\<forall>d \<in> set (zs_history s). za_version d = held_version x \<longrightarrow> x = loadPermissionSet d i)) \<and>
    (zs_asked s k = Some (Listed f ks) \<longrightarrow>
      (\<exists>d \<in> set (zs_history s). f \<le> za_version d \<and> ks = map pk_key (filter (\<lambda>p. pk_status p = PermActive) (za_perms d))))"
proof -
  have ok: "sys_ok s" using zsteps_sys_ok [OF assms(3)] sys_ok_start assms(1,2) by (auto simp: tables_ok_def)
  then have h: "inj_on za_version (set (zs_history s))" by (auto simp: sys_ok_def history_ok_def)
  have told: "set_from (zs_history s) i f x" if "zs_asked s k = Some (Told i f x)"
    using ok that by (fastforce simp: sys_ok_def)
  have listed: "\<exists>d \<in> set (zs_history s). ks = active_keys (load_catalog d) \<and> f \<le> za_version d" if "zs_asked s k = Some (Listed f ks)"
    using ok that by (fastforce simp: sys_ok_def catalog_from_def)
  have keys: "active_keys (load_catalog d) = map pk_key (filter (\<lambda>p. pk_status p = PermActive) (za_perms d))" for d
    by (simp add: active_keys_def load_catalog_def filter_map comp_def)
  have "(\<exists>!d. d \<in> set (zs_history s) \<and> za_version d = held_version x) \<and> f \<le> held_version x \<and>
      (\<forall>d \<in> set (zs_history s). za_version d = held_version x \<longrightarrow> x = loadPermissionSet d i)"
    if t: "zs_asked s k = Some (Told i f x)"
  proof -
    from told [OF t] obtain d where d: "d \<in> set (zs_history s)" "x = loadPermissionSet d i" "f \<le> za_version d"
      by (auto simp: set_from_def)
    then have "e = d" if "e \<in> set (zs_history s)" "za_version e = held_version x" for e
      using h that by (auto dest: inj_onD)
    then show ?thesis using d by (metis set_from_version)
  qed
  moreover have "\<exists>d \<in> set (zs_history s). f \<le> za_version d \<and> ks = map pk_key (filter (\<lambda>p. pk_status p = PermActive) (za_perms d))"
    if "zs_asked s k = Some (Listed f ks)"
    using listed [OF that] keys by metis
  ultimately show ?thesis by blast
qed

text \<open>User 2 is asked about, loses the role, and after the announcement has no permission.\<close>

theorem permission_answers_are_current_witness:
  "\<exists>s x. zstep\<^sup>*\<^sup>* (authz_start demo_tables) s \<and> zs_asked s 1 = Some (Told 2 8 x) \<and> \<not> Has x ''role:manage'' \<and>
     zs_asked s 0 = Some (Told 2 0 (loadPermissionSet demo_tables 2)) \<and> 8 \<le> held_version x \<and>
     Has (loadPermissionSet demo_tables 2) ''role:manage''"
proof -
  let ?d = "(Bump demo_tables)\<lparr>za_roles := filter (\<lambda>r. rl_id r \<noteq> 2) (za_roles demo_tables),
    za_grants := {g \<in> za_grants demo_tables. fst g \<noteq> 2}, za_holds := {h \<in> za_holds demo_tables. snd h \<noteq> 2}\<rparr>"
  let ?x = "loadPermissionSet demo_tables 2" let ?y = "loadPermissionSet ?d 2"
  let ?s0 = "authz_start demo_tables"
  let ?s1 = "ask 0 (Asked 2 0) ?s0" let ?s2 = "ask 0 (Missing 2 0) ?s1" let ?s3 = "ask 0 (Loaded 2 0 ?x) ?s2"
  let ?s4 = "ask 0 (Told 2 0 ?x) (?s3\<lparr>zs_node := keep_set 2 ?x (zs_node ?s3)\<rparr>)"
  let ?s5 = "?s4\<lparr>zs_db := ?d, zs_history := zs_history ?s4 @ [?d]\<rparr>"
  let ?s6 = "?s5\<lparr>zs_node := invalidate_sets (za_version ?d) (zs_node ?s5), zs_told := max (zs_told ?s5) (za_version ?d)\<rparr>"
  let ?s7 = "ask 1 (Asked 2 8) ?s6" let ?s8 = "ask 1 (Missing 2 8) ?s7" let ?s9 = "ask 1 (Loaded 2 8 ?y) ?s8"
  let ?s10 = "ask 1 (Told 2 8 ?y) (?s9\<lparr>zs_node := keep_set 2 ?y (zs_node ?s9)\<rparr>)"
  have v: "za_version demo_tables = 7" by (simp add: demo_tables_def)
  have "zstep ?s0 ?s1" using Ask [of ?s0 0 2] by (simp add: authz_start_def)
  moreover have "zstep ?s1 ?s2" by (rule Miss) (simp_all add: ask_def authz_start_def look_set_def)
  moreover have "zstep ?s2 ?s3" using Load [of ?s2 0 2 0] by (simp add: ask_def authz_start_def)
  moreover have "zstep ?s3 ?s4" by (rule Keep) (simp add: ask_def)
  moreover have "execute (DropRole 2) demo_tables = Inr ?d"
    by (simp add: DeleteRole_def mutate_def role_of_id_def demo_tables_def Bump_def)
  then have "zstep ?s4 ?s5" using Commit [of "DropRole 2" ?s4 ?d] by (simp add: ask_def authz_start_def)
  moreover have "zstep ?s5 ?s6" by (rule Announce) simp
  moreover have "zstep ?s6 ?s7"
    using Ask [of ?s6 1 2] by (simp add: ask_def authz_start_def invalidate_sets_def keep_set_def v)
  moreover have "zstep ?s7 ?s8"
    by (rule Miss) (simp_all add: ask_def authz_start_def look_set_def invalidate_sets_def keep_set_def v)
  moreover have "zstep ?s8 ?s9" using Load [of ?s8 1 2 8] by (simp add: ask_def)
  moreover have "zstep ?s9 ?s10" by (rule Keep) (simp add: ask_def)
  ultimately have run: "zstep\<^sup>*\<^sup>* ?s0 ?s10" by (meson converse_rtranclp_into_rtranclp rtranclp.rtrancl_refl)
  have told: "zs_asked ?s10 1 = Some (Told 2 8 ?y)" "zs_asked ?s10 0 = Some (Told 2 0 ?x)" by (simp_all add: ask_def)
  note current = permission_answers_are_current [OF demo_tables_ok(1) _ run, THEN conjunct1, THEN mp, OF _ told(1)]
  have "8 \<le> held_version ?y" by (rule current [THEN conjunct2, THEN conjunct1]) (simp add: v)
  moreover have "\<not> Has ?y ''role:manage''" "Has ?x ''role:manage''"
    by (simp_all add: demo_eval)
  ultimately show ?thesis using run told by blast
qed

end
