(* ===== verification/BillingStore.thy ===== *)
theory BillingStore
  imports Prelude
begin

section \<open>The billing tables\<close>

text \<open>
  The PostgreSQL tables the money path reads and writes (\<open>internal/migrations\<close>), as one record.
  A table with a serial key is a list of rows, newest first, with the next value of its sequence;
  a table keyed by a value the code supplies is a map. A transaction is a function from the tables
  to an error or a result with the new tables: an error returns no tables, which is the rollback
  of \<open>store.DB.Tx\<close>.

  Every statement can fail. The record \<open>env\<close> holds what the code does not determine: which
  statements fail, the decimal package's \<open>Round(8)\<close>, whether an event publisher is
  configured, the printed form of an error, and what a concurrent transaction with the same idempotency key has inserted
  between the first lookup and the insert.
\<close>

datatype err =
    ErrInvalidFields "string list"
  | ErrNotFound string
  | ErrConflict string
  | ErrInternal string
  | ErrInsufficientBalance
  | ErrNotPending
  | ErrNegativePrecharge
  | ErrNoLedger
  | ErrPrice string
  | ErrDB string

record ledger_row =
  l_id :: int
  l_user :: int
  l_delta :: rat
  l_after :: rat
  l_kind :: string
  l_ref_type :: string
  l_ref_id :: string
  l_key :: string
  l_operator :: "int option"
  l_plugin :: string
  l_note :: string

record precharge_row =
  pr_request :: string
  pr_user :: int
  pr_amount :: rat
  pr_expires :: int

record tokens =
  tk_input :: int
  tk_output :: int
  tk_cache_read :: int
  tk_cache_creation :: int
  tk_cache_creation_1h :: int

datatype metric = MNum rat | MText string | MBool bool

record pending =
  RequestID :: string
  UserID :: int
  APIKeyID :: int
  GroupID :: int
  AccountID :: "int option"
  PluginKey :: string
  Platform :: string
  Protocol :: string
  AccountType :: string
  UpstreamProtocol :: string
  Model :: string
  Success :: bool
  StatusCode :: int
  ErrorType :: string
  Tokens :: tokens
  Metrics :: "(string \<times> metric) list"
  LatencyMs :: int
  CreatedAt :: int
  Rate :: rat
  PriceID :: int
  Mode :: string
  Expression :: string
  Semantics :: string
  Params :: "(string \<times> string) list"
  Headers :: "(string \<times> string) list"
  Attempts :: int

text \<open>The billing statuses of \<open>usage_logs\<close> and the states of \<open>pending_settlements\<close>.\<close>

datatype billing_status = StatusPending | StatusBilled | StatusFailed | StatusFree | StatusReserved

datatype settle_state =
  SettleStatePending | SettleStateSettled | SettleStateFailed | SettleStateAbandoned | SettleStateEstimated

record usage_row =
  u_id :: int
  u_p :: pending
  u_status :: billing_status
  u_total :: rat
  u_tier :: string
  u_expr_hash :: string
  u_ledger_id :: "int option"
  u_message :: string
  u_anomalies :: "(string \<times> string) list"

record settle_row =
  s_id :: int
  s_plugin :: string
  s_ref :: string
  s_usage :: int
  s_account :: "int option"
  s_attempts :: int
  s_next :: int
  s_deadline :: int
  s_state :: settle_state
  s_error :: string
  s_created :: int
  s_task :: "string option"
  s_poll_failures :: int

text \<open>\<open>core.UsageRecord\<close> with its price rule and reservation, as the gateway submits it; durations and
  instants in nanoseconds.\<close>

record price_rule =
  rp_id :: int
  rp_mode :: string
  rp_expression :: string
  rp_hash :: string

record reservation =
  rv_plugin :: string
  rv_ref :: string
  rv_next_after :: int
  rv_deadline :: int

record usage_rec =
  rc_request :: string
  rc_user :: int
  rc_key :: int
  rc_group :: int
  rc_account :: "int option"
  rc_plugin :: string
  rc_platform :: string
  rc_protocol :: string
  rc_account_type :: string
  rc_upstream_protocol :: string
  rc_model :: string
  rc_status_code :: int
  rc_success :: bool
  rc_error_type :: string
  rc_error_message :: string
  rc_semantics :: string
  rc_tokens :: tokens
  rc_metrics :: "(string \<times> metric) list"
  rc_mismatch :: string
  rc_extract :: string
  rc_dropped :: string
  rc_reservation :: "reservation option"
  rc_billable :: bool
  rc_price :: "price_rule option"
  rc_params :: "(string \<times> string) list"
  rc_headers :: "(string \<times> string) list"
  rc_rate :: rat
  rc_latency :: int
  rc_created :: "int option"

datatype event =
    BalanceChanged int int rat rat string
  | UsageRecorded string int rat billing_status

record db =
  users :: "int list"
  balances :: "int \<rightharpoonup> rat"
  ledger :: "ledger_row list"
  next_ledger :: int
  precharges :: "precharge_row list"
  usage :: "usage_row list"
  next_usage :: int
  settlements :: "settle_row list"
  next_settle :: int
  events :: "event list"

text \<open>
  \<open>env_race\<close> is the outcome of the insert into \<open>balance_ledger\<close>: \<open>None\<close> when it
  inserts, \<open>Some r\<close> when it hits \<open>ON CONFLICT DO NOTHING\<close>, with the row (if any) the second
  lookup finds.
\<close>

record env =
  env_round8 :: "rat \<Rightarrow> rat"
  env_fails :: "string \<Rightarrow> bool"
  env_events :: bool
  env_race :: "ledger_row option option"
  env_text :: "err \<Rightarrow> string"

definition stmt :: "env \<Rightarrow> string \<Rightarrow> err + unit" where
  "stmt env s = ensure (\<not> env_fails env s) (ErrDB s)"

lemma stmt_eq_Inr [simp, err_simps]: "stmt env s = Inr u \<longleftrightarrow> \<not> env_fails env s"
  by (simp add: stmt_def)

definition no_faults :: "(rat \<Rightarrow> rat) \<Rightarrow> env" where
  "no_faults r = \<lparr>env_round8 = r, env_fails = (\<lambda>_. False), env_events = True, env_race = None,
     env_text = (\<lambda>_. [])\<rparr>"

lemma stmt_no_faults [simp]: "stmt (no_faults r) s = Inr ()"
  by (simp add: no_faults_def)

text \<open>The decimal package's rounding, as far as the code relies on it.\<close>

definition rounds8 :: "(rat \<Rightarrow> rat) \<Rightarrow> bool" where
  "rounds8 r \<longleftrightarrow> (\<forall>x. r (r x) = r x)"

text \<open>Half away from zero at eight places, the concrete rounding the witnesses use.\<close>

definition round_half_away8 :: "rat \<Rightarrow> rat" where
  "round_half_away8 x =
     (if 0 \<le> x then of_int \<lfloor>x * 100000000 + 1 / 2\<rfloor> / 100000000
      else - (of_int \<lfloor>- x * 100000000 + 1 / 2\<rfloor> / 100000000))"

lemma floor_half_of_int: "\<lfloor>of_int n + 1 / 2 :: rat\<rfloor> = n"
  by linarith

lemma rounds8_half_away: "rounds8 round_half_away8"
proof -
  have scale: "(of_int n / 100000000 :: rat) * 100000000 = of_int n" for n by simp
  have "round_half_away8 (round_half_away8 x) = round_half_away8 x" for x
  proof (cases "0 \<le> x")
    case True
    then have "0 \<le> \<lfloor>x * 100000000 + 1 / 2\<rfloor>" by simp
    then have "0 \<le> (of_int \<lfloor>x * 100000000 + 1 / 2\<rfloor> / 100000000 :: rat)" by simp
    with True show ?thesis
      unfolding round_half_away8_def by (simp only: if_True scale floor_half_of_int)
  next
    case False
    define n where "n = \<lfloor>- x * 100000000 + 1 / 2\<rfloor>"
    have n0: "0 \<le> n" using False by (simp add: n_def)
    have r: "round_half_away8 x = - (of_int n / 100000000)"
      using False by (simp add: round_half_away8_def n_def)
    show ?thesis
    proof (cases "n = 0")
      case True
      moreover have "\<lfloor>1 / 2 :: rat\<rfloor> = 0" using floor_half_of_int [of 0] by simp
      ultimately have "round_half_away8 x = 0" and "round_half_away8 0 = 0"
        using r by (simp_all add: round_half_away8_def)
      then show ?thesis by simp
    next
      case False
      with n0 have neg: "\<not> 0 \<le> - (of_int n / 100000000 :: rat)" by simp
      then have "round_half_away8 (- (of_int n / 100000000)) =
          - (of_int \<lfloor>of_int n / 100000000 * 100000000 + 1 / 2 :: rat\<rfloor> / 100000000)"
        by (simp add: round_half_away8_def)
      then show ?thesis using r by (simp only: scale floor_half_of_int)
    qed
  qed
  then show ?thesis by (simp add: rounds8_def)
qed

end
