(* ===== verification/Ledger.thy ===== *)
theory Ledger
  imports BillingStore
begin

section \<open>The balance ledger (\<open>billing/ledger.go\<close>)\<close>

text \<open>
  \<open>ApplyTx\<close> is the only way a balance changes: one transaction writes the balance, a ledger
  row and the event. The lemmas show that it keeps the ledger and the balances in step
  (\<open>ledger_ok\<close>) and that it is idempotent on its key.
\<close>

subsection \<open>Changes and results\<close>

record ledger_change =
  ch_user :: int
  ch_amount :: rat
  ch_credit :: bool
  ch_kind :: string
  ch_ref_type :: string
  ch_ref_id :: string
  ch_key :: string
  ch_operator :: "int option"
  ch_plugin :: string
  ch_note :: string

record ledger_result =
  r_id :: int
  r_after :: rat
  r_dup :: bool
  r_user :: int
  r_delta :: rat
  r_kind :: string

definition validKinds :: "string list" where
  "validKinds = [''usage'', ''admin_adjust'', ''plugin_credit'', ''plugin_debit'', ''refund'']"

definition validateChange :: "env \<Rightarrow> ledger_change \<Rightarrow> err + unit" where
  "validateChange env ch =
     (let fields =
        (if ch_user ch \<le> 0 then [''user_id''] else []) @
        (if ch_amount ch \<le> 0 then [''amount'']
         else if ch_amount ch \<noteq> env_round8 env (ch_amount ch) then [''amount''] else []) @
        (if ch_kind ch \<in> set validKinds then [] else [''kind'']) @
        (if ch_key ch = [] \<or> length (ch_key ch) > 150 then [''idempotency_key''] else [])
      in if fields \<noteq> [] then Inl (ErrInvalidFields fields) else Inr ())"

definition change_delta :: "ledger_change \<Rightarrow> rat" where
  "change_delta ch = (if ch_credit ch then ch_amount ch else - ch_amount ch)"

subsection \<open>The transaction\<close>

definition dup_result :: "ledger_row \<Rightarrow> ledger_result" where
  "dup_result r = \<lparr>r_id = l_id r, r_after = l_after r, r_dup = True,
     r_user = l_user r, r_delta = l_delta r, r_kind = l_kind r\<rparr>"

definition findLedger :: "db \<Rightarrow> string \<Rightarrow> ledger_result option" where
  "findLedger d key = map_option dup_result (List.find (\<lambda>r. l_key r = key) (ledger d))"

definition reuse :: "ledger_change \<Rightarrow> ledger_result \<Rightarrow> err + ledger_result" where
  "reuse ch dup =
     (if r_user dup \<noteq> ch_user ch \<or> r_delta dup \<noteq> change_delta ch \<or> r_kind dup \<noteq> ch_kind ch
      then Inl (ErrConflict ''idempotency key reused with different user, amount or kind'')
      else Inr dup)"

definition ensure_balance :: "env \<Rightarrow> int \<Rightarrow> db \<Rightarrow> err + db" where
  "ensure_balance env u d =
     and_then (stmt env ''insert user_balances'') (\<lambda>_.
       case balances d u of
         Some _ \<Rightarrow> Inr d
       | None \<Rightarrow> if u \<in> set (users d) then Inr (d\<lparr>balances := (balances d)(u \<mapsto> 0)\<rparr>)
                 else Inl (ErrNotFound ''user not found''))"

definition lock_balance :: "env \<Rightarrow> int \<Rightarrow> db \<Rightarrow> err + rat" where
  "lock_balance env u d =
     and_then (stmt env ''select balance for update'') (\<lambda>_.
       case balances d u of None \<Rightarrow> Inl (ErrDB ''no rows'') | Some b \<Rightarrow> Inr b)"

definition new_row :: "db \<Rightarrow> ledger_change \<Rightarrow> rat \<Rightarrow> ledger_row" where
  "new_row d ch after = \<lparr>l_id = next_ledger d, l_user = ch_user ch, l_delta = change_delta ch,
     l_after = after, l_kind = ch_kind ch, l_ref_type = ch_ref_type ch, l_ref_id = ch_ref_id ch,
     l_key = ch_key ch, l_operator = ch_operator ch, l_plugin = ch_plugin ch, l_note = ch_note ch\<rparr>"

definition insert_row :: "env \<Rightarrow> db \<Rightarrow> ledger_change \<Rightarrow> rat \<Rightarrow> err + ledger_result \<times> db" where
  "insert_row env d ch after =
     and_then (stmt env ''insert balance_ledger'') (\<lambda>_.
     and_then (stmt env ''update user_balances'') (\<lambda>_.
     and_then (if env_events env then stmt env ''emit balance.changed'' else Inr ()) (\<lambda>_.
       Inr (\<lparr>r_id = next_ledger d, r_after = after, r_dup = False, r_user = 0, r_delta = 0, r_kind = []\<rparr>,
         d\<lparr>ledger := new_row d ch after # ledger d,
           next_ledger := next_ledger d + 1,
           balances := (balances d)(ch_user ch \<mapsto> after),
           events := (if env_events env
             then [BalanceChanged (ch_user ch) (next_ledger d) (change_delta ch) after (ch_kind ch)] else [])
             @ events d\<rparr>))))"

definition rounded :: "env \<Rightarrow> ledger_change \<Rightarrow> ledger_change" where
  "rounded env ch = ch\<lparr>ch_amount := env_round8 env (ch_amount ch)\<rparr>"

definition ApplyTx :: "env \<Rightarrow> db \<Rightarrow> ledger_change \<Rightarrow> err + ledger_result \<times> db" where
  "ApplyTx env d ch0 =
     and_then (validateChange env ch0) (\<lambda>_.
     let ch = rounded env ch0 in
     and_then (ensure_balance env (ch_user ch) d) (\<lambda>d.
     and_then (lock_balance env (ch_user ch) d) (\<lambda>balance.
     and_then (stmt env ''find ledger'') (\<lambda>_.
     case findLedger d (ch_key ch) of
       Some dup \<Rightarrow> and_then (reuse ch dup) (\<lambda>r. Inr (r, d))
     | None \<Rightarrow>
        (case env_race env of
           Some late \<Rightarrow>
             and_then (stmt env ''find ledger again'') (\<lambda>_.
             case late of
               None \<Rightarrow> Inl (ErrInternal ''idempotency key vanished during insert'')
             | Some row \<Rightarrow> and_then (reuse ch (dup_result row)) (\<lambda>r. Inr (r, d)))
         | None \<Rightarrow> insert_row env d ch (balance + change_delta ch))))))"

subsection \<open>The two subqueries of \<open>Balance\<close>\<close>

definition max_ledger_id :: "db \<Rightarrow> int \<Rightarrow> int" where
  "max_ledger_id d u = fold (\<lambda>r m. if l_user r = u \<and> m < l_id r then l_id r else m) (ledger d) 0"

definition db_balance :: "db \<Rightarrow> int \<Rightarrow> rat" where
  "db_balance d u = (case balances d u of None \<Rightarrow> 0 | Some b \<Rightarrow> b)"


subsection \<open>What a successful change does to the tables\<close>

definition touch :: "int \<Rightarrow> db \<Rightarrow> db" where
  "touch u d = (case balances d u of Some _ \<Rightarrow> d | None \<Rightarrow> d\<lparr>balances := (balances d)(u \<mapsto> 0)\<rparr>)"

definition has_key :: "db \<Rightarrow> string \<Rightarrow> bool" where
  "has_key d k \<longleftrightarrow> k \<in> l_key ` set (ledger d)"

definition booked :: "env \<Rightarrow> db \<Rightarrow> ledger_change \<Rightarrow> rat \<Rightarrow> db" where
  "booked env d ch after =
     d\<lparr>ledger := new_row d ch after # ledger d, next_ledger := next_ledger d + 1,
       balances := (balances d)(ch_user ch \<mapsto> after),
       events := (if env_events env
         then [BalanceChanged (ch_user ch) (next_ledger d) (change_delta ch) after (ch_kind ch)] else []) @ events d\<rparr>"

lemma find_None_iff_key: "List.find (\<lambda>r. l_key r = k) xs = None \<longleftrightarrow> k \<notin> l_key ` set xs"
  by (auto simp: find_None_iff)

lemma find_unique_key:
  "distinct (map f xs) \<Longrightarrow> x \<in> set xs \<Longrightarrow> f x = k \<Longrightarrow> List.find (\<lambda>y. f y = k) xs = Some x"
  by (induction xs) auto

lemma findLedger_None: "findLedger d k = None \<longleftrightarrow> \<not> has_key d k"
  by (simp add: findLedger_def has_key_def find_None_iff_key)

lemma touch_simps [simp]:
  "ledger (touch u d) = ledger d" "next_ledger (touch u d) = next_ledger d"
  "users (touch u d) = users d" "precharges (touch u d) = precharges d"
  "usage (touch u d) = usage d" "next_usage (touch u d) = next_usage d"
  "settlements (touch u d) = settlements d" "next_settle (touch u d) = next_settle d"
  "events (touch u d) = events d" "db_balance (touch u d) = db_balance d"
  by (auto simp: touch_def db_balance_def fun_eq_iff split: option.splits)

lemma touch_balance: "balances (touch u d) u \<noteq> None"
  by (simp add: touch_def split: option.splits)

lemma touch_balance_mono: "balances d v \<noteq> None \<Longrightarrow> balances (touch u d) v \<noteq> None"
  by (auto simp: touch_def split: option.splits)

lemma ensure_balance_Inr: "ensure_balance env u d = Inr d' \<Longrightarrow> d' = touch u d"
  by (auto simp: ensure_balance_def touch_def err_simps split: option.splits if_splits)

lemma lock_balance_Inr: "lock_balance env u d = Inr b \<Longrightarrow> b = db_balance d u \<and> balances d u \<noteq> None"
  by (auto simp: lock_balance_def db_balance_def err_simps split: option.splits)

lemma insert_row_Inr:
  "insert_row env d ch after = Inr (r, d') \<Longrightarrow>
     d' = booked env d ch after \<and> r_id r = next_ledger d \<and> r_after r = after \<and> \<not> r_dup r"
  by (auto simp: insert_row_def booked_def err_simps split: if_splits)

lemma findLedger_touch [simp]: "findLedger (touch u d) k = findLedger d k"
  by (simp add: findLedger_def)

text \<open>
  Every success of \<open>ApplyTx\<close> is one of two: the key was already there, with the same user,
  amount and kind, and only the zero balance row may be new; or a row is booked.
\<close>

lemma ApplyTx_success:
  assumes "ApplyTx env d ch = Inr (r, d')" and "env_race env = None"
  obtains
    (Dup) dup where "has_key d (ch_key ch)" "findLedger d (ch_key ch) = Some dup"
      "reuse (rounded env ch) dup = Inr r" "d' = touch (ch_user ch) d"
  | (New) "\<not> has_key d (ch_key ch)"
      "d' = booked env (touch (ch_user ch) d) (rounded env ch)
        (db_balance d (ch_user ch) + change_delta (rounded env ch))"
      "r_id r = next_ledger d" "r_after r = db_balance d (ch_user ch) + change_delta (rounded env ch)"
      "\<not> r_dup r" "insert_row env (touch (ch_user ch) d) (rounded env ch)
        (db_balance d (ch_user ch) + change_delta (rounded env ch)) = Inr (r, d')"
proof -
  note unfolds = ApplyTx_def Let_def err_simps
  have [simp]: "ch_user (rounded env ch) = ch_user ch" "ch_key (rounded env ch) = ch_key ch"
    by (simp_all add: rounded_def)
  show ?thesis
  proof (cases "findLedger d (ch_key ch)")
    case None
    with assms obtain b where lb: "lock_balance env (ch_user ch) (touch (ch_user ch) d) = Inr b"
      and ins: "insert_row env (touch (ch_user ch) d) (rounded env ch) (b + change_delta (rounded env ch)) = Inr (r, d')"
      by (auto simp: unfolds dest!: ensure_balance_Inr)
    from lock_balance_Inr [OF lb] have "b = db_balance d (ch_user ch)" by simp
    with insert_row_Inr [OF ins] ins None show ?thesis
      by (intro New) (auto simp: findLedger_None)
  next
    case (Some dup)
    then have "has_key d (ch_key ch)" by (metis findLedger_None option.distinct(1))
    with assms Some show ?thesis
      by (intro Dup) (auto simp: unfolds dest!: ensure_balance_Inr)
  qed
qed


subsection \<open>Balances and ledger agree\<close>

text \<open>
  \<open>user_sum\<close> is the sum of a user's deltas. \<open>ledger_ok\<close>: every row's \<open>balance_after\<close> is the sum of the
  user's deltas up to it, keys are unique, ids grow, and every stored balance is the sum of the
  user's rows.
\<close>

definition user_sum :: "int \<Rightarrow> ledger_row list \<Rightarrow> rat" where
  "user_sum u rows = sum_list (map l_delta (filter (\<lambda>r. l_user r = u) rows))"

fun chain_ok :: "ledger_row list \<Rightarrow> bool" where
  "chain_ok [] = True"
| "chain_ok (r # rs) = (l_after r = user_sum (l_user r) (r # rs) \<and> chain_ok rs)"

definition ledger_ok :: "db \<Rightarrow> bool" where
  "ledger_ok d \<longleftrightarrow>
     chain_ok (ledger d) \<and> distinct (map l_key (ledger d)) \<and> sorted_wrt (>) (map l_id (ledger d)) \<and>
     (\<forall>r \<in> set (ledger d). 0 < l_id r \<and> l_id r < next_ledger d \<and> balances d (l_user r) \<noteq> None) \<and>
     0 < next_ledger d \<and> (\<forall>u. db_balance d u = user_sum u (ledger d))"

lemma user_sum_simps [simp]:
  "user_sum u [] = 0"
  "user_sum u (r # rs) = (if l_user r = u then l_delta r else 0) + user_sum u rs"
  by (simp_all add: user_sum_def)

lemma ledger_ok_touch [simp]: "ledger_ok d \<Longrightarrow> ledger_ok (touch u d)"
  by (auto simp: ledger_ok_def touch_balance_mono)

lemma booked_simps [simp]:
  "users (booked env d ch a) = users d" "precharges (booked env d ch a) = precharges d"
  "usage (booked env d ch a) = usage d" "next_usage (booked env d ch a) = next_usage d"
  "settlements (booked env d ch a) = settlements d" "next_settle (booked env d ch a) = next_settle d"
  "ledger (booked env d ch a) = new_row d ch a # ledger d"
  "next_ledger (booked env d ch a) = next_ledger d + 1"
  by (simp_all add: booked_def)

lemma db_balance_booked:
  "db_balance (booked env d ch a) u = (if u = ch_user ch then a else db_balance d u)"
  by (simp add: booked_def db_balance_def)

lemma new_row_simps [simp]:
  "l_user (new_row d ch a) = ch_user ch" "l_delta (new_row d ch a) = change_delta ch"
  "l_after (new_row d ch a) = a" "l_key (new_row d ch a) = ch_key ch"
  "l_id (new_row d ch a) = next_ledger d" "l_ref_type (new_row d ch a) = ch_ref_type ch"
  "l_ref_id (new_row d ch a) = ch_ref_id ch" "l_kind (new_row d ch a) = ch_kind ch"
  by (simp_all add: new_row_def)

lemma ledger_ok_booked:
  assumes "ledger_ok d" and "\<not> has_key d (ch_key ch)"
    and "a = db_balance d (ch_user ch) + change_delta ch"
  shows "ledger_ok (booked env d ch a)"
proof -
  note ok = assms(1) [unfolded ledger_ok_def]
  have "balances (booked env d ch a) (l_user r) \<noteq> None \<and> 0 < l_id r \<and> l_id r < next_ledger d + 1"
    if "r \<in> set (ledger (booked env d ch a))" for r
    using that ok by (auto simp: booked_def)
  moreover have "ch_key ch \<notin> l_key ` set (ledger d)" using assms(2) by (simp add: has_key_def)
  moreover have "chain_ok (ledger (booked env d ch a))" using ok assms(3) by simp
  moreover have "sorted_wrt (>) (map l_id (ledger (booked env d ch a)))" using ok by (auto)
  moreover have "db_balance (booked env d ch a) u = user_sum u (ledger (booked env d ch a))" for u
    using ok assms(3) by (simp add: db_balance_booked)
  ultimately show ?thesis
    using ok unfolding ledger_ok_def by simp
qed

lemma ApplyTx_ledger_ok:
  assumes "ApplyTx env d ch = Inr (r, d')" and "env_race env = None" and "ledger_ok d"
  shows "ledger_ok d'"
  using assms(1,2)
proof (cases rule: ApplyTx_success)
  case New
  with assms(3) show ?thesis
    by (auto intro!: ledger_ok_booked simp: has_key_def rounded_def)
qed (simp add: assms(3))

lemma ApplyTx_balance:
  assumes "ApplyTx env d ch = Inr (r, d')" and "env_race env = None"
  shows "db_balance d' u = db_balance d u +
    (if u = ch_user ch \<and> \<not> has_key d (ch_key ch) then change_delta (rounded env ch) else 0)"
  using assms
proof (cases rule: ApplyTx_success)
  case Dup
  then show ?thesis by simp
next
  case New
  then show ?thesis by (simp add: db_balance_booked rounded_def)
qed

lemma ApplyTx_frame:
  assumes "ApplyTx env d ch = Inr (r, d')" and "env_race env = None"
  shows "users d' = users d \<and> precharges d' = precharges d \<and> usage d' = usage d \<and>
    next_usage d' = next_usage d \<and> settlements d' = settlements d \<and> next_settle d' = next_settle d"
  using assms by (cases rule: ApplyTx_success) auto

lemma ApplyTx_ledger:
  assumes "ApplyTx env d ch = Inr (r, d')" and "env_race env = None"
  shows "ledger d' = (if has_key d (ch_key ch) then ledger d
    else new_row d (rounded env ch) (db_balance d (ch_user ch) + change_delta (rounded env ch)) # ledger d)"
  using assms by (cases rule: ApplyTx_success) (auto simp: new_row_def)

lemma ApplyTx_has_key:
  assumes "ApplyTx env d ch = Inr (r, d')" and "env_race env = None"
  shows "has_key d' k \<longleftrightarrow> k = ch_key ch \<or> has_key d k"
  using ApplyTx_ledger [OF assms] by (auto simp: has_key_def new_row_def rounded_def)

lemma findLedger_unique:
  "distinct (map l_key (ledger d)) \<Longrightarrow> row \<in> set (ledger d) \<Longrightarrow> l_key row = k \<Longrightarrow>
   findLedger d k = Some (dup_result row)"
  by (simp add: findLedger_def find_unique_key)

text \<open>Applying the same change again finds the row and changes nothing.\<close>

lemma ApplyTx_again:
  assumes "ApplyTx env d ch = Inr (r, d')" and "env_race env = None"
  shows "ApplyTx env d' ch = Inr (\<lparr>r_id = r_id r, r_after = r_after r, r_dup = True,
    r_user = ch_user ch, r_delta = change_delta (rounded env ch), r_kind = ch_kind ch\<rparr>, d')"
proof -
  have pre: "validateChange env ch = Inr ()" "\<not> env_fails env ''insert user_balances''"
    "\<not> env_fails env ''select balance for update''" "\<not> env_fails env ''find ledger''"
    using assms(1) by (simp_all add: ApplyTx_def Let_def err_simps ensure_balance_def lock_balance_def,
      auto)
  have bal: "balances d' (ch_user ch) \<noteq> None"
    using assms by (cases rule: ApplyTx_success) (auto simp: touch_balance booked_def rounded_def)
  then have ens: "ensure_balance env (ch_user ch) d' = Inr d'"
      "\<exists>b. lock_balance env (ch_user ch) d' = Inr b"
    using pre(2,3) by (auto simp: ensure_balance_def lock_balance_def stmt_def ensure_def)
  have ru: "ch_user (rounded env ch) = ch_user ch" "ch_key (rounded env ch) = ch_key ch"
    "ch_kind (rounded env ch) = ch_kind ch" by (simp_all add: rounded_def)
  from assms have "\<exists>dup. findLedger d' (ch_key ch) = Some dup \<and> reuse (rounded env ch) dup = Inr dup \<and>
      dup = \<lparr>r_id = r_id r, r_after = r_after r, r_dup = True,
    r_user = ch_user ch, r_delta = change_delta (rounded env ch), r_kind = ch_kind ch\<rparr>"
  proof (cases rule: ApplyTx_success)
    case (Dup dup)
    then show ?thesis
      by (auto simp: reuse_def ru findLedger_def dup_result_def split: if_splits)
  next
    case New
    then show ?thesis
      by (auto simp: findLedger_def dup_result_def new_row_def reuse_def ru change_delta_def)
  qed
  with pre ens show ?thesis
    by (auto simp: ApplyTx_def Let_def ru stmt_def ensure_def)
qed


subsection \<open>Properties\<close>

text \<open>Concrete tables for the witnesses: user 1 was granted 10.\<close>

definition demo_empty :: db where
  "demo_empty = \<lparr>users = [1, 2], balances = (\<lambda>_. None), ledger = [], next_ledger = 1,
     precharges = [], usage = [], next_usage = 1, settlements = [], next_settle = 1, events = []\<rparr>"

definition demo_change :: ledger_change where
  "demo_change = \<lparr>ch_user = 1, ch_amount = 10, ch_credit = True, ch_kind = ''admin_adjust'',
     ch_ref_type = [], ch_ref_id = [], ch_key = ''admin_adjust:1'', ch_operator = Some 7,
     ch_plugin = [], ch_note = []\<rparr>"

definition demo_env :: env where
  "demo_env = no_faults round_half_away8"

lemma demo_env_race [simp]: "env_race demo_env = None"
  by (simp add: demo_env_def no_faults_def)

lemma demo_empty_ok: "ledger_ok demo_empty"
  by (simp add: demo_empty_def ledger_ok_def db_balance_def)

lemma demo_apply:
  obtains r d' where "ApplyTx demo_env demo_empty demo_change = Inr (r, d')" "r_id r = 1"
proof -
  have "(case ApplyTx demo_env demo_empty demo_change of Inl _ \<Rightarrow> False | Inr (r, _) \<Rightarrow> r_id r = 1)"
    by code_simp
  then show ?thesis using that by (auto split: sum.splits)
qed

lemma demo_values:
  "\<not> has_key demo_empty (ch_key demo_change)" "change_delta (rounded demo_env demo_change) = 10"
  "db_balance demo_empty 1 = 0" "ch_user demo_change = 1"
  by code_simp+

text \<open>C2: A change applied by \<open>ApplyTx\<close> keeps the books: afterwards every ledger row's
  \<open>balance_after\<close> is still the sum of the user's deltas up to it, keys stay unique, ids grow and
  every stored balance is the sum of the user's ledger rows. Exactly the named user's balance moves,
  by the change_delta rounded amount, and not at all when the idempotency key is already booked.\<close>

theorem apply_keeps_books:
  assumes "ApplyTx env d ch = Inr (r, d')" and "env_race env = None" and "ledger_ok d"
  shows "ledger_ok d' \<and>
    (\<forall>u. db_balance d' u = db_balance d u +
      (if u = ch_user ch \<and> \<not> has_key d (ch_key ch) then change_delta (rounded env ch) else 0)) \<and>
    length (ledger d') = length (ledger d) + (if has_key d (ch_key ch) then 0 else 1)"
  using ApplyTx_ledger_ok [OF assms] ApplyTx_balance [OF assms(1,2)] ApplyTx_ledger [OF assms(1,2)]
  by simp

theorem apply_keeps_books_witness:
  "\<exists>r d'. ApplyTx demo_env demo_empty demo_change = Inr (r, d') \<and> ledger_ok d' \<and> db_balance d' 1 = 10"
proof -
  obtain r d' where run: "ApplyTx demo_env demo_empty demo_change = Inr (r, d')" by (rule demo_apply)
  from apply_keeps_books [OF run demo_env_race demo_empty_ok] demo_values run show ?thesis by auto
qed

text \<open>C3: Idempotency: once a change has been applied, applying the same change again succeeds,
  reports the first booking (its ledger id and balance) as a duplicate and leaves every table as it
  is, however often a request, a retry or a crashed worker repeats it.\<close>

theorem apply_twice_is_once:
  assumes "ApplyTx env d ch = Inr (r, d')" and "env_race env = None"
  shows "\<exists>r'. ApplyTx env d' ch = Inr (r', d') \<and> r_dup r' \<and> r_id r' = r_id r \<and> r_after r' = r_after r"
  using ApplyTx_again [OF assms] by simp

theorem apply_twice_is_once_witness:
  "\<exists>d'. \<exists>r'. ApplyTx demo_env d' demo_change = Inr (r', d') \<and> r_dup r' \<and> r_id r' = 1"
proof -
  obtain r d' where run: "ApplyTx demo_env demo_empty demo_change = Inr (r, d')" "r_id r = 1"
    by (rule demo_apply)
  from apply_twice_is_once [OF run(1) demo_env_race] run(2) show ?thesis by auto
qed

text \<open>An idempotency key that is already booked for another user, another signed amount or
  another kind is refused: \<open>ApplyTx\<close> returns an error, so the transaction rolls back and nothing
  changes.\<close>

lemma apply_reused_key_refused:
  assumes "ledger_ok d" and "row \<in> set (ledger d)" and "l_key row = ch_key ch"
    and "l_user row \<noteq> ch_user ch \<or> l_delta row \<noteq> change_delta (rounded env ch) \<or> l_kind row \<noteq> ch_kind ch"
  shows "\<exists>e. ApplyTx env d ch = Inl e"
proof -
  have "distinct (map l_key (ledger d))" using assms(1) by (simp add: ledger_ok_def)
  from findLedger_unique [OF this assms(2,3)] assms(4) have
    "findLedger d (ch_key ch) = Some (dup_result row)" "\<exists>e. reuse (rounded env ch) (dup_result row) = Inl e"
    by (auto simp: reuse_def dup_result_def rounded_def)
  then have "\<nexists>x. ApplyTx env d ch = Inr x"
    by (auto simp: ApplyTx_def Let_def err_simps rounded_def dest!: ensure_balance_Inr)
  then show ?thesis by (cases "ApplyTx env d ch") auto
qed

lemma apply_reused_key_refused_witness:
  "\<exists>row d e. row \<in> set (ledger d) \<and> ApplyTx demo_env d (demo_change\<lparr>ch_amount := 11\<rparr>) = Inl e"
proof -
  obtain r d' where run: "ApplyTx demo_env demo_empty demo_change = Inr (r, d')" by (rule demo_apply)
  define row where "row = new_row demo_empty (rounded demo_env demo_change) 10"
  have row: "row \<in> set (ledger d')"
    using ApplyTx_ledger [OF run demo_env_race] demo_values by (simp add: row_def)
  moreover have "l_key row = ch_key (demo_change\<lparr>ch_amount := 11\<rparr>)"
    by (simp add: row_def rounded_def)
  moreover have "l_delta row \<noteq> change_delta (rounded demo_env (demo_change\<lparr>ch_amount := 11\<rparr>))"
    unfolding row_def by code_simp
  ultimately show ?thesis
    using apply_reused_key_refused [OF ApplyTx_ledger_ok [OF run demo_env_race demo_empty_ok], of row]
    by blast
qed

end
