(* ===== verification/BalanceCache.thy ===== *)
theory BalanceCache
  imports Ledger
begin

section \<open>The balance cache (\<open>billing/ledger.go\<close>)\<close>

text \<open>
  \<open>Apply\<close>, \<open>Balance\<close> and \<open>CheckBalance\<close>: the database balance behind a Redis cache of
  versioned entries. The locale \<open>versioned_cache\<close> states what the Lua script promises; the
  step relation \<open>bstep\<close> interleaves commits, reads, cache writes, deletes and expiry of any
  number of processes, and its invariant says that a cached balance is always the balance the
  ledger had at the cached ledger id.
\<close>

subsection \<open>Operations\<close>

text \<open>
  One Redis string per user, \<open><ledger id>:<balance>\<close>, written by \<open>setBalanceScript\<close>. \<open>has_rdb\<close>
  is the nil check on the client; \<open>script_ok\<close> and \<open>del_ok\<close> are the outcomes of the two
  Redis calls.
\<close>

type_synonym cache = "int \<rightharpoonup> int \<times> rat"

definition setBalanceScript :: "cache \<Rightarrow> int \<Rightarrow> int \<Rightarrow> rat \<Rightarrow> cache" where
  "setBalanceScript c u i b =
     (case c u of
        Some (j, _) \<Rightarrow> if i < j then c else c(u \<mapsto> (i, b))
      | None \<Rightarrow> c(u \<mapsto> (i, b)))"

definition CacheBalance :: "bool \<Rightarrow> bool \<Rightarrow> bool \<Rightarrow> cache \<Rightarrow> int \<Rightarrow> int \<Rightarrow> rat \<Rightarrow> cache" where
  "CacheBalance has_rdb script_ok del_ok c u i b =
     (if \<not> has_rdb then c
      else if script_ok then setBalanceScript c u i b
      else if del_ok then c(u := None) else c)"

definition Apply :: "env \<Rightarrow> bool \<times> bool \<times> bool \<Rightarrow> db \<Rightarrow> cache \<Rightarrow> ledger_change \<Rightarrow>
    (err + ledger_result) \<times> db \<times> cache" where
  "Apply env rds d c ch =
     (case ApplyTx env d ch of
        Inl e \<Rightarrow> (Inl e, d, c)
      | Inr (res, d') \<Rightarrow>
          (Inr res, d',
           if r_dup res then c
           else (case rds of (has_rdb, script_ok, del_ok) \<Rightarrow>
             CacheBalance has_rdb script_ok del_ok c (ch_user ch) (r_id res) (r_after res))))"

text \<open>
  \<open>Balance\<close>: \<open>cached\<close> is the outcome of the Redis read, \<open>None\<close> when the key is missing, the
  value does not parse or the read fails; then the two subqueries run.
\<close>

definition Balance :: "env \<Rightarrow> bool \<times> bool \<times> bool \<Rightarrow> bool \<Rightarrow> db \<Rightarrow> cache \<Rightarrow> int \<Rightarrow> err + rat \<times> cache" where
  "Balance env rds read_ok d c u =
     (case (if fst rds \<and> read_ok then c u else None) of
        Some (_, b) \<Rightarrow> Inr (b, c)
      | None \<Rightarrow>
          and_then (stmt env ''select balance'') (\<lambda>_.
            case rds of (has_rdb, script_ok, del_ok) \<Rightarrow>
              Inr (db_balance d u,
                CacheBalance has_rdb script_ok del_ok c u (max_ledger_id d u) (db_balance d u))))"

definition meetsMin :: "rat \<Rightarrow> rat \<Rightarrow> bool" where
  "meetsMin balance m \<longleftrightarrow> m < balance"

definition CheckBalance :: "env \<Rightarrow> bool \<times> bool \<times> bool \<Rightarrow> bool \<Rightarrow> (err + rat) \<Rightarrow> db \<Rightarrow> cache \<Rightarrow> int \<Rightarrow>
    err + cache" where
  "CheckBalance env rds read_ok min_balance d c u =
     and_then (Balance env rds read_ok d c u) (\<lambda>(bal, c').
     and_then min_balance (\<lambda>m.
       if meetsMin bal m then Inr c' else Inl ErrInsufficientBalance))"


subsection \<open>The contract of the script\<close>

text \<open>
  An entry is replaced by a write that is at least as new, and by nothing else; a delete leaves
  nothing behind.
\<close>

locale versioned_cache =
  fixes get :: "'c \<Rightarrow> 'k \<Rightarrow> (int \<times> 'v) option"
    and put :: "'c \<Rightarrow> 'k \<Rightarrow> int \<Rightarrow> 'v \<Rightarrow> 'c"
    and del :: "'c \<Rightarrow> 'k \<Rightarrow> 'c"
  assumes get_put: "get (put c k i v) k' =
      (if k' = k \<and> (case get c k of None \<Rightarrow> True | Some (j, w) \<Rightarrow> j \<le> i) then Some (i, v) else get c k')"
    and get_del: "get (del c k) k' = (if k' = k then None else get c k')"
begin

lemma put_all:
  assumes "\<forall>k i v. get c k = Some (i, v) \<longrightarrow> ok k i v" and "ok k i v"
  shows "\<forall>k' i' v'. get (put c k i v) k' = Some (i', v') \<longrightarrow> ok k' i' v'"
  using assms by (simp add: get_put split: if_splits)

lemma del_all:
  assumes "\<forall>k i v. get c k = Some (i, v) \<longrightarrow> ok k i v"
  shows "\<forall>k' i' v'. get (del c k) k' = Some (i', v') \<longrightarrow> ok k' i' v'"
  using assms by (simp add: get_del)

lemma put_not_older: "get c k = Some (j, w) \<Longrightarrow> \<exists>i' v'. get (put c k' i v) k = Some (i', v') \<and> j \<le> i'"
  by (auto simp: get_put)

end

interpretation bc: versioned_cache "\<lambda>c u. c u" setBalanceScript "\<lambda>c u. c(u := None)"
  by unfold_locales (auto simp: setBalanceScript_def split: option.splits)


subsection \<open>Interleaved commits and cache writes\<close>

text \<open>
  A process commits first and writes the cache afterwards; \<open>Balance\<close> queries first and writes
  the cache afterwards. \<open>bs_owed\<close> holds the writes not yet done; a process that dies leaves its
  write undone for ever (\<open>Lose\<close>). \<open>Expire\<close> is the ten minute TTL.
\<close>

record bsys =
  bs_db :: db
  bs_cache :: cache
  bs_owed :: "(int \<times> int \<times> rat) list"

inductive bstep :: "bsys \<Rightarrow> bsys \<Rightarrow> bool" where
  Commit: "ApplyTx env (bs_db s) ch = Inr (r, d') \<Longrightarrow> env_race env = None \<Longrightarrow>
    bstep s (s\<lparr>bs_db := d',
      bs_owed := (if r_dup r then [] else [(ch_user ch, r_id r, r_after r)]) @ bs_owed s\<rparr>)"
| Observe: "bstep s (s\<lparr>bs_owed := (u, max_ledger_id (bs_db s) u, db_balance (bs_db s) u) # bs_owed s\<rparr>)"
| Write: "(u, i, b) \<in> set (bs_owed s) \<Longrightarrow>
    bstep s (s\<lparr>bs_cache := CacheBalance has_rdb script_ok del_ok (bs_cache s) u i b,
      bs_owed := remove1 (u, i, b) (bs_owed s)\<rparr>)"
| Lose: "bstep s (s\<lparr>bs_owed := remove1 x (bs_owed s)\<rparr>)"
| Expire: "bstep s (s\<lparr>bs_cache := (bs_cache s)(u := None)\<rparr>)"

inductive_cases bstepE: "bstep s t"

definition as_of :: "db \<Rightarrow> int \<Rightarrow> int \<Rightarrow> rat \<Rightarrow> bool" where
  "as_of d u i b \<longleftrightarrow> i < next_ledger d \<and> b = user_sum u (filter (\<lambda>r. l_id r \<le> i) (ledger d))"

definition cache_ok :: "bsys \<Rightarrow> bool" where
  "cache_ok s \<longleftrightarrow> ledger_ok (bs_db s) \<and>
     (\<forall>u i b. bs_cache s u = Some (i, b) \<longrightarrow> as_of (bs_db s) u i b) \<and>
     (\<forall>u i b. (u, i, b) \<in> set (bs_owed s) \<longrightarrow> as_of (bs_db s) u i b)"

lemma CacheBalance_all:
  assumes "\<forall>k i v. c k = Some (i, v) \<longrightarrow> ok k i v" and "ok u i b"
  shows "\<forall>k' i' v'. CacheBalance x y z c u i b k' = Some (i', v') \<longrightarrow> ok k' i' v'"
proof -
  note put = bc.put_all [of c ok u i b, OF assms] and del = bc.del_all [of c ok u, OF assms(1)]
  consider "CacheBalance x y z c u i b = c" | "CacheBalance x y z c u i b = setBalanceScript c u i b"
    | "CacheBalance x y z c u i b = c(u := None)"
    unfolding CacheBalance_def by (cases x; cases y; cases z) simp_all
  then show ?thesis
    using assms(1) put del by cases metis+
qed

lemma max_ledger_id_gen:
  "sorted_wrt (>) (map l_id rows) \<Longrightarrow> \<forall>r \<in> set rows. 0 < l_id r \<Longrightarrow>
   m = fold (\<lambda>r m. if l_user r = u \<and> m < l_id r then l_id r else m) rows m0 \<Longrightarrow>
   m0 \<le> m \<and> (\<forall>r \<in> set rows. l_user r = u \<longrightarrow> l_id r \<le> m)
   \<and> (m = m0 \<or> (\<exists>r \<in> set rows. m = l_id r))"
proof (induction rows arbitrary: m0)
  case (Cons r rows)
  define m1 where "m1 = (if l_user r = u \<and> m0 < l_id r then l_id r else m0)"
  have ih: "m1 \<le> m \<and> (\<forall>r \<in> set rows. l_user r = u \<longrightarrow> l_id r \<le> m) \<and>
      (m = m1 \<or> (\<exists>r \<in> set rows. m = l_id r))"
    by (rule Cons.IH) (use Cons.prems in \<open>simp_all add: m1_def\<close>)
  have m1: "m0 \<le> m1" "l_user r = u \<longrightarrow> l_id r \<le> m1" "m1 = m0 \<or> m1 = l_id r"
    by (simp_all add: m1_def)
  show ?case
    using ih m1 by (metis (no_types, lifting) list.set_intros(1) list.set_intros(2) order_trans set_ConsD)
qed simp

lemma max_ledger_id_bounds:
  assumes "ledger_ok d"
  shows "\<forall>r \<in> set (ledger d). l_user r = u \<longrightarrow> l_id r \<le> max_ledger_id d u"
    and "max_ledger_id d u < next_ledger d"
  using max_ledger_id_gen [of "ledger d" "max_ledger_id d u" u 0] assms
  by (auto simp: ledger_ok_def max_ledger_id_def)

lemma user_sum_filter_all:
  "\<forall>r \<in> set rows. l_user r = u \<longrightarrow> P r \<Longrightarrow> user_sum u (filter P rows) = user_sum u rows"
  by (induction rows) auto

lemma as_of_current:
  "ledger_ok d \<Longrightarrow> max_ledger_id d u \<le> i \<Longrightarrow> i < next_ledger d \<Longrightarrow> as_of d u i b \<longleftrightarrow> b = db_balance d u"
  using max_ledger_id_bounds [of d u] user_sum_filter_all [of "ledger d" u "\<lambda>r. l_id r \<le> i"]
  by (fastforce simp: as_of_def ledger_ok_def)

lemma as_of_ApplyTx:
  assumes "ApplyTx env d ch = Inr (r, d')" and "env_race env = None" and "as_of d u i b"
  shows "as_of d' u i b"
  using assms(1,2)
proof (cases rule: ApplyTx_success)
  case New
  with assms(3) show ?thesis by (simp add: as_of_def)
qed (use assms(3) in \<open>simp add: as_of_def\<close>)

lemma as_of_result:
  assumes "ApplyTx env d ch = Inr (r, d')" and "env_race env = None" and "\<not> r_dup r" and "ledger_ok d"
  shows "as_of d' (ch_user ch) (r_id r) (r_after r)"
  using assms(1,2)
proof (cases rule: ApplyTx_success)
  case (Dup dup)
  then have "r_dup r" by (auto simp: findLedger_def dup_result_def reuse_def split: if_splits)
  with assms(3) show ?thesis by simp
next
  case New
  have all: "\<forall>r \<in> set (ledger d). l_id r \<le> next_ledger d" using assms(4) by (auto simp: ledger_ok_def)
  then have "filter (\<lambda>r. l_id r \<le> next_ledger d) (ledger d) = ledger d" by simp
  with New assms(4) show ?thesis
    by (simp add: as_of_def ledger_ok_def rounded_def)
qed

lemma bstep_cache_ok: "bstep s t \<Longrightarrow> cache_ok s \<Longrightarrow> cache_ok t"
proof (induction rule: bstep.induct)
  case (Commit env s ch r d')
  then show ?case
    using ApplyTx_ledger_ok [OF Commit(1,2)] as_of_ApplyTx [OF Commit(1,2)]
      as_of_result [OF Commit(1,2)] by (auto simp: cache_ok_def)
next
  case (Observe s u)
  then have "as_of (bs_db s) u (max_ledger_id (bs_db s) u) (db_balance (bs_db s) u)"
    using max_ledger_id_bounds(2) by (subst as_of_current) (auto simp: cache_ok_def)
  with Observe show ?case by (simp add: cache_ok_def)
next
  case (Write u i b s has_rdb script_ok del_ok)
  then show ?case
    using CacheBalance_all [of "bs_cache s" "as_of (bs_db s)" u i b]
    by (auto simp: cache_ok_def dest!: set_remove1_subset [THEN subsetD])
next
  case (Lose s x)
  then show ?case by (auto simp: cache_ok_def dest!: set_remove1_subset [THEN subsetD])
next
  case (Expire s u)
  then show ?case by (auto simp: cache_ok_def)
qed

lemma bsteps_cache_ok: "bstep\<^sup>*\<^sup>* s t \<Longrightarrow> cache_ok s \<Longrightarrow> cache_ok t"
  by (induction rule: rtranclp_induct) (auto intro: bstep_cache_ok)


subsection \<open>Properties\<close>

text \<open>C16: Cache coherence under every interleaving: however commits, reads, late or lost cache
  writes, failed scripts, deletes and expiries of any number of processes interleave, a balance found
  in the cache under ledger id \<open>i\<close> is exactly the sum of the user's ledger rows up to \<open>i\<close>, and it is
  the current database balance as soon as \<open>i\<close> is at least the user's newest ledger id.\<close>

theorem cached_balance_is_historical:
  assumes "bstep\<^sup>*\<^sup>* s t" and "cache_ok s" and "bs_cache t u = Some (i, b)"
  shows "b = user_sum u (filter (\<lambda>r. l_id r \<le> i) (ledger (bs_db t))) \<and>
    (max_ledger_id (bs_db t) u \<le> i \<longrightarrow> b = db_balance (bs_db t) u)"
proof -
  from bsteps_cache_ok [OF assms(1,2)] assms(3)
  have "as_of (bs_db t) u i b" "ledger_ok (bs_db t)" by (auto simp: cache_ok_def)
  with as_of_current [of "bs_db t" u i b] show ?thesis by (auto simp: as_of_def)
qed

definition demo_bsys :: bsys where
  "demo_bsys = \<lparr>bs_db = demo_empty, bs_cache = (\<lambda>_. None), bs_owed = []\<rparr>"

theorem cached_balance_is_historical_witness:
  "\<exists>t. bstep\<^sup>*\<^sup>* demo_bsys t \<and> bs_cache t 1 = Some (0, 0) \<and>
     0 = user_sum 1 (filter (\<lambda>r. l_id r \<le> 0) (ledger (bs_db t)))"
proof -
  let ?o = "demo_bsys\<lparr>bs_owed := (1, max_ledger_id (bs_db demo_bsys) 1, db_balance (bs_db demo_bsys) 1) # bs_owed demo_bsys\<rparr>"
  let ?w = "?o\<lparr>bs_cache := CacheBalance True True True (bs_cache ?o) 1 0 0, bs_owed := remove1 (1, 0, 0) (bs_owed ?o)\<rparr>"
  have vals: "max_ledger_id (bs_db demo_bsys) 1 = 0" "db_balance (bs_db demo_bsys) 1 = 0"
    by code_simp+
  have "bstep demo_bsys ?o" by (rule bstep.Observe)
  moreover have "bstep ?o ?w" by (rule bstep.Write) (simp add: vals)
  ultimately have run: "bstep\<^sup>*\<^sup>* demo_bsys ?w" by simp
  have ok: "cache_ok demo_bsys"
    using demo_empty_ok by (simp add: cache_ok_def demo_bsys_def)
  have val: "bs_cache ?w 1 = Some (0, 0)"
    by (simp add: demo_bsys_def CacheBalance_def setBalanceScript_def)
  from cached_balance_is_historical [OF run ok val] run val show ?thesis by blast
qed

text \<open>The balance gate: when \<open>CheckBalance\<close> lets a user pass in a reachable state, some balance
  the ledger really had at the observed ledger id was strictly above the configured minimum.\<close>

lemma gate_passes_only_above_minimum:
  assumes "bstep\<^sup>*\<^sup>* s t" and "cache_ok s"
    and "CheckBalance env rds read_ok (Inr m) (bs_db t) (bs_cache t) u = Inr c'"
  shows "\<exists>i. m < user_sum u (filter (\<lambda>r. l_id r \<le> i) (ledger (bs_db t)))"
proof -
  from bsteps_cache_ok [OF assms(1,2)] have ok: "cache_ok t" .
  from assms(3) obtain b where b: "Balance env rds read_ok (bs_db t) (bs_cache t) u = Inr (b, c')" "m < b"
    by (auto simp: CheckBalance_def err_simps meetsMin_def split: if_splits)
  show ?thesis
  proof (cases "if fst rds \<and> read_ok then bs_cache t u else None")
    case (Some a)
    then have "bs_cache t u = Some (fst a, b)" using b(1) by (auto simp: Balance_def split: if_splits prod.splits)
    with ok b(2) show ?thesis by (auto simp: cache_ok_def as_of_def)
  next
    case None
    then have "b = db_balance (bs_db t) u"
      using b(1) by (auto simp: Balance_def err_simps split: prod.splits)
    moreover have "as_of (bs_db t) u (max_ledger_id (bs_db t) u) (db_balance (bs_db t) u)"
      using ok max_ledger_id_bounds(2) by (subst as_of_current) (auto simp: cache_ok_def)
    ultimately show ?thesis using b(2) by (auto simp: as_of_def)
  qed
qed

lemma gate_passes_only_above_minimum_witness:
  "\<exists>c'. CheckBalance demo_env (True, True, True) True (Inr (-1)) (bs_db demo_bsys) (bs_cache demo_bsys) 1 = Inr c' \<and>
    (\<exists>i. -1 < user_sum 1 (filter (\<lambda>r. l_id r \<le> i) (ledger (bs_db demo_bsys))))"
proof -
  have "\<not> isl (CheckBalance demo_env (True, True, True) True (Inr (-1)) (bs_db demo_bsys) (bs_cache demo_bsys) 1)"
    by code_simp
  then obtain c' where run:
    "CheckBalance demo_env (True, True, True) True (Inr (-1)) (bs_db demo_bsys) (bs_cache demo_bsys) 1 = Inr c'"
    by (auto simp: isl_def split: sum.splits) (metis sum.exhaust)
  have ok: "cache_ok demo_bsys"
    using demo_empty_ok by (simp add: cache_ok_def demo_bsys_def)
  from gate_passes_only_above_minimum [OF rtranclp.rtrancl_refl ok run] run show ?thesis by blast
qed

end
