(* ===== verification/HostLedger.thy ===== *)
theory HostLedger
  imports BalanceCache GoStrings
begin

section \<open>Balance changes by plugins (\<open>plugin/grpcruntime/host.go\<close>)\<close>

text \<open>
  \<open>LedgerCredit\<close> and \<open>LedgerDebit\<close>, the only way a plugin moves money: the grant is checked, the
  amount is checked against the approved limit of one call, reserved in a Redis counter against the
  approved limit of a day, and then applied to the core ledger under a key that carries the
  plugin's name. \<open>hstep\<close> interleaves the calls of any number of instances, split where the
  code talks to Redis and to PostgreSQL; the invariant bounds what a plugin can credit in a day.
\<close>

subsection \<open>Requests, grants and the state\<close>

text \<open>
  \<open>pc_amount\<close> is the amount text as \<open>decimal.NewFromString\<close> reads it, \<open>None\<close> when it is no number.
  A scope maps a field that is present and not null to its number, or to \<open>None\<close> when it is
  malformed. \<open>he_current\<close> is the answer of the query for the current grant, \<open>None\<close> when it fails.
\<close>

record plugin_change =
  pc_user :: int
  pc_amount :: "rat option"
  pc_ref_type :: string
  pc_ref_id :: string
  pc_key :: string
  pc_note :: string

datatype host_err = HUnavailable string | HInvalid string | HDenied string | HLedger err

type_synonym grant_scope = "string \<rightharpoonup> rat option"

datatype redis_reply = Answered | ReplyLost | NotReached

record host_env =
  he_key :: string
  he_grants :: "string \<rightharpoonup> grant_scope"
  he_has_db :: bool
  he_current :: "string \<Rightarrow> bool option"
  he_has_ledger :: bool
  he_day :: string
  he_incr :: redis_reply
  he_decr :: bool
  he_apply :: env
  he_rds :: "bool \<times> bool \<times> bool"

record host =
  ho_db :: db
  ho_cache :: cache
  ho_daily :: "string \<Rightarrow> int"

definition LedgerMaxIdemKey :: nat where
  "LedgerMaxIdemKey = 100"

subsection \<open>The checks\<close>

definition require :: "host_env \<Rightarrow> string \<Rightarrow> host_err + unit" where
  "require he perm =
     (if he_grants he perm = None then Inl (HDenied ''no grant'')
      else if \<not> he_has_db he then Inr ()
      else case he_current he perm of
          None \<Rightarrow> Inl (HUnavailable ''cannot verify current plugin grant'')
        | Some ok \<Rightarrow> if ok then Inr () else Inl (HDenied ''grant was revoked or changed''))"

definition perm_of :: "bool \<Rightarrow> string" where
  "perm_of credit = (if credit then ''ledger.credit'' else ''ledger.debit'')"

definition kind_of :: "bool \<Rightarrow> string" where
  "kind_of credit = (if credit then ''plugin_credit'' else ''plugin_debit'')"

definition scope_of :: "host_env \<Rightarrow> string \<Rightarrow> grant_scope" where
  "scope_of he perm = (case he_grants he perm of None \<Rightarrow> (\<lambda>_. None) | Some sc \<Rightarrow> sc)"

definition scopeDecimal :: "grant_scope \<Rightarrow> string \<Rightarrow> rat option" where
  "scopeDecimal sc field =
     (case sc field of None \<Rightarrow> None | Some None \<Rightarrow> Some 0 | Some (Some d) \<Rightarrow> Some d)"

definition core_change :: "host_env \<Rightarrow> bool \<Rightarrow> plugin_change \<Rightarrow> rat \<Rightarrow> ledger_change" where
  "core_change he credit pc amount =
     \<lparr>ch_user = pc_user pc, ch_amount = amount, ch_credit = credit, ch_kind = kind_of credit,
       ch_ref_type = (if pc_ref_type pc = [] then ''plugin'' else pc_ref_type pc),
       ch_ref_id = pc_ref_id pc,
       ch_key = ''plugin:'' @ he_key he @ '':'' @ trimSpace (pc_key pc),
       ch_operator = None, ch_plugin = he_key he, ch_note = pc_note pc\<rparr>"

definition check_change :: "host_env \<Rightarrow> bool \<Rightarrow> plugin_change \<Rightarrow> host_err + ledger_change" where
  "check_change he credit pc =
     and_then (require he (perm_of credit)) (\<lambda>_.
     and_then (ensure (he_has_ledger he) (HUnavailable ''ledger unavailable'')) (\<lambda>_.
     and_then (ensure (0 < pc_user pc) (HInvalid ''user_id is required'')) (\<lambda>_.
     and_then (ensure (trimSpace (pc_key pc) \<noteq> [] \<and> length (trimSpace (pc_key pc)) \<le> LedgerMaxIdemKey)
       (HInvalid ''idempotency_key is required'')) (\<lambda>_.
     case pc_amount pc of
       None \<Rightarrow> Inl (HInvalid ''amount must be a positive decimal with at most 8 decimals'')
     | Some amount \<Rightarrow>
        and_then (ensure (0 < amount \<and> amount = env_round8 (he_apply he) amount)
          (HInvalid ''amount must be a positive decimal with at most 8 decimals'')) (\<lambda>_.
        case scopeDecimal (scope_of he (perm_of credit)) ''maxPerTx'' of
          Some limit \<Rightarrow>
            if limit < amount then Inl (HDenied ''amount exceeds the approved maxPerTx'')
            else Inr (core_change he credit pc amount)
        | None \<Rightarrow> Inr (core_change he credit pc amount))))))"

subsection \<open>The daily counter\<close>

text \<open>
  \<open>Decimal.IntPart\<close> truncates to the low 64 bits of the integer part. A Redis \<open>INCRBY\<close> that would
  leave the range of 64 bits is an error; one whose reply is lost has counted all the same.
\<close>

definition int_part :: "rat \<Rightarrow> int" where
  "int_part x = wrap64 (if 0 \<le> x then \<lfloor>x\<rfloor> else - \<lfloor>- x\<rfloor>)"

definition daily_units :: "rat \<Rightarrow> int" where
  "daily_units amount = int_part (amount * 100000000)"

definition in64 :: "int \<Rightarrow> bool" where
  "in64 x \<longleftrightarrow> - 9223372036854775808 \<le> x \<and> x \<le> 9223372036854775807"

definition daily_key :: "string \<Rightarrow> bool \<Rightarrow> string \<Rightarrow> string" where
  "daily_key plugin credit day =
     ''plugin:ledger:'' @ plugin @ '':'' @ (if credit then ''credit'' else ''debit'') @ '':'' @ day"

definition incr_daily :: "redis_reply \<Rightarrow> string \<Rightarrow> int \<Rightarrow> host \<Rightarrow> int option \<times> host" where
  "incr_daily reply k n h =
     (let used = ho_daily h k + n; counted = h\<lparr>ho_daily := (ho_daily h)(k := used)\<rparr> in
      if \<not> in64 used then (None, h)
      else case reply of
          Answered \<Rightarrow> (Some used, counted)
        | ReplyLost \<Rightarrow> (None, counted)
        | NotReached \<Rightarrow> (None, h))"

definition release_daily :: "bool \<Rightarrow> string \<Rightarrow> int \<Rightarrow> host \<Rightarrow> host" where
  "release_daily reached k n h =
     (if reached \<and> in64 (ho_daily h k - n)
      then h\<lparr>ho_daily := (ho_daily h)(k := ho_daily h k - n)\<rparr> else h)"

subsection \<open>The call\<close>

definition apply_change :: "host_env \<Rightarrow> (string \<times> int) option \<Rightarrow> ledger_change \<Rightarrow> host \<Rightarrow>
    (host_err + ledger_result) \<times> host" where
  "apply_change he release ch h =
     (case Apply (he_apply he) (he_rds he) (ho_db h) (ho_cache h) ch of
        (res, d, c) \<Rightarrow>
          (let h' = h\<lparr>ho_db := d, ho_cache := c\<rparr>;
               freed = (case release of None \<Rightarrow> h' | Some (k, n) \<Rightarrow> release_daily (he_decr he) k n h')
           in case res of
                Inl e \<Rightarrow> (Inl (HLedger e), freed)
              | Inr r \<Rightarrow> (Inr r, if r_dup r then freed else h')))"

definition host_ledger :: "host_env \<Rightarrow> bool \<Rightarrow> plugin_change \<Rightarrow> host \<Rightarrow>
    (host_err + ledger_result) \<times> host" where
  "host_ledger he credit pc h =
     (case check_change he credit pc of
        Inl e \<Rightarrow> (Inl e, h)
      | Inr ch \<Rightarrow>
          (case scopeDecimal (scope_of he (perm_of credit)) ''maxPerDay'' of
             None \<Rightarrow> apply_change he None ch h
           | Some limit \<Rightarrow>
               (let k = daily_key (he_key he) credit (he_day he); n = daily_units (ch_amount ch) in
                case incr_daily (he_incr he) k n h of
                  (None, h') \<Rightarrow> (Inl (HUnavailable ''ledger limiter unavailable''), h')
                | (Some used, h') \<Rightarrow>
                    if daily_units limit < used
                    then (Inl (HDenied ''daily limit exceeded''), release_daily (he_decr he) k n h')
                    else apply_change he (Some (k, n)) ch h')))"

definition LedgerCredit :: "host_env \<Rightarrow> plugin_change \<Rightarrow> host \<Rightarrow> (host_err + ledger_result) \<times> host" where
  "LedgerCredit he = host_ledger he True"

definition LedgerDebit :: "host_env \<Rightarrow> plugin_change \<Rightarrow> host \<Rightarrow> (host_err + ledger_result) \<times> host" where
  "LedgerDebit he = host_ledger he False"


subsection \<open>Interleaved calls\<close>

text \<open>
  One direction of one plugin during one UTC day, with its approved limits: \<open>dl_day_limit\<close> is
  \<open>maxPerDay\<close>, \<open>dl_tx_limit\<close> is \<open>maxPerTx\<close>, \<open>dl_round\<close> the decimal package's \<open>Round(8)\<close>.
\<close>

record daily_setting =
  dl_plugin :: string
  dl_credit :: bool
  dl_day :: string
  dl_day_limit :: rat
  dl_tx_limit :: rat
  dl_round :: "rat \<Rightarrow> rat"

definition runs_under :: "daily_setting \<Rightarrow> host_env \<Rightarrow> bool" where
  "runs_under dl he \<longleftrightarrow>
     he_key he = dl_plugin dl \<and> he_day he = dl_day dl \<and> env_round8 (he_apply he) = dl_round dl \<and>
     env_race (he_apply he) = None \<and>
     scopeDecimal (scope_of he (perm_of (dl_credit dl))) ''maxPerTx'' = Some (dl_tx_limit dl) \<and>
     scopeDecimal (scope_of he (perm_of (dl_credit dl))) ''maxPerDay'' = Some (dl_day_limit dl)"

definition dl_key :: "daily_setting \<Rightarrow> string" where
  "dl_key dl = daily_key (dl_plugin dl) (dl_credit dl) (dl_day dl)"

text \<open>A call that has counted itself: its change and the total the counter answered.\<close>

record flight =
  fl_change :: ledger_change
  fl_total :: int

definition fl_units :: "flight \<Rightarrow> int" where
  "fl_units f = daily_units (ch_amount (fl_change f))"

record hsys =
  hs_host :: host
  hs_flights :: "flight list"

inductive hstep :: "daily_setting \<Rightarrow> hsys \<Rightarrow> hsys \<Rightarrow> bool" for dl where
  h_count: "runs_under dl he \<Longrightarrow> check_change he (dl_credit dl) pc = Inr ch \<Longrightarrow>
    incr_daily (he_incr he) (dl_key dl) (daily_units (ch_amount ch)) (hs_host s) = (Some used, h') \<Longrightarrow>
    hstep dl s (s\<lparr>hs_host := h', hs_flights := \<lparr>fl_change = ch, fl_total = used\<rparr> # hs_flights s\<rparr>)"
| h_unanswered: "runs_under dl he \<Longrightarrow> check_change he (dl_credit dl) pc = Inr ch \<Longrightarrow>
    incr_daily (he_incr he) (dl_key dl) (daily_units (ch_amount ch)) (hs_host s) = (None, h') \<Longrightarrow>
    hstep dl s (s\<lparr>hs_host := h'\<rparr>)"
| h_refuse: "f \<in> set (hs_flights s) \<Longrightarrow> daily_units (dl_day_limit dl) < fl_total f \<Longrightarrow>
    hstep dl s (s\<lparr>hs_host := release_daily reached (dl_key dl) (fl_units f) (hs_host s),
      hs_flights := remove1 f (hs_flights s)\<rparr>)"
| h_apply: "f \<in> set (hs_flights s) \<Longrightarrow> \<not> daily_units (dl_day_limit dl) < fl_total f \<Longrightarrow>
    runs_under dl he \<Longrightarrow>
    apply_change he (Some (dl_key dl, fl_units f)) (fl_change f) (hs_host s) = (res, h') \<Longrightarrow>
    hstep dl s (s\<lparr>hs_host := h', hs_flights := remove1 f (hs_flights s)\<rparr>)"
| h_die: "hstep dl s (s\<lparr>hs_flights := remove1 f (hs_flights s)\<rparr>)"
| h_other: "ApplyTx env (ho_db (hs_host s)) ch = Inr (r, d') \<Longrightarrow> env_race env = None \<Longrightarrow>
    ch_plugin ch \<noteq> dl_plugin dl \<or> ch_credit ch \<noteq> dl_credit dl \<Longrightarrow>
    hstep dl s (s\<lparr>hs_host := (hs_host s)\<lparr>ho_db := d', ho_cache := c'\<rparr>\<rparr>)"

inductive_cases hstepE: "hstep dl s t"

text \<open>A call alone is a run of these steps.\<close>

lemma host_ledger_is_steps:
  assumes he: "runs_under dl he" and run: "host_ledger he (dl_credit dl) pc h = (res, h')"
  shows "(hstep dl)\<^sup>*\<^sup>* \<lparr>hs_host = h, hs_flights = fs\<rparr> \<lparr>hs_host = h', hs_flights = fs\<rparr>"
proof (cases "check_change he (dl_credit dl) pc")
  case (Inl e)
  with run show ?thesis by (simp add: host_ledger_def)
next
  case (Inr ch)
  let ?n = "daily_units (ch_amount ch)"
  have k: "daily_key (he_key he) (dl_credit dl) (he_day he) = dl_key dl"
    and lim: "scopeDecimal (scope_of he (perm_of (dl_credit dl))) ''maxPerDay'' = Some (dl_day_limit dl)"
    using he by (simp_all add: runs_under_def dl_key_def)
  obtain answer h1 where inc: "incr_daily (he_incr he) (dl_key dl) ?n h = (answer, h1)" by fastforce
  show ?thesis
  proof (cases answer)
    case None
    with inc Inr run lim k have "h' = h1" by (simp add: host_ledger_def Let_def)
    with h_unanswered [OF he Inr, of "\<lparr>hs_host = h, hs_flights = fs\<rparr>" h'] inc None show ?thesis by auto
  next
    case (Some used)
    let ?f = "\<lparr>fl_change = ch, fl_total = used\<rparr>"
    let ?mid = "\<lparr>hs_host = h1, hs_flights = ?f # fs\<rparr>"
    have n: "fl_units ?f = ?n" by (simp add: fl_units_def)
    have one: "hstep dl \<lparr>hs_host = h, hs_flights = fs\<rparr> ?mid"
      using h_count [OF he Inr, of "\<lparr>hs_host = h, hs_flights = fs\<rparr>" used h1] inc Some by simp
    have "hstep dl ?mid \<lparr>hs_host = h', hs_flights = fs\<rparr>"
    proof (cases "daily_units (dl_day_limit dl) < used")
      case True
      with inc Inr run lim k Some have "h' = release_daily (he_decr he) (dl_key dl) ?n h1"
        by (simp add: host_ledger_def Let_def)
      with True h_refuse [of ?f ?mid dl "he_decr he"] n show ?thesis by simp
    next
      case False
      with inc Inr run lim k Some have "apply_change he (Some (dl_key dl, ?n)) ch h1 = (res, h')"
        by (simp add: host_ledger_def Let_def)
      with False h_apply [of ?f ?mid dl he res h'] he n show ?thesis by simp
    qed
    with one show ?thesis by (meson converse_rtranclp_into_rtranclp r_into_rtranclp)
  qed
qed


subsection \<open>The limit of a day\<close>

text \<open>What the plugin has moved in this direction, according to the core ledger.\<close>

definition plugin_total :: "daily_setting \<Rightarrow> db \<Rightarrow> rat" where
  "plugin_total dl d = sum_list (map (\<lambda>r. \<bar>l_delta r\<bar>)
     (filter (\<lambda>r. l_plugin r = dl_plugin dl \<and> (0 < l_delta r \<longleftrightarrow> dl_credit dl)) (ledger d)))"

definition places8 :: "(rat \<Rightarrow> rat) \<Rightarrow> bool" where
  "places8 r \<longleftrightarrow> (\<forall>x. \<exists>n :: int. r x * 100000000 = of_int n)"

lemma places8_half_away: "places8 round_half_away8"
proof -
  have "\<exists>n :: int. round_half_away8 x * 100000000 = of_int n" for x
    by (cases "0 \<le> x") (auto simp: round_half_away8_def intro: exI [of _ "\<lfloor>x * 100000000 + 1 / 2\<rfloor>"]
      exI [of _ "- \<lfloor>- x * 100000000 + 1 / 2\<rfloor>"])
  then show ?thesis by (simp add: places8_def)
qed

lemma wrap64_le: "- 9223372036854775808 \<le> x \<Longrightarrow> wrap64 x \<le> x"
  by (simp add: wrap64_def signed_of_int signed_take_bit_int_less_eq_self_iff)

lemma wrap64_id: "in64 x \<Longrightarrow> wrap64 x = x"
  by (simp add: wrap64_def in64_def signed_of_int signed_take_bit_int_eq_self)

lemma daily_units_le: "0 \<le> m \<Longrightarrow> of_int (daily_units m) \<le> m * 100000000"
proof -
  assume "0 \<le> m"
  then have "daily_units m \<le> \<lfloor>m * 100000000\<rfloor>" "0 \<le> \<lfloor>m * 100000000\<rfloor>"
    using wrap64_le [of "\<lfloor>m * 100000000\<rfloor>"] by (auto simp: daily_units_def int_part_def intro: order_trans)
  then show ?thesis using le_floor_iff by blast
qed

lemma daily_units_exact:
  assumes "places8 rnd" and "rnd a = a" and "0 < a" and "a \<le> 92233720368"
  shows "of_int (daily_units a) = a * 100000000" and "0 \<le> daily_units a"
proof -
  obtain n :: int where n: "a * 100000000 = of_int n" using assms(1,2) unfolding places8_def by metis
  have "a * 100000000 \<le> 92233720368 * 100000000" using assms(4) by simp
  then have up: "n \<le> 9223372036800000000" unfolding n by linarith
  have low: "0 \<le> n" using n assms(3) by (metis less_imp_le mult_pos_pos of_int_0_le_iff zero_less_numeral)
  from n low have "daily_units a = wrap64 n" by (simp add: daily_units_def int_part_def)
  also have "\<dots> = n" using up low by (intro wrap64_id) (simp add: in64_def)
  finally show "of_int (daily_units a) = a * 100000000" "0 \<le> daily_units a" using n low by simp_all
qed

lemma plugin_total_ApplyTx:
  assumes "ApplyTx env d ch = Inr (r, d')" and "env_race env = None"
  shows "plugin_total dl d' = plugin_total dl d +
    (if \<not> has_key d (ch_key ch) \<and> ch_plugin ch = dl_plugin dl \<and>
        (0 < change_delta (rounded env ch) \<longleftrightarrow> dl_credit dl)
     then \<bar>change_delta (rounded env ch)\<bar> else 0)"
  using ApplyTx_ledger [OF assms] by (auto simp: plugin_total_def new_row_def rounded_def)

lemma ApplyTx_dup_iff:
  assumes "ApplyTx env d ch = Inr (r, d')" and "env_race env = None"
  shows "r_dup r \<longleftrightarrow> has_key d (ch_key ch)"
  using assms
proof (cases rule: ApplyTx_success)
  case (Dup dup)
  then show ?thesis by (auto simp: reuse_def findLedger_def dup_result_def split: if_splits)
qed simp

lemma ApplyTx_valid: "ApplyTx env d ch = Inr x \<Longrightarrow> 0 < ch_amount ch \<and> env_round8 env (ch_amount ch) = ch_amount ch"
  by (auto simp: ApplyTx_def validateChange_def err_simps Let_def split: if_splits)

definition own_flight :: "daily_setting \<Rightarrow> flight \<Rightarrow> bool" where
  "own_flight dl f \<longleftrightarrow> ch_plugin (fl_change f) = dl_plugin dl \<and> ch_credit (fl_change f) = dl_credit dl \<and>
     0 < ch_amount (fl_change f) \<and> of_int (fl_units f) = ch_amount (fl_change f) * 100000000 \<and> 0 \<le> fl_units f"

text \<open>\<open>apply_change\<close> either leaves the total and may release the units, or adds the amount and keeps them.\<close>

lemma apply_change_total:
  assumes run: "apply_change he (Some (k, n)) ch h = (res, h')" and race: "env_race (he_apply he) = None"
    and own: "ch_plugin ch = dl_plugin dl" "ch_credit ch = dl_credit dl"
  shows "plugin_total dl (ho_db h') = plugin_total dl (ho_db h) \<and>
      (ho_daily h' = ho_daily h \<or> ho_daily h' = (ho_daily h)(k := ho_daily h k - n)) \<or>
    plugin_total dl (ho_db h') = plugin_total dl (ho_db h) + ch_amount ch \<and> ho_daily h' = ho_daily h"
proof (cases "ApplyTx (he_apply he) (ho_db h) ch")
  case (Inl e)
  with run have "ho_db h' = ho_db h"
    "ho_daily h' = ho_daily h \<or> ho_daily h' = (ho_daily h)(k := ho_daily h k - n)"
    by (auto simp: apply_change_def Apply_def Let_def release_daily_def split: if_splits)
  then show ?thesis by simp
next
  case (Inr x)
  then obtain r d' where tx: "ApplyTx (he_apply he) (ho_db h) ch = Inr (r, d')" by (cases x) auto
  obtain d c where ap: "Apply (he_apply he) (he_rds he) (ho_db h) (ho_cache h) ch = (Inr r, d', c)"
    using tx by (auto simp: Apply_def split: prod.splits)
  have amt: "0 < ch_amount ch" "rounded (he_apply he) ch = ch"
    using ApplyTx_valid [OF tx] by (simp_all add: rounded_def)
  have tot: "plugin_total dl d' = plugin_total dl (ho_db h) + (if r_dup r then 0 else ch_amount ch)"
    using plugin_total_ApplyTx [OF tx race, of dl] ApplyTx_dup_iff [OF tx race] amt own
    by (auto simp: change_delta_def)
  from run ap have db: "ho_db h' = d'"
    and daily: "ho_daily h' = ho_daily h \<or> r_dup r \<and> ho_daily h' = (ho_daily h)(k := ho_daily h k - n)"
    by (auto simp: apply_change_def Let_def release_daily_def split: if_splits)
  from db daily tot show ?thesis by (cases "r_dup r") auto
qed

definition weight :: "flight list \<Rightarrow> rat" where
  "weight fs = sum_list (map (\<lambda>f. of_int (fl_units f)) fs)"

lemma weight_simps [simp]: "weight [] = 0" "weight (f # fs) = of_int (fl_units f) + weight fs"
  by (simp_all add: weight_def)

lemma weight_remove1: "f \<in> set fs \<Longrightarrow> weight (remove1 f fs) = weight fs - of_int (fl_units f)"
  by (simp add: weight_def sum_list_map_remove1 [of f fs])

lemma weight_nonneg: "\<forall>f \<in> set fs. 0 \<le> fl_units f \<Longrightarrow> 0 \<le> weight fs"
  by (induction fs) auto

definition passed :: "daily_setting \<Rightarrow> flight list \<Rightarrow> flight list" where
  "passed dl = filter (\<lambda>f. \<not> daily_units (dl_day_limit dl) < fl_total f)"

lemma passed_remove1: "passed dl (remove1 f fs) = remove1 f (passed dl fs)"
  by (simp add: passed_def filter_remove1)

lemma weight_passed_le:
  assumes "\<forall>f \<in> set fs. 0 \<le> fl_units f"
  shows "weight (passed dl fs) \<le> weight fs"
  using assms by (induction fs) (auto simp: passed_def)

text \<open>
  What was moved since the start, with everything still under way, never exceeds the counter; with
  what was let through, it never exceeds the limit.
\<close>

definition cap_ok :: "daily_setting \<Rightarrow> rat \<Rightarrow> hsys \<Rightarrow> bool" where
  "cap_ok dl base s \<longleftrightarrow>
     (\<forall>f \<in> set (hs_flights s). own_flight dl f) \<and>
     (plugin_total dl (ho_db (hs_host s)) - base) * 100000000 + weight (hs_flights s)
       \<le> of_int (ho_daily (hs_host s) (dl_key dl)) \<and>
     (plugin_total dl (ho_db (hs_host s)) - base) * 100000000 + weight (passed dl (hs_flights s))
       \<le> dl_day_limit dl * 100000000"

lemma check_change_own:
  assumes "check_change he (dl_credit dl) pc = Inr ch" and "runs_under dl he"
    and "places8 (dl_round dl)" and "dl_tx_limit dl \<le> 92233720368"
  shows "own_flight dl \<lparr>fl_change = ch, fl_total = t\<rparr>"
proof -
  from assms(1,2) obtain amount where ch: "ch = core_change he (dl_credit dl) pc amount"
    and a: "0 < amount" "dl_round dl amount = amount" "amount \<le> dl_tx_limit dl"
    by (auto simp: check_change_def err_simps runs_under_def split: option.splits if_splits)
  have "amount \<le> 92233720368" using a(3) assms(4) by simp
  from daily_units_exact [OF assms(3) a(2,1) this] ch a assms(2) show ?thesis
    by (simp add: own_flight_def core_change_def fl_units_def runs_under_def)
qed

lemma incr_daily_host:
  assumes "incr_daily reply k n h = (answer, h')"
  shows "ho_db h' = ho_db h \<and> (ho_daily h' = ho_daily h \<and> answer = None \<or>
    ho_daily h' = (ho_daily h)(k := ho_daily h k + n) \<and> (\<forall>t. answer = Some t \<longrightarrow> t = ho_daily h k + n))"
  using assms by (auto simp: incr_daily_def Let_def split: if_splits redis_reply.splits)

lemma sub_weight:
  assumes "\<forall>f \<in> set fs. own_flight dl f"
  shows "weight (remove1 f fs) \<le> weight fs" and "weight (remove1 f (passed dl fs)) \<le> weight (passed dl fs)"
proof -
  have "weight (remove1 f gs) \<le> weight gs" if "set gs \<subseteq> set fs" for gs
  proof (cases "f \<in> set gs")
    case True
    with that assms have "0 \<le> fl_units f" by (auto simp: own_flight_def)
    with True show ?thesis by (simp add: weight_remove1)
  qed (simp add: remove1_idem)
  then show "weight (remove1 f fs) \<le> weight fs" "weight (remove1 f (passed dl fs)) \<le> weight (passed dl fs)"
    by (auto simp: passed_def)
qed

lemma cap_ok_step:
  assumes step: "hstep dl s t" and ok: "cap_ok dl base s" and lim: "0 \<le> dl_day_limit dl"
    and r8: "places8 (dl_round dl)" and tx: "dl_tx_limit dl \<le> 92233720368"
  shows "cap_ok dl base t"
proof -
  have own: "\<forall>f \<in> set (hs_flights s). own_flight dl f" using ok by (simp add: cap_ok_def)
  then have rest: "\<forall>f \<in> set (remove1 g (hs_flights s)). own_flight dl f" for g
    by (meson notin_set_remove1)
  note less = sub_weight [OF own]
  have daily: "of_int (daily_units (dl_day_limit dl)) \<le> dl_day_limit dl * 100000000"
    using lim by (rule daily_units_le)
  have nonneg: "\<forall>f \<in> set (hs_flights s). 0 \<le> fl_units f" using own by (simp add: own_flight_def)
  from step show ?thesis
  proof cases
    case (h_count he pc ch used h')
    let ?f = "\<lparr>fl_change = ch, fl_total = used\<rparr>"
    have f: "own_flight dl ?f" using check_change_own [OF h_count(3,2) r8 tx] .
    define n where "n = daily_units (ch_amount ch)"
    have n: "fl_units ?f = n" by (simp add: fl_units_def n_def)
    from incr_daily_host [OF h_count(4)] have h': "ho_db h' = ho_db (hs_host s)"
      "ho_daily h' (dl_key dl) = ho_daily (hs_host s) (dl_key dl) + n"
      "used = ho_daily (hs_host s) (dl_key dl) + n" by (auto simp: n_def)
    have counter: "of_int (ho_daily h' (dl_key dl)) = of_int (ho_daily (hs_host s) (dl_key dl)) + rat_of_int n"
      using h'(2) by simp
    have below: "of_int (ho_daily (hs_host s) (dl_key dl)) + rat_of_int n \<le> dl_day_limit dl * 100000000"
      if "\<not> daily_units (dl_day_limit dl) < used"
    proof -
      have "rat_of_int used \<le> of_int (daily_units (dl_day_limit dl))" using that by simp
      then show ?thesis using daily h'(3) by simp
    qed
    show ?thesis
    proof (cases "daily_units (dl_day_limit dl) < used")
      case True
      then have "passed dl (?f # hs_flights s) = passed dl (hs_flights s)" by (simp add: passed_def)
      then show ?thesis using ok h_count(1) h'(1) f counter n unfolding cap_ok_def by simp
    next
      case False
      then have "passed dl (?f # hs_flights s) = ?f # passed dl (hs_flights s)" by (simp add: passed_def)
      then show ?thesis
        using ok h_count(1) h'(1) f counter n below [OF False] weight_passed_le [OF nonneg, of dl]
        unfolding cap_ok_def by simp
    qed
  next
    case (h_unanswered he pc ch h')
    have "0 \<le> daily_units (ch_amount ch)"
      using check_change_own [OF h_unanswered(3,2) r8 tx] by (simp add: own_flight_def fl_units_def)
    moreover have "ho_db h' = ho_db (hs_host s)" "ho_daily h' = ho_daily (hs_host s) \<or>
        ho_daily h' = (ho_daily (hs_host s))(dl_key dl := ho_daily (hs_host s) (dl_key dl) + daily_units (ch_amount ch))"
      using incr_daily_host [OF h_unanswered(4)] by auto
    ultimately show ?thesis using ok h_unanswered(1) unfolding cap_ok_def by auto
  next
    case (h_refuse f reached)
    then have "f \<notin> set (passed dl (hs_flights s))" by (simp add: passed_def)
    then have "passed dl (remove1 f (hs_flights s)) = passed dl (hs_flights s)"
      by (simp add: passed_remove1 remove1_idem)
    then show ?thesis
      using ok h_refuse(1,2) rest nonneg unfolding cap_ok_def
      by (auto simp: weight_remove1 release_daily_def)
  next
    case (h_apply f he res h')
    have f: "own_flight dl f" and pf: "f \<in> set (passed dl (hs_flights s))"
      using own h_apply(2,3) by (auto simp: passed_def)
    have race: "env_race (he_apply he) = None" using h_apply(4) by (simp add: runs_under_def)
    have units: "of_int (fl_units f) = ch_amount (fl_change f) * 100000000" "0 \<le> fl_units f"
      using f by (simp_all add: own_flight_def)
    from apply_change_total [OF h_apply(5) race, of dl] f
    consider "plugin_total dl (ho_db h') = plugin_total dl (ho_db (hs_host s))"
        "ho_daily h' (dl_key dl) = ho_daily (hs_host s) (dl_key dl) \<or>
         ho_daily h' (dl_key dl) = ho_daily (hs_host s) (dl_key dl) - fl_units f"
      | "plugin_total dl (ho_db h') = plugin_total dl (ho_db (hs_host s)) + ch_amount (fl_change f)"
        "ho_daily h' = ho_daily (hs_host s)"
      by (auto simp: own_flight_def)
    then show ?thesis
    proof cases
      case 1
      then show ?thesis
        using ok h_apply(1,2) rest units pf unfolding cap_ok_def
        by (auto simp: weight_remove1 passed_remove1)
    next
      case 2
      then show ?thesis
        using ok h_apply(1,2) rest units pf unfolding cap_ok_def
        by (auto simp: weight_remove1 passed_remove1 algebra_simps)
    qed
  next
    case (h_die f)
    then show ?thesis using ok rest less [of f] unfolding cap_ok_def by (auto simp: passed_remove1)
  next
    case (h_other env ch r d' c')
    have "plugin_total dl d' = plugin_total dl (ho_db (hs_host s))"
    proof -
      have "0 < change_delta (rounded env ch) \<longleftrightarrow> ch_credit ch"
        using ApplyTx_valid [OF h_other(2)] by (simp add: change_delta_def rounded_def)
      then show ?thesis using plugin_total_ApplyTx [OF h_other(2,3), of dl] h_other(4) by auto
    qed
    then show ?thesis using ok h_other(1) unfolding cap_ok_def by simp
  qed
qed

text \<open>C4: Whatever calls of a plugin run at the same time, fail half-way or die, and whatever else
  changes balances meanwhile, the amounts the core ledger books for the plugin in one direction in
  the course of a UTC day never exceed the approved \<open>maxPerDay\<close>, provided that the grant also has a
  \<open>maxPerTx\<close> that keeps one amount below 92233720368.\<close>

theorem daily_limit_holds:
  assumes "(hstep dl)\<^sup>*\<^sup>* s t" and "hs_flights s = []" and "ho_daily (hs_host s) (dl_key dl) = 0"
    and "0 \<le> dl_day_limit dl" and "places8 (dl_round dl)" and "dl_tx_limit dl \<le> 92233720368"
  shows "plugin_total dl (ho_db (hs_host t)) - plugin_total dl (ho_db (hs_host s)) \<le> dl_day_limit dl"
proof -
  from assms(1) have "cap_ok dl (plugin_total dl (ho_db (hs_host s))) t"
  proof (induction rule: rtranclp_induct)
    case base
    show ?case using assms(2,3,4) by (simp add: cap_ok_def passed_def)
  next
    case (step u v)
    show ?case by (rule cap_ok_step [OF step(2,3) assms(4,5,6)])
  qed
  then have own: "\<forall>f \<in> set (hs_flights t). 0 \<le> fl_units f"
    and sum: "(plugin_total dl (ho_db (hs_host t)) - plugin_total dl (ho_db (hs_host s))) * 100000000
      + weight (passed dl (hs_flights t)) \<le> dl_day_limit dl * 100000000"
    by (auto simp: cap_ok_def own_flight_def)
  have "0 \<le> weight (passed dl (hs_flights t))" using own by (intro weight_nonneg) (simp add: passed_def)
  then show ?thesis using sum by simp
qed

definition demo_host_env :: host_env where
  "demo_host_env = \<lparr>he_key = ''payment'',
     he_grants = [''ledger.credit'' \<mapsto> [''maxPerTx'' \<mapsto> Some 10, ''maxPerDay'' \<mapsto> Some 15]],
     he_has_db = True, he_current = (\<lambda>_. Some True), he_has_ledger = True, he_day = ''20260101'',
     he_incr = Answered, he_decr = True, he_apply = demo_env, he_rds = (True, True, True)\<rparr>"

definition demo_daily :: daily_setting where
  "demo_daily = \<lparr>dl_plugin = ''payment'', dl_credit = True, dl_day = ''20260101'', dl_day_limit = 15,
     dl_tx_limit = 10, dl_round = round_half_away8\<rparr>"

definition demo_host :: host where
  "demo_host = \<lparr>ho_db = demo_empty, ho_cache = (\<lambda>_. None), ho_daily = (\<lambda>_. 0)\<rparr>"

definition demo_credit :: "string \<Rightarrow> plugin_change" where
  "demo_credit key = \<lparr>pc_user = 1, pc_amount = Some 10, pc_ref_type = [], pc_ref_id = [], pc_key = key, pc_note = []\<rparr>"

lemma demo_runs_under: "runs_under demo_daily demo_host_env"
  by (simp add: runs_under_def demo_daily_def demo_host_env_def scopeDecimal_def scope_of_def perm_of_def
    demo_env_def no_faults_def)

text \<open>A second credit of 10 is refused: the counter answers 20.\<close>

theorem daily_limit_holds_witness:
  "\<exists>h1 h2 r e. host_ledger demo_host_env True (demo_credit ''a'') demo_host = (Inr r, h1) \<and>
     host_ledger demo_host_env True (demo_credit ''b'') h1 = (Inl e, h2) \<and>
     plugin_total demo_daily (ho_db h2) = 10 \<and> plugin_total demo_daily (ho_db h2) \<le> 15"
proof -
  obtain x1 h1 x2 h2 where one: "host_ledger demo_host_env True (demo_credit ''a'') demo_host = (x1, h1)"
    and two: "host_ledger demo_host_env True (demo_credit ''b'') h1 = (x2, h2)" by (metis prod.exhaust)
  have "(case host_ledger demo_host_env True (demo_credit ''a'') demo_host of (y1, g1) \<Rightarrow>
      \<not> isl y1 \<and> (case host_ledger demo_host_env True (demo_credit ''b'') g1 of (y2, g2) \<Rightarrow>
        isl y2 \<and> plugin_total demo_daily (ho_db g2) = 10))"
    by code_simp
  then have run: "\<not> isl x1" "isl x2" "plugin_total demo_daily (ho_db h2) = 10" using one two by simp_all
  have dl: "dl_credit demo_daily" "0 \<le> dl_day_limit demo_daily" "places8 (dl_round demo_daily)"
    "dl_tx_limit demo_daily \<le> 92233720368" "dl_day_limit demo_daily = 15"
    by (simp_all add: demo_daily_def places8_half_away)
  let ?s = "\<lambda>h. \<lparr>hs_host = h, hs_flights = []\<rparr>"
  have "(hstep demo_daily)\<^sup>*\<^sup>* (?s demo_host) (?s h1)" "(hstep demo_daily)\<^sup>*\<^sup>* (?s h1) (?s h2)"
    using host_ledger_is_steps [OF demo_runs_under, of "demo_credit ''a''" demo_host x1 h1 "[]"]
      host_ledger_is_steps [OF demo_runs_under, of "demo_credit ''b''" h1 x2 h2 "[]"] one two dl(1) by simp_all
  then have "(hstep demo_daily)\<^sup>*\<^sup>* (?s demo_host) (?s h2)" by (rule rtranclp_trans)
  from daily_limit_holds [OF this _ _ dl(2,3,4)]
  have "plugin_total demo_daily (ho_db h2) - plugin_total demo_daily demo_empty \<le> 15"
    using dl(5) by (simp add: demo_host_def)
  moreover have "plugin_total demo_daily demo_empty = 0" by (simp add: plugin_total_def demo_empty_def)
  moreover obtain r e where "x1 = Inr r" "x2 = Inl e" using run(1,2) by (cases x1; cases x2) auto
  ultimately show ?thesis using run(3) one two by auto
qed

text \<open>
  Without a \<open>maxPerTx\<close> the truncation to 64 bits lets one amount pass any daily limit: 2 to the 64
  in units of eight decimals counts as nothing.
\<close>

lemma uncapped_amount_counts_nothing: "daily_units (18446744073709551616 / 100000000) = 0"
  by code_simp

end
