(* ===== verification/Payments.thy ===== *)
theory Payments
  imports HostLedger
begin

section \<open>The payment plugin (\<open>plugins/payment/internal/payment\<close>)\<close>

text \<open>
  Redeem codes, promo codes and recharge orders. The plugin keeps its tables in a schema of its own
  and credits balances by calls to the host, so its transactions and the host's commit separately:
  an operation maps the plugin's tables and the host's state to both, and a call that fails after
  the credit rolls back the tables only. What makes this safe is the idempotency key of every
  credit, derived from the row it pays for.

  The host is an argument, as it is in the code (\<open>creditFunc\<close>): its laws are the locale
  \<open>credit_port\<close> of theory \<open>PaymentBooks\<close>.
\<close>

subsection \<open>Rows\<close>

datatype order_status =
    OrderPending | OrderPaid | OrderRecharging | OrderCompleted | OrderFailed
  | OrderCancelled | OrderExpired | OrderRefunding | OrderRefunded

datatype redeem_status = RedeemUnused | RedeemUsed | RedeemExpired

record pay_order =
  po_id :: int
  po_user :: int
  po_out_trade_no :: string
  po_payment_type :: string
  po_trade_no :: "string option"
  po_amount :: rat
  po_pay_amount :: rat
  po_fee_rate :: rat
  po_order_type :: string
  po_status :: order_status
  po_expires :: int
  po_paid_at :: "int option"
  po_failed_at :: "int option"

record redeem_code =
  rd_id :: int
  rd_code :: string
  rd_hash :: string
  rd_type :: string
  rd_value :: rat
  rd_status :: redeem_status
  rd_used_by :: "int option"
  rd_used_at :: "int option"
  rd_expires :: "int option"

record promo_code =
  pm_id :: int
  pm_code :: string
  pm_bonus :: rat
  pm_max :: int
  pm_count :: int
  pm_status :: string
  pm_expires :: "int option"

record promo_usage =
  pu_promo :: int
  pu_user :: int
  pu_bonus :: rat
  pu_at :: int

record payment_config =
  cf_enabled :: bool
  cf_min :: rat
  cf_max :: rat
  cf_timeout :: int
  cf_max_pending :: int
  cf_fee_rate :: rat

text \<open>The next values of the three sequences survive a rollback.\<close>

record pay_db =
  pd_config :: payment_config
  pd_orders :: "pay_order list"
  pd_codes :: "redeem_code list"
  pd_promos :: "promo_code list"
  pd_usages :: "promo_usage list"
  pd_next_order :: int
  pd_next_code :: int
  pd_next_promo :: int

datatype pay_err =
    PUnavailable | PDisabled | PInvalidAmount | PBelowMinimum | PAboveMaximum | PTooManyPending
  | PInvalidCount | PInvalidValue | PRandom | PCodeRequired | PInvalidCode | PCodeUsed | PCodeExpired
  | PCodeNotAvailable | PCodeExists | PInvalidPromo | PPromoDisabled | PPromoExpired | PPromoLimit
  | PPromoUsed | PNotFound | POrderNotFound | PAmountMismatch | PCredit | PStmt string | PCommit

text \<open>
  What the code does not determine: which statements fail, whether the commit succeeds (an error may
  hide a commit that took place), upper-casing, SHA-256, the decimal package and the columns of type
  \<open>DECIMAL(20, 8)\<close>, \<open>None\<close> when a value has too many digits.
\<close>

datatype commit_outcome = Committed | RolledBack | CommittedUnreported

record pay_env =
  pe_fails :: "string \<Rightarrow> bool"
  pe_commit :: commit_outcome
  pe_upper :: "string \<Rightarrow> string"
  pe_sha :: "string \<Rightarrow> string"
  pe_show :: "rat \<Rightarrow> string"
  pe_div :: "rat \<Rightarrow> rat \<Rightarrow> rat"
  pe_round2 :: "rat \<Rightarrow> rat"
  pe_column :: "rat \<Rightarrow> rat option"

text \<open>\<open>creditFunc\<close>: an error, or the ledger's answer with \<open>Duplicate\<close>, and the host afterwards.\<close>

type_synonym ('e, 's) credit_fun = "plugin_change \<Rightarrow> 's \<Rightarrow> ('e + ledger_result) \<times> 's"

definition commit_tx :: "pay_env \<Rightarrow> 'a \<Rightarrow> pay_db \<Rightarrow> pay_db \<Rightarrow> (pay_err + 'a) \<times> pay_db" where
  "commit_tx pe a before after =
     (let kept = before\<lparr>pd_next_order := pd_next_order after, pd_next_code := pd_next_code after,
        pd_next_promo := pd_next_promo after\<rparr> in
      case pe_commit pe of
        Committed \<Rightarrow> (Inr a, after)
      | RolledBack \<Rightarrow> (Inl PCommit, kept)
      | CommittedUnreported \<Rightarrow> (Inl PCommit, after))"

subsection \<open>Redeem codes (\<open>redeem_service.go\<close>)\<close>

definition hex_digit :: "nat \<Rightarrow> char" where
  "hex_digit n = ''0123456789ABCDEF'' ! n"

text \<open>The sixteen random bytes, \<open>None\<close> when the source of randomness fails.\<close>

definition GenerateRedeemCode :: "char list option \<Rightarrow> pay_err + string" where
  "GenerateRedeemCode bytes =
     (case bytes of
        None \<Rightarrow> Inl PRandom
      | Some bs \<Rightarrow> Inr (concat (map (\<lambda>b. [hex_digit (of_char b div 16), hex_digit (of_char b mod 16)]) bs)))"

definition RedeemTypeBalance :: string where "RedeemTypeBalance = ''balance''"

definition IsUsed :: "redeem_code \<Rightarrow> bool" where
  "IsUsed rc \<longleftrightarrow> rd_status rc = RedeemUsed"

definition IsExpired :: "int \<Rightarrow> redeem_code \<Rightarrow> bool" where
  "IsExpired now rc \<longleftrightarrow> rd_status rc = RedeemExpired \<or> (\<exists>t \<in> set_option (rd_expires rc). t < now)"

definition CanUse :: "int \<Rightarrow> redeem_code \<Rightarrow> bool" where
  "CanUse now rc \<longleftrightarrow> rd_status rc = RedeemUnused \<and> \<not> IsExpired now rc"

text \<open>One row; both the code and its hash are unique columns. The answer repeats the requested value.\<close>

definition insert_code :: "pay_env \<Rightarrow> string \<Rightarrow> rat \<Rightarrow> int option \<Rightarrow> char list option \<Rightarrow> pay_db \<Rightarrow>
    (pay_err + redeem_code) \<times> pay_db" where
  "insert_code pe type v expires bytes d =
     (case GenerateRedeemCode bytes of
        Inl e \<Rightarrow> (Inl e, d)
      | Inr code \<Rightarrow>
          (let d' = d\<lparr>pd_next_code := pd_next_code d + 1\<rparr> in
           case pe_column pe v of
             None \<Rightarrow> (Inl (PStmt ''insert code''), d')
           | Some w \<Rightarrow>
               if pe_fails pe ''insert code'' \<or>
                  (\<exists>c \<in> set (pd_codes d). rd_code c = code \<or> rd_hash c = pe_sha pe code)
               then (Inl (PStmt ''insert code''), d')
               else (let rc = \<lparr>rd_id = pd_next_code d, rd_code = code, rd_hash = pe_sha pe code,
                       rd_type = type, rd_value = w, rd_status = RedeemUnused, rd_used_by = None,
                       rd_used_at = None, rd_expires = expires\<rparr>
                     in (Inr (rc\<lparr>rd_value := v\<rparr>), d'\<lparr>pd_codes := rc # pd_codes d\<rparr>))))"

fun insert_codes :: "pay_env \<Rightarrow> string \<Rightarrow> rat \<Rightarrow> int option \<Rightarrow> char list option list \<Rightarrow> pay_db \<Rightarrow>
    (pay_err + redeem_code list) \<times> pay_db" where
  "insert_codes pe type v expires [] d = (Inr [], d)"
| "insert_codes pe type v expires (bytes # rest) d =
     (case insert_code pe type v expires bytes d of
        (Inl e, d') \<Rightarrow> (Inl e, d')
      | (Inr rc, d') \<Rightarrow>
          (case insert_codes pe type v expires rest d' of
             (Inl e, d'') \<Rightarrow> (Inl e, d'')
           | (Inr rcs, d'') \<Rightarrow> (Inr (rc # rcs), d'')))"

text \<open>\<open>random i\<close> are the bytes the \<open>i\<close>-th code is made of.\<close>

definition GenerateCodes :: "pay_env \<Rightarrow> int \<Rightarrow> string \<Rightarrow> rat \<Rightarrow> int option \<Rightarrow> (nat \<Rightarrow> char list option) \<Rightarrow>
    pay_db \<Rightarrow> (pay_err + redeem_code list) \<times> pay_db" where
  "GenerateCodes pe count type v expires random d =
     (if pe_fails pe ''db'' then (Inl PUnavailable, d)
      else if count \<le> 0 \<or> 1000 < count then (Inl PInvalidCount, d)
      else if v \<le> 0 then (Inl PInvalidValue, d)
      else if pe_fails pe ''begin'' then (Inl (PStmt ''begin''), d)
      else case insert_codes pe type v expires (map random [0..<nat count]) d of
          (Inl e, d') \<Rightarrow> (Inl e, d\<lparr>pd_next_code := pd_next_code d'\<rparr>)
        | (Inr rcs, d') \<Rightarrow> commit_tx pe rcs d d')"

definition code_key :: "int \<Rightarrow> string" where
  "code_key i = ''redeem_code_'' @ itoa i"

text \<open>The yuan sign after the words for recharge by redeem code, in UTF-8.\<close>

definition code_note :: string where
  "code_note = [CHR 0xE5, CHR 0x85, CHR 0x91, CHR 0xE6, CHR 0x8D, CHR 0xA2, CHR 0xE7, CHR 0xA0, CHR 0x81, CHR 0xE5, CHR 0x85, CHR 0x85, CHR 0xE5, CHR 0x80, CHR 0xBC, CHR 0x20, CHR 0xC2, CHR 0xA5]"

definition code_credit :: "pay_env \<Rightarrow> int \<Rightarrow> redeem_code \<Rightarrow> plugin_change" where
  "code_credit pe user rc = \<lparr>pc_user = user, pc_amount = Some (rd_value rc), pc_ref_type = ''redeem_code'',
     pc_ref_id = itoa (rd_id rc), pc_key = code_key (rd_id rc), pc_note = code_note @ pe_show pe (rd_value rc)\<rparr>"

definition code_used :: "int \<Rightarrow> int \<Rightarrow> redeem_code \<Rightarrow> redeem_code" where
  "code_used now user rc = rc\<lparr>rd_status := RedeemUsed, rd_used_by := Some user, rd_used_at := Some now\<rparr>"

definition mark_used :: "int \<Rightarrow> int \<Rightarrow> int \<Rightarrow> pay_db \<Rightarrow> pay_db" where
  "mark_used now user i d =
     d\<lparr>pd_codes := map (\<lambda>c. if rd_id c = i then code_used now user c else c) (pd_codes d)\<rparr>"

definition RedeemCode :: "pay_env \<Rightarrow> ('e, 's) credit_fun \<Rightarrow> int \<Rightarrow> int \<Rightarrow> string \<Rightarrow> pay_db \<Rightarrow> 's \<Rightarrow>
    (pay_err + redeem_code) \<times> pay_db \<times> 's" where
  "RedeemCode pe credit now user text d s =
     (let code = trimSpace (pe_upper pe text) in
      if pe_fails pe ''db'' then (Inl PUnavailable, d, s)
      else if code = [] then (Inl PCodeRequired, d, s)
      else if pe_fails pe ''begin'' then (Inl (PStmt ''begin''), d, s)
      else if pe_fails pe ''select code'' then (Inl (PStmt ''select code''), d, s)
      else case List.find (\<lambda>c. rd_hash c = pe_sha pe code) (pd_codes d) of
          None \<Rightarrow> (Inl PInvalidCode, d, s)
        | Some rc \<Rightarrow>
            if \<not> CanUse now rc
            then (Inl (if IsUsed rc then PCodeUsed else if IsExpired now rc then PCodeExpired
              else PCodeNotAvailable), d, s)
            else if pe_fails pe ''update code'' then (Inl (PStmt ''update code''), d, s)
            else (let after = mark_used now user (rd_id rc) d; used = code_used now user rc in
              if rd_type rc = RedeemTypeBalance
              then (case credit (code_credit pe user rc) s of
                  (Inl _, s') \<Rightarrow> (Inl PCredit, d, s')
                | (Inr _, s') \<Rightarrow> (case commit_tx pe used d after of (res, d') \<Rightarrow> (res, d', s')))
              else (case commit_tx pe used d after of (res, d') \<Rightarrow> (res, d', s))))"

definition DeleteCode :: "pay_env \<Rightarrow> int \<Rightarrow> pay_db \<Rightarrow> (pay_err + unit) \<times> pay_db" where
  "DeleteCode pe i d =
     (if pe_fails pe ''db'' then (Inl PUnavailable, d)
      else if pe_fails pe ''update code'' then (Inl (PStmt ''update code''), d)
      else if \<exists>c \<in> set (pd_codes d). rd_id c = i \<and> rd_status c = RedeemUnused
      then (Inr (), d\<lparr>pd_codes := map (\<lambda>c. if rd_id c = i \<and> rd_status c = RedeemUnused
        then c\<lparr>rd_status := RedeemExpired\<rparr> else c) (pd_codes d)\<rparr>)
      else (Inl PNotFound, d))"


subsection \<open>Promo codes (\<open>promo_service.go\<close>)\<close>

definition PromoStatusActive :: string where "PromoStatusActive = ''active''"

definition PromoCanUse :: "int \<Rightarrow> promo_code \<Rightarrow> bool" where
  "PromoCanUse now pc \<longleftrightarrow> pm_status pc = PromoStatusActive \<and>
     \<not> (\<exists>t \<in> set_option (pm_expires pc). t < now) \<and> \<not> (0 < pm_max pc \<and> pm_max pc \<le> pm_count pc)"

text \<open>The insert is a statement of its own, outside a transaction.\<close>

definition CreatePromoCode :: "pay_env \<Rightarrow> string \<Rightarrow> rat \<Rightarrow> int \<Rightarrow> int option \<Rightarrow> char list option \<Rightarrow>
    pay_db \<Rightarrow> (pay_err + promo_code) \<times> pay_db" where
  "CreatePromoCode pe text bonus max_uses expires random d =
     (if pe_fails pe ''db'' then (Inl PUnavailable, d)
      else case (if trimSpace (pe_upper pe text) = []
          then and_then (GenerateRedeemCode random) (\<lambda>c. Inr (take 16 c))
          else Inr (trimSpace (pe_upper pe text))) of
        Inl e \<Rightarrow> (Inl e, d)
      | Inr code \<Rightarrow>
          if bonus \<le> 0 then (Inl PInvalidAmount, d)
          else (let d' = d\<lparr>pd_next_promo := pd_next_promo d + 1\<rparr> in
            if \<exists>p \<in> set (pd_promos d). pm_code p = code then (Inl PCodeExists, d')
            else case (if pe_fails pe ''insert promo'' then None else pe_column pe bonus) of
                None \<Rightarrow> (Inl (PStmt ''insert promo''), d')
              | Some w \<Rightarrow>
                  (let pc = \<lparr>pm_id = pd_next_promo d, pm_code = code, pm_bonus = w, pm_max = max_uses,
                       pm_count = 0, pm_status = PromoStatusActive, pm_expires = expires\<rparr>
                   in (Inr pc, d'\<lparr>pd_promos := pc # pd_promos d\<rparr>))))"

definition promo_key :: "int \<Rightarrow> int \<Rightarrow> string" where
  "promo_key p user = ''promo_'' @ itoa p @ ''_'' @ itoa user"

text \<open>The words for promo code, and for granting, in UTF-8.\<close>

definition promo_note :: "string \<Rightarrow> string \<Rightarrow> string" where
  "promo_note code amount = [CHR 0xE4, CHR 0xBC, CHR 0x98, CHR 0xE6, CHR 0x83, CHR 0xA0, CHR 0xE7, CHR 0xA0, CHR 0x81, CHR 0x20] @ code @ [CHR 0x20, CHR 0xE8, CHR 0xB5, CHR 0xA0, CHR 0xE9, CHR 0x80, CHR 0x81, CHR 0x20, CHR 0xC2, CHR 0xA5] @ amount"

definition promo_credit :: "pay_env \<Rightarrow> int \<Rightarrow> promo_code \<Rightarrow> plugin_change" where
  "promo_credit pe user pc = \<lparr>pc_user = user, pc_amount = Some (pm_bonus pc), pc_ref_type = ''promo_code'',
     pc_ref_id = itoa (pm_id pc), pc_key = promo_key (pm_id pc) user,
     pc_note = promo_note (pm_code pc) (pe_show pe (pm_bonus pc))\<rparr>"

definition used_promo :: "int \<Rightarrow> int \<Rightarrow> promo_usage list \<Rightarrow> bool" where
  "used_promo p user us \<longleftrightarrow> (\<exists>u \<in> set us. pu_promo u = p \<and> pu_user u = user)"

definition record_use :: "int \<Rightarrow> int \<Rightarrow> promo_code \<Rightarrow> pay_db \<Rightarrow> pay_db" where
  "record_use now user pc d =
     d\<lparr>pd_usages := \<lparr>pu_promo = pm_id pc, pu_user = user, pu_bonus = pm_bonus pc, pu_at = now\<rparr> # pd_usages d,
       pd_promos := map (\<lambda>p. if pm_id p = pm_id pc then p\<lparr>pm_count := pm_count p + 1\<rparr> else p) (pd_promos d)\<rparr>"

definition promo_refusal :: "int \<Rightarrow> promo_code \<Rightarrow> pay_err" where
  "promo_refusal now pc =
     (if pm_status pc \<noteq> PromoStatusActive then PPromoDisabled
      else if \<exists>t \<in> set_option (pm_expires pc). t < now then PPromoExpired
      else PPromoLimit)"

definition ApplyPromoCode :: "pay_env \<Rightarrow> ('e, 's) credit_fun \<Rightarrow> int \<Rightarrow> int \<Rightarrow> string \<Rightarrow> pay_db \<Rightarrow> 's \<Rightarrow>
    (pay_err + unit) \<times> pay_db \<times> 's" where
  "ApplyPromoCode pe credit now user text d s =
     (let code = trimSpace (pe_upper pe text) in
      if pe_fails pe ''db'' then (Inl PUnavailable, d, s)
      else if code = [] then (Inl PCodeRequired, d, s)
      else if pe_fails pe ''begin'' then (Inl (PStmt ''begin''), d, s)
      else if pe_fails pe ''select promo'' then (Inl (PStmt ''select promo''), d, s)
      else case List.find (\<lambda>p. pm_code p = code) (pd_promos d) of
          None \<Rightarrow> (Inl PInvalidPromo, d, s)
        | Some pc \<Rightarrow>
            if \<not> PromoCanUse now pc then (Inl (promo_refusal now pc), d, s)
            else if pe_fails pe ''count usage'' then (Inl (PStmt ''count usage''), d, s)
            else if used_promo (pm_id pc) user (pd_usages d) then (Inl PPromoUsed, d, s)
            else (case credit (promo_credit pe user pc) s of
                (Inl _, s') \<Rightarrow> (Inl PCredit, d, s')
              | (Inr _, s') \<Rightarrow>
                  if pe_fails pe ''insert usage'' then (Inl (PStmt ''insert usage''), d, s')
                  else if pe_fails pe ''update promo'' then (Inl (PStmt ''update promo''), d, s')
                  else (case commit_tx pe () d (record_use now user pc d) of (res, d') \<Rightarrow> (res, d', s'))))"

definition UpdatePromoCode :: "pay_env \<Rightarrow> int \<Rightarrow> string \<Rightarrow> int \<Rightarrow> pay_db \<Rightarrow> (pay_err + unit) \<times> pay_db" where
  "UpdatePromoCode pe i status max_uses d =
     (if pe_fails pe ''db'' then (Inl PUnavailable, d)
      else if pe_fails pe ''update promo'' then (Inl (PStmt ''update promo''), d)
      else if \<exists>p \<in> set (pd_promos d). pm_id p = i
      then (Inr (), d\<lparr>pd_promos := map (\<lambda>p. if pm_id p = i then p\<lparr>pm_status := status, pm_max := max_uses\<rparr> else p)
        (pd_promos d)\<rparr>)
      else (Inl PNotFound, d))"

text \<open>The usage rows go with their promo code (\<open>ON DELETE CASCADE\<close>).\<close>

definition DeletePromoCode :: "pay_env \<Rightarrow> int \<Rightarrow> pay_db \<Rightarrow> (pay_err + unit) \<times> pay_db" where
  "DeletePromoCode pe i d =
     (if pe_fails pe ''db'' then (Inl PUnavailable, d)
      else if pe_fails pe ''delete promo'' then (Inl (PStmt ''delete promo''), d)
      else if \<exists>p \<in> set (pd_promos d). pm_id p = i
      then (Inr (), d\<lparr>pd_promos := filter (\<lambda>p. pm_id p \<noteq> i) (pd_promos d),
        pd_usages := filter (\<lambda>u. pu_promo u \<noteq> i) (pd_usages d)\<rparr>)
      else (Inl PNotFound, d))"


subsection \<open>Orders (\<open>order_service.go\<close>)\<close>

record order_request =
  or_user :: int
  or_amount :: rat
  or_payment_type :: string
  or_order_type :: string

definition OrderIDPrefix :: string where "OrderIDPrefix = ''s2a_''"

definition checkPendingLimit :: "pay_env \<Rightarrow> int \<Rightarrow> pay_db \<Rightarrow> pay_err + unit" where
  "checkPendingLimit pe user d =
     (let limit = cf_max_pending (pd_config d) in
      if limit \<le> 0 then Inr ()
      else if pe_fails pe ''count pending'' then Inl (PStmt ''count pending'')
      else if limit \<le> int (length (filter (\<lambda>x. po_user x = user \<and> po_status x = OrderPending) (pd_orders d)))
      then Inl PTooManyPending else Inr ())"

definition pay_amount :: "pay_env \<Rightarrow> rat \<Rightarrow> rat \<Rightarrow> rat" where
  "pay_amount pe amount fee_rate =
     (if 0 < fee_rate then amount + pe_round2 pe (pe_div pe (amount * fee_rate) 100) else amount)"

text \<open>Minutes of the configuration as a \<open>time.Duration\<close> in nanoseconds.\<close>

definition order_timeout :: "int \<Rightarrow> int" where
  "order_timeout minutes =
     (let t = wrap64 (minutes * 60000000000) in if t \<le> 0 then 30 * 60000000000 else t)"

definition check_order :: "pay_env \<Rightarrow> order_request \<Rightarrow> pay_db \<Rightarrow> pay_err + unit" where
  "check_order pe rq d =
     (let cf = pd_config d in
      and_then (ensure (\<not> pe_fails pe ''db'') PUnavailable) (\<lambda>_.
      and_then (ensure (\<not> pe_fails pe ''load config'') (PStmt ''load config'')) (\<lambda>_.
      and_then (ensure (cf_enabled cf) PDisabled) (\<lambda>_.
      and_then (ensure (0 < or_amount rq) PInvalidAmount) (\<lambda>_.
      and_then (ensure (\<not> (0 < cf_min cf \<and> or_amount rq < cf_min cf)) PBelowMinimum) (\<lambda>_.
      and_then (ensure (\<not> (0 < cf_max cf \<and> cf_max cf < or_amount rq)) PAboveMaximum) (\<lambda>_.
      checkPendingLimit pe (or_user rq) d)))))))"

definition new_order :: "pay_env \<Rightarrow> int \<Rightarrow> string \<Rightarrow> order_request \<Rightarrow> pay_db \<Rightarrow> pay_order option" where
  "new_order pe now uuid rq d =
     (case (pe_column pe (or_amount rq), pe_column pe (pay_amount pe (or_amount rq) (cf_fee_rate (pd_config d)))) of
        (Some a, Some p) \<Rightarrow> Some \<lparr>po_id = pd_next_order d, po_user = or_user rq,
          po_out_trade_no = OrderIDPrefix @ uuid, po_payment_type = or_payment_type rq, po_trade_no = None,
          po_amount = a, po_pay_amount = p, po_fee_rate = cf_fee_rate (pd_config d),
          po_order_type = or_order_type rq, po_status = OrderPending,
          po_expires = now + order_timeout (cf_timeout (pd_config d)), po_paid_at = None, po_failed_at = None\<rparr>
      | _ \<Rightarrow> None)"

definition CreateOrder :: "pay_env \<Rightarrow> int \<Rightarrow> string \<Rightarrow> order_request \<Rightarrow> pay_db \<Rightarrow> (pay_err + pay_order) \<times> pay_db" where
  "CreateOrder pe now uuid rq d =
     (case check_order pe rq d of
        Inl e \<Rightarrow> (Inl e, d)
      | Inr _ \<Rightarrow>
          if pe_fails pe ''begin'' then (Inl (PStmt ''begin''), d)
          else (let d' = d\<lparr>pd_next_order := pd_next_order d + 1\<rparr> in
            case new_order pe now uuid rq d of
              None \<Rightarrow> (Inl (PStmt ''insert order''), d')
            | Some ord \<Rightarrow>
                if pe_fails pe ''insert order'' \<or> po_out_trade_no ord \<in> po_out_trade_no ` set (pd_orders d)
                then (Inl (PStmt ''insert order''), d')
                else commit_tx pe ord d (d'\<lparr>pd_orders := ord # pd_orders d\<rparr>)))"

subsubsection \<open>Notifications and fulfilment\<close>

text \<open>
  The statements of \<open>HandlePaymentNotification\<close> and \<open>executeFulfillment\<close>, each committed by itself.
  The status is only a condition of the first two: an update that finds no row is no error.
\<close>

record notification =
  nt_out_trade_no :: string
  nt_trade_no :: string
  nt_amount :: rat

definition mock_notification :: notification where
  "mock_notification = \<lparr>nt_out_trade_no = ''mock_out_trade_no'', nt_trade_no = ''mock_trade_no'', nt_amount = 100\<rparr>"

definition map_order :: "int \<Rightarrow> (pay_order \<Rightarrow> bool) \<Rightarrow> (pay_order \<Rightarrow> pay_order) \<Rightarrow> pay_db \<Rightarrow> pay_db" where
  "map_order i P f d = d\<lparr>pd_orders := map (\<lambda>x. if po_id x = i \<and> P x then f x else x) (pd_orders d)\<rparr>"

definition mark_paid :: "int \<Rightarrow> string \<Rightarrow> int \<Rightarrow> pay_db \<Rightarrow> pay_db" where
  "mark_paid now trade i =
     map_order i (\<lambda>x. po_status x = OrderPending \<or> po_status x = OrderExpired)
       (\<lambda>x. x\<lparr>po_status := OrderPaid, po_trade_no := Some trade, po_paid_at := Some now\<rparr>)"

definition mark_recharging :: "int \<Rightarrow> pay_db \<Rightarrow> pay_db" where
  "mark_recharging i = map_order i (\<lambda>x. po_status x = OrderPaid) (\<lambda>x. x\<lparr>po_status := OrderRecharging\<rparr>)"

definition mark_failed :: "int \<Rightarrow> int \<Rightarrow> pay_db \<Rightarrow> pay_db" where
  "mark_failed now i = map_order i (\<lambda>_. True) (\<lambda>x. x\<lparr>po_status := OrderFailed, po_failed_at := Some now\<rparr>)"

definition mark_completed :: "int \<Rightarrow> pay_db \<Rightarrow> pay_db" where
  "mark_completed i = map_order i (\<lambda>_. True) (\<lambda>x. x\<lparr>po_status := OrderCompleted\<rparr>)"

definition order_key :: "int \<Rightarrow> string" where
  "order_key i = ''payment_order_'' @ itoa i"

text \<open>The words for recharge and the yuan sign, in UTF-8.\<close>

definition order_note :: string where
  "order_note = [CHR 0xE5, CHR 0x85, CHR 0x85, CHR 0xE5, CHR 0x80, CHR 0xBC, CHR 0x20, CHR 0xC2, CHR 0xA5]"

definition order_credit :: "pay_env \<Rightarrow> int \<Rightarrow> int \<Rightarrow> rat \<Rightarrow> plugin_change" where
  "order_credit pe i user amount = \<lparr>pc_user = user, pc_amount = Some amount, pc_ref_type = ''payment_order'',
     pc_ref_id = itoa i, pc_key = order_key i, pc_note = order_note @ pe_show pe amount\<rparr>"

definition executeFulfillment :: "pay_env \<Rightarrow> ('e, 's) credit_fun \<Rightarrow> int \<Rightarrow> int \<Rightarrow> int \<Rightarrow> rat \<Rightarrow> pay_db \<Rightarrow> 's \<Rightarrow>
    (pay_err + unit) \<times> pay_db \<times> 's" where
  "executeFulfillment pe credit now i user amount d s =
     (if pe_fails pe ''db'' then (Inl PUnavailable, d, s)
      else if pe_fails pe ''recharging'' then (Inl (PStmt ''recharging''), d, s)
      else (let d1 = mark_recharging i d in
        case credit (order_credit pe i user amount) s of
          (Inl _, s') \<Rightarrow> (Inl PCredit, if pe_fails pe ''failed'' then d1 else mark_failed now i d1, s')
        | (Inr _, s') \<Rightarrow>
            if pe_fails pe ''completed'' then (Inl (PStmt ''completed''), d1, s')
            else (Inr (), mark_completed i d1, s')))"

definition AmountToleranceCNY :: rat where "AmountToleranceCNY = 1 / 100"

datatype note_verdict = NoteRefused pay_err | NoteDone | NoteFulfil pay_order

definition check_notification :: "pay_env \<Rightarrow> notification \<Rightarrow> pay_db \<Rightarrow> note_verdict" where
  "check_notification pe n d =
     (if pe_fails pe ''db'' then NoteRefused PUnavailable
      else if pe_fails pe ''select order'' then NoteRefused (PStmt ''select order'')
      else case List.find (\<lambda>x. po_out_trade_no x = nt_out_trade_no n) (pd_orders d) of
          None \<Rightarrow> NoteRefused POrderNotFound
        | Some ord \<Rightarrow>
            if po_status ord = OrderCompleted \<or> po_status ord = OrderRefunded then NoteDone
            else if AmountToleranceCNY < \<bar>nt_amount n - po_pay_amount ord\<bar> then NoteRefused PAmountMismatch
            else NoteFulfil ord)"

definition handle_notification :: "pay_env \<Rightarrow> ('e, 's) credit_fun \<Rightarrow> int \<Rightarrow> notification \<Rightarrow> pay_db \<Rightarrow> 's \<Rightarrow>
    (pay_err + unit) \<times> pay_db \<times> 's" where
  "handle_notification pe credit now n d s =
     (case check_notification pe n d of
        NoteRefused e \<Rightarrow> (Inl e, d, s)
      | NoteDone \<Rightarrow> (Inr (), d, s)
      | NoteFulfil ord \<Rightarrow>
          if pe_fails pe ''paid'' then (Inl (PStmt ''paid''), d, s)
          else executeFulfillment pe credit now (po_id ord) (po_user ord) (po_amount ord)
            (mark_paid now (nt_trade_no n) (po_id ord) d) s)"

text \<open>The provider's message is not parsed yet: every webhook stands for one fixed notification.\<close>

definition HandlePaymentNotification :: "pay_env \<Rightarrow> ('e, 's) credit_fun \<Rightarrow> int \<Rightarrow> string \<Rightarrow> string \<Rightarrow> pay_db \<Rightarrow> 's \<Rightarrow>
    (pay_err + unit) \<times> pay_db \<times> 's" where
  "HandlePaymentNotification pe credit now provider body = handle_notification pe credit now mock_notification"

text \<open>The webhook's status: 200 also when the order does not exist.\<close>

definition handleWebhook :: "pay_env \<Rightarrow> ('e, 's) credit_fun \<Rightarrow> int \<Rightarrow> string \<Rightarrow> string \<Rightarrow> pay_db \<Rightarrow> 's \<Rightarrow>
    int \<times> pay_db \<times> 's" where
  "handleWebhook pe credit now provider body d s =
     (if provider = [] then (400, d, s)
      else case HandlePaymentNotification pe credit now provider body d s of
          (Inl e, d', s') \<Rightarrow> (if e = POrderNotFound then 200 else 400, d', s')
        | (Inr _, d', s') \<Rightarrow> (200, d', s'))"

end
