(* ===== verification/PaymentBooks.thy ===== *)
theory PaymentBooks
  imports Payments
begin

section \<open>What the payment plugin credits\<close>

text \<open>
  The contract between the plugin and the host is the locale \<open>credit_port\<close>: a credit that succeeds
  is booked under its key for its user and amount, and what is booked under a key never changes.
  \<open>pay_step\<close> interleaves all operations of the plugin, with the statements of a fulfilment apart,
  with everything else that happens to the ledger; the invariants relate each kind of row to the
  ledger rows under the keys derived from it.
\<close>

subsection \<open>Keys\<close>

lemma nat_str_inj: "nat_str m = nat_str n \<Longrightarrow> m = n"
  using nat_str_digits [of m] nat_str_digits [of n] by (metis of_nat_eq_iff)

lemma itoa_digits: "0 \<le> i \<Longrightarrow> itoa i \<noteq> [] \<and> list_all isDigit (itoa i)"
  using nat_str_digits [of "nat i"] by (simp add: itoa_def)

lemma itoa_last_solid: "itoa i \<noteq> [] \<and> solid (last (itoa i))"
  using nat_str_digits [of "nat i"] nat_str_digits [of "nat (- i)"] by (auto simp: itoa_def)

lemma itoa_inj: "itoa i = itoa j \<longleftrightarrow> i = j"
proof -
  have nodash: "CHR ''-'' # v \<noteq> nat_str n" for v n
  proof
    assume "CHR ''-'' # v = nat_str n"
    then have "CHR ''-'' \<in> set (nat_str n)" by (metis list.set_intros(1))
    then show False using nat_str_digits [of n] by blast
  qed
  show ?thesis
    using nodash nodash [symmetric]
    by (auto simp: itoa_def dest!: nat_str_inj split: if_splits)
qed

lemma not_digit [simp]: "\<not> isDigit CHR ''_''"
  by (simp add: isDigit_def)

lemma itoa_no_underscore: "CHR ''_'' \<notin> set (itoa i)"
  using nat_str_digits [of "nat i"] nat_str_digits [of "nat (- i)"]
  by (auto simp: itoa_def list_all_iff)

lemma promo_key_inj: "promo_key p u = promo_key q v \<longleftrightarrow> p = q \<and> u = v"
proof
  assume "promo_key p u = promo_key q v"
  then have "itoa p @ CHR ''_'' # itoa u = itoa q @ CHR ''_'' # itoa v" by (simp add: promo_key_def)
  from this [THEN arg_cong, of "cut CHR ''_''"] show "p = q \<and> u = v"
    using cut_at [OF itoa_no_underscore] by (simp add: itoa_inj)
qed simp

lemma key_inj [simp]:
  "code_key i = code_key j \<longleftrightarrow> i = j" "order_key i = order_key j \<longleftrightarrow> i = j"
  by (simp_all add: code_key_def order_key_def itoa_inj)

lemma pay_keys_apart [simp]:
  "code_key i \<noteq> order_key j" "order_key j \<noteq> code_key i" "code_key i \<noteq> promo_key p u"
  "promo_key p u \<noteq> code_key i" "order_key j \<noteq> promo_key p u" "promo_key p u \<noteq> order_key j"
  by (simp_all add: code_key_def order_key_def promo_key_def)

lemma letters_solid: "solid CHR ''r''" "solid CHR ''p''"
  by code_simp+

lemma trim_keys [simp]:
  "trimSpace (code_key i) = code_key i" "trimSpace (order_key i) = order_key i"
  "trimSpace (promo_key p u) = promo_key p u"
  using itoa_last_solid [of i] itoa_last_solid [of u] letters_solid
  by (auto intro!: trimSpace_solid simp: code_key_def order_key_def promo_key_def)


subsection \<open>The contract of the host\<close>

type_synonym credited = "string \<Rightarrow> (int \<times> rat) option"

text \<open>Nothing but the entry of one key is new.\<close>

definition only_grows :: "credited \<Rightarrow> string \<Rightarrow> int \<times> rat \<Rightarrow> credited \<Rightarrow> bool" where
  "only_grows C k x C' \<longleftrightarrow> (\<forall>j. C' j = C j \<or> j = k \<and> C j = None \<and> C' j = Some x)"

locale credit_port =
  fixes credit :: "'h \<Rightarrow> ('e, 's) credit_fun"
    and usable :: "'h \<Rightarrow> bool"
    and quiet :: "'s \<Rightarrow> 's \<Rightarrow> bool"
    and sound :: "'s \<Rightarrow> bool"
    and credited :: "'s \<Rightarrow> credited"
  assumes credit_sound: "usable h \<Longrightarrow> sound s \<Longrightarrow> credit h pc s = (res, s') \<Longrightarrow> sound s'"
    and credit_grows: "usable h \<Longrightarrow> sound s \<Longrightarrow> credit h pc s = (res, s') \<Longrightarrow> pc_amount pc = Some a \<Longrightarrow>
      only_grows (credited s) (trimSpace (pc_key pc)) (pc_user pc, a) (credited s')"
    and credit_answer: "usable h \<Longrightarrow> sound s \<Longrightarrow> credit h pc s = (Inr r, s') \<Longrightarrow> pc_amount pc = Some a \<Longrightarrow>
      credited s' (trimSpace (pc_key pc)) = Some (pc_user pc, a)"
    and quiet_sound: "sound s \<Longrightarrow> quiet s s' \<Longrightarrow> sound s'"
    and quiet_credited: "sound s \<Longrightarrow> quiet s s' \<Longrightarrow> credited s' = credited s"

subsection \<open>The ledger keeps the contract\<close>

definition payment_prefix :: string where "payment_prefix = ''plugin:payment:''"

definition host_credited :: "host \<Rightarrow> credited" where
  "host_credited h k = map_option (\<lambda>r. (l_user r, l_delta r))
     (List.find (\<lambda>r. l_key r = payment_prefix @ k) (ledger (ho_db h)))"

definition host_usable :: "host_env \<Rightarrow> bool" where
  "host_usable he \<longleftrightarrow> he_key he = ''payment'' \<and> env_race (he_apply he) = None"

definition host_sound :: "host \<Rightarrow> bool" where
  "host_sound h \<longleftrightarrow> ledger_ok (ho_db h)"

text \<open>Everybody else: a change under a key that is not the plugin's.\<close>

definition host_quiet :: "host \<Rightarrow> host \<Rightarrow> bool" where
  "host_quiet h h' \<longleftrightarrow> (\<exists>env ch r. ApplyTx env (ho_db h) ch = Inr (r, ho_db h') \<and> env_race env = None \<and>
     (\<forall>k. ch_key ch \<noteq> payment_prefix @ k))"

lemma host_credited_ApplyTx:
  assumes "ApplyTx env d ch = Inr (r, ho_db h')" and "env_race env = None" and "ho_db h = d"
  shows "host_credited h' k = (if \<not> has_key d (ch_key ch) \<and> ch_key ch = payment_prefix @ k
    then Some (ch_user ch, change_delta (rounded env ch)) else host_credited h k)"
  using ApplyTx_ledger [OF assms(1,2)] assms(3)
  by (auto simp: host_credited_def new_row_def rounded_def)

lemma host_credited_no_key: "\<not> has_key (ho_db h) (payment_prefix @ k) \<Longrightarrow> host_credited h k = None"
  by (simp add: host_credited_def has_key_def find_None_iff_key)

lemma release_daily_db [simp]: "ho_db (release_daily b k n h) = ho_db h"
  by (simp add: release_daily_def)

text \<open>A host call changes the tables by at most one \<open>ApplyTx\<close> of the change it was asked for.\<close>

lemma LedgerCredit_cases:
  assumes "LedgerCredit he pc h = (res, h')"
  obtains (Nothing) e where "res = Inl e" "ho_db h' = ho_db h"
  | (Applied) r a where "res = Inr r" "pc_amount pc = Some a" "0 < a"
      "ApplyTx (he_apply he) (ho_db h) (core_change he True pc a) = Inr (r, ho_db h')"
proof (cases "check_change he True pc")
  case (Inl e)
  with assms Nothing show ?thesis by (auto simp: LedgerCredit_def host_ledger_def)
next
  case (Inr ch)
  then obtain a where a: "pc_amount pc = Some a" "0 < a" "ch = core_change he True pc a"
    by (auto simp: check_change_def err_simps split: option.splits if_splits)
  have applied: thesis if "apply_change he rel ch h1 = (res, h')" "ho_db h1 = ho_db h" for rel h1
  proof (cases "ApplyTx (he_apply he) (ho_db h1) ch")
    case (Inl e)
    with that Nothing show ?thesis
      by (auto simp: apply_change_def Apply_def Let_def split: option.splits)
  next
    case (Inr x)
    then obtain r d' where "ApplyTx (he_apply he) (ho_db h1) ch = Inr (r, d')" by (cases x) auto
    with that a Applied show ?thesis
      by (auto simp: apply_change_def Apply_def Let_def split: option.splits if_splits prod.splits)
  qed
  show ?thesis
  proof (cases "scopeDecimal (scope_of he (perm_of True)) ''maxPerDay''")
    case None
    with assms Inr applied [of None h] show ?thesis by (simp add: LedgerCredit_def host_ledger_def)
  next
    case (Some limit)
    let ?k = "daily_key (he_key he) True (he_day he)" and ?n = "daily_units (ch_amount ch)"
    obtain answer h1 where inc: "incr_daily (he_incr he) ?k ?n h = (answer, h1)" by fastforce
    have db: "ho_db h1 = ho_db h" using incr_daily_host [OF inc] by simp
    show ?thesis
      using assms Inr Some inc db Nothing applied [of "Some (?k, ?n)" h1]
      by (auto simp: LedgerCredit_def host_ledger_def Let_def split: option.splits if_splits)
  qed
qed

lemma core_change_simps:
  "ch_user (core_change he c pc a) = pc_user pc" "ch_amount (core_change he c pc a) = a"
  "ch_credit (core_change he c pc a) = c"
  "host_usable he \<Longrightarrow> ch_key (core_change he c pc a) = payment_prefix @ trimSpace (pc_key pc)"
  by (simp_all add: core_change_def host_usable_def payment_prefix_def)

lemma host_credit_applied:
  assumes "host_usable he" and "ApplyTx (he_apply he) (ho_db h) (core_change he True pc a) = Inr (r, ho_db h')"
  shows "host_credited h' k = (if k = trimSpace (pc_key pc) \<and> \<not> has_key (ho_db h) (payment_prefix @ k)
      then Some (pc_user pc, a) else host_credited h k)"
    and "host_credited h' (trimSpace (pc_key pc)) = Some (pc_user pc, a)"
proof -
  let ?ch = "core_change he True pc a"
  have race: "env_race (he_apply he) = None" using assms(1) by (simp add: host_usable_def)
  have amt: "rounded (he_apply he) ?ch = ?ch" using ApplyTx_valid [OF assms(2)] by (simp add: rounded_def)
  have delta: "change_delta ?ch = a" by (simp add: change_delta_def core_change_simps)
  note step = host_credited_ApplyTx [OF assms(2) race refl, unfolded amt delta core_change_simps(1)
      core_change_simps(4) [OF assms(1)]]
  then show "host_credited h' k = (if k = trimSpace (pc_key pc) \<and> \<not> has_key (ho_db h) (payment_prefix @ k)
      then Some (pc_user pc, a) else host_credited h k)" by auto
  show "host_credited h' (trimSpace (pc_key pc)) = Some (pc_user pc, a)"
    using assms(2) race
  proof (cases rule: ApplyTx_success)
    case (Dup dup)
    then have "host_credited h (trimSpace (pc_key pc)) = Some (r_user dup, r_delta dup)"
      by (auto simp: host_credited_def findLedger_def dup_result_def core_change_simps(4) [OF assms(1)])
    moreover have "r_user dup = pc_user pc \<and> r_delta dup = a"
      using Dup(3) by (auto simp: reuse_def amt delta core_change_simps split: if_splits)
    moreover have "has_key (ho_db h) (payment_prefix @ trimSpace (pc_key pc))"
      using Dup(1) by (simp add: core_change_simps(4) [OF assms(1)])
    ultimately show ?thesis using step by simp
  next
    case New
    then show ?thesis using step by (simp add: core_change_simps(4) [OF assms(1)])
  qed
qed

interpretation host_port: credit_port LedgerCredit host_usable host_quiet host_sound host_credited
proof
  fix he pc h res h'
  assume run: "host_usable he" "host_sound h" "LedgerCredit he pc h = (res, h')"
  from run(3) show "host_sound h'"
  proof (cases rule: LedgerCredit_cases)
    case (Applied r a)
    then show ?thesis using run by (auto simp: host_sound_def host_usable_def dest: ApplyTx_ledger_ok)
  qed (use run in \<open>simp add: host_sound_def\<close>)
next
  fix he pc h res h' a
  assume run: "host_usable he" "host_sound h" "LedgerCredit he pc h = (res, h')" "pc_amount pc = Some a"
  from run(3) show "only_grows (host_credited h) (trimSpace (pc_key pc)) (pc_user pc, a) (host_credited h')"
  proof (cases rule: LedgerCredit_cases)
    case (Nothing e)
    then show ?thesis by (simp add: only_grows_def host_credited_def)
  next
    case (Applied r b)
    then show ?thesis
      using host_credit_applied(1) [OF run(1) Applied(4)] run(4)
      by (auto simp: only_grows_def host_credited_no_key)
  qed
next
  fix he pc h r h' a
  assume run: "host_usable he" "host_sound h" "LedgerCredit he pc h = (Inr r, h')" "pc_amount pc = Some a"
  from run(3) show "host_credited h' (trimSpace (pc_key pc)) = Some (pc_user pc, a)"
    by (cases rule: LedgerCredit_cases) (use host_credit_applied(2) [OF run(1)] run(4) in auto)
next
  fix h h'
  assume "host_sound h" "host_quiet h h'"
  then show "host_sound h'" by (auto simp: host_sound_def host_quiet_def dest: ApplyTx_ledger_ok)
next
  fix h h'
  assume "host_sound h" "host_quiet h h'"
  then show "host_credited h' = host_credited h"
    by (auto simp: host_quiet_def fun_eq_iff host_credited_ApplyTx)
qed


subsection \<open>Interleaved operations\<close>

text \<open>
  A fulfilment under way: the order as the notification found it, and the last statement done. A
  redemption or a use of a promo code is one step: it holds the lock on its row throughout, and
  only its own row and key depend on the order.
\<close>

datatype stage = Found | Paid | Recharging | Credited | Refused

record fulfilment =
  fu_order :: int
  fu_user :: int
  fu_amount :: rat
  fu_trade :: string
  fu_stage :: stage

record 's pay_sys =
  py_db :: pay_db
  py_host :: 's
  py_work :: "fulfilment list"

definition to_stage :: "fulfilment \<Rightarrow> stage \<Rightarrow> fulfilment list \<Rightarrow> fulfilment list" where
  "to_stage f st fs = f\<lparr>fu_stage := st\<rparr> # remove1 f fs"

inductive pay_step :: "('h \<Rightarrow> ('e, 's) credit_fun) \<Rightarrow> ('h \<Rightarrow> bool) \<Rightarrow> ('s \<Rightarrow> 's \<Rightarrow> bool) \<Rightarrow>
    's pay_sys \<Rightarrow> 's pay_sys \<Rightarrow> bool" for credit usable quiet where
  y_generate: "GenerateCodes pe n type v expires random (py_db s) = (res, d') \<Longrightarrow>
    pay_step credit usable quiet s (s\<lparr>py_db := d'\<rparr>)"
| y_redeem: "usable h \<Longrightarrow> RedeemCode pe (credit h) now user text (py_db s) (py_host s) = (res, d', s') \<Longrightarrow>
    pay_step credit usable quiet s (s\<lparr>py_db := d', py_host := s'\<rparr>)"
| y_delete_code: "DeleteCode pe i (py_db s) = (res', d') \<Longrightarrow> pay_step credit usable quiet s (s\<lparr>py_db := d'\<rparr>)"
| y_create_promo: "CreatePromoCode pe text bonus m expires bytes (py_db s) = (pres, d') \<Longrightarrow>
    pay_step credit usable quiet s (s\<lparr>py_db := d'\<rparr>)"
| y_apply_promo: "usable h \<Longrightarrow> ApplyPromoCode pe (credit h) now user text (py_db s) (py_host s) = (ares, d', s') \<Longrightarrow>
    pay_step credit usable quiet s (s\<lparr>py_db := d', py_host := s'\<rparr>)"
| y_update_promo: "UpdatePromoCode pe i st m (py_db s) = (res', d') \<Longrightarrow>
    pay_step credit usable quiet s (s\<lparr>py_db := d'\<rparr>)"
| y_delete_promo: "DeletePromoCode pe i (py_db s) = (res', d') \<Longrightarrow>
    pay_step credit usable quiet s (s\<lparr>py_db := d'\<rparr>)"
| y_order: "CreateOrder pe now uuid rq (py_db s) = (ores, d') \<Longrightarrow>
    pay_step credit usable quiet s (s\<lparr>py_db := d'\<rparr>)"
| y_notice: "check_notification pe nt (py_db s) = NoteFulfil ord \<Longrightarrow>
    pay_step credit usable quiet s (s\<lparr>py_work := \<lparr>fu_order = po_id ord, fu_user = po_user ord,
      fu_amount = po_amount ord, fu_trade = nt_trade_no nt, fu_stage = Found\<rparr> # py_work s\<rparr>)"
| y_paid: "f \<in> set (py_work s) \<Longrightarrow> fu_stage f = Found \<Longrightarrow>
    pay_step credit usable quiet s (s\<lparr>py_db := mark_paid now (fu_trade f) (fu_order f) (py_db s),
      py_work := to_stage f Paid (py_work s)\<rparr>)"
| y_recharging: "f \<in> set (py_work s) \<Longrightarrow> fu_stage f = Paid \<Longrightarrow>
    pay_step credit usable quiet s (s\<lparr>py_db := mark_recharging (fu_order f) (py_db s),
      py_work := to_stage f Recharging (py_work s)\<rparr>)"
| y_credit: "f \<in> set (py_work s) \<Longrightarrow> fu_stage f = Recharging \<Longrightarrow> usable h \<Longrightarrow>
    credit h (order_credit pe (fu_order f) (fu_user f) (fu_amount f)) (py_host s) = (cres, s') \<Longrightarrow>
    pay_step credit usable quiet s (s\<lparr>py_host := s',
      py_work := to_stage f (if isl cres then Refused else Credited) (py_work s)\<rparr>)"
| y_completed: "f \<in> set (py_work s) \<Longrightarrow> fu_stage f = Credited \<Longrightarrow>
    pay_step credit usable quiet s (s\<lparr>py_db := mark_completed (fu_order f) (py_db s),
      py_work := remove1 f (py_work s)\<rparr>)"
| y_failed: "f \<in> set (py_work s) \<Longrightarrow> fu_stage f = Refused \<Longrightarrow>
    pay_step credit usable quiet s (s\<lparr>py_db := mark_failed now (fu_order f) (py_db s),
      py_work := remove1 f (py_work s)\<rparr>)"
| y_die: "pay_step credit usable quiet s (s\<lparr>py_work := remove1 f (py_work s)\<rparr>)"
| y_quiet: "quiet (py_host s) s' \<Longrightarrow> pay_step credit usable quiet s (s\<lparr>py_host := s'\<rparr>)"

text \<open>The webhook's function, alone, is a run of these steps.\<close>

lemma handle_notification_is_steps:
  assumes run: "handle_notification pe (credit h) now n d s = (res, d', s')" and us: "usable h"
  shows "(pay_step credit usable quiet)\<^sup>*\<^sup>* \<lparr>py_db = d, py_host = s, py_work = fs\<rparr>
    (\<lparr>py_db = d', py_host = s', py_work = fs\<rparr> :: 's pay_sys)"
proof -
  let ?st = "pay_step credit usable quiet"
  let ?s = "\<lambda>d s fs. \<lparr>py_db = d, py_host = s, py_work = fs\<rparr> :: 's pay_sys"
  show ?thesis
  proof (cases "check_notification pe n d")
    case (NoteFulfil ord)
    let ?f = "\<lambda>st. \<lparr>fu_order = po_id ord, fu_user = po_user ord, fu_amount = po_amount ord,
      fu_trade = nt_trade_no n, fu_stage = st\<rparr>"
    let ?d1 = "mark_paid now (nt_trade_no n) (po_id ord) d"
    let ?d2 = "mark_recharging (po_id ord) ?d1"
    obtain cres s1 where cr: "credit h (order_credit pe (po_id ord) (po_user ord) (po_amount ord)) s = (cres, s1)"
      by fastforce
    let ?st4 = "if isl cres then Refused else Credited"
    have die: "?st (?s e t (?f k # fs)) (?s e t fs)" for e t k
      using y_die [of credit usable quiet "?s e t (?f k # fs)" "?f k"] by simp
    have a1: "?st (?s d s fs) (?s d s (?f Found # fs))"
      using y_notice [of pe n "?s d s fs" ord credit usable quiet] NoteFulfil by simp
    have a2: "?st (?s d s (?f Found # fs)) (?s ?d1 s (?f Paid # fs))"
      using y_paid [of "?f Found" "?s d s (?f Found # fs)" credit usable quiet now] by (simp add: to_stage_def)
    have a3: "?st (?s ?d1 s (?f Paid # fs)) (?s ?d2 s (?f Recharging # fs))"
      using y_recharging [of "?f Paid" "?s ?d1 s (?f Paid # fs)" credit usable quiet] by (simp add: to_stage_def)
    have a4: "?st (?s ?d2 s (?f Recharging # fs)) (?s ?d2 s1 (?f ?st4 # fs))"
      using y_credit [of "?f Recharging" "?s ?d2 s (?f Recharging # fs)" usable h credit pe cres s1 quiet] us cr
      by (simp add: to_stage_def)
    have a5: "?st (?s ?d2 s1 (?f ?st4 # fs)) (?s (if isl cres then mark_failed now (po_id ord) ?d2
        else mark_completed (po_id ord) ?d2) s1 fs)"
      using y_failed [of "?f ?st4" "?s ?d2 s1 (?f ?st4 # fs)" credit usable quiet now]
        y_completed [of "?f ?st4" "?s ?d2 s1 (?f ?st4 # fs)" credit usable quiet] by simp
    have r1: "?st\<^sup>*\<^sup>* (?s d s fs) (?s ?d1 s fs)" and r2: "?st\<^sup>*\<^sup>* (?s d s fs) (?s ?d2 s1 fs)"
      and r3: "?st\<^sup>*\<^sup>* (?s d s fs) (?s (if isl cres then mark_failed now (po_id ord) ?d2
        else mark_completed (po_id ord) ?d2) s1 fs)"
      using a1 a2 a3 a4 a5 die by (meson converse_rtranclp_into_rtranclp rtranclp.rtrancl_refl)+
    have "(d', s') \<in> {(d, s), (?d1, s), (?d2, s1), (if isl cres then mark_failed now (po_id ord) ?d2
        else mark_completed (po_id ord) ?d2, s1)}"
      using run NoteFulfil cr
      by (auto simp: handle_notification_def executeFulfillment_def Let_def split: if_splits sum.splits)
    then show ?thesis using r1 r2 r3 by (elim insertE) (simp_all only: prod.inject rtranclp.rtrancl_refl, auto)
  qed (use run in \<open>simp_all add: handle_notification_def\<close>)
qed


subsection \<open>The invariants\<close>

text \<open>
  \<open>codes_ok\<close>: a used balance code is booked for the user it names, with its value, and nothing is
  booked for a code that does not exist. \<open>orders_ok\<close>: the same of completed orders, and of
  fulfilments past their credit. \<open>promos_ok\<close>: every recorded use is booked for its user and bonus,
  no user has two, and the counter of a code is the number of its uses.
\<close>

definition codes_ok :: "pay_db \<Rightarrow> credited \<Rightarrow> bool" where
  "codes_ok d C \<longleftrightarrow> distinct (map rd_id (pd_codes d)) \<and>
     (\<forall>c \<in> set (pd_codes d). rd_id c < pd_next_code d \<and>
        (rd_status c = RedeemUsed \<and> rd_type c = RedeemTypeBalance \<longrightarrow>
          (\<exists>u. rd_used_by c = Some u \<and> C (code_key (rd_id c)) = Some (u, rd_value c)))) \<and>
     (\<forall>i x. C (code_key i) = Some x \<longrightarrow>
        (\<exists>c \<in> set (pd_codes d). rd_id c = i \<and> rd_type c = RedeemTypeBalance \<and> snd x = rd_value c))"

definition work_ok :: "pay_db \<Rightarrow> credited \<Rightarrow> fulfilment \<Rightarrow> bool" where
  "work_ok d C f \<longleftrightarrow> (\<exists>x \<in> set (pd_orders d). po_id x = fu_order f \<and> po_user x = fu_user f \<and> po_amount x = fu_amount f) \<and>
     (fu_stage f = Credited \<longrightarrow> C (order_key (fu_order f)) = Some (fu_user f, fu_amount f))"

definition orders_ok :: "pay_db \<Rightarrow> credited \<Rightarrow> fulfilment list \<Rightarrow> bool" where
  "orders_ok d C fs \<longleftrightarrow> distinct (map po_id (pd_orders d)) \<and>
     (\<forall>x \<in> set (pd_orders d). po_id x < pd_next_order d \<and>
        (po_status x = OrderCompleted \<longrightarrow> C (order_key (po_id x)) = Some (po_user x, po_amount x))) \<and>
     (\<forall>i x. C (order_key i) = Some x \<longrightarrow> (\<exists>y \<in> set (pd_orders d). po_id y = i \<and> x = (po_user y, po_amount y))) \<and>
     (\<forall>f \<in> set fs. work_ok d C f)"

definition uses_of :: "pay_db \<Rightarrow> int \<Rightarrow> promo_usage list" where
  "uses_of d i = filter (\<lambda>u. pu_promo u = i) (pd_usages d)"

definition promos_ok :: "pay_db \<Rightarrow> credited \<Rightarrow> bool" where
  "promos_ok d C \<longleftrightarrow> distinct (map pm_id (pd_promos d)) \<and>
     (\<forall>p \<in> set (pd_promos d). pm_id p < pd_next_promo d \<and> pm_count p = int (length (uses_of d (pm_id p)))) \<and>
     distinct (map (\<lambda>u. (pu_promo u, pu_user u)) (pd_usages d)) \<and>
     (\<forall>u \<in> set (pd_usages d). (\<exists>p \<in> set (pd_promos d). pm_id p = pu_promo u \<and> pm_bonus p = pu_bonus u) \<and>
        C (promo_key (pu_promo u) (pu_user u)) = Some (pu_user u, pu_bonus u)) \<and>
     (\<forall>i v x. C (promo_key i v) = Some x \<longrightarrow> i < pd_next_promo d \<and> fst x = v \<and>
        (\<forall>p \<in> set (pd_promos d). pm_id p = i \<longrightarrow> snd x = pm_bonus p))"

definition pay_ok :: "pay_db \<Rightarrow> credited \<Rightarrow> fulfilment list \<Rightarrow> bool" where
  "pay_ok d C fs \<longleftrightarrow> codes_ok d C \<and> orders_ok d C fs \<and> promos_ok d C"

text \<open>The three groups of columns an operation may leave alone.\<close>

definition same_codes :: "pay_db \<Rightarrow> pay_db \<Rightarrow> bool" where
  "same_codes d d' \<longleftrightarrow> pd_codes d' = pd_codes d \<and> pd_next_code d \<le> pd_next_code d'"

definition same_orders :: "pay_db \<Rightarrow> pay_db \<Rightarrow> bool" where
  "same_orders d d' \<longleftrightarrow> pd_orders d' = pd_orders d \<and> pd_next_order d \<le> pd_next_order d'"

definition same_promos :: "pay_db \<Rightarrow> pay_db \<Rightarrow> bool" where
  "same_promos d d' \<longleftrightarrow> pd_promos d' = pd_promos d \<and> pd_usages d' = pd_usages d \<and> pd_next_promo d \<le> pd_next_promo d'"

lemmas same_defs = same_codes_def same_orders_def same_promos_def

lemma same_refl [simp]: "same_codes d d" "same_orders d d" "same_promos d d"
  by (simp_all add: same_defs)

lemma codes_ok_same: "codes_ok d C \<Longrightarrow> same_codes d d' \<Longrightarrow> codes_ok d' C"
  unfolding codes_ok_def same_codes_def by fastforce

lemma orders_ok_same: "orders_ok d C fs \<Longrightarrow> same_orders d d' \<Longrightarrow> orders_ok d' C fs"
  unfolding orders_ok_def same_orders_def work_ok_def by fastforce

lemma promos_ok_same: "promos_ok d C \<Longrightarrow> same_promos d d' \<Longrightarrow> promos_ok d' C"
  unfolding promos_ok_def same_promos_def uses_of_def by fastforce

text \<open>A credit under a key of another group.\<close>

lemma codes_ok_agree: "codes_ok d C \<Longrightarrow> (\<And>i. C' (code_key i) = C (code_key i)) \<Longrightarrow> codes_ok d C'"
  by (simp add: codes_ok_def)

lemma orders_ok_agree: "orders_ok d C fs \<Longrightarrow> (\<And>i. C' (order_key i) = C (order_key i)) \<Longrightarrow> orders_ok d C' fs"
  by (simp add: orders_ok_def work_ok_def)

lemma promos_ok_agree: "promos_ok d C \<Longrightarrow> (\<And>i u. C' (promo_key i u) = C (promo_key i u)) \<Longrightarrow> promos_ok d C'"
  by (simp add: promos_ok_def)

lemma grows_other: "only_grows C k x C' \<Longrightarrow> j \<noteq> k \<Longrightarrow> C' j = C j"
  by (auto simp: only_grows_def)

lemma grows_keeps: "only_grows C k x C' \<Longrightarrow> C j = Some y \<Longrightarrow> C' j = Some y"
  unfolding only_grows_def by (metis option.distinct(1))

lemma grows_Some: "only_grows C k x C' \<Longrightarrow> C' j = Some y \<Longrightarrow> C j = Some y \<or> j = k \<and> y = x"
  unfolding only_grows_def by (metis option.inject)

lemma commit_tx_cases:
  assumes "commit_tx pe a d after = (res, d')"
  obtains "d' = after" | "res = Inl PCommit" "d' = d\<lparr>pd_next_order := pd_next_order after,
    pd_next_code := pd_next_code after, pd_next_promo := pd_next_promo after\<rparr>"
  using assms by (auto simp: commit_tx_def Let_def split: commit_outcome.splits)

subsection \<open>Codes\<close>

lemma codes_ok_insert:
  assumes "insert_code pe type v expires bytes d = (res, d')" and "codes_ok d C"
  shows "codes_ok d' C \<and> same_orders d d' \<and> same_promos d d' \<and> pd_next_code d \<le> pd_next_code d'"
proof -
  have new: "C (code_key (pd_next_code d)) = None"
  proof (rule ccontr)
    assume "C (code_key (pd_next_code d)) \<noteq> None"
    then obtain x where "C (code_key (pd_next_code d)) = Some x" by auto
    with assms(2) obtain c where "c \<in> set (pd_codes d)" "rd_id c = pd_next_code d"
      unfolding codes_ok_def by blast
    with assms(2) show False by (auto simp: codes_ok_def)
  qed
  have keep: "codes_ok (d\<lparr>pd_next_code := pd_next_code d + 1\<rparr>) C"
    using assms(2) by (rule codes_ok_same) (simp add: same_codes_def)
  have add: "codes_ok (d\<lparr>pd_next_code := pd_next_code d + 1, pd_codes := rc # pd_codes d\<rparr>) C"
    if "rd_id rc = pd_next_code d" "rd_status rc = RedeemUnused" for rc
    using assms(2) that unfolding codes_ok_def by (fastforce simp: image_iff)
  from assms(1) show ?thesis
    using keep add assms(2)
    by (auto simp: insert_code_def Let_def same_defs split: sum.splits option.splits if_splits)
qed

lemma codes_ok_inserts:
  assumes "insert_codes pe type v expires bs d = (res, d')" and "codes_ok d C"
  shows "codes_ok d' C \<and> same_orders d d' \<and> same_promos d d' \<and> pd_next_code d \<le> pd_next_code d'"
  using assms
proof (induction pe type v expires bs d arbitrary: res d' rule: insert_codes.induct)
  case (2 pe type v expires bytes rest d)
  obtain r1 d1 where one: "insert_code pe type v expires bytes d = (r1, d1)" by fastforce
  note first = codes_ok_insert [OF one 2(3)]
  obtain r2 d2 where more: "insert_codes pe type v expires rest d1 = (r2, d2)" by fastforce
  show ?case
  proof (cases r1)
    case (Inl e)
    then show ?thesis using 2(2) one first by simp
  next
    case (Inr rc)
    then show ?thesis
      using 2(1) [OF one [symmetric] Inr more] 2(2) one more first by (auto simp: same_defs split: sum.splits)
  qed
qed simp

lemma GenerateCodes_ok:
  assumes "GenerateCodes pe n type v expires random d = (res, d')" and "codes_ok d C"
  shows "codes_ok d' C \<and> same_orders d d' \<and> same_promos d d'"
proof (cases "d' = d")
  case False
  obtain r1 d1 where ins: "insert_codes pe type v expires (map random [0..<nat n]) d = (r1, d1)" by fastforce
  note one = codes_ok_inserts [OF ins assms(2)]
  have kept: "codes_ok (d\<lparr>pd_next_code := k\<rparr>) C" if "pd_next_code d \<le> k" for k
    using assms(2) by (rule codes_ok_same) (simp add: same_codes_def that)
  show ?thesis
  proof (cases r1)
    case (Inl e)
    then have "d' = d\<lparr>pd_next_code := pd_next_code d1\<rparr>"
      using assms(1) ins False by (auto simp: GenerateCodes_def split: if_splits)
    then show ?thesis using kept one by (simp add: same_defs)
  next
    case (Inr rcs)
    then have "commit_tx pe rcs d d1 = (res, d')"
      using assms(1) ins False by (auto simp: GenerateCodes_def split: if_splits)
    then show ?thesis
    proof (cases rule: commit_tx_cases)
      case 2
      then show ?thesis
        using one assms(2) by (auto simp: same_defs intro: codes_ok_same)
    qed (use one in simp)
  qed
qed (use assms(2) in simp)

lemma distinct_map_keep:
  assumes "distinct (map k xs)" and "\<And>x. x \<in> set xs \<Longrightarrow> k (f x) = k x"
  shows "distinct (map (k \<circ> f) xs)"
proof -
  have eq: "map (k \<circ> f) xs = map k xs" using assms(2) by simp
  show ?thesis unfolding eq by (rule assms(1))
qed

lemma codes_ok_map:
  assumes ok: "codes_ok d C"
    and keep: "\<And>x. x \<in> set (pd_codes d) \<Longrightarrow> rd_id (f x) = rd_id x \<and> rd_type (f x) = rd_type x \<and> rd_value (f x) = rd_value x"
    and used: "\<And>x. x \<in> set (pd_codes d) \<Longrightarrow> rd_status (f x) = RedeemUsed \<Longrightarrow> rd_type x = RedeemTypeBalance \<Longrightarrow>
      \<exists>u. rd_used_by (f x) = Some u \<and> C (code_key (rd_id x)) = Some (u, rd_value x)"
  shows "codes_ok (d\<lparr>pd_codes := map f (pd_codes d)\<rparr>) C"
proof -
  have ids: "distinct (map (rd_id \<circ> f) (pd_codes d))"
    using ok keep by (intro distinct_map_keep) (auto simp: codes_ok_def)
  have "\<exists>c \<in> set (map f (pd_codes d)). rd_id c = i \<and> rd_type c = RedeemTypeBalance \<and> snd x = rd_value c"
    if "C (code_key i) = Some x" for i x
  proof -
    from ok that obtain c where "c \<in> set (pd_codes d)" "rd_id c = i \<and> rd_type c = RedeemTypeBalance \<and> snd x = rd_value c"
      unfolding codes_ok_def by blast
    with keep show ?thesis by (intro bexI [of _ "f c"]) auto
  qed
  then show ?thesis using ok ids keep used unfolding codes_ok_def by auto
qed

lemma mark_used_ok:
  assumes ok: "codes_ok d C" and c: "c \<in> set (pd_codes d)"
    and paid: "rd_type c = RedeemTypeBalance \<longrightarrow> C (code_key (rd_id c)) = Some (u, rd_value c)"
  shows "codes_ok (mark_used now u (rd_id c) d) C"
proof -
  have same: "x = c" if "x \<in> set (pd_codes d)" "rd_id x = rd_id c" for x
    using that ok c by (auto simp: codes_ok_def distinct_map inj_on_def)
  show ?thesis unfolding mark_used_def
  proof (rule codes_ok_map [OF ok])
    fix x
    assume x: "x \<in> set (pd_codes d)" "rd_status (if rd_id x = rd_id c then code_used now u x else x) = RedeemUsed"
      "rd_type x = RedeemTypeBalance"
    show "\<exists>v. rd_used_by (if rd_id x = rd_id c then code_used now u x else x) = Some v \<and>
        C (code_key (rd_id x)) = Some (v, rd_value x)"
    proof (cases "rd_id x = rd_id c")
      case True
      with same [OF x(1)] x(3) paid show ?thesis by (simp add: code_used_def)
    next
      case False
      with x ok show ?thesis by (auto simp: codes_ok_def)
    qed
  qed (simp add: code_used_def)
qed

lemma DeleteCode_ok:
  assumes "DeleteCode pe i d = (res, d')" and "codes_ok d C"
  shows "codes_ok d' C \<and> same_orders d d' \<and> same_promos d d'"
proof -
  have "codes_ok (d\<lparr>pd_codes := map (\<lambda>c. if rd_id c = i \<and> rd_status c = RedeemUnused
        then c\<lparr>rd_status := RedeemExpired\<rparr> else c) (pd_codes d)\<rparr>) C"
    using assms(2) by (intro codes_ok_map) (auto simp: codes_ok_def split: if_splits)
  with assms show ?thesis by (auto simp: DeleteCode_def same_defs split: if_splits)
qed

lemma codes_ok_grows:
  assumes ok: "codes_ok d C" and c: "c \<in> set (pd_codes d)" and type: "rd_type c = RedeemTypeBalance"
    and g: "only_grows C (code_key (rd_id c)) (u, rd_value c) C'"
  shows "codes_ok d C'"
proof -
  have "\<exists>y \<in> set (pd_codes d). rd_id y = i \<and> rd_type y = RedeemTypeBalance \<and> snd x = rd_value y"
    if "C' (code_key i) = Some x" for i x
    using grows_Some [OF g that]
  proof
    assume "C (code_key i) = Some x"
    then show ?thesis using ok unfolding codes_ok_def by blast
  qed (use c type in auto)
  then show ?thesis using ok grows_keeps [OF g] unfolding codes_ok_def by blast
qed


subsection \<open>Orders\<close>

lemma orders_ok_map:
  assumes ok: "orders_ok d C fs"
    and keep: "\<And>x. x \<in> set (pd_orders d) \<Longrightarrow> po_id (f x) = po_id x \<and> po_user (f x) = po_user x \<and> po_amount (f x) = po_amount x"
    and paid: "\<And>x. x \<in> set (pd_orders d) \<Longrightarrow> po_status (f x) = OrderCompleted \<Longrightarrow>
      C (order_key (po_id x)) = Some (po_user x, po_amount x)"
  shows "orders_ok (d\<lparr>pd_orders := map f (pd_orders d)\<rparr>) C fs"
proof -
  let ?d = "d\<lparr>pd_orders := map f (pd_orders d)\<rparr>"
  have ids: "distinct (map (po_id \<circ> f) (pd_orders d))"
    using ok keep by (intro distinct_map_keep) (auto simp: orders_ok_def)
  have some: "\<exists>y \<in> set (pd_orders ?d). po_id y = i \<and> x = (po_user y, po_amount y)"
    if "C (order_key i) = Some x" for i x
  proof -
    from ok that obtain y where "y \<in> set (pd_orders d)" "po_id y = i \<and> x = (po_user y, po_amount y)"
      unfolding orders_ok_def by blast
    with keep show ?thesis by (intro bexI [of _ "f y"]) auto
  qed
  have work: "work_ok ?d C g" if g: "g \<in> set fs" for g
  proof -
    from ok g have w: "work_ok d C g" by (auto simp: orders_ok_def)
    then obtain y where "y \<in> set (pd_orders d)" "po_id y = fu_order g \<and> po_user y = fu_user g \<and> po_amount y = fu_amount g"
      unfolding work_ok_def by blast
    with keep have "\<exists>y \<in> set (pd_orders ?d). po_id y = fu_order g \<and> po_user y = fu_user g \<and> po_amount y = fu_amount g"
      by (intro bexI [of _ "f y"]) auto
    with w show ?thesis by (simp add: work_ok_def)
  qed
  show ?thesis using ok ids keep paid some work unfolding orders_ok_def by auto
qed

lemma map_order_ok:
  assumes "orders_ok d C fs"
    and "\<And>x. po_id (f x) = po_id x \<and> po_user (f x) = po_user x \<and> po_amount (f x) = po_amount x"
    and "\<And>x. x \<in> set (pd_orders d) \<Longrightarrow> po_id x = i \<Longrightarrow> po_status (f x) = OrderCompleted \<Longrightarrow>
      C (order_key i) = Some (po_user x, po_amount x)"
  shows "orders_ok (map_order i P f d) C fs"
  unfolding map_order_def using assms(1)
proof (rule orders_ok_map)
  fix x
  assume "x \<in> set (pd_orders d)" "po_status (if po_id x = i \<and> P x then f x else x) = OrderCompleted"
  then show "C (order_key (po_id x)) = Some (po_user x, po_amount x)"
    using assms(1,3) by (auto simp: orders_ok_def split: if_splits)
qed (use assms(2) in simp)

lemma map_order_frame [simp]:
  "same_codes d (map_order i P f d)" "same_promos d (map_order i P f d)"
  by (simp_all add: map_order_def same_defs)

lemma work_order:
  assumes "orders_ok d C fs" and "f \<in> set fs" and "x \<in> set (pd_orders d)" and "po_id x = fu_order f"
  shows "po_user x = fu_user f \<and> po_amount x = fu_amount f"
proof -
  from assms(1,2) obtain y where "y \<in> set (pd_orders d)"
    "po_id y = fu_order f \<and> po_user y = fu_user f \<and> po_amount y = fu_amount f"
    unfolding orders_ok_def work_ok_def by blast
  moreover have "distinct (map po_id (pd_orders d))" using assms(1) by (simp add: orders_ok_def)
  ultimately show ?thesis using assms(3,4) by (metis (mono_tags) distinct_map inj_on_def)
qed

lemma marks_ok:
  assumes "orders_ok d C fs"
  shows "orders_ok (mark_paid now t i d) C fs" and "orders_ok (mark_recharging i d) C fs"
    and "orders_ok (mark_failed now i d) C fs"
    and "f \<in> set fs \<Longrightarrow> fu_stage f = Credited \<Longrightarrow> orders_ok (mark_completed (fu_order f) d) C fs"
proof -
  show "orders_ok (mark_paid now t i d) C fs" "orders_ok (mark_recharging i d) C fs" "orders_ok (mark_failed now i d) C fs"
    unfolding mark_paid_def mark_recharging_def mark_failed_def by (rule map_order_ok [OF assms]; simp)+
  assume f: "f \<in> set fs" "fu_stage f = Credited"
  then have "C (order_key (fu_order f)) = Some (fu_user f, fu_amount f)"
    using assms by (auto simp: orders_ok_def work_ok_def)
  then show "orders_ok (mark_completed (fu_order f) d) C fs"
    unfolding mark_completed_def using work_order [OF assms f(1)] by (intro map_order_ok [OF assms]) auto
qed

lemma orders_ok_work: "orders_ok d C fs \<Longrightarrow> (\<And>g. g \<in> set gs \<Longrightarrow> g \<in> set fs \<or> work_ok d C g) \<Longrightarrow> orders_ok d C gs"
  unfolding orders_ok_def by blast

lemma orders_ok_remove: "orders_ok d C fs \<Longrightarrow> orders_ok d C (remove1 f fs)"
  by (rule orders_ok_work) (auto dest: in_set_remove1 [THEN iffD1, rotated] notin_set_remove1 simp: in_set_remove1)

lemma orders_ok_to_stage:
  assumes "orders_ok d C fs" and "f \<in> set fs" and "st = Credited \<longrightarrow> C (order_key (fu_order f)) = Some (fu_user f, fu_amount f)"
  shows "orders_ok d C (to_stage f st fs)"
proof -
  have "work_ok d C f" using assms(1,2) by (simp add: orders_ok_def)
  then have "work_ok d C (f\<lparr>fu_stage := st\<rparr>)" using assms(3) by (auto simp: work_ok_def)
  then show ?thesis
    using assms(1) unfolding to_stage_def by (intro orders_ok_work [OF assms(1)]) (auto dest: notin_set_remove1 set_remove1_subset [THEN subsetD])
qed

lemma orders_ok_grows:
  assumes ok: "orders_ok d C fs" and f: "f \<in> set fs"
    and g: "only_grows C (order_key (fu_order f)) (fu_user f, fu_amount f) C'"
  shows "orders_ok d C' fs"
proof -
  from ok f obtain y where y: "y \<in> set (pd_orders d)" "po_id y = fu_order f" "po_user y = fu_user f" "po_amount y = fu_amount f"
    unfolding orders_ok_def work_ok_def by blast
  have "\<exists>z \<in> set (pd_orders d). po_id z = i \<and> x = (po_user z, po_amount z)" if "C' (order_key i) = Some x" for i x
    using grows_Some [OF g that]
  proof
    assume "C (order_key i) = Some x"
    then show ?thesis using ok unfolding orders_ok_def by blast
  qed (use y in auto)
  then show ?thesis using ok grows_keeps [OF g] unfolding orders_ok_def work_ok_def by blast
qed

lemma CreateOrder_ok:
  assumes "CreateOrder pe now uuid rq d = (res, d')" and "orders_ok d C fs"
  shows "orders_ok d' C fs \<and> same_codes d d' \<and> same_promos d d'"
proof -
  have next_free: "C (order_key (pd_next_order d)) = None"
  proof (rule ccontr)
    assume "C (order_key (pd_next_order d)) \<noteq> None"
    then obtain y where "y \<in> set (pd_orders d)" "po_id y = pd_next_order d"
      using assms(2) unfolding orders_ok_def by blast
    then show False using assms(2) by (auto simp: orders_ok_def)
  qed
  have skip: "orders_ok (d\<lparr>pd_next_order := pd_next_order d + 1\<rparr>) C fs"
    using assms(2) by (rule orders_ok_same) (simp add: same_orders_def)
  have add: "orders_ok (d\<lparr>pd_next_order := pd_next_order d + 1, pd_orders := x # pd_orders d\<rparr>) C fs"
    if "po_id x = pd_next_order d" "po_status x = OrderPending" for x
    using assms(2) that unfolding orders_ok_def work_ok_def by (fastforce simp: image_iff)
  show ?thesis
  proof (cases "d' = d \<or> d' = d\<lparr>pd_next_order := pd_next_order d + 1\<rparr>")
    case False
    then obtain x where x: "new_order pe now uuid rq d = Some x"
        "commit_tx pe x d (d\<lparr>pd_next_order := pd_next_order d + 1, pd_orders := x # pd_orders d\<rparr>) = (res, d')"
      using assms(1) by (auto simp: CreateOrder_def Let_def split: sum.splits if_splits option.splits)
    have "po_id x = pd_next_order d" "po_status x = OrderPending"
      using x(1) by (auto simp: new_order_def split: option.splits)
    note new = add [OF this]
    from x(2) show ?thesis by (cases rule: commit_tx_cases) (use new skip in \<open>auto simp: same_defs\<close>)
  qed (use assms(2) skip in \<open>auto simp: same_defs\<close>)
qed


subsection \<open>Promo codes\<close>

lemma promos_ok_map:
  assumes ok: "promos_ok d C"
    and keep: "\<And>p. p \<in> set (pd_promos d) \<Longrightarrow> pm_id (f p) = pm_id p \<and> pm_bonus (f p) = pm_bonus p \<and> pm_count (f p) = pm_count p"
  shows "promos_ok (d\<lparr>pd_promos := map f (pd_promos d)\<rparr>) C"
proof -
  have ids: "distinct (map (pm_id \<circ> f) (pd_promos d))"
    using ok keep by (intro distinct_map_keep) (auto simp: promos_ok_def)
  have use: "\<exists>p \<in> set (map f (pd_promos d)). pm_id p = pu_promo u \<and> pm_bonus p = pu_bonus u"
    if u: "u \<in> set (pd_usages d)" for u
  proof -
    from ok u obtain p where "p \<in> set (pd_promos d)" "pm_id p = pu_promo u \<and> pm_bonus p = pu_bonus u"
      unfolding promos_ok_def by blast
    with keep show ?thesis by (intro bexI [of _ "f p"]) auto
  qed
  show ?thesis using ok ids keep use unfolding promos_ok_def by (simp add: uses_of_def)
qed

lemma CreatePromoCode_ok:
  assumes "CreatePromoCode pe text bonus m expires bytes d = (res, d')" and "promos_ok d C"
  shows "promos_ok d' C \<and> same_codes d d' \<and> same_orders d d'"
proof -
  have free: "u \<in> set (pd_usages d) \<Longrightarrow> pu_promo u < pd_next_promo d" for u
    using assms(2) unfolding promos_ok_def by metis
  then have none: "uses_of d (pd_next_promo d) = []" by (force simp: uses_of_def filter_empty_conv)
  have skip: "promos_ok (d\<lparr>pd_next_promo := pd_next_promo d + 1\<rparr>) C"
    using assms(2) by (rule promos_ok_same) (simp add: same_promos_def)
  have add: "promos_ok (d\<lparr>pd_next_promo := pd_next_promo d + 1, pd_promos := p # pd_promos d\<rparr>) C"
    if "pm_id p = pd_next_promo d" "pm_count p = 0" for p
    using assms(2) that none unfolding promos_ok_def uses_of_def by (fastforce simp: image_iff)
  from assms(1) show ?thesis
    using skip add assms(2)
    by (auto simp: CreatePromoCode_def Let_def same_defs split: sum.splits option.splits if_splits)
qed

lemma UpdatePromoCode_ok:
  assumes "UpdatePromoCode pe i st m d = (res, d')" and "promos_ok d C"
  shows "promos_ok d' C \<and> same_codes d d' \<and> same_orders d d'"
proof -
  have "promos_ok (d\<lparr>pd_promos := map (\<lambda>p. if pm_id p = i then p\<lparr>pm_status := st, pm_max := m\<rparr> else p) (pd_promos d)\<rparr>) C"
    by (rule promos_ok_map [OF assms(2)]) simp
  with assms show ?thesis by (auto simp: UpdatePromoCode_def same_defs split: if_splits)
qed

lemma DeletePromoCode_ok:
  assumes "DeletePromoCode pe i d = (res, d')" and ok: "promos_ok d C"
  shows "promos_ok d' C \<and> same_codes d d' \<and> same_orders d d'"
proof -
  let ?d = "d\<lparr>pd_promos := filter (\<lambda>p. pm_id p \<noteq> i) (pd_promos d), pd_usages := filter (\<lambda>u. pu_promo u \<noteq> i) (pd_usages d)\<rparr>"
  have uses: "uses_of ?d j = uses_of d j" if "j \<noteq> i" for j
    using that by (auto simp: uses_of_def intro: filter_cong)
  have use: "\<exists>p \<in> set (pd_promos ?d). pm_id p = pu_promo u \<and> pm_bonus p = pu_bonus u"
    if "u \<in> set (pd_usages ?d)" for u
    using that ok unfolding promos_ok_def by fastforce
  have "promos_ok ?d C"
    using ok uses use unfolding promos_ok_def by (auto simp: distinct_map_filter)
  with assms show ?thesis by (auto simp: DeletePromoCode_def same_defs split: if_splits)
qed

lemma promos_ok_grows:
  assumes ok: "promos_ok d C" and p: "p \<in> set (pd_promos d)"
    and g: "only_grows C (promo_key (pm_id p) u) (u, pm_bonus p) C'"
  shows "promos_ok d C'"
proof -
  have "i < pd_next_promo d \<and> fst x = v \<and> (\<forall>q \<in> set (pd_promos d). pm_id q = i \<longrightarrow> snd x = pm_bonus q)"
    if "C' (promo_key i v) = Some x" for i v x
    using grows_Some [OF g that]
  proof
    assume "C (promo_key i v) = Some x"
    then show ?thesis using ok unfolding promos_ok_def by blast
  next
    assume new: "promo_key i v = promo_key (pm_id p) u \<and> x = (u, pm_bonus p)"
    have "q = p" if "q \<in> set (pd_promos d)" "pm_id q = pm_id p" for q
      using that p ok by (auto simp: promos_ok_def distinct_map inj_on_def)
    with new p ok show ?thesis by (auto simp: promo_key_inj promos_ok_def)
  qed
  then show ?thesis using ok grows_keeps [OF g] unfolding promos_ok_def by blast
qed

lemma record_use_ok:
  assumes ok: "promos_ok d C" and p: "p \<in> set (pd_promos d)"
    and fresh: "\<not> used_promo (pm_id p) u (pd_usages d)"
    and paid: "C (promo_key (pm_id p) u) = Some (u, pm_bonus p)"
  shows "promos_ok (record_use now u p d) C"
proof -
  let ?f = "\<lambda>q. if pm_id q = pm_id p then q\<lparr>pm_count := pm_count q + 1\<rparr> else q"
  let ?u = "\<lparr>pu_promo = pm_id p, pu_user = u, pu_bonus = pm_bonus p, pu_at = now\<rparr>"
  let ?d = "record_use now u p d"
  have ids: "distinct (map (pm_id \<circ> ?f) (pd_promos d))"
    using ok by (intro distinct_map_keep) (auto simp: promos_ok_def)
  have count: "pm_count (?f q) = int (length (uses_of ?d (pm_id q)))" if "q \<in> set (pd_promos d)" for q
    using ok that by (auto simp: promos_ok_def uses_of_def record_use_def)
  have use: "\<exists>q \<in> set (map ?f (pd_promos d)). pm_id q = pu_promo v \<and> pm_bonus q = pu_bonus v"
    if v: "v \<in> set (?u # pd_usages d)" for v
  proof -
    have "\<exists>q \<in> set (pd_promos d). pm_id q = pu_promo v \<and> pm_bonus q = pu_bonus v"
    proof (cases "v = ?u")
      case True
      with p show ?thesis by auto
    next
      case False
      with v have "v \<in> set (pd_usages d)" by simp
      with ok show ?thesis unfolding promos_ok_def by blast
    qed
    then obtain q where "q \<in> set (pd_promos d)" "pm_id q = pu_promo v" "pm_bonus q = pu_bonus v" by blast
    then show ?thesis by (intro bexI [of _ "?f q"]) auto
  qed
  have key: "(pm_id p, u) \<notin> (\<lambda>v. (pu_promo v, pu_user v)) ` set (pd_usages d)"
    using fresh by (auto simp: used_promo_def)
  have bal: "C (promo_key (pu_promo v) (pu_user v)) = Some (pu_user v, pu_bonus v)" if "v \<in> set (?u # pd_usages d)" for v
    using that ok paid by (auto simp: promos_ok_def)
  have cred: "i < pd_next_promo d \<and> fst x = v \<and> (\<forall>q \<in> set (map ?f (pd_promos d)). pm_id q = i \<longrightarrow> snd x = pm_bonus q)"
    if "C (promo_key i v) = Some x" for i v x
  proof -
    from that ok have x: "i < pd_next_promo d \<and> fst x = v" "\<forall>q \<in> set (pd_promos d). pm_id q = i \<longrightarrow> snd x = pm_bonus q"
      unfolding promos_ok_def by blast+
    have "snd x = pm_bonus (?f q)" if "q \<in> set (pd_promos d)" "pm_id (?f q) = i" for q
    proof -
      have "pm_id (?f q) = pm_id q" "pm_bonus (?f q) = pm_bonus q" by simp_all
      with x(2) that show ?thesis by simp
    qed
    with x(1) show ?thesis unfolding set_map by blast
  qed
  have less: "pm_id q < pd_next_promo d" if "q \<in> set (pd_promos d)" for q
    using that ok by (simp add: promos_ok_def)
  have dist: "distinct (map (\<lambda>v. (pu_promo v, pu_user v)) (pd_usages d))" using ok by (simp add: promos_ok_def)
  have tables: "pd_promos ?d = map ?f (pd_promos d)" "pd_usages ?d = ?u # pd_usages d"
    "pd_next_promo ?d = pd_next_promo d" by (simp_all add: record_use_def)
  have numbers: "pm_id q < pd_next_promo d \<and> pm_count q = int (length (uses_of ?d (pm_id q)))"
    if "q \<in> set (map ?f (pd_promos d))" for q
  proof -
    from that obtain q0 where q0: "q0 \<in> set (pd_promos d)" "q = ?f q0" by auto
    have "pm_id q = pm_id q0" using q0(2) by simp
    with q0 count [OF q0(1)] less [OF q0(1)] show ?thesis by simp
  qed
  show ?thesis
    unfolding promos_ok_def tables
  proof (intro conjI)
    show "distinct (map pm_id (map ?f (pd_promos d)))" using ids by simp
    show "\<forall>q \<in> set (map ?f (pd_promos d)). pm_id q < pd_next_promo d \<and> pm_count q = int (length (uses_of ?d (pm_id q)))"
      using numbers by blast
    show "distinct (map (\<lambda>v. (pu_promo v, pu_user v)) (?u # pd_usages d))" using key dist by simp
    show "\<forall>v \<in> set (?u # pd_usages d). (\<exists>q \<in> set (map ?f (pd_promos d)). pm_id q = pu_promo v \<and> pm_bonus q = pu_bonus v) \<and>
        C (promo_key (pu_promo v) (pu_user v)) = Some (pu_user v, pu_bonus v)" using use bal by blast
    show "\<forall>i v x. C (promo_key i v) = Some x \<longrightarrow> i < pd_next_promo d \<and> fst x = v \<and>
        (\<forall>q \<in> set (map ?f (pd_promos d)). pm_id q = i \<longrightarrow> snd x = pm_bonus q)" using cred by blast
  qed
qed


subsection \<open>Every operation keeps the books\<close>

text \<open>What a credit of the plugin does to the three groups.\<close>

lemma pay_ok_frame:
  assumes "pay_ok d C fs" and "same_codes d d' \<or> codes_ok d' C" and "same_orders d d' \<or> orders_ok d' C fs"
    and "same_promos d d' \<or> promos_ok d' C"
  shows "pay_ok d' C fs"
  using assms codes_ok_same orders_ok_same promos_ok_same unfolding pay_ok_def by blast

lemma pay_ok_code:
  assumes "pay_ok d C fs" and "c \<in> set (pd_codes d)" "rd_type c = RedeemTypeBalance"
    and "only_grows C (code_key (rd_id c)) (u, rd_value c) C'"
  shows "pay_ok d C' fs"
  using assms codes_ok_grows [OF _ assms(2,3,4)] grows_other [OF assms(4)]
  by (auto simp: pay_ok_def intro: orders_ok_agree promos_ok_agree)

lemma pay_ok_order:
  assumes "pay_ok d C fs" and "f \<in> set fs" and "only_grows C (order_key (fu_order f)) (fu_user f, fu_amount f) C'"
  shows "pay_ok d C' fs"
  using assms orders_ok_grows [OF _ assms(2,3)] grows_other [OF assms(3)]
  by (auto simp: pay_ok_def intro: codes_ok_agree promos_ok_agree)

lemma pay_ok_promo:
  assumes "pay_ok d C fs" and "p \<in> set (pd_promos d)" and "only_grows C (promo_key (pm_id p) u) (u, pm_bonus p) C'"
  shows "pay_ok d C' fs"
  using assms promos_ok_grows [OF _ assms(2,3)] grows_other [OF assms(3)]
  by (auto simp: pay_ok_def intro: orders_ok_agree codes_ok_agree)

lemma mark_used_frame: "same_orders d (mark_used now u i d)" "same_promos d (mark_used now u i d)"
  by (simp_all add: mark_used_def same_defs)

lemma record_use_frame: "same_codes d (record_use now u p d)" "same_orders d (record_use now u p d)"
  by (simp_all add: record_use_def same_defs)

lemma pay_ok_commit:
  assumes "commit_tx pe a d after = (res, d')" and "pay_ok d C fs" and "pay_ok after C fs"
    and "pd_next_order after = pd_next_order d" "pd_next_code after = pd_next_code d" "pd_next_promo after = pd_next_promo d"
  shows "pay_ok d' C fs"
  using assms(1)
proof (cases rule: commit_tx_cases)
  case 2
  then have "d' = d" using assms(4,5,6) by simp
  with assms(2) show ?thesis by simp
qed (use assms(3) in simp)

lemma pay_ok_op:
  assumes "pay_ok d C fs"
  shows "(codes_ok d C \<Longrightarrow> codes_ok d' C \<and> same_orders d d' \<and> same_promos d d') \<Longrightarrow> pay_ok d' C fs"
    and "(orders_ok d C fs \<Longrightarrow> orders_ok d' C fs \<and> same_codes d d' \<and> same_promos d d') \<Longrightarrow> pay_ok d' C fs"
    and "(promos_ok d C \<Longrightarrow> promos_ok d' C \<and> same_codes d d' \<and> same_orders d d') \<Longrightarrow> pay_ok d' C fs"
  using assms codes_ok_same orders_ok_same promos_ok_same unfolding pay_ok_def by blast+

context credit_port begin

lemma RedeemCode_ok:
  assumes run: "RedeemCode pe (credit h) now user text d s = (res, d', s')" and us: "usable h" and so: "sound s"
    and ok: "pay_ok d (credited s) fs"
  shows "sound s' \<and> pay_ok d' (credited s') fs"
proof (cases "(d', s') = (d, s)")
  case False
  then obtain c where c: "c \<in> set (pd_codes d)"
    and tail: "if rd_type c = RedeemTypeBalance
      then (case credit h (code_credit pe user c) s of (Inl _, t) \<Rightarrow> (d', s') = (d, t)
        | (Inr _, t) \<Rightarrow> s' = t \<and> (\<exists>r. commit_tx pe (code_used now user c) d (mark_used now user (rd_id c) d) = (r, d')))
      else s' = s \<and> (\<exists>r. commit_tx pe (code_used now user c) d (mark_used now user (rd_id c) d) = (r, d'))"
    using run by (auto simp: RedeemCode_def Let_def split: if_splits option.splits sum.splits prod.splits dest!: find_SomeD)
  have nexts: "pd_next_order (mark_used now user i d) = pd_next_order d" "pd_next_code (mark_used now user i d) = pd_next_code d"
    "pd_next_promo (mark_used now user i d) = pd_next_promo d" for i by (simp_all add: mark_used_def)
  have marked: "pay_ok (mark_used now user (rd_id c) d) C fs"
    if "pay_ok d C fs" "rd_type c = RedeemTypeBalance \<longrightarrow> C (code_key (rd_id c)) = Some (user, rd_value c)" for C
    using that c mark_used_ok [of d C c user] mark_used_frame by (intro pay_ok_frame [OF that(1)]) (auto simp: pay_ok_def)
  show ?thesis
  proof (cases "rd_type c = RedeemTypeBalance")
    case True
    obtain cres t where cr: "credit h (code_credit pe user c) s = (cres, t)" by fastforce
    have am: "pc_amount (code_credit pe user c) = Some (rd_value c)" "pc_user (code_credit pe user c) = user"
      "trimSpace (pc_key (code_credit pe user c)) = code_key (rd_id c)" by (simp_all add: code_credit_def)
    have so': "sound t" using credit_sound [OF us so cr] .
    have ok': "pay_ok d (credited t) fs"
      using pay_ok_code [OF ok c True] credit_grows [OF us so cr am(1)] am by simp
    show ?thesis
    proof (cases cres)
      case (Inl e)
      then show ?thesis using tail True cr so' ok' by simp
    next
      case (Inr r)
      then have "credited t (code_key (rd_id c)) = Some (user, rd_value c)"
        using credit_answer [OF us so _ am(1)] cr am by simp
      with marked [OF ok'] have "pay_ok (mark_used now user (rd_id c) d) (credited t) fs" by simp
      then show ?thesis using tail True cr Inr so' pay_ok_commit [OF _ ok' _ nexts] by auto
    qed
  next
    case F: False
    then show ?thesis using tail so pay_ok_commit [OF _ ok marked [OF ok] nexts] by auto
  qed
qed (use so ok in simp)

lemma ApplyPromoCode_ok:
  assumes run: "ApplyPromoCode pe (credit h) now user text d s = (res, d', s')" and us: "usable h" and so: "sound s"
    and ok: "pay_ok d (credited s) fs"
  shows "sound s' \<and> pay_ok d' (credited s') fs"
proof (cases "(d', s') = (d, s)")
  case False
  then obtain p where p: "p \<in> set (pd_promos d)" and fresh: "\<not> used_promo (pm_id p) user (pd_usages d)"
    and tail: "case credit h (promo_credit pe user p) s of (Inl _, t) \<Rightarrow> (d', s') = (d, t)
        | (Inr _, t) \<Rightarrow> s' = t \<and> (d' = d \<or> (\<exists>r. commit_tx pe () d (record_use now user p d) = (r, d')))"
    using run by (auto simp: ApplyPromoCode_def Let_def split: if_splits option.splits sum.splits prod.splits dest!: find_SomeD)
  have nexts: "pd_next_order (record_use now user p d) = pd_next_order d" "pd_next_code (record_use now user p d) = pd_next_code d"
    "pd_next_promo (record_use now user p d) = pd_next_promo d" by (simp_all add: record_use_def)
  obtain cres t where cr: "credit h (promo_credit pe user p) s = (cres, t)" by fastforce
  have am: "pc_amount (promo_credit pe user p) = Some (pm_bonus p)" "pc_user (promo_credit pe user p) = user"
    "trimSpace (pc_key (promo_credit pe user p)) = promo_key (pm_id p) user" by (simp_all add: promo_credit_def)
  have so': "sound t" using credit_sound [OF us so cr] .
  have ok': "pay_ok d (credited t) fs"
    using pay_ok_promo [OF ok p] credit_grows [OF us so cr am(1)] am by simp
  show ?thesis
  proof (cases cres)
    case (Inl e)
    then show ?thesis using tail cr so' ok' by simp
  next
    case (Inr r)
    then have "credited t (promo_key (pm_id p) user) = Some (user, pm_bonus p)"
      using credit_answer [OF us so _ am(1)] cr am by simp
    then have "pay_ok (record_use now user p d) (credited t) fs"
      using ok' record_use_ok [OF _ p fresh] record_use_frame by (intro pay_ok_frame [OF ok']) (auto simp: pay_ok_def)
    then show ?thesis using tail cr Inr so' ok' pay_ok_commit [OF _ ok' _ nexts] by auto
  qed
qed (use so ok in simp)

lemma pay_step_ok:
  assumes "pay_step credit usable quiet s t" and "sound (py_host s)" and ok: "pay_ok (py_db s) (credited (py_host s)) (py_work s)"
  shows "sound (py_host t) \<and> pay_ok (py_db t) (credited (py_host t)) (py_work t)"
  using assms(1)
proof cases
  case (y_generate pe n type v expires random res d')
  then show ?thesis using assms(2) pay_ok_op(1) [OF ok, OF GenerateCodes_ok [OF y_generate(2)]] by simp
next
  case (y_redeem h pe now user code res d' s')
  then show ?thesis using RedeemCode_ok [OF _ _ assms(2) ok] by simp
next
  case (y_delete_code pe i res' d')
  then show ?thesis using assms(2) pay_ok_op(1) [OF ok, OF DeleteCode_ok [OF y_delete_code(2)]] by simp
next
  case (y_create_promo pe code bonus m expires bytes pres d')
  then show ?thesis using assms(2) pay_ok_op(3) [OF ok, OF CreatePromoCode_ok [OF y_create_promo(2)]] by simp
next
  case (y_apply_promo h pe now user code ares d' s')
  then show ?thesis using ApplyPromoCode_ok [OF _ _ assms(2) ok] by simp
next
  case (y_update_promo pe i st m res' d')
  then show ?thesis using assms(2) pay_ok_op(3) [OF ok, OF UpdatePromoCode_ok [OF y_update_promo(2)]] by simp
next
  case (y_delete_promo pe i res' d')
  then show ?thesis using assms(2) pay_ok_op(3) [OF ok, OF DeletePromoCode_ok [OF y_delete_promo(2)]] by simp
next
  case (y_order pe now uuid rq ores d')
  then show ?thesis using assms(2) pay_ok_op(2) [OF ok, OF CreateOrder_ok [OF y_order(2)]] by simp
next
  case (y_notice pe nt ord)
  then have "ord \<in> set (pd_orders (py_db s))"
    by (auto simp: check_notification_def split: if_splits option.splits dest!: find_SomeD)
  then show ?thesis using y_notice(1) assms(2) ok by (auto simp: pay_ok_def orders_ok_def work_ok_def)
next
  case (y_paid f now)
  then show ?thesis
    using assms(2) ok orders_ok_to_stage marks_ok(1) codes_ok_same promos_ok_same
    by (auto simp: pay_ok_def mark_paid_def)
next
  case (y_recharging f)
  then show ?thesis
    using assms(2) ok orders_ok_to_stage marks_ok(2) codes_ok_same promos_ok_same
    by (auto simp: pay_ok_def mark_recharging_def)
next
  case (y_credit f h pe cres s')
  let ?ch = "order_credit pe (fu_order f) (fu_user f) (fu_amount f)"
  have am: "pc_amount ?ch = Some (fu_amount f)" "pc_user ?ch = fu_user f" "trimSpace (pc_key ?ch) = order_key (fu_order f)"
    by (simp_all add: order_credit_def)
  have so': "sound s'" using credit_sound [OF y_credit(4) assms(2) y_credit(5)] .
  have ok': "pay_ok (py_db s) (credited s') (py_work s)"
    using pay_ok_order [OF ok y_credit(2)] credit_grows [OF y_credit(4) assms(2) y_credit(5) am(1)] am by simp
  have "\<not> isl cres \<longrightarrow> credited s' (order_key (fu_order f)) = Some (fu_user f, fu_amount f)"
    using credit_answer [OF y_credit(4) assms(2) _ am(1)] y_credit(5) am by (cases cres) auto
  then have "orders_ok (py_db s) (credited s') (to_stage f (if isl cres then Refused else Credited) (py_work s))"
    using ok' y_credit(2) by (intro orders_ok_to_stage) (auto simp: pay_ok_def)
  then show ?thesis using y_credit(1) so' ok' by (simp add: pay_ok_def)
next
  case (y_completed f)
  then show ?thesis
    using assms(2) ok orders_ok_remove marks_ok(4) codes_ok_same promos_ok_same
    by (auto simp: pay_ok_def mark_completed_def)
next
  case (y_failed f now)
  then show ?thesis
    using assms(2) ok orders_ok_remove marks_ok(3) codes_ok_same promos_ok_same
    by (auto simp: pay_ok_def mark_failed_def)
next
  case (y_die f)
  then show ?thesis using assms(2) ok orders_ok_remove by (auto simp: pay_ok_def)
next
  case (y_quiet s')
  then show ?thesis using assms(2) ok quiet_sound quiet_credited by simp
qed

end

end
