(* ===== verification/PaymentRuns.thy ===== *)
theory PaymentRuns
  imports PaymentBooks
begin

section \<open>The payment plugin against the core ledger\<close>

text \<open>
  The books of theory \<open>PaymentBooks\<close> read off the ledger's rows, for every run of the plugin over
  the host of theory \<open>HostLedger\<close> and everything else that changes the ledger; a concrete run; and
  what a failure between the two databases leaves behind.
\<close>

subsection \<open>What it means for the core ledger\<close>

definition rows_under :: "host \<Rightarrow> string \<Rightarrow> ledger_row list" where
  "rows_under h k = filter (\<lambda>r. l_key r = payment_prefix @ k) (ledger (ho_db h))"

text \<open>Nothing in the tables of the plugin, nothing under its keys.\<close>

definition pay_fresh :: "host pay_sys \<Rightarrow> bool" where
  "pay_fresh s \<longleftrightarrow> pd_orders (py_db s) = [] \<and> pd_codes (py_db s) = [] \<and> pd_promos (py_db s) = [] \<and>
     pd_usages (py_db s) = [] \<and> py_work s = [] \<and> host_sound (py_host s) \<and> (\<forall>k. rows_under (py_host s) k = [])"

abbreviation pay_run :: "host pay_sys \<Rightarrow> host pay_sys \<Rightarrow> bool" where
  "pay_run \<equiv> (pay_step LedgerCredit host_usable host_quiet)\<^sup>*\<^sup>*"

lemma rows_under_credited:
  assumes "host_sound h"
  shows "length (rows_under h k) \<le> 1 \<and>
    (\<forall>r \<in> set (rows_under h k). host_credited h k = Some (l_user r, l_delta r)) \<and>
    (host_credited h k = None \<longleftrightarrow> rows_under h k = [])"
proof -
  have dist: "distinct (map l_key (ledger (ho_db h)))" using assms by (simp add: host_sound_def ledger_ok_def)
  have "length (filter (\<lambda>r. l_key r = v) xs) \<le> 1" if "distinct (map l_key xs)" for v xs
    using that
  proof (induction xs)
    case (Cons a xs)
    show ?case
    proof (cases "l_key a = v")
      case True
      with Cons.prems have "filter (\<lambda>r. l_key r = v) xs = []"
        by (simp add: filter_empty_conv) (metis imageI)
      with True show ?thesis by simp
    qed (use Cons in simp)
  qed simp
  from this [OF dist] have "length (rows_under h k) \<le> 1" by (simp add: rows_under_def)
  moreover have "host_credited h k = Some (l_user r, l_delta r)" if "r \<in> set (rows_under h k)" for r
    using that find_unique_key [OF dist, of r "payment_prefix @ k"] by (auto simp: rows_under_def host_credited_def)
  moreover have "host_credited h k = None \<longleftrightarrow> rows_under h k = []"
    by (auto simp: host_credited_def rows_under_def find_None_iff filter_empty_conv)
  ultimately show ?thesis by blast
qed

lemma rows_under_one:
  assumes "host_sound h" and "host_credited h k = Some (u, a)"
  obtains r where "rows_under h k = [r]" "l_user r = u" "l_delta r = a"
proof -
  from rows_under_credited [OF assms(1), of k] assms(2)
  have "length (rows_under h k) \<le> 1" "rows_under h k \<noteq> []" by auto
  then obtain r where "rows_under h k = [r]" by (cases "rows_under h k") auto
  with rows_under_credited [OF assms(1), of k] assms(2) that show ?thesis by auto
qed

lemma pay_run_ok:
  assumes "pay_run s t" and "pay_fresh s"
  shows "host_sound (py_host t) \<and> pay_ok (py_db t) (host_credited (py_host t)) (py_work t)"
  using assms(1)
proof (induction rule: rtranclp_induct)
  case base
  have "host_sound (py_host s)" using assms(2) by (simp add: pay_fresh_def)
  moreover from this have "host_credited (py_host s) k = None" for k
    using rows_under_credited assms(2) by (simp add: pay_fresh_def)
  ultimately show ?case
    using assms(2) by (simp add: pay_fresh_def pay_ok_def codes_ok_def orders_ok_def promos_ok_def)
next
  case (step u v)
  then show ?case using host_port.pay_step_ok by blast
qed

text \<open>C5: However redemptions, deletions, orders and everything else interleave, and wherever they
  fail, a redeem code is credited at most once, with its value, and only if it is a balance code. A
  balance code that is marked used has been credited exactly once, to the user it names.\<close>

theorem redeem_code_pays_once:
  assumes "pay_run s t" and "pay_fresh s" and "c \<in> set (pd_codes (py_db t))"
  shows "length (rows_under (py_host t) (code_key (rd_id c))) \<le> 1 \<and>
    (\<forall>r \<in> set (rows_under (py_host t) (code_key (rd_id c))). l_delta r = rd_value c \<and> rd_type c = RedeemTypeBalance) \<and>
    (rd_status c = RedeemUsed \<and> rd_type c = RedeemTypeBalance \<longrightarrow>
      (\<exists>u r. rd_used_by c = Some u \<and> rows_under (py_host t) (code_key (rd_id c)) = [r] \<and> l_user r = u))"
proof -
  from pay_run_ok [OF assms(1,2)] have so: "host_sound (py_host t)"
    and ok: "codes_ok (py_db t) (host_credited (py_host t))" by (simp_all add: pay_ok_def)
  note rows = rows_under_credited [OF so, of "code_key (rd_id c)"]
  have "l_delta r = rd_value c \<and> rd_type c = RedeemTypeBalance"
    if "r \<in> set (rows_under (py_host t) (code_key (rd_id c)))" for r
  proof -
    from rows that have "host_credited (py_host t) (code_key (rd_id c)) = Some (l_user r, l_delta r)" by blast
    then obtain y where "y \<in> set (pd_codes (py_db t))" "rd_id y = rd_id c" "rd_type y = RedeemTypeBalance"
        "l_delta r = rd_value y" using ok unfolding codes_ok_def by fastforce
    moreover from this assms(3) have "y = c" using ok by (auto simp: codes_ok_def distinct_map inj_on_def)
    ultimately show ?thesis by simp
  qed
  moreover have "\<exists>u r. rd_used_by c = Some u \<and> rows_under (py_host t) (code_key (rd_id c)) = [r] \<and> l_user r = u"
    if "rd_status c = RedeemUsed" "rd_type c = RedeemTypeBalance"
  proof -
    from ok assms(3) that obtain u where "rd_used_by c = Some u"
      "host_credited (py_host t) (code_key (rd_id c)) = Some (u, rd_value c)" unfolding codes_ok_def by blast
    with rows_under_one [OF so this(2)] show ?thesis by metis
  qed
  ultimately show ?thesis using rows by blast
qed

text \<open>C6: An order is credited at most once, for its user and its amount, whatever notifications arrive
  and however their fulfilments interleave or fail, and a completed order has been credited.\<close>

theorem order_pays_once:
  assumes "pay_run s t" and "pay_fresh s" and "x \<in> set (pd_orders (py_db t))"
  shows "length (rows_under (py_host t) (order_key (po_id x))) \<le> 1 \<and>
    (\<forall>r \<in> set (rows_under (py_host t) (order_key (po_id x))). l_user r = po_user x \<and> l_delta r = po_amount x) \<and>
    (po_status x = OrderCompleted \<longrightarrow> rows_under (py_host t) (order_key (po_id x)) \<noteq> [])"
proof -
  from pay_run_ok [OF assms(1,2)] have so: "host_sound (py_host t)"
    and ok: "orders_ok (py_db t) (host_credited (py_host t)) (py_work t)" by (simp_all add: pay_ok_def)
  note rows = rows_under_credited [OF so, of "order_key (po_id x)"]
  have "l_user r = po_user x \<and> l_delta r = po_amount x"
    if "r \<in> set (rows_under (py_host t) (order_key (po_id x)))" for r
  proof -
    from rows that have "host_credited (py_host t) (order_key (po_id x)) = Some (l_user r, l_delta r)" by blast
    then obtain y where y: "y \<in> set (pd_orders (py_db t))" "po_id y = po_id x" "l_user r = po_user y" "l_delta r = po_amount y"
      using ok unfolding orders_ok_def by blast
    moreover from y(1,2) assms(3) have "y = x" using ok by (auto simp: orders_ok_def distinct_map inj_on_def)
    ultimately show ?thesis by simp
  qed
  moreover have "rows_under (py_host t) (order_key (po_id x)) \<noteq> []" if "po_status x = OrderCompleted"
    using that ok assms(3) rows unfolding orders_ok_def by force
  ultimately show ?thesis using rows by blast
qed

text \<open>C28: Every recorded use of a promo code has been credited exactly once, to its user and with the
  code's bonus; no user has two uses of a code, and a code's counter is the number of its uses.\<close>

theorem promo_use_is_credited:
  assumes "pay_run s t" and "pay_fresh s"
  shows "(\<forall>u \<in> set (pd_usages (py_db t)). \<exists>r. rows_under (py_host t) (promo_key (pu_promo u) (pu_user u)) = [r] \<and>
        l_user r = pu_user u \<and> l_delta r = pu_bonus u) \<and>
    distinct (map (\<lambda>u. (pu_promo u, pu_user u)) (pd_usages (py_db t))) \<and>
    (\<forall>p \<in> set (pd_promos (py_db t)). pm_count p = int (length (uses_of (py_db t) (pm_id p))))"
proof -
  from pay_run_ok [OF assms] have so: "host_sound (py_host t)"
    and ok: "promos_ok (py_db t) (host_credited (py_host t))" by (simp_all add: pay_ok_def)
  have "\<exists>r. rows_under (py_host t) (promo_key (pu_promo u) (pu_user u)) = [r] \<and> l_user r = pu_user u \<and> l_delta r = pu_bonus u"
    if "u \<in> set (pd_usages (py_db t))" for u
  proof -
    from ok that have "host_credited (py_host t) (promo_key (pu_promo u) (pu_user u)) = Some (pu_user u, pu_bonus u)"
      unfolding promos_ok_def by blast
    from rows_under_one [OF so this] show ?thesis by metis
  qed
  then show ?thesis using ok unfolding promos_ok_def by blast
qed


subsection \<open>A concrete run\<close>

text \<open>
  User 1 redeems a code of value 1, pays an order of 2 and applies a promo code of 3; a second
  redemption of the same code is refused.
\<close>

definition demo_pay_env :: pay_env where
  "demo_pay_env = \<lparr>pe_fails = (\<lambda>_. False), pe_commit = Committed, pe_upper = id, pe_sha = id,
     pe_show = (\<lambda>_. []), pe_div = (/), pe_round2 = id, pe_column = Some\<rparr>"

definition demo_pay_db :: pay_db where
  "demo_pay_db = \<lparr>pd_config = \<lparr>cf_enabled = True, cf_min = 1, cf_max = 100, cf_timeout = 30,
     cf_max_pending = 3, cf_fee_rate = 0\<rparr>, pd_orders = [], pd_codes = [], pd_promos = [], pd_usages = [],
     pd_next_order = 1, pd_next_code = 1, pd_next_promo = 1\<rparr>"

definition demo_note :: notification where
  "demo_note = \<lparr>nt_out_trade_no = ''s2a_x'', nt_trade_no = ''t'', nt_amount = 2\<rparr>"

definition demo_d1 :: pay_db where
  "demo_d1 = snd (GenerateCodes demo_pay_env 1 RedeemTypeBalance 1 None (\<lambda>_. Some ''A'') demo_pay_db)"

definition demo_2 :: "pay_db \<times> host" where
  "demo_2 = snd (RedeemCode demo_pay_env (LedgerCredit demo_host_env) 5 1 ''41'' demo_d1 demo_host)"

definition demo_d3 :: pay_db where
  "demo_d3 = snd (CreateOrder demo_pay_env 5 ''x'' \<lparr>or_user = 1, or_amount = 2, or_payment_type = ''alipay'',
     or_order_type = ''balance''\<rparr> (fst demo_2))"

definition demo_4 :: "pay_db \<times> host" where
  "demo_4 = snd (handle_notification demo_pay_env (LedgerCredit demo_host_env) 5 demo_note demo_d3 (snd demo_2))"

definition demo_d5 :: pay_db where
  "demo_d5 = snd (CreatePromoCode demo_pay_env ''P'' 3 1 None None (fst demo_4))"

definition demo_6 :: "pay_db \<times> host" where
  "demo_6 = snd (ApplyPromoCode demo_pay_env (LedgerCredit demo_host_env) 5 1 ''P'' demo_d5 (snd demo_4))"

abbreviation demo_sys :: "pay_db \<Rightarrow> host \<Rightarrow> host pay_sys" where
  "demo_sys d h \<equiv> \<lparr>py_db = d, py_host = h, py_work = []\<rparr>"

lemma demo_usable: "host_usable demo_host_env"
  by (simp add: host_usable_def demo_host_env_def demo_env_def no_faults_def)

lemma demo_fresh: "pay_fresh (demo_sys demo_pay_db demo_host)"
  by (simp add: pay_fresh_def demo_pay_db_def host_sound_def demo_host_def demo_empty_ok rows_under_def)
    (simp add: demo_empty_def)

lemma triple: "t = (fst t, fst (snd t), snd (snd t))"
  by simp

lemma demo_pay_run: "pay_run (demo_sys demo_pay_db demo_host) (demo_sys (fst demo_6) (snd demo_6))"
proof -
  let ?st = "pay_step LedgerCredit host_usable host_quiet"
  have "?st (demo_sys demo_pay_db demo_host) (demo_sys demo_d1 demo_host)"
    unfolding demo_d1_def
    using y_generate [OF surjective_pairing, where s = "demo_sys demo_pay_db demo_host"] by simp
  moreover have "?st (demo_sys demo_d1 demo_host) (demo_sys (fst demo_2) (snd demo_2))"
    unfolding demo_2_def
    using y_redeem [where usable = host_usable and h = demo_host_env and credit = LedgerCredit and quiet = host_quiet and s = "demo_sys demo_d1 demo_host",
      OF demo_usable triple] by simp
  moreover have "?st (demo_sys (fst demo_2) (snd demo_2)) (demo_sys demo_d3 (snd demo_2))"
    unfolding demo_d3_def
    using y_order [OF surjective_pairing, where s = "demo_sys (fst demo_2) (snd demo_2)"] by simp
  moreover have "?st\<^sup>*\<^sup>* (demo_sys demo_d3 (snd demo_2)) (demo_sys (fst demo_4) (snd demo_4))"
    unfolding demo_4_def using handle_notification_is_steps [where usable = host_usable and h = demo_host_env and
      credit = LedgerCredit and quiet = host_quiet, OF triple demo_usable] by simp
  moreover have "?st (demo_sys (fst demo_4) (snd demo_4)) (demo_sys demo_d5 (snd demo_4))"
    unfolding demo_d5_def
    using y_create_promo [OF surjective_pairing, where s = "demo_sys (fst demo_4) (snd demo_4)"] by simp
  moreover have "?st (demo_sys demo_d5 (snd demo_4)) (demo_sys (fst demo_6) (snd demo_6))"
    unfolding demo_6_def
    using y_apply_promo [where usable = host_usable and h = demo_host_env and credit = LedgerCredit and quiet = host_quiet and s = "demo_sys demo_d5 (snd demo_4)",
      OF demo_usable triple] by simp
  ultimately show ?thesis by (meson converse_rtranclp_into_rtranclp r_into_rtranclp rtranclp_trans)
qed

lemma demo_6_values:
  "(case demo_6 of (d, _) \<Rightarrow>
     map (\<lambda>c. (rd_id c, rd_type c, rd_status c, rd_used_by c)) (pd_codes d) = [(1, RedeemTypeBalance, RedeemUsed, Some 1)] \<and>
     map (\<lambda>x. (po_id x, po_user x, po_amount x, po_status x)) (pd_orders d) = [(1, 1, 2, OrderCompleted)] \<and>
     map (\<lambda>u. (pu_promo u, pu_user u, pu_bonus u)) (pd_usages d) = [(1, 1, 3)])"
  by code_simp

lemma demo_6_rows:
  "\<exists>c. pd_codes (fst demo_6) = [c] \<and> rd_id c = 1 \<and> rd_type c = RedeemTypeBalance \<and> rd_status c = RedeemUsed \<and>
     rd_used_by c = Some 1"
  "\<exists>x. pd_orders (fst demo_6) = [x] \<and> po_id x = 1 \<and> po_status x = OrderCompleted"
  "\<exists>u. pd_usages (fst demo_6) = [u] \<and> pu_promo u = 1 \<and> pu_user u = 1 \<and> pu_bonus u = 3"
proof -
  obtain d h where d: "demo_6 = (d, h)" by (cases demo_6) simp
  note rows = demo_6_values [unfolded d prod.case]
  show "\<exists>c. pd_codes (fst demo_6) = [c] \<and> rd_id c = 1 \<and> rd_type c = RedeemTypeBalance \<and> rd_status c = RedeemUsed \<and>
     rd_used_by c = Some 1"
    "\<exists>x. pd_orders (fst demo_6) = [x] \<and> po_id x = 1 \<and> po_status x = OrderCompleted"
    "\<exists>u. pd_usages (fst demo_6) = [u] \<and> pu_promo u = 1 \<and> pu_user u = 1 \<and> pu_bonus u = 3"
    unfolding d fst_conv using rows by (auto simp: map_eq_Cons_conv)
qed

theorem redeem_code_pays_once_witness:
  "\<exists>r. rows_under (snd demo_6) (code_key 1) = [r] \<and> l_user r = 1"
proof -
  obtain c where c: "pd_codes (fst demo_6) = [c]" "rd_id c = 1" "rd_type c = RedeemTypeBalance"
    "rd_status c = RedeemUsed" "rd_used_by c = Some 1" using demo_6_rows(1) by blast
  with redeem_code_pays_once [OF demo_pay_run demo_fresh, of c] show ?thesis by auto
qed

theorem order_pays_once_witness: "\<exists>r. rows_under (snd demo_6) (order_key 1) = [r]"
proof -
  obtain x where x: "pd_orders (fst demo_6) = [x]" "po_id x = 1" "po_status x = OrderCompleted"
    using demo_6_rows(2) by blast
  with order_pays_once [OF demo_pay_run demo_fresh, of x]
  have "length (rows_under (snd demo_6) (order_key 1)) \<le> 1" "rows_under (snd demo_6) (order_key 1) \<noteq> []" by simp_all
  then show ?thesis by (cases "rows_under (snd demo_6) (order_key 1)") auto
qed

theorem promo_use_is_credited_witness:
  "\<exists>r. rows_under (snd demo_6) (promo_key 1 1) = [r] \<and> l_user r = 1 \<and> l_delta r = 3"
proof -
  obtain u where u: "pd_usages (fst demo_6) = [u]" "pu_promo u = 1" "pu_user u = 1" "pu_bonus u = 3"
    using demo_6_rows(3) by blast
  with promo_use_is_credited [OF demo_pay_run demo_fresh] show ?thesis by simp
qed

subsection \<open>Where the tables and the ledger part\<close>

text \<open>
  The status guards no credit: a notification for an order that was cancelled, or is being refunded,
  credits and completes it.
\<close>

lemma any_status_is_fulfilled:
  assumes "check_notification pe n d = NoteFulfil ord" and "\<not> pe_fails pe ''paid''" "\<not> pe_fails pe ''db''"
    "\<not> pe_fails pe ''recharging''" "\<not> pe_fails pe ''completed''"
    and "credit (order_credit pe (po_id ord) (po_user ord) (po_amount ord)) s = (Inr r, s')"
  shows "handle_notification pe credit now n d s =
    (Inr (), mark_completed (po_id ord) (mark_recharging (po_id ord) (mark_paid now (nt_trade_no n) (po_id ord) d)), s')"
  using assms by (simp add: handle_notification_def executeFulfillment_def Let_def)

text \<open>
  A promo code for one use, applied by two users of whom the first one's commit fails: both are
  credited, and the code counts one use.
\<close>

lemma failed_commit_exceeds_limit:
  "(case CreatePromoCode demo_pay_env ''P'' 3 1 None None demo_pay_db of (_, d) \<Rightarrow>
    case ApplyPromoCode (demo_pay_env\<lparr>pe_commit := RolledBack\<rparr>) (LedgerCredit demo_host_env) 5 1 ''P'' d demo_host of (_, d1, h1) \<Rightarrow>
    case ApplyPromoCode demo_pay_env (LedgerCredit demo_host_env) 5 2 ''P'' d1 h1 of (res, d2, h2) \<Rightarrow>
      \<not> isl res \<and> map pm_count (pd_promos d2) = [1] \<and> db_balance (ho_db h2) 1 = 3 \<and> db_balance (ho_db h2) 2 = 3)"
  by code_simp

text \<open>No order made by \<open>CreateOrder\<close> has the number every webhook stands for, so no webhook reaches one.\<close>

lemma webhook_finds_no_order:
  assumes "\<forall>x \<in> set (pd_orders d). \<exists>uuid. po_out_trade_no x = OrderIDPrefix @ uuid"
  shows "snd (handleWebhook pe credit now provider body d s) = (d, s)"
proof -
  have "List.find (\<lambda>x. po_out_trade_no x = ''mock_out_trade_no'') (pd_orders d) = None"
    using assms by (fastforce simp: find_None_iff OrderIDPrefix_def)
  then show ?thesis
    by (simp add: handleWebhook_def HandlePaymentNotification_def handle_notification_def
      check_notification_def mock_notification_def)
qed

end
