(* ===== verification/PriceText.thy ===== *)
theory PriceText
  imports GoStrings "HOL-Library.Product_Lexorder"
begin

section \<open>Price expressions as text (\<open>billing/expr/expr.go\<close>, \<open>generate.go\<close>, \<open>video.go\<close>)\<close>

text \<open>
  A price is a text: an optional version, a base expression, and request rules after \<open>|||\<close>. The
  visual editor's configurations are turned into such texts and later split again before they are
  compiled. The lemmas show that no name, header or value typed into the editor can add, hide or join
  rules. \<open>golib\<close> holds what the code takes from Go's library and the tables of Unicode and time zones.
\<close>

subsection \<open>Numbers and the library\<close>

text \<open>A \<open>float64\<close>: a number, or one of the values \<open>checkNum\<close> and \<open>finiteNonNeg\<close> refuse.\<close>

datatype fl = Fin rat | PosInf | NegInf | NaN

definition finiteNonNeg :: "fl \<Rightarrow> bool" where
  "finiteNonNeg f = (case f of Fin q \<Rightarrow> q \<ge> 0 | _ \<Rightarrow> False)"

record golib =
  fmtNum :: "fl \<Rightarrow> string"
  quoteRune :: "string \<Rightarrow> string \<times> nat"
  toLower :: "string \<Rightarrow> string"
  zones :: "string \<Rightarrow> bool"
  parseFloat :: "string \<Rightarrow> fl option"

subsection \<open>The version and the rules of a text\<close>

definition re_space :: "char \<Rightarrow> bool" where
  "re_space c \<longleftrightarrow> c \<in> {CHR 0x20, CHR 0x09, CHR 0x0A, CHR 0x0C, CHR 0x0D}"

definition versionPrefix :: "string \<Rightarrow> (string \<times> string) option" where
  "versionPrefix s = (case s of
       [] \<Rightarrow> None
     | c # r \<Rightarrow>
         let ds = takeWhile isDigit r; r' = dropWhile re_space (dropWhile isDigit r) in
         if c = CHR ''v'' \<and> ds \<noteq> [] then
           (case r' of d # body \<Rightarrow> if d = CHR '':'' then Some (ds, body) else None | [] \<Rightarrow> None)
         else None)"

text \<open>\<open>Atoi\<close> of too many digits is the largest \<open>int64\<close>; its error is dropped.\<close>

definition splitVersion :: "string \<Rightarrow> unit + int \<times> string" where
  "splitVersion src =
     (let s = trimSpace src in
      case versionPrefix s of
        None \<Rightarrow> Inr (1, s)
      | Some (ds, body) \<Rightarrow>
          let v = (case Atoi ds of Some v \<Rightarrow> v | None \<Rightarrow> 9223372036854775807) in
          if v \<noteq> 1 then Inl () else Inr (v, trimSpace body))"

text \<open>What \<open>Hash\<close> hashes, and the source a program keeps.\<close>

definition canon :: "string \<Rightarrow> string" where
  "canon src = (case splitVersion src of
       Inl _ \<Rightarrow> trimSpace src
     | Inr (v, body) \<Rightarrow> ''v'' @ itoa v @ '':'' @ body)"

text \<open>
  \<open>splitRules\<close>: \<open>q\<close> is the open quote, \<open>acc\<close> the part since \<open>start\<close>.
\<close>

definition is_quote :: "char \<Rightarrow> bool" where
  "is_quote c \<longleftrightarrow> c \<in> {CHR 0x22, CHR 0x27, CHR 0x60}"

fun scan_rules :: "char option \<Rightarrow> string \<Rightarrow> string \<Rightarrow> string list" where
  "scan_rules q acc [] = [trimSpace acc]"
| "scan_rules (Some q) acc (c # cs) =
     (if c = CHR 0x5C \<and> q \<noteq> CHR 0x60 then
        (case cs of [] \<Rightarrow> [trimSpace (acc @ [c])] | d # ds \<Rightarrow> scan_rules (Some q) (acc @ [c, d]) ds)
      else scan_rules (if c = q then None else Some q) (acc @ [c]) cs)"
| "scan_rules None acc (c # cs) =
     (if is_quote c then scan_rules (Some c) (acc @ [c]) cs
      else if c = CHR ''|'' \<and> take 2 cs = ''||'' then trimSpace acc # scan_rules None [] (drop 2 cs)
      else scan_rules None (acc @ [c]) cs)"

definition splitRules :: "string \<Rightarrow> string list" where
  "splitRules body = scan_rules None [] body"

subsection \<open>Quoting\<close>

definition hexDigit :: "nat \<Rightarrow> char" where
  "hexDigit n = ''0123456789abcdef'' ! n"

text \<open>\<open>strconv.Quote\<close> of one byte below \<open>0x80\<close>.\<close>

definition escape :: "char \<Rightarrow> string" where
  "escape c =
     (let n = of_char c :: nat in
      if c = CHR 0x22 \<or> c = CHR 0x5C then [CHR 0x5C, c]
      else if 32 \<le> n \<and> n < 127 then [c]
      else if n = 7 then [CHR 0x5C, CHR ''a''] else if n = 8 then [CHR 0x5C, CHR ''b'']
      else if n = 12 then [CHR 0x5C, CHR ''f''] else if n = 10 then [CHR 0x5C, CHR ''n'']
      else if n = 13 then [CHR 0x5C, CHR ''r''] else if n = 9 then [CHR 0x5C, CHR ''t'']
      else if n = 11 then [CHR 0x5C, CHR ''v'']
      else [CHR 0x5C, CHR ''x'', hexDigit (n div 16), hexDigit (n mod 16)])"

text \<open>From \<open>0x80\<close> on \<open>quoteRune\<close> decodes a rune: its text and its width in bytes.\<close>

function quote_body :: "golib \<Rightarrow> string \<Rightarrow> string" where
  "quote_body g [] = []"
| "quote_body g (c # cs) =
     (if (of_char c :: nat) < 128 then escape c @ quote_body g cs
      else (case quoteRune g (c # cs) of (t, w) \<Rightarrow> t @ quote_body g (drop (w - 1) cs)))"
  by pat_completeness auto
termination quote_body
  by (relation "measure (\<lambda>(_, s). length s)") auto

definition Quote :: "golib \<Rightarrow> string \<Rightarrow> string" where
  "Quote g s = CHR 0x22 # quote_body g s @ [CHR 0x22]"

subsection \<open>The editor's configurations\<close>

text \<open>
  Decoded JSON. A value of a rule is kept as the JSON it is, \<open>JAbsent\<close> when it is missing or no JSON.
\<close>

datatype jvalue = JAbsent | JNull | JBool bool | JNum fl | JStr string | JArr "jvalue list" | JObj

record token_prices =
  tp_p :: "fl option"
  tp_c :: "fl option"
  tp_cr :: "fl option"
  tp_cc :: "fl option"
  tp_cc1h :: "fl option"

record tier_config =
  tc_name :: string
  tc_max_len :: "fl option"
  tc_prices :: "token_prices option"
  tc_direct :: token_prices
  tc_flat :: "fl option"

record rule_config =
  rc_source :: string
  rc_kind :: string
  rc_name :: string
  rc_path :: string
  rc_op :: string
  rc_value :: jvalue
  rc_tz :: string
  rc_from :: "int option"
  rc_to :: "int option"
  rc_multiplier :: "fl option"

record resolution_price =
  vr_sizes :: "string list"
  vr_tokens :: fl
  vr_input :: fl
  vr_second :: fl

record video_config =
  vc_tokens :: fl
  vc_input :: fl
  vc_second :: fl
  vc_resolutions :: "resolution_price list"

record expression_config =
  ec_video :: "video_config option"
  ec_tiers :: "tier_config list"
  ec_rules :: "rule_config list"

datatype price_config =
    PerRequest "fl option"
  | PerToken token_prices
  | Expr expression_config

subsection \<open>Generating the text\<close>

text \<open>A \<open>ConfigError\<close> is the field it names; its message is not modelled.\<close>

definition checkNum :: "string \<Rightarrow> fl \<Rightarrow> string + unit" where
  "checkNum field f = ensure (finiteNonNeg f) field"

definition concatWith :: "string \<Rightarrow> string list \<Rightarrow> string" where
  "concatWith sep ws = (case ws of [] \<Rightarrow> [] | w # ws' \<Rightarrow> w @ concat (map (\<lambda>x. sep @ x) ws'))"

definition RuleSeparator :: string where
  "RuleSeparator = ''|||''"

definition price_rows :: "token_prices \<Rightarrow> (string \<times> fl option \<times> bool) list" where
  "price_rows c = [(''p'', tp_p c, True), (''c'', tp_c c, True), (''cr'', tp_cr c, False),
     (''cc'', tp_cc c, False), (''cc1h'', tp_cc1h c, False)]"

primrec price_terms :: "golib \<Rightarrow> string \<Rightarrow> (string \<times> fl option \<times> bool) list \<Rightarrow> string + string list" where
  "price_terms g field [] = Inr []"
| "price_terms g field (x # xs) = (case x of (name, v, required) \<Rightarrow>
     if v = None \<and> \<not> required then price_terms g field xs
     else (let f = (case v of Some f \<Rightarrow> f | None \<Rightarrow> Fin 0) in
       and_then (checkNum (field @ ''.'' @ name) f) (\<lambda>_.
       and_then (price_terms g field xs) (\<lambda>ts. Inr ((name @ ''*'' @ fmtNum g f) # ts)))))"

definition tokenBody :: "golib \<Rightarrow> string \<Rightarrow> token_prices \<Rightarrow> fl option \<Rightarrow> string + string" where
  "tokenBody g field c flat =
     and_then (case flat of
         None \<Rightarrow> Inr []
       | Some f \<Rightarrow> if f = Fin 0 then Inr []
           else and_then (checkNum (field @ ''.flat'') f) (\<lambda>_. Inr [''flat('' @ fmtNum g f @ '')'']))
     (\<lambda>fl. and_then (price_terms g field (price_rows c)) (\<lambda>ts. Inr (concatWith '' + '' (fl @ ts))))"

definition tier_name_char :: "char \<Rightarrow> bool" where
  "tier_name_char c \<longleftrightarrow> c \<in> set ''ABCDEFGHIJKLMNOPQRSTUVWXYZabcdefghijklmnopqrstuvwxyz0123456789_.-''"

definition tierNameRe :: "string \<Rightarrow> bool" where
  "tierNameRe s \<longleftrightarrow> list_all tier_name_char s \<and> 1 \<le> length s \<and> length s \<le> 64"

definition headerNameRe :: "string \<Rightarrow> bool" where
  "headerNameRe s \<longleftrightarrow>
     list_all (\<lambda>c. tier_name_char c \<or> c \<in> {CHR ''!'', CHR ''#'', CHR ''$'', CHR ''%'', CHR ''&'', CHR 0x27,
       CHR ''*'', CHR ''+'', CHR ''^'', CHR ''|'', CHR ''~''}) s \<and>
     1 \<le> length s \<and> length s \<le> 100"

record tb =
  tb_name :: string
  tb_maxLen :: "rat option"
  tb_body :: string

definition finite_part :: "fl \<Rightarrow> rat" where
  "finite_part f = (case f of Fin q \<Rightarrow> q | _ \<Rightarrow> 0)"

definition tier_of :: "golib \<Rightarrow> nat \<Rightarrow> string set \<Rightarrow> tier_config \<Rightarrow> string + tb" where
  "tier_of g i names t =
     (let field = ''config.tiers['' @ itoa (int i) @ '']'' in
      and_then (ensure (tierNameRe (tc_name t)) (field @ ''.name'')) (\<lambda>_.
      and_then (ensure (tc_name t \<notin> names) (field @ ''.name'')) (\<lambda>_.
      and_then (tokenBody g field (case tc_prices t of Some p \<Rightarrow> p | None \<Rightarrow> tc_direct t) (tc_flat t)) (\<lambda>body.
      case tc_max_len t of
        None \<Rightarrow> Inr \<lparr>tb_name = tc_name t, tb_maxLen = None, tb_body = body\<rparr>
      | Some m \<Rightarrow> and_then (checkNum (field @ ''.max_len'') m) (\<lambda>_.
          Inr \<lparr>tb_name = tc_name t, tb_maxLen = Some (finite_part m), tb_body = body\<rparr>)))))"

primrec tiers_of :: "golib \<Rightarrow> nat \<Rightarrow> string set \<Rightarrow> tier_config list \<Rightarrow> string + tb list" where
  "tiers_of g i names [] = Inr []"
| "tiers_of g i names (t # ts) =
     and_then (tier_of g i names t) (\<lambda>x.
     and_then (tiers_of g (Suc i) (insert (tc_name t) names) ts) (\<lambda>xs. Inr (x # xs)))"

definition tier_key :: "tb \<Rightarrow> bool \<times> rat" where
  "tier_key x = (case tb_maxLen x of None \<Rightarrow> (True, 0) | Some m \<Rightarrow> (False, m))"

fun same_neighbours :: "tb list \<Rightarrow> bool" where
  "same_neighbours (x # y # ys) \<longleftrightarrow>
     (tb_maxLen y \<noteq> None \<and> tb_maxLen y = tb_maxLen x) \<or> same_neighbours (y # ys)"
| "same_neighbours _ \<longleftrightarrow> False"

definition call :: "golib \<Rightarrow> tb \<Rightarrow> string" where
  "call g t = ''tier('' @ Quote g (tb_name t) @ '', '' @ tb_body t @ '')''"

text \<open>The loop that builds the conditional from the right; every inner one is in parentheses.\<close>

fun chain :: "golib \<Rightarrow> tb list \<Rightarrow> string" where
  "chain g [] = []"
| "chain g [t] = call g t"
| "chain g (t # u # ts) =
     ''len <= '' @ fmtNum g (Fin (the (tb_maxLen t))) @ '' ? '' @ call g t @ '' : '' @
     (if ts = [] then chain g [u] else ''('' @ chain g (u # ts) @ '')'')"

definition sorted_tiers :: "golib \<Rightarrow> tier_config list \<Rightarrow> string + tb list" where
  "sorted_tiers g cs =
     and_then (ensure (cs \<noteq> []) ''config.tiers'') (\<lambda>_.
     and_then (tiers_of g 0 {} cs) (\<lambda>unsorted.
     let ts = sort_key tier_key unsorted in
     and_then (ensure (length ts > 1 \<longrightarrow> length (filter (\<lambda>t. tb_maxLen t = None) ts) = 1) ''config.tiers'') (\<lambda>_.
     and_then (ensure (\<not> same_neighbours ts) ''config.tiers'') (\<lambda>_. Inr ts))))"

subsection \<open>Request rules\<close>

definition stringValue :: "string \<Rightarrow> jvalue \<Rightarrow> string + string" where
  "stringValue field raw = (case raw of JStr s \<Rightarrow> (if s = [] then Inl (field @ ''.value'') else Inr s)
     | _ \<Rightarrow> Inl (field @ ''.value''))"

definition literal :: "golib \<Rightarrow> string \<Rightarrow> jvalue \<Rightarrow> string + string" where
  "literal g field raw = (case raw of
       JStr s \<Rightarrow> Inr (Quote g s)
     | JNum f \<Rightarrow> Inr (fmtNum g f)
     | JBool b \<Rightarrow> Inr (if b then ''true'' else ''false'')
     | _ \<Rightarrow> Inl (field @ ''.value''))"

text \<open>A bound of a range: \<open>null\<close>, a number, or a numeric string (\<open>Num.UnmarshalJSON\<close>).\<close>

definition UnmarshalNum :: "golib \<Rightarrow> jvalue \<Rightarrow> fl option option" where
  "UnmarshalNum g v = (case v of
       JNull \<Rightarrow> Some None
     | JNum f \<Rightarrow> Some (Some f)
     | JStr s \<Rightarrow> map_option Some (parseFloat g (trimSpace s))
     | _ \<Rightarrow> None)"

definition range_bounds :: "golib \<Rightarrow> jvalue \<Rightarrow> (fl option \<times> fl option) option" where
  "range_bounds g v = (case v of
       JArr [a, b] \<Rightarrow> (case (UnmarshalNum g a, UnmarshalNum g b) of (Some x, Some y) \<Rightarrow> Some (x, y) | _ \<Rightarrow> None)
     | _ \<Rightarrow> None)"

definition loadLocation :: "golib \<Rightarrow> string \<Rightarrow> bool" where
  "loadLocation g name \<longleftrightarrow> name \<noteq> [] \<and> name \<noteq> ''Local'' \<and> zones g name"

definition header_cond :: "golib \<Rightarrow> string \<Rightarrow> rule_config \<Rightarrow> string + string" where
  "header_cond g field r =
     (let name = toLower g (trimSpace (rc_name r)); h = ''header('' @ Quote g name @ '')'' in
      and_then (ensure (headerNameRe name) (field @ ''.name'')) (\<lambda>_.
      and_then (stringValue field (rc_value r)) (\<lambda>s.
      if rc_op r \<in> {''contains'', []} then Inr (''has('' @ h @ '', '' @ Quote g s @ '')'')
      else if rc_op r = ''eq'' then Inr (h @ '' == '' @ Quote g s)
      else Inl (field @ ''.op''))))"

definition range_cond :: "golib \<Rightarrow> string \<Rightarrow> string \<Rightarrow> jvalue \<Rightarrow> string + string" where
  "range_cond g field pr v = (case range_bounds g v of
       None \<Rightarrow> Inl (field @ ''.value'')
     | Some (lo, hi) \<Rightarrow>
         let num = ''('' @ pr @ '' ?? 0)'';
             cs = (case lo of None \<Rightarrow> [] | Some f \<Rightarrow> [num @ '' >= '' @ fmtNum g f]) @
                  (case hi of None \<Rightarrow> [] | Some f \<Rightarrow> [num @ '' <= '' @ fmtNum g f])
         in if cs = [] then Inl (field @ ''.value'') else Inr (concatWith '' && '' cs))"

definition param_cond :: "golib \<Rightarrow> string \<Rightarrow> rule_config \<Rightarrow> string + string" where
  "param_cond g field r =
     (let path = (if trimSpace (rc_path r) = [] then trimSpace (rc_name r) else trimSpace (rc_path r));
          pr = ''param('' @ Quote g path @ '')'' in
      and_then (ensure (path \<noteq> [] \<and> length path \<le> 200) (field @ ''.path'')) (\<lambda>_.
      if rc_op r = ''contains'' then
        and_then (stringValue field (rc_value r)) (\<lambda>s. Inr (''has('' @ pr @ '', '' @ Quote g s @ '')''))
      else if rc_op r \<in> {''eq'', []} then
        and_then (literal g field (rc_value r)) (\<lambda>l. Inr (pr @ '' == '' @ l))
      else if rc_op r = ''range'' then range_cond g field pr (rc_value r)
      else Inl (field @ ''.op'')))"

definition time_cond :: "golib \<Rightarrow> string \<Rightarrow> rule_config \<Rightarrow> string + string" where
  "time_cond g field r =
     (let tz = (if trimSpace (rc_tz r) = [] then ''UTC'' else trimSpace (rc_tz r)) in
      and_then (ensure (loadLocation g tz) (field @ ''.tz'')) (\<lambda>_.
      case (rc_from r, rc_to r) of
        (Some from, Some to) \<Rightarrow>
          if from < 0 \<or> from > 23 \<or> to < 0 \<or> to > 24 \<or> from = to then Inl field
          else (let h = ''hour('' @ Quote g tz @ '')'' in
            Inr (if from < to then h @ '' >= '' @ itoa from @ '' && '' @ h @ '' < '' @ itoa to
                 else ''('' @ h @ '' >= '' @ itoa from @ '' || '' @ h @ '' < '' @ itoa to @ '')''))
      | _ \<Rightarrow> Inl field))"

definition ruleExpr :: "golib \<Rightarrow> string \<Rightarrow> rule_config \<Rightarrow> string + string" where
  "ruleExpr g field r = (case rc_multiplier r of
       None \<Rightarrow> Inl (field @ ''.multiplier'')
     | Some m \<Rightarrow> and_then (checkNum (field @ ''.multiplier'') m) (\<lambda>_.
         let source = (if rc_source r = [] then rc_kind r else rc_source r) in
         and_then (if source = ''header'' then header_cond g field r
                   else if source = ''param'' then param_cond g field r
                   else if source = ''time'' then time_cond g field r
                   else Inl (field @ ''.source'')) (\<lambda>cond.
         Inr (cond @ '' ? '' @ fmtNum g m @ '' : 1''))))"

definition rule_field :: "nat \<Rightarrow> string" where
  "rule_field i = ''config.rules['' @ itoa (int i) @ '']''"

primrec rules_text :: "golib \<Rightarrow> nat \<Rightarrow> rule_config list \<Rightarrow> string + string list" where
  "rules_text g i [] = Inr []"
| "rules_text g i (r # rs) =
     and_then (ruleExpr g (rule_field i) r) (\<lambda>s.
     and_then (rules_text g (Suc i) rs) (\<lambda>ss. Inr (s # ss)))"

subsection \<open>Video templates\<close>

definition videoTier :: "golib \<Rightarrow> string \<Rightarrow> video_config \<Rightarrow> string" where
  "videoTier g name c =
     (let rate = fmtNum g (vc_tokens c);
          positive = (\<lambda>f. case f of Fin q \<Rightarrow> q > 0 | PosInf \<Rightarrow> True | _ \<Rightarrow> False);
          inputRate = (if positive (vc_input c) then fmtNum g (vc_input c) else rate);
          selected = ''(u(\"video_input\") == true ? '' @ inputRate @ '' : '' @ rate @ '')'';
          plain = ''c * '' @ selected;
          seconds = ''flat('' @ fmtNum g (vc_second c) @
            '') * (u(\"video_seconds\") ?? 0) * (u(\"video_pixels\") ?? 0) / 921600 * '' @ selected @ '' / '' @ rate;
          body = (if positive (vc_second c)
            then ''u(\"video_estimated\") == true ? ('' @ seconds @ '') : ('' @ plain @ '')'' else plain)
      in ''tier('' @ Quote g name @ '', '' @ body @ '')'')"

definition size_of :: "golib \<Rightarrow> string \<Rightarrow> (int \<times> int) option" where
  "size_of g s =
     (let (a, b, ok) = cut (CHR ''x'') (toLower g (trimSpace s)) in
      case (ok, Atoi (trimSpace a), Atoi (trimSpace b)) of
        (True, Some w, Some h) \<Rightarrow> if w \<le> 0 \<or> h \<le> 0 \<or> w > 16384 \<or> h > 16384 then None else Some (w, h)
      | _ \<Rightarrow> None)"

definition size_cond :: "int \<times> int \<Rightarrow> string" where
  "size_cond wh = (case wh of (w, h) \<Rightarrow>
     ''((u(\"video_width\") == '' @ itoa w @ '' && u(\"video_height\") == '' @ itoa h @
     '') || (u(\"video_width\") == '' @ itoa h @ '' && u(\"video_height\") == '' @ itoa w @ ''))'')"

definition size_key :: "int \<times> int \<Rightarrow> string" where
  "size_key wh = (case wh of (w, h) \<Rightarrow> itoa (min w h) @ ''x'' @ itoa (max w h))"

primrec size_conds :: "golib \<Rightarrow> string \<Rightarrow> string list \<Rightarrow> string set \<Rightarrow> string + string list \<times> string set" where
  "size_conds g field [] seen = Inr ([], seen)"
| "size_conds g field (s # ss) seen = (case size_of g s of
       None \<Rightarrow> Inl (field @ ''.sizes'')
     | Some wh \<Rightarrow>
         if size_key wh \<in> seen then Inl (field @ ''.sizes'')
         else and_then (size_conds g field ss (insert (size_key wh) seen)) (\<lambda>(cs, seen').
           Inr (size_cond wh # cs, seen')))"

definition positive_or :: "fl \<Rightarrow> fl \<Rightarrow> fl" where
  "positive_or f d = (case f of Fin q \<Rightarrow> if q > 0 then f else d | PosInf \<Rightarrow> f | _ \<Rightarrow> d)"

definition effective :: "video_config \<Rightarrow> resolution_price \<Rightarrow> video_config" where
  "effective c r = c\<lparr>vc_tokens := positive_or (vr_tokens r) (vc_tokens c),
     vc_input := positive_or (vr_input r) (vc_input c), vc_second := positive_or (vr_second r) (vc_second c)\<rparr>"

definition check_all :: "string \<Rightarrow> fl list \<Rightarrow> string + unit" where
  "check_all field fs = ensure (list_all finiteNonNeg fs) field"

text \<open>One entry, wrapping the text of the entries behind it.\<close>

definition video_entry :: "golib \<Rightarrow> video_config \<Rightarrow> nat \<Rightarrow> resolution_price \<Rightarrow> string \<times> string set \<Rightarrow>
    string + string \<times> string set" where
  "video_entry g c i r st = (case st of (body, seen) \<Rightarrow>
     let field = ''config.video.resolution_prices['' @ itoa (int i) @ '']'' in
     and_then (ensure (vr_sizes r \<noteq> [] \<and> length (vr_sizes r) \<le> 64) (field @ ''.sizes'')) (\<lambda>_.
     and_then (ensure (\<not> (vr_tokens r = Fin 0 \<and> vr_input r = Fin 0 \<and> vr_second r = Fin 0)) field) (\<lambda>_.
     and_then (check_all field [vr_tokens r, vr_input r, vr_second r]) (\<lambda>_.
     and_then (size_conds g field (vr_sizes r) seen) (\<lambda>(cs, seen').
     Inr (''('' @ concatWith '' || '' cs @ '') ? '' @
          videoTier g (''video_size_'' @ itoa (int i + 1)) (effective c r) @ '' : ('' @ body @ '')'', seen'))))))"

text \<open>The entries from the last one (index \<open>i - 1\<close>) down; the list is reversed.\<close>

primrec video_entries :: "golib \<Rightarrow> video_config \<Rightarrow> nat \<Rightarrow> resolution_price list \<Rightarrow> string \<times> string set \<Rightarrow>
    string + string" where
  "video_entries g c i [] st = Inr (fst st)"
| "video_entries g c i (r # rs) st =
     and_then (video_entry g c (i - 1) r st) (\<lambda>st'. video_entries g c (i - 1) rs st')"

definition generateVideo :: "golib \<Rightarrow> video_config \<Rightarrow> string + string" where
  "generateVideo g c =
     and_then (ensure (case vc_tokens c of Fin q \<Rightarrow> q > 0 | PosInf \<Rightarrow> True | NaN \<Rightarrow> True | NegInf \<Rightarrow> False)
       ''config.video.price_per_million_tokens'') (\<lambda>_.
     and_then (check_all ''config.video'' [vc_tokens c, vc_input c, vc_second c]) (\<lambda>_.
     and_then (ensure (length (vc_resolutions c) \<le> 64) ''config.video.resolution_prices'') (\<lambda>_.
     video_entries g c (length (vc_resolutions c)) (rev (vc_resolutions c)) (videoTier g ''video'' c, {}))))"

subsection \<open>The whole text\<close>

definition generateExpression :: "golib \<Rightarrow> expression_config \<Rightarrow> string + string" where
  "generateExpression g c = (case ec_video c of
       Some v \<Rightarrow> if ec_tiers c \<noteq> [] \<or> ec_rules c \<noteq> [] then Inl ''config'' else generateVideo g v
     | None \<Rightarrow>
         and_then (sorted_tiers g (ec_tiers c)) (\<lambda>ts.
         and_then (rules_text g 0 (ec_rules c)) (\<lambda>rs.
         Inr (concatWith ('' '' @ RuleSeparator @ '' '') (chain g ts # rs)))))"

definition Generate :: "golib \<Rightarrow> price_config \<Rightarrow> string + string" where
  "Generate g cfg = (case cfg of
       PerRequest price \<Rightarrow> (case price of
           None \<Rightarrow> Inl ''config.price''
         | Some f \<Rightarrow> and_then (checkNum ''config.price'' f) (\<lambda>_. Inr (''tier(\"base\", flat('' @ fmtNum g f @ ''))'')))
     | PerToken c \<Rightarrow> and_then (tokenBody g ''config'' c None) (\<lambda>body. Inr (''tier(\"base\", '' @ body @ '')''))
     | Expr c \<Rightarrow> generateExpression g c)"

end
