(* ===== verification/PriceSplit.thy ===== *)
theory PriceSplit
  imports PriceText
begin

section \<open>Generated price texts split back into their parts\<close>

text \<open>
  \<open>neutral t\<close>: reading \<open>t\<close> outside quotes leaves the splitter outside quotes and starts no new part.
  Every text the generator emits is a concatenation of neutral pieces, because names and values pass
  through \<open>strconv.Quote\<close>.
\<close>

named_theorems neutral_intros "texts the splitter passes without cutting"

definition neutral :: "string \<Rightarrow> bool" where
  "neutral t \<longleftrightarrow> (\<forall>acc rest. scan_rules None acc (t @ rest) = scan_rules None (acc @ t) rest)"

definition inside :: "string \<Rightarrow> bool" where
  "inside t \<longleftrightarrow> (\<forall>acc rest. scan_rules (Some (CHR 0x22)) acc (t @ rest) = scan_rules (Some (CHR 0x22)) (acc @ t) rest)"

text \<open>What is assumed of the library: numbers are digits, signs and letters, and a rune beyond ASCII is
  printed as its bytes or as an escape.\<close>

definition number_text :: "string \<Rightarrow> bool" where
  "number_text t \<longleftrightarrow> t \<noteq> [] \<and> set t \<subseteq> set ''0123456789.+-NaInf''"

definition rune_text :: "string \<Rightarrow> bool" where
  "rune_text t \<longleftrightarrow> list_all (\<lambda>c. (of_char c :: nat) \<ge> 128) t \<or>
     (\<exists>r. t = CHR 0x5C # r \<and> r \<noteq> [] \<and> set r \<subseteq> set ''xuU0123456789abcdef'')"

definition lib_ok :: "golib \<Rightarrow> bool" where
  "lib_ok g \<longleftrightarrow> (\<forall>f. number_text (fmtNum g f)) \<and> (\<forall>s. rune_text (fst (quoteRune g s)))"

subsection \<open>Pieces\<close>

lemma neutral_Nil [neutral_intros]: "neutral []"
  by (simp add: neutral_def)

lemma neutral_append [neutral_intros]: "neutral a \<Longrightarrow> neutral b \<Longrightarrow> neutral (a @ b)"
  by (simp add: neutral_def)

lemma neutral_if [neutral_intros]:
  "(b \<Longrightarrow> neutral x) \<Longrightarrow> (\<not> b \<Longrightarrow> neutral y) \<Longrightarrow> neutral (if b then x else y)"
  by simp

definition plain_char :: "char \<Rightarrow> bool" where
  "plain_char c \<longleftrightarrow> \<not> is_quote c \<and> c \<noteq> CHR ''|''"

lemma neutral_Cons [neutral_intros]: "plain_char c \<Longrightarrow> neutral t \<Longrightarrow> neutral (c # t)"
  by (simp add: neutral_def plain_char_def)

lemma neutral_plain: "list_all plain_char t \<Longrightarrow> neutral t"
  by (induction t) (auto intro: neutral_Nil neutral_Cons)

lemma neutral_concat: "(\<And>t. t \<in> set ts \<Longrightarrow> neutral t) \<Longrightarrow> neutral (concat ts)"
  by (induction ts) (auto intro: neutral_intros)

lemma neutral_concatWith:
  "neutral sep \<Longrightarrow> (\<And>t. t \<in> set ts \<Longrightarrow> neutral t) \<Longrightarrow> neutral (concatWith sep ts)"
  by (cases ts) (auto simp: concatWith_def intro!: neutral_intros neutral_concat)

lemma inside_Nil: "inside []"
  by (simp add: inside_def)

lemma inside_append: "inside a \<Longrightarrow> inside b \<Longrightarrow> inside (a @ b)"
  by (simp add: inside_def)

lemma inside_Cons: "c \<noteq> CHR 0x22 \<Longrightarrow> c \<noteq> CHR 0x5C \<Longrightarrow> inside t \<Longrightarrow> inside (c # t)"
  by (simp add: inside_def)

lemma inside_escaped: "inside t \<Longrightarrow> inside (CHR 0x5C # c # t)"
  by (simp add: inside_def)

lemma inside_list: "CHR 0x22 \<notin> set t \<Longrightarrow> CHR 0x5C \<notin> set t \<Longrightarrow> inside t"
  by (induction t) (auto intro: inside_Nil inside_Cons)

lemma neutral_quoted:
  assumes "inside t"
  shows "neutral (CHR 0x22 # t @ [CHR 0x22])"
  using assms by (simp add: neutral_def inside_def is_quote_def)

lemma hexDigit_inside: "n < 16 \<Longrightarrow> hexDigit n \<noteq> CHR 0x22 \<and> hexDigit n \<noteq> CHR 0x5C"
proof -
  assume "n < 16"
  then have "hexDigit n \<in> set ''0123456789abcdef''" unfolding hexDigit_def by (intro nth_mem) simp
  then show ?thesis by auto
qed

lemma inside_escape: "(of_char c :: nat) < 128 \<Longrightarrow> inside (escape c)"
proof -
  assume c: "(of_char c :: nat) < 128"
  have h: "inside [hexDigit (of_char c div 16), hexDigit (of_char c mod 16)]"
    using c hexDigit_inside [of "of_char c div 16"] hexDigit_inside [of "of_char c mod 16"]
    by (intro inside_Cons inside_Nil) auto
  show ?thesis unfolding escape_def Let_def
    by (auto intro: inside_escaped inside_Cons inside_Nil h)
qed

lemma inside_rune:
  assumes "rune_text t"
  shows "inside t"
proof (cases "list_all (\<lambda>c. (of_char c :: nat) \<ge> 128) t")
  case True
  then have "CHR 0x22 \<notin> set t" "CHR 0x5C \<notin> set t" by (auto simp: list_all_iff)
  then show ?thesis by (rule inside_list)
next
  case False
  then obtain r where t: "t = CHR 0x5C # r" "r \<noteq> []" and r: "set r \<subseteq> set ''xuU0123456789abcdef''"
    using assms unfolding rune_text_def by blast
  obtain d ds where r2: "r = d # ds" using t(2) by (cases r) auto
  have "CHR 0x22 \<notin> set r" "CHR 0x5C \<notin> set r" using r by auto
  then have "CHR 0x22 \<notin> set ds" "CHR 0x5C \<notin> set ds" unfolding r2 by simp_all
  then have "inside ds" by (rule inside_list)
  then show ?thesis unfolding t(1) r2 by (rule inside_escaped)
qed

lemma inside_quote_body: "lib_ok g \<Longrightarrow> inside (quote_body g s)"
proof (induction g s rule: quote_body.induct)
  case (1 g)
  show ?case by (simp add: inside_Nil)
next
  case (2 g c cs)
  obtain t w where q: "quoteRune g (c # cs) = (t, w)" by (cases "quoteRune g (c # cs)")
  have "rune_text (fst (quoteRune g (c # cs)))" using 2(3) unfolding lib_ok_def by blast
  then have t: "inside t" using inside_rune by (simp add: q)
  show ?case
  proof (cases "(of_char c :: nat) < 128")
    case True
    then show ?thesis using 2(1) [OF True 2(3)] by (simp add: inside_append inside_escape)
  next
    case False
    then show ?thesis using 2(2) [OF False q [symmetric] 2(3)] t by (simp add: q inside_append)
  qed
qed

lemma neutral_Quote [neutral_intros]: "lib_ok g \<Longrightarrow> neutral (Quote g s)"
  by (simp add: Quote_def neutral_quoted inside_quote_body)

lemma neutral_number [neutral_intros]: "lib_ok g \<Longrightarrow> neutral (fmtNum g f)"
  by (rule neutral_plain) (auto simp: lib_ok_def number_text_def list_all_iff plain_char_def is_quote_def dest!: spec [of _ f])

lemma plain_digit: "isDigit c \<Longrightarrow> plain_char c"
  unfolding isDigit_def plain_char_def is_quote_def by (simp only: list.set insert_iff empty_iff) fastforce

lemma plain_nat_str: "list_all plain_char (nat_str n)"
  using nat_str_digits [of n] plain_digit by (simp add: list_all_iff)

lemma neutral_itoa [neutral_intros]: "neutral (itoa i)"
  unfolding itoa_def using neutral_plain [OF plain_nat_str]
  by (simp add: neutral_Cons plain_char_def is_quote_def)

text \<open>A constant of the generator: read it with the simplifier.\<close>

lemma neutralI: "(\<And>acc rest. scan_rules None acc (t @ rest) = scan_rules None (acc @ t) rest) \<Longrightarrow> neutral t"
  by (simp add: neutral_def)

subsection \<open>Joining and splitting\<close>

lemma strip_step: "leading es s = Some e \<Longrightarrow> strip es s = strip es (drop (length e) s)"
  by (subst strip.simps) simp

lemma strip_space: "strip space_runes (CHR 0x20 # s) = strip space_runes s"
    "strip (map rev space_runes) (CHR 0x20 # s) = strip (map rev space_runes) s"
  by (subst strip_step [of _ _ "[CHR 0x20]"], simp_all add: leading_def space_runes_def)+

definition ends :: "string \<Rightarrow> bool" where
  "ends p \<longleftrightarrow> p \<noteq> [] \<and> solid (hd p) \<and> solid (last p) \<and> hd p \<noteq> CHR ''v''"

lemma trim_padded:
  assumes "ends p" "a \<in> {[], '' ''}" "b \<in> {[], '' ''}"
  shows "trimSpace (a @ p @ b) = p"
proof -
  have l: "strip space_runes (p @ b) = p @ b" and r: "strip (map rev space_runes) (rev p) = rev p"
    using assms(1) by (auto intro!: strip_none leading_none_hd simp: ends_def solid_def hd_append hd_rev)
  have "strip space_runes (a @ p @ b) = p @ b" using assms(2) l by (auto simp: strip_space)
  moreover have "strip (map rev space_runes) (rev (p @ b)) = rev p" using assms(3) r by (auto simp: strip_space)
  ultimately show ?thesis by (simp add: trimSpace_def)
qed

lemma scan_separator:
  "scan_rules None acc (('' '' @ RuleSeparator @ '' '') @ rest) = trimSpace (acc @ '' '') # scan_rules None '' '' rest"
  by (simp add: RuleSeparator_def is_quote_def)

lemma scan_joined:
  assumes sep: "\<And>acc rest. scan_rules None acc (sep @ rest) = trimSpace (acc @ '' '') # scan_rules None '' '' rest"
    and "neutral p" "ends p" "\<forall>q \<in> set ps. neutral q \<and> ends q" "a \<in> {[], '' ''}"
  shows "scan_rules None a (p @ concat (map ((@) sep) ps)) = p # ps"
  using assms(2-)
proof (induction ps arbitrary: p a)
  case Nil
  have "scan_rules None a (p @ []) = scan_rules None (a @ p) []" using Nil.prems(1) unfolding neutral_def by blast
  then show ?case using trim_padded [of p a "[]"] Nil by simp
next
  case (Cons q ps)
  have "scan_rules None '' '' (q @ concat (map ((@) sep) ps)) = q # ps"
    by (rule Cons.IH) (use Cons.prems in auto)
  moreover have "trimSpace (a @ p @ '' '') = p" by (rule trim_padded) (use Cons.prems in auto)
  ultimately show ?case using Cons.prems(1) sep by (simp add: neutral_def)
qed

lemma split_joined:
  assumes "neutral p" "ends p" "\<forall>q \<in> set ps. neutral q \<and> ends q"
  shows "splitRules (concatWith ('' '' @ RuleSeparator @ '' '') (p # ps)) = p # ps"
  unfolding splitRules_def concatWith_def list.case
  by (rule scan_joined [OF scan_separator assms]) simp

subsection \<open>The generator's texts\<close>

lemma solid_consts [simp]: "solid (CHR ''t'')" "solid (CHR ''l'')" "solid (CHR ''('')" "solid (CHR '')'')"
    "solid (CHR ''h'')" "solid (CHR ''p'')" "solid (CHR ''1'')"
  by code_simp+

lemma plain_letters [simp]: "plain_char (CHR ''t'')" "plain_char (CHR '' '')" "plain_char (CHR ''('')" "plain_char (CHR '')'')"
  by (simp_all add: plain_char_def is_quote_def)

lemma neutral_consts [neutral_intros]:
  "neutral ''tier(''" "neutral '', ''" "neutral '')''" "neutral ''('' " "neutral ''*''" "neutral '' + ''"
  "neutral ''flat(''" "neutral ''len <= ''" "neutral '' ? ''" "neutral '' : ''" "neutral '' : 1''"
  "neutral ''header(''" "neutral ''has(''" "neutral '' == ''" "neutral ''param(''" "neutral '' ?? 0)''"
  "neutral '' >= ''" "neutral '' <= ''" "neutral '' && ''" "neutral '' < ''" "neutral ''hour(''"
  "neutral ''true''" "neutral ''false''" "neutral ''c * ''" "neutral '' / ''" "neutral '' : (''"
  "neutral '') : (''" "neutral '') ? ''" "neutral ''))''"
  by (rule neutral_plain, simp add: plain_char_def is_quote_def)+

lemma neutral_or [neutral_intros]: "neutral '' || ''"
  by (rule neutralI) (simp add: is_quote_def)

lemma neutral_fact_consts [neutral_intros]:
  "neutral ''(u(\"video_input\") == true ? ''"
  "neutral '') * (u(\"video_seconds\") ?? 0) * (u(\"video_pixels\") ?? 0) / 921600 * ''"
  "neutral ''u(\"video_estimated\") == true ? (''"
  "neutral ''((u(\"video_width\") == ''" "neutral '' && u(\"video_height\") == ''"
  "neutral '') || (u(\"video_width\") == ''" "neutral ''tier(\"base\", flat(''" "neutral ''tier(\"base\", ''"
  by (rule neutralI, simp add: is_quote_def)+

lemma checkNum_Inr [simp]: "checkNum field f = Inr u \<longleftrightarrow> finiteNonNeg f"
  by (simp add: checkNum_def)

lemma neutral_price_terms:
  assumes "lib_ok g"
  shows "price_terms g field rows = Inr ts \<Longrightarrow> (\<forall>r \<in> set rows. neutral (fst r)) \<Longrightarrow> (\<forall>t \<in> set ts. neutral t)"
  by (induction rows arbitrary: ts)
     (use assms in \<open>auto simp: and_then_eq_Inr Let_def plain_char_def is_quote_def split: prod.splits if_splits intro!: neutral_intros\<close>)

definition flat_part :: "golib \<Rightarrow> string \<Rightarrow> fl option \<Rightarrow> string + string list" where
  "flat_part g field flat = (case flat of
         None \<Rightarrow> Inr []
       | Some f \<Rightarrow> if f = Fin 0 then Inr []
           else and_then (checkNum (field @ ''.flat'') f) (\<lambda>_. Inr [''flat('' @ fmtNum g f @ '')'']))"

lemma tokenBody_parts:
  "tokenBody g field c flat = and_then (flat_part g field flat) (\<lambda>fl.
     and_then (price_terms g field (price_rows c)) (\<lambda>ts. Inr (concatWith '' + '' (fl @ ts))))"
  by (simp add: tokenBody_def flat_part_def)

lemma neutral_flat_part: "lib_ok g \<Longrightarrow> flat_part g field flat = Inr fs \<Longrightarrow> t \<in> set fs \<Longrightarrow> neutral t"
  by (auto simp: flat_part_def and_then_eq_Inr plain_char_def is_quote_def split: option.splits if_splits
      intro!: neutral_intros)

lemma neutral_tokenBody:
  assumes g: "lib_ok g" and b: "tokenBody g field c flat = Inr body"
  shows "neutral body"
proof -
  obtain fs ts where fs: "flat_part g field flat = Inr fs"
    and ts: "price_terms g field (price_rows c) = Inr ts" and body: "body = concatWith '' + '' (fs @ ts)"
    using b by (auto simp: tokenBody_parts and_then_eq_Inr)
  have "\<forall>r \<in> set (price_rows c). neutral (fst r)"
    by (simp add: price_rows_def neutral_plain plain_char_def is_quote_def)
  then have "\<forall>t \<in> set ts. neutral t" by (rule neutral_price_terms [OF g ts])
  then show ?thesis unfolding body using neutral_flat_part [OF g fs]
    by (intro neutral_concatWith neutral_consts) auto
qed

lemma tiers_of_neutral:
  assumes "lib_ok g"
  shows "tiers_of g i names cs = Inr ts \<Longrightarrow> \<forall>t \<in> set ts. neutral (tb_body t)"
  by (induction cs arbitrary: i names ts)
     (use neutral_tokenBody [OF assms] in \<open>auto simp: and_then_eq_Inr tier_of_def Let_def split: option.splits\<close>)

lemma neutral_call: "lib_ok g \<Longrightarrow> neutral (tb_body t) \<Longrightarrow> neutral (call g t)"
  unfolding call_def by (intro neutral_intros)

lemma ends_call: "ends (call g t)"
  by (simp add: call_def ends_def)

lemma ends_last: "ends t \<Longrightarrow> t \<noteq> [] \<and> solid (last t)"
  by (simp add: ends_def)

lemma chain_text:
  "lib_ok g \<Longrightarrow> ts \<noteq> [] \<Longrightarrow> \<forall>t \<in> set ts. neutral (tb_body t) \<Longrightarrow>
     neutral (chain g ts) \<and> ends (chain g ts)"
proof (induction g ts rule: chain.induct)
  case (3 g t u ts)
  let ?tail = "if ts = [] then chain g [u] else ''('' @ chain g (u # ts) @ '')''"
  have "neutral (chain g (u # ts)) \<and> ends (chain g (u # ts))" using 3 by (cases "ts = []") auto
  then have base: "neutral (chain g (u # ts))" "ends (chain g (u # ts))" by auto
  have "neutral (''('' @ chain g (u # ts) @ '')'')" by (intro neutral_append neutral_consts base)
  then have tail: "neutral ?tail" using base by (cases "ts = []") simp_all
  have tail_ends: "ends ?tail" using base by (auto simp: ends_def)
  have c: "neutral (call g t)" using 3 by (simp add: neutral_call)
  have "neutral (chain g (t # u # ts))"
    unfolding chain.simps(3) by (intro neutral_append neutral_consts neutral_number tail c 3)
  moreover have "ends (chain g (t # u # ts))"
    using ends_last [OF tail_ends] unfolding chain.simps(3) ends_def by (simp add: last_append)
  ultimately show ?case by blast
qed (simp_all add: neutral_call ends_call)

lemma sorted_tiers_text:
  assumes "lib_ok g" "sorted_tiers g cs = Inr ts"
  shows "neutral (chain g ts) \<and> ends (chain g ts)"
proof -
  obtain us where us: "tiers_of g 0 {} cs = Inr us" "ts = sort_key tier_key us" "cs \<noteq> []"
    using assms(2) by (auto simp: sorted_tiers_def and_then_eq_Inr Let_def)
  then have "us \<noteq> []" by (cases cs) (auto simp: and_then_eq_Inr)
  then have "ts \<noteq> []" using us(2) by (metis set_empty set_sort)
  then show ?thesis
    using chain_text [OF assms(1)] tiers_of_neutral [OF assms(1) us(1)] us(2) by simp
qed

lemma header_cond_text:
  "lib_ok g \<Longrightarrow> header_cond g field r = Inr cond \<Longrightarrow> neutral cond \<and> cond \<noteq> [] \<and> solid (hd cond) \<and> hd cond \<noteq> CHR ''v''"
  by (auto simp: header_cond_def Let_def and_then_eq_Inr plain_char_def is_quote_def split: if_splits
      intro!: neutral_intros)

lemma neutral_literal: "lib_ok g \<Longrightarrow> literal g field v = Inr l \<Longrightarrow> neutral l"
  by (auto simp: literal_def plain_char_def is_quote_def split: jvalue.splits if_splits intro!: neutral_intros)

lemma range_cond_text:
  assumes "lib_ok g" "neutral pr" "range_cond g field pr v = Inr cond"
  shows "neutral cond \<and> cond \<noteq> [] \<and> solid (hd cond) \<and> hd cond \<noteq> CHR ''v''"
  using assms
  by (auto simp: range_cond_def Let_def concatWith_def plain_char_def is_quote_def split: option.splits if_splits
      intro!: neutral_intros)

lemma stringValue_cases: "stringValue field v = Inr s \<Longrightarrow> v = JStr s \<and> s \<noteq> []"
  by (auto simp: stringValue_def split: jvalue.splits if_splits)

lemma param_cond_text:
  assumes g: "lib_ok g" and c: "param_cond g field r = Inr cond"
  shows "neutral cond \<and> cond \<noteq> [] \<and> solid (hd cond) \<and> hd cond \<noteq> CHR ''v''"
proof -
  define path where "path = (if trimSpace (rc_path r) = [] then trimSpace (rc_name r) else trimSpace (rc_path r))"
  define pr where "pr = ''param('' @ Quote g path @ '')''"
  have pr: "neutral pr" unfolding pr_def by (intro neutral_intros g)
  have hd: "pr \<noteq> []" "hd pr = CHR ''p''" by (simp_all add: pr_def)
  consider s where "cond = ''has('' @ pr @ '', '' @ Quote g s @ '')''"
    | l where "literal g field (rc_value r) = Inr l" "cond = pr @ '' == '' @ l"
    | "range_cond g field pr (rc_value r) = Inr cond"
    using c unfolding param_cond_def Let_def path_def [symmetric] pr_def [symmetric]
    by (auto simp: and_then_eq_Inr split: if_splits)
  then show ?thesis
  proof cases
    case 1
    then show ?thesis using pr g by (auto intro!: neutral_intros simp: plain_char_def is_quote_def)
  next
    case 2
    then show ?thesis using pr g hd neutral_literal [OF g 2(1)]
      by (auto intro!: neutral_intros simp: plain_char_def is_quote_def)
  next
    case 3
    then show ?thesis by (rule range_cond_text [OF g pr])
  qed
qed

lemma time_cond_text:
  assumes g: "lib_ok g" and c: "time_cond g field r = Inr cond"
  shows "neutral cond \<and> cond \<noteq> [] \<and> solid (hd cond) \<and> hd cond \<noteq> CHR ''v''"
proof -
  obtain h a b where h: "neutral h" "h \<noteq> []" "hd h = CHR ''h''"
    and "cond = h @ '' >= '' @ itoa a @ '' && '' @ h @ '' < '' @ itoa b \<or>
         cond = ''('' @ h @ '' >= '' @ itoa a @ '' || '' @ h @ '' < '' @ itoa b @ '')''"
  proof -
    define h where "h = ''hour('' @ Quote g (if trimSpace (rc_tz r) = [] then ''UTC'' else trimSpace (rc_tz r)) @ '')''"
    have "neutral h" unfolding h_def by (intro neutral_intros g)
    moreover have "h \<noteq> []" "hd h = CHR ''h''" by (simp_all add: h_def)
    ultimately show ?thesis using that [of h] c
      unfolding time_cond_def Let_def h_def [symmetric]
      by (auto simp: and_then_eq_Inr split: option.splits if_splits)
  qed
  then show ?thesis
  proof (elim disjE)
    assume "cond = h @ '' >= '' @ itoa a @ '' && '' @ h @ '' < '' @ itoa b"
    then show ?thesis using h by (auto intro!: neutral_intros simp: plain_char_def is_quote_def)
  next
    assume c: "cond = ''('' @ h @ '' >= '' @ itoa a @ '' || '' @ h @ '' < '' @ itoa b @ '')''"
    have "neutral cond" unfolding c by (intro neutral_intros h(1)) simp
    then show ?thesis using c by simp
  qed
qed

lemma ruleExpr_text:
  assumes g: "lib_ok g" and r: "ruleExpr g field r = Inr s"
  shows "neutral s \<and> ends s"
proof -
  obtain m cond where s: "s = cond @ '' ? '' @ fmtNum g m @ '' : 1''"
    and "header_cond g field r = Inr cond \<or> param_cond g field r = Inr cond \<or> time_cond g field r = Inr cond"
    using r unfolding ruleExpr_def by (auto simp: and_then_eq_Inr Let_def split: option.splits if_splits)
  then have c: "neutral cond" "cond \<noteq> []" "solid (hd cond)" "hd cond \<noteq> CHR ''v''"
    using header_cond_text [OF g] param_cond_text [OF g] time_cond_text [OF g] by blast+
  have "neutral s" unfolding s by (intro neutral_append neutral_consts neutral_number c g)
  then show ?thesis using c unfolding s by (simp add: ends_def)
qed

lemma rules_text_all:
  "rules_text g i rs = Inr ss \<Longrightarrow>
     length ss = length rs \<and>
     (\<forall>j < length rs. ruleExpr g (rule_field (i + j)) (rs ! j) = Inr (ss ! j))"
proof (induction rs arbitrary: i ss)
  case (Cons r rs)
  then obtain s ts where s: "ruleExpr g (rule_field i) r = Inr s"
    and ts: "rules_text g (Suc i) rs = Inr ts" and ss: "ss = s # ts"
    by (auto simp: and_then_eq_Inr)
  show ?case unfolding ss using Cons.IH [OF ts] s by (auto simp: nth_Cons less_Suc_eq_0_disj split: nat.splits)
qed simp

subsection \<open>Video templates\<close>

lemma neutral_videoTier: "lib_ok g \<Longrightarrow> neutral (videoTier g name c)"
  unfolding videoTier_def Let_def
  by (intro neutral_if neutral_append neutral_consts neutral_fact_consts neutral_number neutral_Quote)

lemma ends_videoTier: "ends (videoTier g name c)"
  by (simp add: videoTier_def Let_def ends_def last_append)

lemma neutral_size_conds:
  "size_conds g field ss seen = Inr (cs, seen') \<Longrightarrow> \<forall>c \<in> set cs. neutral c"
proof (induction ss arbitrary: seen cs)
  case (Cons a ss)
  have "neutral (size_cond wh)" for wh
    unfolding size_cond_def
    by (cases wh; simp only: prod.case) (intro neutral_append neutral_fact_consts neutral_consts neutral_itoa)
  then show ?case using Cons by (auto simp: and_then_eq_Inr split: option.splits if_splits)
qed simp

lemma video_entry_text:
  assumes "lib_ok g" "video_entry g c i r (body, seen) = Inr (body', seen')" "neutral body" "ends body"
  shows "neutral body' \<and> ends body'"
proof -
  obtain cs where cs: "\<forall>x \<in> set cs. neutral x" and body': "body' = ''('' @ concatWith '' || '' cs @ '') ? '' @
      videoTier g (''video_size_'' @ itoa (int i + 1)) (effective c r) @ '' : ('' @ body @ '')''"
    using assms(2) neutral_size_conds unfolding video_entry_def prod.case Let_def by (fastforce simp: and_then_eq_Inr)
  have "neutral (concatWith '' || '' cs)" by (rule neutral_concatWith [OF neutral_or]) (use cs in blast)
  then have "neutral body'" unfolding body'
    by (intro neutral_append neutral_consts neutral_videoTier assms)
  then show ?thesis unfolding body' by (simp add: ends_def last_append)
qed

lemma video_entries_text:
  assumes "lib_ok g"
  shows "video_entries g c i rs (body, seen) = Inr s \<Longrightarrow> neutral body \<Longrightarrow> ends body \<Longrightarrow> neutral s \<and> ends s"
proof (induction rs arbitrary: i body seen)
  case (Cons r rs)
  then obtain b2 s2 where "video_entry g c (i - 1) r (body, seen) = Inr (b2, s2)"
    "video_entries g c (i - 1) rs (b2, s2) = Inr s" by (auto simp: and_then_eq_Inr)
  then show ?case using video_entry_text [OF assms] Cons by blast
qed simp

lemma generateVideo_text: "lib_ok g \<Longrightarrow> generateVideo g c = Inr s \<Longrightarrow> neutral s \<and> ends s"
  unfolding generateVideo_def and_then_eq_Inr
  by (elim exE conjE) (rule video_entries_text, auto intro: neutral_videoTier ends_videoTier)

subsection \<open>Every generated text\<close>

definition rules_of :: "price_config \<Rightarrow> rule_config list" where
  "rules_of cfg = (case cfg of Expr c \<Rightarrow> ec_rules c | _ \<Rightarrow> [])"

definition without_rules :: "price_config \<Rightarrow> price_config" where
  "without_rules cfg = (case cfg of Expr c \<Rightarrow> Expr (c\<lparr>ec_rules := []\<rparr>) | _ \<Rightarrow> cfg)"

lemma concatWith_single [simp]: "concatWith sep [x] = x"
  by (simp add: concatWith_def)

lemma Generate_parts:
  assumes g: "lib_ok g" and s: "Generate g cfg = Inr s"
  shows "\<exists>b ss. s = concatWith ('' '' @ RuleSeparator @ '' '') (b # ss) \<and> Generate g (without_rules cfg) = Inr b \<and>
    neutral b \<and> ends b \<and> rules_text g 0 (rules_of cfg) = Inr ss"
proof (cases cfg)
  case (PerRequest price)
  then obtain f where "s = ''tier(\"base\", flat('' @ fmtNum g f @ ''))''"
    using s by (auto simp: Generate_def and_then_eq_Inr split: option.splits)
  moreover have "neutral (''tier(\"base\", flat('' @ fmtNum g f @ ''))'')"
    by (intro neutral_append neutral_fact_consts neutral_consts neutral_number g)
  ultimately show ?thesis using PerRequest s
    by (intro exI [of _ s] exI [of _ "[]"]) (simp add: without_rules_def rules_of_def ends_def last_append)
next
  case (PerToken c)
  then obtain body where b: "tokenBody g ''config'' c None = Inr body" "s = ''tier(\"base\", '' @ body @ '')''"
    using s by (auto simp: Generate_def and_then_eq_Inr)
  have "neutral s" unfolding b(2)
    by (intro neutral_append neutral_fact_consts neutral_consts neutral_tokenBody [OF g b(1)])
  then show ?thesis using PerToken s b(2)
    by (intro exI [of _ s] exI [of _ "[]"]) (simp add: without_rules_def rules_of_def ends_def last_append)
next
  case (Expr c)
  show ?thesis
  proof (cases "ec_video c")
    case None
    then obtain ts rs where ts: "sorted_tiers g (ec_tiers c) = Inr ts" and rs: "rules_text g 0 (ec_rules c) = Inr rs"
      and s2: "s = concatWith ('' '' @ RuleSeparator @ '' '') (chain g ts # rs)"
      using s Expr by (auto simp: Generate_def generateExpression_def and_then_eq_Inr)
    have "Generate g (without_rules cfg) = Inr (chain g ts)"
      using Expr None ts by (simp add: Generate_def generateExpression_def without_rules_def)
    then show ?thesis using sorted_tiers_text [OF g ts] rs Expr
      by (intro exI [of _ "chain g ts"] exI [of _ rs]) (simp add: s2 rules_of_def del: append.simps)
  next
    case (Some v)
    then have v: "generateVideo g v = Inr s" "ec_rules c = []"
      using s Expr by (auto simp: Generate_def generateExpression_def split: if_splits)
    have "Generate g (without_rules cfg) = Inr s"
      using Expr Some s v by (simp add: Generate_def generateExpression_def without_rules_def)
    then show ?thesis using generateVideo_text [OF g v(1)] v(2) Expr
      by (intro exI [of _ s] exI [of _ "[]"]) (simp add: rules_of_def)
  qed
qed

lemma ends_concatWith:
  assumes "ends p" "\<forall>q \<in> set ps. ends q"
  shows "ends (concatWith sep (p # ps))"
  using assms
  by (cases ps rule: rev_cases) (auto simp: concatWith_def ends_def last_append hd_append)

lemma splitVersion_none:
  assumes "ends s"
  shows "splitVersion s = Inr (1, s)"
proof -
  have "trimSpace s = s" using trim_padded [OF assms, of "[]" "[]"] by simp
  moreover have "versionPrefix s = None" using assms by (auto simp: versionPrefix_def ends_def split: list.split)
  ultimately show ?thesis by (simp add: splitVersion_def)
qed

text \<open>C15: Whatever names, headers, paths and values an administrator types, the text generated for a
  price has no version prefix and splits back into exactly one base expression, the one generated
  without rules, and the text of every configured rule, in order.\<close>

theorem generated_splits_back:
  assumes "lib_ok g" "Generate g cfg = Inr s"
  shows "splitVersion s = Inr (1, s) \<and>
    (\<exists>b ss. splitRules s = b # ss \<and> Generate g (without_rules cfg) = Inr b \<and> length ss = length (rules_of cfg) \<and>
       (\<forall>j < length ss. ruleExpr g (rule_field j) (rules_of cfg ! j) = Inr (ss ! j)))"
proof -
  obtain b ss where s: "s = concatWith ('' '' @ RuleSeparator @ '' '') (b # ss)"
    and b: "Generate g (without_rules cfg) = Inr b" "neutral b" "ends b"
    and ss: "rules_text g 0 (rules_of cfg) = Inr ss"
    using Generate_parts [OF assms] by blast
  have r: "length ss = length (rules_of cfg)"
    "\<forall>j < length (rules_of cfg). ruleExpr g (rule_field j) (rules_of cfg ! j) = Inr (ss ! j)"
    using rules_text_all [OF ss] by simp_all
  then have ok: "\<forall>q \<in> set ss. neutral q \<and> ends q"
    using ruleExpr_text [OF assms(1)] by (metis in_set_conv_nth)
  have "splitRules s = b # ss" unfolding s by (rule split_joined [OF b(2,3) ok])
  moreover have "splitVersion s = Inr (1, s)"
    unfolding s by (rule splitVersion_none [OF ends_concatWith [OF b(3)]]) (use ok in blast)
  ultimately show ?thesis using b(1) r by auto
qed

subsection \<open>A configuration with a hostile value\<close>

definition demo_lib :: golib where
  "demo_lib = \<lparr>fmtNum = (\<lambda>f. case f of Fin q \<Rightarrow> nat_str (nat \<lfloor>q\<rfloor>) | _ \<Rightarrow> ''NaN''),
     quoteRune = (\<lambda>s. (CHR 0x5C # ''x'' @ [hexDigit (of_char (hd s) div 16), hexDigit (of_char (hd s) mod 16)], 1)),
     toLower = id, zones = (\<lambda>_. True), parseFloat = (\<lambda>_. None)\<rparr>"

lemma demo_lib_ok: "lib_ok demo_lib"
proof -
  have n: "number_text (nat_str n)" for n
  proof -
    have "set ''0123456789'' \<subseteq> set ''0123456789.+-NaInf''" by simp
    moreover have "set (nat_str n) \<subseteq> set ''0123456789''"
      using nat_str_digits [of n] unfolding list_all_iff isDigit_def by blast
    ultimately show ?thesis using nat_str_digits [of n] unfolding number_text_def by blast
  qed
  have h: "hexDigit k \<in> set ''xuU0123456789abcdef''" if "k < 16" for k
  proof -
    have "hexDigit k \<in> set ''0123456789abcdef''" unfolding hexDigit_def by (rule nth_mem) (use that in simp)
    then show ?thesis by auto
  qed
  have "hexDigit (of_char c div 16) \<in> set ''xuU0123456789abcdef''" "hexDigit (of_char c mod 16) \<in> set ''xuU0123456789abcdef''"
    for c :: char
    using nat_of_char_less_256 [of c] by (intro h; linarith)+
  then have "rune_text (fst (quoteRune demo_lib s))" for s
    unfolding rune_text_def demo_lib_def by simp
  moreover have "number_text (fmtNum demo_lib f)" for f
    by (cases f) (simp_all add: demo_lib_def n, simp_all add: number_text_def)
  ultimately show ?thesis by (simp add: lib_ok_def)
qed

definition demo_prices :: "rat \<Rightarrow> token_prices" where
  "demo_prices q = \<lparr>tp_p = Some (Fin q), tp_c = Some (Fin (q + 1)), tp_cr = None, tp_cc = None, tp_cc1h = None\<rparr>"

definition demo_config :: price_config where
  "demo_config = Expr \<lparr>ec_video = None,
     ec_tiers = [\<lparr>tc_name = ''long'', tc_max_len = None, tc_prices = None, tc_direct = demo_prices 2, tc_flat = None\<rparr>,
       \<lparr>tc_name = ''short'', tc_max_len = Some (Fin 8), tc_prices = None, tc_direct = demo_prices 1, tc_flat = None\<rparr>],
     ec_rules = [\<lparr>rc_source = ''header'', rc_kind = [], rc_name = ''x-beta'', rc_path = [], rc_op = ''eq'',
       rc_value = JStr ''\" ||| 1 ? 0 : 1'', rc_tz = [], rc_from = None, rc_to = None, rc_multiplier = Some (Fin 2)\<rparr>]\<rparr>"

lemma demo_generates: "\<not> isl (Generate demo_lib demo_config)"
  by code_simp

theorem generated_splits_back_witness:
  "\<exists>s b r. Generate demo_lib demo_config = Inr s \<and> splitRules s = [b, r]"
proof -
  obtain s where s: "Generate demo_lib demo_config = Inr s"
    using demo_generates by (cases "Generate demo_lib demo_config") auto
  then obtain b ss where "splitRules s = b # ss" "length ss = length (rules_of demo_config)"
    using generated_splits_back [OF demo_lib_ok s] by blast
  moreover have "length (rules_of demo_config) = 1" by (simp add: rules_of_def demo_config_def)
  ultimately show ?thesis using s by (auto simp: length_Suc_conv)
qed

end
