(* ===== verification/PriceProgram.thy ===== *)
theory PriceProgram
  imports PriceSplit "HOL-Library.Log_Nat" "HOL-Library.Char_ord" "HOL-Library.List_Lexorder"
begin

section \<open>Compiling price expressions (\<open>billing/expr/analyze.go\<close>, \<open>expr.go\<close>)\<close>

text \<open>
  \<open>Compile\<close> reads off the syntax tree which inputs an expression needs; the gateway captures exactly
  those when the request arrives and the price is evaluated later, from the capture. The parser, the
  checker and the printer are the third-party package \<open>expr-lang\<close>: \<open>engine\<close> holds them as functions.
  Nodes the analysis does not look at are \<open>OtherNode\<close> with their children in the order of \<open>ast.Walk\<close>.
\<close>

subsection \<open>Syntax trees\<close>

datatype node =
    IdentifierNode string
  | IntegerNode int
  | FloatNode rat
  | StringNode string
  | UnaryNode string node
  | BinaryNode string node node
  | CallNode node "node list"
  | ConditionalNode node node node
  | OtherNode "node list"

record 'p engine =
  eng_parse :: "string \<Rightarrow> string + node"
  eng_string :: "node \<Rightarrow> string"
  eng_float :: "string \<Rightarrow> string + 'p"
  eng_bool :: "string \<Rightarrow> string + 'p"

text \<open>\<open>ast.Walk\<close>: children first.\<close>

fun walk :: "node \<Rightarrow> node list" where
  "walk (UnaryNode op n) = walk n @ [UnaryNode op n]"
| "walk (BinaryNode op l r) = walk l @ walk r @ [BinaryNode op l r]"
| "walk (CallNode f args) = walk f @ concat (map walk args) @ [CallNode f args]"
| "walk (ConditionalNode c a b) = walk c @ walk a @ walk b @ [ConditionalNode c a b]"
| "walk (OtherNode ns) = concat (map walk ns) @ [OtherNode ns]"
| "walk n = [n]"

text \<open>\<open>float64\<close> of an integer: 53 significant bits, ties to even.\<close>

definition float64 :: "int \<Rightarrow> int" where
  "float64 i =
     (if \<bar>i\<bar> \<le> 2 ^ 53 then i
      else let e = nat (bitlen \<bar>i\<bar>) - 53; q = \<bar>i\<bar> div 2 ^ e; r = \<bar>i\<bar> mod 2 ^ e; half = 2 ^ (e - 1);
               up = (r > half \<or> r = half \<and> odd q)
           in sgn i * ((if up then q + 1 else q) * 2 ^ e))"

fun numLiteral :: "node \<Rightarrow> rat option" where
  "numLiteral (IntegerNode i) = Some (of_int (float64 i))"
| "numLiteral (FloatNode q) = Some q"
| "numLiteral (UnaryNode op n) = (if op = ''-'' then map_option uminus (numLiteral n) else None)"
| "numLiteral _ = None"

subsection \<open>Issues\<close>

definition CodeVersion :: string where "CodeVersion = ''unsupported_version''"
definition CodeEmpty :: string where "CodeEmpty = ''empty_expression''"
definition CodeSyntax :: string where "CodeSyntax = ''syntax_error''"
definition CodeLiteralArg :: string where "CodeLiteralArg = ''literal_argument_required''"
definition CodeTimezone :: string where "CodeTimezone = ''invalid_timezone''"
definition CodeRuleShape :: string where "CodeRuleShape = ''invalid_rule''"
definition CodeNegativeMultiplier :: string where "CodeNegativeMultiplier = ''negative_multiplier''"
definition CodeDuplicateTier :: string where "CodeDuplicateTier = ''duplicate_tier''"
definition CodeNoTier :: string where "CodeNoTier = ''no_tier''"

subsection \<open>The inputs an expression reads\<close>

definition TokenVars :: "string list" where
  "TokenVars = [''p'', ''c'', ''cr'', ''cc'', ''cc1h'', ''img'', ''img_o'', ''ai'', ''ao'']"

definition isVar :: "string \<Rightarrow> bool" where
  "isVar s \<longleftrightarrow> s = ''len'' \<or> s \<in> set TokenVars"

definition timeFuncs :: "string list" where
  "timeFuncs = [''hour'', ''minute'', ''weekday'', ''day'', ''month'']"

text \<open>The analyzer's sets, and the first problem found.\<close>

record analyzer =
  an_used :: "string set"
  an_params :: "string set"
  an_headers :: "string set"
  an_facts :: "string set"
  an_bounds :: "rat set"
  an_err :: "string option"

definition newAnalyzer :: analyzer where
  "newAnalyzer = \<lparr>an_used = {}, an_params = {}, an_headers = {}, an_facts = {}, an_bounds = {}, an_err = None\<rparr>"

definition fail_visit :: "string \<Rightarrow> analyzer \<Rightarrow> analyzer" where
  "fail_visit code a = (if an_err a = None then a\<lparr>an_err := Some code\<rparr> else a)"

definition lenBound :: "node \<Rightarrow> node \<Rightarrow> rat option" where
  "lenBound i n = (case i of IdentifierNode s \<Rightarrow> if s = ''len'' then numLiteral n else None | _ \<Rightarrow> None)"

definition string_arg :: "node list \<Rightarrow> string option" where
  "string_arg args = (case args of StringNode s # _ \<Rightarrow> Some s | _ \<Rightarrow> None)"

definition visit_call :: "golib \<Rightarrow> string \<Rightarrow> node list \<Rightarrow> analyzer \<Rightarrow> analyzer" where
  "visit_call g name args a =
     (let named = (case string_arg args of Some s \<Rightarrow> if s = [] then None else Some s | None \<Rightarrow> None) in
      if name = ''param'' then
        (case named of Some s \<Rightarrow> a\<lparr>an_params := insert s (an_params a)\<rparr> | None \<Rightarrow> fail_visit CodeLiteralArg a)
      else if name = ''header'' then
        (case named of Some s \<Rightarrow> a\<lparr>an_headers := insert (toLower g s) (an_headers a)\<rparr>
         | None \<Rightarrow> fail_visit CodeLiteralArg a)
      else if name = ''u'' then
        (case named of Some s \<Rightarrow> a\<lparr>an_facts := insert s (an_facts a)\<rparr> | None \<Rightarrow> fail_visit CodeLiteralArg a)
      else if name = ''tier'' then
        (if string_arg args = None then fail_visit CodeLiteralArg a else a)
      else if name \<in> set timeFuncs then
        (case string_arg args of
           None \<Rightarrow> fail_visit CodeLiteralArg a
         | Some z \<Rightarrow> if loadLocation g z then a else fail_visit CodeTimezone a)
      else a)"

definition Visit :: "golib \<Rightarrow> node \<Rightarrow> analyzer \<Rightarrow> analyzer" where
  "Visit g n a = (case n of
       IdentifierNode s \<Rightarrow> if isVar s then a\<lparr>an_used := insert s (an_used a)\<rparr> else a
     | BinaryNode op l r \<Rightarrow>
         if op \<in> {''<'', ''<='', ''>'', ''>='', ''=='', ''!=''} then
           (case lenBound l r of
              Some b \<Rightarrow> a\<lparr>an_bounds := insert b (an_bounds a)\<rparr>
            | None \<Rightarrow> (case lenBound r l of
                Some b \<Rightarrow> a\<lparr>an_bounds := insert b (an_bounds a)\<rparr> | None \<Rightarrow> a))
         else a
     | CallNode f args \<Rightarrow> (case f of IdentifierNode name \<Rightarrow> visit_call g name args a | _ \<Rightarrow> a)
     | _ \<Rightarrow> a)"

text \<open>\<open>analyzer.walk\<close>: one visitor per tree; its error ends the compilation.\<close>

definition walk_all :: "golib \<Rightarrow> node \<Rightarrow> analyzer \<Rightarrow> string + analyzer" where
  "walk_all g n a =
     (let a' = fold (Visit g) (walk n) (a\<lparr>an_err := None\<rparr>) in
      case an_err a' of None \<Rightarrow> Inr a' | Some code \<Rightarrow> Inl code)"

subsection \<open>Programs\<close>

record 'p pterm =
  te_label :: string
  te_var :: "string option"
  te_rate :: "rat option"
  te_expr :: string
  te_prog :: 'p

record 'p tier_def =
  td_name :: string
  td_terms :: "'p pterm list"

record 'p prule =
  ru_cond :: string
  ru_condProg :: 'p
  ru_multProg :: 'p
  ru_multConst :: "rat option"

record 'p program =
  pr_version :: int
  pr_source :: string
  pr_hash :: string
  pr_base :: 'p
  pr_rules :: "'p prule list"
  pr_tiers :: "'p tier_def list"
  pr_used :: "string set"
  pr_params :: "string list"
  pr_headers :: "string list"
  pr_facts :: "string list"
  pr_lenBounds :: "rat list"
  pr_issues :: "string list"

definition Hash :: "(string \<Rightarrow> string) \<Rightarrow> string \<Rightarrow> string" where
  "Hash sha src = sha (canon src)"

subsection \<open>Tiers and their terms\<close>

definition tier_calls :: "node \<Rightarrow> (string \<times> node list) list" where
  "tier_calls n = concat (map (\<lambda>m. case m of
       CallNode (IdentifierNode f) (StringNode s # args) \<Rightarrow> if f = ''tier'' then [(s, args)] else []
     | _ \<Rightarrow> []) (walk n))"

fun flattenSum :: "node \<Rightarrow> node list" where
  "flattenSum (BinaryNode op l r) = (if op = ''+'' then flattenSum l @ flattenSum r else [BinaryNode op l r])"
| "flattenSum n = [n]"

definition node_vars :: "node \<Rightarrow> string list" where
  "node_vars n = remdups (filter (\<lambda>v. v \<noteq> ''len'') (concat (map (\<lambda>m. case m of
       IdentifierNode s \<Rightarrow> if isVar s then [s] else [] | _ \<Rightarrow> []) (walk n))))"

definition node_facts :: "node \<Rightarrow> string list" where
  "node_facts n = remdups (concat (map (\<lambda>m. case m of
       CallNode (IdentifierNode f) (StringNode s # _) \<Rightarrow> if f = ''u'' then [s] else [] | _ \<Rightarrow> []) (walk n)))"

definition node_flat :: "node \<Rightarrow> bool" where
  "node_flat n \<longleftrightarrow> list_ex (\<lambda>m. case m of CallNode (IdentifierNode f) _ \<Rightarrow> f = ''flat'' | _ \<Rightarrow> False) (walk n)"

definition isIdent :: "node \<Rightarrow> string \<Rightarrow> bool" where
  "isIdent n name = (case n of IdentifierNode s \<Rightarrow> s = name | _ \<Rightarrow> False)"

definition term_rate :: "node \<Rightarrow> string \<Rightarrow> rat option" where
  "term_rate n v = (case n of
       BinaryNode op l r \<Rightarrow>
         if op \<noteq> ''*'' then None
         else (case numLiteral r of
             Some f \<Rightarrow> if isIdent l v then Some f
               else (case numLiteral l of Some f' \<Rightarrow> if isIdent r v then Some f' else None | None \<Rightarrow> None)
           | None \<Rightarrow> (case numLiteral l of Some f' \<Rightarrow> if isIdent r v then Some f' else None | None \<Rightarrow> None))
     | _ \<Rightarrow> if isIdent n v then Some 1 else None)"

definition buildTerm :: "'p engine \<Rightarrow> node \<Rightarrow> string + 'p pterm" where
  "buildTerm eng n = (case eng_float eng (eng_string eng n) of
       Inl _ \<Rightarrow> Inl CodeSyntax
     | Inr prog \<Rightarrow>
         let t = \<lparr>te_label = ''other'', te_var = None, te_rate = None, te_expr = eng_string eng n, te_prog = prog\<rparr>;
             vars = node_vars n; facts = node_facts n; flat = node_flat n in
         Inr (if length vars = 1 \<and> facts = [] \<and> \<not> flat then
                t\<lparr>te_label := hd vars, te_var := Some (hd vars), te_rate := term_rate n (hd vars)\<rparr>
              else if vars = [] \<and> facts = [] \<and> flat then t\<lparr>te_label := ''flat''\<rparr>
              else if vars = [] \<and> length facts = 1 \<and> \<not> flat then t\<lparr>te_label := ''u:'' @ hd facts\<rparr>
              else t))"

primrec build_terms :: "'p engine \<Rightarrow> node list \<Rightarrow> string + 'p pterm list" where
  "build_terms eng [] = Inr []"
| "build_terms eng (n # ns) =
     and_then (buildTerm eng n) (\<lambda>t. and_then (build_terms eng ns) (\<lambda>ts. Inr (t # ts)))"

text \<open>The tiers of the base expression with the issues found; a repeated name keeps its first use.\<close>

primrec tier_defs :: "'p engine \<Rightarrow> string list \<Rightarrow> (string \<times> node list) list \<Rightarrow> string + 'p tier_def list \<times> string list" where
  "tier_defs eng seen [] = Inr ([], [])"
| "tier_defs eng seen (c # cs) = (case c of (name, args) \<Rightarrow>
     if name \<in> set seen then and_then (tier_defs eng seen cs) (\<lambda>(ds, is). Inr (ds, CodeDuplicateTier # is))
     else and_then (build_terms eng (if length args = 1 then flattenSum (hd args) else [])) (\<lambda>ts.
       and_then (tier_defs eng (name # seen) cs) (\<lambda>(ds, is). Inr (\<lparr>td_name = name, td_terms = ts\<rparr> # ds, is))))"

definition parse_node :: "'p engine \<Rightarrow> string \<Rightarrow> string + node" where
  "parse_node eng src = (case eng_parse eng src of Inl _ \<Rightarrow> Inl CodeSyntax | Inr n \<Rightarrow> Inr n)"

definition analyzeBase :: "'p engine \<Rightarrow> golib \<Rightarrow> string \<Rightarrow> analyzer \<Rightarrow>
    string + analyzer \<times> 'p tier_def list \<times> string list" where
  "analyzeBase eng g src a =
     and_then (parse_node eng src) (\<lambda>n.
     and_then (walk_all g n a) (\<lambda>a'.
     and_then (tier_defs eng [] (tier_calls n)) (\<lambda>(ds, is). Inr (a', ds, is))))"

definition analyzeRule :: "'p engine \<Rightarrow> golib \<Rightarrow> string \<Rightarrow> analyzer \<Rightarrow> string + analyzer \<times> 'p prule" where
  "analyzeRule eng g src a =
     (if src = [] then Inl CodeRuleShape
      else and_then (parse_node eng src) (\<lambda>n. case n of
          ConditionalNode c e1 e2 \<Rightarrow>
            and_then (ensure (numLiteral e2 = Some 1) CodeRuleShape) (\<lambda>_.
            and_then (walk_all g n a) (\<lambda>a'.
            case (eng_bool eng (eng_string eng c), eng_float eng (eng_string eng e1)) of
              (Inr cp, Inr mp) \<Rightarrow>
                if (case numLiteral e1 of Some f \<Rightarrow> f < 0 | None \<Rightarrow> False) then Inl CodeNegativeMultiplier
                else Inr (a', \<lparr>ru_cond = eng_string eng c, ru_condProg = cp, ru_multProg = mp,
                  ru_multConst = numLiteral e1\<rparr>)
            | _ \<Rightarrow> Inl CodeSyntax))
        | _ \<Rightarrow> Inl CodeRuleShape))"

primrec analyzeRules :: "'p engine \<Rightarrow> golib \<Rightarrow> string list \<Rightarrow> analyzer \<Rightarrow> string + analyzer \<times> 'p prule list" where
  "analyzeRules eng g [] a = Inr (a, [])"
| "analyzeRules eng g (r # rs) a =
     and_then (analyzeRule eng g r a) (\<lambda>(a', x).
     and_then (analyzeRules eng g rs a') (\<lambda>(a'', xs). Inr (a'', x # xs)))"

subsection \<open>Compiling\<close>

definition Compile :: "'p engine \<Rightarrow> golib \<Rightarrow> (string \<Rightarrow> string) \<Rightarrow> string \<Rightarrow> string + 'p program" where
  "Compile eng g sha src = (case splitVersion src of
       Inl _ \<Rightarrow> Inl CodeVersion
     | Inr (version, body) \<Rightarrow>
         if body = [] then Inl CodeEmpty
         else let parts = splitRules body; source = ''v'' @ itoa version @ '':'' @ body in
           if hd parts = [] then Inl CodeEmpty
           else (case eng_float eng (hd parts) of
               Inl _ \<Rightarrow> Inl CodeSyntax
             | Inr base \<Rightarrow>
                 and_then (analyzeBase eng g (hd parts) newAnalyzer) (\<lambda>(a, tiers, issues).
                 and_then (analyzeRules eng g (tl parts) a) (\<lambda>(a', rules).
                 Inr \<lparr>pr_version = version, pr_source = source, pr_hash = Hash sha source, pr_base = base,
                   pr_rules = rules, pr_tiers = tiers, pr_used = an_used a',
                   pr_params = sorted_list_of_set (an_params a'), pr_headers = sorted_list_of_set (an_headers a'),
                   pr_facts = sorted_list_of_set (an_facts a'), pr_lenBounds = sorted_list_of_set (an_bounds a'),
                   pr_issues = issues @ (if tiers = [] then [CodeNoTier] else [])\<rparr>))))"

text \<open>The process-wide cache, keyed by \<open>Hash\<close>. Looking up and storing are separate critical sections.\<close>

definition maxCached :: nat where
  "maxCached = 4096"

definition cache_store :: "string \<Rightarrow> 'p program \<Rightarrow> (string \<times> 'p program) list \<Rightarrow> (string \<times> 'p program) list" where
  "cache_store h p cache = (h, p) # filter (\<lambda>e. fst e \<noteq> h) (if length cache \<ge> maxCached then [] else cache)"

definition CompileCached :: "'p engine \<Rightarrow> golib \<Rightarrow> (string \<Rightarrow> string) \<Rightarrow> (string \<times> 'p program) list \<Rightarrow> string \<Rightarrow>
    string + 'p program" where
  "CompileCached eng g sha cache src = (case map_of cache (Hash sha src) of
       Some p \<Rightarrow> Inr p
     | None \<Rightarrow> Compile eng g sha src)"

subsection \<open>Every input an expression names is listed\<close>

text \<open>What the analysis must have noted of a node it visited.\<close>

definition noted :: "golib \<Rightarrow> string set \<times> string set \<times> string set \<times> string set \<Rightarrow> node \<Rightarrow> bool" where
  "noted g ls n = (case ls of (used, params, headers, facts) \<Rightarrow> (case n of
       IdentifierNode s \<Rightarrow> isVar s \<longrightarrow> s \<in> used
     | CallNode (IdentifierNode f) args \<Rightarrow>
         (f = ''param'' \<longrightarrow> (\<exists>s. string_arg args = Some s \<and> s \<in> params)) \<and>
         (f = ''header'' \<longrightarrow> (\<exists>s. string_arg args = Some s \<and> toLower g s \<in> headers)) \<and>
         (f = ''u'' \<longrightarrow> (\<exists>s. string_arg args = Some s \<and> s \<in> facts)) \<and>
         (f \<in> set timeFuncs \<longrightarrow> (\<exists>z. string_arg args = Some z \<and> loadLocation g z))
     | _ \<Rightarrow> True))"

definition lists_of :: "analyzer \<Rightarrow> string set \<times> string set \<times> string set \<times> string set" where
  "lists_of a = (an_used a, an_params a, an_headers a, an_facts a)"

definition grows :: "analyzer \<Rightarrow> analyzer \<Rightarrow> bool" where
  "grows a b \<longleftrightarrow> an_used a \<subseteq> an_used b \<and> an_params a \<subseteq> an_params b \<and> an_headers a \<subseteq> an_headers b \<and>
     an_facts a \<subseteq> an_facts b"

lemma grows_refl [simp]: "grows a a"
  by (simp add: grows_def)

lemma grows_trans: "grows a b \<Longrightarrow> grows b c \<Longrightarrow> grows a c"
  unfolding grows_def by blast

lemma noted_mono:
  assumes "noted g (lists_of a) n" "grows a b"
  shows "noted g (lists_of b) n"
proof (cases n)
  case (CallNode f args)
  then show ?thesis using assms by (cases f) (auto simp: noted_def lists_of_def grows_def)
qed (use assms in \<open>auto simp: noted_def lists_of_def grows_def\<close>)

lemma fail_visit_simps [simp]: "grows a (fail_visit c a)" "an_err (fail_visit c a) \<noteq> None"
  by (simp_all add: fail_visit_def grows_def)

lemma visit_call_grows: "grows a (visit_call g f args a)"
  by (auto simp: visit_call_def Let_def grows_def fail_visit_def split: option.splits if_splits)

lemma visit_call_err:
  "an_err (visit_call g f args a) = None \<Longrightarrow> an_err a = None"
  by (auto simp: visit_call_def Let_def fail_visit_def split: option.splits if_splits)

lemma visit_call_noted:
  assumes "an_err (visit_call g f args a) = None"
  shows "noted g (lists_of (visit_call g f args a)) (CallNode (IdentifierNode f) args)"
  using assms
  by (auto simp: visit_call_def Let_def noted_def lists_of_def timeFuncs_def split: option.splits if_splits)

lemma Visit_grows: "grows a (Visit g n a)"
  by (auto simp: Visit_def visit_call_grows split: node.splits option.splits)
     (auto simp: grows_def)

lemma Visit_err: "an_err (Visit g n a) = None \<Longrightarrow> an_err a = None"
  by (auto simp: Visit_def split: node.splits option.splits if_splits dest: visit_call_err)

lemma Visit_noted:
  assumes "an_err (Visit g n a) = None"
  shows "noted g (lists_of (Visit g n a)) n"
proof (cases n)
  case (CallNode f args)
  then show ?thesis using assms visit_call_noted by (cases f) (auto simp: Visit_def noted_def lists_of_def)
qed (auto simp: Visit_def noted_def lists_of_def)

lemma fold_Visit:
  "an_err (fold (Visit g) ns a) = None \<Longrightarrow>
     an_err a = None \<and> grows a (fold (Visit g) ns a) \<and>
     (\<forall>n \<in> set ns. noted g (lists_of (fold (Visit g) ns a)) n)"
proof (induction ns arbitrary: a)
  case (Cons n ns)
  let ?b = "fold (Visit g) ns (Visit g n a)"
  have b: "an_err (Visit g n a) = None" "grows (Visit g n a) ?b" "\<forall>m \<in> set ns. noted g (lists_of ?b) m"
    using Cons by auto
  have "noted g (lists_of ?b) n" using noted_mono [OF Visit_noted [OF b(1)] b(2)] .
  then show ?case using b Visit_err [OF b(1)] grows_trans [OF Visit_grows b(2)] by simp
qed simp

lemma walk_all_noted:
  assumes "walk_all g n a = Inr b"
  shows "grows a b \<and> (\<forall>m \<in> set (walk n). noted g (lists_of b) m)"
proof -
  let ?f = "fold (Visit g) (walk n) (a\<lparr>an_err := None\<rparr>)"
  have f: "an_err ?f = None" "b = ?f" using assms by (auto simp: walk_all_def Let_def split: option.splits)
  have "grows a (a\<lparr>an_err := None\<rparr>)" by (simp add: grows_def)
  then show ?thesis using fold_Visit [OF f(1)] grows_trans unfolding f(2) by blast
qed

text \<open>The trees of a program: its base and its rules.\<close>

definition trees :: "'p engine \<Rightarrow> string list \<Rightarrow> node set" where
  "trees eng parts = {n. \<exists>p \<in> set parts. eng_parse eng p = Inr n}"

lemma analyzeRule_walks:
  assumes "analyzeRule eng g src a = Inr (b, x)"
  obtains n where "eng_parse eng src = Inr n" "walk_all g n a = Inr b"
proof -
  obtain n where n: "eng_parse eng src = Inr n" and "\<exists>c e1 e2. n = ConditionalNode c e1 e2"
    using assms unfolding analyzeRule_def parse_node_def
    by (auto simp: and_then_eq_Inr split: if_split_asm sum.split_asm node.split_asm)
  then obtain c e1 e2 where c: "n = ConditionalNode c e1 e2" by blast
  obtain a' where "walk_all g n a = Inr a'"
    "(case (eng_bool eng (eng_string eng c), eng_float eng (eng_string eng e1)) of
        (Inr cp, Inr mp) \<Rightarrow>
          if (case numLiteral e1 of Some f \<Rightarrow> f < 0 | None \<Rightarrow> False) then Inl CodeNegativeMultiplier
          else Inr (a', \<lparr>ru_cond = eng_string eng c, ru_condProg = cp, ru_multProg = mp,
            ru_multConst = numLiteral e1\<rparr>)
      | _ \<Rightarrow> Inl CodeSyntax) = Inr (b, x)"
    using assms n c unfolding analyzeRule_def parse_node_def by (auto simp: and_then_eq_Inr split: if_split_asm)
  then show ?thesis using that [OF n] by (auto split: sum.split_asm if_split_asm)
qed

lemma analyzeRule_noted:
  assumes "analyzeRule eng g src a = Inr (b, x)"
  shows "grows a b \<and> (\<exists>n. eng_parse eng src = Inr n \<and> (\<forall>m \<in> set (walk n). noted g (lists_of b) m))"
proof -
  obtain n where n: "eng_parse eng src = Inr n" and w: "walk_all g n a = Inr b"
    by (rule analyzeRule_walks [OF assms])
  show ?thesis using walk_all_noted [OF w] n by blast
qed

lemma analyzeRules_noted:
  "analyzeRules eng g rs a = Inr (b, xs) \<Longrightarrow>
     grows a b \<and> (\<forall>r \<in> set rs. \<exists>n. eng_parse eng r = Inr n \<and> (\<forall>m \<in> set (walk n). noted g (lists_of b) m))"
proof (induction rs arbitrary: a xs)
  case (Cons r rs)
  then obtain a2 x ys where 1: "analyzeRule eng g r a = Inr (a2, x)" and 2: "analyzeRules eng g rs a2 = Inr (b, ys)"
    by (auto simp: and_then_eq_Inr)
  have g2: "grows a2 b" "\<forall>r \<in> set rs. \<exists>n. eng_parse eng r = Inr n \<and> (\<forall>m \<in> set (walk n). noted g (lists_of b) m)"
    using Cons.IH [OF 2] by auto
  obtain n where "eng_parse eng r = Inr n" "\<forall>m \<in> set (walk n). noted g (lists_of a2) m" "grows a a2"
    using analyzeRule_noted [OF 1] by blast
  then show ?case using g2 noted_mono [OF _ g2(1)] grows_trans [OF _ g2(1)] by auto
qed auto

lemma finite_insert_steps:
  assumes "finite (an_params a) \<and> finite (an_headers a) \<and> finite (an_facts a)"
  shows "finite (an_params (Visit g n a)) \<and> finite (an_headers (Visit g n a)) \<and> finite (an_facts (Visit g n a))"
  using assms
  by (auto simp: Visit_def visit_call_def Let_def fail_visit_def split: node.splits option.splits if_splits)

definition finite_lists :: "analyzer \<Rightarrow> bool" where
  "finite_lists a \<longleftrightarrow> finite (an_params a) \<and> finite (an_headers a) \<and> finite (an_facts a)"

lemma fold_Visit_finite: "finite_lists a \<Longrightarrow> finite_lists (fold (Visit g) ns a)"
  by (induction ns arbitrary: a) (auto simp: finite_lists_def finite_insert_steps)

lemma walk_all_finite: "walk_all g n a = Inr b \<Longrightarrow> finite_lists a \<Longrightarrow> finite_lists b"
  using fold_Visit_finite [of "a\<lparr>an_err := None\<rparr>" g "walk n"]
  by (auto simp: walk_all_def Let_def finite_lists_def split: option.splits)

lemma analyzeRules_finite: "analyzeRules eng g rs a = Inr (b, xs) \<Longrightarrow> finite_lists a \<Longrightarrow> finite_lists b"
proof (induction rs arbitrary: a xs)
  case (Cons r rs)
  then obtain a2 x ys where 1: "analyzeRule eng g r a = Inr (a2, x)" and 2: "analyzeRules eng g rs a2 = Inr (b, ys)"
    by (auto simp: and_then_eq_Inr)
  have "\<exists>n. walk_all g n a = Inr a2" using analyzeRule_walks [OF 1] by blast
  then show ?case using Cons.IH [OF 2] walk_all_finite Cons.prems(2) by blast
qed simp

lemma compile_notes:
  assumes "Compile eng g sha src = Inr p" "splitVersion src = Inr (v, body)" "part \<in> set (splitRules body)"
  shows "\<exists>n. eng_parse eng part = Inr n \<and>
    (\<forall>m \<in> set (walk n). noted g (pr_used p, set (pr_params p), set (pr_headers p), set (pr_facts p)) m)"
proof -
  have ne: "splitRules body \<noteq> []" using assms(3) by auto
  obtain a tiers issues b rules where
      base: "analyzeBase eng g (hd (splitRules body)) newAnalyzer = Inr (a, tiers, issues)"
    and rules: "analyzeRules eng g (tl (splitRules body)) a = Inr (b, rules)"
    and p: "pr_used p = an_used b" "pr_params p = sorted_list_of_set (an_params b)"
      "pr_headers p = sorted_list_of_set (an_headers b)" "pr_facts p = sorted_list_of_set (an_facts b)"
    using assms(1,2) by (auto simp: Compile_def Let_def and_then_eq_Inr split: if_splits sum.splits)
  obtain n where n: "eng_parse eng (hd (splitRules body)) = Inr n" and w: "walk_all g n newAnalyzer = Inr a"
    using base unfolding analyzeBase_def parse_node_def by (auto simp: and_then_eq_Inr split: sum.splits)
  have "finite_lists b"
    by (rule analyzeRules_finite [OF rules walk_all_finite [OF w]]) (simp add: finite_lists_def newAnalyzer_def)
  then have lists: "(pr_used p, set (pr_params p), set (pr_headers p), set (pr_facts p)) = lists_of b"
    by (simp add: p lists_of_def finite_lists_def)
  have gb: "grows a b" using analyzeRules_noted [OF rules] by blast
  have "part = hd (splitRules body) \<or> part \<in> set (tl (splitRules body))"
    using assms(3) ne by (metis list.set_sel(2) list.collapse set_ConsD)
  then show ?thesis
  proof
    assume "part = hd (splitRules body)"
    then show ?thesis unfolding lists using n walk_all_noted [OF w] noted_mono [OF _ gb] by blast
  next
    assume "part \<in> set (tl (splitRules body))"
    then show ?thesis unfolding lists using analyzeRules_noted [OF rules] by blast
  qed
qed

text \<open>C20: A compiled program lists every request path, header, usage fact and token variable that any
  part of its text, base or rule, reads by name, and only literal, existing time zones occur: the
  gateway, which captures exactly the listed inputs, captures all that the later evaluation needs.\<close>

theorem compile_lists_every_input:
  assumes "Compile eng g sha src = Inr p" "splitVersion src = Inr (v, body)" "part \<in> set (splitRules body)"
  shows "\<exists>n. eng_parse eng part = Inr n \<and>
    (\<forall>m \<in> set (walk n). noted g (pr_used p, set (pr_params p), set (pr_headers p), set (pr_facts p)) m)"
  by (rule compile_notes [OF assms])

text \<open>The demonstration: a base and a rule reading \<open>param("model")\<close>, with a parser that knows both texts.\<close>

definition demo_engine :: "string engine" where
  "demo_engine = \<lparr>eng_parse = (\<lambda>s.
       if s = ''b'' then Inr (CallNode (IdentifierNode ''tier'') [StringNode ''t'',
         BinaryNode ''*'' (IdentifierNode ''p'') (IntegerNode 3)])
       else if s = ''r'' then Inr (ConditionalNode
         (BinaryNode ''=='' (CallNode (IdentifierNode ''param'') [StringNode ''model'']) (StringNode ''m''))
         (IntegerNode 2) (IntegerNode 1))
       else Inl ''syntax''),
     eng_string = (\<lambda>_. ''n''), eng_float = Inr, eng_bool = Inr\<rparr>"

lemma demo_compiles: "\<exists>p. Compile demo_engine demo_lib id ''v1: b ||| r '' = Inr p"
proof -
  have "\<not> isl (Compile demo_engine demo_lib id ''v1: b ||| r '')" by code_simp
  then show ?thesis by (cases "Compile demo_engine demo_lib id ''v1: b ||| r ''") auto
qed

lemma demo_split: "splitVersion ''v1: b ||| r '' = Inr (1, ''b ||| r'')" "splitRules ''b ||| r'' = [''b'', ''r'']"
  by code_simp+

theorem compile_lists_every_input_witness:
  "\<exists>p. Compile demo_engine demo_lib id ''v1: b ||| r '' = Inr p \<and> ''model'' \<in> set (pr_params p) \<and> ''p'' \<in> pr_used p"
proof -
  obtain p where p: "Compile demo_engine demo_lib id ''v1: b ||| r '' = Inr p" using demo_compiles by blast
  have all: "\<exists>n. eng_parse demo_engine part = Inr n \<and>
      (\<forall>m \<in> set (walk n). noted demo_lib (pr_used p, set (pr_params p), set (pr_headers p), set (pr_facts p)) m)"
    if "part \<in> set [''b'', ''r'']" for part
    by (rule compile_lists_every_input [OF p demo_split(1)]) (use that demo_split(2) in simp)
  have "''model'' \<in> set (pr_params p)"
    using all [of "''r''"] by (auto simp: demo_engine_def noted_def string_arg_def)
  moreover have "''p'' \<in> pr_used p"
    using all [of "''b''"] by (auto simp: demo_engine_def noted_def isVar_def TokenVars_def)
  ultimately show ?thesis using p by blast
qed

subsection \<open>The canonical text\<close>

lemma leading_strip: "leading es (strip es s) = None"
  by (induction es s rule: strip.induct) (auto simp: strip.simps split: option.split)

lemma strip_suffix: "\<exists>pre. s = pre @ strip es s"
proof (induction es s rule: strip.induct)
  case (1 es s)
  show ?case
  proof (cases "leading es s")
    case None
    then show ?thesis by (simp add: strip.simps)
  next
    case (Some e)
    then obtain pre where "drop (length e) s = pre @ strip es (drop (length e) s)" using 1 by blast
    then have "s = (take (length e) s @ pre) @ strip es s"
      using Some by (metis append.assoc append_take_drop_id strip_step)
    then show ?thesis by blast
  qed
qed

lemma leading_prefix:
  assumes "leading es (a @ b) = None"
  shows "leading es a = None"
proof -
  have "\<not> (e \<noteq> [] \<and> take (length e) a = e)" if "e \<in> set es" for e
    using assms that by (auto simp: leading_def find_None_iff)
  then show ?thesis by (auto simp: leading_def find_None_iff)
qed

lemma trimSpace_idem [simp]: "trimSpace (trimSpace s) = trimSpace s"
proof -
  let ?R = "map rev space_runes"
  define a where "a = strip space_runes s"
  define b where "b = strip ?R (rev a)"
  obtain pre where "rev a = pre @ b" using strip_suffix [of "rev a" ?R] unfolding b_def by blast
  then have "a = rev b @ rev pre" by (metis rev_append rev_rev_ident)
  moreover have "leading space_runes a = None" unfolding a_def by (rule leading_strip)
  ultimately have "strip space_runes (rev b) = rev b" using leading_prefix strip_none by metis
  moreover have "strip ?R b = b" unfolding b_def by (rule strip_none [OF leading_strip])
  ultimately show ?thesis by (simp add: trimSpace_def a_def [symmetric] b_def [symmetric])
qed

lemma trimSpace_version:
  assumes "trimSpace t = t" "t \<noteq> []"
  shows "trimSpace (''v1:'' @ t) = ''v1:'' @ t"
proof -
  let ?R = "map rev space_runes"
  have colon: "\<forall>e \<in> set ?R. CHR '':'' \<notin> set e" by code_simp
  have "strip ?R (rev t) = rev t"
  proof -
    define a where "a = strip space_runes t"
    have t: "t = rev (strip ?R (rev a))" using assms(1) by (simp add: trimSpace_def a_def)
    show ?thesis unfolding t by (simp add: strip_none [OF leading_strip])
  qed
  then have r: "leading ?R (rev t) = None" using leading_strip by metis
  have "leading ?R (rev t @ rev ''v1:'') = None"
  proof -
    have "\<not> (e \<noteq> [] \<and> take (length e) (rev t @ rev ''v1:'') = e)" if e: "e \<in> set ?R" for e
    proof (rule notI, elim conjE)
      assume ne: "e \<noteq> []" and tk: "take (length e) (rev t @ rev ''v1:'') = e"
      show False
      proof (cases "length e \<le> length t")
        case True
        then have "take (length e) (rev t) = e" using tk by simp
        then show False using r e ne unfolding leading_def find_None_iff by blast
      next
        case False
        then have "CHR '':'' \<in> set (take (length e) (rev t @ rev ''v1:''))"
          by (cases "length e - length t") simp_all
        then show False using colon e tk by metis
      qed
    qed
    then show ?thesis unfolding leading_def find_None_iff by blast
  qed
  then have "strip ?R (rev (''v1:'' @ t)) = rev (''v1:'' @ t)" by (intro strip_none) simp
  moreover have "solid (CHR ''v'')" by code_simp
  then have "strip space_runes (''v1:'' @ t) = ''v1:'' @ t"
    by (intro strip_none leading_none_hd) (simp add: solid_def)
  ultimately show ?thesis by (simp add: trimSpace_def)
qed

lemma itoa_1 [simp]: "itoa 1 = ''1''"
  by code_simp

lemma splitVersion_trimmed:
  assumes "splitVersion src = Inr (v, body)"
  shows "v = 1 \<and> trimSpace body = body"
  using assms by (auto simp: splitVersion_def Let_def split: option.splits if_splits)

lemma splitVersion_canonical:
  assumes "splitVersion src = Inr (v, body)" "body \<noteq> []"
  shows "canon src = ''v1:'' @ body" "splitVersion (canon src) = Inr (1, body)"
proof -
  have b: "v = 1" "trimSpace body = body" using splitVersion_trimmed [OF assms(1)] by auto
  show c: "canon src = ''v1:'' @ body"
    using assms(1) b by (simp add: canon_def)
  have p: "versionPrefix (''v1:'' @ body) = Some (''1'', body)"
    by (simp add: versionPrefix_def isDigit_def re_space_def Let_def)
  have a: "Atoi ''1'' = Some 1" by code_simp
  show "splitVersion (canon src) = Inr (1, body)"
    unfolding c splitVersion_def Let_def trimSpace_version [OF b(2) assms(2)] p by (simp add: a b(2))
qed

text \<open>Equal hashes mean equal programs, as long as the hash function does not collide.\<close>

lemma canon_determines:
  assumes "canon s = canon t"
  shows "Compile eng g sha s = Compile eng g sha t"
proof -
  have v1: "versionPrefix (''v1:'' @ body) = Some (''1'', body)" for body
    by (simp add: versionPrefix_def isDigit_def re_space_def Let_def)
  have a: "Atoi ''1'' = Some 1" by code_simp
  have shape: "splitVersion x = Inl () \<and> canon x = trimSpace x \<and> versionPrefix (trimSpace x) \<noteq> None \<and>
        (\<forall>ds b. versionPrefix (trimSpace x) = Some (ds, b) \<longrightarrow> Atoi ds \<noteq> Some 1) \<or>
      (\<exists>body. splitVersion x = Inr (1, body) \<and> canon x = ''v1:'' @ body)" for x
    by (auto simp: splitVersion_def canon_def Let_def split: option.splits)
  from shape [of s] shape [of t] show ?thesis
  proof (elim disjE exE conjE)
    fix b b' assume "splitVersion s = Inr (1, b)" "canon s = ''v1:'' @ b"
      "splitVersion t = Inr (1, b')" "canon t = ''v1:'' @ b'"
    then show ?thesis using assms by (simp add: Compile_def)
  next
    fix b assume "canon s = trimSpace s" "canon t = ''v1:'' @ b"
      "\<forall>ds b. versionPrefix (trimSpace s) = Some (ds, b) \<longrightarrow> Atoi ds \<noteq> Some 1"
    then show ?thesis using assms v1 [of b] a by auto
  next
    fix b assume "canon t = trimSpace t" "canon s = ''v1:'' @ b"
      "\<forall>ds b. versionPrefix (trimSpace t) = Some (ds, b) \<longrightarrow> Atoi ds \<noteq> Some 1"
    then show ?thesis using assms v1 [of b] a by auto
  qed (simp add: Compile_def)
qed

lemma Compile_source:
  assumes "Compile eng g sha src = Inr p"
  shows "pr_source p = canon src \<and> pr_hash p = Hash sha (canon src) \<and> canon (canon src) = canon src"
proof -
  obtain v body where v: "splitVersion src = Inr (v, body)" "body \<noteq> []"
    using assms by (auto simp: Compile_def Let_def split: sum.splits if_splits)
  have "pr_source p = ''v'' @ itoa v @ '':'' @ body \<and> pr_hash p = Hash sha (''v'' @ itoa v @ '':'' @ body)"
    using assms v by (auto simp: Compile_def Let_def and_then_eq_Inr split: sum.splits if_splits)
  moreover have "canon src = ''v'' @ itoa v @ '':'' @ body" using v by (simp add: canon_def)
  moreover have "canon (canon src) = canon src"
    using splitVersion_canonical [OF v] by (simp add: canon_def)
  ultimately show ?thesis by simp
qed

subsection \<open>The cache\<close>

text \<open>The cache after some requests compiled their expressions and stored the programs, in any order.\<close>

primrec stored_programs :: "'p engine \<Rightarrow> golib \<Rightarrow> (string \<Rightarrow> string) \<Rightarrow> string list \<Rightarrow> (string \<times> 'p program) list \<Rightarrow>
    (string \<times> 'p program) list" where
  "stored_programs eng g sha [] c = c"
| "stored_programs eng g sha (src # srcs) c = stored_programs eng g sha srcs
     (case Compile eng g sha src of Inr p \<Rightarrow> cache_store (Hash sha src) p c | Inl _ \<Rightarrow> c)"

definition cache_true :: "'p engine \<Rightarrow> golib \<Rightarrow> (string \<Rightarrow> string) \<Rightarrow> (string \<times> 'p program) list \<Rightarrow> bool" where
  "cache_true eng g sha c \<longleftrightarrow> (\<forall>(h, p) \<in> set c. \<exists>src. h = Hash sha src \<and> Compile eng g sha src = Inr p)"

lemma cache_true_stored: "cache_true eng g sha c \<Longrightarrow> cache_true eng g sha (stored_programs eng g sha srcs c)"
proof (induction srcs arbitrary: c)
  case (Cons src srcs)
  have "cache_true eng g sha (case Compile eng g sha src of Inr p \<Rightarrow> cache_store (Hash sha src) p c | Inl _ \<Rightarrow> c)"
    using Cons.prems by (fastforce simp: cache_true_def cache_store_def split: sum.splits if_splits)
  then show ?case using Cons.IH by simp
qed simp

text \<open>C27: A compiled price keeps its meaning when it is stored as its canonical text and read back: the
  text compiles to the same program with the same hash, and the shared cache, whatever was compiled
  before, returns that program for every spelling of the expression.\<close>

theorem stored_price_keeps_program:
  assumes "inj sha" "Compile eng g sha src = Inr p"
  shows "Compile eng g sha (pr_source p) = Inr p \<and> pr_hash p = Hash sha src \<and>
    (\<forall>srcs s. Hash sha s = Hash sha src \<longrightarrow> CompileCached eng g sha (stored_programs eng g sha srcs []) s = Inr p)"
proof (intro conjI allI impI)
  note c = Compile_source [OF assms(2)]
  show "Compile eng g sha (pr_source p) = Inr p"
    using canon_determines [of "canon src" src eng g sha] c assms(2) by simp
  show h: "pr_hash p = Hash sha src" using c by (simp add: Hash_def)
  fix srcs s assume s: "Hash sha s = Hash sha src"
  have det: "Compile eng g sha t = Inr p" if "Hash sha t = Hash sha src" for t
  proof -
    have "canon t = canon src" using that assms(1) by (auto simp: Hash_def dest: injD)
    then show ?thesis using canon_determines assms(2) by metis
  qed
  have "cache_true eng g sha (stored_programs eng g sha srcs [])" by (rule cache_true_stored) (simp add: cache_true_def)
  then have "map_of (stored_programs eng g sha srcs []) (Hash sha s) = Some q \<Longrightarrow> q = p" for q
    using det s by (fastforce simp: cache_true_def dest!: map_of_SomeD)
  then show "CompileCached eng g sha (stored_programs eng g sha srcs []) s = Inr p"
    using det [OF s] by (auto simp: CompileCached_def split: option.split)
qed

theorem stored_price_keeps_program_witness:
  "\<exists>p. Compile demo_engine demo_lib id ''v1: b ||| r '' = Inr p \<and> Compile demo_engine demo_lib id (pr_source p) = Inr p \<and>
     CompileCached demo_engine demo_lib id (stored_programs demo_engine demo_lib id [''b''] []) '' b ||| r'' = Inr p"
proof -
  obtain p where p: "Compile demo_engine demo_lib id ''v1: b ||| r '' = Inr p" using demo_compiles by blast
  have "Hash id '' b ||| r'' = Hash id ''v1: b ||| r ''" by code_simp
  moreover have "inj (id :: string \<Rightarrow> string)" by simp
  ultimately show ?thesis using stored_price_keeps_program [OF _ p] p by blast
qed

end
