(* ===== verification/PriceEval.thy ===== *)
theory PriceEval
  imports PriceProgram BillingStore
begin

section \<open>Evaluating prices (\<open>expr/normalize.go\<close>, \<open>eval.go\<close>, \<open>validate.go\<close>, \<open>billing.go\<close>)\<close>

text \<open>
  From token counts to money: \<open>Normalize\<close>, \<open>Eval\<close> and \<open>Quote\<close>, and the checks a price passes before an
  administrator's change is stored. The virtual machine of \<open>expr-lang\<close>, JSON, time zones, products and
  sums of floating-point numbers and the conversions between them and decimals are functions of
  \<open>runtime\<close>; decimals are rationals, rounded where the code rounds.
\<close>

subsection \<open>Values and inputs\<close>

record vars =
  va_p :: fl
  va_c :: fl
  va_cr :: fl
  va_cc :: fl
  va_cc1h :: fl
  va_len :: fl
  va_img :: fl
  va_imgo :: fl
  va_ai :: fl
  va_ao :: fl

definition no_vars :: vars where
  "no_vars = \<lparr>va_p = Fin 0, va_c = Fin 0, va_cr = Fin 0, va_cc = Fin 0, va_cc1h = Fin 0, va_len = Fin 0,
     va_img = Fin 0, va_imgo = Fin 0, va_ai = Fin 0, va_ao = Fin 0\<rparr>"

definition getVar :: "vars \<Rightarrow> string \<Rightarrow> fl" where
  "getVar v name =
     (if name = ''p'' then va_p v else if name = ''c'' then va_c v else if name = ''cr'' then va_cr v
      else if name = ''cc'' then va_cc v else if name = ''cc1h'' then va_cc1h v else if name = ''len'' then va_len v
      else if name = ''img'' then va_img v else if name = ''img_o'' then va_imgo v
      else if name = ''ai'' then va_ai v else if name = ''ao'' then va_ao v else Fin 0)"

definition setVar :: "string \<Rightarrow> fl \<Rightarrow> vars \<Rightarrow> vars" where
  "setVar name f v =
     (if name = ''p'' then v\<lparr>va_p := f\<rparr> else if name = ''c'' then v\<lparr>va_c := f\<rparr>
      else if name = ''cr'' then v\<lparr>va_cr := f\<rparr> else if name = ''cc'' then v\<lparr>va_cc := f\<rparr>
      else if name = ''cc1h'' then v\<lparr>va_cc1h := f\<rparr> else if name = ''len'' then v\<lparr>va_len := f\<rparr>
      else if name = ''img'' then v\<lparr>va_img := f\<rparr> else if name = ''img_o'' then v\<lparr>va_imgo := f\<rparr>
      else if name = ''ai'' then v\<lparr>va_ai := f\<rparr> else if name = ''ao'' then v\<lparr>va_ao := f\<rparr> else v)"

text \<open>A dynamic value: \<open>GOther\<close> is any other Go value, with its \<open>fmt.Sprint\<close>.\<close>

datatype gval = GNil | GNum fl | GBool bool | GStr string | GOther string

record price_input =
  in_vars :: vars
  in_metrics :: "string \<Rightarrow> gval option"
  in_params :: "string \<Rightarrow> string option"
  in_headers :: "(string \<times> string) list"
  in_at :: int

record env_funs =
  ef_vars :: vars
  ef_u :: "string \<Rightarrow> gval"
  ef_flat :: "gval \<Rightarrow> fl option"
  ef_param :: "string \<Rightarrow> gval"
  ef_header :: "string \<Rightarrow> string"
  ef_has :: "gval \<Rightarrow> gval \<Rightarrow> bool"
  ef_time :: "string \<Rightarrow> string \<Rightarrow> int option"

text \<open>\<open>rt_run\<close> returns the value and the names passed to \<open>tier\<close>, in order.\<close>

record 'p runtime =
  rt_run :: "'p \<Rightarrow> env_funs \<Rightarrow> (string + gval) \<times> string list"
  rt_json :: "string \<Rightarrow> gval option"
  rt_marshal :: "gval \<Rightarrow> string"
  rt_mul :: "fl \<Rightarrow> fl \<Rightarrow> fl"
  rt_add :: "fl \<Rightarrow> fl \<Rightarrow> fl"
  rt_decimal :: "rat \<Rightarrow> rat"
  rt_float :: "rat \<Rightarrow> fl"
  rt_clock :: "string \<Rightarrow> string \<Rightarrow> int \<Rightarrow> int option"
  rt_equalFold :: "string \<Rightarrow> string \<Rightarrow> bool"

subsection \<open>Normalizing tokens\<close>

record price_tokens =
  pt_input :: int
  pt_output :: int
  pt_cache_read :: int
  pt_cache_creation :: int
  pt_cache_creation1h :: int

definition SemanticsInclusive :: string where
  "SemanticsInclusive = ''inclusive''"

text \<open>Sums of tokens wrap as \<open>int64\<close>; sums of floats of integers are integers, rounded again.\<close>

definition Normalize :: "string \<Rightarrow> price_tokens \<Rightarrow> (string \<Rightarrow> bool) \<Rightarrow> vars" where
  "Normalize semantics t uses =
     (let i64 = (\<lambda>n. Fin (of_int (float64 n)));
          cache = float64 (wrap64 (wrap64 (pt_cache_read t + pt_cache_creation t) + pt_cache_creation1h t));
          total = float64 (pt_input t);
          p0 = (if semantics \<noteq> SemanticsInclusive then float64 (pt_input t) else float64 (total - cache));
          len = (if semantics \<noteq> SemanticsInclusive then float64 (total + cache) else total);
          p = (if p0 < 0 then 0 else p0);
          v = no_vars\<lparr>va_p := Fin (of_int p), va_c := i64 (pt_output t), va_len := Fin (of_int len),
            va_cr := (if uses ''cr'' then i64 (pt_cache_read t) else Fin 0)\<rparr>
      in if uses ''cc1h'' then
           v\<lparr>va_cc1h := i64 (pt_cache_creation1h t),
             va_cc := (if uses ''cc'' then i64 (pt_cache_creation t) else Fin 0)\<rparr>
         else if uses ''cc'' then
           v\<lparr>va_cc := i64 (wrap64 (pt_cache_creation t + pt_cache_creation1h t))\<rparr>
         else v)"

subsection \<open>The environment of an expression\<close>

definition u_metric :: "(string \<Rightarrow> gval option) \<Rightarrow> string \<Rightarrow> gval" where
  "u_metric m key = (case m key of
       None \<Rightarrow> GNum (Fin 0)
     | Some GNil \<Rightarrow> GNum (Fin 0)
     | Some (GOther s) \<Rightarrow> GStr s
     | Some v \<Rightarrow> v)"

definition toFloat :: "gval \<Rightarrow> fl option" where
  "toFloat v = (case v of GNum f \<Rightarrow> Some f | _ \<Rightarrow> None)"

definition param :: "'p runtime \<Rightarrow> (string \<Rightarrow> string option) \<Rightarrow> string \<Rightarrow> gval" where
  "param rt m path = (case m path of
       None \<Rightarrow> GNil
     | Some raw \<Rightarrow> if raw = [] then GNil else (case rt_json rt raw of Some v \<Rightarrow> v | None \<Rightarrow> GStr raw))"

definition header :: "'p runtime \<Rightarrow> golib \<Rightarrow> (string \<times> string) list \<Rightarrow> string \<Rightarrow> string" where
  "header rt g m name = (case map_of m (toLower g name) of
       Some v \<Rightarrow> v
     | None \<Rightarrow> (case List.find (\<lambda>kv. rt_equalFold rt (fst kv) name) m of Some kv \<Rightarrow> snd kv | None \<Rightarrow> []))"

definition toString :: "'p runtime \<Rightarrow> gval \<Rightarrow> string" where
  "toString rt v = (case v of GNil \<Rightarrow> [] | GStr s \<Rightarrow> s | _ \<Rightarrow> rt_marshal rt v)"

definition str_contains :: "string \<Rightarrow> string \<Rightarrow> bool" where
  "str_contains s sub \<longleftrightarrow> list_ex (\<lambda>i. take (length sub) (drop i s) = sub) [0..<length s + 1]"

definition Scale :: rat where
  "Scale = 1000000"

definition newEnv :: "'p runtime \<Rightarrow> golib \<Rightarrow> price_input \<Rightarrow> env_funs" where
  "newEnv rt g inp = \<lparr>ef_vars = in_vars inp,
     ef_u = u_metric (in_metrics inp),
     ef_flat = (\<lambda>x. map_option (\<lambda>f. rt_mul rt f (Fin Scale)) (toFloat x)),
     ef_param = param rt (in_params inp),
     ef_header = header rt g (in_headers inp),
     ef_has = (\<lambda>s sub. str_contains (toString rt s) (toString rt sub)),
     ef_time = (\<lambda>f tz. if loadLocation g tz then rt_clock rt f tz (in_at inp) else None)\<rparr>"

subsection \<open>Results\<close>

definition CodeRuntime :: string where "CodeRuntime = ''runtime_error''"
definition CodeBadResult :: string where "CodeBadResult = ''invalid_result''"

text \<open>
  \<open>decimal.NewFromFloat\<close> panics on an infinity or NaN.
\<close>

datatype eval_err = EvalError string | Panic

record rule_result =
  rr_cond :: string
  rr_multiplier :: fl
  rr_matched :: bool

record item =
  it_tier :: string
  it_label :: string
  it_quantity :: "fl option"
  it_rate :: "rat option"
  it_expr :: string
  it_cost :: rat

record result =
  re_cost :: rat
  re_value :: fl
  re_tier :: string
  re_rules :: "rule_result list"
  re_tiers :: "string list"
  re_items :: "item list"
  re_subtotal :: rat
  re_base :: rat
  re_multiplier :: rat

definition runFloat :: "'p runtime \<Rightarrow> 'p \<Rightarrow> env_funs \<Rightarrow> string + fl" where
  "runFloat rt prog e = (case fst (rt_run rt prog e) of
       Inl err \<Rightarrow> Inl err
     | Inr (GNum f) \<Rightarrow> Inr f
     | Inr _ \<Rightarrow> Inl ''expected a number'')"

text \<open>Division keeps 16 decimal places, half away from zero.\<close>

definition div_scale :: "rat \<Rightarrow> rat" where
  "div_scale d =
     (let n = d / Scale * 10 ^ 16 in
      (if 0 \<le> n then of_int \<lfloor>n + 1 / 2\<rfloor> else - of_int \<lfloor>- n + 1 / 2\<rfloor>) / 10 ^ 16)"

definition usd :: "'p runtime \<Rightarrow> fl \<Rightarrow> eval_err + rat" where
  "usd rt f = (case f of Fin q \<Rightarrow> Inr (div_scale (rt_decimal rt q)) | _ \<Rightarrow> Inl Panic)"

subsection \<open>Evaluation\<close>

text \<open>One request rule: its result, the product of multipliers so far, and the tiers it called.\<close>

definition eval_rule :: "'p runtime \<Rightarrow> env_funs \<Rightarrow> 'p prule \<Rightarrow> rat \<Rightarrow> eval_err + rule_result \<times> rat \<times> string list" where
  "eval_rule rt e r mult = (case rt_run rt (ru_condProg r) e of (out, hit) \<Rightarrow> (case out of
       Inl _ \<Rightarrow> Inl (EvalError CodeRuntime)
     | Inr v \<Rightarrow>
         let matched = (v = GBool True);
             hit' = (if ru_multConst r = None then hit @ snd (rt_run rt (ru_multProg r) e) else hit) in
         and_then (case ru_multConst r of
             Some m \<Rightarrow> Inr (Fin m)
           | None \<Rightarrow> (case runFloat rt (ru_multProg r) e of
               Inr m \<Rightarrow> Inr m
             | Inl _ \<Rightarrow> if matched then Inl (EvalError CodeRuntime) else Inr (Fin 0))) (\<lambda>m.
         let rr = \<lparr>rr_cond = ru_cond r, rr_multiplier = m, rr_matched = matched\<rparr> in
         if \<not> matched then Inr (rr, mult, hit')
         else (case m of
             Fin q \<Rightarrow> if q \<ge> 0 then Inr (rr, mult * rt_decimal rt q, hit') else Inl (EvalError CodeBadResult)
           | _ \<Rightarrow> Inl (EvalError CodeBadResult)))))"

primrec eval_rules :: "'p runtime \<Rightarrow> env_funs \<Rightarrow> 'p prule list \<Rightarrow> rat \<Rightarrow>
    eval_err + rule_result list \<times> rat \<times> string list" where
  "eval_rules rt e [] mult = Inr ([], mult, [])"
| "eval_rules rt e (r # rs) mult =
     and_then (eval_rule rt e r mult) (\<lambda>(rr, mult', hit).
     and_then (eval_rules rt e rs mult') (\<lambda>(rrs, mult'', hits). Inr (rr # rrs, mult'', hit @ hits)))"

text \<open>The items of one tier: a term that fails is left out, one that is not finite panics.\<close>

primrec tier_items :: "'p runtime \<Rightarrow> env_funs \<Rightarrow> vars \<Rightarrow> string \<Rightarrow> 'p pterm list \<Rightarrow> eval_err + item list" where
  "tier_items rt e v name [] = Inr []"
| "tier_items rt e v name (t # ts) = (case runFloat rt (te_prog t) e of
       Inl _ \<Rightarrow> tier_items rt e v name ts
     | Inr f \<Rightarrow> and_then (usd rt f) (\<lambda>c. and_then (tier_items rt e v name ts) (\<lambda>its.
         Inr (\<lparr>it_tier = name, it_label = te_label t, it_quantity = map_option (getVar v) (te_var t),
           it_rate = te_rate t, it_expr = te_expr t, it_cost = c\<rparr> # its))))"

primrec items_of :: "'p runtime \<Rightarrow> env_funs \<Rightarrow> vars \<Rightarrow> 'p tier_def list \<Rightarrow> string list \<Rightarrow> eval_err + item list" where
  "items_of rt e v tiers [] = Inr []"
| "items_of rt e v tiers (name # names) =
     and_then (case List.find (\<lambda>td. td_name td = name) tiers of
         None \<Rightarrow> Inr []
       | Some td \<Rightarrow> tier_items rt e v name (td_terms td)) (\<lambda>its.
     and_then (items_of rt e v tiers names) (\<lambda>rest. Inr (its @ rest)))"

text \<open>The first occurrences of the tiers hit, in order.\<close>

definition first_hits :: "string list \<Rightarrow> string list" where
  "first_hits hit = rev (remdups (rev hit))"

definition Eval :: "'p runtime \<Rightarrow> golib \<Rightarrow> 'p program \<Rightarrow> price_input \<Rightarrow> eval_err + result" where
  "Eval rt g p inp =
     (let e = newEnv rt g inp in
      case runFloat rt (pr_base p) e of
        Inl _ \<Rightarrow> Inl (EvalError CodeRuntime)
      | Inr value \<Rightarrow>
          if \<not> finiteNonNeg value then Inl (EvalError CodeBadResult)
          else and_then (eval_rules rt e (pr_rules p) 1) (\<lambda>(rules, mult, hits).
            and_then (usd rt value) (\<lambda>base.
            let tiers = snd (rt_run rt (pr_base p) e) @ hits in
            and_then (items_of rt e (in_vars inp) (pr_tiers p) (first_hits tiers)) (\<lambda>its.
            Inr \<lparr>re_cost = base * mult, re_value = rt_mul rt value (rt_float rt mult),
              re_tier = (if tiers = [] then [] else last tiers), re_rules = rules, re_tiers = tiers,
              re_items = its, re_subtotal = sum_list (map it_cost its), re_base = base, re_multiplier = mult\<rparr>))))"

subsection \<open>Quotes\<close>

record quote_inputs =
  qi_expression :: string
  qi_semantics :: string
  qi_tokens :: price_tokens
  qi_metrics :: "string \<Rightarrow> gval option"
  qi_params :: "string \<Rightarrow> gval option"
  qi_headers :: "(string \<times> string) list"
  qi_rate :: rat
  qi_at :: int

definition captured :: "(string \<Rightarrow> gval option) \<Rightarrow> string \<Rightarrow> string option" where
  "captured m k = (case m k of Some (GStr s) \<Rightarrow> Some s | _ \<Rightarrow> None)"

definition quote_input :: "'p program \<Rightarrow> quote_inputs \<Rightarrow> price_input" where
  "quote_input p q = \<lparr>in_vars = Normalize (qi_semantics q) (qi_tokens q) (\<lambda>v. v \<in> pr_used p),
     in_metrics = qi_metrics q, in_params = captured (qi_params q), in_headers = qi_headers q, in_at = qi_at q\<rparr>"

datatype quote_err = NoExpression | BadExpression string | QuoteEval eval_err

definition Quote_cost :: "'p runtime \<Rightarrow> 'p engine \<Rightarrow> golib \<Rightarrow> (string \<Rightarrow> string) \<Rightarrow> (string \<times> 'p program) list \<Rightarrow>
    quote_inputs \<Rightarrow> quote_err + rat" where
  "Quote_cost rt eng g sha cache q =
     (if qi_expression q = [] then Inl NoExpression
      else (case CompileCached eng g sha cache (qi_expression q) of
          Inl code \<Rightarrow> Inl (BadExpression code)
        | Inr p \<Rightarrow> (case Eval rt g p (quote_input p q) of
            Inl err \<Rightarrow> Inl (QuoteEval err)
          | Inr res \<Rightarrow> Inr (round_half_away8 (re_cost res * qi_rate q)))))"

subsection \<open>Checking a price before it is stored\<close>

definition million_input :: "int \<Rightarrow> price_input" where
  "million_input now = \<lparr>in_vars = no_vars\<lparr>va_p := Fin 1000000, va_len := Fin 1000000\<rparr>, in_metrics = (\<lambda>_. None),
     in_params = (\<lambda>_. None), in_headers = [], in_at = now\<rparr>"

definition CostPerMillionInput :: "'p runtime \<Rightarrow> golib \<Rightarrow> 'p program \<Rightarrow> int \<Rightarrow> eval_err + rat" where
  "CostPerMillionInput rt g p now = and_then (Eval rt g p (million_input now)) (\<lambda>res. Inr (re_cost res))"

definition smokeValues :: "fl list" where
  "smokeValues = [Fin 1, Fin 1000, Fin 1000000]"

text \<open>\<open>mk\<close> of \<open>SmokeSamples\<close>: unset, \<open>len\<close> is the sum of the input variables, added from the left.\<close>

definition mk_sample :: "'p runtime \<Rightarrow> 'p program \<Rightarrow> int \<Rightarrow> vars \<Rightarrow> (string \<times> fl) list \<Rightarrow> price_input" where
  "mk_sample rt p now v metrics =
     \<lparr>in_vars = (if va_len v = Fin 0
        then v\<lparr>va_len := fold (\<lambda>f acc. rt_add rt acc f) [va_cr v, va_cc v, va_cc1h v, va_img v, va_ai v] (va_p v)\<rparr>
        else v),
      in_metrics = (\<lambda>k. if k \<in> set (pr_facts p)
        then Some (GNum (case map_of metrics k of Some f \<Rightarrow> f | None \<Rightarrow> Fin 0)) else None),
      in_params = (\<lambda>_. None), in_headers = [], in_at = now\<rparr>"

definition boundary_values :: "'p runtime \<Rightarrow> rat \<Rightarrow> fl list" where
  "boundary_values rt b =
     filter (\<lambda>l. \<not> (case l of Fin q \<Rightarrow> q < 0 | NegInf \<Rightarrow> True | _ \<Rightarrow> False))
       [rt_add rt (Fin b) (Fin (- 1)), Fin b, rt_add rt (Fin b) (Fin 1)]"

definition SmokeSamples :: "'p runtime \<Rightarrow> 'p program \<Rightarrow> int \<Rightarrow> price_input list" where
  "SmokeSamples rt p now =
     mk_sample rt p now no_vars [] #
     concat (map (\<lambda>f.
       map (\<lambda>name. mk_sample rt p now (setVar name f no_vars) []) (filter (\<lambda>v. v \<in> pr_used p) TokenVars) @
       map (\<lambda>k. mk_sample rt p now no_vars [(k, f)]) (pr_facts p) @
       [mk_sample rt p now (fold (\<lambda>name v. setVar name f v) TokenVars no_vars) (map (\<lambda>k. (k, f)) (pr_facts p))])
       smokeValues) @
     concat (map (\<lambda>b. map (\<lambda>l. mk_sample rt p now (no_vars\<lparr>va_p := l, va_len := l, va_c := Fin 1000\<rparr>) [])
       (boundary_values rt b)) (pr_lenBounds p))"

definition CodeUnknownFact :: string where "CodeUnknownFact = ''unknown_usage_fact''"
definition CodeSmoke :: string where "CodeSmoke = ''smoke_test_failed''"
definition CodeBigCost :: string where "CodeBigCost = ''big_cost''"

definition DefaultBigCostUSD :: rat where "DefaultBigCostUSD = 10"

record report =
  rp_errors :: "string list"
  rp_warnings :: "string list"

text \<open>The multiplier of a rule at an empty request.\<close>

definition bad_multiplier :: "'p runtime \<Rightarrow> golib \<Rightarrow> int \<Rightarrow> 'p prule \<Rightarrow> bool" where
  "bad_multiplier rt g now r \<longleftrightarrow> ru_multConst r = None \<and>
     (case runFloat rt (ru_multProg r) (newEnv rt g \<lparr>in_vars = no_vars, in_metrics = (\<lambda>_. None),
         in_params = (\<lambda>_. None), in_headers = [], in_at = now\<rparr>) of
        Inl _ \<Rightarrow> True | Inr m \<Rightarrow> \<not> finiteNonNeg m)"

definition Validate_program :: "'p runtime \<Rightarrow> golib \<Rightarrow> string set option \<Rightarrow> rat \<Rightarrow> int \<Rightarrow> 'p program \<Rightarrow> report" where
  "Validate_program rt g known big now p =
     (let unknown = (case known of None \<Rightarrow> [] | Some K \<Rightarrow>
            map (\<lambda>_. CodeUnknownFact) (filter (\<lambda>f. f \<notin> K) (pr_facts p)));
          smoke = (if list_ex (\<lambda>s. isl (Eval rt g p s)) (SmokeSamples rt p now) then [CodeSmoke] else []);
          mults = map (\<lambda>_. CodeSmoke) (filter (bad_multiplier rt g now) (pr_rules p));
          errors = unknown @ smoke @ mults;
          limit = (if big = 0 then DefaultBigCostUSD else big)
      in \<lparr>rp_errors = errors,
          rp_warnings = pr_issues p @
            (if errors = [] then (case CostPerMillionInput rt g p now of
                 Inr cost \<Rightarrow> if cost > limit then [CodeBigCost] else []
               | Inl _ \<Rightarrow> [])
             else [])\<rparr>)"

definition Validate_price :: "'p runtime \<Rightarrow> 'p engine \<Rightarrow> golib \<Rightarrow> (string \<Rightarrow> string) \<Rightarrow> string set option \<Rightarrow> rat \<Rightarrow> int \<Rightarrow>
    string \<Rightarrow> report" where
  "Validate_price rt eng g sha known big now src = (case Compile eng g sha src of
       Inl code \<Rightarrow> \<lparr>rp_errors = [code], rp_warnings = []\<rparr>
     | Inr p \<Rightarrow> Validate_program rt g known big now p)"

definition expressionFor :: "golib \<Rightarrow> string \<Rightarrow> (string \<Rightarrow> price_config option) \<Rightarrow> string \<Rightarrow> string + string" where
  "expressionFor g mode decode expression =
     (let generated = (case decode mode of Some cfg \<Rightarrow> Generate g cfg | None \<Rightarrow> Inl ''config'') in
      if mode = ''per_request'' \<or> mode = ''per_token'' then generated
      else if mode = ''expression'' then
        (case decode mode of
           Some (Expr c) \<Rightarrow> if ec_video c \<noteq> None then generated
             else if expression \<noteq> [] then Inr expression else generated
         | _ \<Rightarrow> if expression \<noteq> [] then Inr expression else generated)
      else Inl ''mode'')"

datatype check_err = BadConfig string | InvalidExpression report | ConfirmationRequired report

text \<open>The check of the administrator's routes; a sync stores its prices after \<open>CompileCached\<close> alone.\<close>

definition check_price :: "'p runtime \<Rightarrow> 'p engine \<Rightarrow> golib \<Rightarrow> (string \<Rightarrow> string) \<Rightarrow> string set option \<Rightarrow> rat \<Rightarrow> int \<Rightarrow>
    string \<Rightarrow> (string \<Rightarrow> price_config option) \<Rightarrow> string \<Rightarrow> bool \<Rightarrow> check_err + string \<times> 'p program" where
  "check_price rt eng g sha known big now mode decode expression confirm =
     (case expressionFor g mode decode (trimSpace expression) of
        Inl field \<Rightarrow> Inl (BadConfig field)
      | Inr src \<Rightarrow>
          let rep = Validate_price rt eng g sha known big now src in
          if rp_errors rep \<noteq> [] then Inl (InvalidExpression rep)
          else if \<not> confirm \<and> CodeBigCost \<in> set (rp_warnings rep) then Inl (ConfirmationRequired rep)
          else (case Compile eng g sha src of
              Inl code \<Rightarrow> Inl (InvalidExpression \<lparr>rp_errors = [code], rp_warnings = []\<rparr>)
            | Inr p \<Rightarrow> Inr (src, p)))"

end
