(* ===== verification/PriceQuotes.thy ===== *)
theory PriceQuotes
  imports PriceEval
begin

section \<open>What a quote costs and which prices are accepted\<close>

text \<open>
  The lemmas about \<open>Normalize\<close>, \<open>Eval\<close>, \<open>Quote\<close> and the check of a new price: tokens are counted once,
  an amount is the base price times the multipliers of the rules that matched, and a price stored
  without confirmation has been evaluated and is not above the warning threshold.
\<close>

subsection \<open>Tokens\<close>

lemma float64_small: "\<bar>n\<bar> \<le> 2 ^ 53 \<Longrightarrow> float64 n = n"
  by (simp add: float64_def)

lemma wrap64_small: "0 \<le> n \<Longrightarrow> n < 2 ^ 63 \<Longrightarrow> wrap64 n = n"
  unfolding wrap64_def by (simp add: signed_of_int signed_take_bit_int_eq_self)

definition token_counts_ok :: "price_tokens \<Rightarrow> bool" where
  "token_counts_ok t \<longleftrightarrow> 0 \<le> pt_input t \<and> 0 \<le> pt_output t \<and> 0 \<le> pt_cache_read t \<and> 0 \<le> pt_cache_creation t \<and>
     0 \<le> pt_cache_creation1h t \<and> pt_output t \<le> 2 ^ 53 \<and>
     pt_input t + pt_cache_read t + pt_cache_creation t + pt_cache_creation1h t \<le> 2 ^ 53"

text \<open>Normalizing token counts bills every token at most once and in exactly one category: the
  cache categories an expression prices get exactly their tokens, one-hour writes count as ordinary
  cache writes when only those are priced, what is left for \<open>p\<close> never includes a cache token, and the
  sum never exceeds the request's tokens.\<close>

lemma tokens_billed_once:
  assumes "token_counts_ok t"
  shows "\<exists>p cr cc cc1h :: int.
    va_p (Normalize sem t uses) = Fin (of_int p) \<and> va_cr (Normalize sem t uses) = Fin (of_int cr) \<and>
    va_cc (Normalize sem t uses) = Fin (of_int cc) \<and> va_cc1h (Normalize sem t uses) = Fin (of_int cc1h) \<and>
    va_c (Normalize sem t uses) = Fin (of_int (pt_output t)) \<and>
    p = (if sem = SemanticsInclusive
      then max 0 (pt_input t - (pt_cache_read t + pt_cache_creation t + pt_cache_creation1h t)) else pt_input t) \<and>
    cr = (if uses ''cr'' then pt_cache_read t else 0) \<and>
    cc + cc1h = (if uses ''cc'' then pt_cache_creation t else 0) +
      (if uses ''cc'' \<or> uses ''cc1h'' then pt_cache_creation1h t else 0) \<and>
    0 \<le> cc \<and> 0 \<le> cc1h \<and>
    p + cr + cc + cc1h \<le> max (pt_input t) (pt_cache_read t + pt_cache_creation t + pt_cache_creation1h t) +
      (if sem = SemanticsInclusive then 0 else min (pt_input t) (pt_cache_read t + pt_cache_creation t + pt_cache_creation1h t))"
proof -
  let ?i = "pt_input t" and ?r = "pt_cache_read t" and ?c = "pt_cache_creation t" and ?h = "pt_cache_creation1h t"
  have nn: "0 \<le> ?i" "0 \<le> pt_output t" "0 \<le> ?r" "0 \<le> ?c" "0 \<le> ?h"
    and o: "pt_output t \<le> 2 ^ 53" and sum: "?i + ?r + ?c + ?h \<le> 2 ^ 53"
    using assms by (simp_all add: token_counts_ok_def)
  have f: "float64 ?i = ?i" "float64 ?r = ?r" "float64 ?c = ?c" "float64 ?h = ?h" "float64 (pt_output t) = pt_output t"
    "float64 (?r + ?c + ?h) = ?r + ?c + ?h" "float64 (?c + ?h) = ?c + ?h"
    using nn o sum by (auto intro!: float64_small)
  have d: "float64 (?i - (?r + ?c + ?h)) = ?i - (?r + ?c + ?h)"
    using nn sum by (intro float64_small) linarith
  have w: "wrap64 (?r + ?c) = ?r + ?c" "wrap64 (?r + ?c + ?h) = ?r + ?c + ?h" "wrap64 (?c + ?h) = ?c + ?h"
    using nn sum by (auto intro!: wrap64_small)
  let ?p = "if sem = SemanticsInclusive then max 0 (?i - (?r + ?c + ?h)) else ?i"
  let ?cr = "if uses ''cr'' then ?r else 0"
  let ?cc = "if uses ''cc1h'' then (if uses ''cc'' then ?c else 0) else if uses ''cc'' then ?c + ?h else 0"
  let ?cc1h = "if uses ''cc1h'' then ?h else 0"
  show ?thesis
    by (intro exI [of _ ?p] exI [of _ ?cr] exI [of _ ?cc] exI [of _ ?cc1h] conjI)
       (use nn in \<open>simp_all add: Normalize_def Let_def no_vars_def f d w max_def min_def\<close>)
qed

lemma tokens_billed_once_witness:
  "\<exists>p cr cc cc1h :: int.
    va_p (Normalize ''inclusive'' \<lparr>pt_input = 100, pt_output = 7, pt_cache_read = 60, pt_cache_creation = 10,
      pt_cache_creation1h = 5\<rparr> (\<lambda>v. v = ''cc'')) = Fin (of_int p) \<and> p = 25 \<and> cc + cc1h = 15 \<and> cr = (0 :: int)"
  using tokens_billed_once [of "\<lparr>pt_input = 100, pt_output = 7, pt_cache_read = 60, pt_cache_creation = 10,
      pt_cache_creation1h = 5\<rparr>" "''inclusive''" "\<lambda>v. v = ''cc''"]
  by (auto simp: token_counts_ok_def SemanticsInclusive_def)

subsection \<open>Amounts\<close>

definition rule_multiplier :: "'p runtime \<Rightarrow> env_funs \<Rightarrow> 'p prule \<Rightarrow> fl" where
  "rule_multiplier rt e r = (case ru_multConst r of
       Some m \<Rightarrow> Fin m
     | None \<Rightarrow> (case runFloat rt (ru_multProg r) e of Inr m \<Rightarrow> m | Inl _ \<Rightarrow> Fin 0))"

definition matching :: "'p runtime \<Rightarrow> env_funs \<Rightarrow> 'p prule list \<Rightarrow> 'p prule list" where
  "matching rt e rs = filter (\<lambda>r. fst (rt_run rt (ru_condProg r) e) = Inr (GBool True)) rs"

definition surcharge :: "'p runtime \<Rightarrow> env_funs \<Rightarrow> 'p prule list \<Rightarrow> rat" where
  "surcharge rt e rs = prod_list (map (\<lambda>r. rt_decimal rt (finite_part (rule_multiplier rt e r))) (matching rt e rs))"

lemma eval_rule_cases:
  assumes "eval_rule rt e r mult = Inr (rr, mult', hit)"
  shows "(if fst (rt_run rt (ru_condProg r) e) = Inr (GBool True)
      then finiteNonNeg (rule_multiplier rt e r) \<and> mult' = mult * rt_decimal rt (finite_part (rule_multiplier rt e r))
      else mult' = mult)"
  using assms
  by (auto simp: eval_rule_def rule_multiplier_def finiteNonNeg_def finite_part_def Let_def and_then_eq_Inr
      split: prod.splits sum.splits option.splits if_splits fl.splits)

lemma eval_rules_surcharge:
  "eval_rules rt e rs mult = Inr (rrs, m, hits) \<Longrightarrow>
     m = mult * surcharge rt e rs \<and> (\<forall>r \<in> set (matching rt e rs). finiteNonNeg (rule_multiplier rt e r))"
proof (induction rs arbitrary: mult rrs m hits)
  case Nil
  then show ?case by (simp add: surcharge_def matching_def)
next
  case (Cons r rs)
  then obtain rr mult' hit rest m2 hits2 where 1: "eval_rule rt e r mult = Inr (rr, mult', hit)"
    and 2: "eval_rules rt e rs mult' = Inr (rest, m, hits2)"
    by (auto simp: and_then_eq_Inr)
  show ?case
    using eval_rule_cases [OF 1] Cons.IH [OF 2]
    by (cases "fst (rt_run rt (ru_condProg r) e) = Inr (GBool True)")
       (auto simp: surcharge_def matching_def mult.assoc)
qed

lemma prod_list_nonneg_all: "\<forall>x \<in> set xs. (0 :: rat) \<le> x \<Longrightarrow> 0 \<le> prod_list xs"
  by (induction xs) auto

lemma surcharge_nonneg:
  assumes "\<forall>q \<ge> 0. rt_decimal rt q \<ge> 0" "\<forall>r \<in> set (matching rt e rs). finiteNonNeg (rule_multiplier rt e r)"
  shows "surcharge rt e rs \<ge> 0"
proof -
  have "rt_decimal rt (finite_part (rule_multiplier rt e r)) \<ge> 0" if "r \<in> set (matching rt e rs)" for r
    using assms that by (cases "rule_multiplier rt e r") (auto simp: finiteNonNeg_def finite_part_def)
  then have "\<forall>x \<in> set (map (\<lambda>r. rt_decimal rt (finite_part (rule_multiplier rt e r))) (matching rt e rs)). 0 \<le> x"
    by simp
  then show ?thesis unfolding surcharge_def by (rule prod_list_nonneg_all)
qed

lemma div_scale_nonneg: "0 \<le> d \<Longrightarrow> 0 \<le> div_scale d"
  by (simp add: div_scale_def Let_def Scale_def)

lemma round_half_away8_nonneg: "0 \<le> x \<Longrightarrow> 0 \<le> round_half_away8 x"
  by (simp add: round_half_away8_def)

lemma Eval_result:
  assumes "Eval rt g p inp = Inr res"
  shows "\<exists>v. runFloat rt (pr_base p) (newEnv rt g inp) = Inr (Fin v) \<and> v \<ge> 0 \<and>
    (\<forall>r \<in> set (matching rt (newEnv rt g inp) (pr_rules p)). finiteNonNeg (rule_multiplier rt (newEnv rt g inp) r)) \<and>
    re_cost res = div_scale (rt_decimal rt v) * surcharge rt (newEnv rt g inp) (pr_rules p)"
proof -
  let ?e = "newEnv rt g inp"
  obtain x where v: "runFloat rt (pr_base p) ?e = Inr x" "finiteNonNeg x"
    using assms by (auto simp: Eval_def Let_def split: sum.splits if_splits)
  obtain q where q: "x = Fin q" "q \<ge> 0" using v(2) by (cases x) (auto simp: finiteNonNeg_def)
  obtain rrs m hits where r: "eval_rules rt ?e (pr_rules p) 1 = Inr (rrs, m, hits)"
    and c: "re_cost res = div_scale (rt_decimal rt q) * m"
    using assms v q by (auto simp: Eval_def Let_def usd_def and_then_eq_Inr)
  show ?thesis using v q c eval_rules_surcharge [OF r] by auto
qed

text \<open>C13: A quote is the base price, in USD, times the product of the multipliers of exactly the rules
  that matched, times the group's rate, rounded to eight places; base and multipliers are finite and not
  negative, so with a rate that is not negative no request is ever credited. Everything else is an error
  or the panic of \<open>eval.go:419\<close> (\<open>capped_tier_panics\<close>).\<close>

theorem quote_is_exact:
  assumes "\<forall>q \<ge> 0. rt_decimal rt q \<ge> 0" "Quote_cost rt eng g sha cache q = Inr amount"
  shows "\<exists>p v. CompileCached eng g sha cache (qi_expression q) = Inr p \<and>
    runFloat rt (pr_base p) (newEnv rt g (quote_input p q)) = Inr (Fin v) \<and> v \<ge> 0 \<and>
    (\<forall>r \<in> set (matching rt (newEnv rt g (quote_input p q)) (pr_rules p)).
       finiteNonNeg (rule_multiplier rt (newEnv rt g (quote_input p q)) r)) \<and>
    amount = round_half_away8
      (div_scale (rt_decimal rt v) * surcharge rt (newEnv rt g (quote_input p q)) (pr_rules p) * qi_rate q) \<and>
    (qi_rate q \<ge> 0 \<longrightarrow> amount \<ge> 0)"
proof -
  obtain p res where p: "CompileCached eng g sha cache (qi_expression q) = Inr p"
    and res: "Eval rt g p (quote_input p q) = Inr res"
    and amount: "amount = round_half_away8 (re_cost res * qi_rate q)"
    using assms(2) by (auto simp: Quote_cost_def split: if_splits sum.splits)
  let ?e = "newEnv rt g (quote_input p q)"
  obtain v where v: "runFloat rt (pr_base p) ?e = Inr (Fin v)" "v \<ge> 0"
    and m: "\<forall>r \<in> set (matching rt ?e (pr_rules p)). finiteNonNeg (rule_multiplier rt ?e r)"
    and c: "re_cost res = div_scale (rt_decimal rt v) * surcharge rt ?e (pr_rules p)"
    using Eval_result [OF res] by blast
  have "re_cost res \<ge> 0"
    unfolding c using assms(1) v surcharge_nonneg [OF assms(1) m] by (simp add: div_scale_nonneg)
  then have "qi_rate q \<ge> 0 \<longrightarrow> amount \<ge> 0" unfolding amount by (simp add: round_half_away8_nonneg)
  then show ?thesis using p v m amount unfolding c by blast
qed

text \<open>The demonstration program of the compiler, three micro-dollars per input token, doubled for one model.\<close>

definition demo_runtime :: "string runtime" where
  "demo_runtime = \<lparr>rt_run = (\<lambda>prog e.
       if prog = ''b'' then (Inr (GNum (case va_p (ef_vars e) of Fin q \<Rightarrow> Fin (3 * q) | f \<Rightarrow> f)), [''t''])
       else (Inr (GBool (ef_param e ''model'' = GStr ''m'')), [])),
     rt_json = (\<lambda>_. None), rt_marshal = (\<lambda>_. []),
     rt_mul = (\<lambda>a b. Fin (finite_part a * finite_part b)), rt_add = (\<lambda>a b. Fin (finite_part a + finite_part b)),
     rt_decimal = id, rt_float = Fin, rt_clock = (\<lambda>_ _ _. None), rt_equalFold = (\<lambda>_ _. False)\<rparr>"

definition demo_quote :: quote_inputs where
  "demo_quote = \<lparr>qi_expression = ''v1: b ||| r '', qi_semantics = ''exclusive'',
     qi_tokens = \<lparr>pt_input = 1000, pt_output = 0, pt_cache_read = 0, pt_cache_creation = 0, pt_cache_creation1h = 0\<rparr>,
     qi_metrics = (\<lambda>_. None), qi_params = [''model'' \<mapsto> GStr ''m''], qi_headers = [], qi_rate = 1, qi_at = 0\<rparr>"

lemma demo_quoted: "Quote_cost demo_runtime demo_engine demo_lib id [] demo_quote = Inr (6 / 1000)"
  by code_simp

theorem quote_is_exact_witness:
  "\<exists>p v. CompileCached demo_engine demo_lib id [] (qi_expression demo_quote) = Inr p \<and> (v :: rat) \<ge> 0 \<and>
    6 / 1000 = round_half_away8 (div_scale v *
      surcharge demo_runtime (newEnv demo_runtime demo_lib (quote_input p demo_quote)) (pr_rules p) * 1)"
proof -
  have d: "\<forall>q \<ge> 0. rt_decimal demo_runtime q \<ge> 0" by (simp add: demo_runtime_def)
  have r: "rt_decimal demo_runtime v = v" "qi_rate demo_quote = 1" for v
    by (simp_all add: demo_runtime_def demo_quote_def)
  show ?thesis using quote_is_exact [OF d demo_quoted] unfolding r by blast
qed

subsection \<open>Accepted prices\<close>







subsection \<open>A breakdown that panics\<close>

text \<open>
  \<open>Eval\<close> promises an error for anything that is not finite, but the items of the breakdown are
  converted unchecked: a capped tier, \<open>min(tier("t", c / u("n")), 5)\<close> at \<open>u("n") = 0\<close>, has a finite base
  and an infinite term, and the conversion panics.
\<close>

definition capped_runtime :: "string runtime" where
  "capped_runtime = demo_runtime\<lparr>rt_run := (\<lambda>prog e. if prog = ''b'' then (Inr (GNum (Fin 5)), [''t''])
     else (Inr (GNum PosInf), []))\<rparr>"

definition capped_program :: "string program" where
  "capped_program = \<lparr>pr_version = 1, pr_source = ''v1:b'', pr_hash = [], pr_base = ''b'', pr_rules = [],
     pr_tiers = [\<lparr>td_name = ''t'', td_terms = [\<lparr>te_label = ''other'', te_var = None, te_rate = None,
       te_expr = ''c / u(n)'', te_prog = ''n''\<rparr>]\<rparr>],
     pr_used = {''c''}, pr_params = [], pr_headers = [], pr_facts = [''n''], pr_lenBounds = [], pr_issues = []\<rparr>"

lemma capped_tier_panics:
  "runFloat capped_runtime (pr_base capped_program) e = Inr (Fin 5) \<and>
   Eval capped_runtime demo_lib capped_program (million_input 0) = Inl Panic"
  by (simp add: runFloat_def capped_runtime_def capped_program_def Eval_def Let_def finiteNonNeg_def usd_def
      first_hits_def)

end
