(* ===== verification/PriceCache.thy ===== *)
theory PriceCache
  imports PriceProgram
begin

section \<open>The price and settings caches of a node (\<open>billing/pricer.go\<close>, \<open>settings.go\<close>, \<open>billing.go\<close>)\<close>

text \<open>
  Every node keeps the enabled prices and the billing settings for up to \<open>ttl\<close>. A change in the database
  is followed by \<open>invalidate\<close>, which advances an epoch, so that a load that was under way when the
  change came is not stored afterwards. Requests and changes interleave at the boundaries of the
  critical sections and of the database queries; these are the steps of \<open>pstep\<close>. The history of
  committed tables is kept beside the state, and every loaded value remembers which of them it read.
\<close>

subsection \<open>Prices\<close>

record price_row =
  mp_id :: int
  mp_model :: string
  mp_mode :: string
  mp_expression :: string
  mp_version :: int
  mp_hash :: string
  mp_video :: bool
  mp_enabled :: bool

record resolved_price =
  pu_id :: int
  pu_model :: string
  pu_mode :: string
  pu_expression :: string
  pu_version :: int
  pu_hash :: string
  pu_videoOnly :: bool

text \<open>\<open>mp_video\<close>: the row's configuration decodes and has a video template.\<close>

definition rule_of :: "'p engine \<Rightarrow> golib \<Rightarrow> (string \<Rightarrow> string) \<Rightarrow> price_row \<Rightarrow> resolved_price" where
  "rule_of eng g sha r = \<lparr>pu_id = mp_id r, pu_model = mp_model r, pu_mode = mp_mode r,
     pu_expression = mp_expression r, pu_version = mp_version r, pu_hash = mp_hash r,
     pu_videoOnly = ((mp_mode r = ''expression'' \<and> mp_video r) \<or>
       (case Compile eng g sha (mp_expression r) of
          Inr p \<Rightarrow> list_ex (\<lambda>f. take 6 f = ''video_'') (pr_facts p) | Inl _ \<Rightarrow> False))\<rparr>"

text \<open>The rows of the query, one after the other, into the map by model.\<close>

definition load_prices :: "'p engine \<Rightarrow> golib \<Rightarrow> (string \<Rightarrow> string) \<Rightarrow> price_row list \<Rightarrow> string \<Rightarrow> resolved_price option" where
  "load_prices eng g sha rows =
     fold (\<lambda>r m. m(mp_model r \<mapsto> rule_of eng g sha r)) (filter mp_enabled rows) Map.empty"

subsection \<open>Settings\<close>

record billing_settings =
  bs_preConsume :: int
  bs_missingPrice :: string
  bs_minBalance :: rat
  bs_bigCost :: rat
  bs_outputReserve :: int
  bs_maxOverdraft :: rat

record settings_doc =
  sd_preConsume :: "int option"
  sd_missingPrice :: "string option"
  sd_minBalance :: "rat option"
  sd_bigCost :: "rat option"
  sd_outputReserve :: "int option"
  sd_maxOverdraft :: "rat option"

definition DefaultSettings :: billing_settings where
  "DefaultSettings = \<lparr>bs_preConsume = 500, bs_missingPrice = ''reject'', bs_minBalance = 0, bs_bigCost = 10,
     bs_outputReserve = 4000, bs_maxOverdraft = 5\<rparr>"

definition or_else :: "'a option \<Rightarrow> 'a \<Rightarrow> 'a" where
  "or_else x d = (case x of Some v \<Rightarrow> v | None \<Rightarrow> d)"

text \<open>The stored document, if there is a row; absent fields keep their defaults.\<close>

definition loadSettings :: "settings_doc option \<Rightarrow> billing_settings" where
  "loadSettings row = (case row of
       None \<Rightarrow> DefaultSettings
     | Some d \<Rightarrow> \<lparr>bs_preConsume = or_else (sd_preConsume d) 500, bs_missingPrice = or_else (sd_missingPrice d) ''reject'',
         bs_minBalance = or_else (sd_minBalance d) 0, bs_bigCost = or_else (sd_bigCost d) 10,
         bs_outputReserve = or_else (sd_outputReserve d) 4000, bs_maxOverdraft = or_else (sd_maxOverdraft d) 5\<rparr>)"

subsection \<open>The service\<close>

text \<open>
  \<open>sn_ref\<close> is the identity of the snapshot object; \<open>sn_ver\<close> and \<open>se_ver\<close> are the table versions it was
  read from.
\<close>

record price_snapshot =
  sn_ref :: nat
  sn_ver :: nat
  sn_at :: int
  sn_byModel :: "string \<Rightarrow> resolved_price option"

record settings_snapshot =
  se_ver :: nat
  se_at :: int
  se_v :: billing_settings

record resolved_entry =
  rs_ver :: nat
  rs_at :: int
  rs_rule :: "resolved_price option"

record price_service =
  ps_epoch :: nat
  ps_prices :: "price_snapshot option"
  ps_resolved :: "string \<Rightarrow> resolved_entry option"
  ps_settings :: "settings_snapshot option"

definition invalidate :: "price_service \<Rightarrow> price_service" where
  "invalidate s = s\<lparr>ps_epoch := ps_epoch s + 1, ps_prices := None, ps_settings := None, ps_resolved := Map.empty\<rparr>"

text \<open>The first critical section of \<open>Resolve\<close>.\<close>

definition look_resolved :: "int \<Rightarrow> int \<Rightarrow> string \<Rightarrow> price_service \<Rightarrow> resolved_entry option" where
  "look_resolved ttl now model s = (case ps_resolved s model of
       Some e \<Rightarrow> if now - rs_at e < ttl then Some e else None | None \<Rightarrow> None)"

text \<open>The first critical section of \<open>snapshot\<close>, and the second, after the query.\<close>

definition look_prices :: "int \<Rightarrow> int \<Rightarrow> price_service \<Rightarrow> price_snapshot option" where
  "look_prices ttl now s = (case ps_prices s of
       Some sn \<Rightarrow> if now - sn_at sn < ttl then Some sn else None | None \<Rightarrow> None)"

definition keep_prices :: "nat \<Rightarrow> price_snapshot \<Rightarrow> price_service \<Rightarrow> price_service" where
  "keep_prices epoch sn s = (if ps_epoch s = epoch then s\<lparr>ps_prices := Some sn, ps_resolved := Map.empty\<rparr> else s)"

text \<open>The last critical section of \<open>Resolve\<close>: the entry is kept only while its snapshot is the current one.\<close>

definition keep_resolved :: "string \<Rightarrow> price_snapshot \<Rightarrow> price_service \<Rightarrow> price_service" where
  "keep_resolved model sn s =
     (if map_option sn_ref (ps_prices s) = Some (sn_ref sn)
      then s\<lparr>ps_resolved := (ps_resolved s)(model \<mapsto> \<lparr>rs_ver = sn_ver sn, rs_at = sn_at sn, rs_rule = sn_byModel sn model\<rparr>)\<rparr>
      else s)"

definition look_settings :: "int \<Rightarrow> int \<Rightarrow> price_service \<Rightarrow> settings_snapshot option" where
  "look_settings ttl now s = (case ps_settings s of
       Some v \<Rightarrow> if now - se_at v < ttl then Some v else None | None \<Rightarrow> None)"

definition keep_settings :: "nat \<Rightarrow> settings_snapshot \<Rightarrow> price_service \<Rightarrow> price_service" where
  "keep_settings epoch v s = (if ps_epoch s = epoch then s\<lparr>ps_settings := Some v\<rparr> else s)"

text \<open>What \<open>Resolve\<close> returns for a model without a price.\<close>

datatype resolution = Priced resolved_price | Free | NotConfigured

definition missing_price :: "billing_settings \<Rightarrow> resolution" where
  "missing_price st = (if bs_missingPrice st = ''free'' then Free else NotConfigured)"

subsection \<open>One node, its requests and the database\<close>

text \<open>
  Where a call of \<open>Resolve\<close> stands. \<open>low\<close>, the table version of the node's last invalidation when the
  call started, is not the program's: it is what the theorem compares with.
\<close>

datatype call_state =
    Started string nat
  | Missed string nat
  | Querying string nat nat
  | Queried string nat nat price_snapshot
  | Matched string nat price_snapshot
  | NoRule string nat nat
  | QueryingSettings string nat nat nat
  | QueriedSettings string nat nat nat settings_snapshot
  | Answered string nat nat nat resolution

text \<open>
  \<open>pn_history\<close> holds the committed versions of the two tables, the newest last; \<open>pn_floor\<close> is the newest
  version when the node last invalidated its caches.
\<close>

record price_node =
  pn_now :: int
  pn_history :: "(price_row list \<times> settings_doc option) list"
  pn_floor :: nat
  pn_refs :: nat
  pn_service :: price_service
  pn_calls :: "nat \<Rightarrow> call_state option"

definition newest :: "price_node \<Rightarrow> nat" where
  "newest n = length (pn_history n) - 1"

definition set_call :: "nat \<Rightarrow> call_state \<Rightarrow> price_node \<Rightarrow> price_node" where
  "set_call i c n = n\<lparr>pn_calls := (pn_calls n)(i \<mapsto> c)\<rparr>"

definition answer_rule :: "string \<Rightarrow> nat \<Rightarrow> nat \<Rightarrow> resolved_price option \<Rightarrow> call_state" where
  "answer_rule model low ver r = (case r of
       Some r \<Rightarrow> Answered model low ver ver (Priced r) | None \<Rightarrow> NoRule model low ver)"

inductive pstep :: "(price_row list \<Rightarrow> string \<Rightarrow> resolved_price option) \<Rightarrow> int \<Rightarrow> price_node \<Rightarrow> price_node \<Rightarrow> bool"
  for load ttl where
  Tick: "t \<ge> pn_now n \<Longrightarrow> pstep load ttl n (n\<lparr>pn_now := t\<rparr>)"
| Commit: "pstep load ttl n (n\<lparr>pn_history := pn_history n @ [tables]\<rparr>)"
| Invalidate: "pstep load ttl n (n\<lparr>pn_service := invalidate (pn_service n), pn_floor := newest n\<rparr>)"
| Start: "pn_calls n i = None \<Longrightarrow> pstep load ttl n (set_call i (Started model (pn_floor n)) n)"
| Hit: "pn_calls n i = Some (Started model low) \<Longrightarrow>
    look_resolved ttl (pn_now n) model (pn_service n) = Some e \<Longrightarrow>
    pstep load ttl n (set_call i (answer_rule model low (rs_ver e) (rs_rule e)) n)"
| Miss: "pn_calls n i = Some (Started model low) \<Longrightarrow>
    look_resolved ttl (pn_now n) model (pn_service n) = None \<Longrightarrow>
    pstep load ttl n (set_call i (Missed model low) n)"
| Cached: "pn_calls n i = Some (Missed model low) \<Longrightarrow> look_prices ttl (pn_now n) (pn_service n) = Some sn \<Longrightarrow>
    pstep load ttl n (set_call i (Matched model low sn) n)"
| Stale: "pn_calls n i = Some (Missed model low) \<Longrightarrow> look_prices ttl (pn_now n) (pn_service n) = None \<Longrightarrow>
    pstep load ttl n (set_call i (Querying model low (ps_epoch (pn_service n))) n)"
| Query: "pn_calls n i = Some (Querying model low epoch) \<Longrightarrow>
    pstep load ttl n (set_call i (Queried model low epoch \<lparr>sn_ref = pn_refs n, sn_ver = newest n, sn_at = pn_now n,
      sn_byModel = load (fst (pn_history n ! newest n))\<rparr>) (n\<lparr>pn_refs := pn_refs n + 1\<rparr>))"
| Keep: "pn_calls n i = Some (Queried model low epoch sn) \<Longrightarrow>
    pstep load ttl n (set_call i (Matched model low sn) (n\<lparr>pn_service := keep_prices epoch sn (pn_service n)\<rparr>))"
| Match: "pn_calls n i = Some (Matched model low sn) \<Longrightarrow>
    pstep load ttl n (set_call i (answer_rule model low (sn_ver sn) (sn_byModel sn model))
      (n\<lparr>pn_service := keep_resolved model sn (pn_service n)\<rparr>))"
| CachedSettings: "pn_calls n i = Some (NoRule model low ver) \<Longrightarrow>
    look_settings ttl (pn_now n) (pn_service n) = Some v \<Longrightarrow>
    pstep load ttl n (set_call i (Answered model low ver (se_ver v) (missing_price (se_v v))) n)"
| StaleSettings: "pn_calls n i = Some (NoRule model low ver) \<Longrightarrow>
    look_settings ttl (pn_now n) (pn_service n) = None \<Longrightarrow>
    pstep load ttl n (set_call i (QueryingSettings model low ver (ps_epoch (pn_service n))) n)"
| QuerySettings: "pn_calls n i = Some (QueryingSettings model low ver epoch) \<Longrightarrow>
    pstep load ttl n (set_call i (QueriedSettings model low ver epoch \<lparr>se_ver = newest n, se_at = pn_now n,
      se_v = loadSettings (snd (pn_history n ! newest n))\<rparr>) n)"
| KeepSettings: "pn_calls n i = Some (QueriedSettings model low ver epoch v) \<Longrightarrow>
    pstep load ttl n (set_call i (Answered model low ver (se_ver v) (missing_price (se_v v)))
      (n\<lparr>pn_service := keep_settings epoch v (pn_service n)\<rparr>))"
| Fail: "pstep load ttl n (n\<lparr>pn_calls := (pn_calls n)(i := None)\<rparr>)"

inductive_cases pstepE: "pstep load ttl n m"

subsection \<open>Loaded values and the versions they were read from\<close>

definition snapshot_ok :: "(price_row list \<Rightarrow> string \<Rightarrow> resolved_price option) \<Rightarrow> price_node \<Rightarrow> price_snapshot \<Rightarrow> bool" where
  "snapshot_ok load n sn \<longleftrightarrow> sn_ver sn < length (pn_history n) \<and> sn_byModel sn = load (fst (pn_history n ! sn_ver sn)) \<and>
     sn_ref sn < pn_refs n"

definition sett_ok :: "price_node \<Rightarrow> settings_snapshot \<Rightarrow> bool" where
  "sett_ok n v \<longleftrightarrow> se_ver v < length (pn_history n) \<and> se_v v = loadSettings (snd (pn_history n ! se_ver v))"

definition unpriced :: "(price_row list \<Rightarrow> string \<Rightarrow> resolved_price option) \<Rightarrow> price_node \<Rightarrow> string \<Rightarrow> nat \<Rightarrow> nat \<Rightarrow> bool" where
  "unpriced load n model low ver \<longleftrightarrow> low \<le> ver \<and> low \<le> pn_floor n \<and> ver < length (pn_history n) \<and>
     load (fst (pn_history n ! ver)) model = None"

definition resolution_at :: "(price_row list \<Rightarrow> string \<Rightarrow> resolved_price option) \<Rightarrow> price_node \<Rightarrow> string \<Rightarrow> nat \<Rightarrow> nat \<Rightarrow> resolution" where
  "resolution_at load n model a b = (case load (fst (pn_history n ! a)) model of
       Some r \<Rightarrow> Priced r | None \<Rightarrow> missing_price (loadSettings (snd (pn_history n ! b))))"

fun call_ok :: "(price_row list \<Rightarrow> string \<Rightarrow> resolved_price option) \<Rightarrow> price_node \<Rightarrow> call_state \<Rightarrow> bool" where
  "call_ok load n (Started model low) \<longleftrightarrow> low \<le> pn_floor n"
| "call_ok load n (Missed model low) \<longleftrightarrow> low \<le> pn_floor n"
| "call_ok load n (Querying model low e) \<longleftrightarrow> low \<le> pn_floor n \<and> e \<le> ps_epoch (pn_service n)"
| "call_ok load n (Queried model low e sn) \<longleftrightarrow> low \<le> pn_floor n \<and> snapshot_ok load n sn \<and> low \<le> sn_ver sn \<and>
     e \<le> ps_epoch (pn_service n) \<and> (e = ps_epoch (pn_service n) \<longrightarrow> pn_floor n \<le> sn_ver sn)"
| "call_ok load n (Matched model low sn) \<longleftrightarrow> low \<le> pn_floor n \<and> snapshot_ok load n sn \<and> low \<le> sn_ver sn"
| "call_ok load n (NoRule model low ver) \<longleftrightarrow> unpriced load n model low ver"
| "call_ok load n (QueryingSettings model low ver e) \<longleftrightarrow> unpriced load n model low ver \<and> e \<le> ps_epoch (pn_service n)"
| "call_ok load n (QueriedSettings model low ver e v) \<longleftrightarrow> unpriced load n model low ver \<and> sett_ok n v \<and>
     low \<le> se_ver v \<and> e \<le> ps_epoch (pn_service n) \<and> (e = ps_epoch (pn_service n) \<longrightarrow> pn_floor n \<le> se_ver v)"
| "call_ok load n (Answered model low a b r) \<longleftrightarrow> low \<le> a \<and> a < length (pn_history n) \<and> low \<le> b \<and>
     b < length (pn_history n) \<and> r = resolution_at load n model a b"

fun snap_in :: "call_state \<Rightarrow> price_snapshot set" where
  "snap_in (Queried model low e sn) = {sn}"
| "snap_in (Matched model low sn) = {sn}"
| "snap_in _ = {}"

definition held_snaps :: "price_node \<Rightarrow> price_snapshot set" where
  "held_snaps n = set_option (ps_prices (pn_service n)) \<union> (\<Union>c \<in> ran (pn_calls n). snap_in c)"

definition caches_ok :: "(price_row list \<Rightarrow> string \<Rightarrow> resolved_price option) \<Rightarrow> price_node \<Rightarrow> bool" where
  "caches_ok load n \<longleftrightarrow>
     (\<forall>sn. ps_prices (pn_service n) = Some sn \<longrightarrow> snapshot_ok load n sn \<and> pn_floor n \<le> sn_ver sn) \<and>
     (\<forall>model e. ps_resolved (pn_service n) model = Some e \<longrightarrow> rs_ver e < length (pn_history n) \<and> pn_floor n \<le> rs_ver e \<and>
        rs_rule e = load (fst (pn_history n ! rs_ver e)) model) \<and>
     (\<forall>v. ps_settings (pn_service n) = Some v \<longrightarrow> sett_ok n v \<and> pn_floor n \<le> se_ver v)"

definition node_ok :: "(price_row list \<Rightarrow> string \<Rightarrow> resolved_price option) \<Rightarrow> price_node \<Rightarrow> bool" where
  "node_ok load n \<longleftrightarrow> pn_floor n < length (pn_history n) \<and> caches_ok load n \<and>
     (\<forall>i c. pn_calls n i = Some c \<longrightarrow> call_ok load n c) \<and>
     (\<forall>a \<in> held_snaps n. \<forall>b \<in> held_snaps n. sn_ref a = sn_ref b \<longrightarrow> a = b)"

text \<open>What every step leaves: history only grows, and the floor moves only with the epoch.\<close>

definition later :: "price_node \<Rightarrow> price_node \<Rightarrow> bool" where
  "later n m \<longleftrightarrow> (\<exists>xs. pn_history m = pn_history n @ xs) \<and> pn_floor n \<le> pn_floor m \<and> pn_refs n \<le> pn_refs m \<and>
     ps_epoch (pn_service n) \<le> ps_epoch (pn_service m) \<and>
     (ps_epoch (pn_service n) = ps_epoch (pn_service m) \<longrightarrow> pn_floor m = pn_floor n)"

lemma later_length: "later n m \<Longrightarrow> length (pn_history n) \<le> length (pn_history m)"
  by (auto simp: later_def)

lemma later_nth: "later n m \<Longrightarrow> v < length (pn_history n) \<Longrightarrow> pn_history m ! v = pn_history n ! v"
  by (auto simp: later_def nth_append)

lemma snapshot_ok_later: "snapshot_ok load n sn \<Longrightarrow> later n m \<Longrightarrow> snapshot_ok load m sn"
  using later_nth later_length by (fastforce simp: snapshot_ok_def later_def)

lemma sett_ok_later: "sett_ok n v \<Longrightarrow> later n m \<Longrightarrow> sett_ok m v"
  using later_nth later_length by (fastforce simp: sett_ok_def)

lemma unpriced_later: "unpriced load n model low ver \<Longrightarrow> later n m \<Longrightarrow> unpriced load m model low ver"
  using later_nth [of n m ver] later_length [of n m] by (auto simp: unpriced_def later_def)

lemma call_ok_later:
  assumes "call_ok load n c" "later n m"
  shows "call_ok load m c"
proof -
  have l: "pn_floor n \<le> pn_floor m" "ps_epoch (pn_service n) \<le> ps_epoch (pn_service m)"
    "ps_epoch (pn_service n) = ps_epoch (pn_service m) \<Longrightarrow> pn_floor m = pn_floor n"
    using assms(2) by (auto simp: later_def)
  show ?thesis
  proof (cases c)
    case (Answered model low a b r)
    have "resolution_at load m model a b = resolution_at load n model a b"
      using assms Answered later_nth [OF assms(2)] by (simp add: resolution_at_def cong: option.case_cong)
    then show ?thesis using assms(1) later_length [OF assms(2)] Answered by simp
  qed (use assms l in \<open>auto simp: snapshot_ok_later sett_ok_later unpriced_later\<close>)
qed

subsection \<open>Every step keeps the node in order\<close>

lemma node_okI:
  assumes n: "node_ok load n" and l: "later n m"
    and c: "\<And>j c. pn_calls m j = Some c \<Longrightarrow> pn_calls n j = Some c \<or> call_ok load m c"
    and k: "caches_ok load m" and f: "pn_floor m < length (pn_history m)"
    and h: "\<And>a b. a \<in> held_snaps m \<Longrightarrow> b \<in> held_snaps m \<Longrightarrow> sn_ref a = sn_ref b \<Longrightarrow> a = b"
  shows "node_ok load m"
  using assms call_ok_later unfolding node_ok_def by blast

lemma held_call: "pn_calls n i = Some c \<Longrightarrow> sn \<in> snap_in c \<Longrightarrow> sn \<in> held_snaps n"
  by (auto simp: held_snaps_def ran_def)

lemma held_prices: "ps_prices (pn_service n) = Some sn \<Longrightarrow> sn \<in> held_snaps n"
  by (simp add: held_snaps_def)

lemma held_set_call: "held_snaps (set_call i c n) \<subseteq> held_snaps n \<union> snap_in c"
  by (auto simp: held_snaps_def set_call_def ran_def split: if_splits)

lemma held_ref: "node_ok load n \<Longrightarrow> sn \<in> held_snaps n \<Longrightarrow> sn_ref sn < pn_refs n"
proof -
  assume n: "node_ok load n" and "sn \<in> held_snaps n"
  then consider "ps_prices (pn_service n) = Some sn" | i c where "pn_calls n i = Some c" "sn \<in> snap_in c"
    by (auto simp: held_snaps_def ran_def)
  then show "sn_ref sn < pn_refs n"
  proof cases
    case 1
    then show ?thesis using n by (simp add: node_ok_def caches_ok_def snapshot_ok_def)
  next
    case 2
    then have "call_ok load n c" using n by (simp add: node_ok_def)
    then show ?thesis using 2(2) by (cases c) (auto simp: snapshot_ok_def)
  qed
qed

text \<open>A step of a call that touches no cache.\<close>

lemma quiet_step:
  assumes n: "node_ok load n" and c: "call_ok load n c" and s: "snap_in c \<subseteq> held_snaps n"
  shows "node_ok load (set_call i c n)"
proof (rule node_okI [OF n])
  show l: "later n (set_call i c n)" by (simp add: later_def set_call_def)
  show "caches_ok load (set_call i c n)" using n
    by (simp add: node_ok_def caches_ok_def set_call_def snapshot_ok_def sett_ok_def)
  show "pn_floor (set_call i c n) < length (pn_history (set_call i c n))" using n by (simp add: node_ok_def set_call_def)
  show "pn_calls n j = Some d \<or> call_ok load (set_call i c n) d" if "pn_calls (set_call i c n) j = Some d" for j d
    using that call_ok_later [OF c l] by (auto simp: set_call_def split: if_splits)
  show "a = b" if "a \<in> held_snaps (set_call i c n)" "b \<in> held_snaps (set_call i c n)" "sn_ref a = sn_ref b" for a b
    using n that held_set_call [of i c n] s unfolding node_ok_def by blast
qed

text \<open>A step of a call that stores something it already holds.\<close>

lemma store_step:
  assumes n: "node_ok load n" and k: "caches_ok load (n\<lparr>pn_service := s\<rparr>)" and e: "ps_epoch s = ps_epoch (pn_service n)"
    and p: "set_option (ps_prices s) \<subseteq> held_snaps n" and c: "call_ok load n c" and sn: "snap_in c \<subseteq> held_snaps n"
  shows "node_ok load (set_call i c (n\<lparr>pn_service := s\<rparr>))"
proof -
  let ?m = "n\<lparr>pn_service := s\<rparr>"
  have l: "later n ?m" using e by (simp add: later_def)
  have h: "held_snaps ?m \<subseteq> held_snaps n" using p by (auto simp: held_snaps_def)
  have m: "node_ok load ?m"
  proof (rule node_okI [OF n l _ k])
    show "a = b" if "a \<in> held_snaps ?m" "b \<in> held_snaps ?m" "sn_ref a = sn_ref b" for a b
      using n that h unfolding node_ok_def by blast
  qed (use n in \<open>simp_all add: node_ok_def\<close>)
  show ?thesis
  proof (rule node_okI [OF n])
    show l2: "later n (set_call i c ?m)" using e by (simp add: later_def set_call_def)
    show "caches_ok load (set_call i c ?m)" using k by (simp add: caches_ok_def set_call_def snapshot_ok_def sett_ok_def)
    show "pn_floor (set_call i c ?m) < length (pn_history (set_call i c ?m))" using n by (simp add: node_ok_def set_call_def)
    show "pn_calls n j = Some d \<or> call_ok load (set_call i c ?m) d" if "pn_calls (set_call i c ?m) j = Some d" for j d
      using that call_ok_later [OF c l2] by (auto simp: set_call_def split: if_splits)
    show "a = b" if "a \<in> held_snaps (set_call i c ?m)" "b \<in> held_snaps (set_call i c ?m)" "sn_ref a = sn_ref b" for a b
      using n that held_set_call [of i c ?m] h sn unfolding node_ok_def by blast
  qed
qed

lemma answer_rule_ok:
  assumes "low \<le> ver" "low \<le> pn_floor n" "ver < length (pn_history n)" "r = load (fst (pn_history n ! ver)) model"
  shows "call_ok load n (answer_rule model low ver r) \<and> snap_in (answer_rule model low ver r) = {}"
  using assms by (auto simp: answer_rule_def unpriced_def resolution_at_def split: option.split)

lemma look_SomeD:
  "look_resolved ttl now model s = Some e \<Longrightarrow> ps_resolved s model = Some e"
  "look_prices ttl now s = Some sn \<Longrightarrow> ps_prices s = Some sn"
  "look_settings ttl now s = Some v \<Longrightarrow> ps_settings s = Some v"
  by (auto simp: look_resolved_def look_prices_def look_settings_def split: option.splits if_splits)

lemma unpriced_answer:
  assumes "unpriced load n model low a" "low \<le> b" "b < length (pn_history n)"
    "v = loadSettings (snd (pn_history n ! b))"
  shows "call_ok load n (Answered model low a b (missing_price v))"
  using assms by (simp add: unpriced_def resolution_at_def)

lemma node_call: "node_ok load n \<Longrightarrow> pn_calls n i = Some c \<Longrightarrow> call_ok load n c"
  by (simp add: node_ok_def)

lemma newest_less: "node_ok load n \<Longrightarrow> newest n < length (pn_history n) \<and> pn_floor n \<le> newest n"
  by (auto simp: node_ok_def newest_def)

lemma pstep_ok:
  assumes n: "node_ok load n" and st: "pstep load ttl n m"
  shows "node_ok load m"
  using st
proof cases
  case (Tick t)
  show ?thesis unfolding Tick
    by (rule node_okI [OF n]) (use n in \<open>auto simp: node_ok_def later_def caches_ok_def snapshot_ok_def sett_ok_def held_snaps_def\<close>)
next
  case (Commit tables)
  have l: "later n m" unfolding Commit by (simp add: later_def)
  have f: "pn_floor n < length (pn_history n)" and k: "caches_ok load n" using n by (simp_all add: node_ok_def)
  show ?thesis
  proof (rule node_okI [OF n l])
    show "caches_ok load m" using k snapshot_ok_later [OF _ l] sett_ok_later [OF _ l] unfolding Commit
      by (auto simp: caches_ok_def nth_append intro: less_SucI)
  qed (use n f in \<open>auto simp: Commit node_ok_def held_snaps_def\<close>)
next
  case Invalidate
  have l: "later n m" using newest_less [OF n] unfolding Invalidate by (simp add: later_def invalidate_def)
  show ?thesis
  proof (rule node_okI [OF n l])
    show "a = b" if "a \<in> held_snaps m" "b \<in> held_snaps m" "sn_ref a = sn_ref b" for a b
      using n that unfolding Invalidate node_ok_def by (auto simp: held_snaps_def invalidate_def)
  qed (use newest_less [OF n] in \<open>auto simp: Invalidate caches_ok_def invalidate_def\<close>)
next
  case (Start i model)
  show ?thesis unfolding Start by (rule quiet_step [OF n]) simp_all
next
  case (Hit i model low e)
  have "call_ok load n (Started model low)" by (rule node_call [OF n Hit(2)])
  then have low: "low \<le> pn_floor n" by simp
  have "rs_ver e < length (pn_history n) \<and> pn_floor n \<le> rs_ver e \<and> rs_rule e = load (fst (pn_history n ! rs_ver e)) model"
    using n look_SomeD(1) [OF Hit(3)] by (simp add: node_ok_def caches_ok_def)
  then have "call_ok load n (answer_rule model low (rs_ver e) (rs_rule e)) \<and>
      snap_in (answer_rule model low (rs_ver e) (rs_rule e)) = {}"
    using low by (intro answer_rule_ok) auto
  then show ?thesis unfolding Hit(1) by (intro quiet_step [OF n]) auto
next
  case (Miss i model low)
  have "call_ok load n (Started model low)" by (rule node_call [OF n Miss(2)])
  then show ?thesis unfolding Miss(1) by (intro quiet_step [OF n]) auto
next
  case (Cached i model low sn)
  have "call_ok load n (Missed model low)" by (rule node_call [OF n Cached(2)])
  moreover have "snapshot_ok load n sn \<and> pn_floor n \<le> sn_ver sn"
    using n look_SomeD(2) [OF Cached(3)] by (simp add: node_ok_def caches_ok_def)
  ultimately show ?thesis unfolding Cached(1)
    using held_prices [OF look_SomeD(2) [OF Cached(3)]] by (intro quiet_step [OF n]) auto
next
  case (Stale i model low)
  have "call_ok load n (Missed model low)" by (rule node_call [OF n Stale(2)])
  then show ?thesis unfolding Stale(1) by (intro quiet_step [OF n]) auto
next
  case (Query i model low epoch)
  have c: "low \<le> pn_floor n" "epoch \<le> ps_epoch (pn_service n)"
    using node_call [OF n Query(2)] by simp_all
  define sn where "sn = \<lparr>sn_ref = pn_refs n, sn_ver = newest n, sn_at = pn_now n, sn_byModel = load (fst (pn_history n ! newest n))\<rparr>"
  define k where "k = n\<lparr>pn_refs := pn_refs n + 1\<rparr>"
  have m: "m = set_call i (Queried model low epoch sn) k" unfolding Query(1) sn_def k_def ..
  have l: "later n m" unfolding m k_def by (simp add: later_def set_call_def)
  have cq: "call_ok load m (Queried model low epoch sn)"
    using c newest_less [OF n] unfolding m k_def by (simp add: snapshot_ok_def sn_def set_call_def)
  have calls: "pn_calls m = (pn_calls n)(i \<mapsto> Queried model low epoch sn)" unfolding m k_def by (simp add: set_call_def)
  have cm: "pn_calls n j = Some d \<or> call_ok load m d" if "pn_calls m j = Some d" for j d
    using that cq unfolding calls by (cases "j = i") (simp_all del: call_ok.simps)
  have km: "caches_ok load m" using n unfolding m k_def
    by (auto simp: node_ok_def caches_ok_def snapshot_ok_def sett_ok_def set_call_def)
  have hm: "held_snaps m \<subseteq> held_snaps n \<union> {sn}"
    using held_set_call [of i "Queried model low epoch sn" k] unfolding m k_def by (simp add: held_snaps_def)
  have new: "sn_ref x \<noteq> sn_ref sn" if "x \<in> held_snaps n" for x
    using held_ref [OF n that] by (simp add: sn_def)
  have same: "a = b" if "a \<in> held_snaps m" "b \<in> held_snaps m" "sn_ref a = sn_ref b" for a b
  proof -
    have old: "x = y" if "x \<in> held_snaps n" "y \<in> held_snaps n" "sn_ref x = sn_ref y" for x y
      using n that unfolding node_ok_def by blast
    have "a \<in> held_snaps n \<or> a = sn" "b \<in> held_snaps n \<or> b = sn" using that(1,2) hm by blast+
    then show ?thesis using old [of a b] new [of a] new [of b] that(3) by metis
  qed
  have f: "pn_floor m < length (pn_history m)" using n unfolding m k_def by (simp add: node_ok_def set_call_def)
  show ?thesis by (rule node_okI [OF n l cm km f same])
next
  case (Keep i model low epoch sn)
  have c: "call_ok load n (Queried model low epoch sn)" by (rule node_call [OF n Keep(2)])
  have h: "sn \<in> held_snaps n" by (rule held_call [OF Keep(2)]) simp
  have p: "set_option (ps_prices (pn_service n)) \<subseteq> held_snaps n" by (auto simp: held_snaps_def)
  show ?thesis unfolding Keep(1)
    by (rule store_step [OF n])
       (use n c h p in \<open>auto simp: keep_prices_def node_ok_def caches_ok_def snapshot_ok_def sett_ok_def split: if_splits\<close>)
next
  case (Match i model low sn)
  have c: "call_ok load n (Matched model low sn)" by (rule node_call [OF n Match(2)])
  have h: "sn \<in> held_snaps n" by (rule held_call [OF Match(2)]) simp
  have p: "set_option (ps_prices (pn_service n)) \<subseteq> held_snaps n" by (auto simp: held_snaps_def)
  have same: "ps_prices (pn_service n) = Some sn"
    if "map_option sn_ref (ps_prices (pn_service n)) = Some (sn_ref sn)"
    using that n h held_prices unfolding node_ok_def by (auto split: option.splits)
  have "call_ok load n (answer_rule model low (sn_ver sn) (sn_byModel sn model)) \<and>
      snap_in (answer_rule model low (sn_ver sn) (sn_byModel sn model)) = {}"
    using c by (intro answer_rule_ok) (auto simp: snapshot_ok_def)
  moreover have "caches_ok load (n\<lparr>pn_service := keep_resolved model sn (pn_service n)\<rparr>)"
    using n c same by (auto simp: keep_resolved_def node_ok_def caches_ok_def snapshot_ok_def sett_ok_def)
  ultimately show ?thesis unfolding Match(1)
    using p by (intro store_step [OF n]) (auto simp: keep_resolved_def)
next
  case (CachedSettings i model low ver v)
  have c: "unpriced load n model low ver" using node_call [OF n CachedSettings(2)] by simp
  have "sett_ok n v \<and> pn_floor n \<le> se_ver v"
    using n look_SomeD(3) [OF CachedSettings(3)] by (simp add: node_ok_def caches_ok_def)
  then have "call_ok load n (Answered model low ver (se_ver v) (missing_price (se_v v)))"
    using c by (intro unpriced_answer) (auto simp: sett_ok_def unpriced_def)
  then show ?thesis unfolding CachedSettings(1) by (rule quiet_step [OF n]) simp
next
  case (StaleSettings i model low ver)
  have "unpriced load n model low ver" using node_call [OF n StaleSettings(2)] by simp
  then show ?thesis unfolding StaleSettings(1) by (intro quiet_step [OF n]) auto
next
  case (QuerySettings i model low ver epoch)
  have c: "call_ok load n (QueryingSettings model low ver epoch)" by (rule node_call [OF n QuerySettings(2)])
  then show ?thesis unfolding QuerySettings(1) using newest_less [OF n]
    by (intro quiet_step [OF n]) (auto simp: sett_ok_def unpriced_def)
next
  case (KeepSettings i model low ver epoch v)
  have c: "call_ok load n (QueriedSettings model low ver epoch v)" by (rule node_call [OF n KeepSettings(2)])
  have p: "set_option (ps_prices (pn_service n)) \<subseteq> held_snaps n" by (auto simp: held_snaps_def)
  have "call_ok load n (Answered model low ver (se_ver v) (missing_price (se_v v)))"
    using c by (intro unpriced_answer) (auto simp: sett_ok_def)
  then show ?thesis unfolding KeepSettings(1)
    by (intro store_step [OF n])
       (use n c p in \<open>auto simp: keep_settings_def node_ok_def caches_ok_def snapshot_ok_def sett_ok_def split: if_splits\<close>)
next
  case (Fail i)
  have l: "later n m" unfolding Fail by (simp add: later_def)
  have h: "held_snaps m \<subseteq> held_snaps n"
    unfolding Fail by (auto simp: held_snaps_def ran_def split: if_splits)
  show ?thesis
  proof (rule node_okI [OF n l])
    show "a = b" if "a \<in> held_snaps m" "b \<in> held_snaps m" "sn_ref a = sn_ref b" for a b
      using n that h unfolding node_ok_def by blast
  qed (use n in \<open>auto simp: Fail node_ok_def caches_ok_def snapshot_ok_def sett_ok_def split: if_splits\<close>)
qed

text \<open>A call that starts later than a state never remembers an older floor than that state's.\<close>

definition floor_of :: "call_state \<Rightarrow> nat" where
  "floor_of c = (case c of Started _ l \<Rightarrow> l | Missed _ l \<Rightarrow> l | Querying _ l _ \<Rightarrow> l | Queried _ l _ _ \<Rightarrow> l |
     Matched _ l _ \<Rightarrow> l | NoRule _ l _ \<Rightarrow> l | QueryingSettings _ l _ _ \<Rightarrow> l | QueriedSettings _ l _ _ _ \<Rightarrow> l |
     Answered _ l _ _ _ \<Rightarrow> l)"

definition from_floor :: "nat \<Rightarrow> nat \<Rightarrow> price_node \<Rightarrow> bool" where
  "from_floor F i n \<longleftrightarrow> F \<le> pn_floor n \<and> (\<forall>c. pn_calls n i = Some c \<longrightarrow> F \<le> floor_of c)"

lemma floor_of_answer [simp]: "floor_of (answer_rule model low ver r) = low"
  by (simp add: answer_rule_def floor_of_def split: option.split)

lemma pstep_from_floor:
  assumes "pstep load ttl n m" "node_ok load n" "from_floor F i n"
  shows "from_floor F i m"
  using assms
proof cases
  case Invalidate
  then show ?thesis using newest_less [OF assms(2)] assms(3) by (auto simp: from_floor_def)
qed (auto simp: from_floor_def set_call_def floor_of_def answer_rule_def split: option.splits)

lemma psteps_ok:
  "(pstep load ttl)\<^sup>*\<^sup>* n m \<Longrightarrow> node_ok load n \<Longrightarrow> from_floor F i n \<Longrightarrow> node_ok load m \<and> from_floor F i m"
  by (induction rule: rtranclp_induct) (auto dest: pstep_ok pstep_from_floor)

text \<open>A node that has just started: empty caches, no calls.\<close>

definition fresh_node :: "price_node \<Rightarrow> bool" where
  "fresh_node n \<longleftrightarrow> pn_floor n < length (pn_history n) \<and> pn_calls n = Map.empty \<and>
     ps_prices (pn_service n) = None \<and> ps_resolved (pn_service n) = Map.empty \<and> ps_settings (pn_service n) = None"

lemma fresh_ok: "fresh_node n \<Longrightarrow> node_ok load n"
  by (simp add: fresh_node_def node_ok_def caches_ok_def held_snaps_def)

text \<open>C23: However requests, changes, expiries and failures interleave on a node, a lookup of a price that
  starts after the node dropped its caches for a change never answers from tables older than that
  change: its rule, or the policy it applies when there is none, is that of a version committed no
  earlier than the invalidation, even when loads that began before it finish afterwards.\<close>

theorem change_is_never_forgotten:
  assumes "fresh_node n0" "(pstep load ttl)\<^sup>*\<^sup>* n0 n" "pn_calls n i = None"
    and "(pstep load ttl)\<^sup>*\<^sup>* n m" "pn_calls m i = Some (Answered model low a b r)"
  shows "pn_floor n \<le> a \<and> a < length (pn_history m) \<and> pn_floor n \<le> b \<and> b < length (pn_history m) \<and>
    r = resolution_at load m model a b"
proof -
  have n: "node_ok load n"
    using psteps_ok [OF assms(2) fresh_ok [OF assms(1)], of 0 i] assms(1) by (auto simp: from_floor_def fresh_node_def)
  have "node_ok load m \<and> from_floor (pn_floor n) i m"
    by (rule psteps_ok [OF assms(4) n]) (simp add: from_floor_def assms(3))
  then have "call_ok load m (Answered model low a b r)" and "pn_floor n \<le> low"
    using assms(5) node_call [of load m i] by (simp_all add: from_floor_def floor_of_def del: call_ok.simps)
  then show ?thesis by simp
qed

text \<open>A price is deleted while an old load is under way; a call that starts afterwards finds none.\<close>

definition demo_load :: "price_row list \<Rightarrow> string \<Rightarrow> resolved_price option" where
  "demo_load = load_prices demo_engine demo_lib id"

definition demo_price_row :: price_row where
  "demo_price_row = \<lparr>mp_id = 1, mp_model = ''m'', mp_mode = ''expression'', mp_expression = ''b'', mp_version = 1,
     mp_hash = [], mp_video = False, mp_enabled = True\<rparr>"

definition demo_pnode :: price_node where
  "demo_pnode = \<lparr>pn_now = 0, pn_history = [([demo_price_row], None)], pn_floor = 0, pn_refs = 0,
     pn_service = \<lparr>ps_epoch = 0, ps_prices = None, ps_resolved = Map.empty, ps_settings = None\<rparr>, pn_calls = Map.empty\<rparr>"

abbreviation demo_pstep :: "price_node \<Rightarrow> price_node \<Rightarrow> bool" where
  "demo_pstep \<equiv> pstep demo_load 60"

lemma demo_step1: "demo_pstep a b \<Longrightarrow> demo_pstep\<^sup>*\<^sup>* a b"
  by (rule r_into_rtranclp)

lemma demo_steps: "demo_pstep a b \<Longrightarrow> demo_pstep\<^sup>*\<^sup>* b c \<Longrightarrow> demo_pstep\<^sup>*\<^sup>* a c"
  by (rule converse_rtranclp_into_rtranclp)

text \<open>Call 0 queries the old table, then the price is deleted and the caches are dropped.\<close>

lemma demo_before:
  "\<exists>n. demo_pstep\<^sup>*\<^sup>* demo_pnode n \<and> pn_floor n = 1 \<and> pn_history n = [([demo_price_row], None), ([], None)] \<and>
     pn_now n = 0 \<and> pn_calls n 1 = None \<and> ps_epoch (pn_service n) = 1 \<and> ps_prices (pn_service n) = None \<and>
     ps_resolved (pn_service n) = Map.empty \<and> ps_settings (pn_service n) = None"
proof -
  define n1 where "n1 = set_call 0 (Started ''m'' 0) demo_pnode"
  define n2 where "n2 = set_call 0 (Missed ''m'' 0) n1"
  define n3 where "n3 = set_call 0 (Querying ''m'' 0 0) n2"
  define n4 where "n4 = set_call 0 (Queried ''m'' 0 0 \<lparr>sn_ref = pn_refs n3, sn_ver = newest n3, sn_at = pn_now n3,
      sn_byModel = demo_load (fst (pn_history n3 ! newest n3))\<rparr>) (n3\<lparr>pn_refs := pn_refs n3 + 1\<rparr>)"
  define n5 where "n5 = n4\<lparr>pn_history := pn_history n4 @ [([], None)]\<rparr>"
  define n6 where "n6 = n5\<lparr>pn_service := invalidate (pn_service n5), pn_floor := newest n5\<rparr>"
  note defs = n6_def n5_def n4_def n3_def n2_def n1_def demo_pnode_def set_call_def
  have s1: "demo_pstep demo_pnode n1"
    using pstep.Start [of demo_pnode 0 demo_load 60 "''m''"] by (simp add: n1_def demo_pnode_def)
  have s2: "demo_pstep n1 n2" unfolding n2_def by (rule pstep.Miss) (simp_all add: defs look_resolved_def)
  have s3: "demo_pstep n2 n3"
    using pstep.Stale [of n2 0 "''m''" 0 60 demo_load] by (simp add: defs look_prices_def)
  have s4: "demo_pstep n3 n4" unfolding n4_def by (rule pstep.Query) (simp add: defs)
  have s5: "demo_pstep n4 n5" unfolding n5_def by (rule pstep.Commit)
  have s6: "demo_pstep n5 n6" unfolding n6_def by (rule pstep.Invalidate)
  have "demo_pstep\<^sup>*\<^sup>* demo_pnode n6"
    by (rule demo_steps [OF s1 demo_steps [OF s2 demo_steps [OF s3 demo_steps [OF
      s4 demo_steps [OF s5 demo_step1 [OF s6]]]]]])
  then show ?thesis
    by (intro exI [of _ n6]) (simp add: defs invalidate_def newest_def)
qed

text \<open>Call 1 starts then and finds neither a price nor a policy other than the default.\<close>

lemma demo_after:
  assumes "pn_floor n = 1" "pn_history n = [([demo_price_row], None), ([], None)]" "pn_now n = 0" "pn_calls n 1 = None"
    "ps_epoch (pn_service n) = 1" "ps_prices (pn_service n) = None" "ps_resolved (pn_service n) = Map.empty"
    "ps_settings (pn_service n) = None"
  shows "\<exists>m. demo_pstep\<^sup>*\<^sup>* n m \<and> (\<exists>a b r. pn_calls m 1 = Some (Answered ''m'' 1 a b r)) \<and> pn_history m = pn_history n"
proof -
  define sn where "sn = \<lparr>sn_ref = pn_refs n, sn_ver = 1, sn_at = 0, sn_byModel = demo_load []\<rparr>"
  define v where "v = \<lparr>se_ver = 1, se_at = 0, se_v = loadSettings None\<rparr>"
  define n1 where "n1 = set_call 1 (Started ''m'' 1) n"
  define n2 where "n2 = set_call 1 (Missed ''m'' 1) n1"
  define n3 where "n3 = set_call 1 (Querying ''m'' 1 1) n2"
  define n4 where "n4 = set_call 1 (Queried ''m'' 1 1 sn) (n3\<lparr>pn_refs := pn_refs n3 + 1\<rparr>)"
  define n5 where "n5 = set_call 1 (Matched ''m'' 1 sn) (n4\<lparr>pn_service := keep_prices 1 sn (pn_service n4)\<rparr>)"
  define n6 where "n6 = set_call 1 (NoRule ''m'' 1 1) (n5\<lparr>pn_service := keep_resolved ''m'' sn (pn_service n5)\<rparr>)"
  define n7 where "n7 = set_call 1 (QueryingSettings ''m'' 1 1 1) n6"
  define n8 where "n8 = set_call 1 (QueriedSettings ''m'' 1 1 1 v) n7"
  define n9 where "n9 = set_call 1 (Answered ''m'' 1 1 (se_ver v) (missing_price (se_v v)))
    (n8\<lparr>pn_service := keep_settings 1 v (pn_service n8)\<rparr>)"
  note defs = n8_def n7_def n6_def n5_def n4_def n3_def n2_def n1_def set_call_def assms keep_prices_def keep_resolved_def
  have none: "demo_load [] = Map.empty" by (simp add: demo_load_def load_prices_def)
  have s1: "demo_pstep n n1" using pstep.Start [of n 1 demo_load 60 "''m''"] assms by (simp add: n1_def)
  have s2: "demo_pstep n1 n2" unfolding n2_def by (rule pstep.Miss) (simp_all add: defs look_resolved_def)
  have s3: "demo_pstep n2 n3" using pstep.Stale [of n2 1 "''m''" 1 60 demo_load] by (simp add: defs look_prices_def)
  have s4: "demo_pstep n3 n4"
    using pstep.Query [of n3 1 "''m''" 1 1 demo_load 60] by (simp add: defs newest_def sn_def)
  have s5: "demo_pstep n4 n5" unfolding n5_def by (rule pstep.Keep) (simp add: defs)
  have s6: "demo_pstep n5 n6"
    using pstep.Match [of n5 1 "''m''" 1 sn demo_load 60] by (simp add: n6_def n5_def set_call_def sn_def none answer_rule_def)
  have s7: "demo_pstep n6 n7"
    using pstep.StaleSettings [of n6 1 "''m''" 1 1 60 demo_load] by (simp add: defs look_settings_def)
  have s8: "demo_pstep n7 n8"
    using pstep.QuerySettings [of n7 1 "''m''" 1 1 1 demo_load 60] by (simp add: defs newest_def v_def)
  have s9: "demo_pstep n8 n9" unfolding n9_def by (rule pstep.KeepSettings) (simp add: defs)
  have "demo_pstep\<^sup>*\<^sup>* n n9"
    by (rule demo_steps [OF s1 demo_steps [OF s2 demo_steps [OF s3 demo_steps [OF
      s4 demo_steps [OF s5 demo_steps [OF s6 demo_steps [OF
      s7 demo_steps [OF s8 demo_step1 [OF s9]]]]]]]]])
  then show ?thesis by (intro exI [of _ n9]) (simp add: n9_def defs)
qed

theorem change_is_never_forgotten_witness:
  "\<exists>m a b r. demo_pstep\<^sup>*\<^sup>* demo_pnode m \<and> pn_calls m 1 = Some (Answered ''m'' 1 a b r) \<and> r = NotConfigured"
proof -
  obtain n where n: "demo_pstep\<^sup>*\<^sup>* demo_pnode n" "pn_floor n = 1"
      "pn_history n = [([demo_price_row], None), ([], None)]" "pn_now n = 0" "pn_calls n 1 = None"
      "ps_epoch (pn_service n) = 1" "ps_prices (pn_service n) = None" "ps_resolved (pn_service n) = Map.empty"
      "ps_settings (pn_service n) = None"
    using demo_before by blast
  obtain m a b r where m: "demo_pstep\<^sup>*\<^sup>* n m" "pn_calls m 1 = Some (Answered ''m'' 1 a b r)" "pn_history m = pn_history n"
    using demo_after [OF n(2-)] by blast
  have "fresh_node demo_pnode" by (simp add: fresh_node_def demo_pnode_def)
  from change_is_never_forgotten [OF this n(1,5) m(1,2)]
  have "a = 1 \<and> b = 1 \<and> r = resolution_at demo_load m ''m'' a b" using n(2,3) m(3) by auto
  then have "r = NotConfigured"
    using n(3) m(3) by (simp add: resolution_at_def demo_load_def load_prices_def missing_price_def loadSettings_def DefaultSettings_def)
  then show ?thesis using m(2) rtranclp_trans [OF n(1) m(1)] by blast
qed

end
