(* ===== verification/Upgrade.thy ===== *)
theory Upgrade
  imports Prelude
begin

section \<open>The rolling-update controller (\<open>next/gateway/internal/control\<close>)\<close>

text \<open>
  The shell of every node runs this controller over the tables \<open>updater.*\<close>. An upgrade is a plan, a
  persisted list of steps (\<open>Steps\<close>) and a cursor. The primary's coordinator issues the step at the
  cursor and moves the cursor once the step is done (\<open>Coordinate\<close>); the worker of the step's node
  claims it, runs it and records its outcome (\<open>Work\<close>); operators pause, resume, cancel and roll back.

  \<open>upd\<close> holds the tables. Every transaction is one function: \<open>Inl\<close> is a rollback with its error,
  \<open>Inr\<close> the committed state. The runtime that starts and stops processes, the checks of plugins and of
  unmanaged cores, and the semantic-version parser are parameters. \<open>now\<close> is in milliseconds.
\<close>

definition PrimaryFirst :: string where "PrimaryFirst = ''primary-first-v1''"
definition PeerProtocol :: int where "PeerProtocol = 1"

datatype action = Prepare | Redirect | Stop | Maintenance | StartPrimary | Start | Admit | Local
datatype plan_status = Running | Paused | Completed | Cancelled | Superseded
datatype step_status = StepPending | StepRunning | StepDone | StepFailed

record unode =
  nd_id :: string
  nd_boot :: string
  nd_enabled :: bool
  nd_stopped :: bool
  nd_ready :: bool
  nd_mode :: string
  nd_release :: string
  nd_protocol :: int
  nd_strategy :: string
  nd_seen :: "int option"
  nd_platform :: string
  nd_core_boot :: string

record plan =
  pl_id :: string
  pl_release :: string
  pl_source :: string
  pl_nodes :: "string list"
  pl_status :: plan_status
  pl_cursor :: nat
  pl_strategy :: string
  pl_error :: string
  pl_key :: string
  pl_hash :: string

record step =
  sp_plan :: string
  sp_id :: nat
  sp_node :: string
  sp_action :: action
  sp_target :: string
  sp_peer :: string
  sp_status :: step_status
  sp_error :: string

record confirmation =
  cf_node :: string
  cf_boot :: string
  cf_plan :: string
  cf_step :: "nat option"

record admission =
  ad_node :: string
  ad_core_boot :: string
  ad_release :: string
  ad_revision :: int
  ad_serve :: bool

record upd =
  up_primary :: string
  up_baseline :: string
  up_revision :: int
  up_nodes :: "unode list"
  up_plans :: "plan list"
  up_steps :: "step list"
  up_confirmed :: "confirmation list"
  up_admissions :: "admission list"
  up_events :: "(string \<times> string) list"

subsection \<open>The steps of a plan (\<open>types.go\<close>)\<close>

definition mk_step :: "plan \<Rightarrow> nat \<Rightarrow> string \<times> action \<times> string \<Rightarrow> step" where
  "mk_step p i x = (case x of (n, a, peer) \<Rightarrow>
     \<lparr>sp_plan = pl_id p, sp_id = i, sp_node = n, sp_action = a, sp_target = pl_release p, sp_peer = peer,
      sp_status = StepPending, sp_error = []\<rparr>)"

definition script :: "string list \<Rightarrow> (string \<times> action \<times> string) list" where
  "script ns =
     (case ns of [] \<Rightarrow> []
      | primary # followers \<Rightarrow>
          map (\<lambda>n. (n, Prepare, [])) ns @
          concat (map (\<lambda>n. [(n, Redirect, primary), (n, Stop, [])]) followers) @
          [(primary, Maintenance, []), (primary, Stop, []), (primary, StartPrimary, []), (primary, Admit, []),
           (primary, Local, [])] @
          concat (map (\<lambda>n. [(n, Redirect, primary), (n, Start, []), (n, Admit, []), (n, Local, [])]) followers))"

definition Steps :: "plan \<Rightarrow> step list" where
  "Steps p =
     (if pl_strategy p \<noteq> PrimaryFirst then []
      else map (\<lambda>(i, x). mk_step p i x) (enumerate 0 (script (pl_nodes p))))"

subsection \<open>Rows\<close>

definition update_plan :: "string \<Rightarrow> (plan \<Rightarrow> plan) \<Rightarrow> upd \<Rightarrow> upd" where
  "update_plan i f u = u\<lparr>up_plans := map (\<lambda>p. if pl_id p = i then f p else p) (up_plans u)\<rparr>"

definition update_steps :: "(step \<Rightarrow> bool) \<Rightarrow> (step \<Rightarrow> step) \<Rightarrow> upd \<Rightarrow> upd" where
  "update_steps P f u = u\<lparr>up_steps := map (\<lambda>s. if P s then f s else s) (up_steps u)\<rparr>"

definition add_event :: "string \<Rightarrow> string \<Rightarrow> upd \<Rightarrow> upd" where
  "add_event i kind u = u\<lparr>up_events := (i, kind) # up_events u\<rparr>"

definition find_plan :: "upd \<Rightarrow> string \<Rightarrow> plan option" where
  "find_plan u i = List.find (\<lambda>p. pl_id p = i) (up_plans u)"

definition find_step :: "upd \<Rightarrow> string \<Rightarrow> nat \<Rightarrow> step option" where
  "find_step u i k = List.find (\<lambda>s. sp_plan s = i \<and> sp_id s = k) (up_steps u)"

definition find_node :: "upd \<Rightarrow> string \<Rightarrow> unode option" where
  "find_node u n = List.find (\<lambda>x. nd_id x = n) (up_nodes u)"

definition is_active :: "plan \<Rightarrow> bool" where
  "is_active p \<longleftrightarrow> pl_status p = Running \<or> pl_status p = Paused"

definition active_plan :: "upd \<Rightarrow> plan option" where
  "active_plan u = List.find is_active (up_plans u)"

definition set_status :: "plan_status \<Rightarrow> string \<Rightarrow> plan \<Rightarrow> plan" where
  "set_status st msg p = p\<lparr>pl_status := st, pl_error := msg\<rparr>"

subsection \<open>Observations of the nodes\<close>

definition fresh_seen :: "int \<Rightarrow> unode \<Rightarrow> bool" where
  "fresh_seen now n = (case nd_seen n of None \<Rightarrow> False | Some t \<Rightarrow> now - t < 20000)"

definition requireFreshNodes :: "int \<Rightarrow> string list \<Rightarrow> upd \<Rightarrow> string + unit" where
  "requireFreshNodes now ids u =
     (case List.find (\<lambda>i. \<not> (\<exists>n \<in> set (up_nodes u). nd_id n = i \<and> fresh_seen now n)) ids of
        Some i \<Rightarrow> Inl (''waiting for fresh node observation: '' @ i)
      | None \<Rightarrow> Inr ())"

text \<open>A follower that has no valid stop confirmation for the active plan \<open>p\<close>.\<close>

definition unsafe :: "upd \<Rightarrow> plan \<Rightarrow> unode \<Rightarrow> bool" where
  "unsafe u p n =
     (let c = List.find (\<lambda>c. cf_node c = nd_id n \<and> cf_plan c = pl_id p \<and> cf_boot c = nd_boot n) (up_confirmed u) in
      \<not> nd_stopped n \<or> c = None \<or> nd_protocol n \<noteq> PeerProtocol \<or> nd_strategy n \<noteq> PrimaryFirst \<or>
      (nd_id n \<in> set (pl_nodes p) \<and> \<not> (\<exists>s \<in> set (up_steps u). sp_plan s = pl_id p \<and> sp_node s = nd_id n \<and>
         Some (sp_id s) = Option.bind c cf_step \<and> sp_action s = Stop \<and> sp_status s = StepDone)) \<or>
      (nd_id n \<notin> set (pl_nodes p) \<and> Option.bind c cf_step \<noteq> None))"

definition followersStopped :: "int \<Rightarrow> string list \<Rightarrow> upd \<Rightarrow> string + unit" where
  "followersStopped now unmanaged u =
     (let followers = filter (\<lambda>n. nd_id n \<noteq> up_primary u) (up_nodes u) in
      if \<exists>n \<in> set followers. \<not> fresh_seen now n then Inl ''waiting for fresh follower observations''
      else if \<exists>n \<in> set followers. \<exists>p \<in> set (up_plans u). is_active p \<and> unsafe u p n
        then Inl ''waiting for current-boot plan-bound follower stop confirmations''
      else if unmanaged \<noteq> [] then Inl ''unmanaged live cores block migration''
      else Inr ())"

subsection \<open>The coordinator\<close>

definition safetyStopped :: "upd \<Rightarrow> plan \<Rightarrow> step \<Rightarrow> bool" where
  "safetyStopped u p st \<longleftrightarrow>
     (\<exists>n \<in> set (up_nodes u). \<exists>c \<in> set (up_confirmed u). cf_node c = nd_id n \<and> cf_boot c = nd_boot n \<and>
        nd_id n = sp_node st \<and> \<not> nd_enabled n \<and> nd_stopped n \<and> cf_plan c = pl_id p \<and> cf_step c = Some (sp_id st))"

definition advance :: "plan \<Rightarrow> upd \<Rightarrow> upd" where
  "advance p = update_plan (pl_id p) (\<lambda>q. q\<lparr>pl_cursor := pl_cursor q + 1\<rparr>)"

definition complete :: "int \<Rightarrow> plan \<Rightarrow> upd \<Rightarrow> string + upd" where
  "complete now p u =
     and_then (requireFreshNodes now (pl_nodes p) u) (\<lambda>_.
       let verified = length (filter (\<lambda>n. nd_id n \<in> set (pl_nodes p) \<and> nd_ready n \<and> nd_mode n = ''local'' \<and>
             nd_release n = pl_release p) (up_nodes u))
       in if verified \<noteq> length (pl_nodes p) then Inl ''waiting for all planned nodes to verify the target release''
          else Inr (add_event (pl_id p) ''completed''
            (update_plan (pl_id p) (\<lambda>q. q\<lparr>pl_status := Completed\<rparr>)
              (u\<lparr>up_baseline := pl_release p, up_revision := up_revision u + 1\<rparr>))))"

definition issued_step :: "int \<Rightarrow> plan \<Rightarrow> step \<Rightarrow> step \<Rightarrow> upd \<Rightarrow> upd" where
  "issued_step now p st s u =
     (if sp_status s = StepDone then advance p u
      else if sp_action st = Stop \<and> safetyStopped u p st \<and> requireFreshNodes now [sp_node st] u = Inr ()
      then advance p (update_steps (\<lambda>x. sp_plan x = pl_id p \<and> sp_id x = sp_id st)
             (\<lambda>x. x\<lparr>sp_status := StepDone, sp_error := []\<rparr>) u)
      else u)"

definition issue_step :: "plan \<Rightarrow> step \<Rightarrow> upd \<Rightarrow> string + upd" where
  "issue_step p st u =
     (let insert_it = Inr (add_event (pl_id p) ''step'' (u\<lparr>up_steps := st # up_steps u\<rparr>)) in
      if sp_action st = Stop then insert_it
      else (case find_node u (sp_node st) of
          None \<Rightarrow> Inl ''no rows''
        | Some n \<Rightarrow>
            if \<not> nd_enabled n
            then Inr (update_plan (pl_id p) (set_status Paused (''planned node is disabled: '' @ sp_node st)) u)
            else insert_it))"

text \<open>One event of the rollout. The code holds the plan in a transaction meanwhile, but reads the followers
  (\<open>followersStopped\<close>) outside it.\<close>

definition Coordinate :: "string \<Rightarrow> int \<Rightarrow> string list \<Rightarrow> upd \<Rightarrow> string + upd" where
  "Coordinate self now unmanaged u =
     (if up_primary u \<noteq> self then Inr u
      else case List.find (\<lambda>p. pl_status p = Running) (up_plans u) of
        None \<Rightarrow> Inr u
      | Some p \<Rightarrow>
          if pl_strategy p \<noteq> PrimaryFirst
          then Inr (update_plan (pl_id p) (set_status Paused ''legacy upgrade strategy requires manual reconciliation'') u)
          else if pl_nodes p = [] \<or> hd (pl_nodes p) \<noteq> up_primary u then Inl ''invalid stored upgrade membership''
          else if length (Steps p) \<le> pl_cursor p then complete now p u
          else
            let st = Steps p ! pl_cursor p in
            and_then (if sp_action st = Maintenance \<or> sp_action st = StartPrimary
                then followersStopped now unmanaged u else Inr ()) (\<lambda>_.
              case find_step u (pl_id p) (pl_cursor p) of
                Some s \<Rightarrow> Inr (issued_step now p st s u)
              | None \<Rightarrow> issue_step p st u))"

subsection \<open>The worker\<close>

definition at_cursor :: "upd \<Rightarrow> (plan_status \<Rightarrow> bool) \<Rightarrow> step \<Rightarrow> bool" where
  "at_cursor u ok s \<longleftrightarrow> (\<exists>p \<in> set (up_plans u). pl_id p = sp_plan s \<and> ok (pl_status p) \<and> pl_cursor p = sp_id s)"

definition may_run :: "upd \<Rightarrow> step \<Rightarrow> bool" where
  "may_run u s \<longleftrightarrow> (\<exists>p \<in> set (up_plans u). pl_id p = sp_plan s \<and> pl_status p = Running \<and> pl_strategy p = PrimaryFirst \<and>
     pl_cursor p = sp_id s)"

definition claim_step :: "string \<Rightarrow> upd \<Rightarrow> step option \<times> upd" where
  "claim_step self u =
     (case List.find (\<lambda>s. may_run u s \<and> sp_node s = self \<and> sp_status s \<in> {StepPending, StepRunning}) (up_steps u) of
        None \<Rightarrow> (None, u)
      | Some s \<Rightarrow> (Some s, update_steps (\<lambda>x. sp_plan x = sp_plan s \<and> sp_id x = sp_id s) (\<lambda>x. x\<lparr>sp_status := StepRunning\<rparr>) u))"

definition finish_step :: "step \<Rightarrow> string option \<Rightarrow> upd \<Rightarrow> upd" where
  "finish_step s err u =
     (let msg = (case err of None \<Rightarrow> [] | Some e \<Rightarrow> take 1024 e) in
      if find_plan u (sp_plan s) = None then u
      else if \<not> (at_cursor u (\<lambda>st. st = Running \<or> st = Paused) s \<and> find_step u (sp_plan s) (sp_id s) \<noteq> None)
      then add_event (sp_plan s) ''late_result'' u
      else
        let u = update_steps (\<lambda>x. sp_plan x = sp_plan s \<and> sp_id x = sp_id s)
              (\<lambda>x. x\<lparr>sp_status := (if err = None then StepDone else StepFailed), sp_error := msg\<rparr>) u;
            u = (if err = None then u
                 else update_plan (sp_plan s) (\<lambda>p. if is_active p then set_status Paused msg p else p) u)
        in add_event (sp_plan s) (if err = None then ''done'' else ''failed'') u)"

subsection \<open>Operator actions\<close>

datatype operator_action = Pause | Resume | Cancel

definition Action :: "string \<Rightarrow> operator_action \<Rightarrow> upd \<Rightarrow> string + upd" where
  "Action i a u =
     (case find_plan u i of
        None \<Rightarrow> Inl ''no rows''
      | Some p \<Rightarrow>
          (case a of
             Pause \<Rightarrow>
               if \<not> is_active p then Inl ''conflict''
               else Inr (add_event i ''pause'' (update_plan i (set_status Paused []) u))
           | Resume \<Rightarrow>
               if pl_strategy p \<noteq> PrimaryFirst then Inl ''legacy upgrade strategy cannot resume with this controller''
               else if pl_status p \<noteq> Paused then Inl ''conflict''
               else Inr (add_event i ''resume'' (update_plan i (set_status Running [])
                 (update_steps (\<lambda>s. sp_plan s = i \<and> sp_status s = StepFailed)
                   (\<lambda>s. s\<lparr>sp_status := StepPending, sp_error := []\<rparr>) u)))
           | Cancel \<Rightarrow>
               if \<exists>s \<in> set (up_steps u). sp_plan s = i \<and> sp_action s \<noteq> Prepare
               then Inl ''cannot cancel after routing or process changes; pause and resume the same plan''
               else if \<not> is_active p then Inl ''conflict''
               else Inr (add_event i ''cancel'' (update_plan i (set_status Cancelled []) u))))"

end
