(* ===== verification/UpgradeStore.thy ===== *)
theory UpgradeStore
  imports Upgrade "HOL-Library.List_Lexorder" "HOL-Library.Char_ord"
begin

section \<open>Plans, nodes and admissions (\<open>control/store.go\<close>, \<open>control/engine.go\<close>)\<close>

text \<open>
  The operations that create and replace plans, register, disable and remove nodes, confirm stopped
  processes, admit a started core, and the decision a restarted shell takes (\<open>Recover\<close>).
\<close>

subsection \<open>Creating a plan (\<open>store.go\<close>)\<close>

type_synonym protocol_range = "int \<times> int"

definition contains :: "protocol_range \<Rightarrow> int \<Rightarrow> bool" where
  "contains r v \<longleftrightarrow> 0 < fst r \<and> fst r \<le> v \<and> v \<le> snd r"

record manifest =
  mf_core_version :: string
  mf_strategy :: string
  mf_schema_before :: string
  mf_schema_after :: string
  mf_shell :: protocol_range
  mf_control :: protocol_range
  mf_cluster :: protocol_range
  mf_task :: protocol_range
  mf_host_api :: int
  mf_build :: string
  mf_platforms :: "string list"

definition blocker :: "bool \<Rightarrow> string \<Rightarrow> string list" where
  "blocker b msg = (if b then [msg] else [])"

definition Compatibility :: "(string \<Rightarrow> bool) \<Rightarrow> manifest \<Rightarrow> manifest \<Rightarrow> string list" where
  "Compatibility semver a b =
     blocker (\<not> semver (mf_core_version b)) ''target core_version must be explicit semantic version'' @
     blocker (mf_strategy b \<noteq> ''maintenance'' \<and> mf_strategy b \<noteq> ''rolling'') ''unsupported signed release strategy'' @
     blocker (mf_schema_after a = [] \<or> mf_schema_before b \<noteq> mf_schema_after a \<or> mf_schema_after b = [])
       ''target migration must start at the approved baseline schema'' @
     blocker (mf_strategy b = ''rolling'' \<and> mf_schema_before b \<noteq> mf_schema_after b)
       ''schema-changing releases must declare maintenance strategy'' @
     blocker (\<not> contains (mf_shell b) 2 \<or> \<not> contains (mf_control b) 2) ''release requires a different shell/control protocol'' @
     blocker (mf_cluster b \<noteq> (1, 1) \<or> mf_task b \<noteq> (1, 1) \<or> mf_host_api b \<noteq> 4)
       ''target business protocols or Host API are not implemented by this shell release'' @
     blocker (mf_build a = mf_build b) ''target build is already installed''"

definition rollbackCompatibility :: "manifest \<Rightarrow> manifest \<Rightarrow> string list" where
  "rollbackCompatibility a b =
     blocker (mf_schema_before a \<noteq> mf_schema_after b \<or> mf_schema_after a \<noteq> mf_schema_after b \<or> mf_cluster a \<noteq> mf_cluster b \<or>
         mf_task a \<noteq> mf_task b \<or> mf_host_api a \<noteq> mf_host_api b)
       ''automatic baseline recovery is forbidden across schema or business protocol changes''"

text \<open>The order of \<open>sort.SliceStable\<close>: the primary first, the others by their bytes.\<close>

definition primary_first :: "string \<Rightarrow> string list \<Rightarrow> string list" where
  "primary_first primary ns = filter (\<lambda>n. n = primary) ns @ sort (filter (\<lambda>n. n \<noteq> primary) ns)"

definition node_blockers :: "int \<Rightarrow> string \<Rightarrow> manifest \<Rightarrow> unode \<Rightarrow> string list" where
  "node_blockers now base target n =
     (if \<not> nd_enabled n then []
      else blocker (nd_protocol n \<noteq> PeerProtocol \<or> nd_strategy n \<noteq> PrimaryFirst)
          (''node lacks enabled current shell/peer capabilities: '' @ nd_id n) @
        blocker (\<not> nd_ready n \<or> nd_mode n \<noteq> ''local'' \<or> (case nd_seen n of None \<Rightarrow> True | Some t \<Rightarrow> 20000 < now - t))
          (''node not locally ready: '' @ nd_id n) @
        blocker (nd_release n \<noteq> base) (''node not on approved baseline: '' @ nd_id n) @
        blocker (nd_platform n \<notin> set (mf_platforms target)) (''unsupported node platform: '' @ nd_id n))"

record preflight =
  pf_nodes :: "string list"
  pf_blockers :: "string list"
  pf_revision :: int

definition Preflight :: "int \<Rightarrow> (string \<Rightarrow> bool) \<Rightarrow> (string \<Rightarrow> manifest option) \<Rightarrow> string list \<Rightarrow> string \<Rightarrow> upd \<Rightarrow> string + preflight" where
  "Preflight now semver release external digest u =
     (case (release digest, release (up_baseline u)) of
        (Some target, Some current) \<Rightarrow>
          let ns = primary_first (up_primary u) (map nd_id (up_nodes u)) in
          Inr \<lparr>pf_nodes = ns, pf_blockers =
            Compatibility semver current target @ external @
            blocker (up_nodes u = []) ''upgrade requires at least one registered node'' @
            concat (map (node_blockers now (up_baseline u) target) (up_nodes u)) @
            blocker (ns = [] \<or> hd ns \<noteq> up_primary u) ''primary is not registered'' @
            blocker (active_plan u \<noteq> None) ''another upgrade is active'',
            pf_revision = up_revision u\<rparr>
      | _ \<Rightarrow> Inl ''no rows'')"

definition new_plan :: "string \<Rightarrow> string \<Rightarrow> string list \<Rightarrow> string \<Rightarrow> string \<Rightarrow> upd \<Rightarrow> plan" where
  "new_plan i digest ns key hash u = \<lparr>pl_id = i, pl_release = digest, pl_source = up_baseline u, pl_nodes = ns,
     pl_status = Running, pl_cursor = 0, pl_strategy = PrimaryFirst, pl_error = [], pl_key = key, pl_hash = hash\<rparr>"

text \<open>The insert into \<open>upgrades\<close>, with its unique key and its unique active plan.\<close>

definition insert_plan :: "plan \<Rightarrow> upd \<Rightarrow> string + upd" where
  "insert_plan p u =
     (if active_plan u \<noteq> None \<or> (\<exists>q \<in> set (up_plans u). pl_id q = pl_id p \<or> pl_key q = pl_key p) then Inl ''unique violation''
      else Inr (u\<lparr>up_plans := p # up_plans u\<rparr>))"

text \<open>\<open>hash\<close> is the request hash; \<open>i\<close> the random id. The result is the plan's id.\<close>

definition createLocked :: "int \<Rightarrow> (string \<Rightarrow> bool) \<Rightarrow> (string \<Rightarrow> manifest option) \<Rightarrow> string list \<Rightarrow> (string \<Rightarrow> int \<Rightarrow> string) \<Rightarrow>
    string \<Rightarrow> string \<Rightarrow> int \<Rightarrow> string \<Rightarrow> upd \<Rightarrow> string + string \<times> upd" where
  "createLocked now semver release external hash i digest revision key u =
     (if key = [] \<or> 128 < length key then Inl ''idempotency_key is required and must be at most 128 bytes''
      else case List.find (\<lambda>p. pl_key p = key) (up_plans u) of
        Some p \<Rightarrow> if pl_hash p \<noteq> hash digest revision then Inl ''conflict'' else Inr (pl_id p, u)
      | None \<Rightarrow>
          and_then (Preflight now semver release external digest u) (\<lambda>pf.
            if pf_blockers pf \<noteq> [] then Inl (concat (pf_blockers pf))
            else if pf_revision pf \<noteq> revision then Inl ''conflict''
            else and_then (insert_plan (new_plan i digest (pf_nodes pf) key (hash digest revision) u)
                (u\<lparr>up_revision := revision + 1\<rparr>)) (\<lambda>u. Inr (i, add_event i ''created'' u))))"

definition rollbackLocked :: "(string \<Rightarrow> manifest option) \<Rightarrow> string list \<Rightarrow> string list \<Rightarrow> string \<Rightarrow> string \<Rightarrow>
    upd \<Rightarrow> string + string \<times> upd" where
  "rollbackLocked release external plugins nextID i u =
     (case find_plan u i of
        None \<Rightarrow> Inl ''no rows''
      | Some p \<Rightarrow>
          if pl_status p = Superseded
          then (case List.find (\<lambda>q. pl_key q = ''rollback:'' @ i) (up_plans u) of
                  None \<Rightarrow> Inl ''no rows'' | Some q \<Rightarrow> Inr (pl_id q, u))
          else if pl_status p \<noteq> Paused then Inl ''pause the active plan before requesting baseline recovery''
          else if external \<noteq> [] then Inl (concat external)
          else if pl_release p = up_baseline u then Inl ''this plan already targets the completed baseline''
          else (case (release (pl_release p), release (up_baseline u)) of
              (Some a, Some b) \<Rightarrow>
                if rollbackCompatibility a b \<noteq> [] then Inl ''baseline recovery is incompatible''
                else if plugins \<noteq> [] then Inl ''baseline no longer supports active plugins''
                else if pl_nodes p = [] then Inl ''baseline recovery has no members''
                else
                  let members = primary_first (up_primary u) (pl_nodes p) in
                  if hd members \<noteq> up_primary u then Inl ''configured primary is not a plan member''
                  else
                    and_then (insert_plan (new_plan nextID (up_baseline u) members (''rollback:'' @ i)
                        (up_baseline u @ '':'' @ itoa (up_revision u)) u)
                      (update_plan i (set_status Superseded []) u)) (\<lambda>u.
                    Inr (nextID, add_event nextID ''recovery'' (add_event i ''superseded''
                      (u\<lparr>up_revision := up_revision u + 1\<rparr>))))
            | _ \<Rightarrow> Inl ''no rows''))"

text \<open>\<open>rollbackWithBarrier\<close> once it holds the coordinator's lock and the step lock of every member.\<close>

definition rollbackWithBarrier :: "(string \<Rightarrow> manifest option) \<Rightarrow> string list \<Rightarrow> string list \<Rightarrow> string \<Rightarrow> string \<Rightarrow>
    upd \<Rightarrow> string + string \<times> upd" where
  "rollbackWithBarrier release external plugins nextID i u =
     (case find_plan u i of
        None \<Rightarrow> Inl ''no rows''
      | Some p \<Rightarrow>
          if pl_strategy p \<noteq> PrimaryFirst then Inl ''legacy upgrade strategy cannot be recovered automatically''
          else if pl_status p \<noteq> Superseded \<and> pl_status p \<noteq> Paused
          then Inl ''pause the active plan before requesting baseline recovery''
          else rollbackLocked release external plugins nextID i u)"

subsection \<open>Stop confirmations and nodes\<close>

definition RecordStop :: "unode \<Rightarrow> upd \<Rightarrow> string + upd" where
  "RecordStop n u =
     (case active_plan u of
        None \<Rightarrow> Inr u
      | Some p \<Rightarrow>
          let stops = filter (\<lambda>s. sp_plan s = pl_id p \<and> sp_node s = nd_id n \<and> sp_action s = Stop) (up_steps u);
              member = (nd_id n \<in> set (pl_nodes p)) in
          if member \<and> stops = [] then Inr u
          else
            let step = (if member then Some (Max (sp_id ` set stops)) else None) in
            if \<exists>x \<in> set (up_nodes u). nd_id x = nd_id n \<and> nd_boot x = nd_boot n \<and> nd_stopped x
            then Inr (u\<lparr>up_confirmed := \<lparr>cf_node = nd_id n, cf_boot = nd_boot n, cf_plan = pl_id p, cf_step = step\<rparr> #
                   filter (\<lambda>c. \<not> (cf_node c = nd_id n \<and> cf_plan c = pl_id p)) (up_confirmed u)\<rparr>)
            else Inl ''stop confirmation identity changed'')"

definition update_node :: "string \<Rightarrow> (unode \<Rightarrow> unode) \<Rightarrow> upd \<Rightarrow> upd" where
  "update_node i f u = u\<lparr>up_nodes := map (\<lambda>n. if nd_id n = i then f n else n) (up_nodes u)\<rparr>"

definition close_admission :: "string \<Rightarrow> upd \<Rightarrow> upd" where
  "close_admission i u = u\<lparr>up_admissions := map (\<lambda>a. if ad_node a = i
     then a\<lparr>ad_serve := False, ad_revision := ad_revision a + 1\<rparr> else a) (up_admissions u)\<rparr>"

definition DisableNode :: "string \<Rightarrow> upd \<Rightarrow> string + upd" where
  "DisableNode i u =
     (if find_node u i = None then Inl ''no rows''
      else Inr (close_admission i (update_node i (\<lambda>n. n\<lparr>nd_enabled := False, nd_ready := False\<rparr>) u)))"

definition EnableNode :: "string \<Rightarrow> upd \<Rightarrow> string + upd" where
  "EnableNode i u =
     (if find_node u i = None then Inl ''no rows''
      else Inr (update_node i (\<lambda>n. n\<lparr>nd_enabled := True, nd_ready := False, nd_stopped := False,
             nd_mode := ''maintenance''\<rparr>) u))"

text \<open>The upsert of \<open>RegisterLocked\<close>: a new boot of a known node loses its ready, stopped and mode marks.\<close>

definition RegisterLocked :: "int \<Rightarrow> unode \<Rightarrow> upd \<Rightarrow> string + upd" where
  "RegisterLocked now n u =
     (if nd_id n = [] \<or> nd_boot n = [] \<or> nd_protocol n \<noteq> PeerProtocol \<or> nd_strategy n \<noteq> PrimaryFirst
      then Inl ''node identity or shell capabilities are unsupported''
      else case find_node u (nd_id n) of
        None \<Rightarrow> Inr (u\<lparr>up_nodes := up_nodes u @ [n\<lparr>nd_enabled := True, nd_stopped := False, nd_ready := False,
            nd_mode := ''maintenance'', nd_release := [], nd_core_boot := [], nd_seen := Some now\<rparr>]\<rparr>)
      | Some old \<Rightarrow>
          if \<not> nd_enabled old then Inl ''node is disabled or belongs to another cluster''
          else Inr (update_node (nd_id n) (\<lambda>x. x\<lparr>nd_boot := nd_boot n,
              nd_ready := (nd_boot x = nd_boot n \<and> nd_ready x),
              nd_stopped := (nd_boot x = nd_boot n \<and> nd_stopped x),
              nd_mode := (if nd_boot x = nd_boot n then nd_mode x else ''maintenance''),
              nd_seen := Some now, nd_platform := nd_platform n, nd_protocol := nd_protocol n,
              nd_strategy := nd_strategy n\<rparr>) u))"

text \<open>
  A heartbeat of an enabled node of the registered boot. The telemetry behind \<open>LastSeen\<close> is refreshed
  with it.
\<close>

definition NodeHeartbeat :: "int \<Rightarrow> unode \<Rightarrow> upd \<Rightarrow> string + upd" where
  "NodeHeartbeat now n u =
     (if \<exists>x \<in> set (up_nodes u). nd_id x = nd_id n \<and> nd_boot x = nd_boot n \<and> nd_enabled x
      then Inr (update_node (nd_id n) (\<lambda>x. x\<lparr>nd_release := nd_release n, nd_core_boot := nd_core_boot n,
             nd_mode := nd_mode n, nd_ready := nd_ready n, nd_stopped := nd_stopped n, nd_seen := Some now\<rparr>) u)
      else Inl ''conflict'')"

text \<open>The report of a shell whose identity was revoked, after its core has stopped (\<open>checkPeer\<close>).\<close>

definition report_revoked :: "int \<Rightarrow> unode \<Rightarrow> upd \<Rightarrow> upd" where
  "report_revoked now n u = u\<lparr>up_nodes := map (\<lambda>x. if nd_id x = nd_id n \<and> nd_boot x = nd_boot n
     then x\<lparr>nd_ready := False, nd_stopped := True, nd_mode := ''maintenance'', nd_seen := Some now\<rparr> else x) (up_nodes u)\<rparr>"

definition ValidateNode :: "string \<Rightarrow> string \<Rightarrow> upd \<Rightarrow> string + unit" where
  "ValidateNode n boot u =
     ensure (\<exists>x \<in> set (up_nodes u). nd_id x = n \<and> nd_boot x = boot \<and> nd_enabled x \<and> nd_protocol x = PeerProtocol \<and>
         nd_strategy x = PrimaryFirst) ''node boot is disabled or not registered''"

definition ClusterState :: "upd \<Rightarrow> string \<times> string \<times> int" where
  "ClusterState u = (up_primary u, up_baseline u, up_revision u)"

text \<open>
  \<open>SetPrimary\<close>, with the tables of node artifacts and packages as the predicates \<open>artifacts\<close> and
  \<open>packages\<close>. Its variable \<open>baseline\<close> receives the first result of \<open>ClusterState\<close>.
\<close>

definition SetPrimary :: "(string \<Rightarrow> string \<Rightarrow> bool) \<Rightarrow> (string \<Rightarrow> bool) \<Rightarrow> string \<Rightarrow> upd \<Rightarrow> string + upd" where
  "SetPrimary artifacts packages n u =
     (if active_plan u \<noteq> None then Inl ''cannot change primary while an upgrade is active''
      else let baseline = fst (ClusterState u) in
        (case find_node u n of
           None \<Rightarrow> Inl ''node is not registered''
         | Some x \<Rightarrow>
             if \<not> nd_enabled x then Inl ''node is disabled''
             else if nd_release x \<noteq> baseline then Inl ''node is not on baseline''
             else if \<not> artifacts n baseline then Inl ''node lacks baseline artifacts''
             else if \<not> packages n then Inl ''node lacks plugin package''
             else Inr (u\<lparr>up_primary := n\<rparr>)))"

text \<open>\<open>tables\<close>: whether \<open>updater.node_artifacts\<close> and \<open>updater.node_plugin_packages\<close> exist.\<close>

definition RemoveNode :: "bool \<Rightarrow> int \<Rightarrow> string \<Rightarrow> upd \<Rightarrow> string + upd" where
  "RemoveNode tables now n u =
     (case find_node u n of
        None \<Rightarrow> Inl ''node is not registered''
      | Some x \<Rightarrow>
          if nd_enabled x then Inl ''node is still enabled; disable it first''
          else if \<not> nd_stopped x then Inl ''node is not marked stopped''
          else if (case nd_seen x of None \<Rightarrow> False | Some t \<Rightarrow> now - t < 300000) then Inl ''node was seen recently''
          else if n = fst (ClusterState u) then Inl ''node is the primary''
          else if \<not> tables then Inl ''relation does not exist''
          else Inr (u\<lparr>up_admissions := filter (\<lambda>a. ad_node a \<noteq> n) (up_admissions u),
                      up_nodes := filter (\<lambda>x. nd_id x \<noteq> n) (up_nodes u)\<rparr>))"

subsection \<open>Admission of a started core\<close>

definition step_done :: "upd \<Rightarrow> string \<Rightarrow> string \<Rightarrow> action set \<Rightarrow> bool" where
  "step_done u i n as \<longleftrightarrow> (\<exists>s \<in> set (up_steps u). sp_plan s = i \<and> sp_node s = n \<and> sp_action s \<in> as \<and> sp_status s = StepDone)"

definition admissionAllowed :: "string \<Rightarrow> int \<Rightarrow> string list \<Rightarrow> string \<Rightarrow> upd \<Rightarrow> string + unit" where
  "admissionAllowed self now unmanaged digest u =
     (case active_plan u of
        None \<Rightarrow> if digest \<noteq> up_baseline u then Inl ''release is not the completed baseline'' else Inr ()
      | Some p \<Rightarrow>
          if pl_strategy p \<noteq> PrimaryFirst \<or> digest \<noteq> pl_release p then Inl ''active plan does not authorize this release''
          else if step_done u (pl_id p) self {Local} then Inr ()
          else if pl_status p \<noteq> Running \<or> \<not> step_done u (pl_id p) self {Start, StartPrimary}
          then Inl ''node has no runnable first-admission permission''
          else if self = up_primary u then followersStopped now unmanaged u
          else and_then (requireFreshNodes now [up_primary u] u) (\<lambda>_.
            case find_node u (up_primary u) of
              None \<Rightarrow> Inl ''no rows''
            | Some n \<Rightarrow> ensure (nd_ready n \<and> nd_mode n = ''local'' \<and> nd_release n = digest) ''primary target is not locally ready''))"

definition planAuthorizesTx :: "string \<Rightarrow> string \<Rightarrow> upd \<Rightarrow> string + unit" where
  "planAuthorizesTx self digest u =
     (case active_plan u of
        None \<Rightarrow> ensure (digest = up_baseline u) ''conflict''
      | Some p \<Rightarrow>
          if pl_strategy p \<noteq> PrimaryFirst \<or> digest \<noteq> pl_release p then Inl ''conflict''
          else ensure (step_done u (pl_id p) self {Local} \<or>
              (pl_status p = Running \<and> step_done u (pl_id p) self {Start, StartPrimary}))
            ''plan changed before admission commit'')"

text \<open>The admission transaction.\<close>

definition admitTx :: "unode \<Rightarrow> string \<Rightarrow> string \<Rightarrow> upd \<Rightarrow> string + int \<times> upd" where
  "admitTx self core digest u =
     (case find_node u (nd_id self) of
        None \<Rightarrow> Inl ''no rows''
      | Some n \<Rightarrow>
          if \<not> (nd_enabled n \<and> nd_boot n = nd_boot self) then Inl ''node disabled before admission commit''
          else and_then (planAuthorizesTx (nd_id self) digest u) (\<lambda>_.
            let old = List.find (\<lambda>a. ad_node a = nd_id self) (up_admissions u);
                rev = (case old of None \<Rightarrow> 1 | Some a \<Rightarrow> ad_revision a + 1);
                a = \<lparr>ad_node = nd_id self, ad_core_boot = core, ad_release = digest, ad_revision = rev, ad_serve = True\<rparr>
            in Inr (rev, u\<lparr>up_admissions := a # filter (\<lambda>a. ad_node a \<noteq> nd_id self) (up_admissions u)\<rparr>)))"

record core_status =
  cs_release :: string
  cs_boot :: string
  cs_blockers :: "string list"
  cs_schema :: string
  cs_protocol :: int
  cs_cluster :: protocol_range
  cs_task :: protocol_range
  cs_host_api :: int
  cs_version :: string

definition admit_checks :: "(string \<Rightarrow> manifest option) \<Rightarrow> string \<Rightarrow> core_status \<Rightarrow> string + unit" where
  "admit_checks release digest st =
     (if cs_release st \<noteq> digest \<or> cs_boot st = [] then Inl ''candidate release identity mismatch''
      else if cs_blockers st \<noteq> [] then Inl ''candidate plugin or schema checks are blocked''
      else case release digest of
        None \<Rightarrow> Inl ''no rows''
      | Some rel \<Rightarrow>
          if cs_schema st = [] \<or> cs_schema st \<noteq> mf_schema_after rel
          then Inl ''candidate embedded schema contract differs from the signed release''
          else if cs_protocol st \<noteq> 2 \<or> cs_cluster st \<noteq> mf_cluster rel \<or> cs_task st \<noteq> mf_task rel \<or>
            cs_host_api st \<noteq> mf_host_api rel
          then Inl ''candidate runtime protocols differ from signed release''
          else ensure (cs_version st \<noteq> [] \<and> cs_version st = mf_core_version rel)
            ''candidate core version differs from the signed release'')"

text \<open>\<open>Admit\<close> up to the call that hands the admission to the core; \<open>st\<close> is the core's own status.\<close>

definition AdmitCore :: "unode \<Rightarrow> int \<Rightarrow> string list \<Rightarrow> (string \<Rightarrow> manifest option) \<Rightarrow> core_status \<Rightarrow> string \<Rightarrow> upd \<Rightarrow>
    string + int \<times> upd" where
  "AdmitCore self now unmanaged release st digest u =
     and_then (admissionAllowed (nd_id self) now unmanaged digest u) (\<lambda>_.
     and_then (admit_checks release digest st) (\<lambda>_. admitTx self (cs_boot st) digest u))"

subsection \<open>Starting and stopping the core (\<open>engine.go\<close>)\<close>

record prepare_request =
  pr_bootstrap :: bool
  pr_migrate :: bool
  pr_before :: string
  pr_after :: string
  pr_coordinate :: bool

text \<open>The checks and options of \<open>start\<close>, up to the call of the runtime; \<open>[]\<close> is no plan.\<close>

definition start :: "string \<Rightarrow> int \<Rightarrow> string list \<Rightarrow> (string \<Rightarrow> manifest option) \<Rightarrow> string \<Rightarrow> string \<Rightarrow> bool \<Rightarrow> upd \<Rightarrow>
    string + prepare_request" where
  "start self now unmanaged release planID digest bootstrap u =
     (case release digest of
        None \<Rightarrow> Inl ''no rows''
      | Some rel \<Rightarrow>
          let opts = \<lparr>pr_bootstrap = bootstrap, pr_migrate = bootstrap, pr_before = [], pr_after = mf_schema_after rel,
                pr_coordinate = (self = up_primary u)\<rparr> in
          if planID = [] then Inr opts
          else (case find_plan u planID of
              None \<Rightarrow> Inl ''no rows''
            | Some p \<Rightarrow>
                if pl_strategy p \<noteq> PrimaryFirst \<or> pl_status p \<noteq> Running then Inl ''plan is not runnable''
                else if self = up_primary u
                then and_then (followersStopped now unmanaged u) (\<lambda>_.
                  case release (pl_source p) of
                    None \<Rightarrow> Inl ''no rows''
                  | Some source \<Rightarrow> Inr (opts\<lparr>pr_migrate := True, pr_before := mf_schema_after source\<rparr>))
                else if \<exists>n \<in> set (up_nodes u). nd_id n = up_primary u \<and> nd_ready n \<and> nd_mode n = ''local'' \<and>
                    nd_release n = digest \<and> fresh_seen now n
                then Inr opts
                else Inl ''primary target release is not locally ready''))"

text \<open>
  \<open>stop\<close>: admission is closed first. \<open>ended\<close> says whether the process group is gone after the drain,
  \<open>self\<close> is the node row as its heartbeat then reports it.
\<close>

definition stop :: "int \<Rightarrow> bool \<Rightarrow> unode \<Rightarrow> upd \<Rightarrow> upd \<times> (string + unit)" where
  "stop now ended self u =
     (let u1 = (if \<exists>a \<in> set (up_admissions u). ad_node a = nd_id self \<and> ad_serve a
           then close_admission (nd_id self) u else u) in
      if \<not> ended then (u1, Inl ''process group has not stopped'')
      else case NodeHeartbeat now (self\<lparr>nd_stopped := True\<rparr>) u1 of
          Inl e \<Rightarrow> (u1, Inl e)
        | Inr u2 \<Rightarrow> (case RecordStop self u2 of Inl e \<Rightarrow> (u2, Inl e) | Inr u3 \<Rightarrow> (u3, Inr ())))"

subsection \<open>What a shell does with its core outside a step (\<open>Recover\<close>)\<close>

datatype local_cmd = RtMaintenance | RtRedirect string | RtStop string | RtStartStable string bool bool

text \<open>The step history of a node, as the loop over the plan's steps in their order reads it.\<close>

record history =
  hi_stopped :: bool
  hi_started :: bool
  hi_local :: bool
  hi_disrupted :: bool

definition note_step :: "string \<Rightarrow> step \<Rightarrow> history \<Rightarrow> history" where
  "note_step self s h =
     (let h = (if sp_action s = Maintenance then h\<lparr>hi_disrupted := True\<rparr> else h) in
      if sp_node s \<noteq> self then h
      else (case sp_action s of
          Stop \<Rightarrow> h\<lparr>hi_stopped := True, hi_started := False, hi_local := False\<rparr>
        | Start \<Rightarrow> h\<lparr>hi_started := True\<rparr>
        | StartPrimary \<Rightarrow> h\<lparr>hi_started := True\<rparr>
        | Local \<Rightarrow> h\<lparr>hi_local := (sp_status s = StepDone)\<rparr>
        | _ \<Rightarrow> h))"

definition history_of :: "string \<Rightarrow> step list \<Rightarrow> history" where
  "history_of self ss = fold (note_step self) ss
     \<lparr>hi_stopped = False, hi_started = False, hi_local = False, hi_disrupted = False\<rparr>"

definition plan_steps :: "upd \<Rightarrow> string \<Rightarrow> step list" where
  "plan_steps u i = sort_key sp_id (filter (\<lambda>s. sp_plan s = i) (up_steps u))"

definition primary_ready :: "int \<Rightarrow> upd \<Rightarrow> bool" where
  "primary_ready now u \<longleftrightarrow> (\<exists>n \<in> set (up_nodes u). nd_id n = up_primary u \<and> nd_ready n \<and> nd_mode n = ''local'' \<and> fresh_seen now n)"

text \<open>
  \<open>ready\<close> is the runtime's own status, \<open>redirects\<close> whether its redirect to the primary succeeds;
  \<open>admitted\<close> whether the cluster has any admission row. The result lists the local commands in order.
\<close>

definition Recover :: "string \<Rightarrow> int \<Rightarrow> bool \<Rightarrow> bool \<Rightarrow> bool \<Rightarrow> bool \<Rightarrow> upd \<Rightarrow> local_cmd list" where
  "Recover self now ready redirects bootstrap admitted u =
     (let primary = up_primary u; coordinate = (self = primary) in
      case active_plan u of
        None \<Rightarrow> [RtStartStable (up_baseline u) (bootstrap \<and> \<not> admitted \<and> coordinate) coordinate]
      | Some p \<Rightarrow>
          if pl_strategy p \<noteq> PrimaryFirst then [RtMaintenance, RtStop ''legacy-plan-recovery'']
          else
            let member = (self \<in> set (pl_nodes p)); h = history_of self (plan_steps u (pl_id p)) in
            if \<not> member \<or> (hi_stopped h \<and> \<not> hi_started h) \<or> (hi_started h \<and> \<not> hi_local h) then
              (if self \<noteq> primary \<and> primary_ready now u
               then RtRedirect primary # (if redirects then [] else [RtMaintenance])
               else [RtMaintenance]) @
              (if hi_started h \<and> member then [] else [RtStop ''active-plan-recovery''])
            else if hi_local h then [RtStartStable (pl_release p) False coordinate]
            else if hi_disrupted h then [RtMaintenance, RtStop ''migration-barrier'']
            else if ready then []
            else if self \<noteq> primary \<and> primary_ready now u then [RtRedirect primary, RtStop ''active-plan-recovery'']
            else [RtMaintenance, RtStop ''active-plan-recovery''])"

end
