(* ===== verification/UpgradeJournal.thy ===== *)
theory UpgradeJournal
  imports UpgradeStore
begin

section \<open>The journal of a rolling update\<close>

text \<open>
  All operations on the tables, from any shell or operator and in any order, are the events of
  \<open>exec\<close>. The invariant \<open>journaled\<close> ties the rows of \<open>steps\<close> to the plan's script: rows exist exactly up to
  the cursor, carry the command the script has at their id, and are done below the cursor. From it
  follow the order of the update (no migration before the followers have stopped) and its refinement
  of a serial program.
\<close>

subsection \<open>Events\<close>

datatype ctl_event =
    EvCoordinate string int "string list"
  | EvClaim string
  | EvFinish step "string option"
  | EvAction string operator_action
  | EvCreate int "string list" string string int string
  | EvRollback "string list" "string list" string string
  | EvRecordStop unode
  | EvRegister int unode
  | EvHeartbeat int unode
  | EvRevoked int unode
  | EvDisable string
  | EvEnable string
  | EvStop int bool unode
  | EvAdmit unode int "string list" core_status string
  | EvSetPrimary "string \<Rightarrow> string \<Rightarrow> bool" "string \<Rightarrow> bool" string
  | EvRemove bool int string

definition commit :: "'a \<Rightarrow> 'e + 'a \<Rightarrow> 'a" where
  "commit u r = (case r of Inl _ \<Rightarrow> u | Inr v \<Rightarrow> v)"

fun exec :: "(string \<Rightarrow> bool) \<Rightarrow> (string \<Rightarrow> manifest option) \<Rightarrow> (string \<Rightarrow> int \<Rightarrow> string) \<Rightarrow> ctl_event \<Rightarrow> upd \<Rightarrow> upd" where
  "exec sv rel h (EvCoordinate self now um) u = commit u (Coordinate self now um u)"
| "exec sv rel h (EvClaim self) u = snd (claim_step self u)"
| "exec sv rel h (EvFinish s err) u = finish_step s err u"
| "exec sv rel h (EvAction i a) u = commit u (Action i a u)"
| "exec sv rel h (EvCreate now ext i d revn key) u = snd (commit (i, u) (createLocked now sv rel ext h i d revn key u))"
| "exec sv rel h (EvRollback ext pls n i) u = snd (commit (i, u) (rollbackWithBarrier rel ext pls n i u))"
| "exec sv rel h (EvRecordStop n) u = commit u (RecordStop n u)"
| "exec sv rel h (EvRegister now n) u = commit u (RegisterLocked now n u)"
| "exec sv rel h (EvHeartbeat now n) u = commit u (NodeHeartbeat now n u)"
| "exec sv rel h (EvRevoked now n) u = report_revoked now n u"
| "exec sv rel h (EvDisable n) u = commit u (DisableNode n u)"
| "exec sv rel h (EvEnable n) u = commit u (EnableNode n u)"
| "exec sv rel h (EvStop now ended n) u = fst (stop now ended n u)"
| "exec sv rel h (EvAdmit self now um st d) u = snd (commit (0, u) (AdmitCore self now um rel st d u))"
| "exec sv rel h (EvSetPrimary a p n) u = commit u (SetPrimary a p n u)"
| "exec sv rel h (EvRemove t now n) u = commit u (RemoveNode t now n u)"

subsection \<open>The invariant\<close>

definition cmd_of :: "step \<Rightarrow> string \<times> action \<times> string \<times> string" where
  "cmd_of s = (sp_node s, sp_action s, sp_target s, sp_peer s)"

definition key_of :: "step \<Rightarrow> string \<times> nat" where
  "key_of s = (sp_plan s, sp_id s)"

definition journal :: "plan \<Rightarrow> step list \<Rightarrow> bool" where
  "journal p ss \<longleftrightarrow> pl_strategy p = PrimaryFirst \<longrightarrow>
     pl_cursor p \<le> length (Steps p) \<and>
     (\<forall>s \<in> set ss. sp_plan s = pl_id p \<longrightarrow> sp_id s \<le> pl_cursor p \<and> sp_id s < length (Steps p) \<and>
        cmd_of s = cmd_of (Steps p ! sp_id s) \<and> (sp_id s < pl_cursor p \<longrightarrow> sp_status s = StepDone)) \<and>
     (\<forall>k < pl_cursor p. (pl_id p, k) \<in> key_of ` set ss)"

definition journaled :: "upd \<Rightarrow> bool" where
  "journaled u \<longleftrightarrow> distinct (map pl_id (up_plans u)) \<and> distinct (map key_of (up_steps u)) \<and>
     sp_plan ` set (up_steps u) \<subseteq> pl_id ` set (up_plans u) \<and> (\<forall>p \<in> set (up_plans u). journal p (up_steps u))"

lemma wf_cong: "journaled u \<Longrightarrow> up_plans v = up_plans u \<Longrightarrow> up_steps v = up_steps u \<Longrightarrow> journaled v"
  by (simp add: journaled_def)

text \<open>What a plan's status changes leave alone.\<close>

definition same_script :: "plan \<Rightarrow> plan \<Rightarrow> bool" where
  "same_script p q \<longleftrightarrow> pl_id p = pl_id q \<and> pl_release p = pl_release q \<and> pl_nodes p = pl_nodes q \<and>
     pl_strategy p = pl_strategy q"

lemma Steps_cong: "same_script p q \<Longrightarrow> Steps p = Steps q"
  by (auto simp: same_script_def Steps_def mk_step_def intro!: map_cong split: prod.splits)

lemma same_script_set_status [simp]: "same_script (set_status st m p) p"
  by (simp add: same_script_def set_status_def)

lemma same_script_refl [simp]: "same_script p p"
  by (simp add: same_script_def)

lemma cursor_set_status [simp]: "pl_cursor (set_status st m p) = pl_cursor p"
  by (simp add: set_status_def)

lemma length_Steps: "pl_strategy p = PrimaryFirst \<Longrightarrow> length (Steps p) = length (script (pl_nodes p))"
  by (simp add: Steps_def)

lemma nth_Steps:
  "pl_strategy p = PrimaryFirst \<Longrightarrow> k < length (Steps p) \<Longrightarrow> Steps p ! k = mk_step p k (script (pl_nodes p) ! k)"
  by (simp add: Steps_def nth_enumerate_eq)

lemma mk_step_simps [simp]:
  "sp_plan (mk_step p k x) = pl_id p" "sp_id (mk_step p k x) = k" "sp_node (mk_step p k x) = fst x"
  "sp_action (mk_step p k x) = fst (snd x)" "sp_status (mk_step p k x) = StepPending"
  by (simp_all add: mk_step_def split: prod.splits)

lemma journal_cong: "journal p ss \<Longrightarrow> same_script q p \<Longrightarrow> pl_cursor q = pl_cursor p \<Longrightarrow> journal q ss"
  using Steps_cong [of q p] by (auto simp: journal_def same_script_def)

lemma wf_update_plan:
  assumes "journaled u" "\<And>p. p \<in> set (up_plans u) \<Longrightarrow> pl_id p = i \<Longrightarrow> same_script (f p) p \<and> pl_cursor (f p) = pl_cursor p"
  shows "journaled (update_plan i f u)"
proof -
  have ids: "map pl_id (up_plans (update_plan i f u)) = map pl_id (up_plans u)"
    using assms(2) by (auto simp: update_plan_def same_script_def)
  then have "pl_id ` set (up_plans (update_plan i f u)) = pl_id ` set (up_plans u)"
    by (metis set_map)
  moreover have "\<forall>p \<in> set (up_plans (update_plan i f u)). journal p (up_steps u)"
    using assms by (auto simp: update_plan_def journaled_def intro: journal_cong)
  moreover have "up_steps (update_plan i f u) = up_steps u" by (simp add: update_plan_def)
  ultimately show ?thesis using assms(1) unfolding journaled_def ids by simp
qed

text \<open>An update of step rows that keeps their identity, and their being done below the cursor.\<close>

definition keeps_rows :: "upd \<Rightarrow> (step \<Rightarrow> bool) \<Rightarrow> (step \<Rightarrow> step) \<Rightarrow> bool" where
  "keeps_rows u P f \<longleftrightarrow> (\<forall>s \<in> set (up_steps u). P s \<longrightarrow> key_of (f s) = key_of s \<and> cmd_of (f s) = cmd_of s \<and>
     (\<forall>p \<in> set (up_plans u). pl_id p = sp_plan s \<longrightarrow> pl_strategy p = PrimaryFirst \<longrightarrow> sp_id s < pl_cursor p \<longrightarrow>
        sp_status s = StepDone \<longrightarrow> sp_status (f s) = StepDone))"

lemma keys_update_steps: "keeps_rows u P f \<Longrightarrow> map key_of (up_steps (update_steps P f u)) = map key_of (up_steps u)"
  by (auto simp: update_steps_def keeps_rows_def)

lemma plan_of_key: "sp_plan s = fst (key_of s)" "sp_id s = snd (key_of s)"
  by (simp_all add: key_of_def)

lemma wf_update_steps:
  assumes "journaled u" "keeps_rows u P f"
  shows "journaled (update_steps P f u)"
proof -
  have keys: "map key_of (up_steps (update_steps P f u)) = map key_of (up_steps u)"
    using assms(2) by (rule keys_update_steps)
  then have kset: "key_of ` set (up_steps (update_steps P f u)) = key_of ` set (up_steps u)"
    by (metis set_map)
  then have plans: "sp_plan ` set (up_steps (update_steps P f u)) = sp_plan ` set (up_steps u)"
    unfolding plan_of_key by (metis image_image)
  have "journal p (up_steps (update_steps P f u))" if p: "p \<in> set (up_plans u)" for p
  proof -
    have j: "journal p (up_steps u)" using assms(1) p by (simp add: journaled_def)
    show ?thesis unfolding journal_def kset
    proof (intro impI conjI ballI)
      assume pf: "pl_strategy p = PrimaryFirst"
      show "pl_cursor p \<le> length (Steps p)" "\<forall>k < pl_cursor p. (pl_id p, k) \<in> key_of ` set (up_steps u)"
        using j pf by (simp_all add: journal_def)
      fix s assume s: "s \<in> set (up_steps (update_steps P f u))" and ip: "sp_plan s = pl_id p"
      then obtain s0 where s0: "s0 \<in> set (up_steps u)" "s = (if P s0 then f s0 else s0)"
        by (auto simp: update_steps_def)
      have k: "key_of s = key_of s0" "cmd_of s = cmd_of s0" using assms(2) s0 by (auto simp: keeps_rows_def)
      then have i0: "sp_plan s0 = pl_id p" "sp_id s0 = sp_id s" using ip by (auto simp: key_of_def)
      have j0: "sp_id s0 \<le> pl_cursor p" "sp_id s0 < length (Steps p)" "cmd_of s0 = cmd_of (Steps p ! sp_id s0)"
        "sp_id s0 < pl_cursor p \<longrightarrow> sp_status s0 = StepDone"
        using j pf s0(1) i0(1) by (auto simp: journal_def)
      show "sp_id s \<le> pl_cursor p" "sp_id s < length (Steps p)" "cmd_of s = cmd_of (Steps p ! sp_id s)"
        using j0 i0 k by auto
      show "sp_status s = StepDone" if "sp_id s < pl_cursor p"
        using assms(2) s0 i0 j0(4) that p pf by (auto simp: keeps_rows_def split: if_splits)
    qed
  qed
  moreover have "up_plans (update_steps P f u) = up_plans u" by (simp add: update_steps_def)
  ultimately show ?thesis using assms(1) unfolding journaled_def keys plans by simp
qed

lemma find_plan_some: "find_plan u i = Some p \<Longrightarrow> p \<in> set (up_plans u) \<and> pl_id p = i"
  unfolding find_plan_def by (rule find_SomeD)

lemma find_step_some: "find_step u i k = Some s \<Longrightarrow> s \<in> set (up_steps u) \<and> sp_plan s = i \<and> sp_id s = k"
  unfolding find_step_def by (rule find_SomeD)

lemma wf_plan_unique: "journaled u \<Longrightarrow> p \<in> set (up_plans u) \<Longrightarrow> q \<in> set (up_plans u) \<Longrightarrow> pl_id p = pl_id q \<Longrightarrow> p = q"
  by (auto simp: journaled_def distinct_map inj_on_def)

lemma wf_step_unique:
  "journaled u \<Longrightarrow> s \<in> set (up_steps u) \<Longrightarrow> t \<in> set (up_steps u) \<Longrightarrow> sp_plan s = sp_plan t \<Longrightarrow> sp_id s = sp_id t \<Longrightarrow> s = t"
  by (auto simp: journaled_def distinct_map inj_on_def key_of_def)

subsection \<open>Every event keeps the invariant\<close>

lemma up_plans_update_plan: "up_plans (update_plan i f u) = map (\<lambda>p. if pl_id p = i then f p else p) (up_plans u)"
  by (simp add: update_plan_def)

lemma up_steps_update_plan [simp]: "up_steps (update_plan i f u) = up_steps u"
  by (simp add: update_plan_def)

lemma up_plans_update_steps [simp]: "up_plans (update_steps P f u) = up_plans u"
  by (simp add: update_steps_def)

lemma add_event_simps [simp]:
  "up_plans (add_event i k u) = up_plans u" "up_steps (add_event i k u) = up_steps u"
  by (simp_all add: add_event_def)

lemma wf_add_event [simp]: "journaled (add_event i k u) = journaled u"
  by (auto intro: wf_cong)

lemma wf_advance:
  assumes journaled: "journaled u" and p: "p \<in> set (up_plans u)" and pf: "pl_strategy p = PrimaryFirst"
    and lt: "pl_cursor p < length (Steps p)"
    and s: "s \<in> set (up_steps u)" "sp_plan s = pl_id p" "sp_id s = pl_cursor p" "sp_status s = StepDone"
  shows "journaled (advance p u)"
proof -
  let ?f = "\<lambda>q::plan. q\<lparr>pl_cursor := pl_cursor q + 1\<rparr>"
  have ids: "map pl_id (up_plans (advance p u)) = map pl_id (up_plans u)"
    by (simp add: advance_def update_plan_def)
  then have idset: "pl_id ` set (up_plans (advance p u)) = pl_id ` set (up_plans u)"
    by (metis set_map)
  have j: "journal p (up_steps u)" using journaled p by (simp add: journaled_def)
  have adv: "journal (?f p) (up_steps u)" unfolding journal_def
  proof (intro impI conjI ballI allI)
    have S: "Steps (?f p) = Steps p" by (rule Steps_cong) (simp add: same_script_def)
    show "pl_cursor (?f p) \<le> length (Steps (?f p))" using lt S by simp
    fix t assume t: "t \<in> set (up_steps u)" "sp_plan t = pl_id (?f p)"
    have jt: "sp_id t \<le> pl_cursor p" "sp_id t < length (Steps p)" "cmd_of t = cmd_of (Steps p ! sp_id t)"
      "sp_id t < pl_cursor p \<longrightarrow> sp_status t = StepDone"
      using j pf t by (auto simp: journal_def)
    then show "sp_id t \<le> pl_cursor (?f p)" "sp_id t < length (Steps (?f p))"
      "cmd_of t = cmd_of (Steps (?f p) ! sp_id t)" using S by auto
    show "sp_status t = StepDone" if "sp_id t < pl_cursor (?f p)"
    proof (cases "sp_id t = pl_cursor p")
      case True
      then have "t = s" using wf_step_unique [OF journaled t(1) s(1)] s t by simp
      then show ?thesis using s by simp
    next
      case False then show ?thesis using jt that by simp
    qed
  next
    fix k assume "k < pl_cursor (?f p)"
    then have "k < pl_cursor p \<or> k = pl_cursor p" by auto
    then show "(pl_id (?f p), k) \<in> key_of ` set (up_steps u)"
    proof
      assume "k < pl_cursor p" then show ?thesis using j pf by (simp add: journal_def)
    next
      assume "k = pl_cursor p"
      then have "key_of s = (pl_id (?f p), k)" using s by (simp add: key_of_def)
      then show ?thesis using s(1) by (metis image_eqI)
    qed
  qed
  have "journal q (up_steps u)" if q: "q \<in> set (up_plans (advance p u))" for q
  proof -
    obtain q0 where q0: "q0 \<in> set (up_plans u)" "q = (if pl_id q0 = pl_id p then ?f q0 else q0)"
      using q by (auto simp: advance_def update_plan_def)
    show ?thesis
    proof (cases "pl_id q0 = pl_id p")
      case True
      then have "q0 = p" using wf_plan_unique [OF journaled q0(1) p] by simp
      then show ?thesis using q0 adv by simp
    next
      case False then show ?thesis using q0 journaled by (simp add: journaled_def)
    qed
  qed
  moreover have "up_steps (advance p u) = up_steps u" by (simp add: advance_def)
  ultimately show ?thesis using journaled unfolding journaled_def ids idset by simp
qed

lemma wf_issue:
  assumes journaled: "journaled u" and p: "p \<in> set (up_plans u)" and pf: "pl_strategy p = PrimaryFirst"
    and lt: "pl_cursor p < length (Steps p)" and free: "find_step u (pl_id p) (pl_cursor p) = None"
  shows "journaled (u\<lparr>up_steps := Steps p ! pl_cursor p # up_steps u\<rparr>)"
proof -
  define st where "st = Steps p ! pl_cursor p"
  have st: "sp_plan st = pl_id p" "sp_id st = pl_cursor p" using nth_Steps [OF pf lt] by (simp_all add: st_def)
  have new: "key_of st \<notin> key_of ` set (up_steps u)"
    using free st by (auto simp: find_step_def find_None_iff key_of_def)
  have "journal q (st # up_steps u)" if q: "q \<in> set (up_plans u)" for q
  proof (cases "q = p")
    case True
    then show ?thesis using journaled q lt st pf by (auto simp: journaled_def journal_def st_def)
  next
    case False
    then have ne: "sp_plan st \<noteq> pl_id q" using wf_plan_unique [OF journaled q p] st by auto
    have "journal q (up_steps u)" using journaled q by (simp add: journaled_def)
    then show ?thesis using ne by (simp add: journal_def)
  qed
  then show ?thesis using journaled new p st unfolding journaled_def st_def [symmetric] by auto
qed

lemma wf_insert_plan:
  assumes journaled: "journaled u" and ins: "insert_plan p u = Inr v" and c: "pl_cursor p = 0"
  shows "journaled v"
proof -
  have v: "v = u\<lparr>up_plans := p # up_plans u\<rparr>" and new: "\<forall>q \<in> set (up_plans u). pl_id q \<noteq> pl_id p"
    using ins by (auto simp: insert_plan_def split: if_splits)
  then have no: "\<forall>s \<in> set (up_steps u). sp_plan s \<noteq> pl_id p" using journaled by (fastforce simp: journaled_def)
  have "journal p (up_steps u)" using no c by (simp add: journal_def)
  then show ?thesis using journaled new unfolding journaled_def v by auto
qed

text \<open>A row that is not below its plan's cursor, or that becomes done, may change its status.\<close>

lemma keeps_rows_status:
  assumes "\<And>s. s \<in> set (up_steps u) \<Longrightarrow> P s \<Longrightarrow> st s \<noteq> StepDone \<Longrightarrow>
     \<forall>p \<in> set (up_plans u). pl_id p = sp_plan s \<longrightarrow> pl_strategy p = PrimaryFirst \<longrightarrow> sp_id s < pl_cursor p \<longrightarrow> sp_status s \<noteq> StepDone"
  shows "keeps_rows u P (\<lambda>s. s\<lparr>sp_status := st s, sp_error := e s\<rparr>)"
  using assms by (fastforce simp: keeps_rows_def key_of_def cmd_of_def)

lemma keeps_rows_status1:
  assumes "\<And>s. s \<in> set (up_steps u) \<Longrightarrow> P s \<Longrightarrow> st s \<noteq> StepDone \<Longrightarrow>
     \<forall>p \<in> set (up_plans u). pl_id p = sp_plan s \<longrightarrow> pl_strategy p = PrimaryFirst \<longrightarrow> sp_id s < pl_cursor p \<longrightarrow> sp_status s \<noteq> StepDone"
  shows "keeps_rows u P (\<lambda>s. s\<lparr>sp_status := st s\<rparr>)"
  using assms by (fastforce simp: keeps_rows_def key_of_def cmd_of_def)

lemma wf_issued_step:
  assumes journaled: "journaled u" and p: "p \<in> set (up_plans u)" and pf: "pl_strategy p = PrimaryFirst"
    and lt: "pl_cursor p < length (Steps p)" and s: "find_step u (pl_id p) (pl_cursor p) = Some s"
  shows "journaled (issued_step now p (Steps p ! pl_cursor p) s u)"
proof -
  let ?P = "\<lambda>x. sp_plan x = pl_id p \<and> sp_id x = pl_cursor p"
  let ?v = "update_steps ?P (\<lambda>x. x\<lparr>sp_status := StepDone, sp_error := []\<rparr>) u"
  note s' = find_step_some [OF s]
  have id: "sp_id (Steps p ! pl_cursor p) = pl_cursor p" using nth_Steps [OF pf lt] by simp
  have v: "journaled ?v" by (rule wf_update_steps [OF journaled], rule keeps_rows_status) simp
  have in_v: "s\<lparr>sp_status := StepDone, sp_error := []\<rparr> \<in> set (up_steps ?v)"
    using s' by (force simp: update_steps_def)
  have "journaled (advance p ?v)"
    by (rule wf_advance [OF v _ pf lt in_v]) (use p s' in simp_all)
  moreover have "journaled (advance p u)" if "sp_status s = StepDone"
    by (rule wf_advance [OF journaled p pf lt, of s]) (use s' that in simp_all)
  ultimately show ?thesis using journaled unfolding issued_step_def id by simp
qed

lemma find_running: "List.find (\<lambda>p. pl_status p = Running) (up_plans u) = Some p \<Longrightarrow> p \<in> set (up_plans u) \<and> pl_status p = Running"
  by (rule find_SomeD)

lemma wf_set_cluster [simp]: "journaled (u\<lparr>up_baseline := b, up_revision := r\<rparr>) = journaled u"
  by (auto intro: wf_cong)

lemma wf_complete: "journaled u \<Longrightarrow> complete now p u = Inr v \<Longrightarrow> journaled v"
  by (auto simp: complete_def and_then_eq_Inr Let_def same_script_def split: if_splits
      intro!: wf_update_plan)

lemma wf_issue_step:
  assumes "journaled u" "p \<in> set (up_plans u)" "pl_strategy p = PrimaryFirst" "pl_cursor p < length (Steps p)"
    "find_step u (pl_id p) (pl_cursor p) = None" "issue_step p (Steps p ! pl_cursor p) u = Inr v"
  shows "journaled v"
  using assms(6) wf_issue [OF assms(1-5)] wf_update_plan [OF assms(1)]
  by (auto simp: issue_step_def Let_def split: if_splits option.splits)

lemma wf_Coordinate:
  assumes wf: "journaled u" and c: "Coordinate self now um u = Inr v"
  shows "journaled v"
proof (cases "up_primary u = self")
  case False then show ?thesis using c wf by (simp add: Coordinate_def)
next
  case True
  note c = c [unfolded Coordinate_def, folded True, simplified]
  show ?thesis
  proof (cases "List.find (\<lambda>p. pl_status p = Running) (up_plans u)")
    case None then show ?thesis using c wf by simp
  next
    case (Some p)
    note p = find_running [OF Some, THEN conjunct1]
    consider (legacy) "pl_strategy p \<noteq> PrimaryFirst" | (ended) "pl_strategy p = PrimaryFirst" "length (Steps p) \<le> pl_cursor p"
      | (go) "pl_strategy p = PrimaryFirst" "pl_cursor p < length (Steps p)" by force
    then show ?thesis
    proof cases
      case legacy
      then show ?thesis using c Some wf by (auto intro!: wf_update_plan)
    next
      case ended
      then show ?thesis using c Some wf by (auto split: if_splits intro: wf_complete)
    next
      case go
      then show ?thesis using c Some wf p
        by (auto simp: Let_def and_then_eq_Inr split: if_splits option.splits
            intro: wf_issue_step wf_issued_step)
    qed
  qed
qed

lemma wf_claim: "journaled u \<Longrightarrow> journaled (snd (claim_step self u))"
proof (cases "List.find (\<lambda>s. may_run u s \<and> sp_node s = self \<and> sp_status s \<in> {StepPending, StepRunning}) (up_steps u)")
  case (Some s)
  assume wf: "journaled u"
  have s: "s \<in> set (up_steps u)" "sp_status s \<noteq> StepDone" using find_SomeD [OF Some] by auto
  have "keeps_rows u (\<lambda>x. sp_plan x = sp_plan s \<and> sp_id x = sp_id s) (\<lambda>x. x\<lparr>sp_status := StepRunning\<rparr>)"
    by (rule keeps_rows_status1) (use wf_step_unique [OF wf _ s(1)] s(2) in auto)
  then show ?thesis using Some wf by (simp add: claim_step_def wf_update_steps)
qed (simp add: claim_step_def)

lemma wf_finish:
  assumes wf: "journaled u"
  shows "journaled (finish_step s err u)"
proof (cases "at_cursor u (\<lambda>st. st = Running \<or> st = Paused) s")
  case True
  then obtain p where p: "p \<in> set (up_plans u)" "pl_id p = sp_plan s" "pl_cursor p = sp_id s"
    by (auto simp: at_cursor_def)
  let ?P = "\<lambda>x. sp_plan x = sp_plan s \<and> sp_id x = sp_id s"
  have "journaled (update_steps ?P (\<lambda>x. x\<lparr>sp_status := st, sp_error := m\<rparr>) u)" for st m
    by (rule wf_update_steps [OF wf], rule keeps_rows_status) (use wf_plan_unique [OF wf _ p(1)] p in fastforce)
  note upd = this
  show ?thesis
    unfolding finish_step_def Let_def
    by (auto simp: wf intro!: upd wf_update_plan split: if_splits)
qed (auto simp: finish_step_def Let_def wf)

lemma wf_Action:
  assumes wf: "journaled u" and a: "Action i a u = Inr v"
  shows "journaled v"
proof -
  have "journaled (update_plan i (set_status st m) w)" if "journaled w" for st m w
    by (rule wf_update_plan [OF that]) simp
  moreover have "journaled (update_steps (\<lambda>s. sp_plan s = i \<and> sp_status s = StepFailed)
      (\<lambda>s. s\<lparr>sp_status := StepPending, sp_error := []\<rparr>) u)"
    by (rule wf_update_steps [OF wf], rule keeps_rows_status) auto
  ultimately show ?thesis using a wf
    by (auto simp: Action_def split: option.splits operator_action.splits if_splits)
qed

lemma wf_set_revision [simp]: "journaled (u\<lparr>up_revision := r\<rparr>) = journaled u"
  by (auto intro: wf_cong)

lemma new_plan_cursor [simp]: "pl_cursor (new_plan i d ns k h u) = 0"
  by (simp add: new_plan_def)

lemma wf_create:
  "journaled u \<Longrightarrow> createLocked now sv rel ext h i d r key u = Inr (j, v) \<Longrightarrow> journaled v"
  by (auto simp: createLocked_def and_then_eq_Inr split: if_splits option.splits dest!: wf_insert_plan [rotated])

lemma wf_rollback:
  assumes "journaled u" "rollbackWithBarrier rel ext pls n i u = Inr (j, v)"
  shows "journaled v"
proof -
  have "journaled (update_plan i (set_status Superseded []) u)"
    by (rule wf_update_plan [OF assms(1)]) simp
  then show ?thesis using assms
    by (auto simp: rollbackWithBarrier_def rollbackLocked_def and_then_eq_Inr Let_def split: if_splits option.splits
        dest!: wf_insert_plan [rotated])
qed

text \<open>The events on nodes and admissions touch neither table of the journal.\<close>

lemma frame_nodes [simp]:
  "up_plans (update_node i f u) = up_plans u" "up_steps (update_node i f u) = up_steps u"
  "up_plans (close_admission i u) = up_plans u" "up_steps (close_admission i u) = up_steps u"
  "up_plans (report_revoked now n u) = up_plans u" "up_steps (report_revoked now n u) = up_steps u"
  by (simp_all add: update_node_def close_admission_def report_revoked_def)

lemma frame_RecordStop: "RecordStop n u = Inr v \<Longrightarrow> up_plans v = up_plans u \<and> up_steps v = up_steps u"
  by (auto simp: RecordStop_def Let_def split: option.splits if_splits)

lemma frame_NodeHeartbeat: "NodeHeartbeat now n u = Inr v \<Longrightarrow> up_plans v = up_plans u \<and> up_steps v = up_steps u"
  by (auto simp: NodeHeartbeat_def split: if_splits)

lemma frame_stop:
  "up_plans (fst (stop now e n u)) = up_plans u \<and> up_steps (fst (stop now e n u)) = up_steps u"
  by (auto simp: stop_def Let_def split: sum.splits dest!: frame_NodeHeartbeat frame_RecordStop)

lemma frame_others:
  "RegisterLocked now n u = Inr v \<Longrightarrow> up_plans v = up_plans u \<and> up_steps v = up_steps u"
  "DisableNode i u = Inr v \<Longrightarrow> up_plans v = up_plans u \<and> up_steps v = up_steps u"
  "EnableNode i u = Inr v \<Longrightarrow> up_plans v = up_plans u \<and> up_steps v = up_steps u"
  "SetPrimary a p i u = Inr v \<Longrightarrow> up_plans v = up_plans u \<and> up_steps v = up_steps u"
  "RemoveNode t now i u = Inr v \<Longrightarrow> up_plans v = up_plans u \<and> up_steps v = up_steps u"
  "AdmitCore n now um rel st d u = Inr (r, v) \<Longrightarrow> up_plans v = up_plans u \<and> up_steps v = up_steps u"
  by (auto simp: RegisterLocked_def DisableNode_def EnableNode_def SetPrimary_def RemoveNode_def AdmitCore_def
      admitTx_def and_then_eq_Inr Let_def split: option.splits if_splits)

lemmas frame_ops = frame_RecordStop frame_NodeHeartbeat frame_others

definition journal_event :: "ctl_event \<Rightarrow> bool" where
  "journal_event e = (case e of EvCoordinate _ _ _ \<Rightarrow> True | EvClaim _ \<Rightarrow> True | EvFinish _ _ \<Rightarrow> True | EvAction _ _ \<Rightarrow> True
     | EvCreate _ _ _ _ _ _ \<Rightarrow> True | EvRollback _ _ _ _ \<Rightarrow> True | _ \<Rightarrow> False)"

lemma frame_exec:
  "\<not> journal_event e \<Longrightarrow> up_plans (exec sv rel h e u) = up_plans u \<and> up_steps (exec sv rel h e u) = up_steps u"
  by (cases e) (auto simp: journal_event_def commit_def frame_stop split: sum.splits dest: frame_ops)

lemma wf_exec:
  assumes "journaled u"
  shows "journaled (exec sv rel h e u)"
proof (cases "journal_event e")
  case False
  then show ?thesis using frame_exec wf_cong [OF assms] by blast
next
  case True
  then show ?thesis using assms
    by (cases e) (auto simp: journal_event_def commit_def wf_claim wf_finish split: sum.splits
        intro: wf_Coordinate wf_Action wf_create wf_rollback)
qed

text \<open>Every state reachable from one without plans keeps the journal.\<close>

definition runs :: "(string \<Rightarrow> bool) \<Rightarrow> (string \<Rightarrow> manifest option) \<Rightarrow> (string \<Rightarrow> int \<Rightarrow> string) \<Rightarrow> ctl_event list \<Rightarrow> upd \<Rightarrow> upd" where
  "runs sv rel h es u = fold (exec sv rel h) es u"

definition blank :: "upd \<Rightarrow> bool" where
  "blank u \<longleftrightarrow> up_plans u = [] \<and> up_steps u = []"

lemma wf_runs: "journaled u \<Longrightarrow> journaled (runs sv rel h es u)"
  by (induction es arbitrary: u) (simp_all add: runs_def wf_exec)

lemma wf_blank: "blank u \<Longrightarrow> journaled u"
  by (simp add: blank_def journaled_def)

end
