(* ===== verification/UpgradeRollout.thy ===== *)
theory UpgradeRollout
  imports UpgradeJournal
begin

section \<open>What a rolling update guarantees\<close>

text \<open>
  Consequences of the journal: the order in which nodes are stopped and the database is migrated, and
  the refinement of every plan by a program that runs one command after the other.
\<close>

subsection \<open>No migration before the followers have stopped\<close>

lemma script_migration_after_stops:
  assumes n: "n \<in> set (tl ns)" and i: "i < length (script ns)"
    and a: "fst (snd (script ns ! i)) = Maintenance \<or> fst (snd (script ns ! i)) = StartPrimary"
  shows "\<exists>k < i. script ns ! k = (n, Stop, [])"
proof (cases ns)
  case Nil then show ?thesis using n by simp
next
  case (Cons primary fs)
  define A where "A = map (\<lambda>n. (n, Prepare, [])) ns @ concat (map (\<lambda>n. [(n, Redirect, primary), (n, Stop, [])]) fs)"
  obtain B where B: "script ns = A @ B" by (simp add: script_def Cons A_def)
  have noA: "\<forall>x \<in> set A. fst (snd x) = Prepare \<or> fst (snd x) = Redirect \<or> fst (snd x) = Stop"
    by (auto simp: A_def)
  have ge: "length A \<le> i"
  proof (rule ccontr)
    assume "\<not> length A \<le> i"
    then have "script ns ! i \<in> set A" by (simp add: B nth_append)
    with noA a show False by auto
  qed
  have "(n, Stop, []) \<in> set A" using n Cons by (auto simp: A_def)
  then obtain k where "k < length A" "A ! k = (n, Stop, [])" by (auto simp: in_set_conv_nth)
  then show ?thesis using ge B by (intro exI [of _ k]) (auto simp: nth_append)
qed

lemma earlier_step_done:
  assumes wf: "journaled u" and p: "p \<in> set (up_plans u)" "pl_strategy p = PrimaryFirst" and k: "k < pl_cursor p"
  shows "\<exists>t \<in> set (up_steps u). sp_plan t = pl_id p \<and> sp_id t = k \<and> sp_status t = StepDone \<and> cmd_of t = cmd_of (Steps p ! k)"
proof -
  have j: "journal p (up_steps u)" using wf p by (simp add: journaled_def)
  then obtain t where "t \<in> set (up_steps u)" "key_of t = (pl_id p, k)" using p(2) k by (fastforce simp: journal_def)
  then show ?thesis using j p(2) k by (auto simp: journal_def key_of_def intro!: bexI [of _ t])
qed

lemma followersStopped_ok:
  assumes "followersStopped now um u = Inr ()" "n \<in> set (up_nodes u)" "nd_id n \<noteq> up_primary u" "p \<in> set (up_plans u)" "is_active p"
  shows "fresh_seen now n \<and> nd_stopped n \<and> (\<exists>c \<in> set (up_confirmed u). cf_node c = nd_id n \<and> cf_boot c = nd_boot n \<and> cf_plan c = pl_id p)
    \<and> um = []"
proof -
  have "fresh_seen now n" "\<not> unsafe u p n" "um = []" using assms by (auto simp: followersStopped_def Let_def split: if_splits)
  then show ?thesis by (auto simp: unsafe_def Let_def dest: find_SomeD)
qed

text \<open>The row a coordination adds: the command at the cursor of the running plan.\<close>

lemma keys_issued_step:
  assumes "s \<in> set (up_steps (issued_step now p st r u))"
  shows "key_of s \<in> key_of ` set (up_steps u)"
proof -
  have "key_of t \<in> key_of ` set (up_steps u)"
    if "t \<in> set (up_steps (update_steps P (\<lambda>x. x\<lparr>sp_status := d, sp_error := e\<rparr>) u))" for P d e t
    using that by (force simp: update_steps_def key_of_def)
  then show ?thesis using assms
    by (auto simp: issued_step_def advance_def split: if_splits)
qed

lemma Coordinate_new_row:
  assumes c: "Coordinate self now um u = Inr v" and s: "s \<in> set (up_steps v)" "key_of s \<notin> key_of ` set (up_steps u)"
  obtains p where "p \<in> set (up_plans u)" "pl_status p = Running" "pl_strategy p = PrimaryFirst" "pl_cursor p < length (Steps p)"
    "s = Steps p ! pl_cursor p" "sp_action s = Maintenance \<or> sp_action s = StartPrimary \<longrightarrow> followersStopped now um u = Inr ()"
    "hd (pl_nodes p) = up_primary u" "self = up_primary u"
proof -
  have self: "self = up_primary u" using c s by (auto simp: Coordinate_def split: if_splits)
  obtain p where f: "List.find (\<lambda>p. pl_status p = Running) (up_plans u) = Some p"
    using c s by (auto simp: Coordinate_def split: if_splits option.splits)
  note p = find_SomeD [OF f]
  have pf: "pl_strategy p = PrimaryFirst" and hd: "hd (pl_nodes p) = up_primary u" and lt: "pl_cursor p < length (Steps p)"
    using c s f self by (auto simp: Coordinate_def complete_def Let_def and_then_eq_Inr split: if_splits)
  let ?st = "Steps p ! pl_cursor p"
  have step: "and_then (if sp_action ?st = Maintenance \<or> sp_action ?st = StartPrimary
          then followersStopped now um u else Inr ()) (\<lambda>_.
        case find_step u (pl_id p) (pl_cursor p) of
          Some r \<Rightarrow> Inr (issued_step now p ?st r u) | None \<Rightarrow> issue_step p ?st u) = Inr v"
    using c f self pf lt by (auto simp: Coordinate_def Let_def split: if_splits)
  then have "issue_step p ?st u = Inr v"
    and g: "sp_action ?st = Maintenance \<or> sp_action ?st = StartPrimary \<longrightarrow> followersStopped now um u = Inr ()"
    using s keys_issued_step by (auto simp: and_then_eq_Inr split: option.splits if_splits)
  then have "s = ?st" using s by (auto simp: issue_step_def Let_def split: if_splits option.splits)
  then show thesis using that [of p] p pf hd lt self g by auto
qed

text \<open>C9: In every state reachable by any interleaving of coordinator passes, workers, operators, node
  reports and plan replacements, when the coordinator issues the command that puts the primary into
  maintenance or starts it on the new release (the command that migrates the database), then every
  follower of the plan has a finished stop step of this plan, every registered node other than the
  primary was seen less than 20 seconds ago with its core stopped, and that stop is confirmed for this
  plan by the node's current boot.
\<close>

theorem migration_waits_for_followers:
  assumes u: "blank u0" "u = runs sv rel h es u0"
    and c: "Coordinate self now um u = Inr v"
    and s: "s \<in> set (up_steps v)" "key_of s \<notin> key_of ` set (up_steps u)" "sp_action s = Maintenance \<or> sp_action s = StartPrimary"
  shows "\<exists>p \<in> set (up_plans u). pl_id p = sp_plan s \<and> pl_status p = Running \<and>
    (\<forall>n \<in> set (tl (pl_nodes p)). step_done u (pl_id p) n {Stop}) \<and>
    (\<forall>n \<in> set (up_nodes u). nd_id n \<noteq> up_primary u \<longrightarrow> fresh_seen now n \<and> nd_stopped n \<and>
       (\<exists>c \<in> set (up_confirmed u). cf_node c = nd_id n \<and> cf_boot c = nd_boot n \<and> cf_plan c = pl_id p))"
proof -
  have wf: "journaled u" using u wf_blank wf_runs by blast
  obtain p where p: "p \<in> set (up_plans u)" "pl_status p = Running" "pl_strategy p = PrimaryFirst" "pl_cursor p < length (Steps p)"
    "s = Steps p ! pl_cursor p" and g: "followersStopped now um u = Inr ()"
    using Coordinate_new_row [OF c s(1,2)] s(3) by metis
  have "step_done u (pl_id p) n {Stop}" if n: "n \<in> set (tl (pl_nodes p))" for n
  proof -
    have i: "pl_cursor p < length (script (pl_nodes p))" using p by (simp add: length_Steps)
    then obtain k where k: "k < pl_cursor p" "script (pl_nodes p) ! k = (n, Stop, [])"
      using script_migration_after_stops [OF n i] s(3) p(3,4,5) nth_Steps by auto
    then show ?thesis
      using earlier_step_done [OF wf p(1,3) k(1)] nth_Steps [OF p(3), of k] p(4)
      by (fastforce simp: step_done_def cmd_of_def)
  qed
  moreover have "is_active p" using p(2) by (simp add: is_active_def)
  moreover have "sp_plan s = pl_id p" using p by (simp add: nth_Steps)
  ultimately show ?thesis using p(1,2) followersStopped_ok [OF g _ _ p(1)] by (intro bexI [of _ p]) auto
qed

subsection \<open>A concrete cluster\<close>

text \<open>Two nodes on release \<open>r1\<close>, and an update to \<open>r2\<close> up to the stop of the follower \<open>b\<close>.\<close>

definition demo_unode :: "string \<Rightarrow> unode" where
  "demo_unode n = \<lparr>nd_id = n, nd_boot = ''b1'', nd_enabled = True, nd_stopped = False, nd_ready = True, nd_mode = ''local'',
     nd_release = ''r1'', nd_protocol = 1, nd_strategy = PrimaryFirst, nd_seen = Some 0, nd_platform = ''linux'',
     nd_core_boot = ''c1''\<rparr>"

definition demo_manifest :: "string \<Rightarrow> string \<Rightarrow> string \<Rightarrow> manifest" where
  "demo_manifest v old new = \<lparr>mf_core_version = v, mf_strategy = ''maintenance'', mf_schema_before = old,
     mf_schema_after =  new, mf_shell = (2, 2), mf_control = (2, 2), mf_cluster = (1, 1), mf_task = (1, 1), mf_host_api = 4,
     mf_build = v, mf_platforms = [''linux'']\<rparr>"

definition demo_releases :: "string \<Rightarrow> manifest option" where
  "demo_releases d = (if d = ''r1'' then Some (demo_manifest ''1'' ''s0'' ''s1'')
     else if d = ''r2'' then Some (demo_manifest ''2'' ''s1'' ''s2'') else None)"

definition demo_start :: upd where
  "demo_start = \<lparr>up_primary = ''a'', up_baseline = ''r1'', up_revision = 1, up_nodes = [demo_unode ''a'', demo_unode ''b''],
     up_plans = [], up_steps = [], up_confirmed = [], up_admissions = [], up_events = []\<rparr>"

abbreviation demo_run :: "ctl_event list \<Rightarrow> upd \<Rightarrow> upd" where
  "demo_run \<equiv> runs (\<lambda>v. True) demo_releases (\<lambda>d r. d @ itoa r)"

definition demo_step_row :: "nat \<Rightarrow> string \<Rightarrow> action \<Rightarrow> step" where
  "demo_step_row k n a = \<lparr>sp_plan = ''p'', sp_id = k, sp_node = n, sp_action = a, sp_target = ''r2'', sp_peer = [],
     sp_status = StepPending, sp_error = []\<rparr>"

definition demo_step :: "nat \<Rightarrow> string \<Rightarrow> action \<Rightarrow> ctl_event list" where
  "demo_step k n a = [EvCoordinate ''a'' 0 [], EvClaim n] @ (if a = Stop then [EvStop 0 True (demo_unode n)] else []) @
     [EvFinish (demo_step_row k n a) None, EvCoordinate ''a'' 0 []]"

definition demo_events :: "ctl_event list" where
  "demo_events = EvCreate 0 [] ''p'' ''r2'' 1 ''k'' # demo_step 0 ''a'' Prepare @ demo_step 1 ''b'' Prepare @
     demo_step 2 ''b'' Redirect @ demo_step 3 ''b'' Stop"


definition demo_after :: upd where
  "demo_after = commit demo_start (Coordinate ''a'' 0 [] (demo_run demo_events demo_start))"

lemma demo_coordinate: "Coordinate ''a'' 0 [] (demo_run demo_events demo_start) = Inr demo_after"
  by code_simp

lemma demo_new_row:
  "demo_step_row 4 ''a'' Maintenance \<in> set (up_steps demo_after)"
  "key_of (demo_step_row 4 ''a'' Maintenance) \<notin> key_of ` set (up_steps (demo_run demo_events demo_start))"
  by code_simp+

lemma demo_blank: "blank demo_start"
  by code_simp

lemma migration_waits_for_followers_witness:
  "\<exists>p \<in> set (up_plans (demo_run demo_events demo_start)). pl_id p = ''p'' \<and>
     (\<forall>n \<in> set (tl (pl_nodes p)). step_done (demo_run demo_events demo_start) (pl_id p) n {Stop})"
  using migration_waits_for_followers [OF demo_blank refl demo_coordinate demo_new_row]
  by (auto simp: demo_step_row_def)

subsection \<open>A plan is a serial program\<close>

text \<open>
  The specification: a program counter and the phase of the command under it. A finished command may
  be reopened by a late failure while the counter still points at it; the counter only moves past a
  finished command.
\<close>

datatype phase = Idle | Issued | Finished

inductive serial :: "nat \<Rightarrow> nat \<times> phase \<Rightarrow> nat \<times> phase \<Rightarrow> bool" for len where
  issue: "k < len \<Longrightarrow> serial len (k, Idle) (k, Issued)"
| finish: "serial len (k, Issued) (k, Finished)"
| reopen: "serial len (k, Finished) (k, Issued)"
| advance: "serial len (k, Finished) (Suc k, Idle)"

inductive_simps serial_simps: "serial len (k, ph) c"

definition phase_of :: "upd \<Rightarrow> plan \<Rightarrow> phase" where
  "phase_of u p = (case find_step u (pl_id p) (pl_cursor p) of
       None \<Rightarrow> Idle | Some s \<Rightarrow> if sp_status s = StepDone then Finished else Issued)"

definition counter :: "upd \<Rightarrow> plan \<Rightarrow> nat \<times> phase" where
  "counter u p = (pl_cursor p, phase_of u p)"

lemma find_map_key:
  assumes "\<And>x. Q (f x) = Q x"
  shows "List.find Q (map f xs) = map_option f (List.find Q xs)"
  by (induction xs) (simp_all add: assms)

lemma find_plan_update:
  assumes "\<And>p. pl_id (f p) = pl_id p"
  shows "find_plan (update_plan i f u) j = map_option (\<lambda>p. if pl_id p = i then f p else p) (find_plan u j)"
  unfolding find_plan_def up_plans_update_plan by (rule find_map_key) (simp add: assms)

lemma find_step_update:
  assumes "\<And>s. key_of (f s) = key_of s"
  shows "find_step (update_steps P f u) i k = map_option (\<lambda>s. if P s then f s else s) (find_step u i k)"
  unfolding find_step_def update_steps_def by simp (rule find_map_key, use assms in \<open>auto simp: key_of_def\<close>)

lemma find_frame [simp]:
  "find_step (update_plan i f u) j k = find_step u j k"
  "find_plan (update_steps P g u) j = find_plan u j"
  "find_step (add_event i e u) j k = find_step u j k"
  "find_plan (add_event i e u) j = find_plan u j"
  by (simp_all add: find_step_def find_plan_def)

lemma find_plan_unique: "journaled u \<Longrightarrow> p \<in> set (up_plans u) \<Longrightarrow> find_plan u (pl_id p) = Some p"
  using wf_plan_unique [of u] unfolding find_plan_def
  by (cases "List.find (\<lambda>q. pl_id q = pl_id p) (up_plans u)") (auto simp: find_None_iff dest: find_SomeD)

lemma counter_frame:
  "find_step v (pl_id p) (pl_cursor p) = find_step u (pl_id p) (pl_cursor p) \<Longrightarrow> counter v p = counter u p"
  by (simp add: counter_def phase_of_def)

text \<open>\<open>follows u v i\<close>: the plan \<open>i\<close> of \<open>u\<close> is in \<open>v\<close>, with the same script, some serial steps further.\<close>

definition follows :: "upd \<Rightarrow> upd \<Rightarrow> string \<Rightarrow> bool" where
  "follows u v i \<longleftrightarrow> (\<forall>p. find_plan u i = Some p \<longrightarrow>
     (\<exists>q. find_plan v i = Some q \<and> same_script q p \<and> (serial (length (Steps p)))\<^sup>*\<^sup>* (counter u p) (counter v q)))"

lemma follows_same:
  "up_plans v = up_plans u \<Longrightarrow> up_steps v = up_steps u \<Longrightarrow> follows u v i"
  by (auto simp: follows_def find_plan_def counter_def phase_of_def find_step_def)

lemma follows_refl [simp]: "follows u u i"
  by (rule follows_same) simp_all

lemma same_script_trans: "same_script a b \<Longrightarrow> same_script b c \<Longrightarrow> same_script a c"
  by (simp add: same_script_def)

lemma follows_trans: "follows u v i \<Longrightarrow> follows v w i \<Longrightarrow> follows u w i"
  unfolding follows_def by (metis Steps_cong rtranclp_trans same_script_def same_script_trans)

lemma follows_add_event [simp]: "follows u (add_event i k v) j = follows u v j"
  by (simp add: follows_def counter_def phase_of_def)

lemma follows_update_plan:
  assumes "\<And>p. same_script (f p) p \<and> pl_cursor (f p) = pl_cursor p"
  shows "follows u (update_plan i f u) j"
proof -
  have "pl_id (f p) = pl_id p" for p using assms [of p] by (simp add: same_script_def)
  then show ?thesis using assms
    by (auto simp: follows_def find_plan_update counter_def phase_of_def)
qed

lemma serial_switch: "(serial len)\<^sup>*\<^sup>* (k, Issued) (k, Finished)" "(serial len)\<^sup>*\<^sup>* (k, Finished) (k, Issued)"
  by (blast intro: serial.intros r_into_rtranclp)+

lemma follows_update_steps:
  assumes "\<And>s. key_of (f s) = key_of s"
  shows "follows u (update_steps P f u) j"
  by (auto simp: follows_def counter_def phase_of_def find_step_update [OF assms] serial_switch split: option.splits)

lemma follows_advance:
  assumes wf: "journaled u" and p: "p \<in> set (up_plans u)" "pl_strategy p = PrimaryFirst"
    and s: "find_step u (pl_id p) (pl_cursor p) = Some s" "sp_status s = StepDone"
  shows "follows u (advance p u) j"
proof -
  have free: "find_step u (pl_id p) (Suc (pl_cursor p)) = None"
    using wf p by (fastforce simp: find_step_def find_None_iff journaled_def journal_def)
  have fp: "find_plan u (pl_id p) = Some p" by (rule find_plan_unique [OF wf p(1)])
  have upd: "find_plan (advance p u) i =
      map_option (\<lambda>q. if pl_id q = pl_id p then q\<lparr>pl_cursor := pl_cursor q + 1\<rparr> else q) (find_plan u i)" for i
    unfolding advance_def by (rule find_plan_update) simp
  have steps: "find_step (advance p u) i k = find_step u i k" for i k by (simp add: advance_def)
  show ?thesis unfolding follows_def
  proof (intro allI impI)
    fix q assume q: "find_plan u j = Some q"
    show "\<exists>r. find_plan (advance p u) j = Some r \<and> same_script r q \<and>
        (serial (length (Steps q)))\<^sup>*\<^sup>* (counter u q) (counter (advance p u) r)"
    proof (cases "j = pl_id p")
      case True
      then have "q = p" using q fp by simp
      then show ?thesis using True fp s free
        by (auto simp: upd steps counter_def phase_of_def same_script_def intro: serial.advance)
    next
      case False
      then show ?thesis using q find_plan_some [OF q]
        by (auto simp: upd steps counter_def phase_of_def)
    qed
  qed
qed

lemma follows_issue:
  assumes wf: "journaled u" and p: "p \<in> set (up_plans u)" "pl_strategy p = PrimaryFirst" "pl_cursor p < length (Steps p)"
    and free: "find_step u (pl_id p) (pl_cursor p) = None"
  shows "follows u (u\<lparr>up_steps := Steps p ! pl_cursor p # up_steps u\<rparr>) j"
proof -
  let ?st = "Steps p ! pl_cursor p"
  let ?v = "u\<lparr>up_steps := ?st # up_steps u\<rparr>"
  have st: "sp_plan ?st = pl_id p" "sp_id ?st = pl_cursor p" "sp_status ?st = StepPending"
    using nth_Steps [OF p(2,3)] by simp_all
  have fs: "find_step ?v i k = (if i = pl_id p \<and> k = pl_cursor p then Some ?st else find_step u i k)" for i k
    using st by (auto simp: find_step_def)
  have fp: "find_plan ?v i = find_plan u i" for i by (simp add: find_plan_def)
  show ?thesis unfolding follows_def fp
  proof (intro allI impI)
    fix q assume q: "find_plan u j = Some q"
    show "\<exists>r. find_plan u j = Some r \<and> same_script r q \<and> (serial (length (Steps q)))\<^sup>*\<^sup>* (counter u q) (counter ?v r)"
    proof (cases "pl_id q = pl_id p")
      case True
      then have "q = p" using wf_plan_unique [OF wf _ p(1)] find_plan_some [OF q] by simp
      then show ?thesis using q fs free p(3) st(3) by (auto simp: counter_def phase_of_def intro: serial.issue)
    next
      case False
      then show ?thesis using q by (auto simp: fs counter_def phase_of_def)
    qed
  qed
qed

lemma follows_issued_step:
  assumes wf: "journaled u" and p: "p \<in> set (up_plans u)" "pl_strategy p = PrimaryFirst" "pl_cursor p < length (Steps p)"
    and s: "find_step u (pl_id p) (pl_cursor p) = Some s"
  shows "follows u (issued_step now p (Steps p ! pl_cursor p) s u) j"
proof -
  let ?P = "\<lambda>x. sp_plan x = pl_id p \<and> sp_id x = pl_cursor p"
  let ?f = "\<lambda>x::step. x\<lparr>sp_status := StepDone, sp_error := []\<rparr>"
  let ?v = "update_steps ?P ?f u"
  have id: "sp_id (Steps p ! pl_cursor p) = pl_cursor p" using nth_Steps [OF p(2,3)] by simp
  have v: "journaled ?v" by (rule wf_update_steps [OF wf], rule keeps_rows_status) simp
  have "find_step ?v (pl_id p) (pl_cursor p) = Some (?f s)"
    using s find_step_some [OF s] by (simp add: find_step_update key_of_def)
  from follows_advance [OF v _ p(2) this] have "follows ?v (advance p ?v) j" using p by simp
  moreover have "follows u ?v j" by (rule follows_update_steps) (simp add: key_of_def)
  ultimately show ?thesis using follows_advance [OF wf p(1,2) s] by (auto simp: issued_step_def id intro: follows_trans)
qed

lemma follows_insert_plan:
  assumes "insert_plan p u = Inr v"
  shows "follows u v j"
proof -
  have "v = u\<lparr>up_plans := p # up_plans u\<rparr>" and new: "\<forall>q \<in> set (up_plans u). pl_id q \<noteq> pl_id p"
    using assms by (auto simp: insert_plan_def split: if_splits)
  then show ?thesis
    by (auto simp: follows_def find_plan_def counter_def phase_of_def find_step_def dest: find_SomeD)
qed

lemma follows_then_plan:
  assumes "follows u w j" "\<And>p. same_script (f p) p \<and> pl_cursor (f p) = pl_cursor p"
  shows "follows u (update_plan i f w) j"
  using assms(1) follows_update_plan [of f, OF assms(2)] by (rule follows_trans)

lemma follows_then_steps:
  assumes "follows u w j" "\<And>s. key_of (f s) = key_of s"
  shows "follows u (update_steps P f w) j"
  using assms(1) follows_update_steps [of f, OF assms(2)] by (rule follows_trans)

lemma follows_cluster: "follows u (u\<lparr>up_baseline := b, up_revision := r\<rparr>) j" "follows u (u\<lparr>up_revision := r\<rparr>) j"
  by (rule follows_same; simp)+

lemma follows_set_revision [simp]: "follows u (w\<lparr>up_revision := r\<rparr>) j = follows u w j"
  by (simp add: follows_def find_plan_def counter_def phase_of_def find_step_def)

lemma follows_complete: "complete now p u = Inr v \<Longrightarrow> follows u v j"
  by (auto simp: complete_def and_then_eq_Inr Let_def same_script_def split: if_splits
      intro!: follows_then_plan follows_cluster)

lemma follows_issue_step:
  assumes "journaled u" "p \<in> set (up_plans u)" "pl_strategy p = PrimaryFirst" "pl_cursor p < length (Steps p)"
    "find_step u (pl_id p) (pl_cursor p) = None" "issue_step p (Steps p ! pl_cursor p) u = Inr v"
  shows "follows u v j"
  using assms(6) follows_issue [OF assms(1-5)]
  by (auto simp: issue_step_def Let_def split: if_splits option.splits intro!: follows_update_plan)

lemma follows_Coordinate:
  assumes wf: "journaled u" and c: "Coordinate self now um u = Inr v"
  shows "follows u v j"
proof (cases "up_primary u = self")
  case False then show ?thesis using c by (simp add: Coordinate_def)
next
  case True
  note c = c [unfolded Coordinate_def, folded True, simplified]
  show ?thesis
  proof (cases "List.find (\<lambda>p. pl_status p = Running) (up_plans u)")
    case None then show ?thesis using c by simp
  next
    case (Some p)
    note p = find_running [OF Some, THEN conjunct1]
    consider (legacy) "pl_strategy p \<noteq> PrimaryFirst" | (ended) "pl_strategy p = PrimaryFirst" "length (Steps p) \<le> pl_cursor p"
      | (go) "pl_strategy p = PrimaryFirst" "pl_cursor p < length (Steps p)" by force
    then show ?thesis
    proof cases
      case legacy
      then show ?thesis using c Some by (auto intro!: follows_update_plan)
    next
      case ended
      then show ?thesis using c Some by (auto split: if_splits intro: follows_complete)
    next
      case go
      then show ?thesis using c Some wf p
        by (auto simp: Let_def and_then_eq_Inr split: if_splits option.splits
            intro: follows_issue_step follows_issued_step)
    qed
  qed
qed

lemma follows_claim: "follows u (snd (claim_step self u)) j"
  by (auto simp: claim_step_def key_of_def split: option.splits intro!: follows_update_steps)

lemma follows_finish: "follows u (finish_step s err u) j"
  by (auto simp: finish_step_def Let_def key_of_def split: if_splits intro!: follows_then_plan follows_update_steps)

lemma follows_Action: "Action i a u = Inr v \<Longrightarrow> follows u v j"
  by (auto simp: Action_def key_of_def split: option.splits operator_action.splits if_splits
      intro!: follows_then_plan follows_update_steps)

lemma follows_create: "createLocked now sv rel ext h i d r key u = Inr (k, v) \<Longrightarrow> follows u v j"
  by (auto simp: createLocked_def and_then_eq_Inr split: if_splits option.splits
      intro: follows_trans [OF follows_cluster(2) follows_insert_plan])

lemma follows_rollback:
  assumes "rollbackWithBarrier rel ext pls n i u = Inr (k, v)"
  shows "follows u v j"
proof -
  have "follows u (update_plan i (set_status Superseded []) u) j"
    by (rule follows_update_plan) simp
  from follows_trans [OF this follows_insert_plan]
  have "follows u w j" if "insert_plan q (update_plan i (set_status Superseded []) u) = Inr w" for q w
    using that by blast
  then show ?thesis using assms
    by (auto simp: rollbackWithBarrier_def rollbackLocked_def and_then_eq_Inr Let_def split: if_splits option.splits)
qed

lemma follows_exec:
  assumes "journaled u"
  shows "follows u (exec sv rel h e u) j"
proof (cases "journal_event e")
  case False
  then show ?thesis using frame_exec follows_same by blast
next
  case True
  then show ?thesis using assms
    by (cases e) (auto simp: journal_event_def commit_def follows_claim follows_finish split: sum.splits
        intro: follows_Coordinate follows_Action follows_create follows_rollback)
qed

lemma follows_runs: "journaled u \<Longrightarrow> follows u (runs sv rel h es u) j"
proof (induction es arbitrary: u)
  case (Cons e es)
  have "follows (exec sv rel h e u) (runs sv rel h es (exec sv rel h e u)) j" using Cons wf_exec by blast
  from follows_trans [OF follows_exec [OF Cons.prems] this] show ?case by (simp add: runs_def)
qed (simp add: runs_def)

text \<open>Where plans come from: only creation and recovery add one, with nothing issued.\<close>

definition plan_ids :: "upd \<Rightarrow> string set" where
  "plan_ids u = pl_id ` set (up_plans u)"

lemma find_plan_None: "find_plan u i = None \<longleftrightarrow> i \<notin> plan_ids u"
  by (auto simp: find_plan_def find_None_iff plan_ids_def)

lemma plan_ids_simps [simp]:
  "plan_ids (update_steps P g u) = plan_ids u" "plan_ids (add_event i k u) = plan_ids u"
  "plan_ids (u\<lparr>up_baseline := b\<rparr>) = plan_ids u" "plan_ids (u\<lparr>up_revision := r\<rparr>) = plan_ids u"
  "plan_ids (u\<lparr>up_steps := ss\<rparr>) = plan_ids u"
  by (simp_all add: plan_ids_def)

lemma plan_ids_update_plan: "(\<And>p. pl_id (f p) = pl_id p) \<Longrightarrow> plan_ids (update_plan i f u) = plan_ids u"
  unfolding plan_ids_def up_plans_update_plan set_map image_image by (rule image_cong) simp_all

lemma plan_ids_set_status [simp]: "plan_ids (update_plan i (set_status st m) u) = plan_ids u"
  by (rule plan_ids_update_plan) (simp add: set_status_def)

lemma plan_ids_advance [simp]: "plan_ids (advance p u) = plan_ids u"
  unfolding advance_def by (rule plan_ids_update_plan) simp

lemma plan_ids_issued_step [simp]: "plan_ids (issued_step now p st s u) = plan_ids u"
  by (simp add: issued_step_def)

lemma plan_ids_complete: "complete now p u = Inr v \<Longrightarrow> plan_ids v = plan_ids u"
  by (auto simp: complete_def and_then_eq_Inr Let_def plan_ids_update_plan split: if_splits)

lemma plan_ids_issue_step: "issue_step p st u = Inr v \<Longrightarrow> plan_ids v = plan_ids u"
  by (auto simp: issue_step_def Let_def split: if_splits option.splits)

lemma plan_ids_Coordinate: "Coordinate self now um u = Inr v \<Longrightarrow> plan_ids v = plan_ids u"
  by (auto simp: Coordinate_def and_then_eq_Inr Let_def plan_ids_complete plan_ids_issue_step
      split: if_splits option.splits)

lemma plan_ids_claim: "plan_ids (snd (claim_step self u)) = plan_ids u"
  by (simp add: claim_step_def split: option.splits)

lemma plan_ids_finish: "plan_ids (finish_step s err u) = plan_ids u"
  by (simp add: finish_step_def Let_def plan_ids_update_plan set_status_def)

lemma plan_ids_Action: "Action i a u = Inr v \<Longrightarrow> plan_ids v = plan_ids u"
  by (auto simp: Action_def split: option.splits operator_action.splits if_splits)

text \<open>What an inserted plan starts from.\<close>

definition starts_fresh :: "upd \<Rightarrow> upd \<Rightarrow> bool" where
  "starts_fresh u v \<longleftrightarrow> (\<forall>i q. find_plan u i = None \<longrightarrow> find_plan v i = Some q \<longrightarrow>
     counter v q = (0, Idle) \<and> pl_status q = Running)"

lemma starts_fresh_ids: "plan_ids v = plan_ids u \<Longrightarrow> starts_fresh u v"
  by (metis find_plan_None option.distinct(1) starts_fresh_def)

lemma starts_fresh_insert:
  assumes wf: "journaled u" and ins: "insert_plan p u = Inr v" and p: "pl_cursor p = 0" "pl_status p = Running"
  shows "starts_fresh u v"
proof -
  have v: "v = u\<lparr>up_plans := p # up_plans u\<rparr>" and new: "pl_id p \<notin> plan_ids u"
    using ins by (auto simp: insert_plan_def plan_ids_def split: if_splits)
  have no: "sp_plan s \<noteq> pl_id p" if "s \<in> set (up_steps u)" for s
    using wf new that by (metis imageI in_mono journaled_def plan_ids_def)
  then have free: "find_step u (pl_id p) 0 = None" by (auto simp: find_step_def find_None_iff)
  show ?thesis unfolding starts_fresh_def
  proof (intro allI impI)
    fix i q assume i: "find_plan u i = None" "find_plan v i = Some q"
    then have q: "q = p" by (simp add: v find_plan_def split: if_splits)
    show "counter v q = (0, Idle) \<and> pl_status q = Running"
      using free p by (simp add: q counter_def phase_of_def v find_step_def)
  qed
qed

lemma starts_fresh_revision [simp]: "starts_fresh u (v\<lparr>up_revision := r\<rparr>) = starts_fresh u v"
  by (simp add: starts_fresh_def find_plan_def counter_def phase_of_def find_step_def)

lemma starts_fresh_event [simp]: "starts_fresh u (add_event i k v) = starts_fresh u v"
  by (simp add: starts_fresh_def counter_def phase_of_def)

lemma starts_fresh_from: "starts_fresh w v \<Longrightarrow> plan_ids w = plan_ids u \<Longrightarrow> starts_fresh u v"
  by (metis find_plan_None starts_fresh_def)

lemma new_plan_status [simp]: "pl_status (new_plan i d ns k h u) = Running"
  by (simp add: new_plan_def)

lemma starts_fresh_create:
  assumes wf: "journaled u" and c: "createLocked now sv rel ext h i d r key u = Inr (k, v)"
  shows "starts_fresh u v"
proof -
  have "starts_fresh u w" if "insert_plan (new_plan a b c d e f) (u\<lparr>up_revision := r + 1\<rparr>) = Inr w" for a b c d e f w
    by (rule starts_fresh_from [OF starts_fresh_insert [OF _ that]]) (simp_all add: wf)
  moreover have "starts_fresh u u" by (rule starts_fresh_ids) simp
  ultimately show ?thesis using c
    by (auto simp: createLocked_def and_then_eq_Inr split: if_splits option.splits)
qed

lemma starts_fresh_rollback:
  assumes wf: "journaled u" and c: "rollbackWithBarrier rel ext pls n i u = Inr (k, v)"
  shows "starts_fresh u v"
proof -
  have wf': "journaled (update_plan i (set_status Superseded []) u)"
    by (rule wf_update_plan [OF wf]) simp
  have "starts_fresh u w" if "insert_plan (new_plan a b c d e f) (update_plan i (set_status Superseded []) u) = Inr w" for a b c d e f w
    by (rule starts_fresh_from [OF starts_fresh_insert [OF wf' that]]) simp_all
  moreover have "starts_fresh u u" by (rule starts_fresh_ids) simp
  ultimately show ?thesis using c
    by (auto simp: rollbackWithBarrier_def rollbackLocked_def and_then_eq_Inr Let_def split: if_splits option.splits)
qed

lemma starts_fresh_exec:
  assumes "journaled u"
  shows "starts_fresh u (exec sv rel h e u)"
proof (cases "journal_event e")
  case False
  then show ?thesis using frame_exec by (intro starts_fresh_ids) (simp add: plan_ids_def)
next
  case True
  have "starts_fresh u u" by (rule starts_fresh_ids) simp
  with True show ?thesis using assms
    by (cases e) (auto simp: journal_event_def commit_def split: sum.splits
        intro: starts_fresh_create starts_fresh_rollback starts_fresh_ids [OF plan_ids_claim] starts_fresh_ids [OF plan_ids_finish]
          starts_fresh_ids [OF plan_ids_Coordinate] starts_fresh_ids [OF plan_ids_Action])
qed

text \<open>A completed plan has run its whole script.\<close>

definition ends_done :: "upd \<Rightarrow> bool" where
  "ends_done u \<longleftrightarrow> (\<forall>p \<in> set (up_plans u). pl_strategy p = PrimaryFirst \<longrightarrow> pl_status p = Completed \<longrightarrow>
     pl_cursor p = length (Steps p))"

lemma ends_done_cong: "up_plans v = up_plans u \<Longrightarrow> ends_done v = ends_done u"
  by (simp add: ends_done_def)

lemma ends_done_simps [simp]:
  "ends_done (update_steps P g u) = ends_done u" "ends_done (add_event i k u) = ends_done u"
  "ends_done (u\<lparr>up_baseline := b\<rparr>) = ends_done u" "ends_done (u\<lparr>up_revision := r\<rparr>) = ends_done u"
  "ends_done (u\<lparr>up_steps := ss\<rparr>) = ends_done u"
  by (simp_all add: ends_done_def)

lemma ends_done_update_plan:
  assumes "ends_done u" "\<And>p. p \<in> set (up_plans u) \<Longrightarrow> pl_id p = i \<Longrightarrow> pl_strategy (f p) = PrimaryFirst \<Longrightarrow>
      pl_status (f p) = Completed \<Longrightarrow> pl_cursor (f p) = length (Steps (f p))"
  shows "ends_done (update_plan i f u)"
  using assms by (auto simp: ends_done_def update_plan_def)

lemma ends_done_set_status: "ends_done u \<Longrightarrow> st \<noteq> Completed \<Longrightarrow> ends_done (update_plan i (set_status st m) u)"
  by (rule ends_done_update_plan) (simp_all add: set_status_def)

lemma ends_done_advance:
  assumes "journaled u" "ends_done u" "p \<in> set (up_plans u)" "pl_status p = Running"
  shows "ends_done (advance p u)"
  unfolding advance_def
proof (rule ends_done_update_plan [OF assms(2)])
  fix q assume "q \<in> set (up_plans u)" "pl_id q = pl_id p" and c: "pl_status (q\<lparr>pl_cursor := pl_cursor q + 1\<rparr>) = Completed"
  then have "q = p" using wf_plan_unique [OF assms(1) _ assms(3)] by simp
  then show "pl_cursor (q\<lparr>pl_cursor := pl_cursor q + 1\<rparr>) = length (Steps (q\<lparr>pl_cursor := pl_cursor q + 1\<rparr>))"
    using c assms(4) by simp
qed

lemma ends_done_complete:
  assumes wf: "journaled u" and d: "ends_done u" and p: "p \<in> set (up_plans u)" "length (Steps p) \<le> pl_cursor p"
    and c: "complete now p u = Inr v"
  shows "ends_done v"
proof -
  let ?f = "\<lambda>q::plan. q\<lparr>pl_status := Completed\<rparr>"
  have len: "pl_cursor p = length (Steps p)" if "pl_strategy p = PrimaryFirst"
    using wf p that by (auto simp: journaled_def journal_def)
  have "ends_done (update_plan (pl_id p) ?f w)" if w: "up_plans w = up_plans u" for w
  proof (rule ends_done_update_plan)
    show "ends_done w" using d ends_done_cong [OF w] by simp
    fix q assume q: "q \<in> set (up_plans w)" "pl_id q = pl_id p" and pf: "pl_strategy (?f q) = PrimaryFirst"
    have "q = p" using wf_plan_unique [OF wf _ p(1)] q w by simp
    then show "pl_cursor (?f q) = length (Steps (?f q))"
      using len pf Steps_cong [of "?f p" p] by (simp add: same_script_def)
  qed
  then show ?thesis using c by (auto simp: complete_def and_then_eq_Inr Let_def split: if_splits)
qed

lemma ends_done_Coordinate:
  assumes wf: "journaled u" and d: "ends_done u" and c: "Coordinate self now um u = Inr v"
  shows "ends_done v"
proof (cases "up_primary u = self")
  case False then show ?thesis using c d by (simp add: Coordinate_def)
next
  case True
  note c = c [unfolded Coordinate_def, folded True, simplified]
  show ?thesis
  proof (cases "List.find (\<lambda>p. pl_status p = Running) (up_plans u)")
    case None then show ?thesis using c d by simp
  next
    case (Some p)
    note p = find_running [OF Some]
    have "ends_done (advance p w)" if "journaled w" "ends_done w" "up_plans w = up_plans u" for w
      using ends_done_advance [of w p] that p by simp
    moreover have "journaled (update_steps (\<lambda>x. sp_plan x = pl_id p \<and> sp_id x = k) (\<lambda>x. x\<lparr>sp_status := StepDone, sp_error := []\<rparr>) u)" for k
      by (rule wf_update_steps [OF wf], rule keeps_rows_status) simp
    ultimately have "ends_done (issued_step now p st s u)" for st s
      using wf d by (simp add: issued_step_def)
    moreover have "ends_done w" if "issue_step p st u = Inr w" for st w
      using that d by (auto simp: issue_step_def Let_def ends_done_set_status split: if_splits option.splits)
    ultimately show ?thesis using c Some d p ends_done_complete [OF wf d]
      by (auto simp: Let_def and_then_eq_Inr ends_done_set_status split: if_splits option.splits)
  qed
qed

lemma ends_done_insert: "ends_done u \<Longrightarrow> insert_plan p u = Inr v \<Longrightarrow> pl_status p = Running \<Longrightarrow> ends_done v"
  by (auto simp: insert_plan_def ends_done_def split: if_splits)

lemma ends_done_finish: "ends_done u \<Longrightarrow> ends_done (finish_step s err u)"
  by (auto simp: finish_step_def Let_def set_status_def is_active_def ends_done_def update_plan_def)

lemma ends_done_claim: "ends_done u \<Longrightarrow> ends_done (snd (claim_step self u))"
  by (simp add: claim_step_def split: option.splits)

lemma ends_done_Action: "ends_done u \<Longrightarrow> Action i a u = Inr v \<Longrightarrow> ends_done v"
  by (auto simp: Action_def ends_done_set_status split: option.splits operator_action.splits if_splits)

lemma ends_done_create: "ends_done u \<Longrightarrow> createLocked now sv rel ext h i d r key u = Inr (k, v) \<Longrightarrow> ends_done v"
  by (auto simp: createLocked_def and_then_eq_Inr split: if_splits option.splits dest!: ends_done_insert [rotated])

lemma ends_done_rollback: "ends_done u \<Longrightarrow> rollbackWithBarrier rel ext pls n i u = Inr (k, v) \<Longrightarrow> ends_done v"
  by (auto simp: rollbackWithBarrier_def rollbackLocked_def and_then_eq_Inr Let_def ends_done_set_status
      split: if_splits option.splits dest!: ends_done_insert [rotated])

lemma ends_done_exec: "journaled u \<Longrightarrow> ends_done u \<Longrightarrow> ends_done (exec sv rel h e u)"
proof (cases "journal_event e")
  case True
  assume "journaled u" "ends_done u"
  with True show ?thesis
    by (cases e) (auto simp: journal_event_def commit_def ends_done_claim ends_done_finish split: sum.splits
        intro: ends_done_Coordinate ends_done_Action ends_done_create ends_done_rollback)
qed (metis ends_done_cong frame_exec)

lemma runs_invariant:
  assumes "journaled u" "Q u" "\<And>e w. journaled w \<Longrightarrow> Q w \<Longrightarrow> Q (exec sv rel h e w)"
  shows "Q (runs sv rel h es u)"
  using assms(1,2) by (induction es arbitrary: u) (simp_all add: runs_def wf_exec assms(3))

definition started_serially :: "upd \<Rightarrow> bool" where
  "started_serially u \<longleftrightarrow> (\<forall>i p. find_plan u i = Some p \<longrightarrow> pl_strategy p = PrimaryFirst \<longrightarrow>
     (serial (length (Steps p)))\<^sup>*\<^sup>* (0, Idle) (counter u p))"

lemma started_serially_exec:
  assumes wf: "journaled u" and st: "started_serially u"
  shows "started_serially (exec sv rel h e u)"
  unfolding started_serially_def
proof (intro allI impI)
  fix i q assume q: "find_plan (exec sv rel h e u) i = Some q" "pl_strategy q = PrimaryFirst"
  show "(serial (length (Steps q)))\<^sup>*\<^sup>* (0, Idle) (counter (exec sv rel h e u) q)"
  proof (cases "find_plan u i")
    case None
    then have "counter (exec sv rel h e u) q = (0, Idle)"
      using starts_fresh_exec [OF wf] q by (auto simp: starts_fresh_def)
    then show ?thesis by simp
  next
    case (Some p)
    have "follows u (exec sv rel h e u) i" by (rule follows_exec [OF wf])
    then have same: "same_script q p"
      and step: "(serial (length (Steps p)))\<^sup>*\<^sup>* (counter u p) (counter (exec sv rel h e u) q)"
      using Some q by (auto simp: follows_def)
    have "pl_strategy p = PrimaryFirst" using same q(2) by (simp add: same_script_def)
    then have "(serial (length (Steps p)))\<^sup>*\<^sup>* (0, Idle) (counter u p)"
      using st Some by (simp add: started_serially_def)
    from rtranclp_trans [OF this step] show ?thesis by (simp add: Steps_cong [OF same])
  qed
qed

text \<open>C10: Every plan refines a serial program over its script. Whatever the coordinator, the workers of all
  nodes, the operators and the node reports do and in whatever order, the plan's cursor and the row under
  it move only along the program: each command is issued once the counter stands on it, is finished
  before the counter moves on, and no command is skipped; one further event of any kind moves the plan
  only along the program again, with the same script; and a plan is completed only at the end of its
  script, with a finished row for every one of its commands.
\<close>

theorem rollout_refines_serial_program:
  assumes "blank u0" "u = runs sv rel h es u0" "find_plan u i = Some p" "pl_strategy p = PrimaryFirst"
  shows "(serial (length (Steps p)))\<^sup>*\<^sup>* (0, Idle) (counter u p) \<and>
    (\<exists>q. find_plan (exec sv rel h e u) i = Some q \<and> Steps q = Steps p \<and>
       (serial (length (Steps p)))\<^sup>*\<^sup>* (counter u p) (counter (exec sv rel h e u) q)) \<and>
    (pl_status p = Completed \<longrightarrow> (\<forall>k < length (Steps p). \<exists>s \<in> set (up_steps u). sp_plan s = i \<and> sp_id s = k \<and>
       cmd_of s = cmd_of (Steps p ! k) \<and> sp_status s = StepDone))"
proof (intro conjI impI)
  have wf0: "journaled u0" and wf: "journaled u" using assms(1,2) wf_blank wf_runs by blast+
  have p: "p \<in> set (up_plans u)" "pl_id p = i" using find_plan_some [OF assms(3)] by simp_all
  have "started_serially u0" using assms(1) by (simp add: started_serially_def find_plan_def blank_def)
  then have "started_serially u" unfolding assms(2)
    by (rule runs_invariant [OF wf0]) (rule started_serially_exec)
  then show "(serial (length (Steps p)))\<^sup>*\<^sup>* (0, Idle) (counter u p)"
    using assms(3,4) by (simp add: started_serially_def)
  show "\<exists>q. find_plan (exec sv rel h e u) i = Some q \<and> Steps q = Steps p \<and>
       (serial (length (Steps p)))\<^sup>*\<^sup>* (counter u p) (counter (exec sv rel h e u) q)"
    using follows_exec [OF wf, of sv rel h e i] assms(3) Steps_cong by (auto simp: follows_def)
  have "ends_done u0" using assms(1) by (simp add: ends_done_def blank_def)
  then have "ends_done u" unfolding assms(2)
    by (rule runs_invariant [OF wf0]) (rule ends_done_exec)
  moreover assume "pl_status p = Completed"
  ultimately have "pl_cursor p = length (Steps p)" using p(1) assms(4) by (simp add: ends_done_def)
  then show "\<forall>k < length (Steps p). \<exists>s \<in> set (up_steps u). sp_plan s = i \<and> sp_id s = k \<and>
       cmd_of s = cmd_of (Steps p ! k) \<and> sp_status s = StepDone"
    using earlier_step_done [OF wf p(1) assms(4)] p(2) by auto
qed

lemma demo_plan:
  "find_plan (demo_run demo_events demo_start) ''p'' \<noteq> None"
  "pl_strategy (the (find_plan (demo_run demo_events demo_start) ''p'')) = PrimaryFirst"
  by code_simp+

lemma rollout_refines_serial_program_witness:
  "\<exists>p. find_plan (demo_run demo_events demo_start) ''p'' = Some p \<and>
     (serial (length (Steps p)))\<^sup>*\<^sup>* (0, Idle) (counter (demo_run demo_events demo_start) p)"
proof -
  obtain p where p: "find_plan (demo_run demo_events demo_start) ''p'' = Some p" using demo_plan(1) by blast
  have "pl_strategy p = PrimaryFirst" using demo_plan(2) p by simp
  from rollout_refines_serial_program [OF demo_blank refl p this] p show ?thesis by blast
qed

end
