(* ===== verification/UpgradeNodes.thy ===== *)
theory UpgradeNodes
  imports UpgradeRollout
begin

section \<open>Nodes: restart, disabling and the primary\<close>

text \<open>
  What a restarted shell may run, what a disabled node does to an update, and whether the primary can
  be moved. The first rests on the journal; the others state branches the operators meet.
\<close>

subsection \<open>A restart runs only what the plan has released\<close>

lemma history_of_snoc [simp]: "history_of self (ss @ [s]) = note_step self s (history_of self ss)"
  by (simp add: history_of_def)

lemma history_local:
  "hi_local (history_of self ss) \<Longrightarrow> \<exists>as l bs. ss = as @ l # bs \<and> sp_node l = self \<and> sp_action l = Local \<and>
     sp_status l = StepDone \<and> (\<forall>s \<in> set bs. \<not> (sp_node s = self \<and> sp_action s = Stop))"
proof (induction ss rule: rev_induct)
  case Nil then show ?case by (simp add: history_of_def)
next
  case (snoc s ss)
  show ?case
  proof (cases "sp_node s = self \<and> sp_action s = Local")
    case True
    then have "sp_status s = StepDone" using snoc.prems by (auto simp: note_step_def Let_def split: if_splits)
    then show ?thesis using True by (intro exI [of _ ss] exI [of _ s] exI [of _ "[]"]) simp
  next
    case False
    then have "hi_local (history_of self ss)" and ns: "\<not> (sp_node s = self \<and> sp_action s = Stop)"
      using snoc.prems by (auto simp: note_step_def Let_def split: if_splits action.splits)
    then obtain as l bs where "ss = as @ l # bs" "sp_node l = self" "sp_action l = Local" "sp_status l = StepDone"
      "\<forall>t \<in> set bs. \<not> (sp_node t = self \<and> sp_action t = Stop)" using snoc.IH by blast
    then show ?thesis using ns by (intro exI [of _ as] exI [of _ l] exI [of _ "bs @ [s]"]) auto
  qed
qed

lemma set_plan_steps: "s \<in> set (plan_steps u i) \<longleftrightarrow> s \<in> set (up_steps u) \<and> sp_plan s = i"
  by (auto simp: plan_steps_def)

lemma Recover_start:
  assumes "RtStartStable d b c \<in> set (Recover self now ready red boot adm u)"
  shows "(active_plan u = None \<and> d = up_baseline u \<and> (b \<longrightarrow> boot \<and> \<not> adm \<and> self = up_primary u)) \<or>
    (\<exists>p. active_plan u = Some p \<and> pl_strategy p = PrimaryFirst \<and> d = pl_release p \<and> self \<in> set (pl_nodes p) \<and> \<not> b \<and>
       hi_local (history_of self (plan_steps u (pl_id p))))"
  using assms by (auto simp: Recover_def Let_def split: option.splits if_splits)

text \<open>C29: A shell that restarts its core outside a step starts only an authorised release, in every reachable
  state: without an active plan the completed baseline; with one, the plan's release, and then only if
  the plan is a primary-first plan, the node is a member, its own \<open>local\<close> command is done, and every
  stop the plan ever issued to it came before that command. A core the plan has stopped and not yet
  brought back is never restarted, and a migrating bootstrap start happens only on the primary, without
  an active plan, in a cluster that has never admitted a core.
\<close>

theorem restart_only_authorized_release:
  assumes u: "blank u0" "u = runs sv rel h es u0"
    and r: "RtStartStable d b c \<in> set (Recover self now ready red boot adm u)"
  shows "(active_plan u = None \<and> d = up_baseline u \<and> (b \<longrightarrow> self = up_primary u \<and> \<not> adm)) \<or>
    (\<exists>p. active_plan u = Some p \<and> pl_strategy p = PrimaryFirst \<and> d = pl_release p \<and> self \<in> set (pl_nodes p) \<and> \<not> b \<and>
      (\<exists>l \<in> set (up_steps u). sp_plan l = pl_id p \<and> sp_node l = self \<and> sp_action l = Local \<and> sp_status l = StepDone \<and>
        (\<forall>s \<in> set (up_steps u). sp_plan s = pl_id p \<and> sp_node s = self \<and> sp_action s = Stop \<longrightarrow> sp_id s < sp_id l)))"
proof -
  have wf: "journaled u" using u wf_blank wf_runs by blast
  have "\<exists>l \<in> set (up_steps u). sp_plan l = pl_id p \<and> sp_node l = self \<and> sp_action l = Local \<and> sp_status l = StepDone \<and>
      (\<forall>s \<in> set (up_steps u). sp_plan s = pl_id p \<and> sp_node s = self \<and> sp_action s = Stop \<longrightarrow> sp_id s < sp_id l)"
    if h: "hi_local (history_of self (plan_steps u (pl_id p)))" for p
  proof -
    obtain as l bs where sp: "plan_steps u (pl_id p) = as @ l # bs" and l: "sp_node l = self" "sp_action l = Local"
        "sp_status l = StepDone" and bs: "\<forall>s \<in> set bs. \<not> (sp_node s = self \<and> sp_action s = Stop)"
      using history_local [OF h] by blast
    have lu: "l \<in> set (up_steps u)" "sp_plan l = pl_id p" using set_plan_steps [of l u "pl_id p"] sp by auto
    have sorted: "sorted (map sp_id (as @ l # bs))" unfolding sp [symmetric] by (simp add: plan_steps_def)
    have "sp_id s < sp_id l" if s: "s \<in> set (up_steps u)" "sp_plan s = pl_id p" "sp_node s = self" "sp_action s = Stop" for s
    proof -
      have "s \<in> set as" using set_plan_steps [of s u "pl_id p"] sp s l bs by auto
      then have "sp_id s \<le> sp_id l" using sorted by (auto simp: sorted_append)
      moreover have "sp_id s \<noteq> sp_id l" using wf_step_unique [OF wf s(1) lu(1)] s l lu by auto
      ultimately show ?thesis by simp
    qed
    then show ?thesis using l lu by blast
  qed
  with Recover_start [OF r] show ?thesis by blast
qed

lemma restart_only_authorized_release_witness:
  "active_plan demo_start = None \<and> RtStartStable ''r1'' True True \<in> set (Recover ''a'' 0 False False True False demo_start)"
proof -
  have r: "RtStartStable ''r1'' True True \<in> set (Recover ''a'' 0 False False True False (demo_run [] demo_start))"
    by code_simp
  have "active_plan (demo_run [] demo_start) = None"
    using restart_only_authorized_release [OF demo_blank refl r] by blast
  then show ?thesis using r by (simp add: runs_def)
qed

subsection \<open>A disabled node stops every update\<close>

lemma set_primary_first [simp]: "set (primary_first q ns) = set ns"
  by (auto simp: primary_first_def)

lemma script_prepare: "k < length ns \<Longrightarrow> k < length (script ns) \<and> script ns ! k = (ns ! k, Prepare, [])"
proof -
  assume k: "k < length ns"
  obtain rest where "script ns = map (\<lambda>n. (n, Prepare, [])) ns @ rest"
    by (cases ns) (simp_all add: script_def)
  then show ?thesis using k by (simp add: nth_append)
qed

lemma created_plan:
  assumes c: "createLocked now sv rel ext h i d r key u = Inr (i, v)" and new: "\<forall>p \<in> set (up_plans u). pl_key p \<noteq> key"
  shows "\<exists>p. find_plan v i = Some p \<and> pl_nodes p = primary_first (up_primary u) (map nd_id (up_nodes u)) \<and>
    pl_strategy p = PrimaryFirst \<and> pl_id p = i"
proof -
  have "List.find (\<lambda>p. pl_key p = key) (up_plans u) = None" using new by (simp add: find_None_iff)
  then show ?thesis using c
    by (auto simp: createLocked_def and_then_eq_Inr Preflight_def Let_def insert_plan_def find_plan_def new_plan_def
        split: if_splits option.splits)
qed

text \<open>Disabled nodes are not excluded from plans. If an update is created while a registered node is
  disabled, the node is a member of the new plan, and once the cursor stands on its prepare command the
  coordinator pauses the plan instead of issuing it; resuming the plan leads to the same pause. The
  update cannot proceed while the node stays disabled.
\<close>

lemma disabled_node_stalls_every_plan:
  assumes c: "createLocked now sv rel ext h i d r key u = Inr (i, v)" "\<forall>p \<in> set (up_plans u). pl_key p \<noteq> key"
    and n: "n \<in> set (up_nodes u)" "\<not> nd_enabled n"
  shows "\<exists>p k. find_plan v i = Some p \<and> nd_id n \<in> set (pl_nodes p) \<and> k < length (Steps p) \<and>
    (\<forall>w q x now' um. List.find (\<lambda>p. pl_status p = Running) (up_plans w) = Some q \<and> same_script q p \<and>
        hd (pl_nodes q) = up_primary w \<and> pl_cursor q = k \<and> find_step w i k = None \<and>
        find_node w (nd_id n) = Some x \<and> \<not> nd_enabled x \<longrightarrow>
      Coordinate (up_primary w) now' um w =
        Inr (update_plan i (set_status Paused (''planned node is disabled: '' @ nd_id n)) w))"
proof -
  obtain p where p: "find_plan v i = Some p" "pl_nodes p = primary_first (up_primary u) (map nd_id (up_nodes u))"
      "pl_strategy p = PrimaryFirst" "pl_id p = i"
    using created_plan [OF c] by blast
  have mem: "nd_id n \<in> set (pl_nodes p)" using n p(2) by simp
  then obtain k where k: "k < length (pl_nodes p)" "pl_nodes p ! k = nd_id n" by (auto simp: in_set_conv_nth)
  have lt: "k < length (Steps p)" and st: "Steps p ! k = mk_step p k (nd_id n, Prepare, [])"
    using script_prepare [OF k(1)] k(2) p(3) by (auto simp: length_Steps nth_Steps)
  have "Coordinate (up_primary w) now' um w =
      Inr (update_plan i (set_status Paused (''planned node is disabled: '' @ nd_id n)) w)"
    if f: "List.find (\<lambda>p. pl_status p = Running) (up_plans w) = Some q" and q: "same_script q p"
        "hd (pl_nodes q) = up_primary w" "pl_cursor q = k" and s: "find_step w i k = None"
        and x: "find_node w (nd_id n) = Some x" "\<not> nd_enabled x" for w q x now' um
  proof -
    have S: "Steps q = Steps p" by (rule Steps_cong [OF q(1)])
    have qp: "pl_id q = i" "pl_strategy q = PrimaryFirst" "pl_nodes q \<noteq> []"
      using q(1) p(3,4) k(1) by (auto simp: same_script_def)
    show ?thesis
      using f q s x lt st qp by (simp add: Coordinate_def S issue_step_def Let_def)
  qed
  then show ?thesis using p(1) mem lt by blast
qed

definition demo_disabled :: upd where
  "demo_disabled = demo_start\<lparr>up_nodes := [demo_unode ''a'', (demo_unode ''b'')\<lparr>nd_enabled := False\<rparr>]\<rparr>"

definition demo_created :: upd where
  "demo_created = demo_run [EvCreate 0 [] ''p'' ''r2'' 1 ''k''] demo_disabled"

text \<open>The same cluster with \<open>b\<close> disabled: the plan contains \<open>b\<close>, and after \<open>a\<close> has prepared it pauses.\<close>

lemma disabled_node_stalls_every_plan_witness:
  "(\<exists>p. find_plan demo_created ''p'' = Some p \<and> ''b'' \<in> set (pl_nodes p)) \<and>
   map (\<lambda>p. (pl_status p, pl_cursor p)) (up_plans (demo_run (demo_step 0 ''a'' Prepare @ [EvCoordinate ''a'' 0 []]) demo_created)) =
     [(Paused, 1)]"
proof
  have c: "createLocked 0 (\<lambda>v. True) demo_releases [] (\<lambda>d r. d @ itoa r) ''p'' ''r2'' 1 ''k'' demo_disabled = Inr (''p'', demo_created)"
    by code_simp
  have new: "\<forall>p \<in> set (up_plans demo_disabled). pl_key p \<noteq> ''k''" by code_simp
  have n: "(demo_unode ''b'')\<lparr>nd_enabled := False\<rparr> \<in> set (up_nodes demo_disabled)" by code_simp
  have dis: "\<not> nd_enabled ((demo_unode ''b'')\<lparr>nd_enabled := False\<rparr>)" by simp
  show "\<exists>p. find_plan demo_created ''p'' = Some p \<and> ''b'' \<in> set (pl_nodes p)"
    using disabled_node_stalls_every_plan [OF c new n dis] by (auto simp: demo_unode_def)
  show "map (\<lambda>p. (pl_status p, pl_cursor p)) (up_plans (demo_run (demo_step 0 ''a'' Prepare @ [EvCoordinate ''a'' 0 []]) demo_created)) =
     [(Paused, 1)]" by code_simp
qed

subsection \<open>The primary cannot be moved\<close>

text \<open>\<open>SetPrimary\<close> refuses a node that meets everything it documents (registered, enabled, on the
  completed baseline, with the baseline's artifacts and every plugin package, no update active) whenever
  the baseline's digest is not the primary's id: it compares the node's release with the primary's id,
  the first result of \<open>ClusterState\<close>. If it succeeds at all, the node's release digest is the id of the
  primary.
\<close>

lemma primary_cannot_be_moved:
  assumes "active_plan u = None" "find_node u n = Some x" "nd_enabled x" "nd_release x = up_baseline u"
    "up_baseline u \<noteq> up_primary u"
  shows "SetPrimary artifacts packages n u = Inl ''node is not on baseline'' \<and>
    (\<forall>n v. SetPrimary artifacts packages n u = Inr v \<longrightarrow> (\<exists>y. find_node u n = Some y \<and> nd_release y = up_primary u))"
  using assms by (auto simp: SetPrimary_def ClusterState_def Let_def split: option.splits if_splits)

lemma primary_cannot_be_moved_witness:
  "SetPrimary (\<lambda>n d. True) (\<lambda>n. True) ''b'' demo_start = Inl ''node is not on baseline''"
proof -
  have "active_plan demo_start = None" "find_node demo_start ''b'' = Some (demo_unode ''b'')" "nd_enabled (demo_unode ''b'')"
    "nd_release (demo_unode ''b'') = up_baseline demo_start" "up_baseline demo_start \<noteq> up_primary demo_start"
    by code_simp+
  from primary_cannot_be_moved [OF this] show ?thesis by blast
qed

end
