(* ===== verification/Dispatch.thy ===== *)
theory Dispatch
  imports Prelude "HOL-Library.Multiset"
begin

section \<open>Choosing and trying accounts (\<open>gateway/dispatch.go\<close>, \<open>gateway/rank.go\<close>)\<close>

text \<open>
  \<open>dispatch\<close> tries the candidate accounts of a request one after the other. \<open>round\<close> holds what the outside
  world answers in one round of its loop: the limiter, the slots, the upstream. Slots, attempts and the
  writes of the sticky session are recorded in a trace. Weights and draws are rationals; the rounding of
  the code's 64-bit floats is not modelled.
\<close>

subsection \<open>Accounts and errors\<close>

record candidate =
  ar_id :: int
  ar_priority :: int
  ar_weight :: int
  ar_limited :: bool

record gw_error =
  ge_status :: int
  ge_record :: string

definition errTypeNoAccount :: string where "errTypeNoAccount = ''no_account''"
definition errTypeUpstream :: string where "errTypeUpstream = ''upstream_error''"
definition errTypeInvalidRequest :: string where "errTypeInvalidRequest = ''invalid_request''"
definition errTypeInternal :: string where "errTypeInternal = ''internal''"

definition rate_limited_error :: gw_error where
  "rate_limited_error = \<lparr>ge_status = 429, ge_record = errTypeNoAccount\<rparr>"

definition no_account_error :: gw_error where
  "no_account_error = \<lparr>ge_status = 503, ge_record = errTypeNoAccount\<rparr>"

definition limits_unavailable_error :: gw_error where
  "limits_unavailable_error = \<lparr>ge_status = 503, ge_record = errTypeInternal\<rparr>"

subsection \<open>The values ranking plugins leave (\<open>rank.go\<close>)\<close>

record rank_cand =
  rc_id :: int
  rc_priority :: int
  rc_weight :: int

definition maxRankPriority :: int where "maxRankPriority = 1000000"
definition maxRankWeight :: int where "maxRankWeight = 1000"
definition maxRankChanges :: nat where "maxRankChanges = 100"

definition normWeight :: "int \<Rightarrow> int" where
  "normWeight w = (if w \<le> 0 then 1 else if maxRankWeight < w then maxRankWeight else w)"

definition clampRank :: "int \<Rightarrow> int \<Rightarrow> int" where
  "clampRank v mx = (if v < 0 then 0 else if mx < v then mx else v)"

type_synonym ranker = "rank_cand list \<Rightarrow> (int \<times> int \<times> int) list option"

text \<open>One entry of a plugin's answer: account, priority, weight. The changes are kept for the record.\<close>

definition rank_entry :: "int \<times> int \<times> int \<Rightarrow> rank_cand list \<times> rank_cand list \<Rightarrow> rank_cand list \<times> rank_cand list" where
  "rank_entry e st =
     (case e of (i, p, w) \<Rightarrow> case st of (cs, changed) \<Rightarrow>
        (case List.find (\<lambda>c. rc_id c = i) cs of
           None \<Rightarrow> st
         | Some c \<Rightarrow>
             let c' = c\<lparr>rc_priority := clampRank p maxRankPriority, rc_weight := clampRank w maxRankWeight\<rparr> in
             if c' = c then st
             else (map (\<lambda>x. if rc_id x = i then c' else x) cs,
                   if length changed < maxRankChanges then changed @ [c'] else changed)))"

definition apply_ranker :: "ranker \<Rightarrow> rank_cand list \<times> rank_cand list list \<Rightarrow> rank_cand list \<times> rank_cand list list" where
  "apply_ranker r st =
     (case st of (cs, decisions) \<Rightarrow>
        (case r cs of
           None \<Rightarrow> st
         | Some es \<Rightarrow>
             (case fold rank_entry es (cs, []) of (cs', changed) \<Rightarrow>
                (cs', if changed \<noteq> [] then decisions @ [changed] else decisions))))"

definition rank_list :: "(int \<Rightarrow> bool) \<Rightarrow> candidate list \<Rightarrow> rank_cand list" where
  "rank_list usable cands =
     map (\<lambda>a. \<lparr>rc_id = ar_id a, rc_priority = min (max (ar_priority a) 0) maxRankPriority, rc_weight = normWeight (ar_weight a)\<rparr>)
       (filter (\<lambda>a. usable (ar_id a)) cands)"

text \<open>The overrides of a request; the empty list is \<open>nil\<close>.\<close>

definition run_rankers :: "(int \<Rightarrow> bool) \<Rightarrow> ranker list \<Rightarrow> candidate list \<Rightarrow> rank_cand list" where
  "run_rankers usable rs cands =
     (if rs = [] then []
      else
        let cs = rank_list usable cands in
        if cs = [] then []
        else (case fold apply_ranker rs (cs, []) of (out, decisions) \<Rightarrow>
          if decisions = [] then []
          else if \<not> (\<exists>c \<in> set out. 0 < rc_weight c) then []
          else out))"

subsection \<open>Weighted order\<close>

definition eff_weight :: "candidate \<Rightarrow> rat" where
  "eff_weight a = (if ar_weight a \<le> 0 then 1 else of_int (ar_weight a))"

fun draw :: "rat \<Rightarrow> rat list \<Rightarrow> nat" where
  "draw r [] = 0"
| "draw r [w] = 0"
| "draw r (w # v # ws) = (if r - w < 0 then 0 else Suc (draw (r - w) (v # ws)))"

text \<open>The element at \<open>j\<close> is swapped to the front.\<close>

definition swap_front :: "nat \<Rightarrow> 'a list \<Rightarrow> 'a \<times> 'a list" where
  "swap_front j xs = (case xs of [] \<Rightarrow> undefined
     | x # ys \<Rightarrow> if j = 0 then (x, ys) else (ys ! (j - 1), ys[j - 1 := x]))"

fun weighted_from :: "nat \<Rightarrow> (nat \<Rightarrow> rat) \<Rightarrow> nat \<Rightarrow> candidate list \<Rightarrow> candidate list" where
  "weighted_from 0 rnd k grp = grp"
| "weighted_from (Suc n) rnd k grp =
     (if length grp \<le> 1 then grp
      else
        let ws = map eff_weight grp in
        case swap_front (draw (rnd k * sum_list ws) ws) grp of
          (x, rest) \<Rightarrow> x # weighted_from n rnd (Suc k) rest)"

definition weightedOrder :: "(nat \<Rightarrow> rat) \<Rightarrow> nat \<Rightarrow> candidate list \<Rightarrow> candidate list" where
  "weightedOrder rnd k grp = weighted_from (length grp) rnd k grp"

lemma draw_less: "ws \<noteq> [] \<Longrightarrow> draw r ws < length ws"
  by (induction r ws rule: draw.induct) auto

lemma mset_swap_front:
  assumes "j < length xs" "swap_front j xs = (x, ys)"
  shows "mset xs = add_mset x (mset ys)" "length ys < length xs"
proof -
  obtain z zs where xs: "xs = z # zs" using assms(1) by (cases xs) auto
  show "mset xs = add_mset x (mset ys)"
  proof (cases j)
    case 0 then show ?thesis using assms xs by (simp add: swap_front_def)
  next
    case (Suc i)
    then have i: "i < length zs" and x: "x = zs ! i" "ys = zs[i := z]" using assms xs by (auto simp: swap_front_def)
    have "mset (zs[i := z]) = add_mset z (mset zs - {#zs ! i#})" using i by (rule mset_update)
    then show ?thesis using i x xs by simp
  qed
  show "length ys < length xs" using assms xs by (auto simp: swap_front_def split: if_splits)
qed

lemma mset_weighted_from: "mset (weighted_from n rnd k grp) = mset grp"
proof (induction n arbitrary: k grp)
  case (Suc n)
  show ?case
  proof (cases "length grp \<le> 1")
    case False
    let ?ws = "map eff_weight grp"
    obtain x rest where s: "swap_front (draw (rnd k * sum_list ?ws) ?ws) grp = (x, rest)" by fastforce
    have "?ws \<noteq> []" using False by auto
    then have "draw (rnd k * sum_list ?ws) ?ws < length grp" by (metis draw_less length_map)
    from mset_swap_front(1) [OF this s] show ?thesis using False s Suc by (simp add: Let_def)
  qed simp
qed simp

lemma mset_weightedOrder [simp]: "mset (weightedOrder rnd k grp) = mset grp"
  by (simp add: weightedOrder_def mset_weighted_from)

text \<open>Runs of equal priority, each in weighted order; the draws are consumed one after the other.\<close>

function order_groups :: "(nat \<Rightarrow> rat) \<Rightarrow> nat \<Rightarrow> candidate list \<Rightarrow> candidate list" where
  "order_groups rnd k [] = []"
| "order_groups rnd k (a # as) =
     (let same = (\<lambda>b. ar_priority b = ar_priority a);
          g = a # takeWhile same as
      in weightedOrder rnd k g @ order_groups rnd (k + length g - 1) (dropWhile same as))"
  by pat_completeness auto

termination order_groups
  by (relation "measure (\<lambda>(_, _, as). length as)") (auto simp: le_imp_less_Suc length_dropWhile_le)

lemma mset_order_groups: "mset (order_groups rnd k as) = mset as"
proof (induction rnd k as rule: order_groups.induct)
  case (2 rnd k a as)
  let ?same = "\<lambda>b. ar_priority b = ar_priority a"
  have "mset (takeWhile ?same as) + mset (dropWhile ?same as) = mset as"
    by (metis mset_append takeWhile_dropWhile_id)
  then show ?case using 2 by (simp add: Let_def)
qed simp

lemma set_order_groups [simp]: "set (order_groups rnd k as) = set as"
  by (metis mset_order_groups set_mset_mset)

lemma sorted_const: "\<forall>b \<in> set xs. f b = (p :: int) \<Longrightarrow> sorted (map f xs)"
  by (induction xs) auto

lemma takeWhile_const: "b \<in> set (takeWhile (\<lambda>b. f b = p) as) \<Longrightarrow> f b = p"
  by (induction as) (auto split: if_splits)

lemma order_groups_sorted:
  "sorted (map ar_priority as) \<Longrightarrow> sorted (map ar_priority (order_groups rnd k as))"
proof (induction rnd k as rule: order_groups.induct)
  case (2 rnd k a as)
  define p where "p = ar_priority a"
  let ?same = "\<lambda>b. ar_priority b = p"
  let ?g = "a # takeWhile ?same as"
  let ?r = "order_groups rnd (k + length ?g - 1) (dropWhile ?same as)"
  have "set (weightedOrder rnd k ?g) = set ?g" by (metis mset_weightedOrder set_mset_mset)
  then have g: "\<forall>b \<in> set (weightedOrder rnd k ?g). ar_priority b = p"
    using takeWhile_const [of _ ar_priority p as] by (metis p_def set_ConsD)
  have "dropWhile ?same as = drop (length (takeWhile ?same as)) as" by (rule dropWhile_eq_drop)
  then have "sorted (map ar_priority (dropWhile ?same as))"
    using 2(2) by (metis drop_map list.simps(9) sorted_wrt_drop sorted_simps(2))
  then have s2: "sorted (map ar_priority ?r)" using 2(1) by (simp add: p_def)
  have ge: "\<forall>b \<in> set ?r. p \<le> ar_priority b"
    using 2(2) set_dropWhileD [of _ ?same as] by (simp add: p_def)
  have "order_groups rnd k (a # as) = weightedOrder rnd k ?g @ ?r" by (simp add: Let_def p_def)
  then show ?case using sorted_const [OF g] s2 g ge by (simp add: sorted_append)
qed simp

subsection \<open>Picking the next account\<close>

record sticky =
  st_stick :: bool
  st_bound :: int
  st_tried :: bool
  st_hit :: bool
  st_keep :: bool

datatype attempt_kind = AttemptDone bool | AttemptFailover gw_error | AttemptReturn gw_error | AttemptCanceled gw_error

text \<open>
  The answers of one round: the limiter's list, which account types can still serve the request, the
  ranking plugins, the random draws, which slots are free, whether the bound account cools down
  (\<open>None\<close> is an error), \<open>TryHit\<close>, and the attempt on an account.
\<close>

record round =
  rd_exhausted :: "int \<Rightarrow> bool"
  rd_usable :: "int \<Rightarrow> bool"
  rd_rankers :: "ranker list"
  rd_rnd :: "nat \<Rightarrow> rat"
  rd_slot :: "int \<Rightarrow> bool"
  rd_cooling :: "bool option"
  rd_hit :: "bool option"
  rd_attempt :: "int \<Rightarrow> attempt_kind"

text \<open>What the request keeps between rounds for choosing: the sticky session and the ranks.\<close>

record chooser =
  ch_sticky :: "sticky option"
  ch_rank_done :: bool
  ch_ranked :: "rank_cand list"

definition exhausted :: "round \<Rightarrow> candidate list \<Rightarrow> int list \<Rightarrow> int \<Rightarrow> bool" where
  "exhausted rd cands excluded i \<longleftrightarrow>
     (\<exists>a \<in> set cands. ar_id a = i \<and> ar_limited a \<and> i \<notin> set excluded) \<and> rd_exhausted rd i"

definition rankOverrides :: "round \<Rightarrow> candidate list \<Rightarrow> chooser \<Rightarrow> rank_cand list \<times> chooser" where
  "rankOverrides rd cands ch =
     (if (case ch_sticky ch of None \<Rightarrow> False | Some s \<Rightarrow> st_hit s) then ([], ch)
      else if ch_rank_done ch then (ch_ranked ch, ch)
      else let out = run_rankers (rd_usable rd) (rd_rankers rd) cands in (out, ch\<lparr>ch_rank_done := True, ch_ranked := out\<rparr>))"

definition dropBinding :: "sticky \<Rightarrow> sticky" where
  "dropBinding s = (if st_keep s then s else s\<lparr>st_bound := 0\<rparr>)"

text \<open>The sticky part of \<open>pick\<close>: the bound account if it can be used, and the session afterwards.\<close>

definition pick_bound :: "round \<Rightarrow> candidate list \<Rightarrow> int list \<Rightarrow> sticky option \<Rightarrow> candidate option \<times> sticky option" where
  "pick_bound rd cands excluded so =
     (case so of
        None \<Rightarrow> (None, None)
      | Some s \<Rightarrow>
          if st_tried s then (None, Some s)
          else
            let s = s\<lparr>st_tried := True\<rparr> in
            if st_bound s = 0 \<or> st_bound s \<in> set excluded then (None, Some s)
            else (case List.find (\<lambda>a. ar_id a = st_bound s) cands of
                Some a \<Rightarrow>
                  if rd_usable rd (ar_id a) \<and> \<not> exhausted rd cands excluded (ar_id a) \<and> rd_slot rd (ar_id a)
                  then (Some a, Some (s\<lparr>st_hit := True\<rparr>)) else (None, Some s)
              | None \<Rightarrow> (None, Some (if rd_cooling rd = Some False then dropBinding s else s))))"

definition overridden :: "rank_cand list \<Rightarrow> candidate \<Rightarrow> candidate option" where
  "overridden over a =
     (case List.find (\<lambda>c. rc_id c = ar_id a) over of
        None \<Rightarrow> Some a
      | Some c \<Rightarrow> if rc_weight c = 0 then None else Some (a\<lparr>ar_priority := rc_priority c, ar_weight := rc_weight c\<rparr>))"

definition open_cands :: "round \<Rightarrow> candidate list \<Rightarrow> int list \<Rightarrow> candidate list" where
  "open_cands rd cands excluded = filter (\<lambda>a. ar_id a \<notin> set excluded \<and> rd_usable rd (ar_id a)) cands"

definition pool_of :: "round \<Rightarrow> candidate list \<Rightarrow> int list \<Rightarrow> rank_cand list \<Rightarrow> candidate list" where
  "pool_of rd cands excluded over =
     List.map_filter (overridden over) (filter (\<lambda>a. \<not> exhausted rd cands excluded (ar_id a)) (open_cands rd cands excluded))"

text \<open>The account with its slot, whether all were busy, and the chooser afterwards.\<close>

definition pick :: "round \<Rightarrow> candidate list \<Rightarrow> int list \<Rightarrow> chooser \<Rightarrow> candidate option \<times> bool \<times> chooser" where
  "pick rd cands excluded ch =
     (case pick_bound rd cands excluded (ch_sticky ch) of
        (Some a, so) \<Rightarrow> (Some a, False, ch\<lparr>ch_sticky := so\<rparr>)
      | (None, so) \<Rightarrow>
          (case rankOverrides rd cands (ch\<lparr>ch_sticky := so\<rparr>) of (over, ch) \<Rightarrow>
             let pool = pool_of rd cands excluded over;
                 limited = (\<exists>a \<in> set (open_cands rd cands excluded). exhausted rd cands excluded (ar_id a)) in
             if pool = [] then (None, limited, ch)
             else (case List.find (\<lambda>a. rd_slot rd (ar_id a)) (order_groups (rd_rnd rd) 0 (sort_key ar_priority pool)) of
                 Some a \<Rightarrow> (Some a, False, ch)
               | None \<Rightarrow> (None, True, ch))))"

lemma overridden_id: "overridden over a = Some b \<Longrightarrow> ar_id b = ar_id a"
  by (auto simp: overridden_def split: option.splits if_splits)

lemma pool_of_cand:
  assumes "a \<in> set (pool_of rd cands excluded over)"
  shows "ar_id a \<in> ar_id ` set cands \<and> ar_id a \<notin> set excluded \<and> rd_usable rd (ar_id a)"
proof -
  obtain c where "c \<in> set cands" "ar_id c \<notin> set excluded" "rd_usable rd (ar_id c)" "overridden over c = Some a"
    using assms by (auto simp: pool_of_def open_cands_def map_filter_def)
  then show ?thesis by (metis imageI overridden_id)
qed

lemma pick_bound_cand:
  "pick_bound rd cands excluded so = (Some a, so') \<Longrightarrow>
     a \<in> set cands \<and> ar_id a \<notin> set excluded \<and> rd_usable rd (ar_id a) \<and> rd_slot rd (ar_id a)"
  by (auto simp: pick_bound_def Let_def split: option.splits if_splits dest!: find_SomeD)

lemma pick_cand:
  assumes "pick rd cands excluded ch = (Some a, b, ch')"
  shows "ar_id a \<in> ar_id ` set cands \<and> ar_id a \<notin> set excluded \<and> rd_usable rd (ar_id a) \<and> rd_slot rd (ar_id a)"
proof (cases "fst (pick_bound rd cands excluded (ch_sticky ch))")
  case (Some c)
  then obtain so where pb: "pick_bound rd cands excluded (ch_sticky ch) = (Some c, so)" by (metis prod.collapse)
  then have "c = a" using assms by (simp add: pick_def)
  then show ?thesis using pick_bound_cand [OF pb] by simp
next
  case None
  then obtain so where pb: "pick_bound rd cands excluded (ch_sticky ch) = (None, so)" by (metis prod.collapse)
  obtain over ch2 where r: "rankOverrides rd cands (ch\<lparr>ch_sticky := so\<rparr>) = (over, ch2)" by fastforce
  let ?pool = "pool_of rd cands excluded over"
  have "List.find (\<lambda>a. rd_slot rd (ar_id a)) (order_groups (rd_rnd rd) 0 (sort_key ar_priority ?pool)) = Some a"
    using assms pb r by (auto simp: pick_def Let_def split: if_splits option.splits)
  from find_SomeD [OF this] have "a \<in> set ?pool" "rd_slot rd (ar_id a)" by simp_all
  then show ?thesis using pool_of_cand by blast
qed

lemma find_first: "List.find P xs = Some x \<Longrightarrow> \<exists>i < length xs. xs ! i = x \<and> P x \<and> (\<forall>j < i. \<not> P (xs ! j))"
  by (auto simp: find_Some_iff)

text \<open>Outside a sticky hit, no account with a free slot has a smaller priority value than the one picked.\<close>

lemma pick_prefers_priority:
  assumes "pick rd cands excluded ch = (Some a, b, ch')" "pick_bound rd cands excluded (ch_sticky ch) = (None, so)"
    "rankOverrides rd cands (ch\<lparr>ch_sticky := so\<rparr>) = (over, ch2)" "c \<in> set (pool_of rd cands excluded over)" "rd_slot rd (ar_id c)"
  shows "ar_priority a \<le> ar_priority c"
proof -
  let ?xs = "order_groups (rd_rnd rd) 0 (sort_key ar_priority (pool_of rd cands excluded over))"
  have "List.find (\<lambda>a. rd_slot rd (ar_id a)) ?xs = Some a"
    using assms(1-3) by (auto simp: pick_def Let_def split: if_splits option.splits)
  from find_first [OF this] obtain i where i: "i < length ?xs" "?xs ! i = a" "\<forall>j < i. \<not> rd_slot rd (ar_id (?xs ! j))" by blast
  have "c \<in> set ?xs" using assms(4) by simp
  then obtain j where j: "j < length ?xs" "?xs ! j = c" by (metis in_set_conv_nth)
  then have "i \<le> j" using i assms(5) by (metis linorder_not_less)
  moreover have "sorted (map ar_priority ?xs)" by (rule order_groups_sorted) simp
  ultimately show ?thesis using i j by (metis (no_types, lifting) length_map nth_map sorted_nth_mono)
qed

subsection \<open>The loop\<close>

datatype event_d = Acquired int | Released int | Attempt int nat | Hit_count | Miss_count | Bind int | Rebind

record dstate =
  ds_excluded :: "int list"
  ds_last :: "gw_error option"
  ds_attempts :: nat
  ds_chooser :: chooser
  ds_trace :: "event_d list"

datatype outcome = Served | Failed gw_error

definition finishSticky :: "sticky option \<Rightarrow> int \<Rightarrow> bool \<Rightarrow> event_d list" where
  "finishSticky so account success =
     (case so of None \<Rightarrow> []
      | Some s \<Rightarrow> (if st_hit s then Hit_count else Miss_count) #
          (if success \<and> 0 < account
           then Bind account # (if st_bound s \<noteq> 0 \<and> st_bound s \<noteq> account then [Rebind] else []) else []))"

definition finish_call :: "dstate \<Rightarrow> int \<Rightarrow> bool \<Rightarrow> dstate" where
  "finish_call d account success = d\<lparr>ds_trace := ds_trace d @ finishSticky (ch_sticky (ds_chooser d)) account success\<rparr>"

text \<open>After the loop: only answers of upstreams and rate limits are relayed.\<close>

definition give_up :: "dstate \<Rightarrow> dstate \<times> outcome" where
  "give_up d =
     (let e = (case ds_last d of
           None \<Rightarrow> no_account_error
         | Some e \<Rightarrow> if ge_record e \<noteq> errTypeUpstream \<and> ge_record e \<noteq> errTypeInvalidRequest \<and> ge_status e \<noteq> 429
             then no_account_error else e)
      in (finish_call d 0 False, Failed e))"

definition none_left :: "bool \<Rightarrow> dstate \<Rightarrow> dstate" where
  "none_left busy d = d\<lparr>ds_last := (case ds_last d of
       None \<Rightarrow> Some (if busy then rate_limited_error else no_account_error) | Some e \<Rightarrow> Some e)\<rparr>"

definition sticky_attempt :: "chooser \<Rightarrow> int \<Rightarrow> bool" where
  "sticky_attempt ch i \<longleftrightarrow> (case ch_sticky ch of None \<Rightarrow> False | Some s \<Rightarrow> st_hit s \<and> st_bound s = i)"

definition sticks :: "chooser \<Rightarrow> bool" where
  "sticks ch \<longleftrightarrow> (case ch_sticky ch of None \<Rightarrow> False | Some s \<Rightarrow> st_stick s)"

text \<open>The state once account \<open>i\<close> was acquired, tried and released.\<close>

definition tried :: "chooser \<Rightarrow> int \<Rightarrow> dstate \<Rightarrow> dstate" where
  "tried ch i d = d\<lparr>ds_chooser := ch, ds_attempts := Suc (ds_attempts d),
     ds_trace := ds_trace d @ [Acquired i, Attempt i (ds_attempts d), Released i]\<rparr>"

definition not_tried :: "chooser \<Rightarrow> int \<Rightarrow> dstate \<Rightarrow> dstate" where
  "not_tried ch i d = d\<lparr>ds_chooser := ch, ds_trace := ds_trace d @ [Acquired i, Released i]\<rparr>"

lemma pick_shrinks:
  assumes "(x, y) = pick rd cands excluded ch" "x = Some a"
  shows "card (ar_id ` set cands - insert (ar_id a) (set excluded)) < card (ar_id ` set cands - set excluded)"
proof -
  have "ar_id a \<in> ar_id ` set cands - set excluded"
    using pick_cand [of rd cands excluded ch a "fst y" "snd y"] assms by auto
  then have "card (ar_id ` set cands - set excluded - {ar_id a}) < card (ar_id ` set cands - set excluded)"
    by (intro card_Diff1_less) simp_all
  then show ?thesis by (subst Diff_insert)
qed

function dispatch_loop :: "(nat \<Rightarrow> round) \<Rightarrow> nat \<Rightarrow> candidate list \<Rightarrow> nat \<Rightarrow> dstate \<Rightarrow> dstate \<times> outcome" where
  "dispatch_loop env mx cands n d =
     (if mx \<le> ds_attempts d then give_up d
      else case pick (env n) cands (ds_excluded d) (ds_chooser d) of
        (None, busy, ch) \<Rightarrow> give_up (none_left busy (d\<lparr>ds_chooser := ch\<rparr>))
      | (Some a, _, ch) \<Rightarrow>
          (case rd_hit (env n) of
             None \<Rightarrow> (not_tried ch (ar_id a) d, Failed limits_unavailable_error)
           | Some False \<Rightarrow>
               dispatch_loop env mx cands (Suc n)
                 ((not_tried ch (ar_id a) d)\<lparr>ds_excluded := ar_id a # ds_excluded d, ds_last := Some rate_limited_error\<rparr>)
           | Some True \<Rightarrow>
               (case rd_attempt (env n) (ar_id a) of
                  AttemptDone success \<Rightarrow> (finish_call (tried ch (ar_id a) d) (ar_id a) success, Served)
                | AttemptReturn e \<Rightarrow> (finish_call (tried ch (ar_id a) d) (ar_id a) False, Failed e)
                | AttemptCanceled e \<Rightarrow> (finish_call (tried ch (ar_id a) d) (ar_id a) False, Failed e)
                | AttemptFailover e \<Rightarrow>
                    if sticky_attempt ch (ar_id a) \<and> sticks ch
                    then (finish_call (tried ch (ar_id a) d) (ar_id a) False, Failed e)
                    else dispatch_loop env mx cands (Suc n)
                      ((tried ch (ar_id a) d)\<lparr>ds_excluded := ar_id a # ds_excluded d, ds_last := Some e\<rparr>))))"
  by pat_completeness auto

termination dispatch_loop
proof (relation "measure (\<lambda>(_, _, cands, _, d). card (ar_id ` set cands - set (ds_excluded d)))", goal_cases)
  case 1 then show ?case by simp
next
  case 2 from pick_shrinks [OF 2(2,3)] show ?case by (simp add: not_tried_def)
next
  case 3 from pick_shrinks [OF 3(2,3)] show ?case by (simp add: tried_def)
qed

declare dispatch_loop.simps [simp del]

text \<open>An attempt on an account is an answer of its round. In it the code may also disable the account and then drop a
  binding to it (\<open>autoDisableAccount\<close>); that write is part of the attempt and not in the trace.\<close>

definition dispatch :: "(nat \<Rightarrow> round) \<Rightarrow> nat \<Rightarrow> candidate list \<Rightarrow> sticky option \<Rightarrow> dstate \<times> outcome" where
  "dispatch env mx cands so = dispatch_loop env mx cands 0 \<lparr>ds_excluded = [], ds_last = None, ds_attempts = 0,
     ds_chooser = \<lparr>ch_sticky = so, ch_rank_done = False, ch_ranked = []\<rparr>, ds_trace = []\<rparr>"

subsection \<open>What every dispatch respects\<close>

definition attempted :: "event_d list \<Rightarrow> int list" where
  "attempted tr = List.map_filter (\<lambda>e. case e of Attempt i _ \<Rightarrow> Some i | _ \<Rightarrow> None) tr"

lemma attempted_append [simp]: "attempted (xs @ ys) = attempted xs @ attempted ys"
  by (simp add: attempted_def map_filter_def)

lemma attempted_simps [simp]:
  "attempted [] = []" "attempted (Attempt i k # es) = i # attempted es" "attempted (Acquired i # es) = attempted es"
  "attempted (Released i # es) = attempted es" "attempted (Hit_count # es) = attempted es"
  "attempted (Miss_count # es) = attempted es" "attempted (Bind i # es) = attempted es" "attempted (Rebind # es) = attempted es"
  by (simp_all add: attempted_def map_filter_def)

text \<open>The slot held after a trace; \<open>None\<close> outside when the discipline is broken.\<close>

fun slot_run :: "int option \<Rightarrow> event_d list \<Rightarrow> int option option" where
  "slot_run h [] = Some h"
| "slot_run h (Acquired i # es) = (if h = None then slot_run (Some i) es else None)"
| "slot_run h (Attempt i k # es) = (if h = Some i then slot_run h es else None)"
| "slot_run h (Released i # es) = (if h = Some i then slot_run None es else None)"
| "slot_run h (e # es) = slot_run h es"

lemma slot_run_append [simp]: "slot_run h (xs @ ys) = Option.bind (slot_run h xs) (\<lambda>h. slot_run h ys)"
  by (induction h xs rule: slot_run.induct) auto

lemma finishSticky_quiet [simp]: "slot_run h (finishSticky so i b) = Some h" "attempted (finishSticky so i b) = []"
  by (auto simp: finishSticky_def split: option.splits)

definition respects_limits :: "nat \<Rightarrow> candidate list \<Rightarrow> dstate \<Rightarrow> bool" where
  "respects_limits mx cands d \<longleftrightarrow> distinct (attempted (ds_trace d)) \<and> set (attempted (ds_trace d)) \<subseteq> ar_id ` set cands \<and>
     length (attempted (ds_trace d)) = ds_attempts d \<and> ds_attempts d \<le> mx \<and> slot_run None (ds_trace d) = Some None"

text \<open>A sticking session's account that was tried as a hit is the only account tried.\<close>

definition sticks_to :: "dstate \<Rightarrow> bool" where
  "sticks_to d \<longleftrightarrow> (\<forall>s. ch_sticky (ds_chooser d) = Some s \<longrightarrow> st_hit s \<longrightarrow> st_stick s \<longrightarrow>
     st_bound s \<in> set (attempted (ds_trace d)) \<longrightarrow> attempted (ds_trace d) = [st_bound s])"

text \<open>Between two rounds a sticking hit has not been tried, and nothing was tried before the binding.\<close>

definition between :: "dstate \<Rightarrow> bool" where
  "between d \<longleftrightarrow> set (attempted (ds_trace d)) \<subseteq> set (ds_excluded d) \<and>
     (\<forall>s. ch_sticky (ds_chooser d) = Some s \<longrightarrow> (\<not> st_tried s \<longrightarrow> ds_trace d = [] \<and> \<not> st_hit s) \<and>
        (st_hit s \<longrightarrow> st_stick s \<longrightarrow> st_bound s \<notin> set (attempted (ds_trace d)) \<and> st_bound s \<in> set (ds_excluded d)))"

lemma rankOverrides_sticky: "rankOverrides rd cands ch = (over, ch') \<Longrightarrow> ch_sticky ch' = ch_sticky ch"
  by (auto simp: rankOverrides_def Let_def split: if_splits)

lemma pick_sticky:
  assumes "pick rd cands excluded ch = (ao, b, ch')"
  shows "ch_sticky ch' = snd (pick_bound rd cands excluded (ch_sticky ch)) \<and>
    (\<forall>a. fst (pick_bound rd cands excluded (ch_sticky ch)) = Some a \<longrightarrow> ao = Some a)"
  using assms
  by (auto simp: pick_def Let_def split: prod.splits option.splits if_splits dest!: rankOverrides_sticky)

lemma pick_bound_sticky:
  assumes "pick_bound rd cands excluded so = (ao, so')" "so' = Some s'"
  obtains s where "so = Some s" "st_tried s'" "st_stick s' = st_stick s"
    "ao = None \<Longrightarrow> st_hit s' = st_hit s" "st_tried s \<Longrightarrow> s' = s \<and> ao = None"
    "\<And>a. ao = Some a \<Longrightarrow> \<not> st_tried s \<and> st_bound s' = ar_id a"
proof -
  obtain s where s: "so = Some s" using assms by (cases so) (auto simp: pick_bound_def)
  show thesis
  proof (rule that [OF s])
    show "st_tried s'" "st_stick s' = st_stick s" "ao = None \<Longrightarrow> st_hit s' = st_hit s" "st_tried s \<Longrightarrow> s' = s \<and> ao = None"
      "\<And>a. ao = Some a \<Longrightarrow> \<not> st_tried s \<and> st_bound s' = ar_id a"
      using assms s by (auto simp: pick_bound_def dropBinding_def Let_def split: if_splits option.splits dest!: find_SomeD)
  qed
qed

lemma attempted_tried [simp]:
  "attempted (ds_trace (tried ch i d)) = attempted (ds_trace d) @ [i]"
  "attempted (ds_trace (not_tried ch i d)) = attempted (ds_trace d)"
  "ds_chooser (tried ch i d) = ch" "ds_chooser (not_tried ch i d) = ch"
  "ds_attempts (tried ch i d) = Suc (ds_attempts d)" "ds_attempts (not_tried ch i d) = ds_attempts d"
  "slot_run None (ds_trace d) = Some None \<Longrightarrow> slot_run None (ds_trace (tried ch i d)) = Some None"
  "slot_run None (ds_trace d) = Some None \<Longrightarrow> slot_run None (ds_trace (not_tried ch i d)) = Some None"
  by (simp_all add: tried_def not_tried_def)

lemma finish_call_frame [simp]:
  "respects_limits mx cands (finish_call d i b) = respects_limits mx cands d" "sticks_to (finish_call d i b) = sticks_to d"
  by (auto simp: respects_limits_def sticks_to_def finish_call_def bind_eq_Some_conv)

lemma give_up_frame:
  "respects_limits mx cands (fst (give_up d)) = respects_limits mx cands d" "sticks_to (fst (give_up d)) = sticks_to d"
  by (simp_all add: give_up_def Let_def)

text \<open>One round, from a state between rounds: what holds after a refused account and after a tried one.\<close>

lemma round_sticky:
  assumes b: "between d" and p: "pick rd cands (ds_excluded d) (ds_chooser d) = (Some a, w, ch)"
    and s: "ch_sticky ch = Some s"
  shows "st_tried s" "st_hit s \<Longrightarrow> st_stick s \<Longrightarrow> st_bound s \<notin> set (attempted (ds_trace d))"
    "st_hit s \<Longrightarrow> st_stick s \<Longrightarrow> st_bound s \<in> insert (ar_id a) (set (ds_excluded d))"
    "st_hit s \<Longrightarrow> st_stick s \<Longrightarrow> st_bound s = ar_id a \<Longrightarrow> attempted (ds_trace d) = []"
proof -
  obtain ao so where pb: "pick_bound rd cands (ds_excluded d) (ch_sticky (ds_chooser d)) = (ao, so)" by fastforce
  have so: "so = Some s" and ao: "\<And>x. ao = Some x \<Longrightarrow> x = a" using pick_sticky [OF p] pb s by auto
  obtain s0 where s0: "ch_sticky (ds_chooser d) = Some s0" "st_tried s" "st_stick s = st_stick s0"
    "ao = None \<Longrightarrow> st_hit s = st_hit s0" "st_tried s0 \<Longrightarrow> s = s0 \<and> ao = None"
    "\<And>x. ao = Some x \<Longrightarrow> \<not> st_tried s0 \<and> st_bound s = ar_id x"
    using pick_bound_sticky [OF pb so] by metis
  have old: "\<not> st_tried s0 \<Longrightarrow> ds_trace d = [] \<and> \<not> st_hit s0"
    "st_hit s0 \<Longrightarrow> st_stick s0 \<Longrightarrow> st_bound s0 \<notin> set (attempted (ds_trace d)) \<and> st_bound s0 \<in> set (ds_excluded d)"
    using b s0(1) by (auto simp: between_def)
  have "ar_id a \<notin> set (ds_excluded d)" using pick_cand [OF p] by simp
  note facts = s0 old ao this
  show "st_tried s" by (rule s0(2))
  show "st_bound s \<notin> set (attempted (ds_trace d))" if "st_hit s" "st_stick s"
    using facts that by (cases "st_tried s0"; cases ao) auto
  show "st_bound s \<in> insert (ar_id a) (set (ds_excluded d))" if "st_hit s" "st_stick s"
    using facts that by (cases "st_tried s0"; cases ao) auto
  show "attempted (ds_trace d) = []" if "st_hit s" "st_stick s" "st_bound s = ar_id a"
    using facts that by (cases "st_tried s0"; cases ao) auto
qed

lemma round_tried:
  assumes b: "between d" and r: "respects_limits mx cands d" and lt: "ds_attempts d < mx"
    and p: "pick rd cands (ds_excluded d) (ds_chooser d) = (Some a, w, ch)"
  shows "respects_limits mx cands (tried ch (ar_id a) d)" "respects_limits mx cands (not_tried ch (ar_id a) d)"
    "sticks_to (tried ch (ar_id a) d)" "sticks_to (not_tried ch (ar_id a) d)"
    "between ((not_tried ch (ar_id a) d)\<lparr>ds_excluded := ar_id a # ds_excluded d, ds_last := e\<rparr>)"
    "\<not> (sticky_attempt ch (ar_id a) \<and> sticks ch) \<Longrightarrow>
       between ((tried ch (ar_id a) d)\<lparr>ds_excluded := ar_id a # ds_excluded d, ds_last := e\<rparr>)"
proof -
  note c = pick_cand [OF p]
  have sub: "set (attempted (ds_trace d)) \<subseteq> set (ds_excluded d)" using b by (simp add: between_def)
  then show "respects_limits mx cands (tried ch (ar_id a) d)" "respects_limits mx cands (not_tried ch (ar_id a) d)"
    using r c lt by (auto simp: respects_limits_def)
  note st = round_sticky [OF b p]
  show "sticks_to (tried ch (ar_id a) d)" "sticks_to (not_tried ch (ar_id a) d)"
    unfolding sticks_to_def attempted_tried using st by auto
  show "between ((not_tried ch (ar_id a) d)\<lparr>ds_excluded := ar_id a # ds_excluded d, ds_last := e\<rparr>)"
    using sub st by (fastforce simp: between_def not_tried_def)
  assume "\<not> (sticky_attempt ch (ar_id a) \<and> sticks ch)"
  then have "st_bound s \<noteq> ar_id a" if "ch_sticky ch = Some s" "st_hit s" "st_stick s" for s
    using that by (auto simp: sticky_attempt_def sticks_def)
  then show "between ((tried ch (ar_id a) d)\<lparr>ds_excluded := ar_id a # ds_excluded d, ds_last := e\<rparr>)"
    using sub st by (fastforce simp: between_def tried_def)
qed

lemma frame_update [simp]:
  "respects_limits mx cands (d\<lparr>ds_excluded := x, ds_last := e\<rparr>) = respects_limits mx cands d"
  "respects_limits mx cands (none_left w (d\<lparr>ds_chooser := ch\<rparr>)) = respects_limits mx cands d"
  by (simp_all add: respects_limits_def none_left_def)

lemma between_sticks: "between d \<Longrightarrow> sticks_to d"
  by (auto simp: between_def sticks_to_def)

lemma sticks_none_left:
  assumes b: "between d" and p: "pick rd cands (ds_excluded d) (ds_chooser d) = (None, w, ch)"
  shows "sticks_to (none_left w (d\<lparr>ds_chooser := ch\<rparr>))"
proof -
  have "st_bound s \<notin> set (attempted (ds_trace d))" if s: "ch_sticky ch = Some s" "st_hit s" "st_stick s" for s
  proof -
    obtain ao so where pb: "pick_bound rd cands (ds_excluded d) (ch_sticky (ds_chooser d)) = (ao, so)" by fastforce
    have so: "so = Some s" and ao: "ao = None" using pick_sticky [OF p] pb s(1) by (auto dest!: sym [of _ "ao"] split: option.splits)
    obtain s0 where s0: "ch_sticky (ds_chooser d) = Some s0" "st_stick s = st_stick s0" "st_hit s = st_hit s0" "st_tried s0 \<Longrightarrow> s = s0"
      using pick_bound_sticky [OF pb so] ao by metis
    then show ?thesis using b s by (cases "st_tried s0") (auto simp: between_def)
  qed
  then show ?thesis by (auto simp: sticks_to_def none_left_def)
qed

lemma dispatch_loop_respects:
  "between d \<Longrightarrow> respects_limits mx cands d \<Longrightarrow>
     respects_limits mx cands (fst (dispatch_loop env mx cands n d)) \<and> sticks_to (fst (dispatch_loop env mx cands n d))"
proof (induction env mx cands n d rule: dispatch_loop.induct)
  case (1 env mx cands n d)
  show ?case
  proof (cases "mx \<le> ds_attempts d")
    case True
    then show ?thesis using 1(3,4) by (simp add: dispatch_loop.simps [of env mx cands n d] give_up_frame between_sticks)
  next
    case False
    obtain ao w ch where p: "pick (env n) cands (ds_excluded d) (ds_chooser d) = (ao, w, ch)"
      by (cases "pick (env n) cands (ds_excluded d) (ds_chooser d)") auto
    show ?thesis
    proof (cases ao)
      case None
      then show ?thesis using False p sticks_none_left [OF 1(3)] 1(4)
        by (simp add: dispatch_loop.simps [of env mx cands n d] give_up_frame)
    next
      case (Some a)
      note p' = p [unfolded Some]
      note r = round_tried [OF 1(3,4) _ p']
      have lt: "ds_attempts d < mx" using False by simp
      note IH = 1(1,2) [OF False p' [symmetric] refl refl]
      show ?thesis
        using False p' r [OF lt] IH
        by (auto simp: dispatch_loop.simps [of env mx cands n d] split: option.splits bool.splits attempt_kind.splits)
    qed
  qed
qed

text \<open>The session as \<open>resolveSticky\<close> hands it to the request.\<close>

definition fresh_session :: "sticky option \<Rightarrow> bool" where
  "fresh_session so \<longleftrightarrow> (case so of None \<Rightarrow> True | Some s \<Rightarrow> \<not> st_tried s \<and> \<not> st_hit s)"

text \<open>C24: Whatever the limiter, the slots, the ranking plugins, the random draws and the upstreams answer,
  dispatch ends after trying each account at most once, only candidate accounts, and at most
  \<open>max_attempts\<close> of them; it holds at most one slot at a time, tries an account only while holding its
  slot, and has released every slot it acquired. When the rule says to stick and the bound account was
  tried as the session's hit, no other account was tried; a bound account that is exhausted or busy is no
  hit, and then others are tried (\<open>stick_rule_moves_on\<close>).
\<close>

theorem dispatch_respects_limits:
  assumes "fresh_session so" "dispatch env mx cands so = (d, out)"
  shows "distinct (attempted (ds_trace d)) \<and> set (attempted (ds_trace d)) \<subseteq> ar_id ` set cands \<and>
    length (attempted (ds_trace d)) \<le> mx \<and> slot_run None (ds_trace d) = Some None \<and>
    (\<forall>s. ch_sticky (ds_chooser d) = Some s \<longrightarrow> st_hit s \<longrightarrow> st_stick s \<longrightarrow>
       st_bound s \<in> set (attempted (ds_trace d)) \<longrightarrow> attempted (ds_trace d) = [st_bound s])"
proof -
  let ?d = "\<lparr>ds_excluded = [], ds_last = None, ds_attempts = 0,
     ds_chooser = \<lparr>ch_sticky = so, ch_rank_done = False, ch_ranked = []\<rparr>, ds_trace = []\<rparr>"
  have "between ?d" using assms(1) by (auto simp: between_def fresh_session_def)
  moreover have "respects_limits mx cands ?d" by (simp add: respects_limits_def)
  ultimately have "respects_limits mx cands d \<and> sticks_to d"
    using dispatch_loop_respects [of ?d mx cands env 0] assms(2) by (simp add: dispatch_def)
  then show ?thesis by (auto simp: respects_limits_def sticks_to_def)
qed

text \<open>A bound account that fails, under a rule that sticks and under one that does not.\<close>

definition demo_session :: "bool \<Rightarrow> sticky option" where
  "demo_session stick = Some \<lparr>st_stick = stick, st_bound = 7, st_tried = False, st_hit = False, st_keep = False\<rparr>"

definition demo_round :: round where
  "demo_round = \<lparr>rd_exhausted = (\<lambda>i. False), rd_usable = (\<lambda>i. True), rd_rankers = [], rd_rnd = (\<lambda>k. 1/2), rd_slot = (\<lambda>i. True),
     rd_cooling = None, rd_hit = Some True,
     rd_attempt = (\<lambda>i. if i = 7 then AttemptFailover \<lparr>ge_status = 500, ge_record = errTypeUpstream\<rparr> else AttemptDone True)\<rparr>"

definition demo_accounts :: "candidate list" where
  "demo_accounts = [\<lparr>ar_id = 5, ar_priority = 1, ar_weight = 2, ar_limited = False\<rparr>,
     \<lparr>ar_id = 6, ar_priority = 1, ar_weight = 3, ar_limited = False\<rparr>, \<lparr>ar_id = 7, ar_priority = 2, ar_weight = 1, ar_limited = False\<rparr>]"

definition demo_dispatch :: "bool \<Rightarrow> dstate \<times> outcome" where
  "demo_dispatch stick = dispatch (\<lambda>n. demo_round) 3 demo_accounts (demo_session stick)"

lemma demo_attempts:
  "attempted (ds_trace (fst (demo_dispatch True))) = [7]" "attempted (ds_trace (fst (demo_dispatch False))) = [7, 6]"
  by code_simp+

lemma dispatch_respects_limits_witness:
  "slot_run None (ds_trace (fst (demo_dispatch False))) = Some None \<and> attempted (ds_trace (fst (demo_dispatch False))) = [7, 6] \<and>
   length (attempted (ds_trace (fst (demo_dispatch False)))) \<le> 3"
proof -
  have f: "fresh_session (demo_session False)" by (simp add: fresh_session_def demo_session_def)
  have "dispatch (\<lambda>n. demo_round) 3 demo_accounts (demo_session False) = (fst (demo_dispatch False), snd (demo_dispatch False))"
    by (simp add: demo_dispatch_def)
  from dispatch_respects_limits [OF f this] demo_attempts(2) show ?thesis by blast
qed

text \<open>
  A rule that sticks does not hold a session back when the bound account has reached a rate limit or has no
  free slot: \<open>pick\<close> never looks at the rule, and another account serves the request, where section 18.1 of
  the contract (\<open>docs/CONTRACTS.md\<close>) wants status 429.
\<close>

lemma pick_ignores_rule:
  assumes "ch_sticky ch = Some s"
  shows "fst (pick rd cands excluded (ch\<lparr>ch_sticky := Some (s\<lparr>st_stick := b\<rparr>)\<rparr>)) = fst (pick rd cands excluded ch)"
  using assms by (auto simp: pick_def pick_bound_def rankOverrides_def dropBinding_def Let_def split: option.splits prod.splits)

definition demo_full :: "bool \<Rightarrow> bool \<Rightarrow> round" where
  "demo_full limit busy = demo_round\<lparr>rd_exhausted := (\<lambda>i. limit \<and> i = 7), rd_slot := (\<lambda>i. \<not> (busy \<and> i = 7))\<rparr>"

definition demo_limited :: "candidate list" where
  "demo_limited = map (\<lambda>a. a\<lparr>ar_limited := True\<rparr>) demo_accounts"

lemma stick_rule_moves_on:
  "attempted (ds_trace (fst (dispatch (\<lambda>n. demo_full True False) 3 demo_limited (demo_session True)))) = [6]"
  "attempted (ds_trace (fst (dispatch (\<lambda>n. demo_full False True) 3 demo_limited (demo_session True)))) = [6]"
  by code_simp+

end
