(* ===== verification/UsageRules.thy ===== *)
theory UsageRules
  imports GoStrings
begin

section \<open>Declarative usage rules (\<open>usagerules/usagerules.go\<close>)\<close>

text \<open>
  A platform's manifest says which JSON paths of an upstream response are token counts and which are
  facts for price expressions. \<open>gjson\<close>, the third-party reader of the paths, is a record of functions;
  64-bit floats are the type \<open>'f\<close>, with their sum among those functions. Go iterates maps in a random
  order, so a map is a list of pairs in any order. Warnings are not modelled.
\<close>

subsection \<open>Rules and their validation (\<open>manifest.go\<close>, \<open>check/usage.go\<close>)\<close>

record usage_fact =
  uf_type :: string
  uf_enum :: "string list"
  uf_path :: string

record usage_rules =
  ur_json :: "(string \<times> string) list option"
  ur_sse :: "(string \<times> (string \<times> string) list) list"
  ur_facts :: "(string \<times> usage_fact) list"

definition UsageModel :: string where "UsageModel = ''model''"
definition UsageInputTokens :: string where "UsageInputTokens = ''input_tokens''"
definition UsageOutputTokens :: string where "UsageOutputTokens = ''output_tokens''"
definition UsageCacheReadTokens :: string where "UsageCacheReadTokens = ''cache_read_tokens''"
definition UsageCacheCreationTokens :: string where "UsageCacheCreationTokens = ''cache_creation_tokens''"
definition UsageCacheCreation1h :: string where "UsageCacheCreation1h = ''cache_creation_1h_tokens''"

lemmas usage_names = UsageModel_def UsageInputTokens_def UsageOutputTokens_def UsageCacheReadTokens_def
  UsageCacheCreationTokens_def UsageCacheCreation1h_def







definition rules_for :: "(string \<rightharpoonup> usage_rules) \<Rightarrow> usage_rules option option \<Rightarrow> usage_rules option \<Rightarrow> string \<Rightarrow> usage_rules" where
  "rules_for overrides ep pf protocol =
     (case overrides protocol of
        Some u \<Rightarrow> u
      | None \<Rightarrow>
          (case ep of
             Some (Some u) \<Rightarrow> u
           | _ \<Rightarrow> (case pf of None \<Rightarrow> \<lparr>ur_json = None, ur_sse = [], ur_facts = []\<rparr> | Some u \<Rightarrow> u)))"

subsection \<open>Values read from a response\<close>

datatype json_type = JNull | JFalse | JNumber | JString | JTrue | JObject | JArray

text \<open>A result of \<open>gjson\<close>: whether it exists, its type, and what \<open>String\<close>, \<open>Int\<close>, \<open>Float\<close> and \<open>Bool\<close> give.\<close>

record 'f gres =
  gr_exists :: bool
  gr_type :: json_type
  gr_text :: string
  gr_int :: int
  gr_num :: 'f
  gr_true :: bool

text \<open>
  \<open>gj_get doc path\<close>, validity, the elements of an array (whether an object, and their text), and the
  arithmetic and rendering of floats.
\<close>

record 'f gjson =
  gj_get :: "string \<Rightarrow> string \<Rightarrow> 'f gres"
  gj_valid :: "string \<Rightarrow> bool"
  gj_elements :: "string \<Rightarrow> (bool \<times> string) list option"
  gj_add :: "'f \<Rightarrow> 'f \<Rightarrow> 'f"
  gj_zero :: 'f
  gj_result :: "'f \<Rightarrow> 'f gres"

datatype 'f fact_value = MBool bool | MNum 'f | MStr string

record 'f acc =
  ac_rules :: usage_rules
  ac_input :: int
  ac_output :: int
  ac_cache_read :: int
  ac_cache_creation :: int
  ac_cache_creation_1h :: int
  ac_model :: string
  ac_metrics :: "string \<rightharpoonup> 'f fact_value"
  ac_error :: string

definition new_acc :: "usage_rules \<Rightarrow> 'f acc" where
  "new_acc rules = \<lparr>ac_rules = rules, ac_input = 0, ac_output = 0, ac_cache_read = 0, ac_cache_creation = 0,
     ac_cache_creation_1h = 0, ac_model = [], ac_metrics = Map.empty, ac_error = []\<rparr>"

definition present :: "'f gres \<Rightarrow> bool" where
  "present r \<longleftrightarrow> gr_exists r \<and> gr_type r \<noteq> JNull"

definition metric_of :: "string \<Rightarrow> 'f gres \<Rightarrow> 'f fact_value" where
  "metric_of typ r =
     (if typ = ''boolean'' \<or> gr_type r = JTrue \<or> gr_type r = JFalse then MBool (gr_true r)
      else if typ = ''number'' \<or> gr_type r = JNumber then MNum (gr_num r)
      else MStr (gr_text r))"

definition in_enum :: "string list \<Rightarrow> 'f fact_value \<Rightarrow> bool" where
  "in_enum es v = (case v of MStr s \<Rightarrow> s \<in> set es | _ \<Rightarrow> False)"

definition setMetric :: "string \<Rightarrow> 'f gres \<Rightarrow> usage_fact option \<Rightarrow> 'f acc \<Rightarrow> 'f acc" where
  "setMetric key r f u =
     (if \<not> present r then u
      else
        let typ = (case f of None \<Rightarrow> [] | Some f \<Rightarrow> uf_type f); v = metric_of typ r in
        if typ = ''enum'' \<and> \<not> in_enum (case f of None \<Rightarrow> [] | Some f \<Rightarrow> uf_enum f) v then u
        else u\<lparr>ac_metrics := (ac_metrics u)(key \<mapsto> v)\<rparr>)"

definition set_field :: "string \<Rightarrow> 'f gres \<Rightarrow> 'f acc \<Rightarrow> 'f acc" where
  "set_field field r u =
     (if \<not> present r then u
      else if field = UsageModel then u\<lparr>ac_model := gr_text r\<rparr>
      else if field = UsageInputTokens then u\<lparr>ac_input := gr_int r\<rparr>
      else if field = UsageOutputTokens then u\<lparr>ac_output := gr_int r\<rparr>
      else if field = UsageCacheReadTokens then u\<lparr>ac_cache_read := gr_int r\<rparr>
      else if field = UsageCacheCreationTokens then u\<lparr>ac_cache_creation := gr_int r\<rparr>
      else if field = UsageCacheCreation1h then u\<lparr>ac_cache_creation_1h := gr_int r\<rparr>
      else setMetric field r None u)"

text \<open>\<open>Path\<close>: one path, or the sum of the present terms; \<open>None\<close> is a result that does not exist.\<close>

definition terms_of :: "string \<Rightarrow> string list" where
  "terms_of spec = filter (\<lambda>p. p \<noteq> []) (map trimSpace (splitOn CHR ''+'' spec))"

definition absent :: "'f gjson \<Rightarrow> 'f gres" where
  "absent g = \<lparr>gr_exists = False, gr_type = JNull, gr_text = [], gr_int = 0, gr_num = gj_zero g, gr_true = False\<rparr>"

definition Path :: "'f gjson \<Rightarrow> string \<Rightarrow> string \<Rightarrow> 'f gres" where
  "Path g doc spec =
     (if CHR ''+'' \<notin> set spec then gj_get g doc (trimSpace spec)
      else
        let rs = filter present (map (gj_get g doc) (terms_of spec)) in
        if rs = [] then absent g
        else gj_result g (foldl (\<lambda>s r. gj_add g s (gr_num r)) (gj_zero g) rs))"

subsection \<open>Applying the rules\<close>

definition applyFacts :: "'f gjson \<Rightarrow> string \<Rightarrow> 'f acc \<Rightarrow> 'f acc" where
  "applyFacts g doc u =
     fold (\<lambda>(key, f) u. if uf_path f \<noteq> [] then setMetric key (Path g doc (uf_path f)) (Some f) u else u)
       (ur_facts (ac_rules u)) u"

definition applyMap :: "'f gjson \<Rightarrow> string \<Rightarrow> (string \<times> string) list \<Rightarrow> 'f acc \<Rightarrow> 'f acc" where
  "applyMap g doc m u = fold (\<lambda>(field, path) u. set_field field (Path g doc path) u) m u"

definition applyJSONDoc :: "'f gjson \<Rightarrow> string \<Rightarrow> 'f acc \<Rightarrow> 'f acc" where
  "applyJSONDoc g body u =
     applyFacts g body (case ur_json (ac_rules u) of None \<Rightarrow> u | Some m \<Rightarrow> applyMap g body m u)"

definition ApplyJSON :: "'f gjson \<Rightarrow> string \<Rightarrow> 'f acc \<Rightarrow> 'f acc" where
  "ApplyJSON g body u =
     (if body = [] \<or> \<not> gj_valid g body then u
      else (case gj_elements g body of
          Some es \<Rightarrow> fold (\<lambda>(obj, raw) u. if obj then applyJSONDoc g raw u else u) es u
        | None \<Rightarrow> applyJSONDoc g body u))"

definition EventName :: "'f gjson \<Rightarrow> string \<Rightarrow> string \<Rightarrow> string" where
  "EventName g ev doc = (if ev \<noteq> [] then ev else gr_text (gj_get g doc ''type''))"

definition stream_error :: "'f gjson \<Rightarrow> string \<Rightarrow> string" where
  "stream_error g doc =
     (let m1 = gr_text (gj_get g doc ''error.message''); m2 = gr_text (gj_get g doc ''message'')
      in ''upstream stream error: '' @ (if m1 \<noteq> [] then m1 else if m2 \<noteq> [] then m2 else doc))"

text \<open>The rules of the stream event \<open>name\<close>; a rule without an event matches every one.\<close>

definition applyEventRules :: "'f gjson \<Rightarrow> string \<Rightarrow> string \<Rightarrow> 'f acc \<Rightarrow> 'f acc" where
  "applyEventRules g name doc u =
     fold (\<lambda>(event, m) u. if event \<noteq> [] \<and> event \<noteq> name then u else applyMap g doc m u) (ur_sse (ac_rules u)) u"

definition ApplySSE :: "'f gjson \<Rightarrow> string \<Rightarrow> string \<Rightarrow> 'f acc \<Rightarrow> 'f acc" where
  "ApplySSE g ev doc u =
     (if doc = [] \<or> \<not> gj_valid g doc then u
      else
        let name = EventName g ev doc;
            u = (if name = ''error'' \<or> name = [] \<and> gr_type (gj_get g doc ''error'') = JObject
                 then u\<lparr>ac_error := stream_error g doc\<rparr> else u)
        in applyFacts g doc (applyEventRules g name doc u))"

subsection \<open>Results\<close>

record usage_tokens =
  ut_input :: int
  ut_output :: int
  ut_cache_read :: int
  ut_cache_creation :: int
  ut_cache_creation_1h :: int

definition Tokens :: "int \<Rightarrow> int \<Rightarrow> int \<Rightarrow> int \<Rightarrow> int \<Rightarrow> usage_tokens" where
  "Tokens input output cacheRead cacheCreation cacheCreation1h =
     (let cc = wrap64 (cacheCreation - cacheCreation1h); cc = (if cc < 0 then 0 else cc) in
      \<lparr>ut_input = max input 0, ut_output = max output 0, ut_cache_read = max cacheRead 0, ut_cache_creation = cc,
       ut_cache_creation_1h = max cacheCreation1h 0\<rparr>)"


definition ParseBool :: "string \<Rightarrow> bool option" where
  "ParseBool s = (if s \<in> set [''1'', ''t'', ''T'', ''TRUE'', ''true'', ''True''] then Some True
     else if s \<in> set [''0'', ''f'', ''F'', ''FALSE'', ''false'', ''False''] then Some False else None)"

text \<open>A value a plugin reports; \<open>parse_float\<close> is \<open>strconv.ParseFloat\<close>.\<close>

definition Fact :: "(string \<Rightarrow> 'f option) \<Rightarrow> usage_fact \<Rightarrow> string \<Rightarrow> 'f fact_value option" where
  "Fact parse_float f raw =
     (let s = trimSpace raw in
      if uf_type f = ''number'' then map_option MNum (parse_float s)
      else if uf_type f = ''boolean'' then map_option MBool (ParseBool s)
      else if uf_type f = ''enum'' then (if raw \<in> set (uf_enum f) then Some (MStr raw) else None)
      else Some (MStr raw))"

subsection \<open>Stored facts fit their declarations\<close>



datatype response = Json string | Event string string

definition apply_response :: "'f gjson \<Rightarrow> response \<Rightarrow> 'f acc \<Rightarrow> 'f acc" where
  "apply_response g r u = (case r of Json b \<Rightarrow> ApplyJSON g b u | Event e d \<Rightarrow> ApplySSE g e d u)"

definition extracted :: "'f gjson \<Rightarrow> usage_rules \<Rightarrow> response list \<Rightarrow> 'f acc" where
  "extracted g rules rs = fold (apply_response g) rs (new_acc rules)"














text \<open>A small reader of documents that are a single letter, over integers for floats.\<close>

definition demo_gjson :: "int gjson" where
  "demo_gjson = \<lparr>gj_get = (\<lambda>doc p. if doc = ''t''
       then \<lparr>gr_exists = True, gr_type = JTrue, gr_text = ''true'', gr_int = 1, gr_num = 1, gr_true = True\<rparr>
       else \<lparr>gr_exists = True, gr_type = JString, gr_text = ''fast'', gr_int = 0, gr_num = 0, gr_true = False\<rparr>),
     gj_valid = (\<lambda>d. True), gj_elements = (\<lambda>d. None), gj_add = (+), gj_zero = 0,
     gj_result = (\<lambda>n. \<lparr>gr_exists = True, gr_type = JNumber, gr_text = [], gr_int = n, gr_num = n, gr_true = n \<noteq> 0\<rparr>)\<rparr>"

definition demo_facts :: usage_rules where
  "demo_facts = \<lparr>ur_json = Some [(''input_tokens'', ''a'')], ur_sse = [],
     ur_facts = [(''seconds'', \<lparr>uf_type = ''number'', uf_enum = [], uf_path = ''b''\<rparr>),
       (''tier'', \<lparr>uf_type = ''enum'', uf_enum = [''fast'', ''slow''], uf_path = ''c''\<rparr>)]\<rparr>"


text \<open>The rules store a boolean under a \<open>number\<close> fact that the plugin's path would refuse.\<close>

lemma number_fact_takes_boolean:
  "ac_metrics (extracted demo_gjson demo_facts [Json ''t'']) ''seconds'' = Some (MBool True)"
  "Fact (\<lambda>s. None :: int option) \<lparr>uf_type = ''number'', uf_enum = [], uf_path = ''b''\<rparr> ''true'' = None"
  by code_simp+

text \<open>A negative one-hour count is not counted as zero: it adds to the five-minute cache writes.\<close>

lemma negative_1h_count_inflates:
  "ut_cache_creation (Tokens 0 0 0 100 (-50)) = 150" "ut_cache_creation (Tokens 0 0 0 100 0) = 100"
  by code_simp+

end
