(* ===== verification/AutoDisable.thy ===== *)
theory AutoDisable
  imports GoStrings "HOL-Library.Sublist"
begin

section \<open>Rules that disable accounts (\<open>gateway/autodisable.go\<close>)\<close>

text \<open>
  The administrator's list of status codes is parsed into sorted, merged ranges, stored in its printed
  form and parsed again by every process that loads the settings. The lemmas show that nothing is lost
  or gained on that way. Lower-casing of Unicode text is the parameter \<open>lower\<close>.
\<close>

record statusRange =
  lo :: int
  hi :: int

definition maxAutoDisableRanges :: nat where "maxAutoDisableRanges = 50"
definition maxAutoDisableKeywords :: nat where "maxAutoDisableKeywords = 100"
definition maxAutoDisableKeywordLen :: nat where "maxAutoDisableKeywordLen = 200"
definition classifyPrefix :: nat where "classifyPrefix = 4096"

subsection \<open>Parsing and printing\<close>

definition parseStatus :: "string \<Rightarrow> string + int" where
  "parseStatus s =
     (case Atoi (trimSpace s) of
        None \<Rightarrow> Inl (trimSpace s)
      | Some n \<Rightarrow> if n < 100 \<or> 599 < n then Inl (trimSpace s) else Inr n)"

definition parseStatusRange :: "string \<Rightarrow> string + statusRange" where
  "parseStatusRange part =
     (case cut CHR ''-'' part of (l, h, isRange) \<Rightarrow>
        and_then (parseStatus l) (\<lambda>a.
          if \<not> isRange then Inr \<lparr>lo = a, hi = a\<rparr>
          else and_then (parseStatus h) (\<lambda>b. if b < a then Inl part else Inr \<lparr>lo = a, hi = b\<rparr>)))"

fun parse_parts :: "string list \<Rightarrow> string + statusRange list" where
  "parse_parts [] = Inr []"
| "parse_parts (w # ws) =
     (let part = trimSpace w in
      if part = [] then parse_parts ws
      else and_then (parseStatusRange part) (\<lambda>r. and_then (parse_parts ws) (\<lambda>rs. Inr (r # rs))))"

text \<open>
  One round of the merging loop, with \<open>out\<close> in reverse. The sort of the code is not stable; ranges of
  equal \<open>lo\<close> end up in one range with the greatest \<open>hi\<close>, in whatever order they come.
\<close>

definition merge_range :: "statusRange \<Rightarrow> statusRange list \<Rightarrow> statusRange list" where
  "merge_range r out =
     (case out of [] \<Rightarrow> [r]
      | q # qs \<Rightarrow> if lo r \<le> hi q + 1 then q\<lparr>hi := max (hi q) (hi r)\<rparr> # qs else r # out)"

definition mergeRanges :: "statusRange list \<Rightarrow> statusRange list" where
  "mergeRanges rs = rev (fold merge_range (sort_key lo rs) [])"

definition parseStatusRanges :: "string \<Rightarrow> string + statusRange list" where
  "parseStatusRanges s =
     and_then (parse_parts (splitOn CHR '','' s)) (\<lambda>rs.
       if maxAutoDisableRanges < length rs then Inl ''too many ranges'' else Inr (mergeRanges rs))"

definition part_of :: "statusRange \<Rightarrow> string" where
  "part_of r = itoa (lo r) @ (if hi r \<noteq> lo r then CHR ''-'' # itoa (hi r) else [])"

definition formatStatusRanges :: "statusRange list \<Rightarrow> string" where
  "formatStatusRanges rs = joinWith CHR '','' (map part_of rs)"

subsection \<open>Settings and the rule\<close>

record autoDisable =
  ad_enabled :: bool
  ad_statuses :: string
  ad_keywords :: "string list"
  ad_ranges :: "statusRange list"

definition compiled :: "autoDisable \<Rightarrow> autoDisable" where
  "compiled s = s\<lparr>ad_ranges := (case parseStatusRanges (ad_statuses s) of Inl _ \<Rightarrow> [] | Inr rs \<Rightarrow> rs)\<rparr>"

definition defaultAutoDisableSettings :: autoDisable where
  "defaultAutoDisableSettings = compiled \<lparr>ad_enabled = True, ad_statuses = ''401'', ad_keywords =
     [''your credit balance is too low'', ''this organization has been disabled.'', ''you exceeded your current quota'',
      ''permission denied'', ''the security token included in the request is invalid'', ''operation not allowed'',
      ''your account is not authorized''], ad_ranges = []\<rparr>"

datatype matched_rule = NoRule | StatusRule int | KeywordRule string

definition matches_status :: "statusRange list \<Rightarrow> int \<Rightarrow> bool" where
  "matches_status rs n \<longleftrightarrow> (\<exists>r \<in> set rs. lo r \<le> n \<and> n \<le> hi r)"

definition rule :: "(string \<Rightarrow> string) \<Rightarrow> autoDisable \<Rightarrow> int \<Rightarrow> string \<Rightarrow> string \<Rightarrow> matched_rule" where
  "rule lower s status body transportErr =
     (if 0 < status \<and> matches_status (ad_ranges s) status then StatusRule status
      else if ad_keywords s = [] then NoRule
      else
        let txt = lower (take classifyPrefix body @ [CHR 0x0A] @ transportErr) in
        case List.find (\<lambda>k. sublist k txt) (ad_keywords s) of
          Some k \<Rightarrow> KeywordRule k
        | None \<Rightarrow> NoRule)"

primrec normalize_from :: "(string \<Rightarrow> string) \<Rightarrow> string list \<Rightarrow> string list \<Rightarrow> string list" where
  "normalize_from lower seen [] = []"
| "normalize_from lower seen (w # ws) =
     (let k = lower (trimSpace w) in
      if k \<noteq> [] \<and> k \<notin> set seen then k # normalize_from lower (k # seen) ws
      else normalize_from lower seen ws)"

definition normalizeKeywords :: "(string \<Rightarrow> string) \<Rightarrow> string list \<Rightarrow> string list" where
  "normalizeKeywords lower ws = normalize_from lower [] ws"

text \<open>
  The body of the settings endpoint and its validation: field errors by field name, and the body with
  its normalised fields. \<open>runes\<close> counts the runes of a string.
\<close>

record autoDisableInput =
  in_enabled :: "bool option"
  in_statuses :: "string option"
  in_keywords :: "string list option"

definition validate_statuses :: "string option \<Rightarrow> string list \<times> string option" where
  "validate_statuses st =
     (case st of None \<Rightarrow> ([], None)
      | Some s \<Rightarrow> (case parseStatusRanges s of
            Inl _ \<Rightarrow> ([''status_codes''], Some (formatStatusRanges []))
          | Inr rs \<Rightarrow> ([], Some (formatStatusRanges rs))))"

definition validate_keywords :: "(string \<Rightarrow> string) \<Rightarrow> (string \<Rightarrow> nat) \<Rightarrow> string list option \<Rightarrow> string list \<times> string list option" where
  "validate_keywords lower runes ks =
     (case ks of None \<Rightarrow> ([], None)
      | Some ws \<Rightarrow>
          let kws = normalizeKeywords lower ws in
          (map (\<lambda>(i, _). ''keywords['' @ itoa (int i) @ '']'')
             (filter (\<lambda>(_, w). maxAutoDisableKeywordLen < runes (trimSpace w)) (enumerate 0 ws)) @
           (if maxAutoDisableKeywords < length kws then [''keywords''] else []), Some kws))"

definition validate :: "(string \<Rightarrow> string) \<Rightarrow> (string \<Rightarrow> nat) \<Rightarrow> autoDisableInput \<Rightarrow> string list \<times> autoDisableInput" where
  "validate lower runes i =
     (case validate_statuses (in_statuses i) of (e1, st) \<Rightarrow>
      case validate_keywords lower runes (in_keywords i) of (e2, ks) \<Rightarrow>
        (e1 @ e2, i\<lparr>in_statuses := st, in_keywords := ks\<rparr>))"

subsection \<open>Merging\<close>

definition bounded :: "statusRange list \<Rightarrow> bool" where
  "bounded rs \<longleftrightarrow> (\<forall>r \<in> set rs. 100 \<le> lo r \<and> lo r \<le> hi r \<and> hi r \<le> 599)"

definition normal :: "statusRange list \<Rightarrow> bool" where
  "normal rs \<longleftrightarrow> bounded rs \<and> sorted_wrt (\<lambda>a b. hi a + 1 < lo b) rs"

text \<open>The loop's invariant on the reversed output, with the ranges still to come.\<close>

definition merging :: "statusRange list \<Rightarrow> statusRange list \<Rightarrow> bool" where
  "merging out rs \<longleftrightarrow> bounded out \<and> sorted_wrt (\<lambda>b a. hi a + 1 < lo b) out \<and>
     (\<forall>q \<in> set out. \<forall>r \<in> set rs. lo q \<le> lo r)"

lemma merge_range_merging:
  assumes m: "merging out (r # rs)" and b: "bounded (r # rs)" and s: "sorted (map lo (r # rs))"
  shows "merging (merge_range r out) rs \<and>
    (\<forall>n. matches_status (merge_range r out) n \<longleftrightarrow> matches_status out n \<or> lo r \<le> n \<and> n \<le> hi r) \<and>
    length (merge_range r out) \<le> Suc (length out)"
proof (cases out)
  case Nil
  then show ?thesis using b s by (auto simp: merge_range_def merging_def bounded_def matches_status_def)
next
  case (Cons q qs)
  show ?thesis
  proof (cases "lo r \<le> hi q + 1")
    case True
    have q: "lo q \<le> lo r" "lo q \<le> hi q" "100 \<le> lo q" "hi q \<le> 599" "\<forall>a \<in> set qs. hi a + 1 < lo q"
      using m Cons by (auto simp: merging_def bounded_def)
    have r: "lo r \<le> hi r" "hi r \<le> 599" using b by (auto simp: bounded_def)
    let ?q = "q\<lparr>hi := max (hi q) (hi r)\<rparr>"
    have new: "merge_range r out = ?q # qs" using True Cons by (simp add: merge_range_def)
    have "merging (?q # qs) rs" using m q r unfolding Cons by (auto simp: merging_def bounded_def)
    moreover have "(lo q \<le> n \<and> n \<le> max (hi q) (hi r)) = ((lo q \<le> n \<and> n \<le> hi q) \<or> (lo r \<le> n \<and> n \<le> hi r))" for n
      using True q r by auto
    ultimately show ?thesis unfolding new by (auto simp: Cons matches_status_def)
  next
    case False
    then have new: "merge_range r out = r # out" using Cons by (simp add: merge_range_def)
    have q: "hi q + 1 < lo r" "\<forall>a \<in> set qs. hi a + 1 < lo q" "lo q \<le> hi q"
      using False m Cons by (auto simp: merging_def bounded_def)
    then have "\<forall>a \<in> set out. hi a + 1 < lo r" using Cons by auto
    then have "merging (r # out) rs" using m b s by (auto simp: merging_def bounded_def)
    then show ?thesis unfolding new by (auto simp: matches_status_def)
  qed
qed

lemma merge_fold:
  assumes "merging out rs" "bounded rs" "sorted (map lo rs)"
  shows "merging (fold merge_range rs out) [] \<and>
    (\<forall>n. matches_status (fold merge_range rs out) n \<longleftrightarrow> matches_status out n \<or> matches_status rs n) \<and>
    length (fold merge_range rs out) \<le> length out + length rs"
  using assms
proof (induction rs arbitrary: out)
  case Nil
  then show ?case by (auto simp: matches_status_def)
next
  case (Cons r rs)
  note step = merge_range_merging [OF Cons.prems]
  have "bounded rs" "sorted (map lo rs)" using Cons.prems by (auto simp: bounded_def)
  with Cons.IH [OF conjunct1 [OF step]] step show ?case
    by (fastforce simp: matches_status_def)
qed

lemma mergeRanges_normal:
  assumes "bounded rs"
  shows "normal (mergeRanges rs)" "\<And>n. matches_status (mergeRanges rs) n \<longleftrightarrow> matches_status rs n"
    "length (mergeRanges rs) \<le> length rs"
proof -
  let ?s = "sort_key lo rs"
  have "bounded ?s" "merging [] ?s" using assms by (auto simp: bounded_def merging_def)
  note m = merge_fold [OF this(2,1) sorted_sort_key]
  show "normal (mergeRanges rs)" using m by (simp add: normal_def mergeRanges_def merging_def bounded_def sorted_wrt_rev)
  show "matches_status (mergeRanges rs) n \<longleftrightarrow> matches_status rs n" for n
    using m by (simp add: mergeRanges_def matches_status_def)
  show "length (mergeRanges rs) \<le> length rs" using m by (simp add: mergeRanges_def)
qed

lemma merge_fold_normal:
  assumes "sorted_wrt (\<lambda>a b. hi a + 1 < lo b) (rev out @ rs)"
  shows "fold merge_range rs out = rev rs @ out"
  using assms
proof (induction rs arbitrary: out)
  case (Cons r rs)
  have "merge_range r out = r # out"
    using Cons.prems by (cases out) (auto simp: merge_range_def sorted_wrt_append)
  then show ?case using Cons.IH [of "r # out"] Cons.prems by simp
qed simp

lemma mergeRanges_id:
  assumes "normal rs"
  shows "mergeRanges rs = rs"
proof -
  have s: "sorted_wrt (\<lambda>a b. hi a + 1 < lo b) rs" and b: "\<forall>r \<in> set rs. lo r \<le> hi r"
    using assms by (auto simp: normal_def bounded_def)
  have "sorted_wrt (\<lambda>a b. lo a \<le> lo b) rs"
    by (rule sorted_wrt_mono_rel [OF _ s]) (use b in fastforce)
  then have "sort_key lo rs = rs" by (intro sort_key_id_if_sorted) (simp add: sorted_map)
  then show ?thesis using merge_fold_normal [of "[]" rs] s by (simp add: mergeRanges_def)
qed

subsection \<open>Printing and parsing back\<close>

lemma parse_parts_bounded: "parse_parts ws = Inr rs \<Longrightarrow> bounded rs"
proof (induction ws arbitrary: rs)
  case (Cons w ws)
  then show ?case
    by (auto simp: Let_def and_then_eq_Inr bounded_def parseStatusRange_def parseStatus_def
        split: if_splits option.splits prod.splits)
qed (simp add: bounded_def)

lemma parseStatus_itoa: "100 \<le> n \<Longrightarrow> n \<le> 599 \<Longrightarrow> parseStatus (itoa n) = Inr n"
  using Atoi_nat_str [of "nat n"] by (simp add: parseStatus_def itoa_def)

lemma itoa_clean: "0 \<le> n \<Longrightarrow> itoa n \<noteq> [] \<and> (\<forall>c \<in> set (itoa n). solid c \<and> c \<notin> {CHR ''-'', CHR ''+'', CHR '',''})"
  using nat_str_digits [of "nat n"] by (simp add: itoa_def)

lemma part_of_parses:
  assumes "100 \<le> lo r" "lo r \<le> hi r" "hi r \<le> 599"
  shows "parseStatusRange (part_of r) = Inr r" "trimSpace (part_of r) = part_of r" "part_of r \<noteq> []"
    "CHR '','' \<notin> set (part_of r)"
proof -
  have l: "itoa (lo r) \<noteq> []" "\<forall>c \<in> set (itoa (lo r)). solid c \<and> c \<notin> {CHR ''-'', CHR ''+'', CHR '',''}"
    and h: "itoa (hi r) \<noteq> []" "\<forall>c \<in> set (itoa (hi r)). solid c \<and> c \<notin> {CHR ''-'', CHR ''+'', CHR '',''}"
    using itoa_clean [of "lo r"] itoa_clean [of "hi r"] assms by simp_all
  have nl: "CHR ''-'' \<notin> set (itoa (lo r))" using l(2) by auto
  show "parseStatusRange (part_of r) = Inr r"
    using parseStatus_itoa [of "lo r"] parseStatus_itoa [of "hi r"] assms
      cut_none [OF nl] cut_at [OF nl, of "itoa (hi r)"]
    by (cases r) (auto simp: parseStatusRange_def part_of_def)
  show ne: "part_of r \<noteq> []" using l by (simp add: part_of_def)
  have "solid (hd (part_of r))" using l by (cases "itoa (lo r)") (auto simp: part_of_def)
  moreover have "solid (last (part_of r))" using l h by (auto simp: part_of_def)
  ultimately show "trimSpace (part_of r) = part_of r" by (intro trimSpace_solid) simp
  show "CHR '','' \<notin> set (part_of r)" using l(2) h(2) by (auto simp: part_of_def)
qed

lemma parse_format_parts: "bounded rs \<Longrightarrow> parse_parts (map part_of rs) = Inr rs"
  by (induction rs) (simp_all add: bounded_def part_of_parses)

lemma parse_format:
  assumes "normal rs" "length rs \<le> maxAutoDisableRanges"
  shows "parseStatusRanges (formatStatusRanges rs) = Inr rs"
proof (cases rs)
  case Nil
  then show ?thesis by (simp add: parseStatusRanges_def formatStatusRanges_def mergeRanges_def)
next
  case (Cons r rs')
  have "splitOn CHR '','' (formatStatusRanges rs) = map part_of rs"
    unfolding formatStatusRanges_def
    by (rule split_join) (use assms Cons part_of_parses(4) in \<open>auto simp: normal_def bounded_def\<close>)
  then show ?thesis using assms parse_format_parts mergeRanges_id
    by (simp add: parseStatusRanges_def normal_def)
qed

text \<open>C37: Whatever list of status codes an administrator enters, if the settings endpoint accepts it then
  the printed form it stores parses, in every process that loads it, back to the same ranges, printing
  those ranges again gives the same text, and a status code matches them exactly when one of the
  comma-separated items entered, read on its own, covers it.
\<close>

theorem status_list_roundtrip:
  assumes "parseStatusRanges s = Inr rs"
  shows "parseStatusRanges (formatStatusRanges rs) = Inr rs \<and>
    (\<forall>n. matches_status rs n \<longleftrightarrow> (\<exists>w \<in> set (splitOn CHR '','' s). \<exists>r. parseStatusRange (trimSpace w) = Inr r \<and> lo r \<le> n \<and> n \<le> hi r))"
proof
  obtain ps where ps: "parse_parts (splitOn CHR '','' s) = Inr ps" "length ps \<le> maxAutoDisableRanges" "rs = mergeRanges ps"
    using assms by (auto simp: parseStatusRanges_def and_then_eq_Inr split: if_splits)
  note b = parse_parts_bounded [OF ps(1)]
  show "parseStatusRanges (formatStatusRanges rs) = Inr rs"
    using mergeRanges_normal [OF b] ps(2,3) by (intro parse_format) auto
  have nil: "parseStatusRange [] \<noteq> Inr r" for r
    by (simp add: parseStatusRange_def cut_def parseStatus_def Atoi_def Let_def)
  have "matches_status ps' n \<longleftrightarrow> (\<exists>w \<in> set ws. \<exists>r. parseStatusRange (trimSpace w) = Inr r \<and> lo r \<le> n \<and> n \<le> hi r)"
    if "parse_parts ws = Inr ps'" for ws ps' n
    using that
    by (induction ws arbitrary: ps') (auto simp: Let_def and_then_eq_Inr matches_status_def nil split: if_splits)
  from this [OF ps(1)] show "\<forall>n. matches_status rs n \<longleftrightarrow> (\<exists>w \<in> set (splitOn CHR '','' s). \<exists>r.
      parseStatusRange (trimSpace w) = Inr r \<and> lo r \<le> n \<and> n \<le> hi r)"
    using mergeRanges_normal(2) [OF b] ps(3) by simp
qed

lemma status_list_roundtrip_witness:
  "parseStatusRanges '' 500-503,401, 402 ,504'' = Inr [\<lparr>lo = 401, hi = 402\<rparr>, \<lparr>lo = 500, hi = 504\<rparr>] \<and>
   parseStatusRanges (formatStatusRanges [\<lparr>lo = 401, hi = 402\<rparr>, \<lparr>lo = 500, hi = 504\<rparr>]) =
     Inr [\<lparr>lo = 401, hi = 402\<rparr>, \<lparr>lo = 500, hi = 504\<rparr>]"
proof -
  have p: "parseStatusRanges '' 500-503,401, 402 ,504'' = Inr [\<lparr>lo = 401, hi = 402\<rparr>, \<lparr>lo = 500, hi = 504\<rparr>]"
    by code_simp
  with status_list_roundtrip [OF p] show ?thesis by blast
qed

end
