(* ===== verification/Glob.thy ===== *)
theory Glob
  imports Prelude
begin

section \<open>Glob patterns and byte strings of the gateway (\<open>gateway/util.go\<close>)\<close>

text \<open>
  \<open>globMatch\<close> is the matcher behind sticky rules, hook and rank match lists and model
  allowlists. The code walks two indices with one remembered star and backtracks to it;
  the reference \<open>glob_spec\<close> is the textbook recursion: a star is any run of bytes, a question
  mark is any one byte, any other byte is itself.
\<close>

subsection \<open>The loop\<close>

text \<open>
  The state of the loop is the pattern index \<open>p\<close>, the string index \<open>i\<close>, the remembered star
  (the code's \<open>star >= 0\<close> is \<open>Some\<close>, its \<open>-1\<close> is \<open>None\<close>) and \<open>mark\<close>. The branch order is
  the code's: a literal (or question mark) match is tried before the star.
\<close>

partial_function (option) skip_stars :: "string \<Rightarrow> nat \<Rightarrow> nat option" where
  "skip_stars pat p =
     (if p < length pat \<and> pat ! p = CHR ''*'' then skip_stars pat (Suc p) else Some p)"

partial_function (option) glob_loop ::
    "string \<Rightarrow> string \<Rightarrow> nat \<Rightarrow> nat \<Rightarrow> nat option \<Rightarrow> nat \<Rightarrow> bool option" where
  "glob_loop pat s p i star mark =
     (if i < length s then
        (if p < length pat \<and> (pat ! p = CHR ''?'' \<or> pat ! p = s ! i) then
           glob_loop pat s (Suc p) (Suc i) star mark
         else if p < length pat \<and> pat ! p = CHR ''*'' then
           glob_loop pat s (Suc p) i (Some p) i
         else (case star of
             Some st \<Rightarrow> glob_loop pat s (Suc st) (Suc mark) star (Suc mark)
           | None \<Rightarrow> Some False))
      else Option.bind (skip_stars pat p) (\<lambda>p'. Some (p' = length pat)))"

definition globMatch :: "string \<Rightarrow> string \<Rightarrow> bool option" where
  "globMatch pat s = glob_loop pat s 0 0 None 0"

subsection \<open>The reference\<close>

fun glob_spec :: "string \<Rightarrow> string \<Rightarrow> bool" where
  "glob_spec [] s = (s = [])"
| "glob_spec (c # ps) [] = (c = CHR ''*'' \<and> glob_spec ps [])"
| "glob_spec (c # ps) (x # xs) =
     (if c = CHR ''*'' then glob_spec ps (x # xs) \<or> glob_spec (c # ps) xs
      else (c = CHR ''?'' \<or> c = x) \<and> glob_spec ps xs)"

lemma glob_spec_star: "glob_spec (CHR ''*'' # ps) s \<longleftrightarrow> (\<exists>k \<le> length s. glob_spec ps (drop k s))"
proof (induction s)
  case Nil
  then show ?case by simp
next
  case (Cons x xs)
  have "(\<exists>k \<le> length (x # xs). glob_spec ps (drop k (x # xs))) \<longleftrightarrow>
      glob_spec ps (x # xs) \<or> (\<exists>k \<le> length xs. glob_spec ps (drop k xs))"
    by (metis drop0 drop_Suc_Cons le0 length_Cons Suc_le_mono not0_implies_Suc)
  with Cons.IH show ?case by simp
qed

lemma glob_spec_star_mono:
  assumes "glob_spec (CHR ''*'' # ps) (drop j s)" and "i \<le> j" and "j \<le> length s"
  shows "glob_spec (CHR ''*'' # ps) (drop i s)"
proof -
  from assms(1) obtain k where k: "k \<le> length s - j" "glob_spec ps (drop (k + j) s)"
    by (auto simp: glob_spec_star)
  then have "k + j - i \<le> length (drop i s)" and "drop (k + j - i) (drop i s) = drop (k + j) s"
    using assms(2,3) by auto
  with k(2) show ?thesis unfolding glob_spec_star by metis
qed

lemma glob_spec_star_free:
  assumes "glob_spec (qs @ ps) s" and "CHR ''*'' \<notin> set qs"
  shows "length qs \<le> length s \<and> glob_spec ps (drop (length qs) s)"
  using assms
proof (induction qs arbitrary: s)
  case Nil
  then show ?case by simp
next
  case (Cons q qs)
  then show ?case by (cases s) auto
qed

subsection \<open>The loop returns, and returns the reference answer\<close>

lemma skip_stars_returns:
  "p \<le> length pat \<Longrightarrow>
   \<exists>p'. skip_stars pat p = Some p' \<and> (p' = length pat \<longleftrightarrow> glob_spec (drop p pat) [])"
proof (induction "length pat - p" arbitrary: p)
  case 0
  then show ?case by (simp add: skip_stars.simps)
next
  case (Suc n)
  then have lt: "p < length pat" by simp
  show ?case
  proof (cases "pat ! p = CHR ''*''")
    case True
    with Suc lt show ?thesis
      by (simp add: skip_stars.simps [of pat p] drop_Cons_nth_conv [OF lt])
  next
    case False
    with lt show ?thesis
      by (simp add: skip_stars.simps drop_Cons_nth_conv [OF lt])
  qed
qed

lemma ex_above_Suc:
  fixes m n :: nat
  assumes "m < n"
  shows "(\<exists>k. m < k \<and> k \<le> n \<and> P k) \<longleftrightarrow> P (Suc m) \<or> (\<exists>k. Suc m < k \<and> k \<le> n \<and> P k)"
proof
  assume "\<exists>k. m < k \<and> k \<le> n \<and> P k"
  then obtain k where "m < k" "k \<le> n" "P k" by blast
  then show "P (Suc m) \<or> (\<exists>k. Suc m < k \<and> k \<le> n \<and> P k)" by (cases "k = Suc m") auto
qed (use assms in \<open>auto intro: Suc_lessD Suc_leI\<close>)

definition glob_inv :: "string \<Rightarrow> nat \<Rightarrow> nat \<Rightarrow> nat option \<Rightarrow> nat \<Rightarrow> bool" where
  "glob_inv pat p i star mark \<longleftrightarrow>
     (case star of None \<Rightarrow> True
      | Some st \<Rightarrow> st < p \<and> pat ! st = CHR ''*'' \<and> mark \<le> i \<and> p - Suc st = i - mark \<and>
          CHR ''*'' \<notin> set (take (p - Suc st) (drop (Suc st) pat)))"

definition later_star :: "string \<Rightarrow> string \<Rightarrow> nat option \<Rightarrow> nat \<Rightarrow> bool" where
  "later_star pat s star mark \<longleftrightarrow>
     (\<exists>st k. star = Some st \<and> mark < k \<and> k \<le> length s \<and> glob_spec (drop (Suc st) pat) (drop k s))"

lemma later_star_segment:
  assumes "glob_inv pat p i star mark" and "later_star pat s star mark" and "p \<le> length pat"
  shows "\<exists>j. i < j \<and> j \<le> length s \<and> glob_spec (drop p pat) (drop j s)"
proof -
  from assms(2) obtain st k where st: "star = Some st" and k: "mark < k" "k \<le> length s"
    and m: "glob_spec (drop (Suc st) pat) (drop k s)" by (auto simp: later_star_def)
  define qs where "qs = take (p - Suc st) (drop (Suc st) pat)"
  from assms(1) st have stp: "st < p" and eq: "p - Suc st = i - mark" and mi: "mark \<le> i"
    and free: "CHR ''*'' \<notin> set qs" by (auto simp: glob_inv_def qs_def)
  have split: "drop (Suc st) pat = qs @ drop p pat"
    using stp unfolding qs_def
    by (metis Suc_leI append_take_drop_id drop_drop le_add_diff_inverse2)
  have len: "length qs = i - mark" using stp eq assms(3) by (simp add: qs_def)
  from glob_spec_star_free [OF m [unfolded split] free] len k
  have "i - mark + k \<le> length s" and "glob_spec (drop p pat) (drop (i - mark + k) s)"
    by auto
  with mi k(1) show ?thesis by (intro exI [of _ "i - mark + k"]) auto
qed

lemma glob_mismatch:
  assumes "i < length s" and "p \<le> length pat"
    and "\<not> (p < length pat \<and> (pat ! p = CHR ''?'' \<or> pat ! p = s ! i))"
    and "\<not> (p < length pat \<and> pat ! p = CHR ''*'')"
  shows "\<not> glob_spec (drop p pat) (drop i s)"
  using assms by (cases "p < length pat") (auto simp: drop_Cons_nth_conv)

lemma glob_inv_advance:
  assumes "glob_inv pat p i star mark" and "p < length pat" and "pat ! p \<noteq> CHR ''*''"
  shows "glob_inv pat (Suc p) (Suc i) star mark"
proof (cases star)
  case (Some st)
  with assms(1) have st: "st < p" "p - Suc st = i - mark" "mark \<le> i" by (auto simp: glob_inv_def)
  have "Suc p - Suc st = Suc (p - Suc st)" and "p - Suc st < length (drop (Suc st) pat)"
    using st(1) assms(2) by auto
  moreover have "drop (Suc st) pat ! (p - Suc st) = pat ! p"
    using st(1) assms(2) by simp
  ultimately have "take (Suc p - Suc st) (drop (Suc st) pat) = take (p - Suc st) (drop (Suc st) pat) @ [pat ! p]"
    by (simp add: take_Suc_conv_app_nth)
  with Some assms st show ?thesis by (auto simp: glob_inv_def)
qed (simp add: glob_inv_def)

definition glob_rank :: "string \<Rightarrow> nat option \<Rightarrow> nat \<Rightarrow> nat" where
  "glob_rank s star mark = (case star of None \<Rightarrow> Suc (length s) | Some _ \<Rightarrow> length s - mark)"

lemma later_star_here:
  "later_star pat s (Some p) i \<or> (i \<le> length s \<and> glob_spec (drop (Suc p) pat) (drop i s)) \<longleftrightarrow>
   (\<exists>k. i \<le> k \<and> k \<le> length s \<and> glob_spec (drop (Suc p) pat) (drop k s))"
  unfolding later_star_def by (metis le_neq_implies_less less_imp_le_nat option.inject order_refl)

lemma star_here:
  assumes "p < length pat" "pat ! p = CHR ''*''" "i \<le> length s"
  shows "glob_spec (drop p pat) (drop i s) \<longleftrightarrow>
    (\<exists>k. i \<le> k \<and> k \<le> length s \<and> glob_spec (drop (Suc p) pat) (drop k s))"
proof -
  have "glob_spec (drop p pat) (drop i s) \<longleftrightarrow>
      (\<exists>k \<le> length s - i. glob_spec (drop (Suc p) pat) (drop (i + k) s))"
    using assms by (simp add: drop_Cons_nth_conv glob_spec_star add.commute)
  also have "\<dots> \<longleftrightarrow> (\<exists>k. i \<le> k \<and> k \<le> length s \<and> glob_spec (drop (Suc p) pat) (drop k s))"
    using assms(3) by (metis add_le_cancel_left le_add1 le_add_diff_inverse)
  finally show ?thesis .
qed

lemma glob_loop_correct:
  assumes "CHR ''*'' \<notin> set s" and "i \<le> length s" and "p \<le> length pat"
    and "glob_inv pat p i star mark"
  shows "glob_loop pat s p i star mark =
    Some (glob_spec (drop p pat) (drop i s) \<or> later_star pat s star mark)"
  using assms(2-4)
proof (induction "(p, i, star, mark)" arbitrary: p i star mark
    rule: wf_induct_rule [OF wf_measures [of "[\<lambda>(p, i, star, mark). glob_rank s star mark,
      \<lambda>(p, i, star, mark). (length s - i) + (length pat - p)]"]])
  case (1 p i star mark)
  note IH = "1.hyps" and i = "1.prems"(1) and p = "1.prems"(2) and inv = "1.prems"(3)
  show ?case
  proof (cases "i < length s")
    case False
    with i have iL: "i = length s" by simp
    have "\<not> later_star pat s star mark"
      using later_star_segment [OF inv _ p, of s] iL by auto
    with skip_stars_returns [OF p] iL show ?thesis
      by (auto simp: glob_loop.simps)
  next
    case il: True
    consider (lit) "p < length pat" "pat ! p = CHR ''?'' \<or> pat ! p = s ! i"
      | (star) "p < length pat" "\<not> (pat ! p = CHR ''?'' \<or> pat ! p = s ! i)" "pat ! p = CHR ''*''"
      | (mis) "\<not> (p < length pat \<and> (pat ! p = CHR ''?'' \<or> pat ! p = s ! i))"
          "\<not> (p < length pat \<and> pat ! p = CHR ''*'')"
      by blast
    then show ?thesis
    proof cases
      case lit
      have ns: "pat ! p \<noteq> CHR ''*''" using lit(2) assms(1) il nth_mem by fastforce
      have "glob_loop pat s (Suc p) (Suc i) star mark =
        Some (glob_spec (drop (Suc p) pat) (drop (Suc i) s) \<or> later_star pat s star mark)"
        using lit(1) il by (intro IH glob_inv_advance [OF inv lit(1) ns]) auto
      moreover have "glob_loop pat s p i star mark = glob_loop pat s (Suc p) (Suc i) star mark"
        using lit il by (subst glob_loop.simps) simp
      moreover have "glob_spec (drop p pat) (drop i s) = glob_spec (drop (Suc p) pat) (drop (Suc i) s)"
        using lit il ns by (auto simp: drop_Cons_nth_conv)
      ultimately show ?thesis by simp
    next
      case star
      have "glob_loop pat s (Suc p) i (Some p) i =
        Some (glob_spec (drop (Suc p) pat) (drop i s) \<or> later_star pat s (Some p) i)"
        using star il inv
        by (intro IH) (auto simp: glob_inv_def glob_rank_def split: option.splits)
      moreover have "glob_loop pat s p i star mark = glob_loop pat s (Suc p) i (Some p) i"
        using star il by (subst glob_loop.simps) auto
      moreover have "later_star pat s star mark \<Longrightarrow> glob_spec (drop p pat) (drop i s)"
      proof -
        assume "later_star pat s star mark"
        then obtain j where "i < j" "j \<le> length s" "glob_spec (drop p pat) (drop j s)"
          using later_star_segment [OF inv _ p] by blast
        then show ?thesis
          using glob_spec_star_mono [of "drop (Suc p) pat" j s i] star(1,3)
          by (simp add: drop_Cons_nth_conv)
      qed
      ultimately show ?thesis
        using later_star_here [of pat s p i] star_here [OF star(1,3) i] i by auto
    next
      case mis
      have no: "\<not> glob_spec (drop p pat) (drop i s)" by (rule glob_mismatch [OF il p mis])
      show ?thesis
      proof (cases star)
        case None
        with mis il have "glob_loop pat s p i star mark = Some False"
          by (subst glob_loop.simps) auto
        with None no show ?thesis by (simp add: later_star_def)
      next
        case (Some st)
        with inv have st: "st < p" "mark \<le> i" "pat ! st = CHR ''*''" by (auto simp: glob_inv_def)
        have "glob_loop pat s (Suc st) (Suc mark) star (Suc mark) =
          Some (glob_spec (drop (Suc st) pat) (drop (Suc mark) s) \<or> later_star pat s star (Suc mark))"
          using Some st il p by (intro IH) (auto simp: glob_rank_def glob_inv_def)
        moreover have "glob_loop pat s p i star mark = glob_loop pat s (Suc st) (Suc mark) star (Suc mark)"
          using mis il Some by (subst glob_loop.simps) auto
        moreover have "later_star pat s star mark \<longleftrightarrow>
          glob_spec (drop (Suc st) pat) (drop (Suc mark) s) \<or> later_star pat s star (Suc mark)"
          using Some st il
            ex_above_Suc [of mark "length s" "\<lambda>k. glob_spec (drop (Suc st) pat) (drop k s)"]
          by (simp add: later_star_def)
        ultimately show ?thesis using no by simp
      qed
    qed
  qed
qed


lemma glob_spec_no_star_in:
  "CHR ''*'' \<notin> set s \<Longrightarrow> globMatch pat s = Some (glob_spec pat s)"
  using glob_loop_correct [of s 0 0 pat None 0]
  by (simp add: globMatch_def glob_inv_def later_star_def)


text \<open>
  The loop returns on every input, whatever bytes the string holds: each backtrack moves the
  mark forward, and between two backtracks an index moves.
\<close>

lemma glob_loop_returns:
  assumes "i \<le> length s" and "p \<le> length pat"
    and "case star of None \<Rightarrow> True | Some st \<Rightarrow> mark \<le> i \<and> st < length pat"
  shows "\<exists>b. glob_loop pat s p i star mark = Some b"
  using assms
proof (induction "(p, i, star, mark)" arbitrary: p i star mark
    rule: wf_induct_rule [OF wf_measures [of "[\<lambda>(p, i, star, mark). glob_rank s star mark,
      \<lambda>(p, i, star, mark). (length s - i) + (length pat - p)]"]])
  case (1 p i star mark)
  note IH = "1.hyps" and prems = "1.prems"
  show ?case
  proof (cases "i < length s")
    case False
    with skip_stars_returns [OF prems(2)] show ?thesis
      by (subst glob_loop.simps) auto
  next
    case il: True
    consider (lit) "p < length pat" "pat ! p = CHR ''?'' \<or> pat ! p = s ! i"
      | (star) "p < length pat" "\<not> (pat ! p = CHR ''?'' \<or> pat ! p = s ! i)" "pat ! p = CHR ''*''"
      | (mis) "\<not> (p < length pat \<and> (pat ! p = CHR ''?'' \<or> pat ! p = s ! i))"
          "\<not> (p < length pat \<and> pat ! p = CHR ''*'')"
      by blast
    then show ?thesis
    proof cases
      case lit
      have "\<exists>b. glob_loop pat s (Suc p) (Suc i) star mark = Some b"
        using lit(1) il prems by (intro IH) (auto split: option.splits)
      with lit il show ?thesis by (subst glob_loop.simps) auto
    next
      case star
      have "\<exists>b. glob_loop pat s (Suc p) i (Some p) i = Some b"
        using star il prems by (intro IH) (auto simp: glob_rank_def split: option.splits)
      with star il show ?thesis by (subst glob_loop.simps) auto
    next
      case mis
      show ?thesis
      proof (cases star)
        case None
        with mis il show ?thesis by (subst glob_loop.simps) auto
      next
        case (Some st)
        have "\<exists>b. glob_loop pat s (Suc st) (Suc mark) star (Suc mark) = Some b"
          using Some il prems by (intro IH) (auto simp: glob_rank_def)
        with mis il Some show ?thesis by (subst glob_loop.simps) auto
      qed
    qed
  qed
qed

subsection \<open>Match lists and covered paths\<close>

text \<open>
  \<open>anyGlob\<close> and \<open>matchList\<close> ask \<open>globMatch\<close> for its answer, which exists
  (\<open>glob_loop_returns\<close>); an empty list matches everything.
\<close>

definition anyGlob :: "string list \<Rightarrow> string \<Rightarrow> bool" where
  "anyGlob patterns s \<longleftrightarrow>
     (if patterns = [] then True else list_ex (\<lambda>p. globMatch p s = Some True) patterns)"

definition matchList :: "string list \<Rightarrow> string list \<Rightarrow> bool" where
  "matchList list values \<longleftrightarrow>
     (if list = [] then True
      else list_ex (\<lambda>p. list_ex (\<lambda>v. p = ''*'' \<or> globMatch p v = Some True) values) list)"

fun hasPrefix :: "string \<Rightarrow> string \<Rightarrow> bool" where
  "hasPrefix s [] = True"
| "hasPrefix [] (c # cs) = False"
| "hasPrefix (x # xs) (c # cs) = (x = c \<and> hasPrefix xs cs)"

lemma hasPrefix_iff: "hasPrefix s pre \<longleftrightarrow> (\<exists>rest. s = pre @ rest)"
  by (induction s pre rule: hasPrefix.induct) auto

definition pathCovered :: "string \<Rightarrow> string list \<Rightarrow> bool" where
  "pathCovered p allowed \<longleftrightarrow>
     list_ex (\<lambda>a. a \<noteq> [] \<and> (p = a \<or> hasPrefix p (a @ ''.''))) allowed"

subsection \<open>Truncation at a rune boundary\<close>

text \<open>
  \<open>utf8.RuneStart\<close> is \<open>b & 0xC0 != 0x80\<close>: a byte that is not a UTF-8 continuation byte.
  Both truncations of the code walk back from the byte limit to such a byte:
  \<open>truncateUTF8\<close> of the gateway, and \<open>trunc\<close> of the usage service, which the gateway's
  \<open>n <= 0\<close> case tells apart.
\<close>

definition runeStart :: "char \<Rightarrow> bool" where
  "runeStart b \<longleftrightarrow> (of_char b :: nat) div 64 \<noteq> 2"

fun cut_back :: "string \<Rightarrow> nat \<Rightarrow> nat" where
  "cut_back s 0 = 0"
| "cut_back s (Suc n) = (if runeStart (s ! Suc n) then Suc n else cut_back s n)"

definition truncateUTF8 :: "string \<Rightarrow> int \<Rightarrow> string" where
  "truncateUTF8 s n =
     (if n \<le> 0 \<or> int (length s) \<le> n then s else take (cut_back s (nat n)) s)"

definition trunc :: "string \<Rightarrow> nat \<Rightarrow> string" where
  "trunc s n = (if length s \<le> n then s else take (cut_back s n) s)"

lemma cut_back_le: "cut_back s n \<le> n"
  by (induction n) auto

lemma cut_back_boundary: "cut_back s n = 0 \<or> runeStart (s ! cut_back s n)"
  by (induction n) auto

lemma cut_back_maximal: "cut_back s n < k \<Longrightarrow> k \<le> n \<Longrightarrow> \<not> runeStart (s ! k)"
  by (induction n) (auto simp: le_Suc_eq split: if_splits)


subsection \<open>Properties\<close>

text \<open>C36: The backtracking matcher is the textbook glob on every subject without a star byte (model
  names, platforms, header values, paths): it returns, and its answer is \<open>glob_spec\<close>.\<close>

theorem globMatch_is_glob:
  assumes "CHR ''*'' \<notin> set s"
  shows "globMatch pat s = Some (glob_spec pat s)"
  by (rule glob_spec_no_star_in [OF assms])

theorem globMatch_is_glob_witness:
  "globMatch ''gpt-*-?o'' ''gpt-5-mini-4o'' = Some (glob_spec ''gpt-*-?o'' ''gpt-5-mini-4o'') \<and>
   glob_spec ''gpt-*-?o'' ''gpt-5-mini-4o''"
  using globMatch_is_glob [of "''gpt-5-mini-4o''" "''gpt-*-?o''"] by simp

text \<open>C38: The matcher terminates on every pattern and every subject, stars in the subject
  included: the remembered star's mark only moves forward.\<close>

theorem globMatch_returns: "\<exists>b. globMatch pat s = Some b"
  unfolding globMatch_def by (rule glob_loop_returns) simp_all

text \<open>A subject that starts with a star byte is taken for a literal match of the pattern's star:
  the pattern ''*'', which should match any run, does not match the subject ''*a''.\<close>

lemma globMatch_star_subject:
  "globMatch ''*'' ''*a'' = Some False \<and> glob_spec ''*'' ''*a''"
  unfolding globMatch_def
  by (simp add: glob_loop.simps [of "''*''" "''*a''"])

text \<open>\<open>truncateUTF8\<close> returns a prefix of the string: all of it when it fits or no limit is given,
  otherwise at most \<open>n\<close> bytes, cut before a byte that starts a rune (or at 0), and at the last such
  boundary within the limit.\<close>

lemma truncateUTF8_cuts_at_rune:
  "\<exists>m. truncateUTF8 s n = take m s \<and>
    (if n \<le> 0 \<or> int (length s) \<le> n then m = length s
     else int m \<le> n \<and> (m = 0 \<or> runeStart (s ! m)) \<and>
       filter (\<lambda>k. runeStart (s ! k)) [Suc m ..< Suc (nat n)] = [])"
proof (cases "n \<le> 0 \<or> int (length s) \<le> n")
  case False
  then have "int (cut_back s (nat n)) \<le> n" using cut_back_le [of s "nat n"] by linarith
  with False cut_back_boundary [of s "nat n"] cut_back_maximal [of s "nat n"] show ?thesis
    by (intro exI [of _ "cut_back s (nat n)"]) (auto simp: truncateUTF8_def filter_empty_conv)
qed (auto simp: truncateUTF8_def)

end
