(* ===== verification/Redis.thy ===== *)
theory Redis
  imports Prelude
begin

section \<open>The Redis data the server shares between nodes\<close>

text \<open>
  The part of Redis the server's scripts use: counters, sorted sets, hashes and the expiry of a key.
  A command runs at an instant \<open>now\<close> in milliseconds (a script takes Redis \<open>TIME\<close> once, so all its
  commands share one instant). A key whose expiry is in the past is gone, a key that becomes empty
  loses its expiry. Sorted sets are association lists of member and score; nothing the server does
  depends on their order. Scripts are atomic, so each is one function on the store.
\<close>

record redis =
  rd_counter :: "string \<Rightarrow> int option"
  rd_zset :: "string \<Rightarrow> (string \<times> int) list"
  rd_hash :: "string \<Rightarrow> (string \<times> string) list"
  rd_expire :: "string \<Rightarrow> int option"

definition redis_empty :: redis where
  "redis_empty = \<lparr>rd_counter = (\<lambda>_. None), rd_zset = (\<lambda>_. []), rd_hash = (\<lambda>_. []), rd_expire = (\<lambda>_. None)\<rparr>"

definition expired :: "int \<Rightarrow> redis \<Rightarrow> string \<Rightarrow> bool" where
  "expired now r k = (case rd_expire r k of None \<Rightarrow> False | Some t \<Rightarrow> t < now)"

definition DEL :: "string \<Rightarrow> redis \<Rightarrow> redis" where
  "DEL k r = r\<lparr>rd_counter := (rd_counter r)(k := None), rd_zset := (rd_zset r)(k := []),
     rd_hash := (rd_hash r)(k := []), rd_expire := (rd_expire r)(k := None)\<rparr>"

definition purge :: "int \<Rightarrow> string \<Rightarrow> redis \<Rightarrow> redis" where
  "purge now k r = (if expired now r k then DEL k r else r)"

definition exists_key :: "redis \<Rightarrow> string \<Rightarrow> bool" where
  "exists_key r k \<longleftrightarrow> rd_counter r k \<noteq> None \<or> rd_zset r k \<noteq> [] \<or> rd_hash r k \<noteq> []"

definition drop_empty :: "string \<Rightarrow> redis \<Rightarrow> redis" where
  "drop_empty k r = (if exists_key r k then r else r\<lparr>rd_expire := (rd_expire r)(k := None)\<rparr>)"

subsection \<open>Views\<close>

definition zset_at :: "int \<Rightarrow> redis \<Rightarrow> string \<Rightarrow> (string \<times> int) list" where
  "zset_at now r k = (if expired now r k then [] else rd_zset r k)"

definition hash_at :: "int \<Rightarrow> redis \<Rightarrow> string \<Rightarrow> (string \<times> string) list" where
  "hash_at now r k = (if expired now r k then [] else rd_hash r k)"

definition GET :: "int \<Rightarrow> string \<Rightarrow> redis \<Rightarrow> int option" where
  "GET now k r = (if expired now r k then None else rd_counter r k)"

definition PTTL :: "int \<Rightarrow> string \<Rightarrow> redis \<Rightarrow> int" where
  "PTTL now k r =
     (if expired now r k \<or> \<not> exists_key r k then -2
      else case rd_expire r k of None \<Rightarrow> -1 | Some t \<Rightarrow> t - now)"

definition ZCARD :: "int \<Rightarrow> string \<Rightarrow> redis \<Rightarrow> int" where
  "ZCARD now k r = int (length (zset_at now r k))"

definition ZSCORE :: "int \<Rightarrow> string \<Rightarrow> string \<Rightarrow> redis \<Rightarrow> int option" where
  "ZSCORE now k m r = map_of (zset_at now r k) m"

definition ZCOUNT_above :: "int \<Rightarrow> string \<Rightarrow> int \<Rightarrow> redis \<Rightarrow> int" where
  "ZCOUNT_above now k x r = int (length (filter (\<lambda>(m, s). x < s) (zset_at now r k)))"

subsection \<open>Updates\<close>

definition INCRBY :: "int \<Rightarrow> string \<Rightarrow> int \<Rightarrow> redis \<Rightarrow> redis" where
  "INCRBY now k n r =
     (let r = purge now k r in
      r\<lparr>rd_counter := (rd_counter r)(k := Some (case rd_counter r k of None \<Rightarrow> n | Some i \<Rightarrow> i + n))\<rparr>)"

definition PEXPIRE :: "int \<Rightarrow> string \<Rightarrow> int \<Rightarrow> redis \<Rightarrow> redis" where
  "PEXPIRE now k ms r =
     (let r = purge now k r in
      if exists_key r k then r\<lparr>rd_expire := (rd_expire r)(k := Some (now + ms))\<rparr> else r)"

definition zset_put :: "int \<Rightarrow> string \<Rightarrow> ((string \<times> int) list \<Rightarrow> (string \<times> int) list) \<Rightarrow> redis \<Rightarrow> redis" where
  "zset_put now k f r =
     (let r = purge now k r in drop_empty k (r\<lparr>rd_zset := (rd_zset r)(k := f (rd_zset r k))\<rparr>))"

definition ZADD :: "int \<Rightarrow> string \<Rightarrow> int \<Rightarrow> string \<Rightarrow> redis \<Rightarrow> redis" where
  "ZADD now k s m = zset_put now k (\<lambda>z. (m, s) # filter (\<lambda>x. fst x \<noteq> m) z)"

definition ZREM :: "int \<Rightarrow> string \<Rightarrow> string \<Rightarrow> redis \<Rightarrow> redis" where
  "ZREM now k m = zset_put now k (filter (\<lambda>x. fst x \<noteq> m))"

definition ZREMRANGEBYSCORE :: "int \<Rightarrow> string \<Rightarrow> int \<Rightarrow> redis \<Rightarrow> redis" where
  "ZREMRANGEBYSCORE now k up = zset_put now k (filter (\<lambda>x. up < snd x))"

text \<open>\<open>ZREMRANGEBYSCORE key -inf (up\<close>, the exclusive bound.\<close>

definition ZREMRANGEBELOW :: "int \<Rightarrow> string \<Rightarrow> int \<Rightarrow> redis \<Rightarrow> redis" where
  "ZREMRANGEBELOW now k up = zset_put now k (filter (\<lambda>x. up \<le> snd x))"

definition HSET :: "int \<Rightarrow> string \<Rightarrow> (string \<times> string) list \<Rightarrow> redis \<Rightarrow> redis" where
  "HSET now k kvs r =
     (let r = purge now k r in
      r\<lparr>rd_hash := (rd_hash r)(k := kvs @ filter (\<lambda>x. fst x \<notin> fst ` set kvs) (rd_hash r k))\<rparr>)"

definition HDEL :: "int \<Rightarrow> string \<Rightarrow> string \<Rightarrow> redis \<Rightarrow> redis" where
  "HDEL now k f r =
     (let r = purge now k r in
      drop_empty k (r\<lparr>rd_hash := (rd_hash r)(k := filter (\<lambda>x. fst x \<noteq> f) (rd_hash r k))\<rparr>))"

subsection \<open>What a command does to a key's view\<close>

named_theorems redis_simps "effect of the commands on the views of a key"

lemma purge_views [redis_simps]:
  "zset_at now (purge now k r) k' = zset_at now r k'" "GET now k' (purge now k r) = GET now k' r"
  "hash_at now (purge now k r) k' = hash_at now r k'" "expired now (purge now k r) k = False"
  by (auto simp: purge_def DEL_def zset_at_def GET_def hash_at_def expired_def)

lemma purged_view [redis_simps]:
  "rd_zset (purge now k r) k = zset_at now r k" "rd_hash (purge now k r) k = hash_at now r k"
  "rd_counter (purge now k r) k = GET now k r"
  by (auto simp: purge_def DEL_def zset_at_def GET_def hash_at_def expired_def)

lemma purge_other [redis_simps]:
  "k' \<noteq> k \<Longrightarrow> rd_zset (purge now k r) k' = rd_zset r k'"
  "k' \<noteq> k \<Longrightarrow> rd_counter (purge now k r) k' = rd_counter r k'"
  "k' \<noteq> k \<Longrightarrow> rd_hash (purge now k r) k' = rd_hash r k'"
  "k' \<noteq> k \<Longrightarrow> rd_expire (purge now k r) k' = rd_expire r k'"
  by (auto simp: purge_def DEL_def)

lemma zset_put_key [redis_simps]:
  "rd_zset (zset_put now k f r) k = f (zset_at now r k)"
  "zset_at now (zset_put now k f r) k = f (zset_at now r k)"
  "rd_expire (zset_put now k f r) k =
     (if exists_key (purge now k r\<lparr>rd_zset := (rd_zset (purge now k r))(k := f (zset_at now r k))\<rparr>) k
      then rd_expire (purge now k r) k else None)"
  using purge_views(4) [of now k r]
  by (auto simp: zset_put_def Let_def drop_empty_def zset_at_def expired_def redis_simps split: option.splits)

lemma zset_put_other [redis_simps]:
  "k' \<noteq> k \<Longrightarrow> rd_zset (zset_put now k f r) k' = rd_zset r k'"
  "k' \<noteq> k \<Longrightarrow> rd_expire (zset_put now k f r) k' = rd_expire r k'"
  by (auto simp: zset_put_def Let_def drop_empty_def redis_simps)

lemma PEXPIRE_zset [redis_simps]:
  "rd_zset (PEXPIRE now k ms r) k = zset_at now r k"
  "k' \<noteq> k \<Longrightarrow> rd_zset (PEXPIRE now k ms r) k' = rd_zset r k'"
  "k' \<noteq> k \<Longrightarrow> rd_expire (PEXPIRE now k ms r) k' = rd_expire r k'"
  "zset_at now r k \<noteq> [] \<Longrightarrow> rd_expire (PEXPIRE now k ms r) k = Some (now + ms)"
  by (auto simp: PEXPIRE_def Let_def redis_simps exists_key_def)

end
