(* ===== verification/Registry.thy ===== *)
theory Registry
  imports Redis
begin

section \<open>The node registry (\<open>cluster/registry.go\<close>)\<close>

text \<open>
  Every node heartbeats into the sorted set \<open>node:live\<close> and two hashes of its own; the others judge it
  by its score. \<open>registry\<close> holds the process state of \<open>Registry\<close>: the options, the two last-success
  clocks and the plugin reports it sends again with every heartbeat. Instants are Redis milliseconds;
  the process clock of \<open>Healthy\<close> is a second argument. A failing Redis call is the flag \<open>ok\<close>.
\<close>

definition keyNodeLive :: string where "keyNodeLive = ''node:live''"
definition keyNodeInfo :: "string \<Rightarrow> string" where "keyNodeInfo boot = ''node:info:'' @ boot"
definition keyNodePlugins :: "string \<Rightarrow> string" where "keyNodePlugins boot = ''node:plugins:'' @ boot"

lemma key_distinct [simp]:
  "keyNodeInfo b \<noteq> keyNodeLive" "keyNodePlugins b \<noteq> keyNodeLive" "keyNodeInfo b \<noteq> keyNodePlugins c"
  "keyNodeLive \<noteq> keyNodeInfo b" "keyNodeLive \<noteq> keyNodePlugins b" "keyNodePlugins c \<noteq> keyNodeInfo b"
  by (auto simp: keyNodeLive_def keyNodeInfo_def keyNodePlugins_def)

record registry =
  rg_node :: string
  rg_boot :: string
  rg_addr :: string
  rg_version :: string
  rg_started :: string
  rg_managed :: bool
  rg_core_boot :: string
  rg_ttl :: int
  rg_has_pg :: bool
  rg_lastRS :: int
  rg_lastPG :: int
  rg_plugins :: "(string \<times> string) list"

definition info_fields :: "registry \<Rightarrow> int \<Rightarrow> (string \<times> string) list" where
  "info_fields g now =
     [(''node_id'', rg_node g), (''addr'', rg_addr g), (''host_version'', rg_version g),
      (''started_at'', rg_started g), (''last_heartbeat'', itoa now),
      (''managed'', if rg_managed g then ''true'' else ''false''), (''core_boot_id'', rg_core_boot g)]"

definition heartbeatScript :: "int \<Rightarrow> registry \<Rightarrow> redis \<Rightarrow> redis" where
  "heartbeatScript now g r =
     (let ttl = rg_ttl g; info = keyNodeInfo (rg_boot g); plug = keyNodePlugins (rg_boot g);
          r = ZADD now keyNodeLive now (rg_boot g) r;
          r = ZREMRANGEBELOW now keyNodeLive (now - ttl) r;
          r = PEXPIRE now info ttl (HSET now info (info_fields g now) r);
          r = (if rg_plugins g = [] then r else HSET now plug (rg_plugins g) r)
      in PEXPIRE now plug ttl r)"

definition markRedisOK :: "int \<Rightarrow> registry \<Rightarrow> registry" where
  "markRedisOK clock g = g\<lparr>rg_lastRS := clock\<rparr>"

definition Heartbeat :: "bool \<Rightarrow> bool \<Rightarrow> int \<Rightarrow> int \<Rightarrow> registry \<Rightarrow> redis \<Rightarrow> registry \<times> redis" where
  "Heartbeat pg_ok ok now clock g r =
     (let g = (if rg_has_pg g \<and> pg_ok then g\<lparr>rg_lastPG := clock\<rparr> else g) in
      if \<not> ok then (g, r) else (markRedisOK clock g, heartbeatScript now g r))"

definition Leave :: "bool \<Rightarrow> int \<Rightarrow> registry \<Rightarrow> redis \<Rightarrow> redis" where
  "Leave ok now g r =
     (if \<not> ok then r
      else DEL (keyNodePlugins (rg_boot g)) (DEL (keyNodeInfo (rg_boot g)) (ZREM now keyNodeLive (rg_boot g) r)))"

definition live_members :: "int \<Rightarrow> int \<Rightarrow> redis \<Rightarrow> (string \<times> int) list" where
  "live_members now ttl r = filter (\<lambda>(b, s). now - ttl \<le> s) (zset_at now r keyNodeLive)"

record node_status =
  ns_boot :: string
  ns_heartbeat :: int
  ns_info :: "(string \<times> string) list"
  ns_plugins :: "(string \<times> string) list"

definition status_of :: "int \<Rightarrow> redis \<Rightarrow> string \<times> int \<Rightarrow> node_status" where
  "status_of now r z = \<lparr>ns_boot = fst z, ns_heartbeat = snd z, ns_info = hash_at now r (keyNodeInfo (fst z)),
     ns_plugins = hash_at now r (keyNodePlugins (fst z))\<rparr>"

text \<open>The members are read at \<open>now\<close>, their hashes in a second call at \<open>now2\<close> on the store \<open>r2\<close>.\<close>

definition LiveNodes :: "int \<Rightarrow> int \<Rightarrow> registry \<Rightarrow> redis \<Rightarrow> redis \<Rightarrow> node_status list" where
  "LiveNodes now now2 g r r2 =
     filter (\<lambda>st. ns_info st \<noteq> []) (map (status_of now2 r2) (live_members now (rg_ttl g) r))"

definition IsAlive :: "int \<Rightarrow> int \<Rightarrow> string \<Rightarrow> redis \<Rightarrow> bool" where
  "IsAlive now ttl boot r =
     (case ZSCORE now keyNodeLive boot r of None \<Rightarrow> False | Some s \<Rightarrow> now - ttl \<le> s)"

definition ReportPlugin :: "bool \<Rightarrow> int \<Rightarrow> int \<Rightarrow> string \<Rightarrow> string \<Rightarrow> registry \<Rightarrow> redis \<Rightarrow> registry \<times> redis" where
  "ReportPlugin ok now clock key state g r =
     (let k = keyNodePlugins (rg_boot g);
          rest = filter (\<lambda>x. fst x \<noteq> key) (rg_plugins g);
          g = g\<lparr>rg_plugins := (if state = [] then rest else (key, state) # rest)\<rparr>
      in if \<not> ok then (g, r)
         else (markRedisOK clock g,
           PEXPIRE now k (rg_ttl g) (if state = [] then HDEL now k key r else HSET now k [(key, state)] r)))"

definition Healthy :: "int \<Rightarrow> registry \<Rightarrow> bool" where
  "Healthy clock g =
     (let limit = clock - rg_ttl g
      in if rg_lastRS g < limit then False
         else if rg_has_pg g \<and> rg_lastPG g < limit then False
         else True)"

subsection \<open>Who is alive\<close>

lemma HSET_views [redis_simps]:
  "k' \<noteq> k \<Longrightarrow> rd_zset (HSET now k kvs r) k' = rd_zset r k'"
  "k' \<noteq> k \<Longrightarrow> rd_expire (HSET now k kvs r) k' = rd_expire r k'"
  "k' \<noteq> k \<Longrightarrow> rd_hash (HSET now k kvs r) k' = rd_hash r k'"
  "rd_hash (HSET now k kvs r) k = kvs @ filter (\<lambda>x. fst x \<notin> fst ` set kvs) (hash_at now r k)"
  "kvs \<noteq> [] \<Longrightarrow> exists_key (HSET now k kvs r) k"
  "expired now (HSET now k kvs r) k = False"
  by (auto simp: HSET_def Let_def redis_simps expired_def exists_key_def purge_def DEL_def hash_at_def split: option.splits)

lemma hash_frame [redis_simps]:
  "rd_hash (zset_put now keyNodeLive f r) (keyNodePlugins b) = rd_hash r (keyNodePlugins b)"
  "k' \<noteq> k \<Longrightarrow> rd_hash (PEXPIRE now k ms r) k' = rd_hash r k'"
  by (auto simp: zset_put_def PEXPIRE_def Let_def drop_empty_def redis_simps)

lemma DEL_views [redis_simps]:
  "k' \<noteq> k \<Longrightarrow> rd_zset (DEL k r) k' = rd_zset r k'" "k' \<noteq> k \<Longrightarrow> rd_expire (DEL k r) k' = rd_expire r k'"
  by (auto simp: DEL_def)

text \<open>\<open>node:live\<close> never gets an expiry of its own.\<close>

definition live_ok :: "redis \<Rightarrow> bool" where
  "live_ok r \<longleftrightarrow> rd_expire r keyNodeLive = None"

lemma live_view: "live_ok r \<Longrightarrow> zset_at now r keyNodeLive = rd_zset r keyNodeLive"
  by (simp add: live_ok_def zset_at_def expired_def)

lemma live_zset_put: "live_ok r \<Longrightarrow> live_ok (zset_put now keyNodeLive f r)"
  by (simp add: live_ok_def redis_simps purge_def expired_def)

lemma heartbeat_live:
  assumes "live_ok r"
  shows "live_ok (heartbeatScript now g r) \<and> rd_zset (heartbeatScript now g r) keyNodeLive =
    filter (\<lambda>x. now - rg_ttl g \<le> snd x) ((rg_boot g, now) # filter (\<lambda>x. fst x \<noteq> rg_boot g) (rd_zset r keyNodeLive))"
proof -
  have "live_ok (ZADD now keyNodeLive now (rg_boot g) r)" by (simp add: ZADD_def live_zset_put assms)
  then show ?thesis
    using live_view [OF assms, of now]
    by (simp add: heartbeatScript_def Let_def live_ok_def redis_simps ZADD_def ZREMRANGEBELOW_def live_view)
      (simp add: expired_def purge_def redis_simps)
qed

lemma Heartbeat_beats:
  assumes "Heartbeat pg_ok True now clock g r = (g', r')"
  shows "\<exists>h. r' = heartbeatScript now h r \<and> rg_boot h = rg_boot g \<and> rg_ttl h = rg_ttl g \<and> rg_plugins h = rg_plugins g"
  using assms by (cases "rg_has_pg g \<and> pg_ok") (auto simp: Heartbeat_def Let_def)

lemma IsAlive_iff: "live_ok r \<Longrightarrow> IsAlive now ttl b r \<longleftrightarrow>
    (case map_of (rd_zset r keyNodeLive) b of None \<Rightarrow> False | Some s \<Rightarrow> now - ttl \<le> s)"
  by (simp add: IsAlive_def ZSCORE_def live_view)

lemma map_of_filter_keep:
  "map_of z b = Some s \<Longrightarrow> P (b, s) \<Longrightarrow> map_of (filter P z) b = Some s"
  by (induction z) (auto split: if_splits)

lemma map_of_filter_other: "map_of (filter (\<lambda>x. fst x \<noteq> c) z) b = (if b = c then None else map_of z b)"
  by (induction z) auto

subsection \<open>Heartbeats of other nodes\<close>

inductive others :: "string \<Rightarrow> int \<Rightarrow> int \<Rightarrow> redis \<Rightarrow> redis \<Rightarrow> bool" for b ttl until where
  others_refl: "others b ttl until r r"
| others_beat: "others b ttl until r r' \<Longrightarrow> rg_boot g \<noteq> b \<Longrightarrow> rg_ttl g = ttl \<Longrightarrow> now \<le> until \<Longrightarrow>
    others b ttl until r (heartbeatScript now g r')"
| others_leave: "others b ttl until r r' \<Longrightarrow> rg_boot g \<noteq> b \<Longrightarrow> others b ttl until r (Leave ok now g r')"
| others_report: "others b ttl until r r' \<Longrightarrow> others b ttl until r (snd (ReportPlugin ok now clock key st g r'))"

lemma report_live:
  "rd_zset (snd (ReportPlugin ok now clock key st g r)) keyNodeLive = rd_zset r keyNodeLive"
  "rd_expire (snd (ReportPlugin ok now clock key st g r)) keyNodeLive = rd_expire r keyNodeLive"
  by (simp_all add: ReportPlugin_def Let_def redis_simps HDEL_def drop_empty_def)

lemma leave_live: "live_ok r \<Longrightarrow> live_ok (Leave ok now g r) \<and>
    (rg_boot g \<noteq> b \<longrightarrow> map_of (rd_zset (Leave ok now g r) keyNodeLive) b = map_of (rd_zset r keyNodeLive) b)"
  using live_zset_put [of r now "filter (\<lambda>x. fst x \<noteq> rg_boot g)"]
  by (auto simp: Leave_def live_ok_def redis_simps ZREM_def live_view map_of_filter_other)

lemma others_keep:
  assumes "others b ttl until r r'" and "live_ok r" and "map_of (rd_zset r keyNodeLive) b = Some s" and "until - ttl \<le> s"
  shows "live_ok r' \<and> map_of (rd_zset r' keyNodeLive) b = Some s"
  using assms
proof (induction rule: others.induct)
  case (others_beat r r' g now)
  then have ih: "live_ok r'" "map_of (rd_zset r' keyNodeLive) b = Some s" by auto
  from heartbeat_live [OF ih(1), of now g] ih(2) others_beat.hyps others_beat.prems show ?case
    by (auto simp: map_of_filter_other intro!: map_of_filter_keep)
next
  case (others_leave r r' g ok now)
  then show ?case using leave_live [of r' ok now g b] by auto
next
  case (others_report r r' ok now clock key st g)
  then show ?case by (simp add: live_ok_def report_live)
qed simp

subsection \<open>Properties\<close>

definition demo_node :: "string \<Rightarrow> registry" where
  "demo_node b = \<lparr>rg_node = ''n'', rg_boot = b, rg_addr = [], rg_version = ''1'', rg_started = [], rg_managed = False,
     rg_core_boot = [], rg_ttl = 15000, rg_has_pg = True, rg_lastRS = 0, rg_lastPG = 0, rg_plugins = []\<rparr>"

text \<open>A heartbeat keeps a node alive for its liveness window: whatever the other nodes do in the
  meantime (heartbeats that drop stale members, reports, departures), every node that asks within the
  window finds it alive.\<close>

lemma heartbeat_keeps_alive:
  assumes "live_ok r" and "Heartbeat pg_ok True now clock g r = (g', r1)" and "0 \<le> rg_ttl g"
    and "others (rg_boot g) (rg_ttl g) (now + rg_ttl g) r1 r2" and "t \<le> now + rg_ttl g"
  shows "IsAlive t (rg_ttl g) (rg_boot g) r2"
proof -
  from Heartbeat_beats [OF assms(2)] obtain h where r1: "r1 = heartbeatScript now h r"
    and h: "rg_boot h = rg_boot g" "rg_ttl h = rg_ttl g" by blast
  have 1: "live_ok r1" using heartbeat_live [OF assms(1), of now h] by (simp only: r1)
  have 2: "map_of (rd_zset r1 keyNodeLive) (rg_boot g) = Some now"
    using heartbeat_live [OF assms(1), of now h] assms(3) by (simp add: r1 h)
  from others_keep [OF assms(4) 1 2] have "live_ok r2" "map_of (rd_zset r2 keyNodeLive) (rg_boot g) = Some now" by auto
  with assms(5) show ?thesis by (simp add: IsAlive_iff)
qed

lemma heartbeat_keeps_alive_witness:
  "\<exists>r2. others ''a'' 15000 16000 (snd (Heartbeat True True 1000 0 (demo_node ''a'') redis_empty)) r2 \<and>
     IsAlive 16000 15000 ''a'' r2"
proof -
  let ?g = "demo_node ''a''"
  obtain g' r1 where h: "Heartbeat True True 1000 0 ?g redis_empty = (g', r1)"
    by (cases "Heartbeat True True 1000 0 ?g redis_empty")
  have o: "others ''a'' 15000 16000 r1 (heartbeatScript 9000 (demo_node ''b'') r1)"
    by (rule others_beat [OF others_refl]) (simp_all add: demo_node_def)
  have "IsAlive 16000 (rg_ttl ?g) (rg_boot ?g) (heartbeatScript 9000 (demo_node ''b'') r1)"
    by (rule heartbeat_keeps_alive [OF _ h]) (use o in \<open>simp_all add: live_ok_def redis_empty_def demo_node_def\<close>)
  with o h show ?thesis by (auto simp: demo_node_def)
qed


subsection \<open>Reports that stay\<close>

definition reported :: "string \<Rightarrow> string \<Rightarrow> redis \<Rightarrow> bool" where
  "reported boot key r \<longleftrightarrow> key \<in> fst ` set (rd_hash r (keyNodePlugins boot))"

definition keyed_ok :: "string \<Rightarrow> int \<Rightarrow> redis \<Rightarrow> bool" where
  "keyed_ok boot t r \<longleftrightarrow> (case rd_expire r (keyNodePlugins boot) of None \<Rightarrow> True | Some e \<Rightarrow> t \<le> e)"

lemma heartbeat_reports:
  assumes "keyed_ok (rg_boot g) now r" and "reported (rg_boot g) key r"
  shows "reported (rg_boot g) key (heartbeatScript now g r) \<and> keyed_ok (rg_boot g) (now + rg_ttl g) (heartbeatScript now g r)"
proof -
  let ?k = "keyNodePlugins (rg_boot g)"
  define m where "m = PEXPIRE now (keyNodeInfo (rg_boot g)) (rg_ttl g) (HSET now (keyNodeInfo (rg_boot g)) (info_fields g now)
     (ZREMRANGEBELOW now keyNodeLive (now - rg_ttl g) (ZADD now keyNodeLive now (rg_boot g) r)))"
  define w where "w = (if rg_plugins g = [] then m else HSET now ?k (rg_plugins g) m)"
  have e: "rd_expire m ?k = rd_expire r ?k" and h: "rd_hash m ?k = rd_hash r ?k"
    by (simp_all add: m_def redis_simps ZADD_def ZREMRANGEBELOW_def hash_frame)
  have live: "\<not> expired now m ?k"
    using assms(1) by (simp add: expired_def keyed_ok_def e split: option.splits)
  have "key \<in> fst ` set (rd_hash w ?k) \<and> \<not> expired now w ?k"
    using assms(2) live by (auto simp: w_def redis_simps reported_def h hash_at_def)
  moreover have "heartbeatScript now g r = PEXPIRE now ?k (rg_ttl g) w"
    by (simp add: heartbeatScript_def Let_def m_def w_def)
  ultimately show ?thesis
    by (auto simp: PEXPIRE_def Let_def purge_def exists_key_def reported_def keyed_ok_def)
qed

primrec beats :: "int list \<Rightarrow> registry \<Rightarrow> redis \<Rightarrow> redis" where
  "beats [] g r = r"
| "beats (t # ts) g r = beats ts g (heartbeatScript t g r)"

fun in_time :: "int \<Rightarrow> int \<Rightarrow> int list \<Rightarrow> bool" where
  "in_time ttl t [] = True"
| "in_time ttl t (u # us) = (u \<le> t + ttl \<and> in_time ttl u us)"

lemma beats_report:
  assumes "in_time (rg_ttl g) t ts" and "keyed_ok (rg_boot g) (t + rg_ttl g) r" and "reported (rg_boot g) key r"
  shows "reported (rg_boot g) key (beats ts g r)"
  using assms
proof (induction ts arbitrary: t r)
  case (Cons u us)
  then have "keyed_ok (rg_boot g) u r" by (auto simp: keyed_ok_def split: option.splits)
  from heartbeat_reports [OF this] Cons show ?case by auto
qed simp

text \<open>A removed plugin whose removal Redis missed stays reported: when \<open>ReportPlugin\<close> with an empty state
  fails, the process forgets the plugin, every later heartbeat only adds fields and prolongs the hash, so
  other nodes see the plugin on this node for as long as it lives.\<close>

lemma missed_removal_stays_reported:
  assumes "reported (rg_boot g) key r" and "keyed_ok (rg_boot g) (t + rg_ttl g) r" and "in_time (rg_ttl g) t ts"
  shows "key \<notin> fst ` set (rg_plugins (fst (ReportPlugin False now clock key [] g r))) \<and>
    reported (rg_boot g) key (beats ts (fst (ReportPlugin False now clock key [] g r)) (snd (ReportPlugin False now clock key [] g r)))"
  using beats_report [of "g\<lparr>rg_plugins := filter (\<lambda>x. fst x \<noteq> key) (rg_plugins g)\<rparr>" t ts r key] assms
  by (auto simp: ReportPlugin_def Let_def)

lemma missed_removal_stays_reported_witness:
  "\<exists>r. reported ''a'' ''p'' (beats [5000, 10000, 25000] (fst (ReportPlugin False 0 0 ''p'' [] (demo_node ''a'') r)) r)"
proof -
  let ?r = "snd (ReportPlugin True 0 0 ''p'' ''up'' (demo_node ''a'') redis_empty)"
  have "reported (rg_boot (demo_node ''a'')) ''p'' ?r" "keyed_ok (rg_boot (demo_node ''a'')) (0 + rg_ttl (demo_node ''a'')) ?r"
    "in_time (rg_ttl (demo_node ''a'')) 0 [5000, 10000, 25000]"
    by code_simp+
  from missed_removal_stays_reported [OF this, of 0 0] show ?thesis
    by (intro exI [of _ ?r]) (simp add: ReportPlugin_def Let_def demo_node_def)
qed

end
