(* ===== verification/Slots.thy ===== *)
theory Slots
  imports Registry
begin

section \<open>Concurrency slots (\<open>cluster/slots.go\<close>)\<close>

text \<open>
  A slot is a member \<open>boot:request:lease\<close> of the sorted set \<open>slot:kind:id\<close>, scored by its expiry. The
  three Lua scripts are functions on the store; a lease is the process side: the member it holds and
  the instant its timer cancels the request. The local timer and Redis advance together, so one clock
  in milliseconds serves both; what the code assumes of them is only that a call starts before Redis
  runs it (\<open>started \<le> now\<close>).
\<close>

definition SlotKey :: "string \<Rightarrow> int \<Rightarrow> string" where
  "SlotKey kind i = ''slot:'' @ kind @ '':'' @ itoa i"

definition acquireScript :: "int \<Rightarrow> int \<Rightarrow> int \<Rightarrow> string \<Rightarrow> string \<Rightarrow> redis \<Rightarrow> int \<times> redis" where
  "acquireScript now ttl limit member k r =
     (let r = ZREMRANGEBYSCORE now k now r in
      if 0 < limit \<and> limit \<le> ZCARD now k r then (0, r)
      else (1, PEXPIRE now k ttl (ZADD now k (now + ttl) member r)))"

definition refreshSlotScript :: "int \<Rightarrow> string \<Rightarrow> int \<Rightarrow> string \<Rightarrow> redis \<Rightarrow> int \<times> redis" where
  "refreshSlotScript now member ttl k r =
     (case ZSCORE now k member r of
        None \<Rightarrow> (0, r)
      | Some old \<Rightarrow>
          if old \<le> now then (0, r)
          else (1, PEXPIRE now k ttl (ZADD now k (now + ttl) member r)))"

text \<open>The boot id is the part before the first colon, the whole member without one.\<close>

definition boot_of :: "string \<Rightarrow> string" where
  "boot_of m = takeWhile (\<lambda>c. c \<noteq> CHR '':'') m"

definition reclaimScript :: "int \<Rightarrow> int \<Rightarrow> string \<Rightarrow> string \<Rightarrow> redis \<Rightarrow> int \<times> redis" where
  "reclaimScript now nodeTTL own k r =
     (if \<not> IsAlive now nodeTTL own r then (-1, r)
      else
        let r1 = ZREMRANGEBYSCORE now k now r;
            dead = filter (\<lambda>x. \<not> IsAlive now nodeTTL (boot_of (fst x)) r) (zset_at now r1 k)
        in (int (length dead), fold (\<lambda>x. ZREM now k (fst x)) dead r1))"

definition countSlotsScript :: "int \<Rightarrow> string \<Rightarrow> redis \<Rightarrow> int" where
  "countSlotsScript now k r = ZCOUNT_above now k now r"

subsection \<open>Leases of one process\<close>

record lease =
  ls_key :: string
  ls_member :: string
  ls_deadline :: int
  ls_cancelled :: bool

text \<open>
  \<open>AcquireLease\<close>: started at \<open>started\<close>, run by Redis at \<open>now\<close>, answered at \<open>back\<close>. \<open>reply\<close> says whether the
  answer arrived; without one the caller gets an error, and the member may have been added all the same.
\<close>

definition AcquireLease :: "bool \<Rightarrow> int \<Rightarrow> int \<Rightarrow> int \<Rightarrow> int \<Rightarrow> int \<Rightarrow> string \<Rightarrow> string \<Rightarrow> redis \<Rightarrow>
    (string + lease option) \<times> redis" where
  "AcquireLease reply started now back ttl limit k member r =
     (case acquireScript now ttl limit member k r of
        (n, r') \<Rightarrow>
          if \<not> reply then (Inl ''redis'', r')
          else if n \<noteq> 1 then (Inr None, r')
          else (Inr (Some \<lparr>ls_key = k, ls_member = member, ls_deadline = started + ttl,
                   ls_cancelled = (ttl - (back - started) \<le> 0)\<rparr>), r'))"

text \<open>One held lease of \<open>refresh\<close>: lost when the call failed, answered anything but 1, or came back too
  late; otherwise its timer restarts. A timer that has already fired stays fired.\<close>

definition refresh_lease :: "bool \<Rightarrow> int \<Rightarrow> int \<Rightarrow> int \<Rightarrow> int \<Rightarrow> lease \<Rightarrow> redis \<Rightarrow> lease option \<times> redis" where
  "refresh_lease reply started now back ttl l r =
     (case refreshSlotScript now (ls_member l) ttl (ls_key l) r of
        (n, r') \<Rightarrow>
          if \<not> reply \<or> n \<noteq> 1 \<or> ttl - (back - started) \<le> 0 then (None, r')
          else (Some (l\<lparr>ls_deadline := started + ttl,
                   ls_cancelled := (ls_cancelled l \<or> ls_deadline l \<le> back)\<rparr>), r'))"

definition release_lease :: "bool \<Rightarrow> int \<Rightarrow> lease \<Rightarrow> redis \<Rightarrow> redis" where
  "release_lease ok now l r = (if ok then ZREM now (ls_key l) (ls_member l) r else r)"

definition InUse :: "int \<Rightarrow> string \<Rightarrow> int \<Rightarrow> redis \<Rightarrow> int" where
  "InUse now kind i r = countSlotsScript now (SlotKey kind i) r"

definition InUseMany :: "int \<Rightarrow> string \<Rightarrow> int list \<Rightarrow> redis \<Rightarrow> (int \<times> int) list" where
  "InUseMany now kind ids r = map (\<lambda>i. (i, countSlotsScript now (SlotKey kind i) r)) ids"

primrec Reclaim :: "int \<Rightarrow> int \<Rightarrow> string \<Rightarrow> string list \<Rightarrow> int \<Rightarrow> redis \<Rightarrow> int \<times> redis" where
  "Reclaim now nodeTTL own [] removed r = (removed, r)"
| "Reclaim now nodeTTL own (k # ks) removed r =
     (case reclaimScript now nodeTTL own k r of
        (n, r') \<Rightarrow> if n < 0 then (removed, r') else Reclaim now nodeTTL own ks (removed + n) r')"

definition live_lease :: "int \<Rightarrow> lease \<Rightarrow> bool" where
  "live_lease now l \<longleftrightarrow> \<not> ls_cancelled l \<and> now < ls_deadline l"


subsection \<open>What the scripts keep of a slot key\<close>

text \<open>Members are distinct, no score is further away than the lease time, and the key outlives its members,
  so its expiry never drops an unexpired lease.\<close>

definition slot_ok :: "int \<Rightarrow> int \<Rightarrow> string \<Rightarrow> redis \<Rightarrow> bool" where
  "slot_ok ttl now k r \<longleftrightarrow> distinct (map fst (rd_zset r k)) \<and>
     (\<forall>x \<in> set (rd_zset r k). snd x \<le> now + ttl \<and> (\<exists>e. rd_expire r k = Some e \<and> snd x \<le> e))"

definition holders :: "int \<Rightarrow> string \<Rightarrow> redis \<Rightarrow> (string \<times> int) list" where
  "holders now k r = filter (\<lambda>x. now < snd x) (rd_zset r k)"

lemma holders_at: "slot_ok ttl now k r \<Longrightarrow> filter (\<lambda>x. now < snd x) (zset_at now r k) = holders now k r"
proof (cases "expired now r k")
  case True
  moreover assume "slot_ok ttl now k r"
  ultimately have "holders now k r = []"
    by (fastforce simp: holders_def slot_ok_def expired_def filter_empty_conv split: option.splits)
  with True show ?thesis by (simp add: zset_at_def)
qed (simp add: zset_at_def holders_def)

lemma slot_ok_later: "slot_ok ttl now k r \<Longrightarrow> now \<le> now' \<Longrightarrow> slot_ok ttl now' k r"
  by (fastforce simp: slot_ok_def)

lemma holders_later: "now \<le> now' \<Longrightarrow> length (holders now' k r) \<le> length (holders now k r)"
  unfolding holders_def by (rule filter_length_le_if) auto

lemma slot_cong:
  "rd_zset r' k = rd_zset r k \<Longrightarrow> rd_expire r' k = rd_expire r k \<Longrightarrow> slot_ok ttl now k r' = slot_ok ttl now k r"
  "rd_zset r' k = rd_zset r k \<Longrightarrow> holders now k r' = holders now k r"
  by (simp_all add: slot_ok_def holders_def)

lemma zset_at_set: "x \<in> set (zset_at now r k) \<Longrightarrow> x \<in> set (rd_zset r k) \<and> \<not> expired now r k"
  by (auto simp: zset_at_def split: if_splits)

lemma slot_ok_view: "slot_ok ttl now k r \<Longrightarrow> distinct (map fst (zset_at now r k))"
  by (simp add: slot_ok_def zset_at_def)

lemma slot_ok_filter:
  assumes "slot_ok ttl now k r"
  shows "slot_ok ttl now k (zset_put now k (filter P) r)"
proof -
  let ?z = "zset_put now k (filter P) r"
  have "\<exists>e. rd_expire ?z k = Some e \<and> snd x \<le> e" if x: "x \<in> set (filter P (zset_at now r k))" for x
  proof -
    from x have "filter P (zset_at now r k) \<noteq> []" by (metis empty_iff empty_set)
    then have "exists_key (purge now k r\<lparr>rd_zset := (rd_zset (purge now k r))(k := filter P (zset_at now r k))\<rparr>) k"
      by (simp add: exists_key_def)
    moreover have "\<not> expired now r k" "x \<in> set (rd_zset r k)" using x zset_at_set [of x now r k] by auto
    ultimately show ?thesis using assms by (simp add: redis_simps slot_ok_def purge_def)
  qed
  moreover have "distinct (map fst (filter P (zset_at now r k)))"
    using slot_ok_view [OF assms] by (rule distinct_map_filter)
  moreover have "snd x \<le> now + ttl" if "x \<in> set (zset_at now r k)" for x
    using zset_at_set [OF that] assms by (simp add: slot_ok_def)
  ultimately show ?thesis by (simp add: slot_ok_def redis_simps)
qed

lemma slot_ok_add:
  fixes m
  assumes "slot_ok ttl now k r"
  defines "r' \<equiv> PEXPIRE now k ttl (ZADD now k (now + ttl) m r)"
  shows "slot_ok ttl now k r'" "rd_zset r' k = (m, now + ttl) # filter (\<lambda>x. fst x \<noteq> m) (zset_at now r k)"
proof -
  show z: "rd_zset r' k = (m, now + ttl) # filter (\<lambda>x. fst x \<noteq> m) (zset_at now r k)"
    by (simp add: r'_def ZADD_def redis_simps)
  have "distinct (map fst (filter (\<lambda>x. fst x \<noteq> m) (zset_at now r k)))"
    using slot_ok_view [OF assms(1)] by (rule distinct_map_filter)
  moreover have "rd_expire r' k = Some (now + ttl)" by (simp add: r'_def ZADD_def redis_simps)
  ultimately show "slot_ok ttl now k r'"
    using assms(1) by (auto simp: slot_ok_def z dest!: zset_at_set)
qed

lemma other_key:
  assumes "k' \<noteq> k"
  shows "rd_zset (zset_put now k f r) k' = rd_zset r k'" "rd_expire (zset_put now k f r) k' = rd_expire r k'"
    "rd_zset (PEXPIRE now k t r) k' = rd_zset r k'" "rd_expire (PEXPIRE now k t r) k' = rd_expire r k'"
  using assms by (simp_all add: redis_simps)

lemmas put_defs = ZADD_def ZREM_def ZREMRANGEBYSCORE_def ZREMRANGEBELOW_def

lemma acquire_cases:
  assumes "acquireScript now ttl limit m k r = (n, r')" and "slot_ok ttl now k r"
  shows "slot_ok ttl now k r'" and "n = 0 \<Longrightarrow> rd_zset r' k = holders now k r"
    and "n \<noteq> 0 \<Longrightarrow> n = 1 \<and> rd_zset r' k = (m, now + ttl) # filter (\<lambda>x. fst x \<noteq> m) (holders now k r) \<and>
      (0 < limit \<longrightarrow> int (length (holders now k r)) < limit)"
    and "k' \<noteq> k \<Longrightarrow> rd_zset r' k' = rd_zset r k' \<and> rd_expire r' k' = rd_expire r k'"
proof -
  define z where "z = ZREMRANGEBYSCORE now k now r"
  have zset: "rd_zset z k = holders now k r" "zset_at now z k = holders now k r"
    using holders_at [OF assms(2)] by (simp_all add: z_def put_defs redis_simps)
  have ok: "slot_ok ttl now k z" unfolding z_def put_defs by (rule slot_ok_filter [OF assms(2)])
  have other: "k' \<noteq> k \<Longrightarrow> rd_zset z k' = rd_zset r k' \<and> rd_expire z k' = rd_expire r k'" for k'
    by (simp add: z_def put_defs redis_simps)
  from assms(1) have r: "(n, r') = (if 0 < limit \<and> limit \<le> int (length (holders now k r)) then (0, z)
      else (1, PEXPIRE now k ttl (ZADD now k (now + ttl) m z)))"
    by (simp add: acquireScript_def Let_def z_def [symmetric] ZCARD_def zset)
  show "slot_ok ttl now k r'" using r ok slot_ok_add(1) [OF ok] by (auto split: if_splits)
  show "n = 0 \<Longrightarrow> rd_zset r' k = holders now k r" using r zset by (auto split: if_splits)
  show "n \<noteq> 0 \<Longrightarrow> n = 1 \<and> rd_zset r' k = (m, now + ttl) # filter (\<lambda>x. fst x \<noteq> m) (holders now k r) \<and>
      (0 < limit \<longrightarrow> int (length (holders now k r)) < limit)"
    using r slot_ok_add(2) [OF ok, of m] zset by (auto split: if_splits)
  show "k' \<noteq> k \<Longrightarrow> rd_zset r' k' = rd_zset r k' \<and> rd_expire r' k' = rd_expire r k'"
    using r other by (auto simp: put_defs redis_simps split: if_splits)
qed

lemma refresh_cases:
  assumes "refreshSlotScript now m ttl k r = (n, r')" and "slot_ok ttl now k r"
  shows "slot_ok ttl now k r'" and "n \<noteq> 1 \<Longrightarrow> r' = r"
    and "n = 1 \<Longrightarrow> rd_zset r' k = (m, now + ttl) # filter (\<lambda>x. fst x \<noteq> m) (rd_zset r k) \<and>
      (\<exists>s. (m, s) \<in> set (holders now k r))"
    and "k' \<noteq> k \<Longrightarrow> rd_zset r' k' = rd_zset r k' \<and> rd_expire r' k' = rd_expire r k'"
proof -
  let ?a = "PEXPIRE now k ttl (ZADD now k (now + ttl) m r)"
  from assms(1) consider "n = 0" "r' = r"
    | s where "n = 1" "r' = ?a" "map_of (zset_at now r k) m = Some s" "now < s"
    by (auto simp: refreshSlotScript_def ZSCORE_def split: option.splits if_splits)
  then have "slot_ok ttl now k r' \<and> (n \<noteq> 1 \<longrightarrow> r' = r) \<and>
     (n = 1 \<longrightarrow> rd_zset r' k = (m, now + ttl) # filter (\<lambda>x. fst x \<noteq> m) (rd_zset r k) \<and>
       (\<exists>s. (m, s) \<in> set (holders now k r))) \<and>
     (k' \<noteq> k \<longrightarrow> rd_zset r' k' = rd_zset r k' \<and> rd_expire r' k' = rd_expire r k')"
  proof cases
    case 2
    then have m: "(m, s) \<in> set (zset_at now r k)" by (blast dest: map_of_SomeD)
    then have "\<not> expired now r k" "(m, s) \<in> set (rd_zset r k)" using zset_at_set by auto
    then show ?thesis
      using 2 slot_ok_add [OF assms(2), of m] by (auto simp: zset_at_def holders_def put_defs redis_simps)
  qed (use assms(2) in simp)
  then show "slot_ok ttl now k r'" "n \<noteq> 1 \<Longrightarrow> r' = r"
    "n = 1 \<Longrightarrow> rd_zset r' k = (m, now + ttl) # filter (\<lambda>x. fst x \<noteq> m) (rd_zset r k) \<and>
      (\<exists>s. (m, s) \<in> set (holders now k r))"
    "k' \<noteq> k \<Longrightarrow> rd_zset r' k' = rd_zset r k' \<and> rd_expire r' k' = rd_expire r k'" by auto
qed

lemma length_replace:
  "distinct (map fst z) \<Longrightarrow> (m, s) \<in> set z \<Longrightarrow> Suc (length (filter (\<lambda>x. fst x \<noteq> m) z)) = length z"
proof (induction z)
  case (Cons a z)
  show ?case
  proof (cases "fst a = m")
    case True
    have "fst y \<noteq> m" if "y \<in> set z" for y using imageI [OF that, of fst] Cons.prems(1) True by (metis distinct.simps(2) list.simps(9) set_map)
    then have "filter (\<lambda>x. fst x \<noteq> m) z = z" by simp
    with True show ?thesis by simp
  next
    case False
    with Cons show ?thesis by auto
  qed
qed simp

lemma reclaim_cases:
  assumes "reclaimScript now nodeTTL own k r = (n, r')" and "slot_ok ttl now k r"
  shows "slot_ok ttl now k r'"
    and "n < 0 \<Longrightarrow> r' = r \<and> \<not> IsAlive now nodeTTL own r"
    and "0 \<le> n \<Longrightarrow> rd_zset r' k = filter (\<lambda>x. IsAlive now nodeTTL (boot_of (fst x)) r) (holders now k r)"
    and "k' \<noteq> k \<Longrightarrow> rd_zset r' k' = rd_zset r k' \<and> rd_expire r' k' = rd_expire r k'"
proof -
  define z where "z = ZREMRANGEBYSCORE now k now r"
  define alive where "alive = (\<lambda>x::string \<times> int. IsAlive now nodeTTL (boot_of (fst x)) r)"
  define dead where "dead = filter (\<lambda>x. \<not> alive x) (zset_at now z k)"
  have zset: "zset_at now z k = holders now k r"
    using holders_at [OF assms(2)] by (simp add: z_def put_defs redis_simps)
  have ok: "slot_ok ttl now k z" unfolding z_def put_defs by (rule slot_ok_filter [OF assms(2)])
  have fold: "slot_ok ttl now k y \<Longrightarrow> slot_ok ttl now k (fold (\<lambda>x. ZREM now k (fst x)) ds y) \<and>
      zset_at now (fold (\<lambda>x. ZREM now k (fst x)) ds y) k = filter (\<lambda>x. fst x \<notin> fst ` set ds) (zset_at now y k) \<and>
      (rd_zset y k = zset_at now y k \<longrightarrow> rd_zset (fold (\<lambda>x. ZREM now k (fst x)) ds y) k =
        zset_at now (fold (\<lambda>x. ZREM now k (fst x)) ds y) k) \<and>
      (k' \<noteq> k \<longrightarrow> rd_zset (fold (\<lambda>x. ZREM now k (fst x)) ds y) k' = rd_zset y k' \<and>
        rd_expire (fold (\<lambda>x. ZREM now k (fst x)) ds y) k' = rd_expire y k')" for ds :: "(string \<times> int) list" and y
  proof (induction ds arbitrary: y)
    case (Cons d ds)
    from Cons.IH [of "ZREM now k (fst d) y"] slot_ok_filter [OF Cons.prems] show ?case
      by (auto simp: ZREM_def redis_simps conj_commute intro!: filter_cong)
  qed simp
  let ?f = "fold (\<lambda>x. ZREM now k (fst x)) dead z"
  have r: "(n, r') = (if \<not> IsAlive now nodeTTL own r then (-1, r) else (int (length dead), ?f))"
    using assms(1) by (auto simp: reclaimScript_def Let_def z_def dead_def alive_def split: if_splits)
  show "slot_ok ttl now k r'" using r fold [OF ok] assms(2) by (auto split: if_splits)
  show "n < 0 \<Longrightarrow> r' = r \<and> \<not> IsAlive now nodeTTL own r" using r by (auto split: if_splits)
  show "k' \<noteq> k \<Longrightarrow> rd_zset r' k' = rd_zset r k' \<and> rd_expire r' k' = rd_expire r k'"
    using r fold [OF ok, of dead] by (auto simp: z_def put_defs redis_simps split: if_splits)
  have keep: "filter (\<lambda>x. fst x \<notin> fst ` set dead) (holders now k r) = filter alive (holders now k r)"
    unfolding dead_def zset by (rule filter_cong) (auto simp: alive_def)
  have sub: "set (holders now k r) \<subseteq> {x. now < snd x}" by (auto simp: holders_def)
  assume "0 \<le> n"
  with r have r': "r' = ?f" by (auto split: if_splits)
  have at: "zset_at now r' k = filter alive (holders now k r)" using fold [OF ok, of dead] by (simp add: r' zset keep)
  have "rd_zset z k = zset_at now z k" by (simp add: z_def put_defs redis_simps)
  then have "rd_zset r' k = zset_at now r' k" using fold [OF ok, of dead] by (simp add: r')
  with at show "rd_zset r' k = filter (\<lambda>x. IsAlive now nodeTTL (boot_of (fst x)) r) (holders now k r)"
    by (simp add: alive_def)
qed


subsection \<open>All nodes together\<close>

text \<open>
  The state of a cluster: Redis, the clock, the leases the processes hold, and the boots some node has
  judged dead while reclaiming. \<open>cap\<close> is the largest limit any node uses for a key. Steps: time passes;
  a lease is acquired, refreshed or released, with or without an answer from Redis; a node reclaims a
  key; a node heartbeats, reports or leaves.
\<close>

record cluster =
  cs_redis :: redis
  cs_now :: int
  cs_leases :: "lease set"
  cs_judged :: "string set"

definition judged_by :: "int \<Rightarrow> int \<Rightarrow> string \<Rightarrow> redis \<Rightarrow> string set" where
  "judged_by now nodeTTL k r = {boot_of m |m. m \<in> fst ` set (rd_zset r k) \<and> \<not> IsAlive now nodeTTL (boot_of m) r}"

definition slot_keys :: "string set" where
  "slot_keys = {k. take 5 k = ''slot:''}"

lemma slot_key_apart [simp]:
  "SlotKey kind i \<in> slot_keys" "keyNodeLive \<notin> slot_keys" "keyNodeInfo b \<notin> slot_keys" "keyNodePlugins b \<notin> slot_keys"
  by (simp_all add: slot_keys_def SlotKey_def keyNodeLive_def keyNodeInfo_def keyNodePlugins_def)

inductive cstep :: "int \<Rightarrow> int \<Rightarrow> (string \<Rightarrow> nat) \<Rightarrow> cluster \<Rightarrow> cluster \<Rightarrow> bool" for ttl nodeTTL cap where
  c_tick: "cs_now s \<le> t \<Longrightarrow> cstep ttl nodeTTL cap s (s\<lparr>cs_now := t\<rparr>)"
| c_acquire: "started \<le> cs_now s \<Longrightarrow> 0 < limit \<Longrightarrow> limit \<le> int (cap (SlotKey kind i)) \<Longrightarrow>
    \<forall>l \<in> cs_leases s. ls_member l \<noteq> m \<Longrightarrow>
    AcquireLease reply started (cs_now s) back ttl limit (SlotKey kind i) m (cs_redis s) = (out, r') \<Longrightarrow>
    cstep ttl nodeTTL cap s (s\<lparr>cs_redis := r',
      cs_leases := (case out of Inr (Some l) \<Rightarrow> insert l (cs_leases s) | _ \<Rightarrow> cs_leases s)\<rparr>)"
| c_refresh: "started \<le> cs_now s \<Longrightarrow> cs_now s \<le> back \<Longrightarrow> l \<in> cs_leases s \<Longrightarrow>
    refresh_lease reply started (cs_now s) back ttl l (cs_redis s) = (out, r') \<Longrightarrow>
    cstep ttl nodeTTL cap s (s\<lparr>cs_redis := r',
      cs_leases := (case out of Some l' \<Rightarrow> insert l' (cs_leases s - {l}) | None \<Rightarrow> cs_leases s - {l})\<rparr>)"
| c_release: "l \<in> cs_leases s \<Longrightarrow>
    cstep ttl nodeTTL cap s (s\<lparr>cs_redis := release_lease ok (cs_now s) l (cs_redis s), cs_leases := cs_leases s - {l}\<rparr>)"
| c_reclaim: "k \<in> slot_keys \<Longrightarrow> reclaimScript (cs_now s) nodeTTL own k (cs_redis s) = (n, r') \<Longrightarrow>
    cstep ttl nodeTTL cap s (s\<lparr>cs_redis := r',
      cs_judged := cs_judged s \<union> (if n < 0 then {} else judged_by (cs_now s) nodeTTL k (cs_redis s))\<rparr>)"
| c_beat: "cstep ttl nodeTTL cap s (s\<lparr>cs_redis := snd (Heartbeat pg_ok ok (cs_now s) clock g (cs_redis s))\<rparr>)"
| c_leave: "cstep ttl nodeTTL cap s (s\<lparr>cs_redis := Leave ok (cs_now s) g (cs_redis s)\<rparr>)"
| c_report: "cstep ttl nodeTTL cap s (s\<lparr>cs_redis := snd (ReportPlugin ok (cs_now s) clock key st g (cs_redis s))\<rparr>)"

definition backed :: "cluster \<Rightarrow> lease \<Rightarrow> bool" where
  "backed s l \<longleftrightarrow> (live_lease (cs_now s) l \<and> boot_of (ls_member l) \<notin> cs_judged s \<longrightarrow>
     (\<exists>sc. (ls_member l, sc) \<in> set (rd_zset (cs_redis s) (ls_key l)) \<and> ls_deadline l \<le> sc))"

definition cluster_ok :: "int \<Rightarrow> (string \<Rightarrow> nat) \<Rightarrow> cluster \<Rightarrow> bool" where
  "cluster_ok ttl cap s \<longleftrightarrow>
     (\<forall>k \<in> slot_keys. slot_ok ttl (cs_now s) k (cs_redis s) \<and> length (holders (cs_now s) k (cs_redis s)) \<le> cap k) \<and>
     (\<forall>l \<in> cs_leases s. ls_key l \<in> slot_keys \<and> backed s l) \<and> inj_on ls_member (cs_leases s)"

text \<open>A step on one slot key that keeps its entries of other members, within the limit.\<close>

lemma cluster_ok_redis:
  assumes "cluster_ok ttl cap s"
    and "\<And>k. k \<in> slot_keys \<Longrightarrow> slot_ok ttl (cs_now s) k r' \<and> length (holders (cs_now s) k r') \<le> cap k"
    and "ls \<subseteq> cs_leases s" and "cs_judged s \<subseteq> js"
    and "\<And>l sc. l \<in> ls \<Longrightarrow> boot_of (ls_member l) \<notin> js \<Longrightarrow> (ls_member l, sc) \<in> set (holders (cs_now s) (ls_key l) (cs_redis s)) \<Longrightarrow>
      (ls_member l, sc) \<in> set (rd_zset r' (ls_key l))"
  shows "cluster_ok ttl cap (s\<lparr>cs_redis := r', cs_leases := ls, cs_judged := js\<rparr>)"
proof -
  have "backed (s\<lparr>cs_redis := r', cs_leases := ls, cs_judged := js\<rparr>) l" if l: "l \<in> ls" for l
  proof -
    from assms(1,3) l have "backed s l" by (auto simp: cluster_ok_def)
    with assms(4) assms(5) [OF l] show ?thesis by (fastforce simp: backed_def live_lease_def holders_def)
  qed
  moreover have "inj_on ls_member ls" using assms(1,3) by (auto simp: cluster_ok_def intro: inj_on_subset)
  ultimately show ?thesis using assms(1-3) by (auto simp: cluster_ok_def)
qed

lemma cluster_ok_frame:
  assumes "cluster_ok ttl cap s"
    and "\<And>k. k \<in> slot_keys \<Longrightarrow> rd_zset r' k = rd_zset (cs_redis s) k \<and> rd_expire r' k = rd_expire (cs_redis s) k"
  shows "cluster_ok ttl cap (s\<lparr>cs_redis := r'\<rparr>)"
proof -
  have "cluster_ok ttl cap (s\<lparr>cs_redis := r', cs_leases := cs_leases s, cs_judged := cs_judged s\<rparr>)"
  proof (rule cluster_ok_redis [OF assms(1)], goal_cases)
    case (1 k)
    from slot_cong [of r' k "cs_redis s"] assms(2) [OF 1] assms(1) 1 show ?case by (simp add: cluster_ok_def)
  next
    case (4 l sc)
    then have "ls_key l \<in> slot_keys" using assms(1) by (simp add: cluster_ok_def)
    with 4 assms(2) show ?case by (simp add: holders_def)
  qed simp_all
  then show ?thesis by simp
qed

lemma keys_apart: "k \<in> slot_keys \<Longrightarrow> k \<noteq> keyNodeLive \<and> k \<noteq> keyNodeInfo b \<and> k \<noteq> keyNodePlugins b"
  by auto

lemma heartbeat_frame:
  "k \<in> slot_keys \<Longrightarrow> rd_zset (heartbeatScript now g r) k = rd_zset r k \<and> rd_expire (heartbeatScript now g r) k = rd_expire r k"
  using keys_apart [of k "rg_boot g"] by (simp add: heartbeatScript_def Let_def put_defs redis_simps)

lemma registry_frame:
  assumes "k \<in> slot_keys"
  shows "rd_zset (snd (Heartbeat pg_ok ok now clock g r)) k = rd_zset r k \<and>
      rd_expire (snd (Heartbeat pg_ok ok now clock g r)) k = rd_expire r k"
    and "rd_zset (Leave ok now g r) k = rd_zset r k \<and> rd_expire (Leave ok now g r) k = rd_expire r k"
    and "rd_zset (snd (ReportPlugin ok now clock key st g r)) k = rd_zset r k \<and>
      rd_expire (snd (ReportPlugin ok now clock key st g r)) k = rd_expire r k"
  using keys_apart [OF assms, of "rg_boot g"] heartbeat_frame [OF assms, of now] assms
  by (auto simp: Heartbeat_def Let_def Leave_def ReportPlugin_def put_defs redis_simps HDEL_def drop_empty_def)


lemma cluster_ok_insert:
  assumes "cluster_ok ttl cap s" and "ls_key l \<in> slot_keys" and "backed s l"
    and "\<forall>l' \<in> cs_leases s. ls_member l' \<noteq> ls_member l"
  shows "cluster_ok ttl cap (s\<lparr>cs_leases := insert l (cs_leases s)\<rparr>)"
  using assms by (auto simp: cluster_ok_def backed_def inj_on_def)

lemma cluster_ok_slot:
  "cluster_ok ttl cap s \<Longrightarrow> k \<in> slot_keys \<Longrightarrow> slot_ok ttl (cs_now s) k (cs_redis s) \<and>
     length (holders (cs_now s) k (cs_redis s)) \<le> cap k"
  by (simp add: cluster_ok_def)

lemma one_key:
  assumes "cluster_ok ttl cap s" and "slot_ok ttl (cs_now s) k r'" and "length (holders (cs_now s) k r') \<le> cap k"
    and "\<And>k'. k' \<noteq> k \<Longrightarrow> rd_zset r' k' = rd_zset (cs_redis s) k' \<and> rd_expire r' k' = rd_expire (cs_redis s) k'"
    and "k' \<in> slot_keys"
  shows "slot_ok ttl (cs_now s) k' r' \<and> length (holders (cs_now s) k' r') \<le> cap k'"
  using assms slot_cong [of r' k' "cs_redis s"] cluster_ok_slot [OF assms(1,5)] by (cases "k' = k") simp_all

lemma length_holders_add:
  "rd_zset r' k = (m, t) # filter (\<lambda>x. fst x \<noteq> m) z \<Longrightarrow>
   length (holders now k r') \<le> Suc (length (filter (\<lambda>x. fst x \<noteq> m) (filter (\<lambda>x. now < snd x) z)))"
  by (simp add: holders_def conj_commute)

lemma acquire_ok:
  assumes "cluster_ok ttl cap s" and "started \<le> cs_now s" and "0 < limit" and "limit \<le> int (cap k)" and k: "k \<in> slot_keys"
    and fresh: "\<forall>l \<in> cs_leases s. ls_member l \<noteq> m"
    and a: "AcquireLease reply started (cs_now s) back ttl limit k m (cs_redis s) = (out, r')"
  shows "cluster_ok ttl cap (s\<lparr>cs_redis := r',
      cs_leases := (case out of Inr (Some l) \<Rightarrow> insert l (cs_leases s) | _ \<Rightarrow> cs_leases s)\<rparr>)"
proof -
  obtain n where n: "acquireScript (cs_now s) ttl limit m k (cs_redis s) = (n, r')"
    using a by (cases "acquireScript (cs_now s) ttl limit m k (cs_redis s)") (auto simp: AcquireLease_def split: if_splits)
  note sk = cluster_ok_slot [OF assms(1) k]
  note A = acquire_cases [OF n sk [THEN conjunct1]]
  let ?h = "holders (cs_now s) k (cs_redis s)"
  have count: "length (holders (cs_now s) k r') \<le> cap k"
  proof (cases "n = 0")
    case True
    with A(2) sk show ?thesis by (simp add: holders_def)
  next
    case False
    with A(3) have z: "rd_zset r' k = (m, cs_now s + ttl) # filter (\<lambda>x. fst x \<noteq> m) ?h" and "int (length ?h) < limit"
      using assms(3) by auto
    moreover have "length (filter (\<lambda>x. fst x \<noteq> m) (filter (\<lambda>x. cs_now s < snd x) ?h)) \<le> length ?h"
      by (rule le_trans [OF length_filter_le length_filter_le])
    ultimately show ?thesis using length_holders_add [OF z, of "cs_now s"] assms(4) by linarith
  qed
  have kept: "(ls_member l, sc) \<in> set (rd_zset r' (ls_key l))"
    if "l \<in> cs_leases s" "(ls_member l, sc) \<in> set (holders (cs_now s) (ls_key l) (cs_redis s))" for l sc
    using that fresh A(2,3) A(4) [of "ls_key l"]
    by (cases "ls_key l = k"; cases "n = 0") (auto simp: holders_def)
  have ok: "cluster_ok ttl cap (s\<lparr>cs_redis := r', cs_leases := cs_leases s, cs_judged := cs_judged s\<rparr>)"
    by (rule cluster_ok_redis [OF assms(1) one_key [OF assms(1) A(1) count A(4)]]) (use kept in auto)
  show ?thesis
  proof (cases "\<exists>l. out = Inr (Some l)")
    case False
    with ok show ?thesis by (auto split: sum.splits option.splits)
  next
    case True
    then obtain l where out: "out = Inr (Some l)" by blast
    with a n have l: "ls_key l = k" "ls_member l = m" "ls_deadline l = started + ttl" "n \<noteq> 0"
      by (auto simp: AcquireLease_def split: if_splits)
    with A(3) assms(2) have "backed (s\<lparr>cs_redis := r'\<rparr>) l" by (auto simp: backed_def)
    from cluster_ok_insert [OF _ _ this] ok k l fresh show ?thesis by (simp add: out)
  qed
qed

lemma refresh_ok:
  assumes "cluster_ok ttl cap s" and "started \<le> cs_now s" and l: "l \<in> cs_leases s"
    and a: "refresh_lease reply started (cs_now s) back ttl l (cs_redis s) = (out, r')"
  shows "cluster_ok ttl cap (s\<lparr>cs_redis := r',
      cs_leases := (case out of Some l' \<Rightarrow> insert l' (cs_leases s - {l}) | None \<Rightarrow> cs_leases s - {l})\<rparr>)"
proof -
  let ?k = "ls_key l" and ?m = "ls_member l"
  obtain n where n: "refreshSlotScript (cs_now s) ?m ttl ?k (cs_redis s) = (n, r')"
    using a by (cases "refreshSlotScript (cs_now s) ?m ttl ?k (cs_redis s)") (auto simp: refresh_lease_def split: if_splits)
  have k: "?k \<in> slot_keys" and inj: "inj_on ls_member (cs_leases s)" using assms(1) l by (auto simp: cluster_ok_def)
  note sk = cluster_ok_slot [OF assms(1) k]
  note A = refresh_cases [OF n sk [THEN conjunct1]]
  let ?h = "holders (cs_now s) ?k (cs_redis s)"
  have count: "length (holders (cs_now s) ?k r') \<le> cap ?k"
  proof (cases "n = 1")
    case True
    with A(3) obtain sc where z: "rd_zset r' ?k = (?m, cs_now s + ttl) # filter (\<lambda>x. fst x \<noteq> ?m) (rd_zset (cs_redis s) ?k)"
      and m: "(?m, sc) \<in> set ?h" by blast
    have "distinct (map fst ?h)" using sk by (simp add: holders_def slot_ok_def distinct_map_filter)
    from length_replace [OF this m] length_holders_add [OF z, of "cs_now s"] sk show ?thesis
      by (simp add: holders_def)
  qed (use A(2) sk in simp)
  have other: "ls_member x \<noteq> ?m" if "x \<in> cs_leases s - {l}" for x using that l inj by (auto simp: inj_on_def)
  have kept: "(ls_member x, sc) \<in> set (rd_zset r' (ls_key x))"
    if "x \<in> cs_leases s - {l}" "(ls_member x, sc) \<in> set (holders (cs_now s) (ls_key x) (cs_redis s))" for x sc
    using that other [OF that(1)] A(2,3) A(4) [of "ls_key x"]
    by (cases "ls_key x = ?k"; cases "n = 1") (auto simp: holders_def)
  have ok: "cluster_ok ttl cap (s\<lparr>cs_redis := r', cs_leases := cs_leases s - {l}, cs_judged := cs_judged s\<rparr>)"
    by (rule cluster_ok_redis [OF assms(1) one_key [OF assms(1) A(1) count A(4)]]) (use kept in auto)
  show ?thesis
  proof (cases out)
    case None
    with ok show ?thesis by simp
  next
    case (Some l')
    with a n have l': "ls_key l' = ?k" "ls_member l' = ?m" "ls_deadline l' = started + ttl" "n = 1"
      by (auto simp: refresh_lease_def split: if_splits)
    with A(3) assms(2) have "backed (s\<lparr>cs_redis := r', cs_leases := cs_leases s - {l}\<rparr>) l'" by (auto simp: backed_def)
    from cluster_ok_insert [OF _ _ this] ok k l' other show ?thesis by (simp add: Some)
  qed
qed

lemma cstep_ok:
  assumes "cstep ttl nodeTTL cap s t" and "cluster_ok ttl cap s"
  shows "cluster_ok ttl cap t"
  using assms
proof (induction rule: cstep.induct)
  case (c_tick s t)
  have "backed (s\<lparr>cs_now := t\<rparr>) l" if "l \<in> cs_leases s" for l
    using c_tick that by (fastforce simp: cluster_ok_def backed_def live_lease_def)
  moreover have "slot_ok ttl t k (cs_redis s) \<and> length (holders t k (cs_redis s)) \<le> cap k" if "k \<in> slot_keys" for k
    using cluster_ok_slot [OF c_tick(2) that] slot_ok_later c_tick(1) holders_later [OF c_tick(1)] le_trans by blast
  ultimately show ?case using c_tick(2) by (simp add: cluster_ok_def)
next
  case (c_acquire started s limit kind i m reply bk out r')
  then show ?case by (intro acquire_ok) auto
next
  case (c_refresh started s bk l reply out r')
  then show ?case by (intro refresh_ok)
next
  case (c_release l s ok)
  let ?k = "ls_key l"
  define r' where "r' = release_lease ok (cs_now s) l (cs_redis s)"
  have k: "?k \<in> slot_keys" and inj: "inj_on ls_member (cs_leases s)" using c_release by (auto simp: cluster_ok_def)
  note sk = cluster_ok_slot [OF c_release(2) k]
  have z: "\<not> ok \<and> r' = cs_redis s \<or> r' = zset_put (cs_now s) ?k (filter (\<lambda>x. fst x \<noteq> ls_member l)) (cs_redis s)"
    by (simp add: r'_def release_lease_def ZREM_def)
  have 1: "slot_ok ttl (cs_now s) ?k r'" using z sk slot_ok_filter by blast
  have "length (filter (\<lambda>x. cs_now s < snd x) (filter P (zset_at (cs_now s) (cs_redis s) ?k))) \<le>
      length (filter (\<lambda>x. cs_now s < snd x) (zset_at (cs_now s) (cs_redis s) ?k))" for P
    by (simp, rule filter_length_le_if) auto
  note le = this [of "\<lambda>x. fst x \<noteq> ls_member l"]
  have 2: "length (holders (cs_now s) ?k r') \<le> cap ?k"
    using z sk le holders_at [OF sk [THEN conjunct1]] by (auto simp: holders_def redis_simps)
  have 3: "k' \<noteq> ?k \<Longrightarrow> rd_zset r' k' = rd_zset (cs_redis s) k' \<and> rd_expire r' k' = rd_expire (cs_redis s) k'" for k'
    using z by (auto simp: redis_simps)
  have kept: "(ls_member x, sc) \<in> set (rd_zset r' (ls_key x))"
    if x: "x \<in> cs_leases s - {l}" and h: "(ls_member x, sc) \<in> set (holders (cs_now s) (ls_key x) (cs_redis s))" for x sc
  proof (cases "ls_key x = ?k")
    case True
    have "ls_member x \<noteq> ls_member l" using x c_release(1) inj by (auto simp: inj_on_def)
    moreover have "(ls_member x, sc) \<in> set (zset_at (cs_now s) (cs_redis s) ?k)"
      using h arg_cong [OF holders_at [OF sk [THEN conjunct1]], of set] True by auto
    ultimately show ?thesis using z h True by (auto simp: redis_simps holders_def)
  qed (use h 3 in \<open>auto simp: holders_def\<close>)
  have "cluster_ok ttl cap (s\<lparr>cs_redis := r', cs_leases := cs_leases s - {l}, cs_judged := cs_judged s\<rparr>)"
    by (rule cluster_ok_redis [OF c_release(2) one_key [OF c_release(2) 1 2 3]]) (use kept in auto)
  then show ?case by (simp add: r'_def)
next
  case (c_reclaim k s own n r')
  note sk = cluster_ok_slot [OF c_reclaim(3,1)]
  note A = reclaim_cases [OF c_reclaim(2) sk [THEN conjunct1]]
  let ?js = "cs_judged s \<union> (if n < 0 then {} else judged_by (cs_now s) nodeTTL k (cs_redis s))"
  have count: "length (holders (cs_now s) k r') \<le> cap k"
  proof (cases "n < 0")
    case False
    then have "holders (cs_now s) k r' =
        filter (\<lambda>x. IsAlive (cs_now s) nodeTTL (boot_of (fst x)) (cs_redis s)) (holders (cs_now s) k (cs_redis s))"
      using A(3) by (simp add: holders_def conj_ac)
    then show ?thesis using sk by (metis le_trans length_filter_le)
  qed (use A(2) sk in simp)
  have kept: "(ls_member x, sc) \<in> set (rd_zset r' (ls_key x))"
    if j: "boot_of (ls_member x) \<notin> ?js" and h: "(ls_member x, sc) \<in> set (holders (cs_now s) (ls_key x) (cs_redis s))" for x sc
  proof (cases "ls_key x = k")
    case True
    show ?thesis
    proof (cases "n < 0")
      case False
      have "ls_member x \<in> fst ` set (rd_zset (cs_redis s) k)" using h True by (force simp: holders_def)
      with j False have "IsAlive (cs_now s) nodeTTL (boot_of (ls_member x)) (cs_redis s)" by (auto simp: judged_by_def)
      with A(3) False h True show ?thesis by simp
    qed (use A(2) h True in \<open>simp add: holders_def\<close>)
  qed (use h A(4) in \<open>auto simp: holders_def\<close>)
  have "cluster_ok ttl cap (s\<lparr>cs_redis := r', cs_leases := cs_leases s, cs_judged := ?js\<rparr>)"
    by (rule cluster_ok_redis [OF c_reclaim(3) one_key [OF c_reclaim(3) A(1) count A(4)]]) (use kept in auto)
  then show ?case by simp
qed (auto intro: cluster_ok_frame simp: registry_frame)

lemma csteps_ok: "(cstep ttl nodeTTL cap)\<^sup>*\<^sup>* s t \<Longrightarrow> cluster_ok ttl cap s \<Longrightarrow> cluster_ok ttl cap t"
  by (induction rule: rtranclp_induct) (auto intro: cstep_ok)


subsection \<open>Properties\<close>

definition demo_cluster :: cluster where
  "demo_cluster = \<lparr>cs_redis = redis_empty, cs_now = 0, cs_leases = {}, cs_judged = {}\<rparr>"

lemma demo_cluster_ok: "cluster_ok ttl cap demo_cluster"
  by (simp add: demo_cluster_def cluster_ok_def redis_empty_def slot_ok_def holders_def)

text \<open>C14: The concurrency limit holds across all nodes: in every interleaving of acquisitions, refreshes,
  releases, reclaims, heartbeats, lost answers and passing time, the leases of a slot key that are still
  running and whose node nobody has judged dead never outnumber the limit, and \<open>InUse\<close> counts them all.\<close>

theorem leases_within_limit:
  assumes "(cstep ttl nodeTTL cap)\<^sup>*\<^sup>* s t" and "cluster_ok ttl cap s" and "k = SlotKey kind i"
  shows "let running = {l \<in> cs_leases t. ls_key l = k \<and> live_lease (cs_now t) l \<and> boot_of (ls_member l) \<notin> cs_judged t}
    in card running \<le> cap k \<and> int (card running) \<le> InUse (cs_now t) kind i (cs_redis t)"
proof -
  let ?run = "{l \<in> cs_leases t. ls_key l = k \<and> live_lease (cs_now t) l \<and> boot_of (ls_member l) \<notin> cs_judged t}"
  let ?h = "holders (cs_now t) k (cs_redis t)"
  from csteps_ok [OF assms(1,2)] have ok: "cluster_ok ttl cap t" .
  have k: "k \<in> slot_keys" by (simp add: assms(3))
  note sk = cluster_ok_slot [OF ok k]
  have "ls_member l \<in> fst ` set ?h" if "l \<in> ?run" for l
  proof -
    from that ok have "backed t l" by (auto simp: cluster_ok_def)
    with that show ?thesis by (force simp: backed_def live_lease_def holders_def)
  qed
  then have "card ?run \<le> card (fst ` set ?h)"
    using ok by (intro card_inj_on_le [of ls_member]) (auto simp: cluster_ok_def intro: inj_on_subset)
  also have "\<dots> \<le> length ?h" by (metis card_length length_map set_map)
  finally have 1: "card ?run \<le> length ?h" .
  have "InUse (cs_now t) kind i (cs_redis t) = int (length ?h)"
    using holders_at [OF sk [THEN conjunct1]]
    by (simp add: InUse_def countSlotsScript_def ZCOUNT_above_def assms(3) case_prod_unfold)
  with 1 sk show ?thesis by (simp add: Let_def)
qed

theorem leases_within_limit_witness:
  "\<exists>t. (cstep 300000 15000 (\<lambda>_. 1))\<^sup>*\<^sup>* demo_cluster t \<and>
     card {l \<in> cs_leases t. ls_key l = SlotKey ''user'' 7 \<and> live_lease (cs_now t) l \<and>
       boot_of (ls_member l) \<notin> cs_judged t} \<le> 1 \<and> cs_leases t \<noteq> {}"
proof -
  obtain l r' where a: "AcquireLease True 0 (cs_now demo_cluster) 5 300000 1 (SlotKey ''user'' 7) ''a:r:1'' (cs_redis demo_cluster) =
      (Inr (Some l), r')"
    by (simp add: AcquireLease_def acquireScript_def Let_def demo_cluster_def redis_empty_def put_defs zset_put_def purge_def
        expired_def ZCARD_def zset_at_def drop_empty_def exists_key_def)
  have "cstep 300000 15000 (\<lambda>_. 1) demo_cluster (demo_cluster\<lparr>cs_redis := r', cs_leases := insert l {}\<rparr>)"
    using c_acquire [of 0 demo_cluster 1 "\<lambda>_. 1" "''user''" 7 "''a:r:1''", OF _ _ _ _ a]
    by (simp add: demo_cluster_def)
  then have st: "(cstep 300000 15000 (\<lambda>_. 1))\<^sup>*\<^sup>* demo_cluster (demo_cluster\<lparr>cs_redis := r', cs_leases := insert l {}\<rparr>)" by simp
  from leases_within_limit [OF st demo_cluster_ok refl] st show ?thesis
    by (intro exI [of _ "demo_cluster\<lparr>cs_redis := r', cs_leases := insert l {}\<rparr>"]) (simp add: Let_def)
qed

text \<open>C31: Reclaiming never takes a slot from a live node: a node that is not alive itself changes nothing;
  for a node that is, exactly the expired members and the members of boots without a heartbeat in the window are
  gone, every other key is untouched, and the answer counts the unexpired members removed.\<close>

theorem reclaim_spares_live_nodes:
  assumes "reclaimScript now nodeTTL own k r = (n, r')" and "slot_ok ttl now k r"
  shows "(n < 0 \<and> r' = r \<and> \<not> IsAlive now nodeTTL own r) \<or>
    (IsAlive now nodeTTL own r \<and>
     rd_zset r' k = filter (\<lambda>x. IsAlive now nodeTTL (boot_of (fst x)) r) (holders now k r) \<and>
     n = int (length (holders now k r)) - int (length (rd_zset r' k)) \<and>
     (k' = k \<or> rd_zset r' k' = rd_zset r k'))"
proof (cases "n < 0")
  case False
  have at: "zset_at now (ZREMRANGEBYSCORE now k now r) k = holders now k r"
    using holders_at [OF assms(2)] by (simp add: put_defs redis_simps)
  from False assms(1) have "n = int (length (filter (\<lambda>x. \<not> IsAlive now nodeTTL (boot_of (fst x)) r) (holders now k r)))"
    by (auto simp: reclaimScript_def Let_def at split: if_splits)
  with reclaim_cases(3) [OF assms] False
    sum_length_filter_compl [of "\<lambda>x. IsAlive now nodeTTL (boot_of (fst x)) r" "holders now k r"]
  have "rd_zset r' k = filter (\<lambda>x. IsAlive now nodeTTL (boot_of (fst x)) r) (holders now k r) \<and>
     n = int (length (holders now k r)) - int (length (rd_zset r' k))" by simp
  moreover have "IsAlive now nodeTTL own r"
    using False assms(1) by (auto simp: reclaimScript_def split: if_splits)
  ultimately show ?thesis using reclaim_cases(4) [OF assms, of k'] by blast
qed (use reclaim_cases(2) [OF assms] in blast)

definition demo_slots :: redis where
  "demo_slots = snd (acquireScript 0 300000 5 ''dead:r:1'' ''slot:user:7''
     (snd (acquireScript 0 300000 5 ''live:r:2'' ''slot:user:7'' (heartbeatScript 0 (demo_node ''live'') redis_empty))))"

theorem reclaim_spares_live_nodes_witness:
  "map fst (rd_zset (snd (reclaimScript 10000 15000 ''live'' ''slot:user:7'' demo_slots)) ''slot:user:7'') = [''live:r:2''] \<and>
   snd (reclaimScript 10000 15000 ''dead'' ''slot:user:7'' demo_slots) = demo_slots"
proof -
  obtain n r' where r: "reclaimScript 10000 15000 ''live'' ''slot:user:7'' demo_slots = (n, r')" by fastforce
  have "rd_zset demo_slots ''slot:user:7'' = [(''dead:r:1'', 300000), (''live:r:2'', 300000)]"
    "rd_expire demo_slots ''slot:user:7'' = Some 300000" by code_simp+
  then have ok: "slot_ok 300000 10000 ''slot:user:7'' demo_slots" by (simp add: slot_ok_def)
  from reclaim_spares_live_nodes [OF r ok, of "''slot:user:7''"]
  have "n < 0 \<or> rd_zset r' ''slot:user:7'' =
      filter (\<lambda>x. IsAlive 10000 15000 (boot_of (fst x)) demo_slots) (holders 10000 ''slot:user:7'' demo_slots)" by blast
  moreover have "\<not> fst (reclaimScript 10000 15000 ''live'' ''slot:user:7'' demo_slots) < 0" by code_simp
  moreover have "map fst (filter (\<lambda>x. IsAlive 10000 15000 (boot_of (fst x)) demo_slots)
      (holders 10000 ''slot:user:7'' demo_slots)) = [''live:r:2'']" by code_simp
  moreover have "snd (reclaimScript 10000 15000 ''dead'' ''slot:user:7'' demo_slots) = demo_slots"
  proof -
    obtain m q where q: "reclaimScript 10000 15000 ''dead'' ''slot:user:7'' demo_slots = (m, q)" by fastforce
    have "\<not> IsAlive 10000 15000 ''dead'' demo_slots" by code_simp
    with reclaim_spares_live_nodes [OF q ok, of "''slot:user:7''"] q show ?thesis by simp
  qed
  ultimately show ?thesis using r by simp
qed

end
