(* ===== verification/RateLimits.thy ===== *)
theory RateLimits
  imports Redis
begin

section \<open>Account rate limits (\<open>account/limiter.go\<close>)\<close>

text \<open>
  Requests and tokens per minute, tokens per day and distinct sessions per rolling minute of an
  account, kept in Redis. Every operation first reads the shared time \<open>now\<close> and then runs its commands
  at the Redis instant \<open>clock\<close>, which is later; both are milliseconds. The window names are those of the
  code: the minute number and the UTC date.
\<close>

record account_ref =
  ar_id :: int
  ar_rpm :: int
  ar_tpm :: int
  ar_tpd :: int
  ar_spm :: int

definition minuteKeyTTL :: int where "minuteKeyTTL = 120000"
definition dayKeyTTL :: int where "dayKeyTTL = 172800000"
definition spmWindow :: int where "spmWindow = 60000"

definition rateKey :: "int \<Rightarrow> string \<Rightarrow> string \<Rightarrow> string" where
  "rateKey i kind window = ''rl:account:'' @ itoa i @ '':'' @ kind @ '':'' @ window"

definition spmKey :: "int \<Rightarrow> string" where
  "spmKey i = ''rl:account:'' @ itoa i @ '':spm''"

text \<open>\<open>time.Format("20060102")\<close> of a day since 1970 in the Gregorian calendar.\<close>

definition padded :: "nat \<Rightarrow> int \<Rightarrow> string" where
  "padded w i = (let s = itoa i in replicate (w - length s) (CHR ''0'') @ s)"

definition date_string :: "int \<Rightarrow> string" where
  "date_string days =
     (let z = days + 719468; era = z div 146097; doe = z mod 146097;
          yoe = (doe - doe div 1460 + doe div 36524 - doe div 146096) div 365;
          doy = doe - (365 * yoe + yoe div 4 - yoe div 100);
          mp = (5 * doy + 2) div 153;
          d = doy - (153 * mp + 2) div 5 + 1;
          m = (if mp < 10 then mp + 3 else mp - 9);
          y = yoe + era * 400 + (if m \<le> 2 then 1 else 0)
      in padded 4 y @ padded 2 m @ padded 2 d)"

definition windows :: "int \<Rightarrow> string \<times> string" where
  "windows now = (itoa (now div 60000), date_string (now div 86400000))"

definition spmCutoff :: "int \<Rightarrow> int" where
  "spmCutoff now = now - spmWindow"

definition counter_at :: "int \<Rightarrow> string \<Rightarrow> redis \<Rightarrow> int" where
  "counter_at clock k r = (case GET clock k r of None \<Rightarrow> 0 | Some n \<Rightarrow> n)"

subsection \<open>Looking\<close>

definition probes_of :: "int \<Rightarrow> account_ref \<Rightarrow> (int \<times> string \<times> int) list" where
  "probes_of now a =
     (case windows now of (minute, day) \<Rightarrow>
       (if 0 < ar_rpm a then [(ar_id a, rateKey (ar_id a) ''rpm'' minute, ar_rpm a)] else []) @
       (if 0 < ar_tpm a then [(ar_id a, rateKey (ar_id a) ''tpm'' minute, ar_tpm a)] else []) @
       (if 0 < ar_tpd a then [(ar_id a, rateKey (ar_id a) ''tpd'' day, ar_tpd a)] else []))"

definition spm_full :: "int \<Rightarrow> int \<Rightarrow> string \<Rightarrow> redis \<Rightarrow> account_ref \<Rightarrow> bool" where
  "spm_full now clock session r a =
     (let cutoff = spmCutoff now; inside =
          (case ZSCORE clock (spmKey (ar_id a)) session r of None \<Rightarrow> False | Some s \<Rightarrow> cutoff < s)
      in 0 < ar_spm a \<and> \<not> inside \<and> ar_spm a \<le> ZCOUNT_above clock (spmKey (ar_id a)) cutoff r)"

definition Exhausted :: "int \<Rightarrow> int \<Rightarrow> account_ref list \<Rightarrow> string \<Rightarrow> redis \<Rightarrow> int list" where
  "Exhausted now clock refs session r =
     map fst (filter (\<lambda>(i, k, limit). limit \<le> counter_at clock k r) (concat (map (probes_of now) refs))) @
     map ar_id (filter (spm_full now clock session r) refs)"

definition Usage :: "int \<Rightarrow> int \<Rightarrow> int list \<Rightarrow> redis \<Rightarrow> (int \<times> int \<times> int \<times> int \<times> int) list" where
  "Usage now clock ids r =
     (case windows now of (minute, day) \<Rightarrow>
       map (\<lambda>i. (i, counter_at clock (rateKey i ''rpm'' minute) r, counter_at clock (rateKey i ''tpm'' minute) r,
         counter_at clock (rateKey i ''tpd'' day) r, ZCOUNT_above clock (spmKey i) (spmCutoff now) r)) ids)"

subsection \<open>Counting\<close>

definition hit_session :: "int \<Rightarrow> int \<Rightarrow> int \<Rightarrow> string \<Rightarrow> redis \<Rightarrow> redis" where
  "hit_session now clock i session r =
     (if session = [] then r
      else PEXPIRE clock (spmKey i) minuteKeyTTL
        (ZREMRANGEBELOW clock (spmKey i) (spmCutoff now) (ZADD clock (spmKey i) now session r)))"

definition Hit :: "int \<Rightarrow> int \<Rightarrow> int \<Rightarrow> string \<Rightarrow> redis \<Rightarrow> redis" where
  "Hit now clock i session r =
     (let k = rateKey i ''rpm'' (fst (windows now))
      in hit_session now clock i session (PEXPIRE clock k minuteKeyTTL (INCRBY clock k 1 r)))"

definition AddTokens :: "int \<Rightarrow> int \<Rightarrow> int \<Rightarrow> int \<Rightarrow> redis \<Rightarrow> redis" where
  "AddTokens now clock i n r =
     (if n \<le> 0 then r
      else let km = rateKey i ''tpm'' (fst (windows now)); kd = rateKey i ''tpd'' (snd (windows now))
        in PEXPIRE clock kd dayKeyTTL (INCRBY clock kd n
             (PEXPIRE clock km minuteKeyTTL (INCRBY clock km n r))))"

text \<open>The script \<open>admitRequest\<close> and \<open>TryHit\<close>, which runs it.\<close>

definition over_limit :: "int \<Rightarrow> redis \<Rightarrow> int \<times> string \<Rightarrow> bool" where
  "over_limit clock r lk \<longleftrightarrow> 0 < fst lk \<and> fst lk \<le> counter_at clock (snd lk) r"

definition admitRequest :: "int \<Rightarrow> int \<Rightarrow> (int \<times> string) list \<Rightarrow> string \<Rightarrow> string \<Rightarrow> int \<Rightarrow> string \<Rightarrow> redis \<Rightarrow> bool \<times> redis" where
  "admitRequest clock now limits rpm_key spm_key spm session r =
     (if \<exists>lk \<in> set limits. over_limit clock r lk then (False, r)
      else
        let r = ZREMRANGEBYSCORE clock spm_key (now - 60000) r in
        if 0 < spm \<and> session \<noteq> [] \<and> ZSCORE clock spm_key session r = None \<and> spm \<le> ZCARD clock spm_key r
        then (False, r)
        else
          let r = PEXPIRE clock rpm_key minuteKeyTTL (INCRBY clock rpm_key 1 r) in
          (True, if session = [] then r
                 else PEXPIRE clock spm_key minuteKeyTTL (ZADD clock spm_key now session r)))"

definition TryHit :: "int \<Rightarrow> int \<Rightarrow> account_ref \<Rightarrow> string \<Rightarrow> redis \<Rightarrow> bool \<times> redis" where
  "TryHit now clock a session r =
     (case windows now of (minute, day) \<Rightarrow>
       let rpm = rateKey (ar_id a) ''rpm'' minute in
       admitRequest clock now [(ar_rpm a, rpm), (ar_tpm a, rateKey (ar_id a) ''tpm'' minute),
           (ar_tpd a, rateKey (ar_id a) ''tpd'' day)]
         rpm (spmKey (ar_id a)) (ar_spm a) session r)"

subsection \<open>Lemmas\<close>

lemma spm_not_rate: "spmKey i \<noteq> rateKey i kind w"
proof
  assume "spmKey i = rateKey i kind w"
  then have "''spm'' = kind @ '':'' @ w" by (simp add: spmKey_def rateKey_def)
  then have "CHR '':'' \<in> set ''spm''" by (metis Un_iff list.set_intros(1) set_append append_Cons)
  then show False by simp
qed

lemma counter_zset_put [redis_simps]:
  "k' \<noteq> k \<Longrightarrow> counter_at clock k' (zset_put now k f r) = counter_at clock k' r"
  by (simp add: counter_at_def GET_def zset_put_def Let_def drop_empty_def expired_def purge_def DEL_def)

lemma counter_PEXPIRE_other [redis_simps]:
  "k' \<noteq> k \<Longrightarrow> counter_at clock k' (PEXPIRE now k t r) = counter_at clock k' r"
  by (simp add: counter_at_def GET_def PEXPIRE_def Let_def expired_def purge_def DEL_def)

text \<open>\<open>fresh k until r\<close>: the counter \<open>k\<close> is absent, or does not expire before \<open>until\<close>.\<close>

definition lasts :: "string \<Rightarrow> int \<Rightarrow> redis \<Rightarrow> bool" where
  "lasts k until r \<longleftrightarrow> (case rd_expire r k of None \<Rightarrow> True | Some e \<Rightarrow> until \<le> e)"

lemma counter_INCR:
  assumes "0 \<le> t"
  shows "rd_counter (PEXPIRE clock k t (INCRBY clock k 1 r)) k = Some (counter_at clock k r + 1)"
    "rd_expire (PEXPIRE clock k t (INCRBY clock k 1 r)) k = Some (clock + t)"
proof -
  let ?i = "INCRBY clock k 1 r"
  have "rd_counter ?i k = Some (counter_at clock k r + 1)"
    by (simp add: INCRBY_def Let_def redis_simps counter_at_def split: option.splits)
  moreover have "\<not> expired clock ?i k" using purge_views(4) [of clock k r] by (simp add: INCRBY_def Let_def expired_def)
  ultimately show "rd_counter (PEXPIRE clock k t ?i) k = Some (counter_at clock k r + 1)"
    "rd_expire (PEXPIRE clock k t ?i) k = Some (clock + t)"
    by (simp_all add: PEXPIRE_def Let_def purge_def exists_key_def)
qed

lemma counter_lasts: "lasts k u r \<Longrightarrow> clock \<le> u \<Longrightarrow> counter_at clock k r = (case rd_counter r k of None \<Rightarrow> 0 | Some n \<Rightarrow> n)"
  by (auto simp: lasts_def counter_at_def GET_def expired_def split: option.splits)

text \<open>One attempt: the request counter grows by one exactly when the attempt is admitted.\<close>

lemma rd_other:
  "k' \<noteq> k \<Longrightarrow> rd_counter (zset_put now k f r) k' = rd_counter r k' \<and> rd_expire (zset_put now k f r) k' = rd_expire r k'"
  "k' \<noteq> k \<Longrightarrow> rd_counter (PEXPIRE now k t r) k' = rd_counter r k' \<and> rd_expire (PEXPIRE now k t r) k' = rd_expire r k'"
  by (simp_all add: zset_put_def PEXPIRE_def Let_def drop_empty_def redis_simps)

lemma admit_cases:
  assumes "admitRequest clock now limits rk sk spm session r = (ok, r')" and "rk \<noteq> sk"
  shows "if ok then rd_counter r' rk = Some (counter_at clock rk r + 1) \<and> rd_expire r' rk = Some (clock + minuteKeyTTL) \<and>
      \<not> (\<exists>lk \<in> set limits. over_limit clock r lk)
    else rd_counter r' rk = rd_counter r rk \<and> rd_expire r' rk = rd_expire r rk"
proof -
  define z where "z = ZREMRANGEBYSCORE clock sk (now - 60000) r"
  have z: "rd_counter z rk = rd_counter r rk" "rd_expire z rk = rd_expire r rk" "counter_at clock rk z = counter_at clock rk r"
    using assms(2) by (simp_all add: z_def ZREMRANGEBYSCORE_def rd_other counter_zset_put)
  have "0 \<le> minuteKeyTTL" by (simp add: minuteKeyTTL_def)
  note inc = counter_INCR [OF this, of clock rk z]
  show ?thesis using assms z inc rd_other
    by (auto simp: admitRequest_def Let_def z_def [symmetric] ZADD_def split: if_splits)
qed


lemma admit_iff:
  "fst (admitRequest clock now limits rk sk spm session r) \<longleftrightarrow>
     \<not> (\<exists>lk \<in> set limits. over_limit clock r lk) \<and>
     \<not> (0 < spm \<and> session \<noteq> [] \<and> ZSCORE clock sk session (ZREMRANGEBYSCORE clock sk (now - 60000) r) = None \<and>
        spm \<le> ZCARD clock sk (ZREMRANGEBYSCORE clock sk (now - 60000) r))"
  by (simp add: admitRequest_def Let_def)

definition stored :: "redis \<Rightarrow> string \<Rightarrow> int" where
  "stored r k = (case rd_counter r k of None \<Rightarrow> 0 | Some n \<Rightarrow> n)"

definition rpm_key :: "account_ref \<Rightarrow> int \<Rightarrow> string" where
  "rpm_key a mi = rateKey (ar_id a) ''rpm'' (itoa mi)"

lemma TryHit_step:
  assumes "TryHit now clock a session r = (ok, r')" and "now div 60000 = mi" and "lasts (rpm_key a mi) u r"
    and "u - minuteKeyTTL \<le> clock" and "clock \<le> u"
  shows "lasts (rpm_key a mi) u r' \<and> stored r' (rpm_key a mi) = stored r (rpm_key a mi) + (if ok then 1 else 0) \<and>
    (ok \<longrightarrow> 0 < ar_rpm a \<longrightarrow> stored r (rpm_key a mi) < ar_rpm a)"
    and "ar_tpm a \<le> 0 \<Longrightarrow> ar_tpd a \<le> 0 \<Longrightarrow> ar_spm a \<le> 0 \<Longrightarrow> 0 < ar_rpm a \<Longrightarrow> ok = (stored r (rpm_key a mi) < ar_rpm a)"
proof -
  let ?k = "rpm_key a mi"
  have k: "?k \<noteq> spmKey (ar_id a)" using spm_not_rate by (metis rpm_key_def)
  have adm: "admitRequest clock now [(ar_rpm a, ?k), (ar_tpm a, rateKey (ar_id a) ''tpm'' (itoa mi)),
       (ar_tpd a, rateKey (ar_id a) ''tpd'' (snd (windows now)))] ?k (spmKey (ar_id a)) (ar_spm a) session r = (ok, r')"
    using assms(1,2) by (simp add: TryHit_def windows_def rpm_key_def Let_def)
  have c: "counter_at clock ?k r = stored r ?k" using counter_lasts [OF assms(3,5)] by (simp add: stored_def)
  from admit_cases [OF adm k] assms(3,4) c
  show "lasts ?k u r' \<and> stored r' ?k = stored r ?k + (if ok then 1 else 0) \<and>
    (ok \<longrightarrow> 0 < ar_rpm a \<longrightarrow> stored r ?k < ar_rpm a)"
    by (auto simp: lasts_def stored_def over_limit_def split: if_splits)
  from adm have "ok = fst (admitRequest clock now [(ar_rpm a, ?k), (ar_tpm a, rateKey (ar_id a) ''tpm'' (itoa mi)),
       (ar_tpd a, rateKey (ar_id a) ''tpd'' (snd (windows now)))] ?k (spmKey (ar_id a)) (ar_spm a) session r)" by simp
  then show "ar_tpm a \<le> 0 \<Longrightarrow> ar_tpd a \<le> 0 \<Longrightarrow> ar_spm a \<le> 0 \<Longrightarrow> 0 < ar_rpm a \<Longrightarrow> ok = (stored r ?k < ar_rpm a)"
    unfolding admit_iff by (auto simp: over_limit_def c)
qed

subsection \<open>Properties\<close>

primrec try_all :: "account_ref \<Rightarrow> (int \<times> int \<times> string) list \<Rightarrow> redis \<Rightarrow> nat \<times> redis" where
  "try_all a [] r = (0, r)"
| "try_all a (x # xs) r =
     (case TryHit (fst x) (fst (snd x)) a (snd (snd x)) r of
        (ok, r') \<Rightarrow> (case try_all a xs r' of (n, r'') \<Rightarrow> (n + (if ok then 1 else 0), r'')))"

definition in_minute :: "int \<Rightarrow> int \<times> int \<times> string \<Rightarrow> bool" where
  "in_minute mi x \<longleftrightarrow> fst x div 60000 = mi \<and> mi * 60000 \<le> fst (snd x) \<and> fst (snd x) \<le> mi * 60000 + 120000"

lemma try_all_counts:
  assumes "list_all (in_minute mi) xs" and "lasts (rpm_key a mi) (mi * 60000 + 120000) r" and "0 < ar_rpm a"
  shows "int (fst (try_all a xs r)) \<le> max 0 (ar_rpm a - stored r (rpm_key a mi)) \<and>
    (ar_tpm a \<le> 0 \<and> ar_tpd a \<le> 0 \<and> ar_spm a \<le> 0 \<longrightarrow>
      int (fst (try_all a xs r)) = min (int (length xs)) (max 0 (ar_rpm a - stored r (rpm_key a mi))))"
  using assms(1,2)
proof (induction xs arbitrary: r)
  case (Cons x xs)
  obtain ok r' where t: "TryHit (fst x) (fst (snd x)) a (snd (snd x)) r = (ok, r')" by fastforce
  obtain n r'' where n: "try_all a xs r' = (n, r'')" by fastforce
  from Cons.prems have x: "fst x div 60000 = mi" "mi * 60000 + 120000 - minuteKeyTTL \<le> fst (snd x)" "fst (snd x) \<le> mi * 60000 + 120000"
    by (simp_all add: in_minute_def minuteKeyTTL_def)
  note S = TryHit_step [OF t x(1) Cons.prems(2) x(2,3)]
  from Cons.IH [of r'] Cons.prems(1) S(1) n
  have ih: "int n \<le> max 0 (ar_rpm a - stored r' (rpm_key a mi)) \<and>
    (ar_tpm a \<le> 0 \<and> ar_tpd a \<le> 0 \<and> ar_spm a \<le> 0 \<longrightarrow>
      int n = min (int (length xs)) (max 0 (ar_rpm a - stored r' (rpm_key a mi))))" by simp
  with S(1) S(2) [OF _ _ _ assms(3)] assms(3) show ?case by (auto simp: t n)
qed simp

text \<open>C33: Request admission is exact per minute: of any number of concurrent attempts within one minute window
  on one account, whatever their order, sessions and delays between reading the time and running the
  script (up to a minute), at most the limit are admitted; and when it is the only limit, exactly the
  smaller of the limit and their number.\<close>

theorem rpm_admission_exact:
  assumes "0 < ar_rpm a" and "rd_counter r (rpm_key a mi) = None" and "rd_expire r (rpm_key a mi) = None"
    and "list_all (in_minute mi) xs"
  shows "int (fst (try_all a xs r)) \<le> ar_rpm a \<and>
    (0 < ar_tpm a \<or> 0 < ar_tpd a \<or> 0 < ar_spm a \<or> fst (try_all a xs r) = min (length xs) (nat (ar_rpm a)))"
proof -
  have "lasts (rpm_key a mi) (mi * 60000 + 120000) r" "stored r (rpm_key a mi) = 0"
    using assms(2,3) by (simp_all add: lasts_def stored_def)
  with try_all_counts [OF assms(4) this(1) assms(1)] assms(1) show ?thesis by auto
qed

definition demo_ref :: account_ref where
  "demo_ref = \<lparr>ar_id = 3, ar_rpm = 2, ar_tpm = 0, ar_tpd = 0, ar_spm = 0\<rparr>"

theorem rpm_admission_exact_witness:
  "fst (try_all demo_ref [(60001, 60002, ''a''), (60005, 70000, []), (60003, 60004, ''b'')] redis_empty) = 2"
proof -
  have "list_all (in_minute 1) [(60001, 60002, ''a''), (60005, 70000, []), (60003, 60004, ''b'')]" by (simp add: in_minute_def)
  from rpm_admission_exact [OF _ _ _ this, of demo_ref redis_empty] show ?thesis
    by (simp add: demo_ref_def redis_empty_def)
qed

lemma map_of_filter_cutoff:
  "distinct (map fst z) \<Longrightarrow> (map_of (filter (\<lambda>x. c < snd x) z) m = None) =
     (\<not> (case map_of z m of None \<Rightarrow> False | Some s \<Rightarrow> c < s))"
proof (induction z)
  case (Cons x z)
  show ?case
  proof (cases "fst x = m")
    case True
    with Cons.prems have "map_of z m = None" by (auto simp: map_of_eq_None_iff)
    with True Cons show ?thesis by auto
  qed (use Cons in auto)
qed simp

text \<open>C34: The pre-selection agrees with the admission: for a request with a session, \<open>Exhausted\<close> lists an
  account exactly when \<open>TryHit\<close> at the same instant would refuse it, for every combination of the four
  limits, so skipping listed accounts never loses a usable one and never keeps a full one.\<close>

theorem exhausted_iff_refused:
  assumes "session \<noteq> []" and "distinct (map fst (rd_zset r (spmKey (ar_id a))))"
  shows "ar_id a \<in> set (Exhausted now clock [a] session r) \<longleftrightarrow> \<not> fst (TryHit now clock a session r)"
proof -
  let ?k = "spmKey (ar_id a)" and ?z = "ZREMRANGEBYSCORE clock (spmKey (ar_id a)) (now - 60000) r"
  have z: "zset_at clock ?z ?k = filter (\<lambda>x. now - 60000 < snd x) (zset_at clock r ?k)"
    by (simp add: ZREMRANGEBYSCORE_def redis_simps)
  have d: "distinct (map fst (zset_at clock r ?k))" using assms(2) by (simp add: zset_at_def)
  have full: "spm_full now clock session r a \<longleftrightarrow>
      0 < ar_spm a \<and> ZSCORE clock ?k session ?z = None \<and> ar_spm a \<le> ZCARD clock ?k ?z"
    using map_of_filter_cutoff [OF d, of "now - 60000" session]
    by (auto simp: spm_full_def Let_def spmCutoff_def spmWindow_def ZSCORE_def ZCARD_def ZCOUNT_above_def z case_prod_unfold)
  show ?thesis using assms(1)
    by (auto simp: TryHit_def admit_iff Exhausted_def probes_of_def windows_def Let_def full over_limit_def split: if_splits)
qed

theorem exhausted_iff_refused_witness:
  "\<not> fst (TryHit 61000 61000 demo_ref ''c'' (snd (try_all demo_ref [(60001, 60001, ''a''), (60002, 60002, ''b'')] redis_empty)))"
proof -
  let ?r = "snd (try_all demo_ref [(60001, 60001, ''a''), (60002, 60002, ''b'')] redis_empty)"
  have "map fst (rd_zset ?r (spmKey (ar_id demo_ref))) = [''b'', ''a'']" by code_simp
  then have d: "distinct (map fst (rd_zset ?r (spmKey (ar_id demo_ref))))" by simp
  have "3 \<in> set (Exhausted 61000 61000 [demo_ref] ''c'' ?r)" by code_simp
  then have "ar_id demo_ref \<in> set (Exhausted 61000 61000 [demo_ref] ''c'' ?r)" by (simp add: demo_ref_def)
  then show ?thesis by (rule exhausted_iff_refused [THEN iffD1, OF _ d, rotated]) simp
qed

end
