(* ===== verification/LoginLimit.thy ===== *)
theory LoginLimit
  imports Redis GoStrings
begin

section \<open>The failed-login limit (\<open>iam/ratelimit.go\<close>, \<open>iam/auth.go\<close>)\<close>

text \<open>
  Failures are counted per email and address and per address, in windows that start at the first
  failure. \<open>hash\<close> is the hexadecimal SHA-256 of the limiter's key. A failing Redis call never blocks a
  login (\<open>ok\<close>). Lower-casing is that of ASCII letters; other letters are left as they are. \<open>attempt\<close> is the use \<open>Login\<close> makes of the limiter, with the password check as a parameter.
\<close>

record limiter =
  lm_window :: int
  lm_max_email :: int
  lm_max_ip :: int

definition newLoginLimiter :: limiter where
  "newLoginLimiter = \<lparr>lm_window = 900000, lm_max_email = 5, lm_max_ip = 20\<rparr>"

definition incrWindow :: "int \<Rightarrow> int \<Rightarrow> string \<Rightarrow> redis \<Rightarrow> int \<times> redis" where
  "incrWindow now ms k r =
     (let r = INCRBY now k 1 r; n = (case GET now k r of None \<Rightarrow> 0 | Some n \<Rightarrow> n)
      in (n, if n = 1 \<or> PTTL now k r < 0 then PEXPIRE now k ms r else r))"

definition lowered :: "char \<Rightarrow> char" where
  "lowered c = (let n = of_char c :: nat in if 65 \<le> n \<and> n \<le> 90 then char_of (n + 32) else c)"

definition limiterEmail :: "string \<Rightarrow> string" where
  "limiterEmail email = map lowered (trimSpace email)"

definition loginEmailKey :: "(string \<Rightarrow> string) \<Rightarrow> string \<Rightarrow> string \<Rightarrow> string" where
  "loginEmailKey hash email ip = ''login:fail:e:'' @ hash (limiterEmail email @ ''|'' @ ip)"

definition loginIPKey :: "string \<Rightarrow> string" where
  "loginIPKey ip = ''login:fail:ip:'' @ ip"

text \<open>How long one counter blocks; a counter at its maximum without an expiry blocks for the window.\<close>

definition block :: "limiter \<Rightarrow> int \<Rightarrow> string \<Rightarrow> int \<Rightarrow> redis \<Rightarrow> int" where
  "block l now k most r =
     (case GET now k r of
        None \<Rightarrow> 0
      | Some n \<Rightarrow> if n < most then 0
          else (let d = PTTL now k r in if d \<le> 0 then lm_window l else d))"

definition check_login :: "(string \<Rightarrow> string) \<Rightarrow> limiter \<Rightarrow> bool \<Rightarrow> int \<Rightarrow> string \<Rightarrow> string \<Rightarrow> redis \<Rightarrow> int" where
  "check_login hash l ok now email ip r =
     (if \<not> ok then 0
      else max (max 0 (block l now (loginEmailKey hash email ip) (lm_max_email l) r))
        (block l now (loginIPKey ip) (lm_max_ip l) r))"

text \<open>The two increments of \<open>fail\<close>; the second is skipped when the first fails.\<close>

definition fail_login :: "(string \<Rightarrow> string) \<Rightarrow> limiter \<Rightarrow> bool \<Rightarrow> bool \<Rightarrow> int \<Rightarrow> string \<Rightarrow> string \<Rightarrow> redis \<Rightarrow> redis" where
  "fail_login hash l ok1 ok2 now email ip r =
     (if \<not> ok1 then r
      else let r = snd (incrWindow now (lm_window l) (loginEmailKey hash email ip) r)
        in if \<not> ok2 then r else snd (incrWindow now (lm_window l) (loginIPKey ip) r))"

definition reset_login :: "(string \<Rightarrow> string) \<Rightarrow> bool \<Rightarrow> string \<Rightarrow> string \<Rightarrow> redis \<Rightarrow> redis" where
  "reset_login hash ok email ip r = (if ok then DEL (loginEmailKey hash email ip) r else r)"

definition retry_after :: "int \<Rightarrow> int" where
  "retry_after wait = max 1 ((wait + 999) div 1000)"

datatype verdict = Limited int | BadCredentials | PasswordOK

definition attempt :: "(string \<Rightarrow> string) \<Rightarrow> limiter \<Rightarrow> int \<Rightarrow> string \<Rightarrow> string \<Rightarrow> bool \<Rightarrow> redis \<Rightarrow> verdict \<times> redis" where
  "attempt hash l now email ip correct r =
     (let wait = check_login hash l True now email ip r in
      if 0 < wait then (Limited (retry_after wait), r)
      else if \<not> correct then (BadCredentials, fail_login hash l True True now email ip r)
      else (PasswordOK, reset_login hash True email ip r))"

subsection \<open>One counter\<close>

lemma keys_differ: "loginEmailKey hash email ip \<noteq> loginIPKey ip'"
  by (simp add: loginEmailKey_def loginIPKey_def)

definition windowed :: "string \<Rightarrow> int \<Rightarrow> int \<Rightarrow> redis \<Rightarrow> bool" where
  "windowed k n e r \<longleftrightarrow> rd_counter r k = Some n \<and> rd_expire r k = Some e"

lemma incr_first:
  assumes "GET now k r = None" and "0 < w"
  shows "windowed k 1 (now + w) (snd (incrWindow now w k r))"
  using assms purge_views(4) [of now k r] purged_view(3) [of now k r]
  by (auto simp: windowed_def incrWindow_def Let_def INCRBY_def PEXPIRE_def exists_key_def GET_def expired_def purge_def DEL_def
      split: option.splits if_splits)

lemma incr_more:
  assumes "windowed k n e r" and "1 \<le> n" and "now \<le> e"
  shows "windowed k (n + 1) e (snd (incrWindow now w k r))"
  using assms
  by (auto simp: windowed_def incrWindow_def Let_def INCRBY_def GET_def expired_def purge_def PTTL_def exists_key_def)

lemma incr_other:
  assumes "k' \<noteq> k"
  shows "rd_counter (snd (incrWindow now w k r)) k' = rd_counter r k' \<and> rd_expire (snd (incrWindow now w k r)) k' = rd_expire r k'"
  using assms by (simp add: incrWindow_def Let_def INCRBY_def PEXPIRE_def redis_simps)

lemma block_windowed: "windowed k n e r \<Longrightarrow> now \<le> e \<Longrightarrow> block l now k most r =
    (if n < most then 0 else if e = now then lm_window l else e - now)"
  by (auto simp: windowed_def block_def GET_def expired_def PTTL_def exists_key_def Let_def)


lemma fail_windowed:
  assumes "windowed (loginEmailKey hash email ip) n e r" and "1 \<le> n" and "now \<le> e"
  shows "windowed (loginEmailKey hash email ip) (n + 1) e (fail_login hash l True True now email ip r)"
  using incr_more [OF assms] incr_other [OF keys_differ] by (simp add: fail_login_def Let_def windowed_def)

lemma fail_first:
  assumes "GET now (loginEmailKey hash email ip) r = None" and "0 < lm_window l"
  shows "windowed (loginEmailKey hash email ip) 1 (now + lm_window l) (fail_login hash l True True now email ip r)"
  using incr_first [OF assms] incr_other [OF keys_differ] by (simp add: fail_login_def Let_def windowed_def)

text \<open>Wrong passwords at the given instants; the count is of those whose password was checked.\<close>

primrec guesses :: "(string \<Rightarrow> string) \<Rightarrow> limiter \<Rightarrow> string \<Rightarrow> string \<Rightarrow> int list \<Rightarrow> redis \<Rightarrow> nat \<times> redis" where
  "guesses hash l email ip [] r = (0, r)"
| "guesses hash l email ip (t # ts) r =
     (case attempt hash l t email ip False r of
        (v, r') \<Rightarrow> (case guesses hash l email ip ts r' of (n, r'') \<Rightarrow> (n + (if v = BadCredentials then 1 else 0), r'')))"

lemma wrong_attempt:
  assumes "windowed (loginEmailKey hash email ip) n e r" and "1 \<le> n" and "t \<le> e" and "0 < lm_window l"
    and "attempt hash l t email ip False r = (v, r')"
  shows "(v \<noteq> BadCredentials \<and> r' = r) \<or>
    (v = BadCredentials \<and> n < lm_max_email l \<and> windowed (loginEmailKey hash email ip) (n + 1) e r')"
proof (cases "0 < check_login hash l True t email ip r")
  case False
  then have "block l t (loginEmailKey hash email ip) (lm_max_email l) r \<le> 0" by (simp add: check_login_def)
  with block_windowed [OF assms(1,3)] assms(3,4) have "n < lm_max_email l" by (auto split: if_splits)
  with False assms(5) fail_windowed [OF assms(1-3)] show ?thesis by (auto simp: attempt_def Let_def)
qed (use assms(5) in \<open>auto simp: attempt_def Let_def\<close>)

lemma guesses_bound:
  assumes "windowed (loginEmailKey hash email ip) n e r" and "1 \<le> n" and "list_all (\<lambda>t. t \<le> e) ts" and "0 < lm_window l"
  shows "int (fst (guesses hash l email ip ts r)) \<le> max 0 (lm_max_email l - n) \<and>
    (\<exists>m. windowed (loginEmailKey hash email ip) m e (snd (guesses hash l email ip ts r)))"
  using assms(1-3)
proof (induction ts arbitrary: n r)
  case (Cons t ts)
  obtain v r' where a: "attempt hash l t email ip False r = (v, r')" by fastforce
  obtain c r'' where g: "guesses hash l email ip ts r' = (c, r'')" by fastforce
  from wrong_attempt [OF Cons.prems(1,2) _ assms(4) a] Cons.prems(3) consider
      "v \<noteq> BadCredentials" "r' = r"
    | "v = BadCredentials" "n < lm_max_email l" "windowed (loginEmailKey hash email ip) (n + 1) e r'" by auto
  then show ?case
  proof cases
    case 1
    from Cons.IH [OF Cons.prems(1,2)] Cons.prems(3) 1 g show ?thesis by (simp add: a)
  next
    case 2
    from Cons.IH [OF 2(3)] Cons.prems(2,3) 2 g show ?thesis by (simp add: a)
  qed
qed auto

subsection \<open>Properties\<close>

text \<open>Guessing is bounded: within the window that the first wrong password of an email and address opens,
  at most five passwords are checked, however many attempts are made and whenever; and once the window
  is over the email counter no longer blocks.\<close>

lemma guessing_is_bounded:
  assumes "GET t (loginEmailKey hash email ip) r = None" and "attempt hash l t email ip False r = (BadCredentials, r')"
    and "list_all (\<lambda>u. u \<le> t + lm_window l) ts" and "l = newLoginLimiter" and "t + lm_window l < u"
  shows "fst (guesses hash l email ip ts r') \<le> 4 \<and>
    block l u (loginEmailKey hash email ip) (lm_max_email l) (snd (guesses hash l email ip ts r')) = 0"
proof -
  have w: "0 < lm_window l" "lm_max_email l = 5" by (simp_all add: assms(4) newLoginLimiter_def)
  have r': "r' = fail_login hash l True True t email ip r"
    using assms(2) by (auto simp: attempt_def Let_def split: if_splits)
  from guesses_bound [OF fail_first [OF assms(1) w(1)] _ assms(3) w(1)] w(2) assms(5) show ?thesis
    by (auto simp: r' windowed_def block_def GET_def expired_def)
qed

lemma guessing_is_bounded_witness:
  "fst (guesses (\<lambda>s. s) newLoginLimiter ''a@b'' ''1.2.3.4'' [2, 3, 4, 5, 6, 7, 900000]
     (snd (attempt (\<lambda>s. s) newLoginLimiter 1 ''a@b'' ''1.2.3.4'' False redis_empty))) \<le> 4"
proof -
  have g: "GET 1 (loginEmailKey (\<lambda>s. s) ''a@b'' ''1.2.3.4'') redis_empty = None" by (simp add: GET_def redis_empty_def)
  obtain v r' where a: "attempt (\<lambda>s. s) newLoginLimiter 1 ''a@b'' ''1.2.3.4'' False redis_empty = (v, r')" by fastforce
  moreover have "fst (attempt (\<lambda>s. s) newLoginLimiter 1 ''a@b'' ''1.2.3.4'' False redis_empty) = BadCredentials" by code_simp
  ultimately have b: "attempt (\<lambda>s. s) newLoginLimiter 1 ''a@b'' ''1.2.3.4'' False redis_empty = (BadCredentials, r')" by simp
  have "list_all (\<lambda>u. u \<le> 1 + lm_window newLoginLimiter) [2, 3, 4, 5, 6, 7, 900000]" by (simp add: newLoginLimiter_def)
  from guessing_is_bounded [OF g b this refl, of "2 + lm_window newLoginLimiter"] b show ?thesis by simp
qed

text \<open>A counter at its maximum that has no expiry locks its client out for ever: every attempt at any later
  time, with the right password or a wrong one, is refused before \<open>fail\<close> could give the counter an expiry
  again, so the repair the script announces is never reached.\<close>

lemma counter_without_expiry_locks_forever:
  assumes "rd_counter r (loginEmailKey hash email ip) = Some n" and "rd_expire r (loginEmailKey hash email ip) = None"
    and "lm_max_email l \<le> n" and "0 < lm_window l"
  shows "\<exists>secs. attempt hash l now email ip correct r = (Limited secs, r)"
proof -
  have "block l now (loginEmailKey hash email ip) (lm_max_email l) r = lm_window l"
    using assms by (simp add: block_def GET_def expired_def PTTL_def exists_key_def Let_def)
  with assms(4) show ?thesis by (simp add: attempt_def check_login_def Let_def less_max_iff_disj)
qed

lemma counter_without_expiry_locks_forever_witness:
  "\<exists>secs. attempt (\<lambda>s. s) newLoginLimiter 99999999 ''a@b'' [] True
     (redis_empty\<lparr>rd_counter := (rd_counter redis_empty)(loginEmailKey (\<lambda>s. s) ''a@b'' [] \<mapsto> 5)\<rparr>) =
   (Limited secs, redis_empty\<lparr>rd_counter := (rd_counter redis_empty)(loginEmailKey (\<lambda>s. s) ''a@b'' [] \<mapsto> 5)\<rparr>)"
  by (rule counter_without_expiry_locks_forever [where n = 5]) (simp_all add: newLoginLimiter_def redis_empty_def)

end
