(* ===== verification/Sessions.thy ===== *)
theory Sessions
  imports Prelude
begin

section \<open>Refresh tokens and sessions (\<open>iam/auth.go\<close>, \<open>iam/users.go\<close>, \<open>iam/service.go\<close>)\<close>

text \<open>
  Every login opens a family of refresh tokens; using one rotates it. The tables \<open>users\<close> and
  \<open>refresh_tokens\<close> carry the columns these operations read. \<open>hash\<close> is the SHA-256 of a token, \<open>check\<close> the
  bcrypt comparison; the random token and family of an issue are arguments. Every operation is one
  transaction at an instant \<open>now\<close> (nanoseconds); the user row it locks serializes the operations of a
  user, so an interleaving is a sequence of operations.
\<close>

datatype iam_err = BadRefresh | UserDisabled | BadLogin | UserMissing | PasswordConflict | WrongOldPassword | BadAccess

record iam_user =
  us_id :: int
  us_email :: string
  us_hash :: string
  us_active :: bool
  us_deleted :: bool
  us_version :: int

record refresh_token =
  rt_user :: int
  rt_hash :: string
  rt_expires :: int
  rt_family :: string
  rt_revoked :: "int option"
  rt_replaced :: "int option"

record iamdb =
  ia_users :: "iam_user list"
  ia_tokens :: "refresh_token list"

record claims =
  cl_subject :: int
  cl_version :: int
  cl_expires :: int

text \<open>The random values of one issue and the two lifetimes.\<close>

record issue =
  is_refresh :: string
  is_family :: string
  is_refresh_ttl :: int
  is_access_ttl :: int

definition find_user :: "iamdb \<Rightarrow> int \<Rightarrow> iam_user option" where
  "find_user d i = List.find (\<lambda>u. us_id u = i) (ia_users d)"

definition lockRefreshUser :: "iamdb \<Rightarrow> int \<Rightarrow> iam_err + unit" where
  "lockRefreshUser d i = ensure (find_user d i \<noteq> None) BadRefresh"

definition update_tokens :: "(refresh_token \<Rightarrow> bool) \<Rightarrow> (refresh_token \<Rightarrow> refresh_token) \<Rightarrow> iamdb \<Rightarrow> iamdb" where
  "update_tokens P f d = d\<lparr>ia_tokens := map (\<lambda>t. if P t then f t else t) (ia_tokens d)\<rparr>"

definition update_user :: "int \<Rightarrow> (iam_user \<Rightarrow> iam_user) \<Rightarrow> iamdb \<Rightarrow> iamdb" where
  "update_user i f d = d\<lparr>ia_users := map (\<lambda>u. if us_id u = i then f u else u) (ia_users d)\<rparr>"

definition revoke :: "int \<Rightarrow> refresh_token \<Rightarrow> refresh_token" where
  "revoke now t = t\<lparr>rt_revoked := Some now\<rparr>"

definition revokeAllRefreshTokens :: "int \<Rightarrow> int \<Rightarrow> iamdb \<Rightarrow> iam_err + iamdb" where
  "revokeAllRefreshTokens now i d =
     and_then (lockRefreshUser d i) (\<lambda>_.
       Inr (update_tokens (\<lambda>t. rt_user t = i \<and> rt_revoked t = None) (revoke now) d))"

definition issueTokens :: "int \<Rightarrow> issue \<Rightarrow> (string \<Rightarrow> string) \<Rightarrow> int \<Rightarrow> string \<Rightarrow> iamdb \<Rightarrow> iam_err + claims \<times> iamdb" where
  "issueTokens now iss hash i family d =
     (case find_user d i of
        None \<Rightarrow> Inl UserMissing
      | Some u \<Rightarrow>
          if us_deleted u then Inl UserMissing
          else Inr (\<lparr>cl_subject = i, cl_version = us_version u, cl_expires = now + is_access_ttl iss\<rparr>,
            d\<lparr>ia_tokens := \<lparr>rt_user = i, rt_hash = hash (is_refresh iss), rt_expires = now + is_refresh_ttl iss,
              rt_family = (if family = [] then is_family iss else family), rt_revoked = None, rt_replaced = None\<rparr>
              # ia_tokens d\<rparr>))"

subsection \<open>Login\<close>

text \<open>The password snapshot \<open>seen\<close> is read before the transaction; the limiter is modelled apart.\<close>

definition Login :: "int \<Rightarrow> issue \<Rightarrow> (string \<Rightarrow> string) \<Rightarrow> (string \<Rightarrow> string \<Rightarrow> bool) \<Rightarrow> iam_user option \<Rightarrow> string \<Rightarrow> iamdb \<Rightarrow>
    (iam_err + claims) \<times> iamdb" where
  "Login now iss hash check seen password d =
     (case seen of
        None \<Rightarrow> (Inl BadLogin, d)
      | Some u \<Rightarrow>
          if \<not> check (us_hash u) password then (Inl BadLogin, d)
          else if \<not> us_active u then (Inl UserDisabled, d)
          else (case find_user d (us_id u) of
              None \<Rightarrow> (Inl BadLogin, d)
            | Some cur \<Rightarrow>
                if us_deleted cur \<or> us_hash cur \<noteq> us_hash u then (Inl BadLogin, d)
                else if \<not> us_active cur then (Inl UserDisabled, d)
                else (case issueTokens now iss hash (us_id u) [] d of
                    Inl e \<Rightarrow> (Inl e, d) | Inr (c, d') \<Rightarrow> (Inr c, d'))))"

subsection \<open>Refresh\<close>

datatype refreshVerdict = refreshValid | refreshExpired | refreshReplayed

definition classifyRefresh :: "int option \<Rightarrow> int option \<Rightarrow> int \<Rightarrow> int \<Rightarrow> refreshVerdict" where
  "classifyRefresh revokedAt replacedAt expiresAt now =
     (if revokedAt \<noteq> None \<or> replacedAt \<noteq> None then refreshReplayed
      else if \<not> now < expiresAt then refreshExpired
      else refreshValid)"

definition refreshReuseGrace :: int where "refreshReuseGrace = 60000000000"

definition rotatedJustNow :: "int option \<Rightarrow> int option \<Rightarrow> int \<Rightarrow> bool" where
  "rotatedJustNow revokedAt replacedAt now =
     (case replacedAt of None \<Rightarrow> False | Some r \<Rightarrow> revokedAt \<noteq> None \<and> now - r < refreshReuseGrace)"

definition live_family :: "int \<Rightarrow> iamdb \<Rightarrow> string \<Rightarrow> bool" where
  "live_family now d f \<longleftrightarrow> (\<exists>t \<in> set (ia_tokens d). rt_family t = f \<and> rt_revoked t = None \<and> now < rt_expires t)"

definition verdict_of :: "int \<Rightarrow> iamdb \<Rightarrow> refresh_token \<Rightarrow> refreshVerdict" where
  "verdict_of now d t =
     (let v = classifyRefresh (rt_revoked t) (rt_replaced t) (rt_expires t) now
      in if v = refreshReplayed \<and> rt_family t \<noteq> [] \<and> rotatedJustNow (rt_revoked t) (rt_replaced t) now \<and>
            live_family now d (rt_family t)
         then refreshValid else v)"

definition rotate :: "int \<Rightarrow> refresh_token \<Rightarrow> refresh_token" where
  "rotate now t = t\<lparr>rt_revoked := (case rt_revoked t of None \<Rightarrow> Some now | s \<Rightarrow> s),
     rt_replaced := (case rt_replaced t of None \<Rightarrow> Some now | s \<Rightarrow> s)\<rparr>"

text \<open>The transaction: \<open>None\<close> is the replay whose family revocation is committed.\<close>

definition refreshTx :: "int \<Rightarrow> issue \<Rightarrow> (string \<Rightarrow> string) \<Rightarrow> string \<Rightarrow> iamdb \<Rightarrow> iam_err + claims option \<times> iamdb" where
  "refreshTx now iss hash token d =
     (case List.find (\<lambda>t. rt_hash t = hash token) (ia_tokens d) of
        None \<Rightarrow> Inl BadRefresh
      | Some t \<Rightarrow>
          and_then (lockRefreshUser d (rt_user t)) (\<lambda>_.
            case verdict_of now d t of
              refreshReplayed \<Rightarrow>
                Inr (None, if rt_family t = []
                  then update_tokens (\<lambda>x. rt_hash x = rt_hash t \<and> rt_revoked x = None) (revoke now) d
                  else update_tokens (\<lambda>x. rt_family x = rt_family t \<and> rt_revoked x = None) (revoke now) d)
            | refreshExpired \<Rightarrow> Inl BadRefresh
            | refreshValid \<Rightarrow>
                let d = update_tokens (\<lambda>x. rt_hash x = rt_hash t) (rotate now) d in
                (case find_user d (rt_user t) of
                   None \<Rightarrow> Inl BadRefresh
                 | Some u \<Rightarrow>
                     if us_deleted u then Inl BadRefresh
                     else if \<not> us_active u then Inl UserDisabled
                     else and_then (issueTokens now iss hash (rt_user t) (rt_family t) d) (\<lambda>(c, d). Inr (Some c, d)))))"

definition Refresh :: "int \<Rightarrow> issue \<Rightarrow> (string \<Rightarrow> string) \<Rightarrow> string \<Rightarrow> iamdb \<Rightarrow> (iam_err + claims) \<times> iamdb" where
  "Refresh now iss hash token d =
     (if token = [] then (Inl BadRefresh, d)
      else case refreshTx now iss hash token d of
          Inl e \<Rightarrow> (Inl e, d)
        | Inr (None, d') \<Rightarrow> (Inl BadRefresh, d')
        | Inr (Some c, d') \<Rightarrow> (Inr c, d'))"

subsection \<open>Ending sessions\<close>

definition Logout :: "int \<Rightarrow> (string \<Rightarrow> string) \<Rightarrow> int \<Rightarrow> string \<Rightarrow> iamdb \<Rightarrow> iam_err + iamdb" where
  "Logout now hash i token d =
     and_then (lockRefreshUser d i) (\<lambda>_.
       if token = [] then revokeAllRefreshTokens now i d
       else Inr (update_tokens (\<lambda>t. rt_hash t = hash token \<and> rt_user t = i \<and> rt_revoked t = None) (revoke now) d))"

definition ChangePassword :: "int \<Rightarrow> (string \<Rightarrow> string \<Rightarrow> bool) \<Rightarrow> iam_user option \<Rightarrow> int \<Rightarrow> string \<Rightarrow> string \<Rightarrow> iamdb \<Rightarrow>
    iam_err + iamdb" where
  "ChangePassword now check seen i oldPassword newHash d =
     (case seen of
        None \<Rightarrow> Inl BadAccess
      | Some u \<Rightarrow>
          if \<not> check (us_hash u) oldPassword then Inl WrongOldPassword
          else (case find_user d i of
              None \<Rightarrow> Inl UserMissing
            | Some cur \<Rightarrow>
                if us_deleted cur then Inl UserMissing
                else if us_hash cur \<noteq> us_hash u then Inl PasswordConflict
                else revokeAllRefreshTokens now i (update_user i (\<lambda>u. u\<lparr>us_hash := newHash\<rparr>) d)))"

text \<open>The session part of \<open>UpdateUser\<close> (a new password, a new status) and of \<open>DeleteUser\<close>; the authority
  checks before it are a parameter.\<close>

definition UpdateUser :: "int \<Rightarrow> bool \<Rightarrow> int \<Rightarrow> string option \<Rightarrow> bool option \<Rightarrow> iamdb \<Rightarrow> iam_err + iamdb" where
  "UpdateUser now allowed i newHash active d =
     (case find_user d i of
        None \<Rightarrow> Inl UserMissing
      | Some cur \<Rightarrow>
          if us_deleted cur then Inl UserMissing
          else let disabling = (active = Some False \<and> us_active cur); ends = (newHash \<noteq> None \<or> disabling) in
            if disabling \<and> \<not> allowed then Inl UserMissing
            else
              let d = update_user i (\<lambda>u. u\<lparr>us_version := (if ends then us_version u + 1 else us_version u),
                    us_active := (case active of None \<Rightarrow> us_active u | Some a \<Rightarrow> a),
                    us_hash := (case newHash of None \<Rightarrow> us_hash u | Some h \<Rightarrow> h)\<rparr>) d
              in if ends then revokeAllRefreshTokens now i d else Inr d)"

definition DeleteUser :: "int \<Rightarrow> bool \<Rightarrow> int \<Rightarrow> iamdb \<Rightarrow> iam_err + iamdb" where
  "DeleteUser now allowed i d =
     (if \<not> allowed then Inl UserMissing
      else case find_user d i of
          None \<Rightarrow> Inl UserMissing
        | Some cur \<Rightarrow>
            if us_deleted cur then Inl UserMissing
            else revokeAllRefreshTokens now i (update_user i (\<lambda>u. u\<lparr>us_deleted := True\<rparr>) d))"

definition VerifyAccessToken :: "int \<Rightarrow> claims \<Rightarrow> iamdb \<Rightarrow> iam_err + int" where
  "VerifyAccessToken now c d =
     (if cl_expires c \<le> now \<or> cl_subject c \<le> 0 then Inl BadAccess
      else case find_user d (cl_subject c) of
          None \<Rightarrow> Inl BadAccess
        | Some u \<Rightarrow>
            if us_deleted u \<or> \<not> us_active u then Inl BadAccess
            else if cl_version c \<noteq> us_version u then Inl BadAccess
            else Inr (cl_subject c))"


subsection \<open>Tokens only lose life\<close>

text \<open>\<open>tightens\<close>: the same tokens, some of them revoked; nothing revoked comes back.\<close>

definition tightens :: "iamdb \<Rightarrow> iamdb \<Rightarrow> bool" where
  "tightens d d' \<longleftrightarrow> (\<exists>g. ia_tokens d' = map g (ia_tokens d) \<and>
     (\<forall>t. rt_family (g t) = rt_family t \<and> rt_expires (g t) = rt_expires t \<and>
       (rt_revoked (g t) = None \<longrightarrow> rt_revoked t = None)))"

definition families :: "iamdb \<Rightarrow> string set" where
  "families d = rt_family ` set (ia_tokens d)"

lemma tightens_refl: "ia_tokens d' = ia_tokens d \<Longrightarrow> tightens d d'"
  unfolding tightens_def by (intro exI [of _ "\<lambda>t. t"]) simp

lemma tightens_update:
  assumes "\<And>t. rt_family (f t) = rt_family t" and "\<And>t. rt_expires (f t) = rt_expires t"
    and "\<And>t. rt_revoked (f t) = None \<Longrightarrow> rt_revoked t = None"
  shows "tightens d (update_tokens P f d)"
  unfolding tightens_def update_tokens_def
  by (intro exI [of _ "\<lambda>t. if P t then f t else t"]) (simp add: assms)

lemma tightens_user: "tightens (d\<lparr>ia_users := us\<rparr>) d' = tightens d d'"
  by (simp add: tightens_def)

lemma revoke_simps [simp]: "rt_family (revoke now t) = rt_family t" "rt_expires (revoke now t) = rt_expires t"
  "rt_revoked (revoke now t) = Some now"
  by (simp_all add: revoke_def)

lemma rotate_simps [simp]: "rt_family (rotate now t) = rt_family t" "rt_expires (rotate now t) = rt_expires t"
  "(rt_revoked (rotate now t) = None) = False"
  by (simp_all add: rotate_def split: option.splits)

lemma tightens_revoke [simp]: "tightens d (update_tokens P (revoke now) d)"
  by (rule tightens_update) simp_all

lemma tightens_dead:
  assumes "tightens d d'" and "now \<le> now'" and "\<not> live_family now d f"
  shows "\<not> live_family now' d' f" and "families d' = families d"
  using assms by (fastforce simp: tightens_def live_family_def families_def image_image)+

lemma tightens_families: "tightens d d' \<Longrightarrow> families d' = families d"
  by (auto simp: tightens_def families_def image_image)

lemma revokeAll_tightens: "revokeAllRefreshTokens now i d = Inr d' \<Longrightarrow> tightens d d'"
  by (auto simp: revokeAllRefreshTokens_def err_simps)

lemma Logout_tightens: "Logout now hash i token d = Inr d' \<Longrightarrow> tightens d d'"
  by (auto simp: Logout_def err_simps revokeAll_tightens split: if_splits)

lemma ChangePassword_tightens: "ChangePassword now check seen i old new d = Inr d' \<Longrightarrow> tightens d d'"
  by (auto simp: ChangePassword_def update_user_def tightens_user split: option.splits if_splits dest!: revokeAll_tightens)

lemma UpdateUser_tightens: "UpdateUser now allowed i h a d = Inr d' \<Longrightarrow> tightens d d'"
  by (auto simp: UpdateUser_def Let_def tightens_user update_user_def split: option.splits if_splits
      intro: tightens_refl dest!: revokeAll_tightens)

lemma DeleteUser_tightens: "DeleteUser now allowed i d = Inr d' \<Longrightarrow> tightens d d'"
  by (auto simp: DeleteUser_def update_user_def tightens_user split: option.splits if_splits dest!: revokeAll_tightens)

subsection \<open>A dead family stays dead\<close>

definition fresh_issue :: "issue \<Rightarrow> iamdb \<Rightarrow> bool" where
  "fresh_issue iss d \<longleftrightarrow> is_family iss \<noteq> [] \<and> is_family iss \<notin> families d"

lemma issue_tokens:
  assumes "issueTokens now iss hash i fam d = Inr (c, d')"
  shows "\<exists>t. ia_tokens d' = t # ia_tokens d \<and> rt_family t = (if fam = [] then is_family iss else fam)"
  using assms by (auto simp: issueTokens_def split: option.splits if_splits)

lemma issue_dead:
  assumes "issueTokens now iss hash i fam d = Inr (c, d')" and "is_family iss \<noteq> f" and "fam \<noteq> f" and "\<not> live_family now d f"
  shows "\<not> live_family now d' f \<and> families d \<subseteq> families d'"
proof -
  from issue_tokens [OF assms(1)] assms(2,3) obtain t where "ia_tokens d' = t # ia_tokens d" "rt_family t \<noteq> f"
    by (auto split: if_splits)
  with assms(4) show ?thesis by (auto simp: live_family_def families_def)
qed

lemma verdict_valid_live:
  assumes "verdict_of now d t = refreshValid" and "t \<in> set (ia_tokens d)"
  shows "live_family now d (rt_family t)"
  using assms by (auto simp: verdict_of_def Let_def classifyRefresh_def live_family_def split: if_splits)

lemma Refresh_dead:
  assumes "Refresh now iss hash token d = (res, d')" and "f \<in> families d" and "\<not> live_family now d f" and "fresh_issue iss d"
  shows "\<not> live_family now d' f \<and> families d \<subseteq> families d'"
proof -
  consider "d' = d" | "tightens d d'"
    | t c where "List.find (\<lambda>t. rt_hash t = hash token) (ia_tokens d) = Some t" "verdict_of now d t = refreshValid"
      "issueTokens now iss hash (rt_user t) (rt_family t) (update_tokens (\<lambda>x. rt_hash x = rt_hash t) (rotate now) d) = Inr (c, d')"
    using assms(1)
    by (auto simp: Refresh_def refreshTx_def err_simps Let_def split: if_splits sum.splits option.splits refreshVerdict.splits)
  then show ?thesis
  proof cases
    case 1
    with assms(3) show ?thesis by simp
  next
    case 2
    from tightens_dead [OF 2 order_refl assms(3)] show ?thesis by simp
  next
    case 3
    have t: "t \<in> set (ia_tokens d)" using find_SomeD [OF 3(1)] by simp
    from verdict_valid_live [OF 3(2) t] assms(3) have "rt_family t \<noteq> f" by auto
    moreover have "is_family iss \<noteq> f" using assms(2,4) by (auto simp: fresh_issue_def)
    moreover have r: "tightens d (update_tokens (\<lambda>x. rt_hash x = rt_hash t) (rotate now) d)" by (rule tightens_update) simp_all
    ultimately show ?thesis using issue_dead [OF 3(3)] tightens_dead [OF r order_refl assms(3)] by simp
  qed
qed

lemma Login_dead:
  assumes "Login now iss hash check seen pw d = (res, d')" and "f \<in> families d" and "\<not> live_family now d f" and "fresh_issue iss d"
    and "f \<noteq> []"
  shows "\<not> live_family now d' f \<and> families d \<subseteq> families d'"
proof -
  consider "d' = d" | i c where "issueTokens now iss hash i [] d = Inr (c, d')"
    using assms(1) by (auto simp: Login_def split: option.splits if_splits sum.splits)
  then show ?thesis
  proof cases
    case 2
    from issue_dead [OF 2 _ _ assms(3)] assms(2,4,5) show ?thesis by (auto simp: fresh_issue_def)
  qed (use assms(3) in simp)
qed

text \<open>Sequences of operations; a login or a rotation draws a new family id.\<close>

inductive istep :: "(string \<Rightarrow> string) \<Rightarrow> (string \<Rightarrow> string \<Rightarrow> bool) \<Rightarrow> int \<times> iamdb \<Rightarrow> int \<times> iamdb \<Rightarrow> bool" for hash check where
  i_tick: "now \<le> now' \<Longrightarrow> istep hash check (now, d) (now', d)"
| i_login: "fresh_issue iss d \<Longrightarrow> Login now iss hash check seen pw d = (res, d') \<Longrightarrow> istep hash check (now, d) (now, d')"
| i_refresh: "fresh_issue iss d \<Longrightarrow> Refresh now iss hash token d = (res, d') \<Longrightarrow> istep hash check (now, d) (now, d')"
| i_logout: "Logout now hash i token d = Inr d' \<Longrightarrow> istep hash check (now, d) (now, d')"
| i_change: "ChangePassword now check seen i old new d = Inr d' \<Longrightarrow> istep hash check (now, d) (now, d')"
| i_update: "UpdateUser now allowed i h a d = Inr d' \<Longrightarrow> istep hash check (now, d) (now, d')"
| i_delete: "DeleteUser now allowed i d = Inr d' \<Longrightarrow> istep hash check (now, d) (now, d')"

inductive_cases istepE: "istep hash check (now, d) s"

definition dead :: "string \<Rightarrow> int \<times> iamdb \<Rightarrow> bool" where
  "dead f s \<longleftrightarrow> f \<noteq> [] \<and> f \<in> families (snd s) \<and> \<not> live_family (fst s) (snd s) f"

lemma tightens_still_dead: "tightens d d' \<Longrightarrow> dead f (now, d) \<Longrightarrow> dead f (now, d')"
  using tightens_dead [of d d' now now f] by (simp add: dead_def)

lemma istep_dead:
  assumes "istep hash check s t" and "dead f s"
  shows "dead f t"
  using assms
proof (induction rule: istep.induct)
  case (i_tick now now' d)
  then show ?case by (fastforce simp: dead_def live_family_def)
next
  case (i_login iss d now seen pw res d')
  then show ?case using Login_dead [OF i_login(2)] by (auto simp: dead_def)
next
  case (i_refresh iss d now token res d')
  then show ?case using Refresh_dead [OF i_refresh(2)] by (auto simp: dead_def)
qed (rule tightens_still_dead, erule Logout_tightens ChangePassword_tightens UpdateUser_tightens DeleteUser_tightens, assumption)+

lemma isteps_dead: "(istep hash check)\<^sup>*\<^sup>* s t \<Longrightarrow> dead f s \<Longrightarrow> dead f t"
  by (induction rule: rtranclp_induct) (auto intro: istep_dead)

lemma dead_refused:
  assumes "dead f (now, d)" and "List.find (\<lambda>t. rt_hash t = hash token) (ia_tokens d) = Some t" and "rt_family t = f"
  shows "\<exists>e. fst (Refresh now iss hash token d) = Inl e"
proof -
  have "t \<in> set (ia_tokens d)" using find_SomeD [OF assms(2)] by simp
  with assms(1,3) verdict_valid_live have "verdict_of now d t \<noteq> refreshValid" by (auto simp: dead_def)
  then show ?thesis
    by (cases "verdict_of now d t") (auto simp: Refresh_def refreshTx_def assms(2) Let_def and_then_def
        split: sum.splits)
qed


subsection \<open>Properties\<close>

text \<open>C25: A leaked refresh token ends its whole family: presenting a token that was already rotated or revoked,
  outside the one-minute grace for a lost answer (or when nothing of the family is alive), is refused, and
  no later sequence of logins, rotations, logouts, password or status changes ever makes any token of
  that family work again.\<close>

theorem reuse_ends_family:
  assumes "token \<noteq> []" and "List.find (\<lambda>t. rt_hash t = hash token) (ia_tokens d) = Some t" and "find_user d (rt_user t) \<noteq> None"
    and "rt_family t \<noteq> []" and "rt_revoked t \<noteq> None \<or> rt_replaced t \<noteq> None"
    and "\<not> rotatedJustNow (rt_revoked t) (rt_replaced t) now \<or> \<not> live_family now d (rt_family t)"
    and "(istep hash check)\<^sup>*\<^sup>* (now, snd (Refresh now iss hash token d)) (now', d')"
    and "List.find (\<lambda>t. rt_hash t = hash token') (ia_tokens d') = Some t'" and "rt_family t' = rt_family t"
  shows "fst (Refresh now iss hash token d) = Inl BadRefresh \<and> (\<exists>e. fst (Refresh now' iss' hash token' d') = Inl e)"
proof -
  have "verdict_of now d t = refreshReplayed" using assms(5,6) by (auto simp: verdict_of_def Let_def classifyRefresh_def)
  then have R: "Refresh now iss hash token d =
      (Inl BadRefresh, update_tokens (\<lambda>x. rt_family x = rt_family t \<and> rt_revoked x = None) (revoke now) d)"
    using assms(1-4) by (auto simp: Refresh_def refreshTx_def lockRefreshUser_def ensure_def)
  have "t \<in> set (ia_tokens d)" using find_SomeD [OF assms(2)] by simp
  then have "rt_family t \<in> families d" by (simp add: families_def)
  then have "rt_family t \<in> families (snd (Refresh now iss hash token d))"
    by (simp add: R tightens_families [OF tightens_revoke])
  moreover have "\<not> live_family now (snd (Refresh now iss hash token d)) (rt_family t)"
    by (auto simp: R live_family_def update_tokens_def)
  ultimately have "dead (rt_family t) (now, snd (Refresh now iss hash token d))"
    using assms(4) by (simp add: dead_def)
  from isteps_dead [OF assms(7) this] have "dead (rt_family t) (now', d')" .
  from dead_refused [of _ now' d' hash token', OF this assms(8,9)] R show ?thesis by simp
qed

definition demo_user :: iam_user where
  "demo_user = \<lparr>us_id = 1, us_email = ''a@b'', us_hash = ''h'', us_active = True, us_deleted = False, us_version = 0\<rparr>"

definition demo_iam :: iamdb where
  "demo_iam = \<lparr>ia_users = [demo_user], ia_tokens = [
     \<lparr>rt_user = 1, rt_hash = ''new'', rt_expires = 10 ^ 15, rt_family = ''f'', rt_revoked = None, rt_replaced = None\<rparr>,
     \<lparr>rt_user = 1, rt_hash = ''old'', rt_expires = 10 ^ 15, rt_family = ''f'', rt_revoked = Some 0, rt_replaced = Some 0\<rparr>]\<rparr>"

definition demo_issue :: issue where
  "demo_issue = \<lparr>is_refresh = ''next'', is_family = ''g'', is_refresh_ttl = 10 ^ 15, is_access_ttl = 10 ^ 12\<rparr>"

theorem reuse_ends_family_witness:
  "fst (Refresh (10 ^ 12) demo_issue (\<lambda>s. s) ''old'' demo_iam) = Inl BadRefresh \<and>
   (\<exists>e. fst (Refresh (2 * 10 ^ 12) demo_issue (\<lambda>s. s) ''new'' (snd (Refresh (10 ^ 12) demo_issue (\<lambda>s. s) ''old'' demo_iam))) = Inl e)"
proof -
  let ?d = "snd (Refresh (10 ^ 12) demo_issue (\<lambda>s. s) ''old'' demo_iam)"
  have tick: "(istep (\<lambda>s. s) (=))\<^sup>*\<^sup>* (10 ^ 12, ?d) (2 * 10 ^ 12, ?d)" by (rule r_into_rtranclp, rule i_tick) simp
  have hs: "map rt_hash (ia_tokens ?d) = [''new'', ''old'']" "map rt_family (ia_tokens ?d) = [''f'', ''f'']"
    by code_simp+
  then obtain n where n: "List.find (\<lambda>t. rt_hash t = ''new'') (ia_tokens ?d) = Some n" "rt_family n = ''f''"
    by (auto simp: map_eq_Cons_conv)
  show ?thesis
    by (rule reuse_ends_family [where token = "''old''" and token' = "''new''" and t = "ia_tokens demo_iam ! 1", OF _ _ _ _ _ _ tick n(1)])
      (simp_all add: demo_iam_def find_user_def rotatedJustNow_def refreshReuseGrace_def demo_user_def n(2))
qed

lemma find_user_simps:
  "find_user (update_tokens P f d) i = find_user d i"
  "find_user d i = Some u \<Longrightarrow> (\<And>u. us_id (g u) = us_id u) \<Longrightarrow> find_user (update_user i g d) i = Some (g u)"
proof -
  show "find_user (update_tokens P f d) i = find_user d i" by (simp add: find_user_def update_tokens_def)
  assume g: "\<And>u. us_id (g u) = us_id u"
  have "List.find (\<lambda>u. us_id u = i) us = Some u \<Longrightarrow>
      List.find (\<lambda>u. us_id u = i) (map (\<lambda>u. if us_id u = i then g u else u) us) = Some (g u)" for us
    by (induction us) (auto simp: g split: if_splits)
  then show "find_user d i = Some u \<Longrightarrow> find_user (update_user i g d) i = Some (g u)"
    by (simp add: find_user_def update_user_def)
qed

lemma revokeAll_users: "revokeAllRefreshTokens now i d = Inr d' \<Longrightarrow> find_user d' j = find_user d j"
  by (auto simp: revokeAllRefreshTokens_def err_simps find_user_simps)

text \<open>Changing one's own password leaves earlier access tokens valid: they verify until they expire,
  because only an administrator's change of the password bumps the version they carry, which does end
  them at once.\<close>

lemma own_password_change_keeps_access_tokens:
  assumes "VerifyAccessToken now c d = Inr i" and "now' < cl_expires c"
    and "ChangePassword now check seen i old h d = Inr d'" and "UpdateUser now allowed i (Some h) None d = Inr d''"
  shows "VerifyAccessToken now' c d' = Inr i \<and> VerifyAccessToken now' c d'' = Inl BadAccess"
proof -
  from assms(1) obtain u where u: "find_user d i = Some u" "cl_subject c = i" "0 < i" "\<not> us_deleted u" "us_active u"
      "us_version u = cl_version c"
    by (auto simp: VerifyAccessToken_def split: if_splits option.splits)
  from assms(3) have "find_user d' i = Some (u\<lparr>us_hash := h\<rparr>)"
    by (auto simp: ChangePassword_def u(1) find_user_simps split: option.splits if_splits dest!: revokeAll_users [of _ _ _ _ i])
  moreover from assms(4) have "find_user d'' i = Some (u\<lparr>us_version := us_version u + 1, us_active := us_active u, us_hash := h\<rparr>)"
    by (auto simp: UpdateUser_def Let_def u find_user_simps split: if_splits dest!: revokeAll_users [of _ _ _ _ i])
  ultimately show ?thesis using u assms(2) by (simp add: VerifyAccessToken_def)
qed

lemma own_password_change_keeps_access_tokens_witness:
  "\<exists>d'. ChangePassword 0 (=) (Some demo_user) 1 ''h'' ''h2'' demo_iam = Inr d' \<and>
     VerifyAccessToken 1000 \<lparr>cl_subject = 1, cl_version = 0, cl_expires = 2000\<rparr> d' = Inr 1"
proof -
  have v: "VerifyAccessToken 0 \<lparr>cl_subject = 1, cl_version = 0, cl_expires = 2000\<rparr> demo_iam = Inr 1"
    by (simp add: VerifyAccessToken_def demo_iam_def find_user_def demo_user_def)
  obtain d' where c: "ChangePassword 0 (=) (Some demo_user) 1 ''h'' ''h2'' demo_iam = Inr d'"
    by (simp add: ChangePassword_def find_user_def demo_iam_def demo_user_def revokeAllRefreshTokens_def
        lockRefreshUser_def update_user_def ensure_def)
  obtain d'' where a: "UpdateUser 0 True 1 (Some ''h2'') None demo_iam = Inr d''"
    by (simp add: UpdateUser_def Let_def find_user_def demo_iam_def demo_user_def revokeAllRefreshTokens_def
        lockRefreshUser_def update_user_def ensure_def)
  from own_password_change_keeps_access_tokens [OF v _ c a, of 1000] c show ?thesis by simp
qed

end
