(* ===== verification/Precharge.thy ===== *)
theory Precharge
  imports BalanceCache
begin

section \<open>Request precharges (\<open>billing/precharge.go\<close>)\<close>

text \<open>
  Before a request is forwarded, \<open>Precharge\<close> moves the estimated cost from the balance into a
  reservation row; settlement, or a sweep of expired rows, releases it. The lemmas show that a
  reservation is booked and released exactly once and that balance plus reservations of a user is
  what both operations leave alone.

  The price quote and the settings row come from other components: \<open>quote\<close> and \<open>min_balance\<close>
  are their results.
\<close>

subsection \<open>Operations\<close>

definition precharge_key :: "string \<Rightarrow> string" where
  "precharge_key rid = ''precharge:'' @ rid"

definition release_key :: "string \<Rightarrow> string" where
  "release_key rid = ''precharge_release:'' @ rid"

definition precharge_change :: "int \<Rightarrow> string \<Rightarrow> rat \<Rightarrow> ledger_change" where
  "precharge_change u rid amount = \<lparr>ch_user = u, ch_amount = amount, ch_credit = False,
     ch_kind = ''usage'', ch_ref_type = ''precharge'', ch_ref_id = rid,
     ch_key = precharge_key rid, ch_operator = None, ch_plugin = [], ch_note = ''request precharge''\<rparr>"

definition release_change :: "int \<Rightarrow> string \<Rightarrow> rat \<Rightarrow> ledger_change" where
  "release_change u rid amount = \<lparr>ch_user = u, ch_amount = amount, ch_credit = True,
     ch_kind = ''refund'', ch_ref_type = ''precharge'', ch_ref_id = rid,
     ch_key = release_key rid, ch_operator = None, ch_plugin = [],
     ch_note = ''release request precharge''\<rparr>"

definition insert_precharge :: "env \<Rightarrow> int \<Rightarrow> string \<Rightarrow> int \<Rightarrow> rat \<Rightarrow> db \<Rightarrow> err + db" where
  "insert_precharge env now rid u amount d =
     and_then (stmt env ''insert request_precharges'') (\<lambda>_.
       if rid \<in> pr_request ` set (precharges d) \<or> amount \<le> 0 then Inl (ErrDB ''constraint'')
       else Inr (d\<lparr>precharges := \<lparr>pr_request = rid, pr_user = u, pr_amount = amount,
              pr_expires = now + 86400\<rparr> # precharges d\<rparr>))"

definition prechargeTx :: "env \<Rightarrow> int \<Rightarrow> int \<Rightarrow> string \<Rightarrow> rat \<Rightarrow> rat \<Rightarrow> db \<Rightarrow>
    err + ledger_result option \<times> db" where
  "prechargeTx env now u rid amount m d =
     and_then (case ensure_balance env u d of Inl _ \<Rightarrow> Inl (ErrDB ''insert user_balances'') | Inr d \<Rightarrow> Inr d) (\<lambda>d.
     and_then (lock_balance env u d) (\<lambda>balance.
     and_then (stmt env ''select ledger exists'') (\<lambda>_.
       if findLedger d (precharge_key rid) \<noteq> None then Inr (None, d)
       else if \<not> meetsMin (balance - amount) m then Inl ErrInsufficientBalance
       else and_then (insert_precharge env now rid u amount d) (\<lambda>d.
            and_then (ApplyTx env d (precharge_change u rid amount)) (\<lambda>(lr, d). Inr (Some lr, d))))))"

definition cache_result :: "bool \<times> bool \<times> bool \<Rightarrow> cache \<Rightarrow> int \<Rightarrow> ledger_result option \<Rightarrow> cache" where
  "cache_result rds c u lr =
     (case lr of None \<Rightarrow> c
      | Some r \<Rightarrow> (case rds of (has_rdb, script_ok, del_ok) \<Rightarrow>
          CacheBalance has_rdb script_ok del_ok c u (r_id r) (r_after r)))"

definition Precharge :: "env \<Rightarrow> bool \<times> bool \<times> bool \<Rightarrow> int \<Rightarrow> bool \<Rightarrow> (err + rat) \<Rightarrow> (err + rat) \<Rightarrow>
    int \<Rightarrow> string \<Rightarrow> db \<Rightarrow> cache \<Rightarrow> (err + unit) \<times> db \<times> cache" where
  "Precharge env rds now priced quote min_balance u rid d c =
     (if \<not> priced then (Inr (), d, c)
      else case quote of
        Inl e \<Rightarrow> (Inl e, d, c)
      | Inr amount \<Rightarrow>
          if amount = 0 then (Inr (), d, c)
          else if amount < 0 then (Inl ErrNegativePrecharge, d, c)
          else case min_balance of
            Inl e \<Rightarrow> (Inl e, d, c)
          | Inr m \<Rightarrow>
              (case prechargeTx env now u rid amount m d of
                 Inl e \<Rightarrow> (Inl e, d, c)
               | Inr (lr, d') \<Rightarrow> (Inr (), d', cache_result rds c u lr)))"

definition find_precharge :: "db \<Rightarrow> int \<Rightarrow> string \<Rightarrow> precharge_row option" where
  "find_precharge d u rid = List.find (\<lambda>p. pr_request p = rid \<and> pr_user p = u) (precharges d)"

definition delete_precharge :: "int \<Rightarrow> string \<Rightarrow> db \<Rightarrow> db" where
  "delete_precharge u rid d =
     d\<lparr>precharges := filter (\<lambda>p. \<not> (pr_request p = rid \<and> pr_user p = u)) (precharges d)\<rparr>"

definition ReleasePrechargeTx :: "env \<Rightarrow> db \<Rightarrow> int \<Rightarrow> string \<Rightarrow> err + ledger_result option \<times> db" where
  "ReleasePrechargeTx env d u rid =
     and_then (stmt env ''select precharge exists'') (\<lambda>_.
       if find_precharge d u rid = None then Inr (None, d)
       else and_then (lock_balance env u d) (\<lambda>_.
         and_then (stmt env ''delete request_precharges'') (\<lambda>_.
           case find_precharge d u rid of
             None \<Rightarrow> Inr (None, d)
           | Some p \<Rightarrow>
               and_then (ApplyTx env (delete_precharge u rid d) (release_change u rid (pr_amount p)))
                 (\<lambda>(lr, d). Inr (Some lr, d)))))"

definition releasable :: "db \<Rightarrow> int \<Rightarrow> precharge_row \<Rightarrow> bool" where
  "releasable d now p \<longleftrightarrow> pr_expires p < now \<and>
     \<not> (\<exists>x \<in> set (usage d). RequestID (u_p x) = pr_request p \<and> u_status x \<in> {StatusPending, StatusFailed})"

definition expired_batch :: "db \<Rightarrow> int \<Rightarrow> precharge_row list" where
  "expired_batch d now = take 100 (sort_key pr_expires (filter (releasable d now) (precharges d)))"

primrec release_entries :: "(nat \<Rightarrow> env) \<Rightarrow> bool \<times> bool \<times> bool \<Rightarrow> precharge_row list \<Rightarrow> db \<Rightarrow> cache \<Rightarrow>
    nat \<Rightarrow> nat \<times> db \<times> cache" where
  "release_entries envs rds [] d c failed = (failed, d, c)"
| "release_entries envs rds (p # ps) d c failed =
     (case ReleasePrechargeTx (envs (length ps)) d (pr_user p) (pr_request p) of
        Inl _ \<Rightarrow> release_entries envs rds ps d c (Suc failed)
      | Inr (lr, d') \<Rightarrow> release_entries envs rds ps d' (cache_result rds c (pr_user p) lr) failed)"

definition ReleaseExpiredPrecharges :: "env \<Rightarrow> (nat \<Rightarrow> env) \<Rightarrow> bool \<times> bool \<times> bool \<Rightarrow> int \<Rightarrow> db \<Rightarrow> cache \<Rightarrow>
    err + nat \<times> db \<times> cache" where
  "ReleaseExpiredPrecharges env envs rds now d c =
     and_then (stmt env ''select expired precharges'') (\<lambda>_.
       Inr (release_entries envs rds (expired_batch d now) d c 0))"

subsection \<open>Reservations and the ledger\<close>

text \<open>
  \<open>held\<close> is what a user has reserved. \<open>holds_ok\<close>: a reservation's booking is in the ledger and its
  release is not, no release is booked without its booking, and amounts are positive and rounded.
\<close>

definition held :: "db \<Rightarrow> int \<Rightarrow> rat" where
  "held d u = sum_list (map pr_amount (filter (\<lambda>p. pr_user p = u) (precharges d)))"

definition holds_ok :: "env \<Rightarrow> db \<Rightarrow> bool" where
  "holds_ok env d \<longleftrightarrow> distinct (map pr_request (precharges d)) \<and>
     (\<forall>p \<in> set (precharges d). has_key d (precharge_key (pr_request p)) \<and>
        \<not> has_key d (release_key (pr_request p)) \<and> 0 < pr_amount p \<and> env_round8 env (pr_amount p) = pr_amount p) \<and>
     (\<forall>rid. has_key d (release_key rid) \<longrightarrow> has_key d (precharge_key rid))"

lemma keys_distinct [simp]:
  "precharge_key a = precharge_key b \<longleftrightarrow> a = b" "release_key a = release_key b \<longleftrightarrow> a = b"
  "precharge_key a \<noteq> release_key b" "release_key b \<noteq> precharge_key a"
  by (auto simp: precharge_key_def release_key_def)

lemma change_simps [simp]:
  "ch_user (precharge_change u rid a) = u" "ch_key (precharge_change u rid a) = precharge_key rid"
  "ch_user (release_change u rid a) = u" "ch_key (release_change u rid a) = release_key rid"
  "ch_amount (precharge_change u rid a) = a" "ch_amount (release_change u rid a) = a"
  by (simp_all add: precharge_change_def release_change_def)

lemma signed_changes [simp]:
  "env_round8 env a = a \<Longrightarrow> change_delta (rounded env (precharge_change u rid a)) = - a"
  "env_round8 env a = a \<Longrightarrow> change_delta (rounded env (release_change u rid a)) = a"
  by (simp_all add: precharge_change_def release_change_def rounded_def change_delta_def)

lemma ApplyTx_validates: "ApplyTx env d ch = Inr x \<Longrightarrow> 0 < ch_amount ch \<and> env_round8 env (ch_amount ch) = ch_amount ch"
  by (cases x) (auto simp: ApplyTx_def validateChange_def Let_def err_simps split: if_splits)

lemma has_key_frame [simp]:
  "has_key (d\<lparr>precharges := ps\<rparr>) k = has_key d k" "db_balance (d\<lparr>precharges := ps\<rparr>) = db_balance d"
  "ledger_ok (d\<lparr>precharges := ps\<rparr>) = ledger_ok d"
  by (simp_all add: has_key_def db_balance_def fun_eq_iff ledger_ok_def)

lemma has_key_delete [simp]:
  "has_key (delete_precharge u rid d) k = has_key d k"
  "db_balance (delete_precharge u rid d) = db_balance d"
  "ledger_ok (delete_precharge u rid d) = ledger_ok d"
  by (simp_all add: delete_precharge_def)


lemma prechargeTx_success:
  assumes "prechargeTx env now u rid amount m d = Inr (lr, d')" and "env_race env = None"
  obtains
    (Again) "has_key d (precharge_key rid)" "lr = None" "d' = touch u d"
  | (Held) r row where "\<not> has_key d (precharge_key rid)" "lr = Some r" "m < db_balance d u - amount"
      "row = \<lparr>pr_request = rid, pr_user = u, pr_amount = amount, pr_expires = now + 86400\<rparr>"
      "rid \<notin> pr_request ` set (precharges d)" "0 < amount" "env_round8 env amount = amount"
      "ApplyTx env (touch u d\<lparr>precharges := row # precharges d\<rparr>) (precharge_change u rid amount) = Inr (r, d')"
proof (cases "has_key d (precharge_key rid)")
  case True
  then have "findLedger d (precharge_key rid) \<noteq> None" by (simp add: findLedger_None)
  with assms(1) have "lr = None \<and> d' = touch u d"
    by (auto simp: prechargeTx_def err_simps split: sum.splits dest!: ensure_balance_Inr)
  with True show ?thesis by (intro Again) auto
next
  case False
  then have none: "findLedger d (precharge_key rid) = None" by (simp add: findLedger_None)
  from assms(1) none obtain r where r: "lr = Some r" "\<not> m \<ge> db_balance d u - amount"
    "rid \<notin> pr_request ` set (precharges d)"
    "ApplyTx env (touch u d\<lparr>precharges := \<lparr>pr_request = rid, pr_user = u, pr_amount = amount,
       pr_expires = now + 86400\<rparr> # precharges d\<rparr>) (precharge_change u rid amount) = Inr (r, d')"
    by (auto simp: prechargeTx_def err_simps insert_precharge_def meetsMin_def
      split: sum.splits if_splits dest!: ensure_balance_Inr lock_balance_Inr)
  with False ApplyTx_validates [OF r(4)] show ?thesis by (intro Held) auto
qed

lemma ReleasePrechargeTx_success:
  assumes "ReleasePrechargeTx env d u rid = Inr (lr, d')"
  obtains
    (Gone) "find_precharge d u rid = None" "lr = None" "d' = d"
  | (Released) p r where "find_precharge d u rid = Some p" "lr = Some r"
      "ApplyTx env (delete_precharge u rid d) (release_change u rid (pr_amount p)) = Inr (r, d')"
  using assms by (auto simp: ReleasePrechargeTx_def err_simps split: if_splits option.splits)

lemma find_precharge_SomeD:
  "find_precharge d u rid = Some p \<Longrightarrow> p \<in> set (precharges d) \<and> pr_request p = rid \<and> pr_user p = u"
  by (auto simp: find_precharge_def find_Some_iff)

lemma held_delete:
  assumes "distinct (map pr_request (precharges d))" and "find_precharge d u rid = Some p"
  shows "held (delete_precharge u rid d) v = held d v - (if v = u then pr_amount p else 0)"
proof -
  have "sum_list (map pr_amount (filter (\<lambda>q. pr_user q = v)
        (filter (\<lambda>q. \<not> (pr_request q = rid \<and> pr_user q = u)) ps))) =
      sum_list (map pr_amount (filter (\<lambda>q. pr_user q = v) ps)) - (if v = u then pr_amount p else 0)"
    if "distinct (map pr_request ps)" "p \<in> set ps" "pr_request p = rid" "pr_user p = u" for ps
    using that
  proof (induction ps)
    case (Cons q ps)
    show ?case
    proof (cases "q = p")
      case True
      with Cons.prems have "filter (\<lambda>q. \<not> (pr_request q = rid \<and> pr_user q = u)) ps = ps"
        by (auto simp: filter_id_conv) (metis image_eqI)
      with True Cons.prems show ?thesis by auto
    next
      case False
      with Cons.prems have "pr_request q \<noteq> rid" by force
      with False Cons show ?thesis by auto
    qed
  qed simp
  with assms find_precharge_SomeD [OF assms(2)] show ?thesis
    by (simp add: held_def delete_precharge_def)
qed

lemma held_frame: "precharges d' = precharges d \<Longrightarrow> held d' u = held d u"
  by (simp add: held_def)

text \<open>What a precharge and a release do to \<open>holds_ok\<close>, \<open>ledger_ok\<close> and balance plus reservations.\<close>

lemma prechargeTx_keeps:
  assumes "prechargeTx env now u rid amount m d = Inr (lr, d')" and "env_race env = None"
    and "ledger_ok d" and "holds_ok env d"
  shows "ledger_ok d' \<and> holds_ok env d' \<and> (\<forall>v. db_balance d' v + held d' v = db_balance d v + held d v)"
  using assms(1,2)
proof (cases rule: prechargeTx_success)
  case Again
  with assms(3,4) show ?thesis by (simp add: holds_ok_def has_key_def held_def)
next
  case (Held r row)
  let ?d = "touch u d\<lparr>precharges := row # precharges d\<rparr>"
  note ap = Held(8) assms(2)
  have "ledger_ok d'" using ApplyTx_ledger_ok [OF ap] assms(3) by simp
  moreover have hk: "has_key d' k \<longleftrightarrow> k = precharge_key rid \<or> has_key d k" for k
    using ApplyTx_has_key [OF ap] by (simp add: has_key_def)
  moreover have pre: "precharges d' = row # precharges d" using ApplyTx_frame [OF ap] by simp
  ultimately have "holds_ok env d'"
    using assms(4) Held(1,4-7) unfolding holds_ok_def pre hk by auto
  moreover have "db_balance d' v + held d' v = db_balance d v + held d v" for v
    using ApplyTx_balance [OF ap, of v] Held(1,4,7) by (simp add: has_key_def held_def pre)
  ultimately show ?thesis using \<open>ledger_ok d'\<close> by blast
qed

lemma ReleasePrechargeTx_keeps:
  assumes "ReleasePrechargeTx env d u rid = Inr (lr, d')" and "env_race env = None"
    and "ledger_ok d" and "holds_ok env d"
  shows "ledger_ok d' \<and> holds_ok env d' \<and> (\<forall>v. db_balance d' v + held d' v = db_balance d v + held d v)"
  using assms(1)
proof (cases rule: ReleasePrechargeTx_success)
  case Gone
  with assms(3,4) show ?thesis by simp
next
  case (Released p r)
  note ap = Released(3) assms(2)
  note p = find_precharge_SomeD [OF Released(1)]
  from p assms(4) have pk: "has_key d (precharge_key rid)" "\<not> has_key d (release_key rid)"
    "env_round8 env (pr_amount p) = pr_amount p" and dist: "distinct (map pr_request (precharges d))"
    by (auto simp: holds_ok_def)
  have "ledger_ok d'" using ApplyTx_ledger_ok [OF ap] assms(3) by simp
  moreover have hk: "has_key d' k \<longleftrightarrow> k = release_key rid \<or> has_key d k" for k
    using ApplyTx_has_key [OF ap] by simp
  moreover have pre: "precharges d' = precharges (delete_precharge u rid d)"
    using ApplyTx_frame [OF ap] by simp
  moreover have left: "pr_request q \<noteq> rid" if "q \<in> set (precharges (delete_precharge u rid d))" for q
    using that p dist by (auto simp: delete_precharge_def distinct_map inj_on_def)
  have sub: "set (precharges (delete_precharge u rid d)) \<subseteq> set (precharges d)"
    by (auto simp: delete_precharge_def)
  have "distinct (map pr_request (precharges (delete_precharge u rid d)))"
    using dist by (simp add: delete_precharge_def distinct_map_filter)
  with assms(4) pk left sub have "holds_ok env d'"
    unfolding holds_ok_def pre hk by auto
  moreover have "db_balance d' v + held d' v = db_balance d v + held d v" for v
    using ApplyTx_balance [OF ap, of v] pk(2,3) held_delete [OF dist Released(1), of v]
      held_frame [OF pre, of v] by simp
  ultimately show ?thesis using \<open>ledger_ok d'\<close> by blast
qed


subsection \<open>The sweep\<close>

text \<open>
  All transactions of a run share the rounding and see no race; which statements fail differs.
\<close>

definition run_envs :: "(rat \<Rightarrow> rat) \<Rightarrow> (nat \<Rightarrow> env) \<Rightarrow> bool" where
  "run_envs rnd envs \<longleftrightarrow> (\<forall>i. env_round8 (envs i) = rnd \<and> env_race (envs i) = None)"

lemma holds_ok_cong: "env_round8 e = env_round8 e' \<Longrightarrow> holds_ok e d = holds_ok e' d"
  by (simp add: holds_ok_def)

lemma release_entries_keeps:
  assumes "run_envs (env_round8 env) envs" and "ledger_ok d" and "holds_ok env d"
    and "release_entries envs rds ps d c n = (m, d', c')"
  shows "ledger_ok d' \<and> holds_ok env d' \<and> (\<forall>v. db_balance d' v + held d' v = db_balance d v + held d v)"
  using assms(2-)
proof (induction ps arbitrary: d c n)
  case (Cons p ps)
  let ?e = "envs (length ps)"
  have env: "env_round8 ?e = env_round8 env" "env_race ?e = None"
    using assms(1) by (auto simp: run_envs_def)
  show ?case
  proof (cases "ReleasePrechargeTx ?e d (pr_user p) (pr_request p)")
    case (Inl e)
    with Cons show ?thesis by simp
  next
    case (Inr x)
    obtain lr d1 where x: "x = (lr, d1)" by (cases x)
    from ReleasePrechargeTx_keeps [OF Inr [unfolded x] env(2) Cons.prems(1)] Cons.prems(2)
    have one: "ledger_ok d1" "holds_ok env d1" "\<forall>v. db_balance d1 v + held d1 v = db_balance d v + held d v"
      using holds_ok_cong [OF env(1)] by auto
    with Cons.IH [OF one(1,2)] Cons.prems(3) Inr x show ?thesis by simp
  qed
qed simp

lemma ReleasePrechargeTx_precharges:
  assumes "ReleasePrechargeTx env d u rid = Inr (lr, d')" and "env_race env = None"
  shows "usage d' = usage d \<and>
    precharges d' = filter (\<lambda>p. \<not> (pr_request p = rid \<and> pr_user p = u)) (precharges d)"
  using assms(1)
proof (cases rule: ReleasePrechargeTx_success)
  case Gone
  then show ?thesis by (auto simp: find_precharge_def find_None_iff filter_id_conv)
next
  case (Released p r)
  then show ?thesis using ApplyTx_frame [OF Released(3) assms(2)] by (simp add: delete_precharge_def)
qed

lemma release_entries_left:
  assumes "run_envs rnd envs" and "release_entries envs rds ps d c n = (m, d', c')"
    and "q \<in> set (precharges d)" and "pr_request q \<notin> pr_request ` set ps"
  shows "q \<in> set (precharges d')"
  using assms(2-)
proof (induction ps arbitrary: d c n)
  case (Cons p ps)
  have race: "env_race (envs (length ps)) = None" using assms(1) by (auto simp: run_envs_def)
  show ?case
  proof (cases "ReleasePrechargeTx (envs (length ps)) d (pr_user p) (pr_request p)")
    case (Inl e)
    with Cons show ?thesis by simp
  next
    case (Inr x)
    obtain lr d1 where x: "x = (lr, d1)" by (cases x)
    have "q \<in> set (precharges d1)"
      using ReleasePrechargeTx_precharges [OF Inr [unfolded x] race] Cons.prems(2,3) by auto
    with Cons.IH [of d1] Cons.prems(1,3) Inr x show ?thesis by simp
  qed
qed simp

subsection \<open>Properties\<close>

lemma demo_env_round [simp]: "env_round8 demo_env = round_half_away8"
  by (simp add: demo_env_def no_faults_def)

lemma demo_funded:
  obtains r d' where "ApplyTx demo_env demo_empty demo_change = Inr (r, d')" "ledger_ok d'"
    "holds_ok demo_env d'" "db_balance d' 1 = 10"
proof -
  obtain r d' where run: "ApplyTx demo_env demo_empty demo_change = Inr (r, d')" by (rule demo_apply)
  have "precharges d' = []" using ApplyTx_frame [OF run demo_env_race] by (simp add: demo_empty_def)
  moreover have "\<not> has_key d' (release_key rid)" for rid
    using ApplyTx_has_key [OF run demo_env_race]
    by (simp add: has_key_def demo_empty_def demo_change_def release_key_def)
  ultimately have "holds_ok demo_env d'" by (simp add: holds_ok_def)
  moreover have "db_balance d' 1 = 10"
    using ApplyTx_balance [OF run demo_env_race, of 1] demo_values by simp
  ultimately show ?thesis using that run ApplyTx_ledger_ok [OF run demo_env_race demo_empty_ok] by blast
qed

text \<open>C8: A precharge only moves money: after a successful \<open>Precharge\<close> balance plus reservations of
  every user is what it was, the books stay consistent, and if this call made the reservation then
  the remaining balance is still strictly above the minimum and the reservation grew by the quoted
  amount.\<close>

theorem precharge_moves_money:
  assumes "Precharge env rds now True (Inr a) (Inr m) u rid d c = (Inr (), d', c')"
    and "env_race env = None" and "ledger_ok d" and "holds_ok env d" and "a \<noteq> 0"
  shows "ledger_ok d' \<and> holds_ok env d' \<and>
    (\<forall>v. db_balance d' v + held d' v = db_balance d v + held d v) \<and>
    (has_key d (precharge_key rid) \<or> (m < db_balance d' u \<and> held d' u = held d u + a))"
proof -
  from assms(1,5) obtain lr where tx: "prechargeTx env now u rid a m d = Inr (lr, d')"
    by (auto simp: Precharge_def split: if_splits sum.splits)
  have "has_key d (precharge_key rid) \<or> (m < db_balance d' u \<and> held d' u = held d u + a)"
    using tx assms(2)
  proof (cases rule: prechargeTx_success)
    case (Held r row)
    note ap = Held(8) assms(2)
    have pre: "precharges d' = row # precharges d" using ApplyTx_frame [OF ap] by simp
    show ?thesis
      using ApplyTx_balance [OF ap, of u] Held(1,3,4,7) by (simp add: has_key_def held_def pre)
  qed simp
  with prechargeTx_keeps [OF tx assms(2-4)] show ?thesis by blast
qed

theorem precharge_moves_money_witness:
  "\<exists>d d' c'. Precharge demo_env (True, True, True) 0 True (Inr 3) (Inr 0) 1 ''r1'' d (\<lambda>_. None) = (Inr (), d', c') \<and>
     held d' 1 = 3 \<and> db_balance d' 1 = 7"
proof -
  obtain r d where run: "ApplyTx demo_env demo_empty demo_change = Inr (r, d)" "ledger_ok d"
    "holds_ok demo_env d" "db_balance d 1 = 10" by (rule demo_funded)
  let ?d = "snd (projr (ApplyTx demo_env demo_empty demo_change))"
  have d: "?d = d" using run(1) by simp
  have "case Precharge demo_env (True, True, True) 0 True (Inr 3) (Inr 0) 1 ''r1'' ?d (\<lambda>_. None) of
      (Inr _, _, _) \<Rightarrow> True | _ \<Rightarrow> False" by code_simp
  then obtain d' c' where
    pre: "Precharge demo_env (True, True, True) 0 True (Inr 3) (Inr 0) 1 ''r1'' d (\<lambda>_. None) = (Inr (), d', c')"
    unfolding d by (auto split: prod.splits sum.splits)
  have "\<not> has_key d (precharge_key ''r1'')" "held d 1 = 0"
    using ApplyTx_has_key [OF run(1) demo_env_race] ApplyTx_frame [OF run(1) demo_env_race]
    by (simp_all add: held_def has_key_def demo_empty_def demo_change_def precharge_key_def)
  with precharge_moves_money [OF pre demo_env_race run(2,3)] run(4) have
    "held d' 1 = 3" "db_balance d' 1 = 7" by (auto dest: spec [of _ 1])
  with pre show ?thesis by blast
qed

text \<open>A request the user cannot pay for is refused and reserves nothing: with a quote above what
  the balance holds over the minimum and no earlier precharge of the request, \<open>Precharge\<close> fails, with
  \<open>ErrInsufficientBalance\<close> unless a statement failed first, and changes neither tables nor cache.\<close>

lemma precharge_refuses_unfunded:
  assumes "0 < a" and "\<not> m < db_balance d u - a" and "\<not> has_key d (precharge_key rid)"
  shows "\<exists>e. Precharge env rds now True (Inr a) (Inr m) u rid d c = (Inl e, d, c) \<and>
    (e = ErrInsufficientBalance \<or> (\<exists>s. e = ErrDB s))"
proof -
  have "findLedger d (precharge_key rid) = None" using assms(3) by (simp add: findLedger_None)
  then have "findLedger d1 (precharge_key rid) = None"
    if "ensure_balance env u d = Inr d1" for d1 using ensure_balance_Inr [OF that] by simp
  moreover have "b = db_balance d u" if "ensure_balance env u d = Inr d1" "lock_balance env u d1 = Inr b" for d1 b
    using ensure_balance_Inr [OF that(1)] lock_balance_Inr [OF that(2)] by simp
  ultimately have "\<exists>e. prechargeTx env now u rid a m d = Inl e \<and> (e = ErrInsufficientBalance \<or> (\<exists>s. e = ErrDB s))"
    using assms(2)
    by (cases "ensure_balance env u d"; simp add: prechargeTx_def;
        cases "lock_balance env u (touch u d)"; auto dest!: ensure_balance_Inr
          simp: meetsMin_def lock_balance_def stmt_def ensure_def split: option.splits if_splits)
  with assms(1) show ?thesis by (auto simp: Precharge_def)
qed

lemma precharge_refuses_unfunded_witness:
  "\<exists>e. Precharge demo_env (True, True, True) 0 True (Inr 3) (Inr 0) 1 ''r1'' demo_empty (\<lambda>_. None) =
    (Inl e, demo_empty, (\<lambda>_. None))"
proof -
  have "\<not> (0::rat) < db_balance demo_empty 1 - 3" "\<not> has_key demo_empty (precharge_key ''r1'')"
    by code_simp+
  from precharge_refuses_unfunded [OF _ this, of demo_env "(True, True, True)" 0 "\<lambda>_. None"]
  show ?thesis by auto
qed

text \<open>C11: A reservation is released once: a successful release gives the user exactly the reserved
  amount back, and a later release of the same request, whatever fails in it, books nothing and
  leaves the tables as they are.\<close>

theorem release_is_once:
  assumes "ReleasePrechargeTx env d u rid = Inr (Some r, d')" and "env_race env = None"
    and "holds_ok env d" and "find_precharge d u rid = Some p"
  shows "db_balance d' u = db_balance d u + pr_amount p \<and>
    (ReleasePrechargeTx env' d' u rid = Inr (None, d') \<or> (\<exists>e. ReleasePrechargeTx env' d' u rid = Inl e))"
proof -
  from find_precharge_SomeD [OF assms(4)] assms(3) have pk: "\<not> has_key d (release_key rid)"
    "env_round8 env (pr_amount p) = pr_amount p" by (auto simp: holds_ok_def)
  from assms(1,4) obtain r' where ap: "ApplyTx env (delete_precharge u rid d) (release_change u rid (pr_amount p)) = Inr (r', d')"
    by (auto elim: ReleasePrechargeTx_success)
  have "find_precharge d' u rid = None"
    using ReleasePrechargeTx_precharges [OF assms(1,2)] by (auto simp: find_precharge_def find_None_iff)
  then have "ReleasePrechargeTx env' d' u rid = Inr (None, d') \<or> (\<exists>e. ReleasePrechargeTx env' d' u rid = Inl e)"
    by (simp add: ReleasePrechargeTx_def stmt_def ensure_def)
  with ApplyTx_balance [OF ap assms(2), of u] pk show ?thesis by simp
qed

text \<open>A reservation of 3 for request \<open>r1\<close>, taken before the grant.\<close>

definition demo_held :: db where
  "demo_held = demo_empty\<lparr>precharges := [\<lparr>pr_request = ''r1'', pr_user = 1, pr_amount = 3, pr_expires = 0\<rparr>],
     balances := [1 \<mapsto> -3],
     ledger := [new_row demo_empty (rounded demo_env (precharge_change 1 ''r1'' 3)) (-3)], next_ledger := 2\<rparr>"

lemma demo_held_ok: "holds_ok demo_env demo_held" "ledger_ok demo_held"
proof -
  have "round_half_away8 3 = 3" by code_simp
  then show "holds_ok demo_env demo_held"
    by (simp add: holds_ok_def demo_held_def has_key_def rounded_def)
  have "change_delta (rounded demo_env (precharge_change 1 ''r1'' 3)) = -3" by code_simp
  then show "ledger_ok demo_held"
    by (simp add: ledger_ok_def demo_held_def demo_empty_def db_balance_def rounded_def)
qed

lemma demo_release:
  obtains r d' where "ReleasePrechargeTx demo_env demo_held 1 ''r1'' = Inr (Some r, d')"
proof -
  have "case ReleasePrechargeTx demo_env demo_held 1 ''r1'' of Inr (Some _, _) \<Rightarrow> True | _ \<Rightarrow> False" by code_simp
  then show ?thesis using that by (auto split: sum.splits option.splits)
qed

theorem release_is_once_witness:
  "\<exists>r d'. ReleasePrechargeTx demo_env demo_held 1 ''r1'' = Inr (Some r, d') \<and> db_balance d' 1 = 0"
proof -
  obtain r d' where run: "ReleasePrechargeTx demo_env demo_held 1 ''r1'' = Inr (Some r, d')" by (rule demo_release)
  have p: "find_precharge demo_held 1 ''r1'' = Some \<lparr>pr_request = ''r1'', pr_user = 1, pr_amount = 3, pr_expires = 0\<rparr>"
    by (simp add: find_precharge_def demo_held_def)
  from release_is_once [OF run demo_env_race demo_held_ok(1) p, of demo_env] run show ?thesis
    by (auto simp: demo_held_def db_balance_def)
qed

text \<open>The sweep of expired reservations: whichever of its transactions fail, balance plus
  reservations of every user stays what it was, and a reservation whose usage is still pending or
  failed, or that has not expired, is still there afterwards.\<close>

lemma sweep_spares_pending_usage:
  assumes "ReleaseExpiredPrecharges env envs rds now d c = Inr (n, d', c')"
    and "run_envs (env_round8 env) envs" and "ledger_ok d" and "holds_ok env d"
  shows "ledger_ok d' \<and> holds_ok env d' \<and>
    (\<forall>v. db_balance d' v + held d' v = db_balance d v + held d v) \<and>
    {q. q \<in> set (precharges d) \<and> \<not> releasable d now q} \<subseteq> set (precharges d')"
proof -
  from assms(1) have run: "release_entries envs rds (expired_batch d now) d c 0 = (n, d', c')"
    by (auto simp: ReleaseExpiredPrecharges_def err_simps)
  have "pr_request q \<notin> pr_request ` set (expired_batch d now)"
    if q: "q \<in> set (precharges d)" "\<not> releasable d now q" for q
  proof
    assume "pr_request q \<in> pr_request ` set (expired_batch d now)"
    then obtain p where p: "p \<in> set (expired_batch d now)" "pr_request p = pr_request q" by auto
    from p(1) have "p \<in> set (precharges d)" "releasable d now p"
      by (auto simp: expired_batch_def dest: in_set_takeD)
    with p(2) q assms(4) show False
      by (metis holds_ok_def distinct_map inj_onD)
  qed
  with release_entries_left [OF assms(2) run] release_entries_keeps [OF assms(2-4) run]
  show ?thesis by blast
qed

lemma sweep_spares_pending_usage_witness:
  "\<exists>n d' c'. ReleaseExpiredPrecharges demo_env (\<lambda>_. demo_env) (True, True, True) 5 demo_held (\<lambda>_. None) = Inr (n, d', c') \<and>
     db_balance d' 1 + held d' 1 = 0"
proof -
  obtain n d' c' where run: "ReleaseExpiredPrecharges demo_env (\<lambda>_. demo_env) (True, True, True) 5 demo_held (\<lambda>_. None) = Inr (n, d', c')"
    by (cases "release_entries (\<lambda>_. demo_env) (True, True, True) (expired_batch demo_held 5) demo_held (\<lambda>_. None) 0")
      (simp add: ReleaseExpiredPrecharges_def demo_env_def)
  have "run_envs (env_round8 demo_env) (\<lambda>_. demo_env)" by (simp add: run_envs_def)
  moreover have "db_balance demo_held 1 + held demo_held 1 = 0" by code_simp
  ultimately show ?thesis
    using sweep_spares_pending_usage [OF run _ demo_held_ok(2,1)] run by auto
qed

end
