(* ===== verification/ReconcileSettings.thy ===== *)
theory ReconcileSettings
  imports GoStrings
begin

section \<open>Settings of the reconcile loop (\<open>usage/reconcile_settings.go\<close>)\<close>

text \<open>
  Durations are Go's \<open>time.Duration\<close>: nanoseconds in an \<open>int64\<close>. A stored number of seconds is
  multiplied by \<open>time.Second\<close> in 64 bits, and the product wraps, so \<open>wrap64\<close> is written out where
  the code multiplies. The lemmas show that \<open>resolve\<close>, \<open>clampDeadline\<close> and \<open>clampDelay\<close> keep the
  loop's pacing in its bounds whatever the settings row and the plugin say, and that the range
  check of the settings endpoint is made on the wrapped value.
\<close>

subsection \<open>Durations\<close>

definition nanos :: "string \<Rightarrow> int option" where
  "nanos u =
     (if u = ''ns'' then Some 1 else if u \<in> {''us'', [CHR 0xC2, CHR 0xB5, CHR ''s''], [CHR 0xCE, CHR 0xBC, CHR ''s'']} then Some 1000
      else if u = ''ms'' then Some 1000000 else if u = ''s'' then Some 1000000000
      else if u = ''m'' then Some 60000000000 else if u = ''h'' then Some 3600000000000 else None)"

lemma dropWhile_length_le: "length (dropWhile P xs) \<le> length xs"
  by (induction xs) auto

lemma takeWhile_Nil_drop: "takeWhile P xs \<noteq> [] \<Longrightarrow> length (dropWhile P xs) < length xs"
  by (cases xs) (auto simp: le_imp_less_Suc dropWhile_length_le split: if_splits)

text \<open>
  \<open>time.ParseDuration\<close>: an optional sign, then \<open>0\<close> alone or a sequence of decimal numbers, each
  with an optional fraction and a unit. \<open>parse_units\<close> is its loop; each round removes a digit, a dot
  or a unit byte. A sum above \<open>2^63 - 1\<close> (one more with a minus sign) is an error.
\<close>

function parse_units :: "string \<Rightarrow> int \<Rightarrow> int option" where
  "parse_units s acc =
     (if s = [] then Some acc
      else
        let whole = takeWhile isDigit s; s1 = dropWhile isDigit s;
            dot = (case s1 of c # _ \<Rightarrow> c = CHR ''.'' | [] \<Rightarrow> False);
            s2 = (if dot then tl s1 else s1);
            frac = (if dot then takeWhile isDigit s2 else []);
            s3 = (if dot then dropWhile isDigit s2 else s2);
            u = takeWhile (\<lambda>c. \<not> isDigit c \<and> c \<noteq> CHR ''.'') s3;
            rest = dropWhile (\<lambda>c. \<not> isDigit c \<and> c \<noteq> CHR ''.'') s3
        in if whole = [] \<and> frac = [] then None
           else if u = [] then None
           else (case nanos u of
               None \<Rightarrow> None
             | Some n \<Rightarrow>
                 let v = digitsVal 0 whole * n + digitsVal 0 frac * n div 10 ^ length frac
                 in if acc + v > 9223372036854775808 then None
                    else parse_units rest (acc + v)))"
  by pat_completeness auto

termination parse_units
proof (relation "measure (\<lambda>(s, _). length s)", goal_cases)
  case 1
  then show ?case by simp
next
  case (2 s acc whole s1 dot s2 frac s3 u rest x2 v)
  have "length rest < length s3"
    using takeWhile_Nil_drop [of "\<lambda>c. \<not> isDigit c \<and> c \<noteq> CHR ''.''" s3] 2 by simp
  moreover have "length s3 \<le> length s2" unfolding 2(7) by (simp add: dropWhile_length_le)
  moreover have "length s2 \<le> length s1" unfolding 2(5) by simp
  moreover have "length s1 \<le> length s" unfolding 2(3) by (simp add: dropWhile_length_le)
  ultimately show ?case by simp
qed

declare parse_units.simps [simp del]

definition ParseDuration :: "string \<Rightarrow> int option" where
  "ParseDuration s =
     (let neg = (case s of c # _ \<Rightarrow> c = CHR ''-'' | [] \<Rightarrow> False);
          body = (case s of c # r \<Rightarrow> if c = CHR ''-'' \<or> c = CHR ''+'' then r else s | [] \<Rightarrow> s)
      in if body = ''0'' then Some 0
         else if body = [] then None
         else (case parse_units body 0 of
             None \<Rightarrow> None
           | Some d \<Rightarrow>
               if neg then Some (- d)
               else if d > 9223372036854775807 then None else Some d))"

subsection \<open>Constants and the settings row\<close>

definition second :: int where "second = 1000000000"

definition minReconcileDelay :: int where "minReconcileDelay = 5 * second"
definition maxReconcileDelay :: int where "maxReconcileDelay = 6 * 3600 * second"
definition minReconcileAge :: int where "minReconcileAge = 60 * second"
definition maxReconcileAge :: int where "maxReconcileAge = 30 * 24 * 3600 * second"
definition maxReconcileTries :: int where "maxReconcileTries = 1000"

record settings_row =
  MaxAgeSec :: int
  Backoff :: string
  MaxAttempts :: int
  MaxPollFailures :: int

definition DefaultReconcileSettings :: settings_row where
  "DefaultReconcileSettings = \<lparr>MaxAgeSec = 604800, Backoff = ''10s,30s,1m,5m,15m'',
     MaxAttempts = 100, MaxPollFailures = 20\<rparr>"

record resolved =
  maxAge :: int
  backoff :: "int list"
  maxAttempts :: int
  maxPollFailures :: int

subsection \<open>Parsing and clamping\<close>

definition parsePart :: "string \<Rightarrow> int option" where
  "parsePart p =
     (let part = trimSpace p in
      if part = [] then None
      else (case ParseDuration part of
          None \<Rightarrow> None
        | Some d \<Rightarrow> if d < minReconcileDelay \<or> maxReconcileDelay < d then None else Some d))"

definition parseBackoff :: "string \<Rightarrow> int list" where
  "parseBackoff spec = List.map_filter parsePart (splitOn CHR '','' spec)"

definition ageOf :: "int \<Rightarrow> int" where
  "ageOf sec = wrap64 (sec * second)"

definition resolve :: "settings_row \<Rightarrow> resolved" where
  "resolve s =
     (let d = DefaultReconcileSettings;
          age = ageOf (MaxAgeSec s);
          age = (if age < minReconcileAge \<or> maxReconcileAge < age then ageOf (MaxAgeSec d) else age);
          att = (if MaxAttempts s \<le> 0 \<or> maxReconcileTries < MaxAttempts s then MaxAttempts d else MaxAttempts s);
          pf = (if MaxPollFailures s < 0 \<or> maxReconcileTries < MaxPollFailures s then MaxPollFailures d
                else MaxPollFailures s);
          b = parseBackoff (Backoff s);
          b = (if b = [] then parseBackoff (Backoff d) else b)
      in \<lparr>maxAge = age, backoff = b, maxAttempts = att, maxPollFailures = pf\<rparr>)"

definition clampDeadline :: "resolved \<Rightarrow> int \<Rightarrow> int" where
  "clampDeadline r d =
     (if d \<le> 0 \<or> maxAge r < d then maxAge r
      else if d < minReconcileDelay then minReconcileDelay else d)"

definition clampDelay :: "resolved \<Rightarrow> int \<Rightarrow> int \<Rightarrow> int" where
  "clampDelay r want attempts =
     (if want \<le> 0 then
        let i = (if int (length (backoff r)) \<le> attempts then int (length (backoff r)) - 1 else attempts)
        in if i < 0 then minReconcileDelay
           else min (max (backoff r ! nat i) minReconcileDelay) maxReconcileDelay
      else min (max want minReconcileDelay) maxReconcileDelay)"

subsection \<open>The settings endpoint\<close>

text \<open>
  \<open>load\<close> overlays the stored document's present fields on the defaults; \<open>put\<close> checks the fields the
  request gives and returns their names when one is out of range.
\<close>

record settings_patch =
  p_age :: "int option"
  p_backoff :: "string option"
  p_attempts :: "int option"
  p_polls :: "int option"

definition overlay :: "settings_patch \<Rightarrow> settings_row \<Rightarrow> settings_row" where
  "overlay p v = \<lparr>MaxAgeSec = (case p_age p of None \<Rightarrow> MaxAgeSec v | Some x \<Rightarrow> x),
     Backoff = (case p_backoff p of None \<Rightarrow> Backoff v | Some x \<Rightarrow> x),
     MaxAttempts = (case p_attempts p of None \<Rightarrow> MaxAttempts v | Some x \<Rightarrow> x),
     MaxPollFailures = (case p_polls p of None \<Rightarrow> MaxPollFailures v | Some x \<Rightarrow> x)\<rparr>"

definition loadReconcileSettings :: "settings_patch option \<Rightarrow> settings_row" where
  "loadReconcileSettings stored =
     (case stored of None \<Rightarrow> DefaultReconcileSettings | Some p \<Rightarrow> overlay p DefaultReconcileSettings)"

definition put_fields :: "settings_patch \<Rightarrow> string list" where
  "put_fields p =
     (case p_age p of None \<Rightarrow> [] | Some x \<Rightarrow>
        if ageOf x < minReconcileAge \<or> maxReconcileAge < ageOf x then [''max_reconcile_age_sec''] else []) @
     (case p_backoff p of None \<Rightarrow> [] | Some b \<Rightarrow> if parseBackoff b = [] then [''reconcile_backoff''] else []) @
     (case p_attempts p of None \<Rightarrow> [] | Some n \<Rightarrow>
        if n \<le> 0 \<or> maxReconcileTries < n then [''max_reconcile_attempts''] else []) @
     (case p_polls p of None \<Rightarrow> [] | Some n \<Rightarrow>
        if n < 0 \<or> maxReconcileTries < n then [''max_poll_failures''] else [])"

subsection \<open>Bounds\<close>

lemmas pacing_defs = second_def minReconcileDelay_def maxReconcileDelay_def minReconcileAge_def
  maxReconcileAge_def maxReconcileTries_def

lemma default_age: "ageOf (MaxAgeSec DefaultReconcileSettings) = 604800 * second"
  by (simp add: ageOf_def wrap64_def DefaultReconcileSettings_def second_def)

lemma default_backoff:
  "parseBackoff (Backoff DefaultReconcileSettings) =
     [10 * second, 30 * second, 60 * second, 300 * second, 900 * second]"
  by code_simp

lemma parseBackoff_range: "d \<in> set (parseBackoff s) \<Longrightarrow> minReconcileDelay \<le> d \<and> d \<le> maxReconcileDelay"
  by (auto simp: parseBackoff_def List.map_filter_def parsePart_def Let_def split: option.splits if_splits)

lemma resolve_range:
  "minReconcileAge \<le> maxAge (resolve s)" "maxAge (resolve s) \<le> maxReconcileAge"
  "0 < maxAttempts (resolve s)" "maxAttempts (resolve s) \<le> maxReconcileTries"
  "0 \<le> maxPollFailures (resolve s)" "maxPollFailures (resolve s) \<le> maxReconcileTries"
  "backoff (resolve s) \<noteq> []" "\<forall>d \<in> set (backoff (resolve s)). minReconcileDelay \<le> d \<and> d \<le> maxReconcileDelay"
  by (simp_all add: resolve_def Let_def default_age default_backoff)
    (auto simp: pacing_defs DefaultReconcileSettings_def dest: parseBackoff_range)


lemma clampDelay_range: "minReconcileDelay \<le> clampDelay r want n" "clampDelay r want n \<le> maxReconcileDelay"
  by (auto simp: clampDelay_def Let_def pacing_defs)

lemma clampDeadline_range:
  "minReconcileAge \<le> maxAge r \<Longrightarrow> minReconcileDelay \<le> clampDeadline r d \<and> clampDeadline r d \<le> maxAge r"
  by (auto simp: clampDeadline_def pacing_defs)

subsection \<open>Properties\<close>

text \<open>Whatever the settings row holds (absurd numbers, wrapped products, an unparsable ladder) and
  whatever a plugin suggests, the delay before the next check is between 5 seconds and 6 hours, an
  entry's deadline is between 5 seconds and the resolved maximum age, which is between a minute and
  30 days, and the attempt limits are usable.\<close>

lemma pacing_stays_in_bounds:
  "minReconcileDelay \<le> clampDelay (resolve s) want n \<and> clampDelay (resolve s) want n \<le> maxReconcileDelay \<and>
   minReconcileDelay \<le> clampDeadline (resolve s) d \<and> clampDeadline (resolve s) d \<le> maxReconcileAge \<and>
   0 < maxAttempts (resolve s) \<and> maxAttempts (resolve s) \<le> maxReconcileTries \<and>
   0 \<le> maxPollFailures (resolve s) \<and> maxPollFailures (resolve s) \<le> maxReconcileTries"
  using clampDelay_range [of "resolve s" want n] clampDeadline_range [OF resolve_range(1), of s d]
    resolve_range(2-6) [of s] by linarith

text \<open>The settings endpoint checks the maximum age after multiplying it into nanoseconds, where the
  product wraps: 18446744134 seconds (about 585 years) pass the check as 60.29 seconds, and the loop
  then runs with that wrapped age, although the message promises at most 2592000 seconds.\<close>

lemma age_check_wraps:
  "put_fields \<lparr>p_age = Some 18446744134, p_backoff = None, p_attempts = None, p_polls = None\<rparr> = [] \<and>
   maxAge (resolve (DefaultReconcileSettings\<lparr>MaxAgeSec := 18446744134\<rparr>)) = 60290448384"
  by (simp add: put_fields_def resolve_def Let_def ageOf_def wrap64_def pacing_defs)

end
