(* ===== verification/Settlement.thy ===== *)
theory Settlement
  imports Precharge ReconcileSettings Glob
begin

section \<open>Settlement of usage records (\<open>usage/settler.go\<close>)\<close>

text \<open>
  A finished request becomes one row of \<open>usage_logs\<close>. \<open>insertAtomic\<close> writes it (free, pending or
  reserved), \<open>settleTx\<close> prices a pending row and charges it, \<open>reserveTx\<close> charges a plugin's estimate
  and registers the row with the reconcile loop, \<open>markFailed\<close> counts a failed attempt for the retry
  loop. The price engine and the quoter are parameters (\<open>pricer\<close>), the ledger behind the interface
  \<open>TxLedger\<close> is the record \<open>tx_ledger\<close> of its two operations; the locale \<open>usage_ledger\<close> states what the
  settler relies on, and its interpretation discharges the laws for the ledger and precharge
  models.
\<close>

subsection \<open>The interfaces\<close>

record tx_ledger =
  tl_apply :: "db \<Rightarrow> ledger_change \<Rightarrow> err + ledger_result \<times> db"
  tl_release :: "db \<Rightarrow> int \<Rightarrow> string \<Rightarrow> err + ledger_result option \<times> db"

record pricer =
  pc_compile :: "string \<Rightarrow> err + string"
  pc_hash :: "string \<Rightarrow> string"
  pc_quote :: "pending \<Rightarrow> err + rat"
  pc_eval :: "pending \<Rightarrow> err + rat \<times> string"

record detail =
  bd_tier :: string
  bd_cost :: rat
  bd_rate :: rat
  bd_total :: rat
  bd_ledger :: "int option"
  bd_attempts :: int

definition billing_ledger :: "env \<Rightarrow> tx_ledger" where
  "billing_ledger env = \<lparr>tl_apply = ApplyTx env, tl_release = ReleasePrechargeTx env\<rparr>"

definition releasePrechargeTx :: "tx_ledger option \<Rightarrow> db \<Rightarrow> int \<Rightarrow> string \<Rightarrow> err + ledger_result option \<times> db" where
  "releasePrechargeTx lg d u rid =
     (case lg of None \<Rightarrow> Inl ErrNoLedger | Some l \<Rightarrow> tl_release l d u rid)"

definition emit :: "env \<Rightarrow> event list \<Rightarrow> db \<Rightarrow> err + db" where
  "emit env evs d =
     (if env_events env then and_then (stmt env ''emit usage.recorded'') (\<lambda>_. Inr (d\<lparr>events := evs @ events d\<rparr>))
      else Inr d)"

definition recordedEvent :: "pending \<Rightarrow> rat \<Rightarrow> billing_status \<Rightarrow> event" where
  "recordedEvent p amt status = UsageRecorded (RequestID p) (UserID p) amt status"

subsection \<open>From a record to a row\<close>

definition initialStatus :: "usage_rec \<Rightarrow> billing_status" where
  "initialStatus rec =
     (if \<not> rc_billable rec \<or> rc_price rec = None then StatusFree
      else if rc_reservation rec \<noteq> None then StatusReserved else StatusPending)"

definition fromRecord :: "int \<Rightarrow> usage_rec \<Rightarrow> pending" where
  "fromRecord now rec = \<lparr>
     RequestID = trunc (rc_request rec) 64, UserID = rc_user rec, APIKeyID = rc_key rec,
     GroupID = rc_group rec, AccountID = rc_account rec, PluginKey = rc_plugin rec,
     Platform = rc_platform rec, Protocol = rc_protocol rec,
     AccountType = trunc (rc_account_type rec) 50,
     UpstreamProtocol = trunc (rc_upstream_protocol rec) 100, Model = rc_model rec,
     Success = rc_success rec, StatusCode = rc_status_code rec, ErrorType = rc_error_type rec,
     Tokens = rc_tokens rec, Metrics = rc_metrics rec, LatencyMs = rc_latency rec,
     CreatedAt = (case rc_created rec of None \<Rightarrow> now | Some t \<Rightarrow> t), Rate = rc_rate rec,
     PriceID = (case rc_price rec of None \<Rightarrow> 0 | Some r \<Rightarrow> rp_id r),
     Mode = (case rc_price rec of None \<Rightarrow> [] | Some r \<Rightarrow> rp_mode r),
     Expression = (case rc_price rec of None \<Rightarrow> [] | Some r \<Rightarrow> rp_expression r),
     Semantics = rc_semantics rec, Params = rc_params rec, Headers = rc_headers rec, Attempts = 0\<rparr>"

definition Anomalies :: "usage_rec \<Rightarrow> (string \<times> string) list" where
  "Anomalies r =
     (if rc_mismatch r = [] then [] else [(''response_mismatch'', rc_mismatch r)]) @
     (if rc_extract r = [] then [] else [(''usage_extract'', rc_extract r)]) @
     (if rc_dropped r = [] then [] else [(''reservation'', ''dropped''), (''reservation_error'', rc_dropped r)])"

text \<open>\<open>jsonb\<close> concatenation of two objects: the keys of the right one win.\<close>

definition merge_json :: "(string \<times> string) list \<Rightarrow> (string \<times> string) list \<Rightarrow> (string \<times> string) list" where
  "merge_json old new = filter (\<lambda>kv. fst kv \<notin> fst ` set new) old @ new"

definition row_of :: "pricer \<Rightarrow> int \<Rightarrow> usage_rec \<Rightarrow> int \<Rightarrow> usage_row" where
  "row_of pc now rec i =
     (let p = fromRecord now rec; billed = initialStatus rec \<in> {StatusPending, StatusReserved};
          rule = rc_price rec in
      \<lparr>u_id = i,
       u_p = p\<lparr>PluginKey := trunc (rc_plugin rec) 30, Platform := trunc (rc_platform rec) 50,
         Protocol := trunc (rc_protocol rec) 100, Model := trunc (rc_model rec) 200,
         ErrorType := trunc (rc_error_type rec) 50,
         PriceID := (if billed \<and> 0 < PriceID p then PriceID p else 0),
         Mode := (if billed then Mode p else []), Expression := [],
         Semantics := (if billed then Semantics p else []), Params := (if billed then Params p else []),
         Headers := (if billed then Headers p else [])\<rparr>,
       u_status = initialStatus rec, u_total = 0, u_tier = [],
       u_expr_hash = (if \<not> billed then [] else case rule of None \<Rightarrow> []
         | Some r \<Rightarrow> if rp_hash r = [] then pc_hash pc (rp_expression r) else rp_hash r),
       u_ledger_id = None, u_message = rc_error_message rec, u_anomalies = Anomalies rec\<rparr>)"

subsection \<open>Pricing\<close>

definition priceOf :: "pricer \<Rightarrow> pending \<Rightarrow> err + rat \<times> detail \<times> string" where
  "priceOf pc p =
     (if Expression p = [] then Inl (ErrPrice ''price expression not found'')
      else and_then (pc_compile pc (Expression p)) (\<lambda>h.
        and_then (pc_quote pc p) (\<lambda>amount.
        and_then (pc_eval pc p) (\<lambda>(cost, tier).
          Inr (amount, \<lparr>bd_tier = tier, bd_cost = cost, bd_rate = Rate p, bd_total = amount,
            bd_ledger = None, bd_attempts = Attempts p + 1\<rparr>, h)))))"

subsection \<open>Rows and keys\<close>

definition usage_key :: "string \<Rightarrow> string" where
  "usage_key rid = ''usage:'' @ rid"

definition find_usage :: "db \<Rightarrow> string \<Rightarrow> usage_row option" where
  "find_usage d rid = List.find (\<lambda>x. RequestID (u_p x) = rid) (usage d)"

definition update_usage :: "(usage_row \<Rightarrow> bool) \<Rightarrow> (usage_row \<Rightarrow> usage_row) \<Rightarrow> db \<Rightarrow> db" where
  "update_usage P f d = d\<lparr>usage := map (\<lambda>x. if P x then f x else x) (usage d)\<rparr>"

definition charge_change :: "pending \<Rightarrow> rat \<Rightarrow> ledger_change" where
  "charge_change p amt = \<lparr>ch_user = UserID p, ch_amount = amt, ch_credit = False,
     ch_kind = ''usage'', ch_ref_type = ''usage'', ch_ref_id = RequestID p,
     ch_key = usage_key (RequestID p), ch_operator = None, ch_plugin = [], ch_note = []\<rparr>"

text \<open>The charge both \<open>settleTx\<close> and \<open>reserveTx\<close> make, after the release of the precharge.\<close>

definition charge :: "tx_ledger option \<Rightarrow> db \<Rightarrow> pending \<Rightarrow> rat \<Rightarrow> err + ledger_result option \<times> int option \<times> db" where
  "charge lg d p amt =
     and_then (releasePrechargeTx lg d (UserID p) (RequestID p)) (\<lambda>(res, d).
       if 0 < amt then
         (case lg of None \<Rightarrow> Inl ErrNoLedger
          | Some l \<Rightarrow> and_then (tl_apply l d (charge_change p amt)) (\<lambda>(r, d). Inr (Some r, Some (r_id r), d)))
       else Inr (res, None, d))"

subsection \<open>Reservations\<close>

definition closeUnreconcilable :: "env \<Rightarrow> int \<Rightarrow> string \<Rightarrow> db \<Rightarrow> err + db" where
  "closeUnreconcilable env i reason d =
     and_then (stmt env ''update usage_logs'') (\<lambda>_.
       Inr (update_usage (\<lambda>x. u_id x = i) (\<lambda>x. x\<lparr>u_status := StatusBilled,
         u_anomalies := merge_json (u_anomalies x)
           [(''reconcile'', ''abandoned''), (''reconcile_error'', trunc reason 500)]\<rparr>) d))"

definition new_entry :: "resolved \<Rightarrow> int \<Rightarrow> db \<Rightarrow> int \<Rightarrow> int option \<Rightarrow> reservation \<Rightarrow> settle_row" where
  "new_entry cfg now d i account rv =
     (let deadline = now + clampDeadline cfg (rv_deadline rv);
          next = now + clampDelay cfg (rv_next_after rv) 0
      in \<lparr>s_id = next_settle d, s_plugin = trunc (rv_plugin rv) 30, s_ref = trunc (rv_ref rv) 200, s_usage = i,
          s_account = account, s_attempts = 0, s_next = (if deadline < next then deadline else next),
          s_deadline = deadline, s_state = SettleStatePending, s_error = [], s_created = now,
          s_task = None, s_poll_failures = 0\<rparr>)"

definition registerTx :: "env \<Rightarrow> resolved \<Rightarrow> int \<Rightarrow> db \<Rightarrow> int \<Rightarrow> int option \<Rightarrow> reservation \<Rightarrow> err + db" where
  "registerTx env cfg now d i account rv =
     and_then (stmt env ''insert pending_settlements'') (\<lambda>_.
       let e = new_entry cfg now d i account rv in
       if \<exists>s \<in> set (settlements d). s_plugin s = s_plugin e \<and> s_ref s = s_ref e
       then closeUnreconcilable env i
         (''duplicate ref_id '' @ trunc (rv_ref rv) 100 @ '' for plugin '' @ rv_plugin rv) d
       else Inr (d\<lparr>settlements := e # settlements d, next_settle := next_settle d + 1\<rparr>))"

definition reserved_row :: "pending \<Rightarrow> rat \<Rightarrow> detail \<Rightarrow> int option \<Rightarrow> usage_row \<Rightarrow> usage_row" where
  "reserved_row p amt detail lid x = x\<lparr>u_total := amt, u_ledger_id := lid,
     u_p := (u_p x)\<lparr>Semantics := Semantics p, Params := Params p, Headers := Headers p,
       Attempts := bd_attempts detail\<rparr>,
     u_tier := trunc (bd_tier detail) 100\<rparr>"

definition reserveTx :: "env \<Rightarrow> pricer \<Rightarrow> tx_ledger option \<Rightarrow> resolved \<Rightarrow> int \<Rightarrow> db \<Rightarrow> usage_rec \<times> int \<Rightarrow>
    err + ledger_result option \<times> db" where
  "reserveTx env pc lg cfg now d ri =
     (case ri of (rec, i) \<Rightarrow>
      (case rc_reservation rec of None \<Rightarrow> Inl (ErrDB ''nil reservation'') | Some rv \<Rightarrow>
      let p = fromRecord now rec in
      and_then (priceOf pc p) (\<lambda>(amt, detail, _).
      and_then (charge lg d p amt) (\<lambda>(res, lid, d).
      and_then (stmt env ''update usage_logs'') (\<lambda>_.
      and_then (registerTx env cfg now (update_usage (\<lambda>x. u_id x = i) (reserved_row p amt detail lid) d)
          i (rc_account rec) rv) (\<lambda>d. Inr (res, d)))))))"

subsection \<open>Settling a pending row\<close>

definition settleTx :: "env \<Rightarrow> pricer \<Rightarrow> tx_ledger option \<Rightarrow> bool \<Rightarrow> bool \<Rightarrow> db \<Rightarrow> pending \<Rightarrow>
    err + ledger_result option \<times> db" where
  "settleTx env pc lg skipLocked locked d p =
     and_then (priceOf pc p) (\<lambda>(amt, detail, hash).
     and_then (stmt env ''select usage_logs for update'') (\<lambda>_.
     case (if skipLocked \<and> locked then None else find_usage d (RequestID p)) of
       None \<Rightarrow> Inl ErrNotPending
     | Some x \<Rightarrow>
         if u_status x \<notin> {StatusPending, StatusFailed} then Inl ErrNotPending
         else and_then (charge lg d p amt) (\<lambda>(res, lid, d).
           and_then (stmt env ''update usage_logs'') (\<lambda>_.
             let d = update_usage (\<lambda>x. RequestID (u_p x) = RequestID p)
                 (\<lambda>x. x\<lparr>u_total := amt, u_status := StatusBilled, u_ledger_id := lid,
                   u_tier := trunc (bd_tier detail) 100, u_expr_hash := hash,
                   u_p := (u_p x)\<lparr>Semantics := Semantics p, Params := Params p, Headers := Headers p,
                     Attempts := bd_attempts detail, Mode := Mode p,
                     PriceID := (if 0 < PriceID p then PriceID p else 0), Rate := Rate p\<rparr>\<rparr>) d
             in and_then (emit env [recordedEvent p amt StatusBilled] d) (\<lambda>d. Inr (res, d))))))"

definition settle :: "env \<Rightarrow> pricer \<Rightarrow> tx_ledger option \<Rightarrow> bool \<times> bool \<times> bool \<Rightarrow> bool \<Rightarrow> bool \<Rightarrow> db \<Rightarrow> cache \<Rightarrow>
    pending \<Rightarrow> (err + unit) \<times> db \<times> cache" where
  "settle env pc lg rds skipLocked locked d c p =
     (case settleTx env pc lg skipLocked locked d p of
        Inl ErrNotPending \<Rightarrow> (Inr (), d, c)
      | Inl e \<Rightarrow> (Inl e, d, c)
      | Inr (res, d') \<Rightarrow>
          (Inr (), d', case res of Some r \<Rightarrow> if r_dup r then c else cache_result rds c (UserID p) (Some r)
                       | None \<Rightarrow> c))"

definition markFailed :: "env \<Rightarrow> db \<Rightarrow> pending \<Rightarrow> db" where
  "markFailed env d p =
     (if env_fails env ''mark failed'' then d
      else update_usage (\<lambda>x. RequestID (u_p x) = RequestID p \<and> u_status x \<in> {StatusPending, StatusFailed})
        (\<lambda>x. x\<lparr>u_status := StatusFailed, u_p := (u_p x)\<lparr>Attempts := Attempts p + 1,
           Semantics := Semantics p, Params := Params p, Headers := Headers p\<rparr>\<rparr>) d)"


subsection \<open>Inserting a batch\<close>

definition insert_one :: "env \<Rightarrow> pricer \<Rightarrow> int \<Rightarrow> db \<Rightarrow> usage_rec \<Rightarrow> err + int option \<times> db" where
  "insert_one env pc now d rec =
     and_then (stmt env ''insert usage_logs'') (\<lambda>_.
       if find_usage d (trunc (rc_request rec) 64) \<noteq> None then Inr (None, d)
       else Inr (Some (next_usage d), d\<lparr>usage := row_of pc now rec (next_usage d) # usage d,
              next_usage := next_usage d + 1\<rparr>))"

primrec insert_rows :: "env \<Rightarrow> pricer \<Rightarrow> int \<Rightarrow> usage_rec list \<Rightarrow> db \<Rightarrow> err + (usage_rec \<times> int) list \<times> db" where
  "insert_rows env pc now [] d = Inr ([], d)"
| "insert_rows env pc now (rec # recs) d =
     and_then (insert_one env pc now d rec) (\<lambda>(i, d).
     and_then (insert_rows env pc now recs d) (\<lambda>(ins, d).
       Inr ((case i of None \<Rightarrow> [] | Some i \<Rightarrow> [(rec, i)]) @ ins, d)))"

type_synonym owed = "(int \<times> int \<times> rat) list"

definition owe :: "int \<Rightarrow> ledger_result option \<Rightarrow> owed" where
  "owe u res = (case res of None \<Rightarrow> [] | Some r \<Rightarrow> if r_dup r then [] else [(u, r_id r, r_after r)])"

text \<open>A loop over inserted records, each step in the same transaction, collecting owed cache writes.\<close>

primrec tx_loop :: "('a \<Rightarrow> db \<Rightarrow> err + owed \<times> db) \<Rightarrow> 'a list \<Rightarrow> db \<Rightarrow> err + owed \<times> db" where
  "tx_loop f [] d = Inr ([], d)"
| "tx_loop f (x # xs) d =
     and_then (f x d) (\<lambda>(o1, d). and_then (tx_loop f xs d) (\<lambda>(o2, d). Inr (o1 @ o2, d)))"

definition free_step :: "tx_ledger option \<Rightarrow> usage_rec \<times> int \<Rightarrow> db \<Rightarrow> err + owed \<times> db" where
  "free_step lg ri d =
     (if initialStatus (fst ri) \<noteq> StatusFree then Inr ([], d)
      else and_then (releasePrechargeTx lg d (rc_user (fst ri)) (rc_request (fst ri)))
        (\<lambda>(res, d). Inr (owe (rc_user (fst ri)) res, d)))"

definition reserve_step :: "env \<Rightarrow> pricer \<Rightarrow> tx_ledger option \<Rightarrow> resolved \<Rightarrow> int \<Rightarrow> usage_rec \<times> int \<Rightarrow> db \<Rightarrow>
    err + owed \<times> db" where
  "reserve_step env pc lg cfg now ri d =
     (if initialStatus (fst ri) \<noteq> StatusReserved then Inr ([], d)
      else and_then (reserveTx env pc lg cfg now d ri) (\<lambda>(res, d). Inr (owe (rc_user (fst ri)) res, d)))"

definition settle_step :: "env \<Rightarrow> pricer \<Rightarrow> tx_ledger option \<Rightarrow> int \<Rightarrow> usage_rec \<times> int \<Rightarrow> db \<Rightarrow> err + owed \<times> db" where
  "settle_step env pc lg now ri d =
     (if initialStatus (fst ri) \<noteq> StatusPending then Inr ([], d)
      else and_then (settleTx env pc lg False False d (fromRecord now (fst ri)))
        (\<lambda>(res, d). Inr (owe (rc_user (fst ri)) res, d)))"

definition emit_free :: "env \<Rightarrow> int \<Rightarrow> (usage_rec \<times> int) list \<Rightarrow> db \<Rightarrow> err + db" where
  "emit_free env now ins d =
     (let free = map (\<lambda>(rec, _). recordedEvent (fromRecord now rec) 0 StatusFree)
           (filter (\<lambda>(rec, _). initialStatus rec = StatusFree) ins)
      in if free = [] then Inr d else emit env free d)"

definition settle_at_once :: "bool \<Rightarrow> env \<Rightarrow> pricer \<Rightarrow> tx_ledger option \<Rightarrow> int \<Rightarrow> (usage_rec \<times> int) list \<Rightarrow> db \<Rightarrow>
    err + owed \<times> db" where
  "settle_at_once settleNow env pc lg now ins d =
     (if settleNow then tx_loop (settle_step env pc lg now) ins d else Inr ([], d))"

definition insertTx :: "env \<Rightarrow> pricer \<Rightarrow> tx_ledger option \<Rightarrow> resolved \<Rightarrow> int \<Rightarrow> usage_rec list \<Rightarrow>
    (db \<Rightarrow> err + db) \<Rightarrow> (db \<Rightarrow> (string \<times> int) list \<Rightarrow> err + db) \<Rightarrow> bool \<Rightarrow> db \<Rightarrow> err + usage_rec list \<times> owed \<times> db" where
  "insertTx env pc lg cfg now batch before after settleNow d =
     and_then (before d) (\<lambda>d.
     and_then (insert_rows env pc now batch d) (\<lambda>(ins, d).
     and_then (tx_loop (free_step lg) ins d) (\<lambda>(o1, d).
     and_then (tx_loop (reserve_step env pc lg cfg now) ins d) (\<lambda>(o2, d).
     and_then (settle_at_once settleNow env pc lg now ins d) (\<lambda>(o3, d).
     and_then (after d (map (\<lambda>(rec, i). (rc_request rec, i)) ins)) (\<lambda>d.
     and_then (emit_free env now ins d) (\<lambda>d.
       Inr (map fst ins, o1 @ o2 @ o3, d))))))))"

definition cache_owed :: "bool \<times> bool \<times> bool \<Rightarrow> owed \<Rightarrow> cache \<Rightarrow> cache" where
  "cache_owed rds os c =
     fold (\<lambda>(u, i, b) c. case rds of (has_rdb, script_ok, del_ok) \<Rightarrow>
       CacheBalance has_rdb script_ok del_ok c u i b) os c"

definition insertAtomic :: "env \<Rightarrow> pricer \<Rightarrow> tx_ledger option \<Rightarrow> resolved \<Rightarrow> bool \<times> bool \<times> bool \<Rightarrow> int \<Rightarrow>
    usage_rec list \<Rightarrow> (db \<Rightarrow> err + db) \<Rightarrow> (db \<Rightarrow> (string \<times> int) list \<Rightarrow> err + db) \<Rightarrow> bool \<Rightarrow> db \<Rightarrow> cache \<Rightarrow>
    (err + usage_rec list) \<times> db \<times> cache" where
  "insertAtomic env pc lg cfg rds now batch before after settleNow d c =
     (case insertTx env pc lg cfg now batch before after settleNow d of
        Inl e \<Rightarrow> (Inl e, d, c)
      | Inr (ins, os, d') \<Rightarrow> (Inr ins, d', cache_owed rds os c))"

subsection \<open>The worker and the retry loop\<close>

text \<open>
  \<open>insert_batch\<close> is \<open>insert\<close>, the call without hooks. \<open>envs\<close> numbers the transactions of a batch: up to
  three attempts for the whole batch (0, 1, 2), one for each record when all of them failed, then
  one settlement and one \<open>markFailed\<close> for each record.
\<close>

definition insert_batch :: "env \<Rightarrow> pricer \<Rightarrow> tx_ledger option \<Rightarrow> resolved \<Rightarrow> bool \<times> bool \<times> bool \<Rightarrow> int \<Rightarrow>
    usage_rec list \<Rightarrow> db \<Rightarrow> cache \<Rightarrow> (err + usage_rec list) \<times> db \<times> cache" where
  "insert_batch env pc lg cfg rds now batch d c =
     insertAtomic env pc lg cfg rds now batch Inr (\<lambda>d _. Inr d) False d c"

primrec insert_attempts :: "nat \<Rightarrow> (nat \<Rightarrow> env) \<Rightarrow> pricer \<Rightarrow> tx_ledger option \<Rightarrow> resolved \<Rightarrow>
    bool \<times> bool \<times> bool \<Rightarrow> int \<Rightarrow> usage_rec list \<Rightarrow> err \<Rightarrow> db \<Rightarrow> cache \<Rightarrow> (err + usage_rec list) \<times> db \<times> cache" where
  "insert_attempts 0 envs pc lg cfg rds now batch e d c = (Inl e, d, c)"
| "insert_attempts (Suc n) envs pc lg cfg rds now batch e d c =
     (case insert_batch (envs n) pc lg cfg rds now batch d c of
        (Inl e, d, c) \<Rightarrow> insert_attempts n envs pc lg cfg rds now batch e d c
      | ok \<Rightarrow> ok)"

primrec insert_each :: "(nat \<Rightarrow> env) \<Rightarrow> pricer \<Rightarrow> tx_ledger option \<Rightarrow> resolved \<Rightarrow> bool \<times> bool \<times> bool \<Rightarrow> int \<Rightarrow>
    usage_rec list \<Rightarrow> db \<Rightarrow> cache \<Rightarrow> usage_rec list \<times> db \<times> cache" where
  "insert_each envs pc lg cfg rds now [] d c = ([], d, c)"
| "insert_each envs pc lg cfg rds now (rec # recs) d c =
     (case insert_batch (envs (length recs)) pc lg cfg rds now [rec] d c of (res, d, c) \<Rightarrow>
      case insert_each envs pc lg cfg rds now recs d c of (ins, d, c) \<Rightarrow>
        ((case res of Inl _ \<Rightarrow> [] | Inr one \<Rightarrow> one) @ ins, d, c))"

definition settle_or_mark :: "env \<Rightarrow> pricer \<Rightarrow> tx_ledger option \<Rightarrow> bool \<times> bool \<times> bool \<Rightarrow> bool \<Rightarrow> bool \<Rightarrow>
    pending \<Rightarrow> db \<times> cache \<Rightarrow> db \<times> cache" where
  "settle_or_mark env pc lg rds skipLocked locked p dc =
     (case settle env pc lg rds skipLocked locked (fst dc) (snd dc) p of
        (Inl _, d, c) \<Rightarrow> (markFailed env d p, c)
      | (Inr _, d, c) \<Rightarrow> (d, c))"

primrec settle_inserted :: "(nat \<Rightarrow> env) \<Rightarrow> pricer \<Rightarrow> tx_ledger option \<Rightarrow> bool \<times> bool \<times> bool \<Rightarrow> int \<Rightarrow>
    usage_rec list \<Rightarrow> db \<times> cache \<Rightarrow> db \<times> cache" where
  "settle_inserted envs pc lg rds now [] dc = dc"
| "settle_inserted envs pc lg rds now (rec # recs) dc =
     settle_inserted envs pc lg rds now recs
       (if initialStatus rec \<noteq> StatusPending then dc
        else settle_or_mark (envs (length recs)) pc lg rds False False (fromRecord now rec) dc)"

definition process :: "(nat \<Rightarrow> nat \<Rightarrow> env) \<Rightarrow> pricer \<Rightarrow> tx_ledger option \<Rightarrow> resolved \<Rightarrow> bool \<times> bool \<times> bool \<Rightarrow> int \<Rightarrow>
    usage_rec list \<Rightarrow> db \<Rightarrow> cache \<Rightarrow> db \<times> cache" where
  "process envs pc lg cfg rds now batch d c =
     (case insert_attempts 3 (envs 0) pc lg cfg rds now batch (ErrDB []) d c of
        (Inr ins, d, c) \<Rightarrow> settle_inserted (envs 1) pc lg rds now ins (d, c)
      | (Inl _, d, c) \<Rightarrow>
          if 1 < length batch then
            (case insert_each (envs 2) pc lg cfg rds now batch d c of (ins, d, c) \<Rightarrow>
               settle_inserted (envs 1) pc lg rds now ins (d, c))
          else (d, c))"

text \<open>
  The retry query: unbilled rows old enough and under the attempt limit, oldest first, at most 500,
  with the expression the two left joins find (\<open>expr_of\<close>).
\<close>

definition retry_rows :: "(usage_row \<Rightarrow> string) \<Rightarrow> int \<Rightarrow> int \<Rightarrow> int \<Rightarrow> db \<Rightarrow> pending list" where
  "retry_rows expr_of now retry_after max_attempts d =
     map (\<lambda>x. (u_p x)\<lparr>Expression := expr_of x\<rparr>)
       (take 500 (sort_key u_id (filter (\<lambda>x. u_status x \<in> {StatusPending, StatusFailed} \<and>
          CreatedAt (u_p x) < now - retry_after \<and> Attempts (u_p x) < max_attempts) (usage d))))"

primrec retry_each :: "(nat \<Rightarrow> env) \<Rightarrow> pricer \<Rightarrow> tx_ledger option \<Rightarrow> bool \<times> bool \<times> bool \<Rightarrow> (nat \<Rightarrow> bool) \<Rightarrow>
    pending list \<Rightarrow> db \<times> cache \<Rightarrow> db \<times> cache" where
  "retry_each envs pc lg rds locked [] dc = dc"
| "retry_each envs pc lg rds locked (p # ps) dc =
     retry_each envs pc lg rds locked ps
       (settle_or_mark (envs (length ps)) pc lg rds True (locked (length ps)) p dc)"

end
