(* ===== verification/Reconcile.thy ===== *)
theory Reconcile
  imports Settlement
begin

section \<open>Reconciling reserved rows (\<open>usage/reconcile.go\<close>, \<open>poll_failures.go\<close>, \<open>settlements_api.go\<close>)\<close>

text \<open>
  A reserved row was charged at a plugin's estimate. The sweep claims due entries, asks the plugin and
  closes the row: at the real cost (\<open>settleReconciled\<close>), refunded (\<open>refundFailed\<close>), or at the estimate
  (\<open>keepEstimate\<close>). An administrator can reopen or refund a row closed at the estimate. Entries of
  managed tasks (\<open>task_public_id\<close> set) and monitor receipts belong to other components: their guards
  are here (\<open>lockLegacyOutcome\<close>), their own transactions are not.

  The plugin's answer is an argument (\<open>answer\<close>), as are the metrics \<open>reconciledFacts\<close> keeps and the
  printed form of an instant.
\<close>

subsection \<open>Entries and claims\<close>

record entry =
  e_id :: int
  e_plugin :: string
  e_ref :: string
  e_usage :: int
  e_account :: "int option"
  e_attempts :: int
  e_poll_failures :: int
  e_poll_observed :: bool
  e_poll_failed :: bool
  e_created :: int
  e_deadline :: int

definition reconcileLease :: int where "reconcileLease = 180 * second"

definition entry_of :: "settle_row \<Rightarrow> entry" where
  "entry_of s = \<lparr>e_id = s_id s, e_plugin = s_plugin s, e_ref = s_ref s, e_usage = s_usage s,
     e_account = s_account s, e_attempts = s_attempts s, e_poll_failures = s_poll_failures s,
     e_poll_observed = False, e_poll_failed = False, e_created = s_created s, e_deadline = s_deadline s\<rparr>"

definition due_rows :: "(int \<Rightarrow> bool) \<Rightarrow> int \<Rightarrow> nat \<Rightarrow> db \<Rightarrow> settle_row list" where
  "due_rows locked now limit d =
     take limit (sort_key s_next (filter (\<lambda>s. s_state s = SettleStatePending \<and> s_next s \<le> now \<and>
       s_task s = None \<and> \<not> locked (s_id s)) (rev (settlements d))))"

definition update_entries :: "(settle_row \<Rightarrow> bool) \<Rightarrow> (settle_row \<Rightarrow> settle_row) \<Rightarrow> db \<Rightarrow> db" where
  "update_entries P f d = d\<lparr>settlements := map (\<lambda>s. if P s then f s else s) (settlements d)\<rparr>"

definition claimDue :: "env \<Rightarrow> (int \<Rightarrow> bool) \<Rightarrow> int \<Rightarrow> nat \<Rightarrow> db \<Rightarrow> err + entry list \<times> db" where
  "claimDue env locked now limit d =
     and_then (stmt env ''claim due'') (\<lambda>_.
       let due = due_rows locked now limit d in
       Inr (map entry_of due,
         update_entries (\<lambda>s. s_id s \<in> s_id ` set due) (\<lambda>s. s\<lparr>s_next := now + reconcileLease\<rparr>) d))"

text \<open>\<open>interleaveByPlugin\<close>: one queue per plugin, in order of first occurrence, one entry of each per round.\<close>

primrec plugin_order :: "entry list \<Rightarrow> string list \<Rightarrow> string list" where
  "plugin_order [] order = order"
| "plugin_order (e # es) order =
     plugin_order es (if e_plugin e \<in> set order then order else order @ [e_plugin e])"

definition by_plugin :: "entry list \<Rightarrow> string \<Rightarrow> entry list" where
  "by_plugin es k = filter (\<lambda>e. e_plugin e = k) es"

primrec one_round :: "string list \<Rightarrow> (string \<Rightarrow> entry list) \<times> entry list \<Rightarrow> (string \<Rightarrow> entry list) \<times> entry list" where
  "one_round [] st = st"
| "one_round (k # ks) st =
     one_round ks (case fst st k of [] \<Rightarrow> st | x # xs \<Rightarrow> ((fst st)(k := xs), snd st @ [x]))"

primrec rounds :: "nat \<Rightarrow> nat \<Rightarrow> string list \<Rightarrow> (string \<Rightarrow> entry list) \<times> entry list \<Rightarrow> entry list" where
  "rounds 0 n order st = snd st"
| "rounds (Suc f) n order st = (if length (snd st) < n then rounds f n order (one_round order st) else snd st)"

definition interleaveByPlugin :: "entry list \<Rightarrow> entry list" where
  "interleaveByPlugin es =
     (let order = plugin_order es [] in
      if length order < 2 then es
      else rounds (length es) (length es) order (by_plugin es, []))"

subsection \<open>The row an entry belongs to\<close>

record row_state =
  rs_p :: pending
  rs_status :: billing_status
  rs_total :: rat

definition find_row :: "db \<Rightarrow> int \<Rightarrow> usage_row option" where
  "find_row d i = List.find (\<lambda>x. u_id x = i) (usage d)"

definition loadReserved :: "env \<Rightarrow> (usage_row \<Rightarrow> string) \<Rightarrow> db \<Rightarrow> int \<Rightarrow> err + row_state" where
  "loadReserved env expr_of d i =
     and_then (stmt env ''load usage row'') (\<lambda>_.
       case find_row d i of
         None \<Rightarrow> Inl (ErrDB ''no rows'')
       | Some x \<Rightarrow> Inr \<lparr>rs_p = (u_p x)\<lparr>Expression := expr_of x\<rparr>, rs_status = u_status x, rs_total = u_total x\<rparr>)"

text \<open>The guard every outcome transaction starts with: the row is still reserved and the entry unmanaged.\<close>

definition lockLegacyOutcome :: "env \<Rightarrow> db \<Rightarrow> entry \<Rightarrow> err + unit" where
  "lockLegacyOutcome env d e =
     and_then (stmt env ''select task_public_id for update'') (\<lambda>_.
       case List.find (\<lambda>s. s_id s = e_id e) (settlements d) of
         None \<Rightarrow> Inl (ErrDB ''no rows'')
       | Some s \<Rightarrow> if s_task s \<noteq> None then Inl ErrNotPending else Inr ())"

definition outcome_guard :: "env \<Rightarrow> db \<Rightarrow> entry \<Rightarrow> err + unit" where
  "outcome_guard env d e =
     and_then (stmt env ''select billing_status for update'') (\<lambda>_.
       case find_row d (e_usage e) of
         None \<Rightarrow> Inl (ErrDB ''no rows'')
       | Some x \<Rightarrow> if u_status x \<noteq> StatusReserved then Inl ErrNotPending else lockLegacyOutcome env d e)"

definition poll_count :: "entry \<Rightarrow> int \<Rightarrow> int" where
  "poll_count e n = (if e_poll_failed e then n + 1 else if e_poll_observed e then 0 else n)"

subsection \<open>Outcomes\<close>

definition rescheduleTx :: "env \<Rightarrow> db \<Rightarrow> entry \<Rightarrow> int \<Rightarrow> string \<Rightarrow> int \<Rightarrow> err + db" where
  "rescheduleTx env d e next lastErr increment =
     and_then (outcome_guard env d e) (\<lambda>_.
     and_then (stmt env ''update pending_settlements'') (\<lambda>_.
       let hit = (\<lambda>s. s_id s = e_id e \<and> s_state s = SettleStatePending \<and> s_task s = None) in
       if length (filter hit (settlements d)) \<noteq> 1 then Inl ErrNotPending
       else Inr (update_entries hit (\<lambda>s. s\<lparr>s_attempts := s_attempts s + increment, s_next := next,
              s_error := trunc lastErr 2000, s_poll_failures := poll_count e (s_poll_failures s)\<rparr>) d)))"

definition rescheduleAttempt :: "env \<Rightarrow> resolved \<Rightarrow> int \<Rightarrow> db \<Rightarrow> entry \<Rightarrow> int \<Rightarrow> string \<Rightarrow> bool \<Rightarrow> db" where
  "rescheduleAttempt env cfg now d e want lastErr count =
     (let increment = (if count then 1 else 0);
          next = now + clampDelay cfg want (e_attempts e + increment);
          next = (if e_deadline e < next then e_deadline e else next)
      in case rescheduleTx env d e next lastErr increment of Inl _ \<Rightarrow> d | Inr d' \<Rightarrow> d')"

definition closeEntry :: "env \<Rightarrow> db \<Rightarrow> entry \<Rightarrow> settle_state \<Rightarrow> string \<Rightarrow> db" where
  "closeEntry env d e state note =
     (if env_fails env ''close entry'' then d
      else update_entries (\<lambda>s. s_id s = e_id e \<and> s_task s = None)
        (\<lambda>s. s\<lparr>s_state := state, s_error := trunc note 2000\<rparr>) d)"

definition rec_usage_key :: "string \<Rightarrow> string" where
  "rec_usage_key rid = ''usage:'' @ rid @ '':reconcile''"

definition rec_refund_key :: "string \<Rightarrow> string" where
  "rec_refund_key rid = ''refund:'' @ rid @ '':reconcile''"

definition refund_key :: "string \<Rightarrow> string" where
  "refund_key rid = ''refund:'' @ rid"

definition recon_change :: "pending \<Rightarrow> rat \<Rightarrow> bool \<Rightarrow> string \<Rightarrow> ledger_change" where
  "recon_change p a credit note = \<lparr>ch_user = UserID p, ch_amount = a, ch_credit = credit,
     ch_kind = (if credit then ''refund'' else ''usage''), ch_ref_type = ''usage'', ch_ref_id = RequestID p,
     ch_key = (if credit then rec_refund_key (RequestID p) else rec_usage_key (RequestID p)),
     ch_operator = None, ch_plugin = [], ch_note = note\<rparr>"

definition apply_diff :: "tx_ledger \<Rightarrow> db \<Rightarrow> pending \<Rightarrow> rat \<Rightarrow> err + ledger_result option \<times> db" where
  "apply_diff lg d p diff =
     (if 0 < diff then and_then (tl_apply lg d (recon_change p diff False
          ''reconciled: real usage exceeded the reservation'')) (\<lambda>(r, d). Inr (Some r, d))
      else if diff < 0 then and_then (tl_apply lg d (recon_change p (- diff) True
          ''reconciled: real usage was below the reservation'')) (\<lambda>(r, d). Inr (Some r, d))
      else Inr (None, d))"

definition settleReconciledTx :: "env \<Rightarrow> tx_ledger \<Rightarrow> db \<Rightarrow> entry \<Rightarrow> pending \<Rightarrow> rat \<Rightarrow> rat \<times> detail \<times> string \<Rightarrow>
    err + ledger_result option \<times> db" where
  "settleReconciledTx env lg d e p reserved priced =
     (case priced of (amt, detail, hash) \<Rightarrow>
      and_then (outcome_guard env d e) (\<lambda>_.
      and_then (apply_diff lg d p (amt - reserved)) (\<lambda>(res, d).
      and_then (stmt env ''update usage_logs'') (\<lambda>_.
      let d = update_usage (\<lambda>x. u_id x = e_usage e) (\<lambda>x. x\<lparr>
            u_p := (u_p x)\<lparr>Tokens := Tokens p, Metrics := Metrics p, Semantics := Semantics p,
              Params := Params p, Headers := Headers p, Attempts := bd_attempts detail\<rparr>,
            u_total := amt, u_status := StatusBilled, u_ledger_id := map_option r_id res,
            u_tier := trunc (bd_tier detail) 100, u_expr_hash := hash\<rparr>) d
      in and_then (stmt env ''update pending_settlements'') (\<lambda>_.
         and_then (emit env [recordedEvent p amt StatusBilled]
             (update_entries (\<lambda>s. s_id s = e_id e) (\<lambda>s. s\<lparr>s_state := SettleStateSettled,
                s_attempts := s_attempts s + 1, s_error := []\<rparr>) d))
           (\<lambda>d. Inr (res, d)))))))"

definition after_commit :: "bool \<times> bool \<times> bool \<Rightarrow> cache \<Rightarrow> int \<Rightarrow> ledger_result option \<Rightarrow> cache" where
  "after_commit rds c u res =
     (case res of None \<Rightarrow> c | Some r \<Rightarrow> if r_dup r then c else cache_result rds c u (Some r))"

definition settleReconciled :: "env \<Rightarrow> pricer \<Rightarrow> tx_ledger \<Rightarrow> resolved \<Rightarrow> bool \<times> bool \<times> bool \<Rightarrow> int \<Rightarrow> db \<Rightarrow> cache \<Rightarrow>
    entry \<Rightarrow> row_state \<Rightarrow> tokens \<Rightarrow> (string \<times> metric) list option \<Rightarrow> db \<times> cache" where
  "settleReconciled env pc lg cfg rds now d c e row tk facts =
     (let p = (rs_p row)\<lparr>Tokens := tk, Metrics := (case facts of None \<Rightarrow> Metrics (rs_p row) | Some m \<Rightarrow> m)\<rparr>
      in case priceOf pc p of
           Inl err \<Rightarrow> (rescheduleAttempt env cfg now d e 0 (''pricing failed: '' @ env_text env err) True, c)
         | Inr priced \<Rightarrow>
             (case settleReconciledTx env lg d e p (rs_total row) priced of
                Inl _ \<Rightarrow> (d, c)
              | Inr (res, d') \<Rightarrow> (d', after_commit rds c (UserID p) res)))"

definition refundTx :: "env \<Rightarrow> tx_ledger \<Rightarrow> db \<Rightarrow> entry \<Rightarrow> row_state \<Rightarrow> string \<Rightarrow> err + ledger_result option \<times> db" where
  "refundTx env lg d e row reason =
     and_then (outcome_guard env d e) (\<lambda>_.
     and_then (if 0 < rs_total row
         then and_then (tl_apply lg d (recon_change (rs_p row) (rs_total row) True
                ''reconciled: the upstream work failed'')) (\<lambda>(r, d). Inr (Some r, d))
         else Inr (None, d)) (\<lambda>(res, d).
     and_then (stmt env ''update usage_logs'') (\<lambda>_.
     let d = update_usage (\<lambda>x. u_id x = e_usage e) (\<lambda>x. x\<lparr>u_total := 0, u_status := StatusFree,
           u_p := (u_p x)\<lparr>Success := False, ErrorType := trunc reason 50\<rparr>, u_message := trunc reason 1000\<rparr>) d
     in and_then (stmt env ''update pending_settlements'') (\<lambda>_.
        and_then (emit env [recordedEvent (rs_p row) 0 StatusFree]
            (update_entries (\<lambda>s. s_id s = e_id e) (\<lambda>s. s\<lparr>s_state := SettleStateFailed,
               s_attempts := s_attempts s + 1, s_error := trunc reason 2000,
               s_poll_failures := poll_count e (s_poll_failures s)\<rparr>) d))
          (\<lambda>d. Inr (res, d))))))"

definition refundFailed :: "env \<Rightarrow> tx_ledger \<Rightarrow> bool \<times> bool \<times> bool \<Rightarrow> db \<Rightarrow> cache \<Rightarrow> entry \<Rightarrow> row_state \<Rightarrow> string \<Rightarrow>
    db \<times> cache" where
  "refundFailed env lg rds d c e row reason =
     (case refundTx env lg d e row reason of
        Inl _ \<Rightarrow> (d, c)
      | Inr (res, d') \<Rightarrow> (d', after_commit rds c (UserID (rs_p row)) res))"

definition keepEstimateTx :: "env \<Rightarrow> db \<Rightarrow> entry \<Rightarrow> row_state \<Rightarrow> settle_state \<Rightarrow> (string \<times> string) list \<Rightarrow>
    string \<Rightarrow> bool \<Rightarrow> err + db" where
  "keepEstimateTx env d e row state marker note countAttempt =
     and_then (outcome_guard env d e) (\<lambda>_.
     and_then (stmt env ''update usage_logs'') (\<lambda>_.
     let d = update_usage (\<lambda>x. u_id x = e_usage e) (\<lambda>x. x\<lparr>u_status := StatusBilled,
           u_anomalies := merge_json (u_anomalies x) marker\<rparr>) d
     in and_then (stmt env ''update pending_settlements'') (\<lambda>_.
        emit env [recordedEvent (rs_p row) (rs_total row) StatusBilled]
          (update_entries (\<lambda>s. s_id s = e_id e) (\<lambda>s. s\<lparr>s_state := state, s_error := trunc note 2000,
             s_attempts := s_attempts s + (if countAttempt then 1 else 0)\<rparr>) d))))"

definition keepEstimate :: "env \<Rightarrow> db \<Rightarrow> entry \<Rightarrow> row_state \<Rightarrow> settle_state \<Rightarrow> (string \<times> string) list \<Rightarrow>
    string \<Rightarrow> bool \<Rightarrow> bool \<times> db" where
  "keepEstimate env d e row state marker note countAttempt =
     (case keepEstimateTx env d e row state marker note countAttempt of
        Inl _ \<Rightarrow> (False, d) | Inr d' \<Rightarrow> (True, d'))"

definition abandon :: "env \<Rightarrow> db \<Rightarrow> entry \<Rightarrow> row_state \<Rightarrow> string \<Rightarrow> db" where
  "abandon env d e row reason =
     snd (keepEstimate env d e row SettleStateAbandoned
       [(''reconcile'', ''abandoned''), (''reconcile_attempts'', itoa (e_attempts e)),
        (''reconcile_error'', trunc reason 500)] reason False)"

definition settleEstimate :: "env \<Rightarrow> db \<Rightarrow> entry \<Rightarrow> row_state \<Rightarrow> string \<Rightarrow> db" where
  "settleEstimate env d e row reason =
     snd (keepEstimate env d e row SettleStateEstimated
       ([(''reconcile'', ''estimated''), (''reconcile_attempts'', itoa (e_attempts e + 1))] @
        (if reason = [] then [] else [(''reconcile_error'', trunc reason 500)])) reason True)"


subsection \<open>Poll failures (\<open>poll_failures.go\<close>)\<close>

datatype poll_state = PollPending | PollSettled | PollFailedWork | PollSettledEstimate | PollNotFound |
  PollQueryFailed | PollUnknown

text \<open>
  The plugin's result: its state, the raw token counts already through \<open>usagerules.Tokens\<close>, the metrics
  \<open>reconciledFacts\<close> kept of its facts, a reason and the wished delay. \<open>answer\<close> is the outcome of
  \<open>askPlugin\<close>: a monitor that has reported by itself, an error (deferred by account pressure or a
  cancelled worker, or a query failure), or a result, which may be nil.
\<close>

record poll_result =
  pl_state :: poll_state
  pl_tokens :: tokens
  pl_facts :: "(string \<times> metric) list option"
  pl_reason :: string
  pl_next :: int

datatype answer = Reported | AskDeferred string | AskFailed string | Answered "poll_result option"

definition failObservation :: "env \<Rightarrow> tx_ledger \<Rightarrow> bool \<times> bool \<times> bool \<Rightarrow> db \<Rightarrow> cache \<Rightarrow> entry \<Rightarrow> row_state \<Rightarrow>
    string \<Rightarrow> string \<Rightarrow> db \<times> cache" where
  "failObservation env lg rds d c e row code reason =
     refundFailed env lg rds d c e row (code @ '': '' @ (if reason = [] then code else reason))"

definition recordPollFailure :: "env \<Rightarrow> tx_ledger \<Rightarrow> resolved \<Rightarrow> bool \<times> bool \<times> bool \<Rightarrow> int \<Rightarrow> db \<Rightarrow> cache \<Rightarrow> entry \<Rightarrow>
    row_state \<Rightarrow> string \<Rightarrow> int \<Rightarrow> db \<times> cache" where
  "recordPollFailure env lg cfg rds now d c e row reason delay =
     (let e = e\<lparr>e_poll_failed := True, e_poll_observed := False\<rparr>;
          reason = (if reason = [] then ''task query failed'' else reason)
      in if 0 < maxPollFailures cfg \<and> maxPollFailures cfg \<le> e_poll_failures e + 1
         then failObservation env lg rds d c e row ''task_poll_failed''
           (itoa (e_poll_failures e + 1) @ '' consecutive query failures: '' @ reason)
         else (rescheduleAttempt env cfg now d e delay reason True, c))"

definition handlePollError :: "env \<Rightarrow> tx_ledger \<Rightarrow> resolved \<Rightarrow> bool \<times> bool \<times> bool \<Rightarrow> int \<Rightarrow> db \<Rightarrow> cache \<Rightarrow> entry \<Rightarrow>
    row_state \<Rightarrow> bool \<Rightarrow> string \<Rightarrow> db \<times> cache" where
  "handlePollError env lg cfg rds now d c e row deferred text =
     (if deferred then (rescheduleAttempt env cfg now d e 0 text False, c)
      else recordPollFailure env lg cfg rds now d c e row text 0)"

text \<open>\<open>handlePollResult\<close>: \<open>Some\<close> when it handled the answer, \<open>None\<close> when the caller goes on.\<close>

definition handlePollResult :: "env \<Rightarrow> tx_ledger \<Rightarrow> resolved \<Rightarrow> bool \<times> bool \<times> bool \<Rightarrow> int \<Rightarrow> db \<Rightarrow> cache \<Rightarrow> entry \<Rightarrow>
    row_state \<Rightarrow> bool \<Rightarrow> poll_result option \<Rightarrow> (db \<times> cache) option" where
  "handlePollResult env lg cfg rds now d c e row cancelled res =
     (case res of
        None \<Rightarrow> Some (handlePollError env lg cfg rds now d c e row cancelled ''plugin returned no poll result'')
      | Some r \<Rightarrow>
          (case pl_state r of
             PollNotFound \<Rightarrow> Some (failObservation env lg rds d c e row ''task_not_found'' (pl_reason r))
           | PollQueryFailed \<Rightarrow>
               Some (recordPollFailure env lg cfg rds now d c e row (pl_reason r) (pl_next r))
           | PollUnknown \<Rightarrow>
               Some (handlePollError env lg cfg rds now d c e row cancelled ''unknown poll result state'')
           | _ \<Rightarrow> None))"

subsection \<open>One entry\<close>

definition apply_result :: "env \<Rightarrow> pricer \<Rightarrow> tx_ledger \<Rightarrow> resolved \<Rightarrow> bool \<times> bool \<times> bool \<Rightarrow> int \<Rightarrow> db \<Rightarrow> cache \<Rightarrow>
    entry \<Rightarrow> row_state \<Rightarrow> poll_result \<Rightarrow> db \<times> cache" where
  "apply_result env pc lg cfg rds now d c e row r =
     (let e = e\<lparr>e_poll_observed := True\<rparr> in
      case pl_state r of
        PollSettled \<Rightarrow> settleReconciled env pc lg cfg rds now d c e row (pl_tokens r) (pl_facts r)
      | PollSettledEstimate \<Rightarrow> (settleEstimate env d e row (pl_reason r), c)
      | PollFailedWork \<Rightarrow> refundFailed env lg rds d c e row (pl_reason r)
      | _ \<Rightarrow> (rescheduleAttempt env cfg now d e (pl_next r) [] True, c))"

definition reconcileOneAdmitted :: "env \<Rightarrow> (usage_row \<Rightarrow> string) \<Rightarrow> (int \<Rightarrow> string) \<Rightarrow> pricer \<Rightarrow> tx_ledger \<Rightarrow>
    resolved \<Rightarrow> bool \<times> bool \<times> bool \<Rightarrow> int \<Rightarrow> bool \<Rightarrow> (entry \<Rightarrow> row_state \<Rightarrow> answer) \<Rightarrow> entry \<Rightarrow> db \<Rightarrow> cache \<Rightarrow>
    bool \<times> db \<times> cache" where
  "reconcileOneAdmitted env expr_of fmt_time pc lg cfg rds now cancelled ask e d c =
     (case loadReserved env expr_of d (e_usage e) of
        Inl _ \<Rightarrow> (False, d, c)
      | Inr row \<Rightarrow>
          if rs_status row \<noteq> StatusReserved
          then (False, closeEntry env d e SettleStateSettled ''usage row left the reserved state'', c)
          else if e_deadline e \<le> now
          then (True, abandon env d e row (''deadline '' @ fmt_time (e_deadline e) @ '' passed''), c)
          else if maxAttempts cfg \<le> e_attempts e
          then (True, abandon env d e row (''gave up after '' @ itoa (e_attempts e) @ '' checks''), c)
          else (False,
            case ask e row of
              Reported \<Rightarrow> (d, c)
            | AskDeferred text \<Rightarrow> handlePollError env lg cfg rds now d c e row True text
            | AskFailed text \<Rightarrow> handlePollError env lg cfg rds now d c e row cancelled text
            | Answered res \<Rightarrow>
                (case handlePollResult env lg cfg rds now d c e row cancelled res of
                   Some dc \<Rightarrow> dc
                 | None \<Rightarrow>
                     (case res of None \<Rightarrow> (d, c)
                      | Some r \<Rightarrow> apply_result env pc lg cfg rds now d c e row r))))"

subsection \<open>The administrator's way out (\<open>settlements_api.go\<close>)\<close>

definition billedAtEstimate :: "settle_state \<Rightarrow> bool" where
  "billedAtEstimate s \<longleftrightarrow> s = SettleStateAbandoned \<or> s = SettleStateEstimated"

definition lockSettlement :: "env \<Rightarrow> db \<Rightarrow> int \<Rightarrow> err + usage_row \<times> settle_row" where
  "lockSettlement env d i =
     and_then (stmt env ''lock async_tasks'') (\<lambda>_.
     and_then (stmt env ''lock usage_logs'') (\<lambda>_.
       case find_row d i of
         None \<Rightarrow> Inl (ErrNotFound ''usage record not found'')
       | Some x \<Rightarrow>
           and_then (stmt env ''lock pending_settlements'') (\<lambda>_.
             case List.find (\<lambda>s. s_usage s = i) (settlements d) of
               None \<Rightarrow> Inl (ErrNotFound ''this usage record was not pre-charged'')
             | Some s \<Rightarrow> Inr (x, s))))"

definition at_estimate :: "usage_row \<Rightarrow> settle_row \<Rightarrow> string \<Rightarrow> err + unit" where
  "at_estimate x s text =
     and_then (ensure (billedAtEstimate (s_state s)) (ErrConflict text)) (\<lambda>_.
       ensure (u_status x = StatusBilled)
         (ErrConflict ''this usage row is no longer billed at its reservation''))"

definition retryReconcileTx :: "env \<Rightarrow> resolved \<Rightarrow> int \<Rightarrow> db \<Rightarrow> int \<Rightarrow> err + db" where
  "retryReconcileTx env cfg now d i =
     and_then (lockSettlement env d i) (\<lambda>(x, s).
     and_then (at_estimate x s
        ''only a settlement billed at its estimate (abandoned or estimated) can be reconciled again'') (\<lambda>_.
     and_then (stmt env ''update usage_logs'') (\<lambda>_.
     and_then (stmt env ''update pending_settlements'') (\<lambda>_.
     and_then (stmt env ''load settlement'') (\<lambda>_.
     and_then (stmt env ''update async_tasks'') (\<lambda>_.
       Inr (update_entries (\<lambda>t. s_id t = s_id s) (\<lambda>t. t\<lparr>s_state := SettleStatePending, s_attempts := 0,
              s_poll_failures := 0, s_next := now, s_deadline := now + maxAge cfg, s_error := []\<rparr>)
            (update_usage (\<lambda>y. u_id y = i) (\<lambda>y. y\<lparr>u_status := StatusReserved,
              u_anomalies := merge_json (u_anomalies y) [(''reconcile'', ''retrying'')]\<rparr>) d))))))))"

definition manual_refund :: "usage_row \<Rightarrow> int \<Rightarrow> string \<Rightarrow> ledger_change" where
  "manual_refund x operator note = \<lparr>ch_user = UserID (u_p x), ch_amount = u_total x, ch_credit = True,
     ch_kind = ''refund'', ch_ref_type = ''usage'', ch_ref_id = RequestID (u_p x),
     ch_key = refund_key (RequestID (u_p x)), ch_operator = (if 0 < operator then Some operator else None),
     ch_plugin = [], ch_note = trunc note 500\<rparr>"

definition refundAbandonedTx :: "env \<Rightarrow> tx_ledger \<Rightarrow> int \<Rightarrow> string \<Rightarrow> db \<Rightarrow> int \<Rightarrow> err + ledger_result \<times> db" where
  "refundAbandonedTx env lg operator note0 d i =
     (let note = (if note0 = [] then ''reservation refunded by an administrator'' else note0) in
     and_then (lockSettlement env d i) (\<lambda>(x, s).
     and_then (at_estimate x s
        ''only a settlement billed at its estimate (abandoned or estimated) can be refunded here'') (\<lambda>_.
     if u_total x \<le> 0 then Inl (ErrConflict ''nothing was charged for this request'')
     else and_then (tl_apply lg d (manual_refund x operator note)) (\<lambda>(res, d).
     and_then (stmt env ''update usage_logs'') (\<lambda>_.
     and_then (stmt env ''update async_tasks'') (\<lambda>_.
     and_then (stmt env ''update pending_settlements'') (\<lambda>_.
       Inr (res, update_entries (\<lambda>t. s_id t = s_id s)
              (\<lambda>t. t\<lparr>s_error := trunc (''refunded by an administrator: '' @ note) 2000\<rparr>)
            (update_usage (\<lambda>y. u_id y = i) (\<lambda>y. y\<lparr>u_total := 0, u_status := StatusFree,
              u_anomalies := merge_json (u_anomalies y) [(''reconcile'', ''refunded'')]\<rparr>) d)))))))))"

end
