(* ===== verification/UsageBooks.thy ===== *)
theory UsageBooks
  imports Reconcile
begin

section \<open>Every request is charged exactly what its row says\<close>

text \<open>
  The settler, the retry loop, the reconcile sweep and the administrator's actions all move money for
  a usage row, each under its own idempotency key. \<open>money_ok\<close> states how the bookings under a
  request's four keys and the row's status and cost belong together; the lemmas show that every
  transaction of \<open>settler.go\<close>, \<open>reconcile.go\<close> and \<open>settlements_api.go\<close> keeps it, also when it acts on
  a snapshot of the row read before other transactions ran. The client lemmas are proved in the locale
  \<open>usage_ledger\<close> from the laws of the interface \<open>TxLedger\<close>.
\<close>

subsection \<open>Bookings of a request\<close>

definition key_delta :: "db \<Rightarrow> string \<Rightarrow> rat option" where
  "key_delta d k = map_option r_delta (findLedger d k)"

definition plain :: "string \<Rightarrow> bool" where
  "plain rid \<longleftrightarrow> CHR '':'' \<notin> set rid"

definition books :: "(string \<Rightarrow> rat option) \<Rightarrow> string \<Rightarrow> rat option \<times> rat option \<times> rat option \<times> rat option" where
  "books kd rid = (kd (usage_key rid), kd (rec_usage_key rid), kd (rec_refund_key rid), kd (refund_key rid))"

definition sum_of :: "rat option \<times> rat option \<times> rat option \<times> rat option \<Rightarrow> rat" where
  "sum_of b = (case b of (u, ru, rr, mr) \<Rightarrow>
     (case u of None \<Rightarrow> 0 | Some x \<Rightarrow> x) + (case ru of None \<Rightarrow> 0 | Some x \<Rightarrow> x) +
     (case rr of None \<Rightarrow> 0 | Some x \<Rightarrow> x) + (case mr of None \<Rightarrow> 0 | Some x \<Rightarrow> x))"

definition charged :: "db \<Rightarrow> string \<Rightarrow> rat" where
  "charged d rid = - sum_of (books (key_delta d) rid)"

definition uncorrected :: "rat option \<times> rat option \<times> rat option \<times> rat option \<Rightarrow> bool" where
  "uncorrected b \<longleftrightarrow> (case b of (_, ru, rr, mr) \<Rightarrow> ru = None \<and> rr = None \<and> mr = None)"

definition usage_keys :: "string set" where
  "usage_keys = range usage_key \<union> range rec_usage_key \<union> range rec_refund_key \<union> range refund_key"

lemma plain_append: "plain (a @ b) \<longleftrightarrow> plain a \<and> plain b"
  by (auto simp: plain_def)

lemma not_plain_reconcile [simp]: "\<not> plain (r @ '':reconcile'')" "\<not> plain '':reconcile''"
  by (simp_all add: plain_def)

lemma usage_keys_eq [simp]:
  "usage_key a = usage_key b \<longleftrightarrow> a = b" "rec_usage_key a = rec_usage_key b \<longleftrightarrow> a = b"
  "rec_refund_key a = rec_refund_key b \<longleftrightarrow> a = b" "refund_key a = refund_key b \<longleftrightarrow> a = b"
  "usage_key a \<noteq> refund_key b" "usage_key a \<noteq> rec_refund_key b" "rec_usage_key a \<noteq> refund_key b"
  "rec_usage_key a \<noteq> rec_refund_key b" "refund_key b \<noteq> usage_key a" "rec_refund_key b \<noteq> usage_key a"
  "refund_key b \<noteq> rec_usage_key a" "rec_refund_key b \<noteq> rec_usage_key a"
  by (auto simp: usage_key_def rec_usage_key_def rec_refund_key_def refund_key_def)

lemma usage_keys_plain [simp]:
  assumes "plain a"
  shows "usage_key a \<noteq> rec_usage_key b" "rec_usage_key b \<noteq> usage_key a"
    "refund_key a \<noteq> rec_refund_key b" "rec_refund_key b \<noteq> refund_key a"
  using assms by (auto simp: usage_key_def rec_usage_key_def rec_refund_key_def refund_key_def plain_append)

lemma books_upd:
  assumes "plain rid" "plain r"
  shows "books (kd(usage_key rid \<mapsto> v)) r = (if r = rid then (Some v, snd (books kd r)) else books kd r)"
    "books (kd(rec_usage_key rid \<mapsto> v)) r =
      (if r = rid then (kd (usage_key r), Some v, snd (snd (books kd r))) else books kd r)"
    "books (kd(rec_refund_key rid \<mapsto> v)) r =
      (if r = rid then (kd (usage_key r), kd (rec_usage_key r), Some v, kd (refund_key r)) else books kd r)"
    "books (kd(refund_key rid \<mapsto> v)) r =
      (if r = rid then (kd (usage_key r), kd (rec_usage_key r), kd (rec_refund_key r), Some v) else books kd r)"
  using assms by (auto simp: books_def)

lemma books_cong: "(\<And>k. k \<in> usage_keys \<Longrightarrow> kd k = kd' k) \<Longrightarrow> books kd r = books kd' r"
  by (simp add: books_def usage_keys_def)

subsection \<open>The invariant\<close>

definition live :: "db \<Rightarrow> usage_row \<Rightarrow> bool" where
  "live d x \<longleftrightarrow> u_status x = StatusReserved \<or>
     (u_status x = StatusBilled \<and> (\<exists>s \<in> set (settlements d). s_usage s = u_id x \<and> billedAtEstimate (s_state s)))"

definition row_books :: "bool \<Rightarrow> usage_row \<Rightarrow> rat option \<times> rat option \<times> rat option \<times> rat option \<Rightarrow> bool" where
  "row_books lv x b \<longleftrightarrow>
     (u_status x \<in> {StatusPending, StatusFailed} \<longrightarrow> b = (None, None, None, None)) \<and>
     - sum_of b = (if u_status x \<in> {StatusBilled, StatusReserved} then u_total x else 0) \<and>
     0 \<le> u_total x \<and>
     (lv \<longrightarrow> uncorrected b \<and> (u_total x = 0 \<longrightarrow> fst b = None))"

definition rid_of :: "usage_row \<Rightarrow> string" where
  "rid_of x = RequestID (u_p x)"

definition entries_ok :: "db \<Rightarrow> bool" where
  "entries_ok d \<longleftrightarrow> distinct (map s_id (settlements d)) \<and> distinct (map s_usage (settlements d)) \<and>
     (\<forall>s \<in> set (settlements d). s_id s < next_settle d \<and> s_usage s \<in> u_id ` set (usage d))"

definition rows_ok :: "db \<Rightarrow> bool" where
  "rows_ok d \<longleftrightarrow> distinct (map rid_of (usage d)) \<and> distinct (map u_id (usage d)) \<and>
     (\<forall>x \<in> set (usage d). u_id x < next_usage d \<and> plain (rid_of x))"

definition money_ok :: "db \<Rightarrow> bool" where
  "money_ok d \<longleftrightarrow> rows_ok d \<and> entries_ok d \<and>
     (\<forall>x \<in> set (usage d). row_books (live d x) x (books (key_delta d) (rid_of x))) \<and>
     (\<forall>rid. plain rid \<longrightarrow> rid \<notin> rid_of ` set (usage d) \<longrightarrow> books (key_delta d) rid = (None, None, None, None))"

text \<open>The one way a transaction may touch the invariant: one row, its entry and its own keys.\<close>

lemma money_ok_step:
  assumes ok: "money_ok d" and x: "x \<in> set (usage d)"
    and us: "usage d' = map (\<lambda>y. if u_id y = u_id x then f y else y) (usage d)"
    and f: "u_id (f x) = u_id x" "rid_of (f x) = rid_of x"
    and nu: "next_usage d' = next_usage d"
    and en: "entries_ok d'"
    and se: "\<forall>s \<in> set (settlements d'). s_usage s \<noteq> u_id x \<longrightarrow> s \<in> set (settlements d)"
    and bk: "\<And>r. plain r \<Longrightarrow> r \<noteq> rid_of x \<Longrightarrow> books (key_delta d') r = books (key_delta d) r"
    and row: "row_books (live d' (f x)) (f x) (books (key_delta d') (rid_of x))"
  shows "money_ok d'"
proof -
  from ok have rows: "rows_ok d" by (simp add: money_ok_def)
  have uniq: "y = x" if "y \<in> set (usage d)" "u_id y = u_id x" for y
    using rows that x by (auto simp: rows_ok_def distinct_map inj_on_def)
  have map_id: "map u_id (usage d') = map u_id (usage d)" and map_rid: "map rid_of (usage d') = map rid_of (usage d)"
    using uniq f by (auto simp: us)
  have inv: "y = f x \<or> (y \<in> set (usage d) \<and> y \<noteq> x \<and> u_id y \<noteq> u_id x)" if "y \<in> set (usage d')" for y
  proof -
    from that obtain z where z: "z \<in> set (usage d)" "y = (if u_id z = u_id x then f z else z)"
      by (auto simp: us)
    show ?thesis
    proof (cases "u_id z = u_id x")
      case True
      with uniq [OF z(1)] z(2) show ?thesis by simp
    next
      case False
      with z show ?thesis by auto
    qed
  qed
  have "u_id y < next_usage d \<and> plain (rid_of y)" if "y \<in> set (usage d')" for y
    using inv [OF that] rows f x by (auto simp: rows_ok_def)
  with rows have "rows_ok d'"
    unfolding rows_ok_def map_id map_rid nu by auto
  moreover have "row_books (live d' y) y (books (key_delta d') (rid_of y))" if y: "y \<in> set (usage d')" for y
  proof (cases "y = f x")
    case True
    with row f show ?thesis by simp
  next
    case False
    with inv [OF y] have yd: "y \<in> set (usage d)" "y \<noteq> x" "u_id y \<noteq> u_id x" by auto
    then have "rid_of y \<noteq> rid_of x" using rows x by (auto simp: rows_ok_def distinct_map inj_on_def)
    moreover have "plain (rid_of y)" using rows yd by (auto simp: rows_ok_def)
    moreover have "live d' y \<Longrightarrow> live d y" using se yd by (auto simp: live_def)
    moreover have "row_books (live d y) y (books (key_delta d) (rid_of y))"
      using ok yd by (simp add: money_ok_def)
    ultimately show ?thesis using bk by (auto simp: row_books_def)
  qed
  moreover have "books (key_delta d') rid = (None, None, None, None)"
    if "plain rid" "rid \<notin> rid_of ` set (usage d')" for rid
  proof -
    have "rid_of ` set (usage d') = rid_of ` set (usage d)"
      using arg_cong [OF map_rid, of set] by simp
    moreover from this x have "rid \<noteq> rid_of x" using that by auto
    ultimately show ?thesis using ok bk that by (simp add: money_ok_def)
  qed
  ultimately show ?thesis using en by (simp add: money_ok_def)
qed

text \<open>
  What every transaction leaves true of a snapshot taken before it: rows and entries keep their ids, a
  row once billed or reserved never becomes unbilled, and as long as its cost is still open to
  correction that cost has not changed.
\<close>

definition evolves :: "db \<Rightarrow> db \<Rightarrow> bool" where
  "evolves d d' \<longleftrightarrow> next_usage d \<le> next_usage d' \<and> next_settle d \<le> next_settle d' \<and>
     (\<forall>s' \<in> set (settlements d'). next_settle d \<le> s_id s' \<or>
        (\<exists>s \<in> set (settlements d). s_id s = s_id s' \<and> s_usage s = s_usage s')) \<and>
     (\<forall>x' \<in> set (usage d'). next_usage d \<le> u_id x' \<or>
        (\<exists>x \<in> set (usage d). u_id x = u_id x' \<and> rid_of x = rid_of x' \<and>
           (u_status x \<notin> {StatusPending, StatusFailed} \<longrightarrow>
              u_status x' \<notin> {StatusPending, StatusFailed} \<and>
              (live d' x' \<longrightarrow> live d x \<and> u_total x' = u_total x))))"

definition keeps :: "db \<Rightarrow> db \<Rightarrow> bool" where
  "keeps d d' \<longleftrightarrow> money_ok d' \<and> evolves d d'"

lemma keepsD: "keeps d d' \<Longrightarrow> money_ok d'" "keeps d d' \<Longrightarrow> evolves d d'"
  by (simp_all add: keeps_def)

lemma evolves_refl: "evolves d d"
  by (auto simp: evolves_def)

lemma evolves_trans:
  assumes ab: "evolves a b" and bc: "evolves b c"
  shows "evolves a c"
proof -
  have "next_settle a \<le> s_id s'' \<or> (\<exists>s \<in> set (settlements a). s_id s = s_id s'' \<and> s_usage s = s_usage s'')"
    if "s'' \<in> set (settlements c)" for s''
    using that ab bc unfolding evolves_def by (metis order_trans)
  moreover have "next_usage a \<le> u_id z \<or>
        (\<exists>x \<in> set (usage a). u_id x = u_id z \<and> rid_of x = rid_of z \<and>
           (u_status x \<notin> {StatusPending, StatusFailed} \<longrightarrow> u_status z \<notin> {StatusPending, StatusFailed} \<and>
              (live c z \<longrightarrow> live a x \<and> u_total z = u_total x)))" if z: "z \<in> set (usage c)" for z
  proof (cases "next_usage b \<le> u_id z")
    case True
    with ab show ?thesis unfolding evolves_def by (meson order_trans)
  next
    case False
    with bc z obtain y where y: "y \<in> set (usage b)" "u_id y = u_id z" "rid_of y = rid_of z"
      "u_status y \<notin> {StatusPending, StatusFailed} \<longrightarrow> u_status z \<notin> {StatusPending, StatusFailed} \<and>
              (live c z \<longrightarrow> live b y \<and> u_total z = u_total y)" unfolding evolves_def by blast
    from ab y(1) consider "next_usage a \<le> u_id y" | x where "x \<in> set (usage a)" "u_id x = u_id y" "rid_of x = rid_of y"
      "u_status x \<notin> {StatusPending, StatusFailed} \<longrightarrow> u_status y \<notin> {StatusPending, StatusFailed} \<and>
              (live b y \<longrightarrow> live a x \<and> u_total y = u_total x)" unfolding evolves_def by blast
    then show ?thesis
    proof cases
      case 1
      with y(2) show ?thesis by simp
    next
      case 2
      with y(2-4) show ?thesis by (intro disjI2 bexI [of _ x]) simp_all
    qed
  qed
  ultimately show ?thesis using ab bc unfolding evolves_def by (meson order_trans)
qed

lemma keeps_trans: "keeps a b \<Longrightarrow> keeps b c \<Longrightarrow> keeps a c"
  using evolves_trans by (auto simp: keeps_def)

lemma keeps_step:
  assumes ok: "money_ok d" and x: "x \<in> set (usage d)"
    and us: "usage d' = map (\<lambda>y. if u_id y = u_id x then f y else y) (usage d)"
    and f: "u_id (f x) = u_id x" "rid_of (f x) = rid_of x"
    and nu: "next_usage d' = next_usage d"
    and en: "entries_ok d'"
    and se: "\<forall>s \<in> set (settlements d'). s_usage s \<noteq> u_id x \<longrightarrow> s \<in> set (settlements d)"
    and bk: "\<And>r. plain r \<Longrightarrow> r \<noteq> rid_of x \<Longrightarrow> books (key_delta d') r = books (key_delta d) r"
    and row: "row_books (live d' (f x)) (f x) (books (key_delta d') (rid_of x))"
    and ids: "next_settle d \<le> next_settle d'" "\<forall>s' \<in> set (settlements d'). next_settle d \<le> s_id s' \<or>
        (\<exists>s \<in> set (settlements d). s_id s = s_id s' \<and> s_usage s = s_usage s')"
    and st: "u_status x \<notin> {StatusPending, StatusFailed} \<Longrightarrow> u_status (f x) \<notin> {StatusPending, StatusFailed} \<and>
        (live d' (f x) \<longrightarrow> live d x \<and> u_total (f x) = u_total x)"
  shows "keeps d d'"
proof -
  have "\<exists>x \<in> set (usage d). u_id x = u_id z \<and> rid_of x = rid_of z \<and>
        (u_status x \<notin> {StatusPending, StatusFailed} \<longrightarrow> u_status z \<notin> {StatusPending, StatusFailed} \<and>
           (live d' z \<longrightarrow> live d x \<and> u_total z = u_total x))" if "z \<in> set (usage d')" for z
  proof -
    from that obtain y where y: "y \<in> set (usage d)" "z = (if u_id y = u_id x then f y else y)" by (auto simp: us)
    show ?thesis
    proof (cases "u_id y = u_id x")
      case True
      with y(1) x ok have "y = x" by (auto simp: money_ok_def rows_ok_def distinct_map inj_on_def)
      with y(2) f st x show ?thesis by (intro bexI [of _ x]) auto
    next
      case False
      have "live d' y \<Longrightarrow> live d y" using se False by (auto simp: live_def)
      with y False show ?thesis by (intro bexI [of _ y]) auto
    qed
  qed
  with ids nu have "evolves d d'" unfolding evolves_def by (metis order_refl)
  with money_ok_step [OF ok x us f nu en se bk row] show ?thesis by (simp add: keeps_def)
qed

text \<open>Transactions that leave rows, entries and the four key families alone.\<close>

lemma keeps_frame:
  assumes "money_ok d" and "usage d' = usage d" and "next_usage d' = next_usage d"
    and "settlements d' = settlements d" and "next_settle d' = next_settle d"
    and "\<And>k. k \<in> usage_keys \<Longrightarrow> key_delta d' k = key_delta d k"
  shows "keeps d d'"
proof -
  have "books (key_delta d') r = books (key_delta d) r" for r
    using assms(6) by (intro books_cong) auto
  with assms(1-5) have "money_ok d'"
    by (simp add: money_ok_def rows_ok_def entries_ok_def live_def)
  moreover have "evolves d d'" using assms(2-5) by (auto simp: evolves_def live_def)
  ultimately show ?thesis by (simp add: keeps_def)
qed


subsection \<open>Table updates\<close>

lemma update_usage_simps [simp]:
  "usage (update_usage P f d) = map (\<lambda>x. if P x then f x else x) (usage d)"
  "next_usage (update_usage P f d) = next_usage d" "settlements (update_usage P f d) = settlements d"
  "next_settle (update_usage P f d) = next_settle d" "ledger (update_usage P f d) = ledger d"
  by (simp_all add: update_usage_def)

lemma update_entries_simps [simp]:
  "usage (update_entries P f d) = usage d" "next_usage (update_entries P f d) = next_usage d"
  "settlements (update_entries P f d) = map (\<lambda>s. if P s then f s else s) (settlements d)"
  "next_settle (update_entries P f d) = next_settle d" "ledger (update_entries P f d) = ledger d"
  by (simp_all add: update_entries_def)

lemma key_delta_ledger: "ledger d = ledger d' \<Longrightarrow> key_delta d = key_delta d'"
  by (simp add: key_delta_def findLedger_def fun_eq_iff)

lemma key_delta_updates [simp]:
  "key_delta (update_usage P f d) = key_delta d" "key_delta (update_entries Q g d) = key_delta d"
  "key_delta (d\<lparr>events := ev\<rparr>) = key_delta d" "key_delta (d\<lparr>settlements := ss\<rparr>) = key_delta d"
  "key_delta (d\<lparr>settlements := ss, next_settle := n\<rparr>) = key_delta d"
  "key_delta (d\<lparr>usage := us, next_usage := n\<rparr>) = key_delta d"
  by (rule key_delta_ledger, simp)+

lemma emit_Inr: "emit env ev d = Inr d' \<Longrightarrow> d' = d \<or> d' = d\<lparr>events := ev @ events d\<rparr>"
  by (auto simp: emit_def err_simps split: if_splits)

lemma emit_frame:
  assumes "emit env ev d = Inr d'"
  shows "usage d' = usage d" "next_usage d' = next_usage d" "settlements d' = settlements d"
    "next_settle d' = next_settle d" "key_delta d' = key_delta d"
proof -
  from emit_Inr [OF assms] have "usage d' = usage d \<and> next_usage d' = next_usage d \<and>
    settlements d' = settlements d \<and> next_settle d' = next_settle d \<and> key_delta d' = key_delta d" by auto
  then show "usage d' = usage d" "next_usage d' = next_usage d" "settlements d' = settlements d"
    "next_settle d' = next_settle d" "key_delta d' = key_delta d" by auto
qed

lemma find_row_SomeD: "find_row d i = Some x \<Longrightarrow> x \<in> set (usage d) \<and> u_id x = i"
  by (auto simp: find_row_def find_Some_iff)

lemma find_usage_SomeD: "find_usage d rid = Some x \<Longrightarrow> x \<in> set (usage d) \<and> rid_of x = rid"
  by (auto simp: find_usage_def find_Some_iff rid_of_def)

lemma rows_ok_same_rid:
  assumes "rows_ok d" "x \<in> set (usage d)"
  shows "map (\<lambda>y. if rid_of y = rid_of x then f y else y) (usage d) =
         map (\<lambda>y. if u_id y = u_id x then f y else y) (usage d)"
proof (rule map_cong [OF refl])
  fix y assume "y \<in> set (usage d)"
  with assms have "rid_of y = rid_of x \<longleftrightarrow> u_id y = u_id x"
    by (auto simp: rows_ok_def distinct_map inj_on_def)
  then show "(if rid_of y = rid_of x then f y else y) = (if u_id y = u_id x then f y else y)" by simp
qed

lemma money_ok_rowD:
  assumes "money_ok d" and "x \<in> set (usage d)"
  shows "rows_ok d" "entries_ok d" "plain (rid_of x)" "u_id x < next_usage d"
    "row_books (live d x) x (books (key_delta d) (rid_of x))"
  using assms by (auto simp: money_ok_def rows_ok_def)

lemma entries_ok_update:
  assumes "entries_ok d" and "\<And>s. s_id (f s) = s_id s \<and> s_usage (f s) = s_usage s"
    and "settlements d' = map (\<lambda>s. if P s then f s else s) (settlements d)"
    and "u_id ` set (usage d') = u_id ` set (usage d)" and "next_settle d' = next_settle d"
  shows "entries_ok d'"
proof -
  have "map s_id (settlements d') = map s_id (settlements d)" "map s_usage (settlements d') = map s_usage (settlements d)"
    using assms(2) by (auto simp: assms(3))
  moreover have "s_id t < next_settle d \<and> s_usage t \<in> u_id ` set (usage d)" if "t \<in> set (settlements d')" for t
    using that assms(1,2) by (auto simp: assms(3) entries_ok_def)
  ultimately show ?thesis using assms(1,4,5) by (auto simp: entries_ok_def)
qed

lemma entries_ok_cong:
  "entries_ok d \<Longrightarrow> settlements d' = settlements d \<Longrightarrow> next_settle d' = next_settle d \<Longrightarrow>
   u_id ` set (usage d') = u_id ` set (usage d) \<Longrightarrow> entries_ok d'"
  by (simp add: entries_ok_def)

text \<open>Changing the one entry of a row, by entry id.\<close>

lemma entries_ok_other:
  assumes "entries_ok d" and "s \<in> set (settlements d)" and "s_id s = i"
  shows "\<forall>t \<in> set (map (\<lambda>t. if s_id t = i then f t else t) (settlements d)).
    s_usage t \<noteq> s_usage s \<longrightarrow> (\<forall>t. s_usage (f t) = s_usage t) \<longrightarrow> t \<in> set (settlements d)"
  using assms by (auto simp: entries_ok_def distinct_map inj_on_def)

lemma u_id_image:
  "(\<And>y. u_id (f y) = u_id y) \<Longrightarrow> u_id ` set (map (\<lambda>y. if P y then f y else y) ys) = u_id ` set ys"
proof -
  assume "\<And>y. u_id (f y) = u_id y"
  then have "map u_id (map (\<lambda>y. if P y then f y else y) ys) = map u_id ys" by simp
  from arg_cong [OF this, of set] show ?thesis by (simp only: set_map)
qed

subsection \<open>The contract of the ledger\<close>

text \<open>
  What the settler relies on: after a successful change its key is booked with its change_delta amount and no
  other key has moved; a release books none of the usage keys; neither touches usage rows or entries.
\<close>

locale usage_ledger =
  fixes lg :: tx_ledger
  assumes apply_keys: "tl_apply lg d ch = Inr (r, d') \<Longrightarrow> key_delta d' = (key_delta d)(ch_key ch \<mapsto> change_delta ch)"
    and apply_frame: "tl_apply lg d ch = Inr (r, d') \<Longrightarrow> usage d' = usage d \<and> next_usage d' = next_usage d \<and>
      settlements d' = settlements d \<and> next_settle d' = next_settle d"
    and release_keys: "tl_release lg d u rid = Inr (res, d') \<Longrightarrow> k \<in> usage_keys \<Longrightarrow> key_delta d' k = key_delta d k"
    and release_frame: "tl_release lg d u rid = Inr (res, d') \<Longrightarrow> usage d' = usage d \<and>
      next_usage d' = next_usage d \<and> settlements d' = settlements d \<and> next_settle d' = next_settle d"
begin

lemma release_keeps: "releasePrechargeTx (Some lg) d u rid = Inr (res, d') \<Longrightarrow> money_ok d \<Longrightarrow> keeps d d'"
  using release_frame [of d u rid res d'] release_keys [of d u rid res d']
  by (auto simp: releasePrechargeTx_def intro!: keeps_frame [of d])

lemma charge_Inr:
  assumes "charge (Some lg) d p amt = Inr (res, lid, d')"
  shows "usage d' = usage d \<and> next_usage d' = next_usage d \<and> settlements d' = settlements d \<and>
      next_settle d' = next_settle d"
    and "k \<in> usage_keys \<Longrightarrow> key_delta d' k =
      (if 0 < amt then ((key_delta d)(usage_key (RequestID p) \<mapsto> - amt)) k else key_delta d k)"
proof -
  from assms obtain res1 d1 where rel: "tl_release lg d (UserID p) (RequestID p) = Inr (res1, d1)"
    and rest: "if 0 < amt then \<exists>r. tl_apply lg d1 (charge_change p amt) = Inr (r, d') else d' = d1"
    by (auto simp: charge_def releasePrechargeTx_def err_simps split: if_splits)
  show "usage d' = usage d \<and> next_usage d' = next_usage d \<and> settlements d' = settlements d \<and>
      next_settle d' = next_settle d"
    using release_frame [OF rel] rest apply_frame [of d1 "charge_change p amt"] by (auto split: if_splits)
  assume "k \<in> usage_keys"
  with release_keys [OF rel this] rest apply_keys [of d1 "charge_change p amt"]
  show "key_delta d' k = (if 0 < amt then ((key_delta d)(usage_key (RequestID p) \<mapsto> - amt)) k else key_delta d k)"
    by (auto simp: charge_change_def change_delta_def split: if_splits)
qed

lemma charge_books:
  assumes "charge (Some lg) d p amt = Inr (res, lid, d')" and "plain (RequestID p)" and "plain r"
  shows "books (key_delta d') r =
    (if r = RequestID p \<and> 0 < amt then (Some (- amt), snd (books (key_delta d) r)) else books (key_delta d) r)"
proof -
  have "books (key_delta d') r = books (if 0 < amt then (key_delta d)(usage_key (RequestID p) \<mapsto> - amt) else key_delta d) r"
    using charge_Inr(2) [OF assms(1)] by (intro books_cong) simp
  then show ?thesis using books_upd(1) [OF assms(2,3)] by (cases "0 < amt") simp_all
qed

end


subsection \<open>Transactions of the settler\<close>

definition quotes_ok :: "pricer \<Rightarrow> bool" where
  "quotes_ok pc \<longleftrightarrow> (\<forall>p a. pc_quote pc p = Inr a \<longrightarrow> 0 \<le> a)"

lemma priceOf_nonneg: "priceOf pc p = Inr (amt, detail, h) \<Longrightarrow> quotes_ok pc \<Longrightarrow> 0 \<le> amt"
  by (auto simp: priceOf_def quotes_ok_def err_simps split: if_splits)

lemma row_books_simps:
  "u_status x = StatusPending \<or> u_status x = StatusFailed \<Longrightarrow> row_books lv x b \<Longrightarrow> b = (None, None, None, None)"
  "row_books True x b \<Longrightarrow> uncorrected b \<and> (u_total x = 0 \<longrightarrow> fst b = None)"
  "row_books lv x b \<Longrightarrow> u_status x = StatusReserved \<Longrightarrow> - sum_of b = u_total x \<and> 0 \<le> u_total x"
  by (auto simp: row_books_def)

text \<open>
  The shape of a row update: which columns the invariant sees and what it leaves alone.
\<close>

definition sets_row :: "(usage_row \<Rightarrow> usage_row) \<Rightarrow> billing_status \<Rightarrow> (usage_row \<Rightarrow> rat) \<Rightarrow> bool" where
  "sets_row f st amt \<longleftrightarrow> (\<forall>y. u_id (f y) = u_id y \<and> rid_of (f y) = rid_of y \<and> u_status (f y) = st \<and> u_total (f y) = amt y)"

lemma sets_row_D:
  assumes "sets_row f st amt"
  shows "u_id (f y) = u_id y" "rid_of (f y) = rid_of y" "u_status (f y) = st" "u_total (f y) = amt y"
  using assms by (auto simp: sets_row_def)

lemma settleTx_parts:
  assumes "settleTx env pc lg sk lk d p = Inr (res, d')"
  obtains amt detail hash x lid d1 f where "priceOf pc p = Inr (amt, detail, hash)"
    "x \<in> set (usage d)" "rid_of x = RequestID p" "u_status x \<in> {StatusPending, StatusFailed}"
    "charge lg d p amt = Inr (res, lid, d1)" "sets_row f StatusBilled (\<lambda>_. amt)"
    "emit env [recordedEvent p amt StatusBilled] (update_usage (\<lambda>y. rid_of y = RequestID p) f d1) = Inr d'"
proof -
  from assms obtain amt detail hash x lid d1 where *: "priceOf pc p = Inr (amt, detail, hash)"
    "x \<in> set (usage d)" "rid_of x = RequestID p" "u_status x \<in> {StatusPending, StatusFailed}"
    "charge lg d p amt = Inr (res, lid, d1)"
    "emit env [recordedEvent p amt StatusBilled] (update_usage (\<lambda>y. rid_of y = RequestID p)
      (\<lambda>y. y\<lparr>u_total := amt, u_status := StatusBilled, u_ledger_id := lid,
         u_tier := trunc (bd_tier detail) 100, u_expr_hash := hash,
         u_p := (u_p y)\<lparr>Semantics := Semantics p, Params := Params p, Headers := Headers p,
           Attempts := bd_attempts detail, Mode := Mode p,
           PriceID := (if 0 < PriceID p then PriceID p else 0), Rate := Rate p\<rparr>\<rparr>) d1) = Inr d'"
    by (auto simp: settleTx_def err_simps Let_def rid_of_def split: if_splits option.splits
        dest!: find_usage_SomeD)
  show ?thesis by (rule that [OF *(1-5) _ *(6)]) (simp add: sets_row_def rid_of_def)
qed

context usage_ledger
begin

lemma settleTx_keeps:
  assumes "settleTx env pc (Some lg) sk lk d p = Inr (res, d')" and ok: "money_ok d" and "quotes_ok pc"
  shows "keeps d d'"
  using assms(1)
proof (rule settleTx_parts)
  fix amt and detail :: detail and hash x lid d1 f
  assume pr: "priceOf pc p = Inr (amt, detail, hash)" and x: "x \<in> set (usage d)"
    and rid: "rid_of x = RequestID p" and st: "u_status x \<in> {StatusPending, StatusFailed}"
    and ch: "charge (Some lg) d p amt = Inr (res, lid, d1)" and sr: "sets_row f StatusBilled (\<lambda>_. amt)"
    and em: "emit env [recordedEvent p amt StatusBilled] (update_usage (\<lambda>y. rid_of y = RequestID p) f d1) = Inr d'"
  note row = money_ok_rowD [OF ok x] and f = sets_row_D [OF sr]
  note fr = charge_Inr(1) [OF ch] and emf = emit_frame [OF em, simplified]
  have pl: "plain (RequestID p)" using row(3) rid by simp
  have bk: "books (key_delta d') r = (if r = RequestID p \<and> 0 < amt then (Some (- amt), snd (books (key_delta d) r))
      else books (key_delta d) r)" if "plain r" for r
    using charge_books [OF ch pl that] emf(5) by simp
  have us: "usage d' = map (\<lambda>y. if u_id y = u_id x then f y else y) (usage d)"
    using emf(1) fr rows_ok_same_rid [OF row(1) x, of f] rid by simp
  have empty: "books (key_delta d) (RequestID p) = (None, None, None, None)"
    using row(5) st rid by (auto simp: row_books_def)
  have am: "0 \<le> amt" by (rule priceOf_nonneg [OF pr assms(3)])
  show "keeps d d'"
  proof (rule keeps_step [OF ok x us])
    show "entries_ok d'"
      using emf fr by (intro entries_ok_cong [OF row(2)]) (simp_all only: us u_id_image f)
    show "row_books (live d' (f x)) (f x) (books (key_delta d') (rid_of x))"
      using bk [OF pl] empty rid am by (auto simp: row_books_def sum_of_def uncorrected_def f)
  qed (use emf fr bk rid f st in auto)
qed

end


lemma markFailed_keeps:
  assumes ok: "money_ok d"
  shows "keeps d (markFailed env d p)"
proof (cases "env_fails env ''mark failed'' \<or>
    \<not> (\<exists>x \<in> set (usage d). rid_of x = RequestID p \<and> u_status x \<in> {StatusPending, StatusFailed})")
  case True
  then have "usage (markFailed env d p) = usage d"
    by (auto simp: markFailed_def rid_of_def intro!: map_idI)
  moreover have "markFailed env d p = d\<lparr>usage := usage (markFailed env d p)\<rparr>"
    by (simp add: markFailed_def update_usage_def)
  ultimately show ?thesis using ok by (simp add: keeps_def evolves_refl)
next
  case False
  then obtain x where x: "x \<in> set (usage d)" "rid_of x = RequestID p" "u_status x \<in> {StatusPending, StatusFailed}"
    and nf: "\<not> env_fails env ''mark failed''" by blast
  note row = money_ok_rowD [OF ok x(1)]
  define f where "f = (\<lambda>x. x\<lparr>u_status := StatusFailed, u_p := (u_p x)\<lparr>Attempts := Attempts p + 1,
           Semantics := Semantics p, Params := Params p, Headers := Headers p\<rparr>\<rparr> :: usage_row)"
  have f: "u_id (f y) = u_id y" "rid_of (f y) = rid_of y" "u_status (f y) = StatusFailed" "u_total (f y) = u_total y" for y
    by (simp_all add: f_def rid_of_def)
  have md: "markFailed env d p = update_usage (\<lambda>x. rid_of x = RequestID p \<and> u_status x \<in> {StatusPending, StatusFailed}) f d"
    using nf by (simp add: markFailed_def f_def rid_of_def)
  have us: "usage (markFailed env d p) = map (\<lambda>y. if u_id y = u_id x then f y else y) (usage d)"
    unfolding md update_usage_simps
  proof (rule map_cong [OF refl])
    fix y assume y: "y \<in> set (usage d)"
    have "(u_id y = u_id x) = (y = x)" "(rid_of y = rid_of x) = (y = x)"
      using row(1) x(1) y by (auto simp: rows_ok_def distinct_map inj_on_def)
    then show "(if rid_of y = RequestID p \<and> u_status y \<in> {StatusPending, StatusFailed} then f y else y) =
        (if u_id y = u_id x then f y else y)"
      using x(2,3) by auto
  qed
  show ?thesis
  proof (rule keeps_step [OF ok x(1) us])
    show "entries_ok (markFailed env d p)"
      by (rule entries_ok_cong [OF row(2)]) (simp_all only: us u_id_image f, simp_all add: md)
    show "row_books (live (markFailed env d p) (f x)) (f x) (books (key_delta (markFailed env d p)) (rid_of x))"
      using row(5) x(3) by (auto simp: row_books_def f md sum_of_def uncorrected_def)
  qed (use x(3) in \<open>auto simp: md f\<close>)
qed

subsection \<open>Outcomes of the reconcile loop\<close>

definition entry_known :: "db \<Rightarrow> entry \<Rightarrow> bool" where
  "entry_known d e \<longleftrightarrow> e_id e < next_settle d \<and> e_usage e < next_usage d \<and>
     (\<forall>s \<in> set (settlements d). s_id s = e_id e \<longrightarrow> s_usage s = e_usage e)"

definition snap_ok :: "db \<Rightarrow> entry \<Rightarrow> row_state \<Rightarrow> bool" where
  "snap_ok d e row \<longleftrightarrow> entry_known d e \<and>
     (\<forall>x \<in> set (usage d). u_id x = e_usage e \<longrightarrow>
        rid_of x = RequestID (rs_p row) \<and> u_status x \<notin> {StatusPending, StatusFailed} \<and>
        (live d x \<longrightarrow> u_total x = rs_total row))"

lemma outcome_guard_Inr:
  assumes "outcome_guard env d e = Inr u"
  obtains x s where "x \<in> set (usage d)" "u_id x = e_usage e" "u_status x = StatusReserved"
    "s \<in> set (settlements d)" "s_id s = e_id e" "s_task s = None"
  using assms
  by (auto simp: outcome_guard_def lockLegacyOutcome_def err_simps split: option.splits if_splits
      dest!: find_row_SomeD find_SomeD)

lemma keeps_outcome:
  assumes ok: "money_ok d" and kn: "entry_known d e"
    and x: "x \<in> set (usage d)" "u_id x = e_usage e"
    and s: "s \<in> set (settlements d)" "s_id s = e_id e"
    and us: "usage d' = map (\<lambda>y. if u_id y = e_usage e then f y else y) (usage d)" and f: "sets_row f st amt"
    and ss: "settlements d' = map (\<lambda>t. if s_id t = e_id e then g t else t) (settlements d)"
    and g: "\<And>t. s_id (g t) = s_id t \<and> s_usage (g t) = s_usage t"
    and nx: "next_usage d' = next_usage d" "next_settle d' = next_settle d"
    and bk: "\<And>r. plain r \<Longrightarrow> r \<noteq> rid_of x \<Longrightarrow> books (key_delta d') r = books (key_delta d) r"
    and row: "row_books (st = StatusReserved \<or> (st = StatusBilled \<and> billedAtEstimate (s_state (g s)))) (f x)
      (books (key_delta d') (rid_of x))"
    and st: "st \<notin> {StatusPending, StatusFailed}"
    and op: "st = StatusReserved \<or> (st = StatusBilled \<and> billedAtEstimate (s_state (g s))) \<Longrightarrow>
      live d x \<and> amt x = u_total x"
  shows "keeps d d'"
proof (rule keeps_step [OF ok x(1) us [folded x(2)]])
  note rw = money_ok_rowD [OF ok x(1)] and fD = sets_row_D [OF f]
  show "u_id (f x) = u_id x" "rid_of (f x) = rid_of x" "next_usage d' = next_usage d" using fD nx by auto
  show en: "entries_ok d'"
    by (rule entries_ok_update [OF rw(2) g ss]) (simp_all only: us u_id_image fD nx)
  have su: "s_usage s = e_usage e" using kn s by (auto simp: entry_known_def)
  have only: "(s_usage t = u_id x \<and> t = g s) \<or> (s_usage t \<noteq> u_id x \<and> t \<in> set (settlements d))"
    if t: "t \<in> set (settlements d')" for t
  proof -
    from t obtain t0 where t0: "t0 \<in> set (settlements d)" "t = (if s_id t0 = e_id e then g t0 else t0)"
      by (auto simp: ss)
    show ?thesis
    proof (cases "s_id t0 = e_id e")
      case True
      with \<open>t0 \<in> set (settlements d)\<close> have "t0 = s" using s rw(2) by (auto simp: entries_ok_def distinct_map inj_on_def)
      with t0(2) True g [of s] su x(2) show ?thesis by simp
    next
      case False
      have "s_usage t0 \<noteq> u_id x"
      proof
        assume "s_usage t0 = u_id x"
        with t0(1) s(1) su x(2) rw(2) have "t0 = s" by (auto simp: entries_ok_def distinct_map inj_on_def)
        with False s(2) show False by simp
      qed
      with t0 False show ?thesis by simp
    qed
  qed
  then show "\<forall>t \<in> set (settlements d'). s_usage t \<noteq> u_id x \<longrightarrow> t \<in> set (settlements d)" by blast
  have lv: "live d' (f x) \<Longrightarrow> st = StatusReserved \<or> (st = StatusBilled \<and> billedAtEstimate (s_state (g s)))"
    using only fD(1,3) [of x] unfolding live_def by metis
  then show "row_books (live d' (f x)) (f x) (books (key_delta d') (rid_of x))"
    using row unfolding row_books_def by blast
  show "u_status (f x) \<notin> {StatusPending, StatusFailed} \<and> (live d' (f x) \<longrightarrow> live d x \<and> u_total (f x) = u_total x)"
    using lv op st fD(3,4) [of x] by simp
  show "next_settle d \<le> next_settle d'" by (simp add: nx)
  show "\<forall>s' \<in> set (settlements d'). next_settle d \<le> s_id s' \<or>
      (\<exists>s \<in> set (settlements d). s_id s = s_id s' \<and> s_usage s = s_usage s')"
    using g by (auto simp: ss)
qed (rule bk)

lemma keepEstimateTx_keeps:
  assumes "keepEstimateTx env d e row state marker note cnt = Inr d'" and ok: "money_ok d"
    and kn: "entry_known d e"
  shows "keeps d d'"
proof -
  from assms(1) obtain u where gd: "outcome_guard env d e = Inr u"
    by (auto simp: keepEstimateTx_def err_simps)
  from assms(1) obtain f g where em: "emit env [recordedEvent (rs_p row) (rs_total row) StatusBilled]
      (update_entries (\<lambda>t. s_id t = e_id e) g (update_usage (\<lambda>y. u_id y = e_usage e) f d)) = Inr d'"
    and f: "sets_row f StatusBilled u_total" and g: "\<And>t. s_id (g t) = s_id t \<and> s_usage (g t) = s_usage t"
    by (auto simp: keepEstimateTx_def err_simps Let_def sets_row_def rid_of_def intro: that)
  from gd obtain x s where x: "x \<in> set (usage d)" "u_id x = e_usage e" "u_status x = StatusReserved"
    and s: "s \<in> set (settlements d)" "s_id s = e_id e" by (rule outcome_guard_Inr)
  note emf = emit_frame [OF em, simplified]
  have "row_books True x (books (key_delta d) (rid_of x))"
    using money_ok_rowD(5) [OF ok x(1)] x(3) by (simp add: live_def row_books_def)
  then have "row_books lv (f x) (books (key_delta d') (rid_of x))" for lv
    using x(3) by (auto simp: row_books_def sets_row_D [OF f] emf(5))
  then show ?thesis
    by (intro keeps_outcome [OF ok kn x(1,2) s emf(1) f emf(3) g emf(2,4)]) (use x(3) in \<open>simp_all add: emf(5) live_def\<close>)
qed

context usage_ledger
begin

lemma apply_diff_Inr:
  assumes "apply_diff lg d p diff = Inr (res, d')" and "plain (RequestID p)"
  shows "usage d' = usage d" "next_usage d' = next_usage d" "settlements d' = settlements d" "next_settle d' = next_settle d"
    and "plain r \<Longrightarrow> r \<noteq> RequestID p \<Longrightarrow> books (key_delta d') r = books (key_delta d) r"
    and "uncorrected (books (key_delta d) (RequestID p)) \<Longrightarrow>
      sum_of (books (key_delta d') (RequestID p)) = sum_of (books (key_delta d) (RequestID p)) - diff"
proof -
  have sd: "change_delta (recon_change p a c n) = (if c then a else - a)"
    "ch_key (recon_change p a c n) = (if c then rec_refund_key (RequestID p) else rec_usage_key (RequestID p))" for a c n
    by (simp_all add: recon_change_def change_delta_def)
  consider "diff = 0" "d' = d" | (up) r where "0 < diff" "tl_apply lg d (recon_change p diff False
        ''reconciled: real usage exceeded the reservation'') = Inr (r, d')"
    | (down) r where "diff < 0" "tl_apply lg d (recon_change p (- diff) True
        ''reconciled: real usage was below the reservation'') = Inr (r, d')"
    using assms(1) by (auto simp: apply_diff_def err_simps split: if_splits)
  then have *: "usage d' = usage d \<and> next_usage d' = next_usage d \<and> settlements d' = settlements d \<and>
      next_settle d' = next_settle d \<and>
      key_delta d' = (if diff = 0 then key_delta d
        else if 0 < diff then (key_delta d)(rec_usage_key (RequestID p) \<mapsto> - diff)
        else (key_delta d)(rec_refund_key (RequestID p) \<mapsto> - diff))"
  proof cases
    case up
    then show ?thesis using apply_frame [OF up(2)] apply_keys [OF up(2)] by (simp add: sd)
  next
    case down
    then show ?thesis using apply_frame [OF down(2)] apply_keys [OF down(2)] by (simp add: sd)
  qed simp
  then show "usage d' = usage d" "next_usage d' = next_usage d" "settlements d' = settlements d" "next_settle d' = next_settle d"
    by auto
  show "plain r \<Longrightarrow> r \<noteq> RequestID p \<Longrightarrow> books (key_delta d') r = books (key_delta d) r"
    using * by (auto simp: books_upd(2,3) [OF assms(2)])
  assume "uncorrected (books (key_delta d) (RequestID p))"
  then show "sum_of (books (key_delta d') (RequestID p)) = sum_of (books (key_delta d) (RequestID p)) - diff"
    using * by (auto simp: books_upd(2,3) [OF assms(2) assms(2)])
      (auto simp: books_def sum_of_def uncorrected_def)
qed

end

end
