(* ===== verification/ReconcileBooks.thy ===== *)
theory ReconcileBooks
  imports UsageBooks
begin

section \<open>The remaining transactions keep the books\<close>

text \<open>
  The outcomes of \<open>reconcile.go\<close> that move money, the administrator's two actions, and the insertion
  of a batch with its reservations, each as one step of the invariant \<open>money_ok\<close>; then the interpretation
  of \<open>usage_ledger\<close> on the ledger and precharge models.
\<close>

subsection \<open>Reconciliation\<close>

lemma settleReconciledTx_parts:
  assumes "settleReconciledTx env lg d e p reserved (amt, detail, hash) = Inr (res, d')"
  obtains u d1 f g where "outcome_guard env d e = Inr u" "apply_diff lg d p (amt - reserved) = Inr (res, d1)"
    "sets_row f StatusBilled (\<lambda>_. amt)"
    "\<And>t. s_id (g t) = s_id t \<and> s_usage (g t) = s_usage t \<and> s_state (g t) = SettleStateSettled"
    "emit env [recordedEvent p amt StatusBilled]
      (update_entries (\<lambda>t. s_id t = e_id e) g (update_usage (\<lambda>y. u_id y = e_usage e) f d1)) = Inr d'"
proof -
  from assms obtain u d1 where *: "outcome_guard env d e = Inr u" "apply_diff lg d p (amt - reserved) = Inr (res, d1)"
    "emit env [recordedEvent p amt StatusBilled]
      (update_entries (\<lambda>t. s_id t = e_id e) (\<lambda>s. s\<lparr>s_state := SettleStateSettled,
         s_attempts := s_attempts s + 1, s_error := []\<rparr>)
       (update_usage (\<lambda>y. u_id y = e_usage e) (\<lambda>x. x\<lparr>
            u_p := (u_p x)\<lparr>Tokens := Tokens p, Metrics := Metrics p, Semantics := Semantics p,
              Params := Params p, Headers := Headers p, Attempts := bd_attempts detail\<rparr>,
            u_total := amt, u_status := StatusBilled, u_ledger_id := map_option r_id res,
            u_tier := trunc (bd_tier detail) 100, u_expr_hash := hash\<rparr>) d1)) = Inr d'"
    by (auto simp: settleReconciledTx_def err_simps Let_def)
  show ?thesis by (rule that [OF *(1,2) _ _ *(3)]) (simp_all add: sets_row_def rid_of_def)
qed

lemma refundTx_parts:
  assumes "refundTx env lg d e row reason = Inr (res, d')"
  obtains u d1 f g where "outcome_guard env d e = Inr u"
    "if 0 < rs_total row then \<exists>r. tl_apply lg d (recon_change (rs_p row) (rs_total row) True
       ''reconciled: the upstream work failed'') = Inr (r, d1) else d1 = d"
    "sets_row f StatusFree (\<lambda>_. 0)"
    "\<And>t. s_id (g t) = s_id t \<and> s_usage (g t) = s_usage t"
    "emit env [recordedEvent (rs_p row) 0 StatusFree]
      (update_entries (\<lambda>t. s_id t = e_id e) g (update_usage (\<lambda>y. u_id y = e_usage e) f d1)) = Inr d'"
proof -
  from assms obtain u d1 where *: "outcome_guard env d e = Inr u"
    "if 0 < rs_total row then \<exists>r. tl_apply lg d (recon_change (rs_p row) (rs_total row) True
       ''reconciled: the upstream work failed'') = Inr (r, d1) else d1 = d"
    "emit env [recordedEvent (rs_p row) 0 StatusFree]
      (update_entries (\<lambda>t. s_id t = e_id e) (\<lambda>s. s\<lparr>s_state := SettleStateFailed,
               s_attempts := s_attempts s + 1, s_error := trunc reason 2000,
               s_poll_failures := poll_count e (s_poll_failures s)\<rparr>)
       (update_usage (\<lambda>y. u_id y = e_usage e) (\<lambda>x. x\<lparr>u_total := 0, u_status := StatusFree,
           u_p := (u_p x)\<lparr>Success := False, ErrorType := trunc reason 50\<rparr>, u_message := trunc reason 1000\<rparr>) d1)) = Inr d'"
    by (auto simp: refundTx_def err_simps Let_def split: if_splits)
  show ?thesis by (rule that [OF *(1,2) _ _ *(3)]) (simp_all add: sets_row_def rid_of_def)
qed

context usage_ledger
begin

lemma settleReconciledTx_keeps:
  assumes "settleReconciledTx env lg d e p (rs_total row) (amt, detail, hash) = Inr (res, d')" and ok: "money_ok d"
    and kn: "snap_ok d e row" and rp: "RequestID p = RequestID (rs_p row)" and nn: "0 \<le> amt"
  shows "keeps d d'"
  using assms(1)
proof (rule settleReconciledTx_parts)
  fix u d1 f g
  assume gd: "outcome_guard env d e = Inr u" and df: "apply_diff lg d p (amt - rs_total row) = Inr (res, d1)"
    and f: "sets_row f StatusBilled (\<lambda>_. amt)"
    and g: "\<And>t. s_id (g t) = s_id t \<and> s_usage (g t) = s_usage t \<and> s_state (g t) = SettleStateSettled"
    and em: "emit env [recordedEvent p amt StatusBilled]
      (update_entries (\<lambda>t. s_id t = e_id e) g (update_usage (\<lambda>y. u_id y = e_usage e) f d1)) = Inr d'"
  note emf = emit_frame [OF em, simplified]
  from gd obtain x s where x: "x \<in> set (usage d)" "u_id x = e_usage e" "u_status x = StatusReserved"
    and s: "s \<in> set (settlements d)" "s_id s = e_id e" by (rule outcome_guard_Inr)
  note row = money_ok_rowD [OF ok x(1)]
  have lv: "live d x" using x(3) by (simp add: live_def)
  from kn x lv have sn: "rid_of x = RequestID p" "u_total x = rs_total row" "entry_known d e"
    by (auto simp: snap_ok_def rp)
  have pl: "plain (RequestID p)" using row(3) sn(1) by simp
  note ad = apply_diff_Inr [OF df pl]
  have b: "uncorrected (books (key_delta d) (RequestID p))" "- sum_of (books (key_delta d) (RequestID p)) = rs_total row"
    using row(5) x(3) sn lv by (auto simp: row_books_def)
  have "row_books False (f x) (books (key_delta d') (rid_of x))"
    using ad(6) [OF b(1)] b(2) nn by (simp add: row_books_def sets_row_D [OF f] sn(1) emf(5))
  then show "keeps d d'"
    using ad emf g f sn x s
    by (intro keeps_outcome [OF ok sn(3) x(1,2) s _ f, where g = g])
      (simp_all add: billedAtEstimate_def)
qed

lemma refundTx_keeps:
  assumes "refundTx env lg d e row reason = Inr (res, d')" and ok: "money_ok d" and kn: "snap_ok d e row"
  shows "keeps d d'"
  using assms(1)
proof (rule refundTx_parts)
  fix u d1 f g
  assume gd: "outcome_guard env d e = Inr u"
    and ap: "if 0 < rs_total row then \<exists>r. tl_apply lg d (recon_change (rs_p row) (rs_total row) True
       ''reconciled: the upstream work failed'') = Inr (r, d1) else d1 = d"
    and f: "sets_row f StatusFree (\<lambda>_. 0)"
    and g: "\<And>t. s_id (g t) = s_id t \<and> s_usage (g t) = s_usage t"
    and em: "emit env [recordedEvent (rs_p row) 0 StatusFree]
      (update_entries (\<lambda>t. s_id t = e_id e) g (update_usage (\<lambda>y. u_id y = e_usage e) f d1)) = Inr d'"
  note emf = emit_frame [OF em, simplified]
  from gd obtain x s where x: "x \<in> set (usage d)" "u_id x = e_usage e" "u_status x = StatusReserved"
    and s: "s \<in> set (settlements d)" "s_id s = e_id e" by (rule outcome_guard_Inr)
  note row = money_ok_rowD [OF ok x(1)]
  have lv: "live d x" using x(3) by (simp add: live_def)
  from kn x lv have sn: "rid_of x = RequestID (rs_p row)" "u_total x = rs_total row" "entry_known d e"
    by (auto simp: snap_ok_def)
  have pl: "plain (rid_of x)" by (rule row(3))
  have b: "uncorrected (books (key_delta d) (rid_of x))" "- sum_of (books (key_delta d) (rid_of x)) = rs_total row"
    "0 \<le> rs_total row"
    using row(5) x(3) sn lv by (auto simp: row_books_def)
  have cd: "change_delta (recon_change (rs_p row) (rs_total row) True n) = rs_total row"
    "ch_key (recon_change (rs_p row) (rs_total row) True n) = rec_refund_key (rid_of x)" for n
    by (simp_all add: recon_change_def change_delta_def sn)
  have d1: "usage d1 = usage d" "next_usage d1 = next_usage d" "settlements d1 = settlements d"
    "next_settle d1 = next_settle d"
    "key_delta d1 = (if 0 < rs_total row then (key_delta d)(rec_refund_key (rid_of x) \<mapsto> rs_total row) else key_delta d)"
  proof -
    have "usage d1 = usage d \<and> next_usage d1 = next_usage d \<and> settlements d1 = settlements d \<and>
      next_settle d1 = next_settle d \<and> key_delta d1 =
        (if 0 < rs_total row then (key_delta d)(rec_refund_key (rid_of x) \<mapsto> rs_total row) else key_delta d)"
    proof (cases "0 < rs_total row")
      case True
      with ap obtain r where r: "tl_apply lg d (recon_change (rs_p row) (rs_total row) True
         ''reconciled: the upstream work failed'') = Inr (r, d1)" by auto
      from apply_frame [OF r] apply_keys [OF r] True cd show ?thesis by simp
    next
      case False
      with ap show ?thesis by simp
    qed
    then show "usage d1 = usage d" "next_usage d1 = next_usage d" "settlements d1 = settlements d"
      "next_settle d1 = next_settle d" "key_delta d1 =
        (if 0 < rs_total row then (key_delta d)(rec_refund_key (rid_of x) \<mapsto> rs_total row) else key_delta d)"
      by auto
  qed
  have bk: "books (key_delta d') r = books (key_delta d) r" if "plain r" "r \<noteq> rid_of x" for r
    using that by (simp add: emf(5) d1 books_upd(3) [OF pl])
  have "sum_of (books (key_delta d') (rid_of x)) = 0"
    using b by (auto simp: emf(5) d1 books_upd(3) [OF pl pl])
      (auto simp: books_def sum_of_def uncorrected_def)
  then have "row_books False (f x) (books (key_delta d') (rid_of x))"
    by (simp add: row_books_def sets_row_D [OF f])
  then show "keeps d d'"
    using bk emf d1 g f sn x s
    by (intro keeps_outcome [OF ok sn(3) x(1,2) s _ f, where g = g]) simp_all
qed

end

lemma keeps_refl: "money_ok d \<Longrightarrow> keeps d d"
  by (simp add: keeps_def evolves_refl)

text \<open>Changing entries without reopening a row.\<close>

lemma keeps_entries:
  assumes ok: "money_ok d" and d': "d' = update_entries P g d"
    and g: "\<And>t. s_id (g t) = s_id t \<and> s_usage (g t) = s_usage t"
    and st: "\<And>t. P t \<Longrightarrow> billedAtEstimate (s_state (g t)) \<Longrightarrow> billedAtEstimate (s_state t)"
  shows "keeps d d'"
proof -
  have "entries_ok d" using ok by (simp add: money_ok_def)
  from entries_ok_update [OF this g, of d' P] have en: "entries_ok d'" by (simp add: d')
  have lv: "live d' x \<Longrightarrow> live d x" for x
    using g st by (auto simp: live_def d' split: if_splits)
  then have "row_books (live d' x) x b" if "row_books (live d x) x b" for x b
    using that by (auto simp: row_books_def)
  with en ok have "money_ok d'" by (simp add: money_ok_def rows_ok_def d')
  moreover have "evolves d d'"
    using g lv by (auto simp: evolves_def d')
  ultimately show ?thesis by (simp add: keeps_def)
qed

lemma rescheduleTx_keeps:
  assumes "rescheduleTx env d e next lastErr inc = Inr d'" and ok: "money_ok d"
  shows "keeps d d'"
proof -
  let ?g = "\<lambda>s. s\<lparr>s_attempts := s_attempts s + inc, s_next := next,
              s_error := trunc lastErr 2000, s_poll_failures := poll_count e (s_poll_failures s)\<rparr>"
  from assms(1) obtain P where "d' = update_entries P ?g d"
    by (auto simp: rescheduleTx_def err_simps Let_def split: if_splits)
  then show ?thesis by (rule keeps_entries [OF ok]) simp_all
qed

lemma rescheduleAttempt_keeps: "money_ok d \<Longrightarrow> keeps d (rescheduleAttempt env cfg now d e want err cnt)"
  by (auto simp: rescheduleAttempt_def Let_def keeps_refl dest: rescheduleTx_keeps split: sum.splits)

text \<open>Closing an entry as settled can only make its row final.\<close>

lemma closeEntry_keeps:
  assumes ok: "money_ok d"
  shows "keeps d (closeEntry env d e SettleStateSettled note)"
proof (cases "env_fails env ''close entry''")
  case False
  let ?d = "closeEntry env d e SettleStateSettled note"
  let ?g = "\<lambda>s. s\<lparr>s_state := SettleStateSettled, s_error := trunc note 2000\<rparr>"
  have "?d = update_entries (\<lambda>s. s_id s = e_id e \<and> s_task s = None) ?g d"
    using False by (simp add: closeEntry_def)
  then show ?thesis by (rule keeps_entries [OF ok]) (simp_all add: billedAtEstimate_def)
qed (simp add: ok closeEntry_def keeps_refl)


subsection \<open>The administrator's actions\<close>

lemma lockSettlement_Inr:
  assumes "lockSettlement env d i = Inr (x, s)" and "at_estimate x s msg = Inr u"
  shows "x \<in> set (usage d)" "u_id x = i" "u_status x = StatusBilled"
    "s \<in> set (settlements d)" "s_usage s = i" "billedAtEstimate (s_state s)"
  using assms by (auto simp: lockSettlement_def at_estimate_def err_simps split: option.splits
      dest!: find_row_SomeD find_SomeD)

text \<open>The entry the two actions update, in the shape the outcome lemma takes.\<close>

definition entry_for :: "settle_row \<Rightarrow> entry" where
  "entry_for s = entry_of s"

lemma entry_for_simps [simp]: "e_id (entry_for s) = s_id s" "e_usage (entry_for s) = s_usage s"
  by (simp_all add: entry_for_def entry_of_def)

lemma entries_unique:
  "entries_ok d \<Longrightarrow> s \<in> set (settlements d) \<Longrightarrow> t \<in> set (settlements d) \<Longrightarrow> s_id t = s_id s \<Longrightarrow> t = s"
  unfolding entries_ok_def distinct_map by (meson inj_onD)

lemma entry_known_own:
  assumes ok: "money_ok d" and s: "s \<in> set (settlements d)"
  shows "entry_known d (entry_for s)"
proof -
  have en: "entries_ok d" and rw: "rows_ok d" using ok by (auto simp: money_ok_def)
  from en s obtain x where "x \<in> set (usage d)" "u_id x = s_usage s" by (auto simp: entries_ok_def)
  with rw have "s_usage s < next_usage d" by (auto simp: rows_ok_def)
  moreover have "s_usage t = s_usage s" if "t \<in> set (settlements d)" "s_id t = s_id s" for t
    using entries_unique [OF en s that] by simp
  moreover have "s_id s < next_settle d" using en s unfolding entries_ok_def by blast
  ultimately show ?thesis by (simp add: entry_known_def)
qed

lemma retryReconcileTx_keeps:
  assumes "retryReconcileTx env cfg now d i = Inr d'" and ok: "money_ok d"
  shows "keeps d d'"
proof -
  let ?g = "\<lambda>t. t\<lparr>s_state := SettleStatePending, s_attempts := 0,
              s_poll_failures := 0, s_next := now, s_deadline := now + maxAge cfg, s_error := []\<rparr>"
  let ?f = "\<lambda>y. y\<lparr>u_status := StatusReserved,
              u_anomalies := merge_json (u_anomalies y) [(''reconcile'', ''retrying'')]\<rparr>"
  from assms(1) obtain x s msg u where lk: "lockSettlement env d i = Inr (x, s)" "at_estimate x s msg = Inr u"
    and d0: "d' = update_entries (\<lambda>t. s_id t = s_id s) ?g (update_usage (\<lambda>y. u_id y = i) ?f d)"
    by (auto simp: retryReconcileTx_def err_simps)
  note L = lockSettlement_Inr [OF lk]
  obtain f g where d': "d' = update_entries (\<lambda>t. s_id t = s_id s) g (update_usage (\<lambda>y. u_id y = i) f d)"
    and f: "sets_row f StatusReserved u_total" and g: "\<And>t. s_id (g t) = s_id t \<and> s_usage (g t) = s_usage t"
    by (rule that [OF d0]) (simp_all add: sets_row_def rid_of_def)
  have lv: "live d x" using L by (auto simp: live_def)
  then have "row_books True x (books (key_delta d) (rid_of x))" using money_ok_rowD(5) [OF ok L(1)] by simp
  then have "row_books lv (f x) (books (key_delta d') (rid_of x))" for lv
    using L(3) by (auto simp: row_books_def sets_row_D [OF f] d')
  then show ?thesis
    using L lv by (intro keeps_outcome [OF ok entry_known_own [OF ok L(4)] L(1) _ L(4) _ _ f _ g]) (simp_all add: d')
qed

context usage_ledger
begin

lemma refundAbandonedTx_keeps:
  assumes "refundAbandonedTx env lg operator note d i = Inr (res, d')" and ok: "money_ok d"
  shows "keeps d d'"
proof -
  from assms(1) obtain x s msg u d1 nt f g where lk: "lockSettlement env d i = Inr (x, s)" "at_estimate x s msg = Inr u"
    and pos: "0 < u_total x" and ap: "tl_apply lg d (manual_refund x operator nt) = Inr (res, d1)"
    and d': "d' = update_entries (\<lambda>t. s_id t = s_id s) g (update_usage (\<lambda>y. u_id y = i) f d1)"
    and f: "sets_row f StatusFree (\<lambda>_. 0)" and g: "\<And>t. s_id (g t) = s_id t \<and> s_usage (g t) = s_usage t"
  proof -
    let ?note = "if note = [] then ''reservation refunded by an administrator'' else note"
    from assms(1) obtain x s msg u d1 where *: "lockSettlement env d i = Inr (x, s)" "at_estimate x s msg = Inr u"
      "0 < u_total x" "tl_apply lg d (manual_refund x operator ?note) = Inr (res, d1)"
      "d' = update_entries (\<lambda>t. s_id t = s_id s)
              (\<lambda>t. t\<lparr>s_error := trunc (''refunded by an administrator: '' @ ?note) 2000\<rparr>)
            (update_usage (\<lambda>y. u_id y = i) (\<lambda>y. y\<lparr>u_total := 0, u_status := StatusFree,
              u_anomalies := merge_json (u_anomalies y) [(''reconcile'', ''refunded'')]\<rparr>) d1)"
      by (auto simp: refundAbandonedTx_def err_simps Let_def not_le split: if_splits)
    show thesis by (rule that [OF *]) (simp_all add: sets_row_def rid_of_def)
  qed
  note L = lockSettlement_Inr [OF lk] and row = money_ok_rowD [OF ok L(1)]
  have lv: "live d x" using L by (auto simp: live_def)
  have cd: "change_delta (manual_refund x operator nt) = u_total x"
    "ch_key (manual_refund x operator nt) = refund_key (rid_of x)" for nt
    by (simp_all add: manual_refund_def change_delta_def rid_of_def)
  note fr = apply_frame [OF ap] and kd = apply_keys [OF ap, unfolded cd]
  have b: "uncorrected (books (key_delta d) (rid_of x))" "- sum_of (books (key_delta d) (rid_of x)) = u_total x"
    using row(5) lv L(3) by (auto simp: row_books_def)
  have "sum_of (books (key_delta d') (rid_of x)) = 0"
    using b by (simp add: d' kd books_upd(4) [OF row(3) row(3)])
      (auto simp: books_def sum_of_def uncorrected_def)
  then have rb: "row_books False (f x) (books (key_delta d') (rid_of x))"
    by (simp add: row_books_def sets_row_D [OF f])
  have bk: "books (key_delta d') r = books (key_delta d) r" if "plain r" "r \<noteq> rid_of x" for r
    using that by (simp add: d' kd books_upd(4) [OF row(3)])
  show ?thesis
    using L rb bk fr by (intro keeps_outcome [OF ok entry_known_own [OF ok L(4)] L(1) _ L(4) _ _ f _ g]) (simp_all add: d')
qed

end

end
