(* ===== verification/BatchBooks.thy ===== *)
theory BatchBooks
  imports ReconcileBooks
begin

section \<open>Inserting a batch keeps the books\<close>

text \<open>
  \<open>insertAtomic\<close> writes new rows, releases precharges of free ones, charges reservations and, for managed
  executions, settles at once, all in one transaction. The lemmas follow its loops; the interpretation of
  \<open>usage_ledger\<close> on the ledger and precharge models closes the theory.
\<close>

subsection \<open>New rows and entries\<close>

lemma money_ok_new_row:
  assumes ok: "money_ok d" and nr: "plain (rid_of x)" "rid_of x \<notin> rid_of ` set (usage d)" "u_id x = next_usage d"
    and st: "u_status x \<in> {StatusPending, StatusFree, StatusReserved}" "u_total x = 0"
  shows "money_ok (d\<lparr>usage := x # usage d, next_usage := next_usage d + 1\<rparr>)"
proof -
  let ?d = "d\<lparr>usage := x # usage d, next_usage := next_usage d + 1\<rparr>"
  have kd: "key_delta ?d = key_delta d" by (rule key_delta_ledger) simp
  have rows: "rows_ok ?d" using ok nr by (force simp: money_ok_def rows_ok_def)
  have ents: "entries_ok ?d" using ok by (auto simp: money_ok_def entries_ok_def)
  have new: "books (key_delta d) (rid_of x) = (None, None, None, None)"
    using ok nr by (simp add: money_ok_def)
  have "row_books (live ?d y) y (books (key_delta d) (rid_of y))" if "y \<in> set (usage ?d)" for y
  proof (cases "y = x")
    case True
    with new st show ?thesis by (auto simp: row_books_def sum_of_def uncorrected_def)
  next
    case False
    with that ok have "row_books (live d y) y (books (key_delta d) (rid_of y))" by (simp add: money_ok_def)
    then show ?thesis by (simp add: live_def)
  qed
  with rows ents ok show ?thesis unfolding money_ok_def kd by simp
qed

lemma money_ok_new_entry:
  assumes ok: "money_ok d" and s: "s_id s = next_settle d" "s_usage s \<in> u_id ` set (usage d)"
    "s_usage s \<notin> s_usage ` set (settlements d)" "\<not> billedAtEstimate (s_state s)"
  shows "money_ok (d\<lparr>settlements := s # settlements d, next_settle := next_settle d + 1\<rparr>)"
proof -
  let ?d = "d\<lparr>settlements := s # settlements d, next_settle := next_settle d + 1\<rparr>"
  have kd: "key_delta ?d = key_delta d" by (rule key_delta_ledger) simp
  have "entries_ok ?d" using ok s by (force simp: money_ok_def entries_ok_def)
  moreover have "rows_ok ?d" using ok by (simp add: money_ok_def rows_ok_def)
  moreover have "live ?d y = live d y" for y using s(4) by (auto simp: live_def)
  ultimately show ?thesis using ok unfolding money_ok_def kd by simp
qed

text \<open>A batch only adds rows numbered from \<open>n\<close> on and entries for them.\<close>

definition adds_from :: "int \<Rightarrow> db \<Rightarrow> db \<Rightarrow> bool" where
  "adds_from n d d' \<longleftrightarrow> next_usage d \<le> next_usage d' \<and> next_settle d \<le> next_settle d' \<and>
     (\<forall>x' \<in> set (usage d'). u_id x' < n \<longrightarrow> x' \<in> set (usage d)) \<and>
     (\<forall>s' \<in> set (settlements d'). s' \<in> set (settlements d) \<or> (next_settle d \<le> s_id s' \<and> n \<le> s_usage s'))"

lemma adds_from_frame:
  "usage d' = usage d \<Longrightarrow> next_usage d' = next_usage d \<Longrightarrow> settlements d' = settlements d \<Longrightarrow>
   next_settle d' = next_settle d \<Longrightarrow> adds_from n d d'"
  by (simp add: adds_from_def)

lemma adds_from_trans: "adds_from n a b \<Longrightarrow> adds_from n b c \<Longrightarrow> adds_from n a c"
  unfolding adds_from_def by (meson order_trans)

lemma adds_from_evolves:
  assumes "adds_from (next_usage d) d d'"
  shows "evolves d d'"
proof -
  have "live d x" if "live d' x" "u_id x < next_usage d" for x
    using that assms by (fastforce simp: live_def adds_from_def)
  moreover have "x \<in> set (usage d)" if "x \<in> set (usage d')" "u_id x < next_usage d" for x
    using that assms by (simp add: adds_from_def)
  ultimately have "next_usage d \<le> u_id x' \<or>
        (\<exists>x \<in> set (usage d). u_id x = u_id x' \<and> rid_of x = rid_of x' \<and>
           (u_status x \<notin> {StatusPending, StatusFailed} \<longrightarrow> u_status x' \<notin> {StatusPending, StatusFailed} \<and>
              (live d' x' \<longrightarrow> live d x \<and> u_total x' = u_total x)))" if "x' \<in> set (usage d')" for x'
    using that by (cases "u_id x' < next_usage d") (auto intro!: bexI [of _ x'])
  moreover have "next_settle d \<le> s_id s' \<or>
        (\<exists>s \<in> set (settlements d). s_id s = s_id s' \<and> s_usage s = s_usage s')" if "s' \<in> set (settlements d')" for s'
    using that assms by (auto simp: adds_from_def)
  ultimately show ?thesis using assms unfolding evolves_def adds_from_def by blast
qed

definition awaits :: "db \<Rightarrow> usage_rec \<times> int \<Rightarrow> bool" where
  "awaits d ri \<longleftrightarrow> snd ri < next_usage d \<and> (\<exists>x \<in> set (usage d). u_id x = snd ri \<and>
     rid_of x = trunc (rc_request (fst ri)) 64 \<and> u_status x = StatusReserved \<and> u_total x = 0) \<and>
     snd ri \<notin> s_usage ` set (settlements d)"

definition batch_ok :: "db \<Rightarrow> (usage_rec \<times> int) list \<Rightarrow> bool" where
  "batch_ok d ins \<longleftrightarrow> distinct (map snd ins) \<and>
     (\<forall>ri \<in> set ins. snd ri < next_usage d \<and> (initialStatus (fst ri) = StatusReserved \<longrightarrow> awaits d ri))"

lemma row_of_simps [simp]:
  "u_id (row_of pc now rec i) = i" "rid_of (row_of pc now rec i) = trunc (rc_request rec) 64"
  "u_status (row_of pc now rec i) = initialStatus rec" "u_total (row_of pc now rec i) = 0"
  by (simp_all add: row_of_def Let_def rid_of_def fromRecord_def)

lemma initialStatus_cases: "initialStatus rec \<in> {StatusPending, StatusFree, StatusReserved}"
  by (simp add: initialStatus_def)

lemma trunc_plain: "plain rid \<Longrightarrow> plain (trunc rid n)"
  by (auto simp: trunc_def plain_def dest: in_set_takeD)

lemma insert_one_Inr:
  assumes "insert_one env pc now d rec = Inr (oi, d')" and ok: "money_ok d" and "plain (rc_request rec)"
  obtains "oi = None" "d' = d"
  | "oi = Some (next_usage d)" "money_ok d'" "next_usage d' = next_usage d + 1"
    "usage d' = row_of pc now rec (next_usage d) # usage d" "settlements d' = settlements d"
    "next_settle d' = next_settle d"
proof (cases "find_usage d (trunc (rc_request rec) 64)")
  case (Some y)
  with assms(1) show ?thesis by (auto simp: insert_one_def err_simps intro: that)
next
  case None
  let ?x = "row_of pc now rec (next_usage d)"
  from None have fresh: "rid_of ?x \<notin> rid_of ` set (usage d)"
    by (auto simp: find_usage_def find_None_iff rid_of_def [symmetric])
  from None assms(1) have d': "oi = Some (next_usage d)"
    "d' = d\<lparr>usage := ?x # usage d, next_usage := next_usage d + 1\<rparr>"
    by (auto simp: insert_one_def err_simps)
  moreover have "money_ok d'"
    unfolding d'(2) by (rule money_ok_new_row [OF ok _ fresh])
      (use trunc_plain [OF assms(3)] initialStatus_cases in auto)
  ultimately show ?thesis by (intro that(2)) simp_all
qed

lemma insert_rows_money_ok:
  assumes "insert_rows env pc now recs d = Inr (ins, d')" and "money_ok d"
    and "\<forall>rec \<in> set recs. plain (rc_request rec)"
  shows "money_ok d' \<and> batch_ok d' ins \<and> next_usage d \<le> next_usage d' \<and> (\<forall>ri \<in> set ins. next_usage d \<le> snd ri) \<and>
    set (usage d) \<subseteq> set (usage d') \<and> settlements d' = settlements d \<and> adds_from (next_usage d) d d'"
  using assms
proof (induction recs arbitrary: d ins)
  case Nil
  then show ?case by (simp add: batch_ok_def adds_from_frame)
next
  case (Cons rec recs)
  from Cons.prems(1) obtain oi d1 ins1 where one: "insert_one env pc now d rec = Inr (oi, d1)"
    and rest: "insert_rows env pc now recs d1 = Inr (ins1, d')"
    and ins: "ins = (case oi of None \<Rightarrow> [] | Some i \<Rightarrow> [(rec, i)]) @ ins1"
    by (auto simp: err_simps)
  have pl: "plain (rc_request rec)" "\<forall>rec \<in> set recs. plain (rc_request rec)" using Cons.prems(3) by auto
  show ?case
  proof (rule insert_one_Inr [OF one Cons.prems(2) pl(1)])
    assume "oi = None" "d1 = d"
    with Cons.IH [OF rest _ pl(2)] Cons.prems(2) ins show ?thesis by simp
  next
    assume oi: "oi = Some (next_usage d)" and ok1: "money_ok d1" and nu: "next_usage d1 = next_usage d + 1"
      and us: "usage d1 = row_of pc now rec (next_usage d) # usage d" and se: "settlements d1 = settlements d"
      and ns: "next_settle d1 = next_settle d"
    have IH: "money_ok d' \<and> batch_ok d' ins1 \<and> next_usage d1 \<le> next_usage d' \<and> (\<forall>ri \<in> set ins1. next_usage d1 \<le> snd ri) \<and>
      set (usage d1) \<subseteq> set (usage d') \<and> settlements d' = settlements d1 \<and> adds_from (next_usage d1) d1 d'"
      by (rule Cons.IH [OF rest ok1 pl(2)])
    have "next_usage d \<notin> s_usage ` set (settlements d)"
    proof
      assume "next_usage d \<in> s_usage ` set (settlements d)"
      with Cons.prems(2) have "next_usage d \<in> u_id ` set (usage d)" by (auto simp: money_ok_def entries_ok_def)
      with Cons.prems(2) show False by (auto simp: money_ok_def rows_ok_def)
    qed
    moreover have "row_of pc now rec (next_usage d) \<in> set (usage d')" using IH us by auto
    ultimately have "initialStatus rec = StatusReserved \<longrightarrow> awaits d' (rec, next_usage d)"
      using IH se nu by (auto simp: awaits_def intro!: bexI [of _ "row_of pc now rec (next_usage d)"])
    moreover have "adds_from (next_usage d) d d'"
      using IH nu us se ns unfolding adds_from_def by auto
    ultimately show ?thesis using IH oi ins nu us se by (force simp: batch_ok_def)
  qed
qed

subsection \<open>Reservations\<close>

lemma registerTx_parts:
  assumes "registerTx env cfg now d i acct rv = Inr d'"
  shows "(\<exists>f2. sets_row f2 StatusBilled u_total \<and> d' = update_usage (\<lambda>x. u_id x = i) f2 d) \<or>
     (\<exists>s. s_id s = next_settle d \<and> s_usage s = i \<and> s_state s = SettleStatePending \<and>
        d' = d\<lparr>settlements := s # settlements d, next_settle := next_settle d + 1\<rparr>)"
proof (cases "\<exists>s \<in> set (settlements d). s_plugin s = s_plugin (new_entry cfg now d i acct rv) \<and>
    s_ref s = s_ref (new_entry cfg now d i acct rv)")
  case True
  let ?f = "\<lambda>rs x. x\<lparr>u_status := StatusBilled, u_anomalies := merge_json (u_anomalies x) rs\<rparr>"
  have "\<exists>rs. d' = update_usage (\<lambda>x. u_id x = i) (?f rs) d"
    using assms True by (auto simp: registerTx_def err_simps Let_def closeUnreconcilable_def)
  moreover have "sets_row (?f rs) StatusBilled u_total" for rs by (simp add: sets_row_def rid_of_def)
  ultimately show ?thesis by blast
next
  case False
  with assms have "d' = d\<lparr>settlements := new_entry cfg now d i acct rv # settlements d, next_settle := next_settle d + 1\<rparr>"
    by (auto simp: registerTx_def err_simps Let_def)
  then show ?thesis by (intro disjI2 exI [of _ "new_entry cfg now d i acct rv"]) (simp add: new_entry_def Let_def)
qed

lemma reserveTx_parts:
  assumes "reserveTx env pc lg cfg now d (rec, i) = Inr (res, d')"
  obtains amt detail h lid d1 f where "priceOf pc (fromRecord now rec) = Inr (amt, detail, h)"
    "charge lg d (fromRecord now rec) amt = Inr (res, lid, d1)"
    "\<And>y. u_id (f y) = u_id y \<and> rid_of (f y) = rid_of y \<and> u_status (f y) = u_status y \<and> u_total (f y) = amt"
    "(\<exists>f2. sets_row f2 StatusBilled u_total \<and> d' = update_usage (\<lambda>x. u_id x = i) f2 (update_usage (\<lambda>x. u_id x = i) f d1)) \<or>
     (\<exists>s. s_id s = next_settle d1 \<and> s_usage s = i \<and> s_state s = SettleStatePending \<and>
        d' = (update_usage (\<lambda>x. u_id x = i) f d1)\<lparr>settlements := s # settlements d1, next_settle := next_settle d1 + 1\<rparr>)"
proof -
  from assms obtain rv where rv: "rc_reservation rec = Some rv"
    by (auto simp: reserveTx_def split: option.splits)
  let ?p = "fromRecord now rec"
  from assms rv obtain amt detail h lid d1 where *: "priceOf pc ?p = Inr (amt, detail, h)"
    "charge lg d ?p amt = Inr (res, lid, d1)"
    and reg: "registerTx env cfg now (update_usage (\<lambda>x. u_id x = i) (reserved_row ?p amt detail lid) d1)
      i (rc_account rec) rv = Inr d'"
    by (auto simp: reserveTx_def err_simps Let_def)
  let ?f = "reserved_row ?p amt detail lid"
  have f: "\<And>y. u_id (?f y) = u_id y \<and> rid_of (?f y) = rid_of y \<and> u_status (?f y) = u_status y \<and> u_total (?f y) = amt"
    by (simp add: rid_of_def reserved_row_def)
  let ?d = "update_usage (\<lambda>x. u_id x = i) ?f d1"
  have alt: "(\<exists>f2. sets_row f2 StatusBilled u_total \<and> d' = update_usage (\<lambda>x. u_id x = i) f2 ?d) \<or>
     (\<exists>s. s_id s = next_settle d1 \<and> s_usage s = i \<and> s_state s = SettleStatePending \<and>
        d' = ?d\<lparr>settlements := s # settlements d1, next_settle := next_settle d1 + 1\<rparr>)"
    using registerTx_parts [OF reg] by simp
  show ?thesis by (rule that [OF *(1,2) f alt])
qed


lemma awaits_frame:
  "awaits d ri \<Longrightarrow> usage d' = usage d \<Longrightarrow> next_usage d' = next_usage d \<Longrightarrow> settlements d' = settlements d \<Longrightarrow> awaits d' ri"
  by (simp add: awaits_def)

lemma batch_ok_frame:
  "batch_ok d ins \<Longrightarrow> usage d' = usage d \<Longrightarrow> next_usage d' = next_usage d \<Longrightarrow> settlements d' = settlements d \<Longrightarrow>
   batch_ok d' ins"
  by (simp add: batch_ok_def awaits_def)

context usage_ledger
begin

lemma reserveTx_money_ok:
  assumes rs: "reserveTx env pc (Some lg) cfg now d (rec, i) = Inr (res, d')" and ok: "money_ok d"
    and q: "quotes_ok pc" and aw: "awaits d (rec, i)"
  shows "money_ok d' \<and> next_usage d' = next_usage d \<and>
    (\<forall>y \<in> set (usage d). u_id y \<noteq> i \<longrightarrow> y \<in> set (usage d')) \<and>
    s_usage ` set (settlements d') \<subseteq> insert i (s_usage ` set (settlements d)) \<and> adds_from i d d'"
  using rs
proof (rule reserveTx_parts)
  fix amt and detail :: detail and h lid d1 f
  assume pr: "priceOf pc (fromRecord now rec) = Inr (amt, detail, h)"
    and ch: "charge (Some lg) d (fromRecord now rec) amt = Inr (res, lid, d1)"
    and f: "\<And>y. u_id (f y) = u_id y \<and> rid_of (f y) = rid_of y \<and> u_status (f y) = u_status y \<and> u_total (f y) = amt"
    and alt: "(\<exists>f2. sets_row f2 StatusBilled u_total \<and> d' = update_usage (\<lambda>x. u_id x = i) f2 (update_usage (\<lambda>x. u_id x = i) f d1)) \<or>
     (\<exists>s. s_id s = next_settle d1 \<and> s_usage s = i \<and> s_state s = SettleStatePending \<and>
        d' = (update_usage (\<lambda>x. u_id x = i) f d1)\<lparr>settlements := s # settlements d1, next_settle := next_settle d1 + 1\<rparr>)"
  from aw obtain x where x: "x \<in> set (usage d)" "u_id x = i" "rid_of x = trunc (rc_request rec) 64"
    "u_status x = StatusReserved" "u_total x = 0" and ni: "i \<notin> s_usage ` set (settlements d)" by (auto simp: awaits_def)
  have rid: "RequestID (fromRecord now rec) = rid_of x" by (simp add: fromRecord_def x)
  note row = money_ok_rowD [OF ok x(1)] and fr = charge_Inr(1) [OF ch]
  have lv: "live d x" using x(4) by (simp add: live_def)
  have am: "0 \<le> amt" by (rule priceOf_nonneg [OF pr q])
  let ?d2 = "update_usage (\<lambda>x. u_id x = i) f d1"
  have bk: "books (key_delta ?d2) r = (if r = rid_of x \<and> 0 < amt then (Some (- amt), snd (books (key_delta d) r))
      else books (key_delta d) r)" if "plain r" for r
    using charge_books [OF ch _ that] row(3) by (simp add: rid)
  have b: "books (key_delta d) (rid_of x) = (None, None, None, None)"
    using row(5) lv x(4,5) by (auto simp: row_books_def uncorrected_def sum_of_def split: prod.splits)
  have us2: "usage ?d2 = map (\<lambda>y. if u_id y = u_id x then f y else y) (usage d)" using fr x(2) by simp
  have ok2: "money_ok ?d2"
  proof (rule money_ok_step [OF ok x(1) us2])
    show "entries_ok ?d2"
      by (rule entries_ok_cong [OF row(2)]) (simp_all only: us2 u_id_image f, simp_all add: fr)
    show "row_books (live ?d2 (f x)) (f x) (books (key_delta ?d2) (rid_of x))"
      using bk [OF row(3)] b am x(4) f [of x] by (auto simp: row_books_def sum_of_def uncorrected_def)
  qed (use fr bk f in auto)
  have fx: "f x \<in> set (usage ?d2)" "u_id (f x) = i" "u_status (f x) = StatusReserved" "rid_of (f x) = rid_of x"
    using x(1,2,4) f [of x] fr by auto
  have keep: "y \<in> set (usage ?d2)" if "y \<in> set (usage d)" "u_id y \<noteq> i" for y
    using that fr by auto
  have af2: "x' \<in> set (usage d)" if "x' \<in> set (usage ?d2)" "u_id x' < i" for x'
    using that f fr by auto
  from alt show ?thesis
  proof (elim disjE exE conjE)
    fix f2 assume f2: "sets_row f2 StatusBilled u_total" and d': "d' = update_usage (\<lambda>x. u_id x = i) f2 ?d2"
    note row2 = money_ok_rowD [OF ok2 fx(1)] and f2D = sets_row_D [OF f2]
    have us: "usage d' = map (\<lambda>y. if u_id y = u_id (f x) then f2 y else y) (usage ?d2)" using fx(2) d' by simp
    have lv2: "live ?d2 (f x)" using fx(3) by (simp add: live_def)
    have "money_ok d'"
    proof (rule money_ok_step [OF ok2 fx(1) us])
      show "entries_ok d'" by (rule entries_ok_cong [OF row2(2)]) (simp_all only: us u_id_image f2D, simp_all add: d')
      show "row_books (live d' (f2 (f x))) (f2 (f x)) (books (key_delta d') (rid_of (f x)))"
        using row2(5) lv2 fx(3) unfolding d' by (auto simp: row_books_def f2D)
    qed (simp_all add: d' f2D)
    moreover have "\<forall>x' \<in> set (usage d'). u_id x' < i \<longrightarrow> x' \<in> set (usage d)"
    proof (intro ballI impI)
      fix x' assume x': "x' \<in> set (usage d')" "u_id x' < i"
      from x'(1) [unfolded us set_map] obtain y where y: "y \<in> set (usage ?d2)"
        "x' = (if u_id y = u_id (f x) then f2 y else y)" by (rule imageE)
      have "u_id y \<noteq> i" using y(2) x'(2) f2D(1) fx(2) by auto
      with y fx(2) have "x' = y" by simp
      with af2 [OF y(1)] x'(2) show "x' \<in> set (usage d)" by simp
    qed
    moreover have "settlements d' = settlements d \<and> next_usage d' = next_usage d \<and> next_settle d' = next_settle d"
      using fr by (simp add: d')
    moreover have "\<forall>y \<in> set (usage d). u_id y \<noteq> i \<longrightarrow> y \<in> set (usage d')"
    proof (intro ballI impI)
      fix y assume y: "y \<in> set (usage d)" "u_id y \<noteq> i"
      from keep [OF this] show "y \<in> set (usage d')"
        unfolding us set_map using y(2) fx(2) by (intro image_eqI [of _ _ y]) simp_all
    qed
    ultimately show ?thesis unfolding adds_from_def by auto
  next
    fix s assume s: "s_id s = next_settle d1" "s_usage s = i" "s_state s = SettleStatePending"
      and d': "d' = ?d2\<lparr>settlements := s # settlements d1, next_settle := next_settle d1 + 1\<rparr>"
    have "i \<in> u_id ` set (usage ?d2)" using fx(1,2) by (metis image_eqI)
    then have "money_ok d'"
      using money_ok_new_entry [OF ok2, of s] s ni fr by (simp add: d' billedAtEstimate_def)
    moreover have "usage d' = usage ?d2" "settlements d' = s # settlements d" "next_usage d' = next_usage d"
      "next_settle d' = next_settle d + 1" "s_id s = next_settle d" using fr s by (simp_all add: d')
    ultimately show ?thesis using keep af2 s(2) unfolding adds_from_def by auto
  qed
qed

lemma free_loop:
  assumes "tx_loop (free_step (Some lg)) ins d = Inr (os, d')" and "money_ok d"
  shows "money_ok d' \<and> usage d' = usage d \<and> next_usage d' = next_usage d \<and> settlements d' = settlements d \<and>
    next_settle d' = next_settle d"
  using assms
proof (induction ins arbitrary: d os)
  case (Cons ri ins)
  from Cons.prems(1) obtain o1 d1 o2 where one: "free_step (Some lg) ri d = Inr (o1, d1)"
    and rest: "tx_loop (free_step (Some lg)) ins d1 = Inr (o2, d')" by (auto simp: err_simps)
  have "money_ok d1 \<and> usage d1 = usage d \<and> next_usage d1 = next_usage d \<and> settlements d1 = settlements d \<and>
      next_settle d1 = next_settle d"
    using one Cons.prems(2) keepsD(1) [OF release_keeps] release_frame
    by (fastforce simp: free_step_def err_simps releasePrechargeTx_def split: if_splits)
  with Cons.IH [OF rest] show ?case by auto
qed simp

lemma reserve_loop:
  assumes "tx_loop (reserve_step env pc (Some lg) cfg now) ins d = Inr (os, d')" and "money_ok d"
    and "quotes_ok pc" and "batch_ok d ins" and low: "\<forall>ri \<in> set ins. n \<le> snd ri"
  shows "money_ok d' \<and> adds_from n d d'"
  using assms(1,2,4,5)
proof (induction ins arbitrary: d os)
  case (Cons ri ins)
  obtain rec i where ri: "ri = (rec, i)" by (cases ri)
  from Cons.prems(1) obtain o1 d1 o2 where one: "reserve_step env pc (Some lg) cfg now ri d = Inr (o1, d1)"
    and rest: "tx_loop (reserve_step env pc (Some lg) cfg now) ins d1 = Inr (o2, d')" by (auto simp: err_simps)
  show ?case
  proof (cases "initialStatus rec = StatusReserved")
    case False
    then have "d1 = d" using one ri by (simp add: reserve_step_def)
    with Cons.IH [OF rest] Cons.prems show ?thesis by (simp add: batch_ok_def)
  next
    case True
    have ni: "n \<le> i" using Cons.prems(4) ri by simp
    with True one ri obtain res where r: "reserveTx env pc (Some lg) cfg now d (rec, i) = Inr (res, d1)"
      by (auto simp: reserve_step_def err_simps)
    from Cons.prems(3) True ri have aw: "awaits d (rec, i)" by (simp add: batch_ok_def)
    note R = reserveTx_money_ok [OF r Cons.prems(2) assms(3) aw]
    have "awaits d1 q" if q: "q \<in> set ins" "initialStatus (fst q) = StatusReserved" for q
    proof -
      have "snd q \<noteq> i" "awaits d q" using Cons.prems(3) q ri by (force simp: batch_ok_def)+
      then show ?thesis using R unfolding awaits_def by (metis insertE subsetD)
    qed
    then have "batch_ok d1 ins" using Cons.prems(3) R by (auto simp: batch_ok_def)
    with Cons.IH [OF rest] R Cons.prems(4) have "money_ok d' \<and> adds_from n d1 d'" by simp
    moreover have "adds_from n d d1" using R ni unfolding adds_from_def by (meson order_trans order_less_le_trans)
    ultimately show ?thesis using adds_from_trans by blast
  qed
qed (simp add: adds_from_frame)

lemma settle_loop:
  assumes "tx_loop (settle_step env pc (Some lg) now) ins d = Inr (os, d')" and "money_ok d" and "quotes_ok pc"
  shows "keeps d d'"
  using assms(1,2)
proof (induction ins arbitrary: d os)
  case (Cons ri ins)
  from Cons.prems(1) obtain o1 d1 o2 where one: "settle_step env pc (Some lg) now ri d = Inr (o1, d1)"
    and rest: "tx_loop (settle_step env pc (Some lg) now) ins d1 = Inr (o2, d')" by (auto simp: err_simps)
  have k: "keeps d d1"
    using one Cons.prems(2) settleTx_keeps [OF _ _ assms(3)]
    by (auto simp: settle_step_def err_simps keeps_refl split: if_splits)
  from Cons.IH [OF rest keepsD(1) [OF k]] show ?case by (rule keeps_trans [OF k])
qed (simp add: keeps_refl)

lemma insertTx_keeps:
  assumes "insertTx env pc (Some lg) cfg now batch Inr (\<lambda>d _. Inr d) settleNow d = Inr (ins, os, d')"
    and ok: "money_ok d" and q: "quotes_ok pc" and pl: "\<forall>rec \<in> set batch. plain (rc_request rec)"
  shows "keeps d d'"
proof -
  from assms(1) obtain inss d1 d2 d3 d4 o1 o2 o3 where
    i: "insert_rows env pc now batch d = Inr (inss, d1)"
    and f: "tx_loop (free_step (Some lg)) inss d1 = Inr (o1, d2)"
    and r: "tx_loop (reserve_step env pc (Some lg) cfg now) inss d2 = Inr (o2, d3)"
    and s: "settle_at_once settleNow env pc (Some lg) now inss d3 = Inr (o3, d4)"
    and e0: "emit_free env now inss d4 = Inr d'"
    by (auto simp: insertTx_def err_simps)
  from e0 have e: "d' = d4 \<or> (\<exists>ev. emit env ev d4 = Inr d')"
    by (auto simp: emit_free_def Let_def split: if_splits)
  note I = insert_rows_money_ok [OF i ok pl]
  then have 1: "money_ok d1" "batch_ok d1 inss" by auto
  note F = free_loop [OF f 1(1)]
  then have 2: "money_ok d2" "batch_ok d2 inss" using batch_ok_frame [OF 1(2)] by auto
  have 3: "money_ok d3 \<and> adds_from (next_usage d) d2 d3"
    by (rule reserve_loop [OF r 2(1) q 2(2)]) (use I in auto)
  have "adds_from (next_usage d) d1 d2" using F by (intro adds_from_frame) auto
  with I 3 have "adds_from (next_usage d) d d3" using adds_from_trans by blast
  then have k3: "keeps d d3" using 3 adds_from_evolves by (simp add: keeps_def)
  have k4: "keeps d3 d4" using s settle_loop [OF _ _ q] 3
    by (auto simp: settle_at_once_def keeps_refl split: if_splits)
  have "keeps d4 d'" if em: "emit env ev d4 = Inr d'" for ev
  proof -
    note E = emit_frame [OF em]
    show ?thesis by (rule keeps_frame [OF keepsD(1) [OF k4] E(1,2,3,4)]) (simp add: E(5))
  qed
  with e k4 have "keeps d4 d'" using keeps_refl keepsD(1) by blast
  with k3 k4 show ?thesis using keeps_trans by blast
qed

end

end
