(* ===== verification/HoldBooks.thy ===== *)
theory HoldBooks
  imports BatchBooks
begin

section \<open>Reservations of a request and its other bookings\<close>

text \<open>
  A precharge is booked under \<open>precharge:<request>\<close> and given back under \<open>precharge_release:<request>\<close>.
  \<open>holds_booked\<close> ties the two keys to the reservation rows; \<open>clear\<close> says in addition that no request
  whose row is free, reserved or billed still holds one. The locale \<open>hold_ledger\<close> adds to the contract of
  \<open>usage_ledger\<close> what the settler relies on for that: a change leaves the reservations alone, a release removes
  the one of its user and request. Its lemmas follow every transaction of the settler, the reconcile loop
  and the administrator.
\<close>

subsection \<open>The six keys of a request\<close>

definition delta_or_0 :: "db \<Rightarrow> string \<Rightarrow> rat" where
  "delta_or_0 d k = (case key_delta d k of None \<Rightarrow> 0 | Some x \<Rightarrow> x)"

definition request_keys :: "string \<Rightarrow> string list" where
  "request_keys rid = [precharge_key rid, release_key rid, usage_key rid, rec_usage_key rid, rec_refund_key rid,
     refund_key rid]"

definition request_entries :: "db \<Rightarrow> string \<Rightarrow> rat" where
  "request_entries d rid = sum_list (map (delta_or_0 d) (request_keys rid))"

definition held_for :: "db \<Rightarrow> string \<Rightarrow> rat" where
  "held_for d rid = (case List.find (\<lambda>p. pr_request p = rid) (precharges d) of None \<Rightarrow> 0 | Some p \<Rightarrow> pr_amount p)"

definition hold_keys :: "string set" where
  "hold_keys = range precharge_key \<union> range release_key"

definition hold_row :: "(string \<Rightarrow> int) \<Rightarrow> (string \<Rightarrow> rat option) \<Rightarrow> precharge_row \<Rightarrow> bool" where
  "hold_row own kd p \<longleftrightarrow> pr_user p = own (pr_request p) \<and>
     kd (precharge_key (pr_request p)) = Some (- pr_amount p) \<and> kd (release_key (pr_request p)) = None"

definition no_hold :: "(string \<Rightarrow> rat option) \<Rightarrow> string \<Rightarrow> bool" where
  "no_hold kd rid \<longleftrightarrow> (kd (precharge_key rid) = None \<and> kd (release_key rid) = None) \<or>
     (\<exists>a. kd (precharge_key rid) = Some (- a) \<and> kd (release_key rid) = Some a)"

definition holds_booked :: "(string \<Rightarrow> int) \<Rightarrow> db \<Rightarrow> bool" where
  "holds_booked own d \<longleftrightarrow> distinct (map pr_request (precharges d)) \<and>
     (\<forall>p \<in> set (precharges d). hold_row own (key_delta d) p) \<and>
     (\<forall>rid. rid \<notin> pr_request ` set (precharges d) \<longrightarrow> no_hold (key_delta d) rid)"

definition settled_rids :: "db \<Rightarrow> string set" where
  "settled_rids d = rid_of ` {x \<in> set (usage d). u_status x \<notin> {StatusPending, StatusFailed}}"

definition clear :: "(string \<Rightarrow> int) \<Rightarrow> db \<Rightarrow> bool" where
  "clear own d \<longleftrightarrow> holds_booked own d \<and> pr_request ` set (precharges d) \<inter> settled_rids d = {}"

lemma hold_keys_foreign: "k \<in> usage_keys \<Longrightarrow> k \<notin> hold_keys"
  by (auto simp: hold_keys_def usage_keys_def release_key_def precharge_key_def usage_key_def rec_usage_key_def
      rec_refund_key_def refund_key_def)

text \<open>The two hold keys of a request cancel what it still holds.\<close>

lemma holds_booked_sum:
  assumes "holds_booked own d"
  shows "delta_or_0 d (precharge_key rid) + delta_or_0 d (release_key rid) = - held_for d rid"
proof (cases "List.find (\<lambda>p. pr_request p = rid) (precharges d)")
  case None
  then have "rid \<notin> pr_request ` set (precharges d)" by (auto simp: find_None_iff)
  with assms have "no_hold (key_delta d) rid" by (simp add: holds_booked_def)
  with None show ?thesis by (auto simp: no_hold_def delta_or_0_def held_for_def)
next
  case (Some p)
  then have "p \<in> set (precharges d)" "pr_request p = rid" by (auto simp: find_Some_iff)
  with assms have "hold_row own (key_delta d) p" by (simp add: holds_booked_def)
  with Some \<open>pr_request p = rid\<close> show ?thesis by (auto simp: hold_row_def delta_or_0_def held_for_def)
qed

lemma request_entries_books:
  "request_entries d rid = delta_or_0 d (precharge_key rid) + delta_or_0 d (release_key rid) - charged d rid"
  by (simp add: request_entries_def request_keys_def charged_def books_def sum_of_def delta_or_0_def)

lemma held_for_none: "rid \<notin> pr_request ` set (precharges d) \<Longrightarrow> held_for d rid = 0"
  by (auto simp: held_for_def find_Some_iff split: option.splits)

subsection \<open>Transactions that at most give reservations back\<close>

definition shrinks :: "(string \<Rightarrow> int) \<Rightarrow> db \<Rightarrow> db \<Rightarrow> bool" where
  "shrinks own d d' \<longleftrightarrow> (holds_booked own d \<longrightarrow> holds_booked own d') \<and> set (precharges d') \<subseteq> set (precharges d)"

lemma shrinks_refl [simp]: "shrinks own d d"
  by (simp add: shrinks_def)

lemma shrinks_trans: "shrinks own a b \<Longrightarrow> shrinks own b c \<Longrightarrow> shrinks own a c"
  by (auto simp: shrinks_def)

lemma shrinks_keys:
  assumes "precharges d' = precharges d" and "\<And>k. k \<in> hold_keys \<Longrightarrow> key_delta d' k = key_delta d k"
  shows "shrinks own d d'"
proof -
  have "key_delta d' (precharge_key r) = key_delta d (precharge_key r)"
    "key_delta d' (release_key r) = key_delta d (release_key r)" for r
    using assms(2) by (simp_all add: hold_keys_def)
  then show ?thesis using assms(1) by (simp add: shrinks_def holds_booked_def hold_row_def no_hold_def)
qed

lemma shrinks_frame: "precharges d' = precharges d \<Longrightarrow> key_delta d' = key_delta d \<Longrightarrow> shrinks own d d'"
  by (rule shrinks_keys) simp_all

lemma precharges_updates [simp]:
  "precharges (update_usage P f d) = precharges d" "precharges (update_entries Q g d) = precharges d"
  by (simp_all add: update_usage_def update_entries_def)

lemma emit_precharges: "emit env ev d = Inr d' \<Longrightarrow> precharges d' = precharges d"
  by (auto dest: emit_Inr)

lemma emit_shrinks: "emit env ev (update_entries Q g (update_usage P f d)) = Inr d' \<Longrightarrow> shrinks own d d'"
  by (rule shrinks_frame) (simp_all add: emit_precharges emit_frame(5))

lemma clear_shrinks: "clear own d \<Longrightarrow> shrinks own d d' \<Longrightarrow> settled_rids d' \<subseteq> settled_rids d \<Longrightarrow> clear own d'"
  unfolding clear_def shrinks_def by blast

lemma clear_settles:
  assumes cl: "clear own d" and hb: "holds_booked own d'" and sub: "set (precharges d') \<subseteq> set (precharges d)"
    and rids: "settled_rids d' \<subseteq> insert rid (settled_rids d)" and no: "rid \<notin> pr_request ` set (precharges d')"
  shows "clear own d'"
proof -
  have "pr_request ` set (precharges d') \<subseteq> pr_request ` set (precharges d)" using sub by (rule image_mono)
  moreover have "pr_request ` set (precharges d) \<inter> settled_rids d = {}" using cl by (simp add: clear_def)
  ultimately have "pr_request ` set (precharges d') \<inter> settled_rids d' = {}" using rids no by blast
  with hb show ?thesis by (simp add: clear_def)
qed

lemma settled_rids_cong: "usage d' = usage d \<Longrightarrow> settled_rids d' = settled_rids d"
  by (simp add: settled_rids_def)

lemma settled_rids_update:
  assumes us: "usage d' = map (\<lambda>y. if P y then f y else y) (usage d)" and f: "\<And>y. rid_of (f y) = rid_of y"
  shows "settled_rids d' \<subseteq> settled_rids d \<union> rid_of ` {y \<in> set (usage d). P y}"
proof
  fix r assume "r \<in> settled_rids d'"
  then obtain y where y: "y \<in> set (usage d)" "r = rid_of (if P y then f y else y)"
    "u_status (if P y then f y else y) \<notin> {StatusPending, StatusFailed}"
    by (auto simp: settled_rids_def us)
  then show "r \<in> settled_rids d \<union> rid_of ` {y \<in> set (usage d). P y}"
    using f by (cases "P y") (auto simp: settled_rids_def)
qed

text \<open>Changing a row that is settled already settles no other request.\<close>

lemma settled_rids_row:
  assumes "rows_ok d" and x: "x \<in> set (usage d)" "u_id x = i" "u_status x \<notin> {StatusPending, StatusFailed}"
    and us: "usage d' = map (\<lambda>y. if u_id y = i then f y else y) (usage d)" and f: "\<And>y. rid_of (f y) = rid_of y"
  shows "settled_rids d' \<subseteq> settled_rids d"
proof
  fix r assume "r \<in> settled_rids d'"
  then obtain y where y: "y \<in> set (usage d)" "r = rid_of (if u_id y = i then f y else y)"
    "u_status (if u_id y = i then f y else y) \<notin> {StatusPending, StatusFailed}"
    by (auto simp: settled_rids_def us)
  show "r \<in> settled_rids d"
  proof (cases "u_id y = i")
    case True
    with assms(1) x y(1) have "y = x" by (auto simp: rows_ok_def distinct_map inj_on_def)
    with True x y(2) f show ?thesis by (auto simp: settled_rids_def)
  next
    case False
    with y show ?thesis by (auto simp: settled_rids_def)
  qed
qed

lemma clear_row:
  assumes cl: "clear own d" and ok: "money_ok d" and sh: "shrinks own d d'"
    and x: "x \<in> set (usage d)" "u_id x = i" "u_status x \<notin> {StatusPending, StatusFailed}"
    and us: "usage d' = map (\<lambda>y. if u_id y = i then f y else y) (usage d)" and f: "sets_row f st amt"
  shows "clear own d'"
proof (rule clear_shrinks [OF cl sh], rule settled_rids_row [OF _ x us])
  show "rows_ok d" using ok by (simp add: money_ok_def)
qed (rule sets_row_D(2) [OF f])

subsection \<open>The contract of the ledger for reservations\<close>

locale hold_ledger = usage_ledger lg for lg +
  fixes own :: "string \<Rightarrow> int"
  assumes apply_holds: "tl_apply lg d ch = Inr (r, d') \<Longrightarrow> precharges d' = precharges d"
    and release_shrinks: "tl_release lg d u rid = Inr (res, d') \<Longrightarrow> shrinks own d d'"
    and release_clears: "tl_release lg d u rid = Inr (res, d') \<Longrightarrow> holds_booked own d \<Longrightarrow> own rid = u \<Longrightarrow>
      rid \<notin> pr_request ` set (precharges d')"
begin

lemma apply_shrinks:
  assumes "tl_apply lg d ch = Inr (r, d')" and "ch_key ch \<in> usage_keys"
  shows "shrinks own d d'"
  by (rule shrinks_keys [OF apply_holds [OF assms(1)]]) (use apply_keys [OF assms(1)] assms(2) hold_keys_foreign in auto)

lemma usage_keysI [simp]:
  "usage_key r \<in> usage_keys" "rec_usage_key r \<in> usage_keys" "rec_refund_key r \<in> usage_keys" "refund_key r \<in> usage_keys"
  by (auto simp: usage_keys_def)

lemma charge_shrinks:
  assumes "charge (Some lg) d p amt = Inr (res, lid, d')"
  shows "shrinks own d d'"
    and "holds_booked own d \<Longrightarrow> own (RequestID p) = UserID p \<Longrightarrow> RequestID p \<notin> pr_request ` set (precharges d')"
proof -
  from assms obtain res1 d1 where rel: "tl_release lg d (UserID p) (RequestID p) = Inr (res1, d1)"
    and rest: "if 0 < amt then \<exists>r. tl_apply lg d1 (charge_change p amt) = Inr (r, d') else d' = d1"
    by (auto simp: charge_def releasePrechargeTx_def err_simps split: if_splits)
  have k: "ch_key (charge_change p amt) \<in> usage_keys" by (simp add: charge_change_def)
  have s1: "shrinks own d1 d'" using rest apply_shrinks [OF _ k] by (auto split: if_splits)
  then show "shrinks own d d'" using release_shrinks [OF rel] shrinks_trans by blast
  have "set (precharges d') \<subseteq> set (precharges d1)" using s1 by (simp add: shrinks_def)
  then show "holds_booked own d \<Longrightarrow> own (RequestID p) = UserID p \<Longrightarrow> RequestID p \<notin> pr_request ` set (precharges d')"
    using release_clears [OF rel] by blast
qed

lemma charge_usage: "charge (Some lg) d p amt = Inr (res, lid, d') \<Longrightarrow> usage d' = usage d"
  by (rule charge_Inr(1) [THEN conjunct1])

text \<open>Settling a row gives the reservation of its request back.\<close>

lemma settleTx_clear:
  assumes "settleTx env pc (Some lg) sk lk d p = Inr (res, d')" and cl: "clear own d"
    and own: "own (RequestID p) = UserID p"
  shows "clear own d'"
  using assms(1)
proof (rule settleTx_parts)
  fix amt lid d1 f
  assume ch: "charge (Some lg) d p amt = Inr (res, lid, d1)" and f: "sets_row f StatusBilled (\<lambda>_. amt)"
    and em: "emit env [recordedEvent p amt StatusBilled] (update_usage (\<lambda>y. rid_of y = RequestID p) f d1) = Inr d'"
  have sh: "shrinks own d1 d'"
    by (rule shrinks_frame) (simp_all add: emit_precharges [OF em] emit_frame(5) [OF em])
  have sub: "set (precharges d') \<subseteq> set (precharges d1)" using sh by (simp add: shrinks_def)
  have hb: "holds_booked own d" using cl by (simp add: clear_def)
  note C = charge_shrinks [OF ch]
  have "usage d' = map (\<lambda>y. if rid_of y = RequestID p then f y else y) (usage d)"
    by (simp add: emit_frame(1) [OF em] charge_usage [OF ch])
  from settled_rids_update [OF this sets_row_D(2) [OF f]]
  have "settled_rids d' \<subseteq> insert (RequestID p) (settled_rids d)" by blast
  moreover have "RequestID p \<notin> pr_request ` set (precharges d')" using C(2) [OF hb own] sub by blast
  moreover have "set (precharges d') \<subseteq> set (precharges d)" using C(1) sub by (auto simp: shrinks_def)
  moreover have "holds_booked own d'" using C(1) sh hb by (simp add: shrinks_def)
  ultimately show "clear own d'" by (intro clear_settles [OF cl])
qed

text \<open>The outcomes of the reconcile loop and the administrator's refund.\<close>

lemma apply_diff_shrinks: "apply_diff lg d p diff = Inr (res, d') \<Longrightarrow> shrinks own d d' \<and> usage d' = usage d"
  using apply_frame by (auto simp: apply_diff_def err_simps recon_change_def split: if_splits intro: apply_shrinks)

lemma settleReconciledTx_clear:
  assumes "settleReconciledTx env lg d e p reserved (amt, detail, hash) = Inr (res, d')"
    and cl: "clear own d" and ok: "money_ok d"
  shows "clear own d'"
  using assms(1)
proof (rule settleReconciledTx_parts)
  fix u d1 f g
  assume gd: "outcome_guard env d e = Inr u" and df: "apply_diff lg d p (amt - reserved) = Inr (res, d1)"
    and f: "sets_row f StatusBilled (\<lambda>_. amt)"
    and em: "emit env [recordedEvent p amt StatusBilled]
      (update_entries (\<lambda>t. s_id t = e_id e) g (update_usage (\<lambda>y. u_id y = e_usage e) f d1)) = Inr d'"
  from gd obtain x where x: "x \<in> set (usage d)" "u_id x = e_usage e" "u_status x = StatusReserved"
    by (rule outcome_guard_Inr)
  show "clear own d'"
    by (rule clear_row [OF cl ok _ x(1,2) _ _ f])
      (use apply_diff_shrinks [OF df] emit_shrinks [OF em] shrinks_trans x(3) in
        \<open>auto simp: emit_frame(1) [OF em]\<close>)
qed

lemma refundTx_clear:
  assumes "refundTx env lg d e row reason = Inr (res, d')" and cl: "clear own d" and ok: "money_ok d"
  shows "clear own d'"
  using assms(1)
proof (rule refundTx_parts)
  fix u d1 f g
  assume gd: "outcome_guard env d e = Inr u"
    and ap: "if 0 < rs_total row then \<exists>r. tl_apply lg d (recon_change (rs_p row) (rs_total row) True
       ''reconciled: the upstream work failed'') = Inr (r, d1) else d1 = d"
    and f: "sets_row f StatusFree (\<lambda>_. 0)"
    and em: "emit env [recordedEvent (rs_p row) 0 StatusFree]
      (update_entries (\<lambda>t. s_id t = e_id e) g (update_usage (\<lambda>y. u_id y = e_usage e) f d1)) = Inr d'"
  from gd obtain x where x: "x \<in> set (usage d)" "u_id x = e_usage e" "u_status x = StatusReserved"
    by (rule outcome_guard_Inr)
  have "shrinks own d d1 \<and> usage d1 = usage d"
    using ap apply_frame by (auto simp: recon_change_def split: if_splits intro: apply_shrinks)
  then show "clear own d'"
    by (intro clear_row [OF cl ok _ x(1,2) _ _ f])
      (use emit_shrinks [OF em] shrinks_trans x(3) in \<open>auto simp: emit_frame(1) [OF em]\<close>)
qed

lemma refundAbandonedTx_clear:
  assumes "refundAbandonedTx env lg operator note d i = Inr (res, d')" and cl: "clear own d" and ok: "money_ok d"
  shows "clear own d'"
proof -
  from assms(1) obtain x s msg u d1 nt f Q g where lk: "lockSettlement env d i = Inr (x, s)" "at_estimate x s msg = Inr u"
    and ap: "tl_apply lg d (manual_refund x operator nt) = Inr (res, d1)"
    and d': "d' = update_entries Q g (update_usage (\<lambda>y. u_id y = i) f d1)" and f: "sets_row f StatusFree (\<lambda>_. 0)"
  proof -
    let ?note = "if note = [] then ''reservation refunded by an administrator'' else note"
    from assms(1) obtain x s msg u d1 where *: "lockSettlement env d i = Inr (x, s)" "at_estimate x s msg = Inr u"
      "tl_apply lg d (manual_refund x operator ?note) = Inr (res, d1)"
      "d' = update_entries (\<lambda>t. s_id t = s_id s)
              (\<lambda>t. t\<lparr>s_error := trunc (''refunded by an administrator: '' @ ?note) 2000\<rparr>)
            (update_usage (\<lambda>y. u_id y = i) (\<lambda>y. y\<lparr>u_total := 0, u_status := StatusFree,
              u_anomalies := merge_json (u_anomalies y) [(''reconcile'', ''refunded'')]\<rparr>) d1)"
      by (auto simp: refundAbandonedTx_def err_simps Let_def split: if_splits)
    show thesis by (rule that [OF *]) (simp add: sets_row_def rid_of_def)
  qed
  note L = lockSettlement_Inr [OF lk]
  have "shrinks own d d1" by (rule apply_shrinks [OF ap]) (simp add: manual_refund_def)
  moreover have "shrinks own d1 d'" unfolding d' by (rule shrinks_frame) simp_all
  ultimately have "shrinks own d d'" by (rule shrinks_trans)
  then show ?thesis
    by (rule clear_row [OF cl ok _ L(1,2) _ _ f]) (simp_all add: L(3) d' apply_frame [OF ap])
qed

end

subsection \<open>Transactions that move no money\<close>

lemma clear_frame:
  "clear own d \<Longrightarrow> precharges d' = precharges d \<Longrightarrow> key_delta d' = key_delta d \<Longrightarrow> settled_rids d' \<subseteq> settled_rids d \<Longrightarrow>
   clear own d'"
  by (rule clear_shrinks [OF _ shrinks_frame])

lemma clear_entries: "clear own d \<Longrightarrow> clear own (update_entries P g d)"
  by (erule clear_frame) (simp_all add: settled_rids_def)

lemma keepEstimateTx_clear:
  assumes "keepEstimateTx env d e row state marker note cnt = Inr d'" and cl: "clear own d" and ok: "money_ok d"
  shows "clear own d'"
proof -
  from assms(1) obtain u where gd: "outcome_guard env d e = Inr u"
    by (auto simp: keepEstimateTx_def err_simps)
  from assms(1) obtain f g where em: "emit env [recordedEvent (rs_p row) (rs_total row) StatusBilled]
      (update_entries (\<lambda>t. s_id t = e_id e) g (update_usage (\<lambda>y. u_id y = e_usage e) f d)) = Inr d'"
    and f: "sets_row f StatusBilled u_total"
    by (auto simp: keepEstimateTx_def err_simps Let_def sets_row_def rid_of_def intro: that)
  from gd obtain x where x: "x \<in> set (usage d)" "u_id x = e_usage e" "u_status x = StatusReserved"
    by (rule outcome_guard_Inr)
  show ?thesis
    by (rule clear_row [OF cl ok emit_shrinks [OF em] x(1,2) _ _ f]) (simp_all add: x(3) emit_frame(1) [OF em])
qed

lemma retryReconcileTx_clear:
  assumes "retryReconcileTx env cfg now d i = Inr d'" and cl: "clear own d" and ok: "money_ok d"
  shows "clear own d'"
proof -
  from assms(1) obtain x s msg u f P g where lk: "lockSettlement env d i = Inr (x, s)" "at_estimate x s msg = Inr u"
    and d': "d' = update_entries P g (update_usage (\<lambda>y. u_id y = i) f d)" and f: "sets_row f StatusReserved u_total"
    by (auto simp: retryReconcileTx_def err_simps sets_row_def rid_of_def intro: that)
  note L = lockSettlement_Inr [OF lk]
  have "shrinks own d d'" unfolding d' by (rule shrinks_frame) simp_all
  then show ?thesis by (rule clear_row [OF cl ok _ L(1,2) _ _ f]) (simp_all add: L(3) d')
qed

lemma markFailed_clear: "clear own d \<Longrightarrow> clear own (markFailed env d p)"
proof (rule clear_frame)
  show "settled_rids (markFailed env d p) \<subseteq> settled_rids d"
    by (auto simp: settled_rids_def markFailed_def split: if_splits)
qed (simp_all add: markFailed_def)

lemma rescheduleAttempt_clear: "clear own d \<Longrightarrow> clear own (rescheduleAttempt env cfg now d e want err cnt)"
  by (auto simp: rescheduleAttempt_def rescheduleTx_def Let_def err_simps intro: clear_entries split: sum.splits if_splits)

lemma closeEntry_clear: "clear own d \<Longrightarrow> clear own (closeEntry env d e st note)"
  by (simp add: closeEntry_def clear_entries)

lemma claimDue_clear: "claimDue env locked now limit d = Inr (es, d') \<Longrightarrow> clear own d \<Longrightarrow> clear own d'"
  by (auto simp: claimDue_def err_simps Let_def intro: clear_entries)

subsection \<open>Inserting a batch\<close>

definition recs_rid :: "usage_rec \<times> int \<Rightarrow> string" where
  "recs_rid ri = trunc (rc_request (fst ri)) 64"

text \<open>The records of a batch belong to the user of their request, and their request ids fit the column.\<close>

definition recs_own :: "(string \<Rightarrow> int) \<Rightarrow> usage_rec list \<Rightarrow> bool" where
  "recs_own own recs \<longleftrightarrow> list_all (\<lambda>rec. own (rc_request rec) = rc_user rec \<and> length (rc_request rec) \<le> 64) recs"

lemma insert_rows_usage:
  assumes "insert_rows env pc now recs d = Inr (ins, d')"
  shows "usage d' = rev (map (\<lambda>ri. row_of pc now (fst ri) (snd ri)) ins) @ usage d \<and> precharges d' = precharges d \<and>
    key_delta d' = key_delta d \<and> set (map fst ins) \<subseteq> set recs"
  using assms
proof (induction recs arbitrary: d ins)
  case (Cons rec recs)
  from Cons.prems obtain oi d1 ins1 where one: "insert_one env pc now d rec = Inr (oi, d1)"
    and rest: "insert_rows env pc now recs d1 = Inr (ins1, d')"
    and ins: "ins = (case oi of None \<Rightarrow> [] | Some i \<Rightarrow> [(rec, i)]) @ ins1"
    by (auto simp: err_simps)
  from one have "(oi = None \<and> d1 = d) \<or> (\<exists>i n. oi = Some i \<and> d1 = d\<lparr>usage := row_of pc now rec i # usage d, next_usage := n\<rparr>)"
    by (auto simp: insert_one_def err_simps split: if_splits)
  with Cons.IH [OF rest] show ?case by (auto simp: ins)
qed simp

text \<open>The requests of a batch that are settled by it and still hold a reservation are among those not yet visited.\<close>

definition clear_but :: "(string \<Rightarrow> int) \<Rightarrow> string set \<Rightarrow> db \<Rightarrow> bool" where
  "clear_but own R d \<longleftrightarrow> holds_booked own d \<and> pr_request ` set (precharges d) \<inter> settled_rids d \<subseteq> R"

lemma clear_but_mono: "clear_but own R d \<Longrightarrow> R \<subseteq> S \<Longrightarrow> clear_but own S d"
  by (auto simp: clear_but_def)

lemma clear_but_step:
  assumes cl: "clear_but own (insert rid R) d" and sh: "shrinks own d d'"
    and rids: "settled_rids d' \<subseteq> insert rid (settled_rids d)" and no: "rid \<notin> pr_request ` set (precharges d')"
  shows "clear_but own R d'"
proof -
  have hb: "holds_booked own d'" using cl sh by (simp add: clear_but_def shrinks_def)
  have "pr_request ` set (precharges d') \<subseteq> pr_request ` set (precharges d)"
    using sh unfolding shrinks_def by (intro image_mono) simp
  moreover have "pr_request ` set (precharges d) \<inter> settled_rids d \<subseteq> insert rid R" using cl by (simp add: clear_but_def)
  ultimately have "pr_request ` set (precharges d') \<inter> settled_rids d' \<subseteq> R" using rids no by blast
  with hb show ?thesis by (simp add: clear_but_def)
qed

definition status_rids :: "billing_status \<Rightarrow> (usage_rec \<times> int) list \<Rightarrow> string set" where
  "status_rids st ins = recs_rid ` {ri \<in> set ins. initialStatus (fst ri) = st}"

lemma status_rids_simps [simp]:
  "status_rids st [] = {}"
  "status_rids st (ri # ins) = (if initialStatus (fst ri) = st then insert (recs_rid ri) (status_rids st ins) else status_rids st ins)"
  by (auto simp: status_rids_def)

lemma insert_rows_clear:
  assumes ir: "insert_rows env pc now recs d = Inr (ins, d')" and cl: "clear own d"
  shows "clear_but own (status_rids StatusFree ins \<union> status_rids StatusReserved ins) d'"
proof -
  note I = insert_rows_usage [OF ir]
  have "shrinks own d d'" using I by (intro shrinks_frame) auto
  then have hb: "holds_booked own d'" using cl by (simp add: shrinks_def clear_def)
  have "settled_rids d' \<subseteq> settled_rids d \<union> (status_rids StatusFree ins \<union> status_rids StatusReserved ins)"
  proof
    fix r assume "r \<in> settled_rids d'"
    then obtain y where y: "y \<in> set (usage d')" "r = rid_of y" "u_status y \<notin> {StatusPending, StatusFailed}"
      by (auto simp: settled_rids_def)
    from y(1) I consider "y \<in> set (usage d)" | ri where "ri \<in> set ins" "y = row_of pc now (fst ri) (snd ri)" by auto
    then show "r \<in> settled_rids d \<union> (status_rids StatusFree ins \<union> status_rids StatusReserved ins)"
    proof cases
      case 1
      with y show ?thesis by (auto simp: settled_rids_def)
    next
      case 2
      with y initialStatus_cases [of "fst ri"] show ?thesis by (auto simp: status_rids_def recs_rid_def)
    qed
  qed
  moreover have "pr_request ` set (precharges d') \<inter> settled_rids d = {}" using cl I by (simp add: clear_def)
  ultimately have "pr_request ` set (precharges d') \<inter> settled_rids d' \<subseteq> status_rids StatusFree ins \<union> status_rids StatusReserved ins"
    by blast
  with hb show ?thesis by (simp add: clear_but_def)
qed

text \<open>The row of an inserted record carries its request id; reserving changes neither.\<close>

definition named :: "db \<Rightarrow> usage_rec \<times> int \<Rightarrow> bool" where
  "named d ri \<longleftrightarrow> rid_of ` {y \<in> set (usage d). u_id y = snd ri} \<subseteq> {recs_rid ri}"

definition ids_of :: "db \<Rightarrow> (int \<times> string) list" where
  "ids_of d = map (\<lambda>y. (u_id y, rid_of y)) (usage d)"

lemma named_ids:
  assumes "ids_of d' = ids_of d" and "named d ri"
  shows "named d' ri"
proof -
  have "set (ids_of d') = set (ids_of d)" using assms(1) by simp
  then have *: "(\<lambda>y. (u_id y, rid_of y)) ` set (usage d') = (\<lambda>y. (u_id y, rid_of y)) ` set (usage d)"
    by (simp add: ids_of_def)
  have "rid_of y = recs_rid ri" if y: "y \<in> set (usage d')" "u_id y = snd ri" for y
  proof -
    have "(u_id y, rid_of y) \<in> (\<lambda>y. (u_id y, rid_of y)) ` set (usage d)" unfolding * [symmetric] using y(1) by (rule imageI)
    then obtain z where "z \<in> set (usage d)" "u_id z = u_id y" "rid_of z = rid_of y" by auto
    with assms(2) y(2) show ?thesis by (auto simp: named_def)
  qed
  then show ?thesis by (auto simp: named_def)
qed

lemma insert_rows_named:
  assumes ir: "insert_rows env pc now recs d = Inr (ins, d')" and rows: "rows_ok d'"
  shows "list_all (named d') ins"
proof -
  have "rid_of y = recs_rid ri" if ri: "ri \<in> set ins" and y: "y \<in> set (usage d')" "u_id y = snd ri" for ri y
  proof -
    have "row_of pc now (fst ri) (snd ri) \<in> set (usage d')" using insert_rows_usage [OF ir] ri by force
    with rows y have "y = row_of pc now (fst ri) (snd ri)"
      unfolding rows_ok_def distinct_map by (metis (no_types, lifting) inj_onD row_of_simps(1))
    then show ?thesis by (simp add: recs_rid_def)
  qed
  then show ?thesis by (auto simp: list_all_iff named_def)
qed

context hold_ledger
begin

lemma free_loop_clear:
  assumes "tx_loop (free_step (Some lg)) ins d = Inr (os, d')" and "clear_but own (status_rids StatusFree ins \<union> S) d"
    and "recs_own own (map fst ins)"
  shows "clear_but own S d' \<and> ids_of d' = ids_of d"
  using assms
proof (induction ins arbitrary: d os)
  case (Cons ri ins)
  from Cons.prems(1) obtain o1 d1 o2 where one: "free_step (Some lg) ri d = Inr (o1, d1)"
    and rest: "tx_loop (free_step (Some lg)) ins d1 = Inr (o2, d')" by (auto simp: err_simps)
  have ow: "own (rc_request (fst ri)) = rc_user (fst ri)" "recs_rid ri = rc_request (fst ri)"
    "recs_own own (map fst ins)"
    using Cons.prems(3) by (simp_all add: recs_own_def recs_rid_def trunc_def)
  have "clear_but own (status_rids StatusFree ins \<union> S) d1 \<and> ids_of d1 = ids_of d"
  proof (cases "initialStatus (fst ri) = StatusFree")
    case False
    with one Cons.prems(2) show ?thesis by (simp add: free_step_def)
  next
    case True
    with one obtain res where rel: "tl_release lg d (rc_user (fst ri)) (rc_request (fst ri)) = Inr (res, d1)"
      by (auto simp: free_step_def releasePrechargeTx_def err_simps)
    have cl: "clear_but own (insert (recs_rid ri) (status_rids StatusFree ins \<union> S)) d"
      using Cons.prems(2) True by simp
    have us: "usage d1 = usage d" using release_frame [OF rel] by simp
    have "recs_rid ri \<notin> pr_request ` set (precharges d1)"
      using release_clears [OF rel _ ow(1)] cl ow(2) by (simp add: clear_but_def)
    from clear_but_step [OF cl release_shrinks [OF rel] _ this] settled_rids_cong [OF us] us
    show ?thesis by (auto simp: ids_of_def)
  qed
  with Cons.IH [OF rest _ ow(3)] show ?case by simp
qed (auto simp: clear_but_def)

lemma reserveTx_clear:
  assumes rs: "reserveTx env pc (Some lg) cfg now d (rec, i) = Inr (res, d')"
    and cl: "clear_but own (insert (recs_rid (rec, i)) R) d" and nm: "named d (rec, i)"
    and ow: "own (recs_rid (rec, i)) = rc_user rec"
  shows "clear_but own R d' \<and> ids_of d' = ids_of d"
  using rs
proof (rule reserveTx_parts)
  fix amt lid d1 f
  assume ch: "charge (Some lg) d (fromRecord now rec) amt = Inr (res, lid, d1)"
    and f: "\<And>y. u_id (f y) = u_id y \<and> rid_of (f y) = rid_of y \<and> u_status (f y) = u_status y \<and> u_total (f y) = amt"
    and alt: "(\<exists>f2. sets_row f2 StatusBilled u_total \<and> d' = update_usage (\<lambda>x. u_id x = i) f2 (update_usage (\<lambda>x. u_id x = i) f d1)) \<or>
     (\<exists>s. s_id s = next_settle d1 \<and> s_usage s = i \<and> s_state s = SettleStatePending \<and>
        d' = (update_usage (\<lambda>x. u_id x = i) f d1)\<lparr>settlements := s # settlements d1, next_settle := next_settle d1 + 1\<rparr>)"
  have p: "RequestID (fromRecord now rec) = recs_rid (rec, i)" "UserID (fromRecord now rec) = rc_user rec"
    by (simp_all add: fromRecord_def recs_rid_def)
  from alt obtain h where h: "\<And>y. u_id (h y) = u_id y" "\<And>y. rid_of (h y) = rid_of y"
    and us: "usage d' = map (\<lambda>y. if u_id y = i then h y else y) (usage d1)" and fr: "precharges d' = precharges d1" "key_delta d' = key_delta d1"
  proof (elim disjE exE conjE)
    fix f2 assume f2: "sets_row f2 StatusBilled u_total"
      and d': "d' = update_usage (\<lambda>x. u_id x = i) f2 (update_usage (\<lambda>x. u_id x = i) f d1)"
    show thesis by (rule that [of "\<lambda>y. f2 (f y)"]) (use f sets_row_D(1,2) [OF f2] in \<open>auto simp: d'\<close>)
  qed (rule that [of f], use f in auto)
  have us0: "usage d' = map (\<lambda>y. if u_id y = i then h y else y) (usage d)" using us charge_usage [OF ch] by simp
  have sh: "shrinks own d d'" using charge_shrinks(1) [OF ch] shrinks_frame [OF fr] by (rule shrinks_trans)
  have "rid_of ` {y \<in> set (usage d). u_id y = i} \<subseteq> {recs_rid (rec, i)}" using nm by (simp add: named_def)
  with settled_rids_update [OF us0 h(2)] have "settled_rids d' \<subseteq> insert (recs_rid (rec, i)) (settled_rids d)" by blast
  moreover have "recs_rid (rec, i) \<notin> pr_request ` set (precharges d')"
    using charge_shrinks(2) [OF ch] cl ow p fr by (simp add: clear_but_def)
  ultimately have "clear_but own R d'" by (rule clear_but_step [OF cl sh])
  moreover have "ids_of d' = ids_of d" by (auto simp: ids_of_def us0 h)
  ultimately show ?thesis by simp
qed

lemma reserve_loop_clear:
  assumes "tx_loop (reserve_step env pc (Some lg) cfg now) ins d = Inr (os, d')"
    and "clear_but own (status_rids StatusReserved ins) d" and "recs_own own (map fst ins)" and "list_all (named d) ins"
  shows "clear_but own {} d'"
  using assms
proof (induction ins arbitrary: d os)
  case (Cons ri ins)
  obtain rec i where ri: "ri = (rec, i)" by (cases ri)
  from Cons.prems(1) obtain o1 d1 o2 where one: "reserve_step env pc (Some lg) cfg now ri d = Inr (o1, d1)"
    and rest: "tx_loop (reserve_step env pc (Some lg) cfg now) ins d1 = Inr (o2, d')" by (auto simp: err_simps)
  have ow: "own (recs_rid ri) = rc_user rec" "recs_own own (map fst ins)"
    using Cons.prems(3) ri by (simp_all add: recs_own_def recs_rid_def trunc_def)
  have "clear_but own (status_rids StatusReserved ins) d1 \<and> ids_of d1 = ids_of d"
  proof (cases "initialStatus rec = StatusReserved")
    case False
    with one ri Cons.prems(2) show ?thesis by (simp add: reserve_step_def)
  next
    case True
    with one ri obtain res where r: "reserveTx env pc (Some lg) cfg now d (rec, i) = Inr (res, d1)"
      by (auto simp: reserve_step_def err_simps)
    show ?thesis
      by (rule reserveTx_clear [OF r]) (use Cons.prems(2,4) ow True ri in simp_all)
  qed
  with Cons.IH [OF rest _ ow(2)] Cons.prems(4) named_ids show ?case by (auto simp: list_all_iff)
qed simp

lemma settle_loop_clear:
  assumes "tx_loop (settle_step env pc (Some lg) now) ins d = Inr (os, d')" and "clear own d"
    and "recs_own own (map fst ins)"
  shows "clear own d'"
  using assms
proof (induction ins arbitrary: d os)
  case (Cons ri ins)
  from Cons.prems(1) obtain o1 d1 o2 where one: "settle_step env pc (Some lg) now ri d = Inr (o1, d1)"
    and rest: "tx_loop (settle_step env pc (Some lg) now) ins d1 = Inr (o2, d')" by (auto simp: err_simps)
  have ow: "own (RequestID (fromRecord now (fst ri))) = UserID (fromRecord now (fst ri))" "recs_own own (map fst ins)"
    using Cons.prems(3) by (simp_all add: recs_own_def fromRecord_def trunc_def)
  have "clear own d1" using one Cons.prems(2) settleTx_clear [OF _ _ ow(1)]
    by (auto simp: settle_step_def err_simps split: if_splits)
  with Cons.IH [OF rest _ ow(2)] show ?case by simp
qed simp

lemma insertTx_clear:
  assumes "insertTx env pc (Some lg) cfg now batch Inr (\<lambda>d _. Inr d) settleNow d = Inr (ins, os, d')"
    and cl: "clear own d" and ok: "money_ok d" and pl: "\<forall>rec \<in> set batch. plain (rc_request rec)"
    and ow: "recs_own own batch"
  shows "clear own d'"
proof -
  from assms(1) obtain inss d1 d2 d3 d4 o1 o2 o3 where
    i: "insert_rows env pc now batch d = Inr (inss, d1)"
    and f: "tx_loop (free_step (Some lg)) inss d1 = Inr (o1, d2)"
    and r: "tx_loop (reserve_step env pc (Some lg) cfg now) inss d2 = Inr (o2, d3)"
    and s: "settle_at_once settleNow env pc (Some lg) now inss d3 = Inr (o3, d4)"
    and e: "emit_free env now inss d4 = Inr d'"
    by (auto simp: insertTx_def err_simps)
  have ow1: "recs_own own (map fst inss)"
    using insert_rows_usage [OF i] ow unfolding recs_own_def list_all_iff by blast
  have "money_ok d1" using insert_rows_money_ok [OF i ok pl] by simp
  then have n1: "list_all (named d1) inss" using insert_rows_named [OF i] by (simp add: money_ok_def)
  from free_loop_clear [OF f insert_rows_clear [OF i cl] ow1]
  have 2: "clear_but own (status_rids StatusReserved inss) d2" "ids_of d2 = ids_of d1" by simp_all
  have "list_all (named d2) inss" using n1 named_ids [OF 2(2)] by (auto simp: list_all_iff)
  from reserve_loop_clear [OF r 2(1) ow1 this] have 3: "clear own d3" by (simp add: clear_but_def clear_def)
  have 4: "clear own d4" using s settle_loop_clear [OF _ 3 ow1] 3
    by (auto simp: settle_at_once_def split: if_splits)
  from e have "d' = d4 \<or> (\<exists>ev. emit env ev d4 = Inr d')"
    by (auto simp: emit_free_def Let_def split: if_splits)
  then show ?thesis
  proof (elim disjE exE)
    fix ev assume em: "emit env ev d4 = Inr d'"
    show "clear own d'"
      by (rule clear_frame [OF 4]) (simp_all add: emit_precharges [OF em] emit_frame(5) [OF em] settled_rids_cong [OF emit_frame(1) [OF em]])
  qed (use 4 in simp)
qed

end

end
