(* ===== verification/MoneyModel.thy ===== *)
theory MoneyModel
  imports HoldBooks
begin

section \<open>The money of a request under every interleaving\<close>

text \<open>
  The ledger and precharge models satisfy the settler's contract; then \<open>mstep\<close> lets workers, the
  retry loop, reconcile sweeps of several nodes (each acting on entries and rows it read earlier),
  administrators, precharges and any other ledger client take turns, one database transaction at a
  time. In every reachable state a request is charged exactly what its row says.
\<close>

subsection \<open>The contract holds for the models\<close>

definition solo :: "env \<Rightarrow> env" where
  "solo env = env\<lparr>env_race := None\<rparr>"

lemma solo_race [simp]: "env_race (solo env) = None"
  by (simp add: solo_def)

lemma release_key_foreign: "release_key rid \<notin> usage_keys" "precharge_key rid \<notin> usage_keys"
  by (auto simp: usage_keys_def release_key_def precharge_key_def usage_key_def rec_usage_key_def
      rec_refund_key_def refund_key_def)

lemma ApplyTx_key_delta:
  assumes "ApplyTx env d ch = Inr (r, d')" and "env_race env = None"
  shows "key_delta d' = (key_delta d)(ch_key ch \<mapsto> change_delta ch)"
proof -
  have rd: "change_delta (rounded env ch) = change_delta ch" "ch_key (rounded env ch) = ch_key ch"
    using ApplyTx_validates [OF assms(1)] by (simp_all add: rounded_def change_delta_def)
  show ?thesis
    using assms
  proof (cases rule: ApplyTx_success)
    case (Dup dup)
    then have "r_delta dup = change_delta ch" by (auto simp: reuse_def rd split: if_splits)
    with Dup show ?thesis by (auto simp: key_delta_def fun_eq_iff findLedger_def)
  next
    case New
    then show ?thesis by (auto simp: key_delta_def fun_eq_iff findLedger_def dup_result_def rd)
  qed
qed

lemma key_delta_delete [simp]: "key_delta (delete_precharge u rid d) = key_delta d"
  by (rule key_delta_ledger) (simp add: delete_precharge_def)

lemma ReleasePrechargeTx_key_delta:
  assumes "ReleasePrechargeTx env d u rid = Inr (res, d')" and "env_race env = None" and "k \<in> usage_keys"
  shows "key_delta d' k = key_delta d k"
  using assms(1)
proof (cases rule: ReleasePrechargeTx_success)
  case (Released p r)
  with ApplyTx_key_delta [OF Released(3) assms(2)] assms(3) release_key_foreign show ?thesis by auto
qed simp

lemma ReleasePrechargeTx_frame:
  assumes "ReleasePrechargeTx env d u rid = Inr (res, d')" and "env_race env = None"
  shows "usage d' = usage d \<and> next_usage d' = next_usage d \<and> settlements d' = settlements d \<and> next_settle d' = next_settle d"
  using assms(1)
proof (cases rule: ReleasePrechargeTx_success)
  case (Released p r)
  with ApplyTx_frame [OF Released(3) assms(2)] show ?thesis by (simp add: delete_precharge_def)
qed simp

text \<open>What a release does to the reservations and their two keys.\<close>

lemma ReleasePrechargeTx_holds:
  assumes rel: "ReleasePrechargeTx env d u rid = Inr (res, d')" and race: "env_race env = None"
  shows "shrinks own d d'"
    and "holds_booked own d \<Longrightarrow> own rid = u \<Longrightarrow> rid \<notin> pr_request ` set (precharges d')"
proof -
  note P = ReleasePrechargeTx_precharges [OF rel race, THEN conjunct2]
  have hb: "holds_booked own d'" if ok: "holds_booked own d"
    using rel
  proof (cases rule: ReleasePrechargeTx_success)
    case Gone
    with ok show ?thesis by simp
  next
    case (Released p r)
    note p = find_precharge_SomeD [OF Released(1)]
    have kd: "key_delta d' = (key_delta d)(release_key rid \<mapsto> pr_amount p)"
      using ApplyTx_key_delta [OF Released(3) race] by (simp add: release_change_def change_delta_def)
    have dist: "distinct (map pr_request (precharges d))" using ok by (simp add: holds_booked_def)
    have left: "q \<in> set (precharges d) \<and> pr_request q \<noteq> rid" if "q \<in> set (precharges d')" for q
      using that p dist by (auto simp: P distinct_map inj_on_def)
    have "distinct (map pr_request (precharges d'))" using dist by (simp add: P distinct_map_filter)
    moreover have "hold_row own (key_delta d') q" if "q \<in> set (precharges d')" for q
      using left [OF that] ok by (auto simp: holds_booked_def hold_row_def kd)
    moreover have "no_hold (key_delta d') r" if r: "r \<notin> pr_request ` set (precharges d')" for r
    proof (cases "r = rid")
      case True
      have "hold_row own (key_delta d) p" using ok p by (simp add: holds_booked_def)
      then have "key_delta d' (precharge_key rid) = Some (- pr_amount p)" "key_delta d' (release_key rid) = Some (pr_amount p)"
        using p by (simp_all add: hold_row_def kd)
      with True show ?thesis by (simp add: no_hold_def)
    next
      case False
      with r have "r \<notin> pr_request ` set (precharges d)" by (force simp: P)
      with ok have "no_hold (key_delta d) r" by (simp add: holds_booked_def)
      with False show ?thesis by (simp add: no_hold_def kd)
    qed
    ultimately show ?thesis by (simp add: holds_booked_def)
  qed
  moreover have "set (precharges d') \<subseteq> set (precharges d)" by (auto simp: P)
  ultimately show "shrinks own d d'" by (simp add: shrinks_def)
  assume "holds_booked own d" "own rid = u"
  then show "rid \<notin> pr_request ` set (precharges d')" by (auto simp: P holds_booked_def hold_row_def)
qed

interpretation ul: hold_ledger "billing_ledger (solo env)" own for env own
proof
  fix d ch r d'
  assume "tl_apply (billing_ledger (solo env)) d ch = Inr (r, d')"
  then have ap: "ApplyTx (solo env) d ch = Inr (r, d')" by (simp add: billing_ledger_def)
  show "key_delta d' = (key_delta d)(ch_key ch \<mapsto> change_delta ch)"
    by (rule ApplyTx_key_delta [OF ap solo_race])
  show "usage d' = usage d \<and> next_usage d' = next_usage d \<and> settlements d' = settlements d \<and> next_settle d' = next_settle d"
    using ApplyTx_frame [OF ap solo_race] by simp
  show "precharges d' = precharges d" using ApplyTx_frame [OF ap solo_race] by simp
next
  fix d u rid res d' k
  assume "tl_release (billing_ledger (solo env)) d u rid = Inr (res, d')" and k: "k \<in> usage_keys"
  then have "ReleasePrechargeTx (solo env) d u rid = Inr (res, d')" by (simp add: billing_ledger_def)
  then show "key_delta d' k = key_delta d k"
    using ReleasePrechargeTx_key_delta [OF _ solo_race k] by simp
next
  fix d u rid res d'
  assume "tl_release (billing_ledger (solo env)) d u rid = Inr (res, d')"
  then have rel: "ReleasePrechargeTx (solo env) d u rid = Inr (res, d')" by (simp add: billing_ledger_def)
  then show "usage d' = usage d \<and> next_usage d' = next_usage d \<and> settlements d' = settlements d \<and> next_settle d' = next_settle d"
    using ReleasePrechargeTx_frame [OF _ solo_race] by simp
  show "shrinks own d d'" by (rule ReleasePrechargeTx_holds(1) [OF rel solo_race])
  show "holds_booked own d \<Longrightarrow> own rid = u \<Longrightarrow> rid \<notin> pr_request ` set (precharges d')"
    by (rule ReleasePrechargeTx_holds(2) [OF rel solo_race])
qed

subsection \<open>Other clients of the ledger\<close>

lemma ApplyTx_foreign_keeps:
  assumes "ApplyTx env d ch = Inr (r, d')" and "env_race env = None" and "ch_key ch \<notin> usage_keys" and "money_ok d"
  shows "keeps d d'"
  using ApplyTx_frame [OF assms(1,2)] ApplyTx_key_delta [OF assms(1,2)] assms(3)
  by (intro keeps_frame [OF assms(4)]) auto

lemma money_ok_precharges [simp]: "money_ok (d\<lparr>precharges := ps\<rparr>) = money_ok d"
proof -
  have "key_delta (d\<lparr>precharges := ps\<rparr>) = key_delta d" by (rule key_delta_ledger) simp
  then show ?thesis by (simp add: money_ok_def rows_ok_def entries_ok_def live_def)
qed

lemma touch_keeps: "money_ok d \<Longrightarrow> keeps d (touch u d)"
  by (rule keeps_frame) (simp_all add: key_delta_def)

lemma prechargeTx_keeps_money:
  assumes "prechargeTx env now u rid a m d = Inr (lr, d')" and "env_race env = None" and ok: "money_ok d"
  shows "keeps d d'"
  using assms(1,2)
proof (cases rule: prechargeTx_success)
  case Again
  with touch_keeps [OF ok] show ?thesis by simp
next
  case (Held r row)
  have k: "keeps d (touch u d\<lparr>precharges := row # precharges d\<rparr>)"
    by (rule keeps_frame [OF ok]) (simp_all add: key_delta_def findLedger_def)
  from ApplyTx_foreign_keeps [OF Held(8) assms(2) _ keepsD(1) [OF k]] release_key_foreign
  show ?thesis by (intro keeps_trans [OF k]) simp
qed

text \<open>A reservation is taken before the request has a row; other ledger clients use keys of their own.\<close>

lemma prechargeTx_clear:
  assumes "prechargeTx env now u rid a m d = Inr (lr, d')" and race: "env_race env = None"
    and cl: "clear own d" and own: "own rid = u" and new: "rid \<notin> rid_of ` set (usage d)"
  shows "clear own d'"
  using assms(1,2)
proof (cases rule: prechargeTx_success)
  case Again
  have "key_delta (touch u d) = key_delta d" by (rule key_delta_ledger) simp
  then show ?thesis unfolding Again(3) by (intro clear_frame [OF cl]) (simp_all add: settled_rids_def)
next
  case (Held r row)
  let ?d = "touch u d\<lparr>precharges := row # precharges d\<rparr>"
  have hb: "holds_booked own d" and fresh: "rid \<notin> pr_request ` set (precharges d)"
    using cl Held(5) by (simp_all add: clear_def)
  have "key_delta ?d = key_delta d" by (rule key_delta_ledger) simp
  then have kd: "key_delta d' = (key_delta d)(precharge_key rid \<mapsto> - a)"
    using ApplyTx_key_delta [OF Held(8) race] by (simp add: precharge_change_def change_delta_def)
  have pre: "precharges d' = row # precharges d" "usage d' = usage d"
    using ApplyTx_frame [OF Held(8) race] by simp_all
  have "key_delta d (precharge_key rid) = None"
    using Held(1) by (simp add: key_delta_def findLedger_None)
  moreover have "no_hold (key_delta d) rid" using hb fresh by (simp add: holds_booked_def)
  ultimately have "key_delta d (release_key rid) = None" by (auto simp: no_hold_def)
  then have "hold_row own (key_delta d') row" using own Held(4) by (simp add: hold_row_def kd)
  moreover have "hold_row own (key_delta d') q" if "q \<in> set (precharges d)" for q
    using that hb fresh by (auto simp: holds_booked_def hold_row_def kd)
  moreover have "no_hold (key_delta d') k" if "k \<notin> pr_request ` set (precharges d')" for k
    using that hb Held(4) by (auto simp: holds_booked_def no_hold_def kd pre)
  ultimately have "holds_booked own d'" using hb fresh Held(4) by (auto simp: holds_booked_def pre)
  moreover have "rid \<notin> settled_rids d" using new by (auto simp: settled_rids_def)
  ultimately show ?thesis using cl Held(4) settled_rids_cong [OF pre(2)] by (simp add: clear_def pre(1))
qed

lemma ApplyTx_foreign_clear:
  assumes "ApplyTx env d ch = Inr (r, d')" and "env_race env = None" and "ch_key ch \<notin> hold_keys" and "clear own d"
  shows "clear own d'"
proof (rule clear_shrinks [OF assms(4)])
  show "shrinks own d d'"
    by (rule shrinks_keys) (use ApplyTx_frame [OF assms(1,2)] ApplyTx_key_delta [OF assms(1,2)] assms(3) in auto)
  show "settled_rids d' \<subseteq> settled_rids d" using ApplyTx_frame [OF assms(1,2)] by (simp add: settled_rids_def)
qed

subsection \<open>The system\<close>

record msys =
  ms_db :: db
  ms_entries :: "entry list"
  ms_snaps :: "(entry \<times> row_state) list"

text \<open>
  \<open>ms_entries\<close> are the claimed entries any node still holds, \<open>ms_snaps\<close> the reserved rows it loaded for
  them. A node may sit on both for as long as it likes, and several may hold the same entry.
  The flags of an entry change while it is worked on; its ids do not.

  \<open>own\<close> is the user of a request: the gateway makes up a fresh id of 36 characters for every request it
  accepts (\<open>httpapi.NewRequestID\<close>), reserves for it before it forwards anything
  (\<open>gateway/precharge.go\<close>) and records it at the end under the same user; rows are settled under the user
  they were written with. Every other client of the ledger builds its keys with a prefix of its own.
\<close>

inductive mstep :: "(string \<Rightarrow> int) \<Rightarrow> msys \<Rightarrow> msys \<Rightarrow> bool" for own where
  Insert: "insertTx (solo env) pc (Some (billing_ledger (solo env))) cfg now batch Inr (\<lambda>d _. Inr d) flag (ms_db s)
      = Inr (ins, os, d') \<Longrightarrow> quotes_ok pc \<Longrightarrow> \<forall>rec \<in> set batch. plain (rc_request rec) \<Longrightarrow>
    recs_own own batch \<Longrightarrow> mstep own s (s\<lparr>ms_db := d'\<rparr>)"
| Settle: "settleTx (solo env) pc (Some (billing_ledger (solo env))) sk lk (ms_db s) p = Inr (res, d') \<Longrightarrow>
    quotes_ok pc \<Longrightarrow> own (RequestID p) = UserID p \<Longrightarrow> mstep own s (s\<lparr>ms_db := d'\<rparr>)"
| Mark: "mstep own s (s\<lparr>ms_db := markFailed env (ms_db s) p\<rparr>)"
| Claim: "claimDue env locked now limit (ms_db s) = Inr (es, d') \<Longrightarrow>
    mstep own s (s\<lparr>ms_db := d', ms_entries := es @ ms_entries s\<rparr>)"
| Load: "e \<in> set (ms_entries s) \<Longrightarrow> loadReserved env expr_of (ms_db s) (e_usage e) = Inr row \<Longrightarrow>
    rs_status row = StatusReserved \<Longrightarrow> mstep own s (s\<lparr>ms_snaps := (e, row) # ms_snaps s\<rparr>)"
| Close: "mstep own s (s\<lparr>ms_db := closeEntry env (ms_db s) e SettleStateSettled note\<rparr>)"
| Reconciled: "(e, row) \<in> set (ms_snaps s) \<Longrightarrow> e_id e' = e_id e \<Longrightarrow> e_usage e' = e_usage e \<Longrightarrow> quotes_ok pc \<Longrightarrow>
    settleReconciled (solo env) pc (billing_ledger (solo env)) cfg rds now (ms_db s) c e' row tk facts = (d', c') \<Longrightarrow>
    mstep own s (s\<lparr>ms_db := d'\<rparr>)"
| Refunded: "(e, row) \<in> set (ms_snaps s) \<Longrightarrow> e_id e' = e_id e \<Longrightarrow> e_usage e' = e_usage e \<Longrightarrow>
    refundFailed (solo env) (billing_ledger (solo env)) rds (ms_db s) c e' row reason = (d', c') \<Longrightarrow>
    mstep own s (s\<lparr>ms_db := d'\<rparr>)"
| Abandoned: "(e, row) \<in> set (ms_snaps s) \<Longrightarrow> e_id e' = e_id e \<Longrightarrow> e_usage e' = e_usage e \<Longrightarrow>
    mstep own s (s\<lparr>ms_db := abandon env (ms_db s) e' row reason\<rparr>)"
| Estimated: "(e, row) \<in> set (ms_snaps s) \<Longrightarrow> e_id e' = e_id e \<Longrightarrow> e_usage e' = e_usage e \<Longrightarrow>
    mstep own s (s\<lparr>ms_db := settleEstimate env (ms_db s) e' row reason\<rparr>)"
| Rescheduled: "mstep own s (s\<lparr>ms_db := rescheduleAttempt env cfg now (ms_db s) e want lastErr count\<rparr>)"
| Reopen: "retryReconcileTx env cfg now (ms_db s) i = Inr d' \<Longrightarrow> mstep own s (s\<lparr>ms_db := d'\<rparr>)"
| GiveBack: "refundAbandonedTx env (billing_ledger (solo env)) operator note (ms_db s) i = Inr (res, d') \<Longrightarrow>
    mstep own s (s\<lparr>ms_db := d'\<rparr>)"
| Reserve: "prechargeTx (solo env) now u rid a m (ms_db s) = Inr (lr, d') \<Longrightarrow> own rid = u \<Longrightarrow>
    rid \<notin> rid_of ` set (usage (ms_db s)) \<Longrightarrow> mstep own s (s\<lparr>ms_db := d'\<rparr>)"
| Release: "ReleasePrechargeTx (solo env) (ms_db s) u rid = Inr (lr, d') \<Longrightarrow> mstep own s (s\<lparr>ms_db := d'\<rparr>)"
| Ledger: "ApplyTx (solo env) (ms_db s) ch = Inr (r, d') \<Longrightarrow> ch_key ch \<notin> usage_keys \<union> hold_keys \<Longrightarrow>
    mstep own s (s\<lparr>ms_db := d'\<rparr>)"

inductive_cases mstepE: "mstep own s t"

definition msys_ok :: "(string \<Rightarrow> int) \<Rightarrow> msys \<Rightarrow> bool" where
  "msys_ok own s \<longleftrightarrow> money_ok (ms_db s) \<and> clear own (ms_db s) \<and> (\<forall>e \<in> set (ms_entries s). entry_known (ms_db s) e) \<and>
     (\<forall>(e, row) \<in> set (ms_snaps s). snap_ok (ms_db s) e row)"

lemma entry_known_evolves:
  assumes "evolves d d'" and "entry_known d e"
  shows "entry_known d' e"
proof -
  have "s_usage s = e_usage e" if s: "s \<in> set (settlements d')" "s_id s = e_id e" for s
  proof -
    have "\<not> next_settle d \<le> s_id s" using s(2) assms(2) by (simp add: entry_known_def)
    with assms(1) s(1) obtain s0 where "s0 \<in> set (settlements d)" "s_id s0 = s_id s" "s_usage s0 = s_usage s"
      unfolding evolves_def by blast
    with s(2) assms(2) show ?thesis by (auto simp: entry_known_def)
  qed
  with assms show ?thesis by (auto simp: entry_known_def evolves_def)
qed

lemma snap_ok_evolves:
  assumes ev: "evolves d d'" and sn: "snap_ok d e row"
  shows "snap_ok d' e row"
proof -
  from sn have kn: "entry_known d e" by (simp add: snap_ok_def)
  have "rid_of x' = RequestID (rs_p row) \<and> u_status x' \<notin> {StatusPending, StatusFailed} \<and>
      (live d' x' \<longrightarrow> u_total x' = rs_total row)" if x': "x' \<in> set (usage d')" "u_id x' = e_usage e" for x'
  proof -
    have "\<not> next_usage d \<le> u_id x'" using x'(2) kn by (simp add: entry_known_def)
    with ev x'(1) obtain x where x: "x \<in> set (usage d)" "u_id x = u_id x'" "rid_of x = rid_of x'"
      "u_status x \<notin> {StatusPending, StatusFailed} \<longrightarrow> u_status x' \<notin> {StatusPending, StatusFailed} \<and>
              (live d' x' \<longrightarrow> live d x \<and> u_total x' = u_total x)" unfolding evolves_def by blast
    with sn x'(2) show ?thesis by (auto simp: snap_ok_def)
  qed
  with entry_known_evolves [OF ev kn] show ?thesis by (simp add: snap_ok_def)
qed

lemma msys_ok_keeps:
  assumes "msys_ok own s" and "keeps (ms_db s) d'" and "clear own d'"
  shows "msys_ok own (s\<lparr>ms_db := d'\<rparr>)"
  using assms entry_known_evolves snap_ok_evolves by (fastforce simp: msys_ok_def keeps_def)


subsection \<open>Every step keeps the system consistent\<close>

lemma snap_ok_same: "snap_ok d e row \<Longrightarrow> e_id e' = e_id e \<Longrightarrow> e_usage e' = e_usage e \<Longrightarrow> snap_ok d e' row"
  by (simp add: snap_ok_def entry_known_def)

lemma claimDue_keeps:
  assumes "claimDue env locked now limit d = Inr (es, d')" and ok: "money_ok d"
  shows "keeps d d' \<and> (\<forall>e \<in> set es. entry_known d' e)"
proof -
  from assms(1) have d': "d' = update_entries (\<lambda>s. s_id s \<in> s_id ` set (due_rows locked now limit d))
      (\<lambda>s. s\<lparr>s_next := now + reconcileLease\<rparr>) d" and es: "es = map entry_of (due_rows locked now limit d)"
    by (auto simp: claimDue_def err_simps Let_def)
  have k: "keeps d d'" by (rule keeps_entries [OF ok d']) simp_all
  have "set (due_rows locked now limit d) \<subseteq> set (settlements d)"
    by (auto simp: due_rows_def dest: in_set_takeD)
  then have "entry_known d e" if "e \<in> set es" for e
    using that entry_known_own [OF ok] by (auto simp: es entry_for_def)
  with k entry_known_evolves keepsD(2) [OF k] show ?thesis by blast
qed

lemma load_snap:
  assumes "loadReserved env expr_of d (e_usage e) = Inr row" and "rs_status row = StatusReserved"
    and "money_ok d" and "entry_known d e"
  shows "snap_ok d e row"
proof -
  from assms(1) obtain x where x: "find_row d (e_usage e) = Some x"
    and row: "rs_total row = u_total x" "rs_status row = u_status x" "RequestID (rs_p row) = rid_of x"
    by (auto simp: loadReserved_def err_simps rid_of_def split: option.splits)
  note xd = find_row_SomeD [OF x]
  have "y = x" if "y \<in> set (usage d)" "u_id y = e_usage e" for y
    using that xd assms(3) by (auto simp: money_ok_def rows_ok_def distinct_map inj_on_def)
  then show ?thesis using row assms(2,4) by (auto simp: snap_ok_def)
qed

lemma settleReconciled_keeps:
  assumes "settleReconciled (solo env) pc (billing_ledger (solo env)) cfg rds now d c e row tk facts = (d', c')"
    and ok: "money_ok d" and sn: "snap_ok d e row" and q: "quotes_ok pc"
  shows "keeps d d'"
proof -
  define p where "p = (rs_p row)\<lparr>Tokens := tk, Metrics := (case facts of None \<Rightarrow> Metrics (rs_p row) | Some m \<Rightarrow> m)\<rparr>"
  show ?thesis
  proof (cases "priceOf pc p")
    case (Inl err)
    with assms(1) rescheduleAttempt_keeps [OF ok] show ?thesis
      by (auto simp: settleReconciled_def p_def [symmetric])
  next
    case (Inr priced)
    obtain amt detail hash where pr: "priced = (amt, detail, hash)" by (cases priced)
    show ?thesis
    proof (cases "settleReconciledTx (solo env) (billing_ledger (solo env)) d e p (rs_total row) priced")
      case (Inl err)
      with assms(1) Inr keeps_refl [OF ok] show ?thesis
        by (auto simp: settleReconciled_def p_def [symmetric])
    next
      case inr: (Inr rd)
      with assms(1) Inr have "settleReconciledTx (solo env) (billing_ledger (solo env)) d e p (rs_total row) (amt, detail, hash)
          = Inr (fst rd, d')"
        by (cases rd) (auto simp: settleReconciled_def p_def [symmetric] pr)
      then show ?thesis
        by (rule ul.settleReconciledTx_keeps [OF _ ok sn]) (use priceOf_nonneg [OF Inr [unfolded pr] q] in \<open>auto simp: p_def\<close>)
    qed
  qed
qed

lemma refundFailed_keeps:
  assumes "refundFailed (solo env) (billing_ledger (solo env)) rds d c e row reason = (d', c')"
    and ok: "money_ok d" and sn: "snap_ok d e row"
  shows "keeps d d'"
  using assms(1) ul.refundTx_keeps [OF _ ok sn] keeps_refl [OF ok]
  by (auto simp: refundFailed_def split: sum.splits prod.splits)

lemma keepEstimate_keeps:
  assumes ok: "money_ok d" and kn: "entry_known d e"
  shows "keeps d (snd (keepEstimate env d e row st marker note cnt))"
  using keepEstimateTx_keeps [OF _ ok kn] keeps_refl [OF ok]
  by (auto simp: keepEstimate_def split: sum.splits)

lemma mstep_keeps: "mstep own s t \<Longrightarrow> msys_ok own s \<Longrightarrow> keeps (ms_db s) (ms_db t)"
proof (induction rule: mstep.induct)
  case Insert
  then show ?case using ul.insertTx_keeps by (simp add: msys_ok_def)
next
  case Settle
  then show ?case using ul.settleTx_keeps by (simp add: msys_ok_def)
next
  case Claim
  then show ?case using claimDue_keeps by (simp add: msys_ok_def)
next
  case (Reconciled e row s e' pc env cfg rds now c tk facts d' c')
  then have "snap_ok (ms_db s) e' row" using snap_ok_same by (fastforce simp: msys_ok_def)
  with Reconciled settleReconciled_keeps show ?case by (simp add: msys_ok_def)
next
  case (Refunded e row s e' env rds c reason d' c')
  then have "snap_ok (ms_db s) e' row" using snap_ok_same by (fastforce simp: msys_ok_def)
  with Refunded refundFailed_keeps show ?case by (simp add: msys_ok_def)
next
  case (Abandoned e row s e' env reason)
  then have "entry_known (ms_db s) e'" using snap_ok_same by (fastforce simp: msys_ok_def snap_ok_def)
  with Abandoned keepEstimate_keeps show ?case by (simp add: msys_ok_def abandon_def)
next
  case (Estimated e row s e' env reason)
  then have "entry_known (ms_db s) e'" using snap_ok_same by (fastforce simp: msys_ok_def snap_ok_def)
  with Estimated keepEstimate_keeps show ?case by (simp add: msys_ok_def settleEstimate_def)
next
  case Reopen
  then show ?case using retryReconcileTx_keeps by (simp add: msys_ok_def)
next
  case GiveBack
  then show ?case using ul.refundAbandonedTx_keeps by (simp add: msys_ok_def)
next
  case Reserve
  then show ?case using prechargeTx_keeps_money [OF _ solo_race] by (simp add: msys_ok_def)
next
  case (Release env s u rid lr d')
  note ok = Release(2) [unfolded msys_ok_def]
  show ?case
    using ReleasePrechargeTx_frame [OF Release(1) solo_race] ReleasePrechargeTx_key_delta [OF Release(1) solo_race] ok
    by (simp add: keeps_frame)
next
  case Ledger
  then show ?case using ApplyTx_foreign_keeps [OF _ solo_race] by (simp add: msys_ok_def)
qed (simp_all add: msys_ok_def markFailed_keeps closeEntry_keeps rescheduleAttempt_keeps keeps_refl)

lemma settleReconciled_clear:
  assumes "settleReconciled (solo env) pc (billing_ledger (solo env)) cfg rds now d c e row tk facts = (d', c')"
    and cl: "clear own d" and ok: "money_ok d"
  shows "clear own d'"
  using assms(1) cl rescheduleAttempt_clear [OF cl] ul.settleReconciledTx_clear [OF _ cl ok]
  by (auto simp: settleReconciled_def Let_def split: sum.splits prod.splits)

lemma refundFailed_clear:
  assumes "refundFailed (solo env) (billing_ledger (solo env)) rds d c e row reason = (d', c')"
    and cl: "clear own d" and ok: "money_ok d"
  shows "clear own d'"
  using assms(1) cl ul.refundTx_clear [OF _ cl ok]
  by (auto simp: refundFailed_def split: sum.splits prod.splits)

lemma keepEstimate_clear:
  assumes cl: "clear own d" and ok: "money_ok d"
  shows "clear own (snd (keepEstimate env d e row st marker note cnt))"
  using keepEstimateTx_clear [OF _ cl ok] cl by (auto simp: keepEstimate_def split: sum.splits)

lemma mstep_clear: "mstep own s t \<Longrightarrow> msys_ok own s \<Longrightarrow> clear own (ms_db t)"
proof (induction rule: mstep.induct)
  case Insert
  then show ?case using ul.insertTx_clear by (simp add: msys_ok_def)
next
  case Settle
  then show ?case using ul.settleTx_clear by (simp add: msys_ok_def)
next
  case Claim
  then show ?case using claimDue_clear by (simp add: msys_ok_def)
next
  case Reconciled
  then show ?case using settleReconciled_clear by (simp add: msys_ok_def)
next
  case Refunded
  then show ?case using refundFailed_clear by (simp add: msys_ok_def)
next
  case Reopen
  then show ?case using retryReconcileTx_clear by (simp add: msys_ok_def)
next
  case GiveBack
  then show ?case using ul.refundAbandonedTx_clear by (simp add: msys_ok_def)
next
  case Reserve
  then show ?case using prechargeTx_clear [OF _ solo_race] by (simp add: msys_ok_def)
next
  case (Release env s u rid lr d')
  have "settled_rids d' \<subseteq> settled_rids (ms_db s)"
    using ReleasePrechargeTx_frame [OF Release(1) solo_race] by (simp add: settled_rids_def)
  with clear_shrinks [OF _ ReleasePrechargeTx_holds(1) [OF Release(1) solo_race]] Release(2)
  show ?case by (simp add: msys_ok_def)
next
  case Ledger
  then show ?case using ApplyTx_foreign_clear [OF _ solo_race] by (simp add: msys_ok_def)
qed (simp_all add: msys_ok_def markFailed_clear closeEntry_clear rescheduleAttempt_clear keepEstimate_clear
      abandon_def settleEstimate_def)

lemma mstep_ok: "mstep own s t \<Longrightarrow> msys_ok own s \<Longrightarrow> msys_ok own t"
proof -
  assume st: "mstep own s t" and ok: "msys_ok own s"
  from msys_ok_keeps [OF ok mstep_keeps [OF st ok] mstep_clear [OF st ok]]
  have db: "msys_ok own (s\<lparr>ms_db := ms_db t\<rparr>)" .
  from st have "(\<forall>e \<in> set (ms_entries t). e \<in> set (ms_entries s) \<or> entry_known (ms_db t) e) \<and>
      (\<forall>er \<in> set (ms_snaps t). er \<in> set (ms_snaps s) \<or> snap_ok (ms_db t) (fst er) (snd er))"
  proof cases
    case (Claim env locked now limit es d')
    with claimDue_keeps [OF Claim(2)] ok show ?thesis by (auto simp: msys_ok_def)
  next
    case (Load e env expr_of row)
    then have "snap_ok (ms_db s) e row" using load_snap [OF Load(3,4)] ok by (auto simp: msys_ok_def)
    with Load show ?thesis by auto
  qed auto
  with db show ?thesis by (fastforce simp: msys_ok_def)
qed

lemma msteps_ok: "(mstep own)\<^sup>*\<^sup>* s t \<Longrightarrow> msys_ok own s \<Longrightarrow> msys_ok own t"
  by (induction rule: rtranclp_induct) (auto intro: mstep_ok)


subsection \<open>Properties\<close>

definition demo_rec :: usage_rec where
  "demo_rec = \<lparr>rc_request = ''r1'', rc_user = 1, rc_key = 1, rc_group = 1, rc_account = Some 1, rc_plugin = ''openai'',
     rc_platform = ''openai'', rc_protocol = ''openai.chat'', rc_account_type = ''key'',
     rc_upstream_protocol = ''openai.chat'', rc_model = ''gpt'', rc_status_code = 200, rc_success = True,
     rc_error_type = [], rc_error_message = [], rc_semantics = ''inclusive'',
     rc_tokens = \<lparr>tk_input = 10, tk_output = 5, tk_cache_read = 0, tk_cache_creation = 0, tk_cache_creation_1h = 0\<rparr>,
     rc_metrics = [], rc_mismatch = [], rc_extract = [], rc_dropped = [], rc_reservation = None, rc_billable = True,
     rc_price = Some \<lparr>rp_id = 1, rp_mode = ''token'', rp_expression = ''p'', rp_hash = ''h''\<rparr>,
     rc_params = [], rc_headers = [], rc_rate = 1, rc_latency = 1, rc_created = Some 0\<rparr>"

definition demo_pricer :: pricer where
  "demo_pricer = \<lparr>pc_compile = (\<lambda>_. Inr ''h''), pc_hash = (\<lambda>_. ''h''), pc_quote = (\<lambda>_. Inr 3),
     pc_eval = (\<lambda>_. Inr (3, ''base''))\<rparr>"

definition demo_cfg :: resolved where
  "demo_cfg = \<lparr>maxAge = 604800 * second, backoff = [10 * second], maxAttempts = 100, maxPollFailures = 20\<rparr>"

definition demo_msys :: msys where
  "demo_msys = \<lparr>ms_db = demo_empty, ms_entries = [], ms_snaps = []\<rparr>"

definition demo_ledger :: tx_ledger where
  "demo_ledger = billing_ledger (solo demo_env)"

definition demo_own :: "string \<Rightarrow> int" where
  "demo_own rid = 1"

definition demo_reserve :: "err + ledger_result option \<times> db" where
  "demo_reserve = prechargeTx (solo demo_env) 0 1 ''r1'' 2 (-10) demo_empty"

definition demo_precharged :: db where
  "demo_precharged = (case demo_reserve of Inr (_, d) \<Rightarrow> d | Inl _ \<Rightarrow> demo_empty)"

definition demo_insert :: "err + usage_rec list \<times> owed \<times> db" where
  "demo_insert = insertTx (solo demo_env) demo_pricer (Some demo_ledger) demo_cfg 0 [demo_rec] Inr
     (\<lambda>d _. Inr d) False demo_precharged"

definition demo_inserted :: db where
  "demo_inserted = (case demo_insert of Inr (_, _, d) \<Rightarrow> d | Inl _ \<Rightarrow> demo_empty)"

definition demo_settling :: "err + ledger_result option \<times> db" where
  "demo_settling = settleTx (solo demo_env) demo_pricer (Some demo_ledger) False False demo_inserted (fromRecord 0 demo_rec)"

definition demo_settled :: db where
  "demo_settled = (case demo_settling of Inr (_, d) \<Rightarrow> d | Inl _ \<Rightarrow> demo_empty)"

lemma demo_runs: "\<not> isl demo_reserve" "\<not> isl demo_insert" "\<not> isl demo_settling"
  by code_simp+

lemma demo_row:
  "map (\<lambda>x. (rid_of x, u_status x, u_total x)) (usage demo_inserted) = [(''r1'', StatusPending, 0)]"
  "map (\<lambda>x. (rid_of x, u_status x, u_total x)) (usage demo_settled) = [(''r1'', StatusBilled, 3)]"
  "held_for demo_inserted ''r1'' = 2"
  by code_simp+

lemma demo_quotes_ok: "quotes_ok demo_pricer"
  by (simp add: quotes_ok_def demo_pricer_def)

lemma demo_msys_ok: "msys_ok demo_own demo_msys"
  by (simp add: msys_ok_def demo_msys_def money_ok_def rows_ok_def entries_ok_def demo_empty_def books_def
      key_delta_def findLedger_def clear_def holds_booked_def no_hold_def)

text \<open>A run: reserve 2 for \<open>r1\<close>, insert its record as a pending row, settle it at 3.\<close>

lemma demo_money_steps:
  "(mstep demo_own)\<^sup>*\<^sup>* demo_msys (demo_msys\<lparr>ms_db := demo_inserted\<rparr>)"
  "(mstep demo_own)\<^sup>*\<^sup>* demo_msys (demo_msys\<lparr>ms_db := demo_settled\<rparr>)"
proof -
  obtain lr where r: "prechargeTx (solo demo_env) 0 1 ''r1'' 2 (-10) (ms_db demo_msys) = Inr (lr, demo_precharged)"
    using demo_runs(1) unfolding demo_precharged_def demo_reserve_def demo_msys_def msys.simps
    by (cases "prechargeTx (solo demo_env) 0 1 ''r1'' 2 (-10) demo_empty") auto
  have 1: "mstep demo_own demo_msys (demo_msys\<lparr>ms_db := demo_precharged\<rparr>)"
    by (rule mstep.Reserve [OF r]) (simp_all add: demo_own_def demo_msys_def demo_empty_def)
  obtain ins os where i: "insertTx (solo demo_env) demo_pricer (Some (billing_ledger (solo demo_env))) demo_cfg 0
      [demo_rec] Inr (\<lambda>d _. Inr d) False (ms_db (demo_msys\<lparr>ms_db := demo_precharged\<rparr>)) = Inr (ins, os, demo_inserted)"
    using demo_runs(2) unfolding demo_inserted_def demo_insert_def demo_ledger_def msys.simps
    by (cases "insertTx (solo demo_env) demo_pricer (Some (billing_ledger (solo demo_env))) demo_cfg 0
      [demo_rec] Inr (\<lambda>d _. Inr d) False demo_precharged") auto
  have g: "plain (rc_request demo_rec)" "recs_own demo_own [demo_rec]" by code_simp+
  have 2: "mstep demo_own (demo_msys\<lparr>ms_db := demo_precharged\<rparr>) (demo_msys\<lparr>ms_db := demo_inserted\<rparr>)"
    using mstep.Insert [OF i demo_quotes_ok _ g(2)] g(1) by simp
  obtain res where s: "settleTx (solo demo_env) demo_pricer (Some (billing_ledger (solo demo_env))) False False
      (ms_db (demo_msys\<lparr>ms_db := demo_inserted\<rparr>)) (fromRecord 0 demo_rec) = Inr (res, demo_settled)"
    using demo_runs(3) unfolding demo_settled_def demo_settling_def demo_ledger_def msys.simps
    by (cases "settleTx (solo demo_env) demo_pricer (Some (billing_ledger (solo demo_env))) False False
      demo_inserted (fromRecord 0 demo_rec)") auto
  have 3: "mstep demo_own (demo_msys\<lparr>ms_db := demo_inserted\<rparr>) (demo_msys\<lparr>ms_db := demo_settled\<rparr>)"
    using mstep.Settle [OF s demo_quotes_ok] by (simp add: demo_own_def fromRecord_def demo_rec_def)
  from 1 2 show ins: "(mstep demo_own)\<^sup>*\<^sup>* demo_msys (demo_msys\<lparr>ms_db := demo_inserted\<rparr>)" by auto
  from ins 3 show "(mstep demo_own)\<^sup>*\<^sup>* demo_msys (demo_msys\<lparr>ms_db := demo_settled\<rparr>)" by auto
qed

text \<open>C1: The money of a request is right under every interleaving: however batches, settlements, retries,
  reconcile sweeps of several nodes acting on stale claims, abandonments, reopenings, manual refunds,
  reservations, releases and other ledger changes take turns, and whichever of their statements fail, all
  ledger entries of a request (its reservation and the release of it, its charge, the corrections and the
  refunds) add up to what its row says: to the row's cost when it is billed or reserved, to nothing when it
  is free, and to the reservation still held when it is pending or failed. So nobody pays a reservation and
  the cost, is charged twice or refunded twice. Charge, corrections and refunds alone already add up
  to the cost of a billed or reserved row and to nothing otherwise.\<close>

theorem request_charged_exactly:
  assumes "(mstep own)\<^sup>*\<^sup>* s t" and "msys_ok own s" and "x \<in> set (usage (ms_db t))"
  shows "request_entries (ms_db t) (rid_of x) = - (case u_status x of
        StatusBilled \<Rightarrow> u_total x
      | StatusReserved \<Rightarrow> u_total x
      | StatusFree \<Rightarrow> 0
      | _ \<Rightarrow> held_for (ms_db t) (rid_of x)) \<and>
    charged (ms_db t) (rid_of x) =
      (if u_status x = StatusBilled \<or> u_status x = StatusReserved then u_total x else 0)"
proof -
  note ok = msteps_ok [OF assms(1,2)]
  then have "row_books (live (ms_db t) x) x (books (key_delta (ms_db t)) (rid_of x))"
    using assms(3) by (simp add: msys_ok_def money_ok_def)
  then have c: "charged (ms_db t) (rid_of x) =
      (if u_status x = StatusBilled \<or> u_status x = StatusReserved then u_total x else 0)"
    by (simp add: row_books_def charged_def)
  have cl: "clear own (ms_db t)" using ok by (simp add: msys_ok_def)
  then have e: "request_entries (ms_db t) (rid_of x) = - held_for (ms_db t) (rid_of x) - charged (ms_db t) (rid_of x)"
    using holds_booked_sum [of own "ms_db t" "rid_of x"] by (simp add: request_entries_books clear_def)
  have "held_for (ms_db t) (rid_of x) = 0" if "u_status x \<notin> {StatusPending, StatusFailed}"
  proof (rule held_for_none)
    have "rid_of x \<in> settled_rids (ms_db t)" using that assms(3) by (simp add: settled_rids_def)
    with cl show "rid_of x \<notin> pr_request ` set (precharges (ms_db t))" unfolding clear_def by blast
  qed
  with c e show ?thesis by (cases "u_status x") simp_all
qed

theorem request_charged_exactly_witness:
  "\<exists>t. (mstep demo_own)\<^sup>*\<^sup>* demo_msys t \<and> request_entries (ms_db t) ''r1'' = -3 \<and>
    key_delta (ms_db t) (precharge_key ''r1'') = Some (-2)"
proof -
  from demo_row(2) obtain x where x: "x \<in> set (usage demo_settled)" "rid_of x = ''r1''" "u_status x = StatusBilled" "u_total x = 3"
    by (auto simp: map_eq_Cons_conv)
  have "x \<in> set (usage (ms_db (demo_msys\<lparr>ms_db := demo_settled\<rparr>)))" using x(1) by simp
  from request_charged_exactly [OF demo_money_steps(2) demo_msys_ok this] x
  have "request_entries demo_settled ''r1'' = -3" by simp
  moreover have "key_delta demo_settled (precharge_key ''r1'') = Some (-2)" by code_simp
  ultimately show ?thesis using demo_money_steps(2) by (intro exI [of _ "demo_msys\<lparr>ms_db := demo_settled\<rparr>"]) simp
qed

text \<open>C7: Unfinished work leaves no trace in the ledger but its reservation: in every reachable state a request
  whose row is pending or failed, or that has no row, has no charge, correction or refund booked, and all
  its entries add up to the reservation it still holds, so the retry loop can settle it later at its full
  price.\<close>

theorem unsettled_request_unbooked:
  assumes "(mstep own)\<^sup>*\<^sup>* s t" and "msys_ok own s" and "plain rid"
    and "list_all (\<lambda>x. rid_of x \<noteq> rid \<or> u_status x = StatusPending \<or> u_status x = StatusFailed) (usage (ms_db t))"
  shows "books (key_delta (ms_db t)) rid = (None, None, None, None) \<and>
    request_entries (ms_db t) rid = - held_for (ms_db t) rid"
proof -
  note ok = msteps_ok [OF assms(1,2)]
  have b: "books (key_delta (ms_db t)) rid = (None, None, None, None)"
  proof (cases "rid \<in> rid_of ` set (usage (ms_db t))")
    case True
    then obtain x where x: "x \<in> set (usage (ms_db t))" "rid_of x = rid" by auto
    with assms(4) have "u_status x \<in> {StatusPending, StatusFailed}" by (auto simp: list_all_iff)
    with x ok show ?thesis by (auto simp: msys_ok_def money_ok_def row_books_def)
  next
    case False
    with ok assms(3) show ?thesis by (simp add: msys_ok_def money_ok_def)
  qed
  then have "charged (ms_db t) rid = 0" by (simp add: charged_def sum_of_def)
  moreover have "holds_booked own (ms_db t)" using ok by (simp add: msys_ok_def clear_def)
  ultimately show ?thesis using b holds_booked_sum [of own "ms_db t" rid] by (simp add: request_entries_books)
qed

theorem unsettled_request_unbooked_witness:
  "\<exists>t x. (mstep demo_own)\<^sup>*\<^sup>* demo_msys t \<and> x \<in> set (usage (ms_db t)) \<and> rid_of x = ''r1'' \<and>
    u_status x = StatusPending \<and> books (key_delta (ms_db t)) ''r1'' = (None, None, None, None) \<and>
    request_entries (ms_db t) ''r1'' = -2"
proof -
  let ?t = "demo_msys\<lparr>ms_db := demo_inserted\<rparr>"
  from demo_row(1) obtain x where x: "usage demo_inserted = [x]" "rid_of x = ''r1''" "u_status x = StatusPending"
    by (auto simp: map_eq_Cons_conv)
  then have "list_all (\<lambda>x. rid_of x \<noteq> ''r1'' \<or> u_status x = StatusPending \<or> u_status x = StatusFailed) (usage (ms_db ?t))"
    by simp
  moreover have "plain ''r1''" by (simp add: plain_def)
  ultimately have "books (key_delta (ms_db ?t)) ''r1'' = (None, None, None, None) \<and> request_entries (ms_db ?t) ''r1'' = -2"
    using unsettled_request_unbooked [OF demo_money_steps(1) demo_msys_ok] demo_row(3) by simp
  with x demo_money_steps(1) show ?thesis by (intro exI [of _ ?t] exI [of _ x]) simp
qed

text \<open>C39: A reservation whose reference is already being reconciled cannot be corrected by anyone: its row
  ends billed at the cost it was reserved at, no money moves, no event is emitted for it and no entry
  points to it, so the administrator's refund and re-check, which are meant for every row billed at its
  reservation, both answer that the request was not pre-charged.\<close>

theorem duplicate_ref_has_no_way_out:
  assumes "registerTx (no_faults rnd) cfg now d i account rv = Inr d'"
    and "\<exists>s \<in> set (settlements d). s_plugin s = trunc (rv_plugin rv) 30 \<and> s_ref s = trunc (rv_ref rv) 200"
    and "i \<notin> s_usage ` set (settlements d)" and "x \<in> set (usage d)" and "u_id x = i"
  shows "(\<exists>y. y \<in> set (usage d') \<and> u_id y = i \<and> u_status y = StatusBilled \<and> u_total y = u_total x) \<and>
    map (\<lambda>y. (u_id y, u_total y)) (usage d') = map (\<lambda>y. (u_id y, u_total y)) (usage d) \<and>
    ledger d' = ledger d \<and> events d' = events d \<and> settlements d' = settlements d \<and>
    refundAbandonedTx (no_faults rnd) lg operator note d' i = Inl (ErrNotFound ''this usage record was not pre-charged'') \<and>
    retryReconcileTx (no_faults rnd) cfg now d' i = Inl (ErrNotFound ''this usage record was not pre-charged'')"
proof -
  from assms(2) have dup: "\<exists>s \<in> set (settlements d). s_plugin s = s_plugin (new_entry cfg now d i account rv) \<and>
      s_ref s = s_ref (new_entry cfg now d i account rv)" by (simp add: new_entry_def Let_def)
  with assms(1) obtain rs where d': "d' = update_usage (\<lambda>x. u_id x = i) (\<lambda>x. x\<lparr>u_status := StatusBilled,
      u_anomalies := merge_json (u_anomalies x) rs\<rparr>) d"
    by (auto simp: registerTx_def err_simps Let_def closeUnreconcilable_def)
  have y: "x\<lparr>u_status := StatusBilled, u_anomalies := merge_json (u_anomalies x) rs\<rparr> \<in> set (usage d')"
    using assms(4,5) by (force simp: d')
  then have "find_row d' i \<noteq> None"
    unfolding find_row_def find_None_iff using assms(5) by fastforce
  moreover have "List.find (\<lambda>s. s_usage s = i) (settlements d') = None"
    using assms(3) by (auto simp: find_None_iff d')
  ultimately have "lockSettlement (no_faults rnd) d' i = Inl (ErrNotFound ''this usage record was not pre-charged'')"
    by (auto simp: lockSettlement_def)
  then have "refundAbandonedTx (no_faults rnd) lg operator note d' i = Inl (ErrNotFound ''this usage record was not pre-charged'') \<and>
    retryReconcileTx (no_faults rnd) cfg now d' i = Inl (ErrNotFound ''this usage record was not pre-charged'')"
    by (simp add: refundAbandonedTx_def retryReconcileTx_def Let_def)
  moreover have "\<exists>y. y \<in> set (usage d') \<and> u_id y = i \<and> u_status y = StatusBilled \<and> u_total y = u_total x"
    using y assms(5) by (intro exI [of _ "x\<lparr>u_status := StatusBilled, u_anomalies := merge_json (u_anomalies x) rs\<rparr>"]) simp
  moreover have "events d' = events d" by (simp add: d' update_usage_def)
  ultimately show ?thesis by (simp add: d')
qed

definition demo_rv :: reservation where
  "demo_rv = \<lparr>rv_plugin = ''p'', rv_ref = ''job'', rv_next_after = 0, rv_deadline = 0\<rparr>"

text \<open>Row 2 was just reserved at 3 for a job whose reference row 1 is already being reconciled under.\<close>

definition demo_reserved :: db where
  "demo_reserved = demo_empty\<lparr>usage := [(row_of demo_pricer 0 (demo_rec\<lparr>rc_reservation := Some demo_rv\<rparr>) 2)\<lparr>u_total := 3\<rparr>],
     next_usage := 3, settlements := [new_entry demo_cfg 0 demo_empty 1 None demo_rv], next_settle := 2\<rparr>"

theorem duplicate_ref_has_no_way_out_witness:
  "\<exists>x y d'. x \<in> set (usage demo_reserved) \<and> u_status x = StatusReserved \<and>
    registerTx (no_faults round_half_away8) demo_cfg 0 demo_reserved 2 None demo_rv = Inr d' \<and>
    y \<in> set (usage d') \<and> u_status y = StatusBilled \<and> u_total y = 3 \<and>
    refundAbandonedTx (no_faults round_half_away8) demo_ledger 1 [] d' 2 =
      Inl (ErrNotFound ''this usage record was not pre-charged'')"
proof -
  let ?x = "(row_of demo_pricer 0 (demo_rec\<lparr>rc_reservation := Some demo_rv\<rparr>) 2)\<lparr>u_total := 3\<rparr>"
  have "\<not> isl (registerTx (no_faults round_half_away8) demo_cfg 0 demo_reserved 2 None demo_rv)" by code_simp
  then obtain d' where r: "registerTx (no_faults round_half_away8) demo_cfg 0 demo_reserved 2 None demo_rv = Inr d'"
    by (cases "registerTx (no_faults round_half_away8) demo_cfg 0 demo_reserved 2 None demo_rv") auto
  have s: "\<exists>s \<in> set (settlements demo_reserved). s_plugin s = trunc (rv_plugin demo_rv) 30 \<and> s_ref s = trunc (rv_ref demo_rv) 200"
    "2 \<notin> s_usage ` set (settlements demo_reserved)" "?x \<in> set (usage demo_reserved)" "u_id ?x = 2"
    by (simp_all add: demo_reserved_def new_entry_def Let_def)
  have "u_status ?x = StatusReserved" by code_simp
  with duplicate_ref_has_no_way_out [OF r s, of demo_ledger 1 "[]"] r s(3) show ?thesis by auto
qed

end
