(* ===== verification/ReconcileSweep.thy ===== *)
theory ReconcileSweep
  imports Reconcile
begin

section \<open>The sweep of the reconcile loop (\<open>usage/reconcile.go\<close>)\<close>

text \<open>
  What \<open>interleaveByPlugin\<close> and one check promise: interleaving takes one entry of each plugin per turn and
  loses none, giving up moves no money, and a check past the deadline or the attempt limit closes its
  entry at the estimate. The lease of a claim is in \<open>SweepRuns\<close>.
\<close>

subsection \<open>Interleaving\<close>

definition turn :: "entry list \<Rightarrow> string list \<Rightarrow> nat \<Rightarrow> entry list" where
  "turn es order r = concat (map (\<lambda>k. take 1 (drop r (by_plugin es k))) order)"

lemma plugin_order_set: "set (plugin_order es acc) = set acc \<union> e_plugin ` set es"
  by (induction es arbitrary: acc) auto

lemma plugin_order_distinct: "distinct acc \<Longrightarrow> distinct (plugin_order es acc)"
  by (induction es arbitrary: acc) auto

lemma one_round_spec:
  "distinct order \<Longrightarrow> one_round order (q, out) =
     ((\<lambda>k. if k \<in> set order then drop 1 (q k) else q k), out @ concat (map (\<lambda>k. take 1 (q k)) order))"
proof (induction order arbitrary: q out)
  case (Cons k ks)
  note prems = Cons.prems
  from Cons have m: "map (\<lambda>k'. take 1 ((q(k := xs)) k')) ks = map (\<lambda>k'. take 1 (q k')) ks" for xs
    by (intro map_cong) auto
  have IH: "one_round ks (q', out') =
      ((\<lambda>k. if k \<in> set ks then drop 1 (q' k) else q' k), out' @ concat (map (\<lambda>k. take 1 (q' k)) ks))" for q' out'
    using Cons by simp
  show ?case
  proof (cases "q k")
    case (Cons a xs)
    have "one_round (k # ks) (q, out) = one_round ks (q(k := xs), out @ [a])" using Cons by simp
    with prems Cons show ?thesis unfolding IH m by (auto simp: fun_eq_iff)
  next
    case Nil
    then have "one_round (k # ks) (q, out) = one_round ks (q, out)" by simp
    with Nil prems show ?thesis unfolding IH by (auto simp: fun_eq_iff)
  qed
qed simp

lemma rounds_spec:
  assumes "distinct order" and "\<And>k. k \<in> set order \<Longrightarrow> fst st k = drop r (by_plugin es k)"
    and "snd st = concat (map (turn es order) [0..<r])"
  shows "\<exists>r'. rounds f n order st = concat (map (turn es order) [0..<r']) \<and>
    (n \<le> length (rounds f n order st) \<or> r + f \<le> r')"
  using assms(2,3)
proof (induction f arbitrary: st r)
  case 0
  then show ?case by (intro exI [of _ r]) simp
next
  case (Suc f)
  show ?case
  proof (cases "length (snd st) < n")
    case False
    with Suc.prems(2) show ?thesis by (intro exI [of _ r]) simp
  next
    case True
    have st: "one_round order st = ((\<lambda>k. if k \<in> set order then drop 1 (fst st k) else fst st k),
        snd st @ concat (map (\<lambda>k. take 1 (fst st k)) order))"
      using one_round_spec [OF assms(1), of "fst st" "snd st"] by simp
    have "concat (map (\<lambda>k. take 1 (fst st k)) order) = turn es order r"
      unfolding turn_def using Suc.prems(1) by (metis (no_types, lifting) map_cong)
    then have "\<exists>r'. rounds f n order (one_round order st) = concat (map (turn es order) [0..<r']) \<and>
        (n \<le> length (rounds f n order (one_round order st)) \<or> Suc r + f \<le> r')"
      using Suc.prems by (intro Suc.IH) (simp_all add: st)
    with True show ?thesis by simp
  qed
qed

lemma by_plugin_turn:
  assumes "distinct order" and "k \<in> set order"
  shows "by_plugin (turn es order r) k = take 1 (drop r (by_plugin es k))"
proof -
  have own: "by_plugin (take 1 (drop r (by_plugin es k'))) k = (if k' = k then take 1 (drop r (by_plugin es k)) else [])" for k'
    by (auto simp: by_plugin_def filter_id_conv filter_empty_conv dest!: in_set_takeD in_set_dropD)
  have "by_plugin (concat (map (\<lambda>k. take 1 (drop r (by_plugin es k))) ks)) k =
      (if k \<in> set ks then take 1 (drop r (by_plugin es k)) else [])" if "distinct ks" for ks
    using that
  proof (induction ks)
    case (Cons k' ks)
    have "by_plugin (xs @ ys) k = by_plugin xs k @ by_plugin ys k" for xs ys by (simp add: by_plugin_def)
    with Cons own [of k'] show ?case by auto
  qed (simp add: by_plugin_def)
  from this [OF assms(1)] assms(2) show ?thesis by (simp add: turn_def)
qed

lemma by_plugin_turns:
  assumes "distinct order" and "k \<in> set order"
  shows "by_plugin (concat (map (turn es order) [0..<r])) k = take r (by_plugin es k)"
proof (induction r)
  case (Suc r)
  have "by_plugin (xs @ ys) k = by_plugin xs k @ by_plugin ys k" for xs ys by (simp add: by_plugin_def)
  with Suc by_plugin_turn [OF assms] show ?case by (simp add: take_add [of r 1, simplified])
qed (simp add: by_plugin_def)

lemma length_by_plugin:
  assumes "distinct order" and "e_plugin ` set xs \<subseteq> set order"
  shows "length xs = sum_list (map (\<lambda>k. length (by_plugin xs k)) order)"
  using assms(2)
proof (induction xs)
  case (Cons x xs)
  have "sum_list (map (\<lambda>k. length (by_plugin (x # xs) k)) order) =
      sum_list (map (\<lambda>k. length (by_plugin xs k)) order) + sum_list (map (\<lambda>k. if e_plugin x = k then 1 else 0) order)"
    by (subst sum_list_addf [symmetric]) (auto intro!: arg_cong [of _ _ sum_list] simp: by_plugin_def)
  moreover have "sum_list (map (\<lambda>k. if e_plugin x = k then 1 else (0::nat)) order) = 1"
    using assms(1) Cons.prems by (subst sum_list_distinct_conv_sum_set) auto
  ultimately show ?case using Cons by simp
qed (simp add: by_plugin_def)

lemma interleave_turns:
  assumes "2 \<le> length (plugin_order es [])"
  shows "\<exists>r. interleaveByPlugin es = concat (map (turn es (plugin_order es [])) [0..<r])"
    and "by_plugin (interleaveByPlugin es) k = by_plugin es k"
proof -
  define order where "order = plugin_order es []"
  have dist: "distinct order" and os: "set order = e_plugin ` set es"
    using plugin_order_distinct [of "[]" es] plugin_order_set [of es "[]"] by (simp_all add: order_def)
  have il: "interleaveByPlugin es = rounds (length es) (length es) order (by_plugin es, [])"
    using assms by (simp add: interleaveByPlugin_def Let_def order_def)
  obtain r where r: "interleaveByPlugin es = concat (map (turn es order) [0..<r])"
    and stop: "length es \<le> length (interleaveByPlugin es) \<or> length es \<le> r"
    using rounds_spec [OF dist, of "(by_plugin es, [])" 0 es "length es" "length es"] unfolding il by auto
  show "\<exists>r. interleaveByPlugin es = concat (map (turn es (plugin_order es [])) [0..<r])"
    using r order_def by blast
  have sub: "e_plugin ` set (interleaveByPlugin es) \<subseteq> set order"
    by (auto simp: r turn_def by_plugin_def dest!: in_set_takeD in_set_dropD)
  have tk: "by_plugin (interleaveByPlugin es) k = take r (by_plugin es k)" if "k \<in> set order" for k
    using by_plugin_turns [OF dist that] r by simp
  have all: "by_plugin (interleaveByPlugin es) k = by_plugin es k" if k: "k \<in> set order" for k
  proof (rule ccontr)
    assume ne: "by_plugin (interleaveByPlugin es) k \<noteq> by_plugin es k"
    then have short: "r < length (by_plugin es k)" using tk [OF k] by force
    have "length (by_plugin es k) \<le> length es" by (simp add: by_plugin_def)
    with short stop have "length es \<le> length (interleaveByPlugin es)" by simp
    moreover have "length (interleaveByPlugin es) = sum_list (map (\<lambda>k. length (take r (by_plugin es k))) order)"
      using length_by_plugin [OF dist sub] tk by (auto cong: map_cong)
    moreover have "sum_list (map (\<lambda>k. length (take r (by_plugin es k))) order) <
        sum_list (map (\<lambda>k. length (by_plugin es k)) order)"
      using k short
    proof (induction order)
      case (Cons a as)
      have "sum_list (map (\<lambda>k. length (take r (by_plugin es k))) as) \<le> sum_list (map (\<lambda>k. length (by_plugin es k)) as)"
        by (rule sum_list_mono) simp
      with Cons show ?case by (cases "k = a") (auto intro: add_less_le_mono add_le_less_mono)
    qed simp
    moreover have "length es = sum_list (map (\<lambda>k. length (by_plugin es k)) order)"
      by (rule length_by_plugin [OF dist]) (simp add: os)
    ultimately show False by simp
  qed
  show "by_plugin (interleaveByPlugin es) k = by_plugin es k"
  proof (cases "k \<in> set order")
    case False
    then have "by_plugin es k = []" "by_plugin (interleaveByPlugin es) k = []"
      using os sub by (auto simp: by_plugin_def filter_empty_conv)
    then show ?thesis by simp
  qed (rule all)
qed


subsection \<open>Giving up\<close>

lemma keepEstimate_tables:
  "snd (keepEstimate env d e row st mk note cnt) = d' \<Longrightarrow>
   ledger d' = ledger d \<and> balances d' = balances d \<and> precharges d' = precharges d \<and>
   map u_total (usage d') = map u_total (usage d)"
  by (auto simp: keepEstimate_def keepEstimateTx_def err_simps Let_def emit_def update_usage_def update_entries_def
      split: sum.splits if_splits)

lemma abandoned_only_if_true:
  assumes "reconcileOneAdmitted env expr_of fmt pc lg cfg rds now cancelled ask e d c = (True, d', c')"
  shows "c' = c \<and> (\<exists>row reason. d' = abandon env d e row reason)"
  using assms by (auto simp: reconcileOneAdmitted_def split: sum.splits if_splits)

text \<open>Without faults an abandoned entry really closes.\<close>

lemma abandon_closes:
  assumes "find_row d (e_usage e) = Some x" and "u_status x = StatusReserved"
    and "List.find (\<lambda>s. s_id s = e_id e) (settlements d) = Some s" and "s_task s = None"
    and d': "d' = abandon (no_faults rnd) d e row reason"
  shows "\<forall>y \<in> set (usage d'). u_id y = e_usage e \<longrightarrow> u_status y = StatusBilled"
    and "\<forall>t \<in> set (settlements d'). s_id t = e_id e \<longrightarrow> s_state t = SettleStateAbandoned"
    and "map (\<lambda>y. (u_id y, u_total y)) (usage d') = map (\<lambda>y. (u_id y, u_total y)) (usage d)"
proof -
  have "outcome_guard (no_faults rnd) d e = Inr ()"
    using assms(1-4) by (simp add: outcome_guard_def lockLegacyOutcome_def)
  then have "usage d' = map (\<lambda>y. if u_id y = e_usage e then y\<lparr>u_status := StatusBilled,
      u_anomalies := merge_json (u_anomalies y) [(''reconcile'', ''abandoned''),
        (''reconcile_attempts'', itoa (e_attempts e)), (''reconcile_error'', trunc reason 500)]\<rparr> else y) (usage d)"
    "settlements d' = map (\<lambda>t. if s_id t = e_id e then t\<lparr>s_state := SettleStateAbandoned, s_error := trunc reason 2000,
      s_attempts := s_attempts t + 0\<rparr> else t) (settlements d)"
    by (simp_all add: d' abandon_def keepEstimate_def keepEstimateTx_def Let_def emit_def update_usage_def update_entries_def)
  then show "\<forall>y \<in> set (usage d'). u_id y = e_usage e \<longrightarrow> u_status y = StatusBilled"
    "\<forall>t \<in> set (settlements d'). s_id t = e_id e \<longrightarrow> s_state t = SettleStateAbandoned"
    "map (\<lambda>y. (u_id y, u_total y)) (usage d') = map (\<lambda>y. (u_id y, u_total y)) (usage d)"
    by auto
qed

subsection \<open>Properties\<close>

definition demo_settle :: "int \<Rightarrow> string \<Rightarrow> settle_row" where
  "demo_settle i k = \<lparr>s_id = i, s_plugin = k, s_ref = ''job'', s_usage = i, s_account = None, s_attempts = 0, s_next = 0,
     s_deadline = 100, s_state = SettleStatePending, s_error = [], s_created = 0, s_task = None, s_poll_failures = 0\<rparr>"

text \<open>Fairness of a sweep over several plugins: the worked order consists of turns, each taking one more
  entry of every plugin that still has one, in the plugins' order of first occurrence; and every plugin's
  entries are all there, in the order in which they were claimed.\<close>

lemma interleave_is_round_robin:
  assumes "2 \<le> length (plugin_order es [])"
  shows "(\<exists>r. interleaveByPlugin es = concat (map (turn es (plugin_order es [])) [0..<r])) \<and>
    by_plugin (interleaveByPlugin es) k = by_plugin es k"
  using interleave_turns [OF assms] by blast

lemma interleave_is_round_robin_witness:
  "by_plugin (interleaveByPlugin (map entry_of [demo_settle 1 ''a'', demo_settle 2 ''a'', demo_settle 3 ''b''])) ''a'' =
    map entry_of [demo_settle 1 ''a'', demo_settle 2 ''a'']"
proof -
  let ?es = "map entry_of [demo_settle 1 ''a'', demo_settle 2 ''a'', demo_settle 3 ''b'']"
  have "2 \<le> length (plugin_order ?es [])" by code_simp
  from interleave_is_round_robin [OF this, of "''a''"] show ?thesis
    by (simp add: by_plugin_def entry_of_def demo_settle_def)
qed

text \<open>Giving up moves no money: a check that ends in abandonment leaves the ledger, every balance, the
  reservations, the cost of every row and the balance cache as they are; the estimate stands.\<close>

lemma giving_up_moves_no_money:
  assumes "reconcileOneAdmitted env expr_of fmt pc lg cfg rds now cancelled ask e d c = (True, d', c')"
  shows "ledger d' = ledger d \<and> balances d' = balances d \<and> precharges d' = precharges d \<and>
    map u_total (usage d') = map u_total (usage d) \<and> c' = c"
proof -
  from abandoned_only_if_true [OF assms] obtain row reason where "c' = c" "d' = abandon env d e row reason" by blast
  then show ?thesis using keepEstimate_tables unfolding abandon_def by metis
qed

definition demo_reserved_row :: usage_row where
  "demo_reserved_row = \<lparr>u_id = 1, u_p = \<lparr>RequestID = ''r1'', UserID = 1, APIKeyID = 1, GroupID = 1, AccountID = None,
     PluginKey = ''p'', Platform = ''p'', Protocol = ''x'', AccountType = ''t'', UpstreamProtocol = ''x'', Model = ''m'',
     Success = True, StatusCode = 200, ErrorType = [],
     Tokens = \<lparr>tk_input = 0, tk_output = 0, tk_cache_read = 0, tk_cache_creation = 0, tk_cache_creation_1h = 0\<rparr>,
     Metrics = [], LatencyMs = 1, CreatedAt = 0, Rate = 1, PriceID = 1, Mode = ''token'', Expression = [],
     Semantics = [], Params = [], Headers = [], Attempts = 1\<rparr>, u_status = StatusReserved, u_total = 3,
     u_tier = [], u_expr_hash = ''h'', u_ledger_id = Some 1, u_message = [], u_anomalies = []\<rparr>"

definition demo_stuck :: db where
  "demo_stuck = demo_empty\<lparr>usage := [demo_reserved_row], next_usage := 2,
     settlements := [(demo_settle 1 ''a'')\<lparr>s_attempts := 100\<rparr>], next_settle := 2\<rparr>"

definition demo_limits :: resolved where
  "demo_limits = \<lparr>maxAge = 604800 * second, backoff = [10 * second], maxAttempts = 100, maxPollFailures = 20\<rparr>"

definition demo_pc :: pricer where
  "demo_pc = \<lparr>pc_compile = (\<lambda>_. Inr ''h''), pc_hash = (\<lambda>_. ''h''), pc_quote = (\<lambda>_. Inr 3), pc_eval = (\<lambda>_. Inr (3, ''base''))\<rparr>"

definition demo_check :: "int \<Rightarrow> bool \<times> db \<times> cache" where
  "demo_check now = reconcileOneAdmitted demo_env (\<lambda>_. ''p'') itoa demo_pc (billing_ledger demo_env) demo_limits
     (True, True, True) now False (\<lambda>_ _. Reported) (entry_of ((demo_settle 1 ''a'')\<lparr>s_attempts := 100\<rparr>)) demo_stuck (\<lambda>_. None)"

lemma giving_up_moves_no_money_witness:
  "\<exists>d' c'. demo_check 50 = (True, d', c') \<and> balances d' = balances demo_stuck"
proof -
  have "fst (demo_check 50)" by code_simp
  then obtain d' c' where r: "demo_check 50 = (True, d', c')" by (cases "demo_check 50") auto
  from giving_up_moves_no_money [OF r [unfolded demo_check_def]] r show ?thesis by blast
qed

text \<open>C18: No reserved row is asked about for ever: once the deadline has passed or the attempts are used up,
  the next check of the entry (not handed to a managed task) that reaches the tables closes it, whatever the
  plugin would answer: the entry is abandoned and its row billed at its estimate, which means that the cost
  of no row changes and nothing is booked.\<close>

theorem exhausted_entry_closes:
  assumes "e_deadline e \<le> now \<or> maxAttempts cfg \<le> e_attempts e"
    and "find_row d (e_usage e) = Some x" and "u_status x = StatusReserved"
    and "List.find (\<lambda>s. s_id s = e_id e) (settlements d) = Some s" and "s_task s = None"
    and "reconcileOneAdmitted (no_faults rnd) expr_of fmt pc lg cfg rds now cancelled ask e d c = (b, d', c')"
  shows "b \<and> list_all (\<lambda>y. u_id y \<noteq> e_usage e \<or> u_status y = StatusBilled) (usage d') \<and>
    list_all (\<lambda>t. s_id t \<noteq> e_id e \<or> s_state t = SettleStateAbandoned) (settlements d') \<and>
    map (\<lambda>y. (u_id y, u_total y)) (usage d') = map (\<lambda>y. (u_id y, u_total y)) (usage d) \<and>
    ledger d' = ledger d \<and> balances d' = balances d \<and> precharges d' = precharges d \<and> c' = c"
proof -
  have "loadReserved (no_faults rnd) expr_of d (e_usage e) =
      Inr \<lparr>rs_p = (u_p x)\<lparr>Expression := expr_of x\<rparr>, rs_status = u_status x, rs_total = u_total x\<rparr>"
    using assms(2) by (simp add: loadReserved_def)
  with assms(1,3,6) have b: b
    by (auto simp: reconcileOneAdmitted_def split: if_splits)
  then have run: "reconcileOneAdmitted (no_faults rnd) expr_of fmt pc lg cfg rds now cancelled ask e d c = (True, d', c')"
    using assms(6) by simp
  from abandoned_only_if_true [OF run] obtain row reason where ab: "d' = abandon (no_faults rnd) d e row reason" "c' = c"
    by blast
  have "ledger d' = ledger d \<and> balances d' = balances d \<and> precharges d' = precharges d"
    using keepEstimate_tables [OF ab(1) [unfolded abandon_def, symmetric]] by simp
  with abandon_closes [OF assms(2-5) ab(1)] b ab(2) show ?thesis by (simp add: list_all_iff)
qed

theorem exhausted_entry_closes_witness:
  "map (\<lambda>y. (u_id y, u_status y, u_total y)) (usage (fst (snd (demo_check 50)))) = [(1, StatusBilled, 3)]"
proof -
  let ?e = "entry_of ((demo_settle 1 ''a'')\<lparr>s_attempts := 100\<rparr>)"
  obtain b d' c' where r: "demo_check 50 = (b, d', c')" by (cases "demo_check 50") auto
  have "maxAttempts demo_limits \<le> e_attempts ?e" "find_row demo_stuck (e_usage ?e) = Some demo_reserved_row"
    "u_status demo_reserved_row = StatusReserved" "List.find (\<lambda>s. s_id s = e_id ?e) (settlements demo_stuck) =
      Some ((demo_settle 1 ''a'')\<lparr>s_attempts := 100\<rparr>)" "s_task ((demo_settle 1 ''a'')\<lparr>s_attempts := 100\<rparr>) = None"
    by (simp_all add: demo_limits_def entry_of_def demo_settle_def demo_stuck_def find_row_def demo_reserved_row_def)
  from exhausted_entry_closes [OF disjI2 [OF this(1)] this(2-5) r [unfolded demo_check_def demo_env_def]]
  have "list_all (\<lambda>y. u_id y \<noteq> 1 \<or> u_status y = StatusBilled) (usage d')"
    "map (\<lambda>y. (u_id y, u_total y)) (usage d') = [(1, 3)]"
    by (simp_all add: entry_of_def demo_settle_def demo_stuck_def demo_reserved_row_def)
  with r show ?thesis by (auto simp: map_eq_Cons_conv)
qed

end
