(* ===== verification/SweepRuns.thy ===== *)
theory SweepRuns
  imports MoneyModel ReconcileSweep
begin

section \<open>The lease of a claim among all other transactions\<close>

text \<open>
  \<open>sweep_run\<close> puts the transactions of the settler, the reconcile loops of all nodes, the administrator and the
  ledger in any order and records which of them claim entries, put an entry back (\<open>rescheduleTx\<close>) or reopen a
  row (\<open>retryReconcileTx\<close>): only these three write \<open>next_check_at\<close> of an existing entry. The lemmas show that
  every other transaction leaves it alone and that a claim only moves it later, from which the lease follows.
\<close>

subsection \<open>Runs\<close>

datatype sweep_act = Claims int "entry list" | Reschedules int | Reopens int | Works

inductive sweep_step :: "sweep_act \<Rightarrow> db \<Rightarrow> db \<Rightarrow> bool" where
  Claim: "claimDue env locked now limit d = Inr (es, d') \<Longrightarrow> sweep_step (Claims now es) d d'"
| Put_back: "rescheduleTx env d e due lastErr n = Inr d' \<Longrightarrow> sweep_step (Reschedules (e_id e)) d d'"
| Reopen: "retryReconcileTx env cfg now d u = Inr d' \<Longrightarrow> sweep_step (Reopens u) d d'"
| Insert: "insertTx (solo env) pc (Some (billing_ledger (solo env))) cfg now batch Inr (\<lambda>d _. Inr d) flag d
      = Inr (ins, os, d') \<Longrightarrow> sweep_step Works d d'"
| Settle: "settleTx (solo env) pc (Some (billing_ledger (solo env))) sk lk d p = Inr (res, d') \<Longrightarrow> sweep_step Works d d'"
| Mark: "sweep_step Works d (markFailed env d p)"
| Close: "sweep_step Works d (closeEntry env d e st note)"
| Reconciled: "settleReconciledTx (solo env) (billing_ledger (solo env)) d e p reserved priced = Inr (res, d') \<Longrightarrow>
    sweep_step Works d d'"
| Refunded: "refundTx (solo env) (billing_ledger (solo env)) d e row reason = Inr (res, d') \<Longrightarrow> sweep_step Works d d'"
| Kept: "keepEstimateTx env d e row st marker note cnt = Inr d' \<Longrightarrow> sweep_step Works d d'"
| GiveBack: "refundAbandonedTx env (billing_ledger (solo env)) operator note d i = Inr (res, d') \<Longrightarrow> sweep_step Works d d'"
| Reserve: "prechargeTx (solo env) now u rid a m d = Inr (lr, d') \<Longrightarrow> sweep_step Works d d'"
| Release: "ReleasePrechargeTx (solo env) d u rid = Inr (lr, d') \<Longrightarrow> sweep_step Works d d'"
| Ledger: "ApplyTx (solo env) d ch = Inr (r, d') \<Longrightarrow> sweep_step Works d d'"

inductive sweep_run :: "sweep_act list \<Rightarrow> db \<Rightarrow> db \<Rightarrow> bool" where
  Start: "sweep_run [] d d"
| Step: "sweep_step a d d1 \<Longrightarrow> sweep_run as d1 d2 \<Longrightarrow> sweep_run (a # as) d d2"

subsection \<open>Who writes the next check\<close>

text \<open>Entries keep their id, row and next check; new ones get a fresh id.\<close>

definition times_kept :: "db \<Rightarrow> db \<Rightarrow> bool" where
  "times_kept d d' \<longleftrightarrow> next_settle d \<le> next_settle d' \<and> (\<forall>s' \<in> set (settlements d'). next_settle d \<le> s_id s' \<or>
     (\<exists>s \<in> set (settlements d). s_id s = s_id s' \<and> s_usage s = s_usage s' \<and> s_next s = s_next s'))"

lemma times_kept_refl [simp]: "times_kept d d"
  by (auto simp: times_kept_def)

lemma times_kept_trans:
  assumes "times_kept a b" and "times_kept b c"
  shows "times_kept a c"
  using assms unfolding times_kept_def by (metis order_trans)

lemma times_kept_frame: "settlements d' = settlements d \<Longrightarrow> next_settle d' = next_settle d \<Longrightarrow> times_kept d d'"
  by (auto simp: times_kept_def)

lemma times_kept_update:
  assumes "settlements d' = map (\<lambda>s. if P s then f s else s) (settlements d)" and "next_settle d' = next_settle d"
    and "\<And>s. s_id (f s) = s_id s \<and> s_usage (f s) = s_usage s \<and> s_next (f s) = s_next s"
  shows "times_kept d d'"
  using assms by (auto simp: times_kept_def)

lemma emit_times: "emit env ev d = Inr d' \<Longrightarrow> times_kept d d'"
  by (rule times_kept_frame) (simp_all add: emit_frame)

context hold_ledger
begin

lemma apply_times: "tl_apply lg d ch = Inr (r, d') \<Longrightarrow> times_kept d d'"
  using apply_frame by (intro times_kept_frame) auto

lemma charge_times: "charge (Some lg) d p amt = Inr (res, lid, d') \<Longrightarrow> times_kept d d'"
  using charge_Inr(1) by (intro times_kept_frame) auto

lemma settleTx_times:
  assumes "settleTx env pc (Some lg) sk lk d p = Inr (res, d')"
  shows "times_kept d d'"
  using assms
proof (rule settleTx_parts)
  fix amt lid d1 f
  assume ch: "charge (Some lg) d p amt = Inr (res, lid, d1)"
    and em: "emit env [recordedEvent p amt StatusBilled] (update_usage (\<lambda>y. rid_of y = RequestID p) f d1) = Inr d'"
  have "times_kept d1 (update_usage (\<lambda>y. rid_of y = RequestID p) f d1)" by (rule times_kept_frame) simp_all
  with charge_times [OF ch] emit_times [OF em] show ?thesis using times_kept_trans by blast
qed

lemma reserveTx_times:
  assumes "reserveTx env pc (Some lg) cfg now d (rec, i) = Inr (res, d')"
  shows "times_kept d d'"
  using assms
proof (rule reserveTx_parts)
  fix amt lid d1 f
  assume ch: "charge (Some lg) d (fromRecord now rec) amt = Inr (res, lid, d1)"
    and alt: "(\<exists>f2. sets_row f2 StatusBilled u_total \<and> d' = update_usage (\<lambda>x. u_id x = i) f2 (update_usage (\<lambda>x. u_id x = i) f d1)) \<or>
     (\<exists>s. s_id s = next_settle d1 \<and> s_usage s = i \<and> s_state s = SettleStatePending \<and>
        d' = (update_usage (\<lambda>x. u_id x = i) f d1)\<lparr>settlements := s # settlements d1, next_settle := next_settle d1 + 1\<rparr>)"
  have "times_kept d1 d'" using alt by (auto simp: times_kept_def)
  with charge_times [OF ch] show ?thesis by (rule times_kept_trans)
qed

lemma release_times: "releasePrechargeTx (Some lg) d u rid = Inr (res, d') \<Longrightarrow> times_kept d d'"
  using release_frame by (intro times_kept_frame) (auto simp: releasePrechargeTx_def)

end

lemma tx_loop_times:
  assumes "\<And>x d o1 d'. f x d = Inr (o1, d') \<Longrightarrow> times_kept d d'" and "tx_loop f xs d = Inr (os, d')"
  shows "times_kept d d'"
  using assms(2)
proof (induction xs arbitrary: d os)
  case (Cons x xs)
  from Cons.prems obtain o1 d1 o2 where "f x d = Inr (o1, d1)" "tx_loop f xs d1 = Inr (o2, d')"
    by (auto simp: err_simps)
  with assms(1) Cons.IH show ?case using times_kept_trans by blast
qed simp

lemma insert_rows_times: "insert_rows env pc now recs d = Inr (ins, d') \<Longrightarrow> times_kept d d'"
proof (induction recs arbitrary: d ins)
  case (Cons rec recs)
  from Cons.prems obtain oi d1 ins1 where one: "insert_one env pc now d rec = Inr (oi, d1)"
    and rest: "insert_rows env pc now recs d1 = Inr (ins1, d')" by (auto simp: err_simps)
  have "times_kept d d1" using one by (auto simp: insert_one_def err_simps intro: times_kept_frame split: if_splits)
  with Cons.IH [OF rest] show ?case using times_kept_trans by blast
qed simp

lemma insertTx_times:
  assumes "insertTx (solo env) pc (Some (billing_ledger (solo env))) cfg now batch Inr (\<lambda>d _. Inr d) flag d = Inr (ins, os, d')"
  shows "times_kept d d'"
proof -
  let ?lg = "Some (billing_ledger (solo env))"
  from assms obtain inss d1 d2 d3 d4 o1 o2 o3 where
    i: "insert_rows (solo env) pc now batch d = Inr (inss, d1)"
    and f: "tx_loop (free_step ?lg) inss d1 = Inr (o1, d2)"
    and r: "tx_loop (reserve_step (solo env) pc ?lg cfg now) inss d2 = Inr (o2, d3)"
    and s: "settle_at_once flag (solo env) pc ?lg now inss d3 = Inr (o3, d4)"
    and e: "emit_free (solo env) now inss d4 = Inr d'"
    by (auto simp: insertTx_def err_simps)
  have 2: "times_kept d1 d2"
    by (rule tx_loop_times [OF _ f]) (auto simp: free_step_def err_simps split: if_splits intro: ul.release_times)
  have 3: "times_kept d2 d3"
    by (rule tx_loop_times [OF _ r]) (auto simp: reserve_step_def err_simps split: if_splits intro: ul.reserveTx_times)
  have 4: "times_kept d3 d4"
  proof (cases flag)
    case True
    then have "tx_loop (settle_step (solo env) pc ?lg now) inss d3 = Inr (o3, d4)" using s by (simp add: settle_at_once_def)
    then show ?thesis
      by (rule tx_loop_times [rotated]) (auto simp: settle_step_def err_simps split: if_splits intro: ul.settleTx_times)
  qed (use s in \<open>simp add: settle_at_once_def\<close>)
  have 5: "times_kept d4 d'" using e by (auto simp: emit_free_def Let_def split: if_splits intro: emit_times)
  show ?thesis by (rule times_kept_trans [OF insert_rows_times [OF i] times_kept_trans [OF 2 times_kept_trans [OF 3 times_kept_trans [OF 4 5]]]])
qed

text \<open>Every transaction but a claim, a reschedule and a reopening keeps the times.\<close>

lemma outcome_times:
  assumes "emit env ev (update_entries P g (update_usage Q f d1)) = Inr d'"
    and "\<And>s. s_id (g s) = s_id s \<and> s_usage (g s) = s_usage s \<and> s_next (g s) = s_next s"
    and "times_kept d d1"
  shows "times_kept d d'"
proof -
  have "times_kept d1 (update_entries P g (update_usage Q f d1))"
    by (rule times_kept_update [where P = P and f = g]) (use assms(2) in simp_all)
  with assms(3) emit_times [OF assms(1)] show ?thesis using times_kept_trans by blast
qed

lemma sweep_step_times: "sweep_step a d d' \<Longrightarrow> a = Works \<Longrightarrow> times_kept d d'"
proof (induction rule: sweep_step.induct)
  case Insert
  then show ?case by (blast intro: insertTx_times)
next
  case Settle
  then show ?case by (blast intro: ul.settleTx_times)
next
  case (Mark d env p)
  then show ?case by (intro times_kept_frame) (simp_all add: markFailed_def)
next
  case (Close d env e st nt)
  show ?case
    by (rule times_kept_update [where P = "\<lambda>s. \<not> env_fails env ''close entry'' \<and> s_id s = e_id e \<and> s_task s = None"
        and f = "\<lambda>s. s\<lparr>s_state := st, s_error := trunc nt 2000\<rparr>"]) (simp_all add: closeEntry_def)
next
  case (Reconciled env d e p reserved priced res d')
  obtain amt detail hash where pr: "priced = (amt, detail, hash)" by (cases priced)
  from Reconciled(1) obtain d1 f where df: "apply_diff (billing_ledger (solo env)) d p (amt - reserved) = Inr (res, d1)"
    and em: "emit (solo env) [recordedEvent p amt StatusBilled] (update_entries (\<lambda>s. s_id s = e_id e)
      (\<lambda>s. s\<lparr>s_state := SettleStateSettled, s_attempts := s_attempts s + 1, s_error := []\<rparr>)
      (update_usage (\<lambda>x. u_id x = e_usage e) f d1)) = Inr d'"
    unfolding pr by (auto simp: settleReconciledTx_def err_simps Let_def)
  have "times_kept d d1" using df by (auto simp: apply_diff_def err_simps split: if_splits intro: ul.apply_times)
  then show ?case by (rule outcome_times [OF em, rotated]) simp
next
  case (Refunded env d e row reason res d')
  from Refunded(1) obtain d1 f where ap: "if 0 < rs_total row then \<exists>r. tl_apply (billing_ledger (solo env)) d
      (recon_change (rs_p row) (rs_total row) True ''reconciled: the upstream work failed'') = Inr (r, d1) else d1 = d"
    and em: "emit (solo env) [recordedEvent (rs_p row) 0 StatusFree] (update_entries (\<lambda>s. s_id s = e_id e)
      (\<lambda>s. s\<lparr>s_state := SettleStateFailed, s_attempts := s_attempts s + 1, s_error := trunc reason 2000,
         s_poll_failures := poll_count e (s_poll_failures s)\<rparr>) (update_usage (\<lambda>x. u_id x = e_usage e) f d1)) = Inr d'"
    by (auto simp: refundTx_def err_simps Let_def split: if_splits)
  have "times_kept d d1" using ap by (auto split: if_splits intro: ul.apply_times)
  then show ?case by (rule outcome_times [OF em, rotated]) simp
next
  case (Kept env d e row st marker nt cnt d')
  from Kept(1) obtain f where em: "emit env [recordedEvent (rs_p row) (rs_total row) StatusBilled]
      (update_entries (\<lambda>s. s_id s = e_id e) (\<lambda>s. s\<lparr>s_state := st, s_error := trunc nt 2000,
         s_attempts := s_attempts s + (if cnt then 1 else 0)\<rparr>) (update_usage (\<lambda>x. u_id x = e_usage e) f d)) = Inr d'"
    by (auto simp: keepEstimateTx_def err_simps Let_def)
  show ?case by (rule outcome_times [OF em]) simp_all
next
  case (GiveBack env operator nt0 d i res d')
  then obtain x nt d1 P f g where ap: "tl_apply (billing_ledger (solo env)) d (manual_refund x operator nt) = Inr (res, d1)"
    and d': "d' = update_entries P (\<lambda>t. t\<lparr>s_error := g\<rparr>) (update_usage (\<lambda>y. u_id y = i) f d1)"
    by (auto simp: refundAbandonedTx_def err_simps Let_def split: if_splits)
  have "times_kept d1 d'" unfolding d' by (rule times_kept_update [where P = P and f = "\<lambda>t. t\<lparr>s_error := g\<rparr>"]) simp_all
  with ul.apply_times [OF ap] show ?case by (rule times_kept_trans)
next
  case (Reserve env now u rid a m d lr d')
  from Reserve(1) solo_race show ?case
  proof (cases rule: prechargeTx_success)
    case (Held r row)
    show ?thesis using ApplyTx_frame [OF Held(8) solo_race] by (intro times_kept_frame) simp_all
  qed (simp add: times_kept_frame)
next
  case Release
  then show ?case using ReleasePrechargeTx_frame [OF _ solo_race] by (intro times_kept_frame) blast+
next
  case Ledger
  then show ?case using ApplyTx_frame [OF _ solo_race] by (intro times_kept_frame) blast+
qed simp_all

subsection \<open>The lease\<close>

definition leased :: "int \<Rightarrow> int \<Rightarrow> int \<Rightarrow> db \<Rightarrow> bool" where
  "leased i u until d \<longleftrightarrow> i < next_settle d \<and>
     (\<forall>s \<in> set (settlements d). s_id s = i \<longrightarrow> until \<le> s_next s \<and> s_usage s = u)"

lemma leased_times: "leased i u until d \<Longrightarrow> times_kept d d' \<Longrightarrow> leased i u until d'"
  unfolding leased_def times_kept_def by (metis linorder_not_less order_less_le_trans)

lemma claimDue_parts:
  assumes "claimDue env locked now limit d = Inr (es, d')"
  shows "es = map entry_of (due_rows locked now limit d)"
    and "settlements d' = map (\<lambda>s. if s_id s \<in> e_id ` set es then s\<lparr>s_next := now + reconcileLease\<rparr> else s) (settlements d)"
    and "next_settle d' = next_settle d"
proof -
  have "e_id ` set (map entry_of rs) = s_id ` set rs" for rs by (simp add: entry_of_def image_image)
  with assms show "es = map entry_of (due_rows locked now limit d)"
    "settlements d' = map (\<lambda>s. if s_id s \<in> e_id ` set es then s\<lparr>s_next := now + reconcileLease\<rparr> else s) (settlements d)"
    "next_settle d' = next_settle d"
    by (auto simp: claimDue_def err_simps Let_def)
qed

lemma claimed_is_leased:
  assumes cd: "claimDue env locked now limit d = Inr (es, d')" and en: "entries_ok d" and e: "e \<in> set es"
  shows "leased (e_id e) (e_usage e) (now + reconcileLease) d'"
proof -
  note C = claimDue_parts [OF cd]
  from e obtain s0 where s0: "s0 \<in> set (due_rows locked now limit d)" "e = entry_of s0" by (auto simp: C(1))
  then have s: "s0 \<in> set (settlements d)" "e_id e = s_id s0" "e_usage e = s_usage s0"
    by (auto simp: due_rows_def entry_of_def dest: in_set_takeD)
  have uniq: "t = s0" if "t \<in> set (settlements d)" "s_id t = s_id s0" for t
    using entries_unique [OF en s(1) that] .
  have "s_id s0 < next_settle d" using en s(1) by (simp add: entries_ok_def)
  moreover have "now + reconcileLease \<le> s_next t \<and> s_usage t = e_usage e"
    if t: "t \<in> set (settlements d')" "s_id t = e_id e" for t
  proof -
    from t(1) obtain t0 where t0: "t0 \<in> set (settlements d)"
      "t = (if s_id t0 \<in> e_id ` set es then t0\<lparr>s_next := now + reconcileLease\<rparr> else t0)" unfolding C(2) by auto
    then have "s_id t0 = s_id s0" using t(2) s(2) by (auto split: if_splits)
    with uniq t0(1) have "t0 = s0" by simp
    moreover have "s_id s0 \<in> e_id ` set es" using e s(2) by (metis image_eqI)
    ultimately show ?thesis using t0(2) s(3) by simp
  qed
  ultimately show ?thesis using s(2) by (simp add: leased_def C(3))
qed

lemma claim_respects_lease:
  assumes cd: "claimDue env locked now limit d = Inr (es, d')" and le: "leased i u until d" and "now < until"
  shows "i \<notin> e_id ` set es" and "leased i u until d'"
proof -
  note C = claimDue_parts [OF cd]
  show no: "i \<notin> e_id ` set es"
  proof
    assume "i \<in> e_id ` set es"
    then obtain s where "s \<in> set (due_rows locked now limit d)" "s_id s = i" by (auto simp: C(1) entry_of_def)
    then have "s \<in> set (settlements d)" "s_next s \<le> now" "s_id s = i" by (auto simp: due_rows_def dest: in_set_takeD)
    with le assms(3) show False by (auto simp: leased_def)
  qed
  show "leased i u until d'" using le no by (auto simp: leased_def C(2,3))
qed

text \<open>A claim when the lease has lapsed still moves the next check later, never earlier than the lease.\<close>

lemma claim_extends:
  assumes cd: "claimDue env locked now limit d = Inr (es, d')" and le: "leased i u until d"
  shows "leased i u until d'"
proof (cases "now < until")
  case True
  from claim_respects_lease(2) [OF cd le True] show ?thesis .
next
  case False
  then have "until \<le> now + reconcileLease" by (simp add: reconcileLease_def second_def)
  with le show ?thesis by (auto simp: leased_def claimDue_parts(2,3) [OF cd])
qed

lemma put_back_other:
  assumes "rescheduleTx env d e due lastErr n = Inr d'" and "leased i u until d" and "e_id e \<noteq> i"
  shows "leased i u until d'"
  using assms by (auto simp: rescheduleTx_def err_simps Let_def leased_def split: if_splits)

lemma reopen_other:
  assumes rt: "retryReconcileTx env cfg now d v = Inr d'" and le: "leased i u until d" and "v \<noteq> u"
  shows "leased i u until d'"
proof -
  from rt obtain x s msg ok f where lk: "lockSettlement env d v = Inr (x, s)" "at_estimate x s msg = Inr ok"
    and d': "d' = update_entries (\<lambda>t. s_id t = s_id s) (\<lambda>t. t\<lparr>s_state := SettleStatePending, s_attempts := 0,
              s_poll_failures := 0, s_next := now, s_deadline := now + maxAge cfg, s_error := []\<rparr>)
        (update_usage (\<lambda>y. u_id y = v) f d)"
    by (auto simp: retryReconcileTx_def err_simps)
  note L = lockSettlement_Inr [OF lk]
  have "s_id s \<noteq> i" using le L(4,5) assms(3) by (auto simp: leased_def)
  with le show ?thesis by (auto simp: leased_def d')
qed

definition hands_back :: "entry \<Rightarrow> sweep_act \<Rightarrow> bool" where
  "hands_back e a \<longleftrightarrow> a = Reschedules (e_id e) \<or> a = Reopens (e_usage e)"

definition claims_before :: "entry \<Rightarrow> int \<Rightarrow> sweep_act \<Rightarrow> bool" where
  "claims_before e until a \<longleftrightarrow> (case a of Claims now es \<Rightarrow> now < until \<and> e_id e \<in> e_id ` set es | _ \<Rightarrow> False)"

lemma sweep_step_leased:
  assumes "sweep_step a d d'" and "leased (e_id e) (e_usage e) until d" and "\<not> hands_back e a"
  shows "leased (e_id e) (e_usage e) until d' \<and> \<not> claims_before e until a"
proof (cases a)
  case (Claims now es)
  with assms(1) obtain env locked limit where cd: "claimDue env locked now limit d = Inr (es, d')"
    by (auto elim: sweep_step.cases)
  show ?thesis using claim_extends [OF cd assms(2)] claim_respects_lease(1) [OF cd assms(2)]
    by (auto simp: Claims claims_before_def)
next
  case (Reschedules i)
  with assms(1) obtain env e' due lastErr n where "rescheduleTx env d e' due lastErr n = Inr d'" "e_id e' = i"
    by (auto elim: sweep_step.cases)
  with put_back_other assms(2,3) Reschedules show ?thesis by (auto simp: hands_back_def claims_before_def)
next
  case (Reopens v)
  with assms(1) obtain env cfg now where "retryReconcileTx env cfg now d v = Inr d'" by (auto elim: sweep_step.cases)
  with reopen_other assms(2,3) Reopens show ?thesis by (auto simp: hands_back_def claims_before_def)
next
  case Works
  with leased_times [OF assms(2) sweep_step_times [OF assms(1)]] show ?thesis by (simp add: claims_before_def)
qed

lemma sweep_run_leased:
  "sweep_run acts d d' \<Longrightarrow> leased (e_id e) (e_usage e) until d \<Longrightarrow> list_all (\<lambda>a. \<not> hands_back e a) acts \<Longrightarrow>
   list_all (\<lambda>a. \<not> claims_before e until a) acts"
  by (induction rule: sweep_run.induct) (auto dest: sweep_step_leased)

subsection \<open>Property\<close>

text \<open>C22: A claim is a lease: an entry a sweep has claimed is not claimed by any other sweep, of this node or another,
  before three minutes have passed, whatever claims, settlements, insertions, corrections, refunds, closings
  and reservations of others happen in between, unless the holder puts the entry back itself or an
  administrator reopens its row; and one sweep claims at most its limit.\<close>

theorem claim_is_leased:
  assumes "claimDue env locked now limit d = Inr (es, d1)" and "entries_ok d" and "e \<in> set es"
    and "sweep_run acts d1 d2" and "list_all (\<lambda>a. \<not> hands_back e a) acts"
  shows "list_all (\<lambda>a. \<not> claims_before e (now + reconcileLease) a) acts \<and> length es \<le> limit"
proof
  show "list_all (\<lambda>a. \<not> claims_before e (now + reconcileLease) a) acts"
    by (rule sweep_run_leased [OF assms(4) claimed_is_leased [OF assms(1-3)] assms(5)])
  show "length es \<le> limit" by (simp add: claimDue_parts(1) [OF assms(1)] due_rows_def)
qed

text \<open>Two entries: sweep \<open>A\<close> claims the first and puts nothing back, sweep \<open>B\<close> claims the second and puts it back,
  sweep \<open>C\<close> claims again.\<close>

definition demo_queue :: db where
  "demo_queue = demo_empty\<lparr>usage := [demo_reserved_row, demo_reserved_row\<lparr>u_id := 2\<rparr>], next_usage := 3,
     settlements := [demo_settle 2 ''b'', demo_settle 1 ''a''], next_settle := 3\<rparr>"

definition demo_claim :: "nat \<Rightarrow> int \<Rightarrow> db \<Rightarrow> entry list \<times> db" where
  "demo_claim limit now d = projr (claimDue (no_faults round_half_away8) (\<lambda>_. False) now limit d)"

definition demo_first :: "entry list \<times> db" where "demo_first = demo_claim 1 10 demo_queue"

definition demo_second :: "entry list \<times> db" where "demo_second = demo_claim 1 20 (snd demo_first)"

definition demo_back :: "err + db" where
  "demo_back = rescheduleTx (no_faults round_half_away8) (snd demo_second) (entry_of (demo_settle 2 ''b'')) 25 [] 1"

definition demo_third :: "entry list \<times> db" where "demo_third = demo_claim 5 30 (projr demo_back)"

lemma demo_claims:
  "map e_id (fst demo_first) = [1]" "map e_id (fst demo_second) = [2]" "\<not> isl demo_back" "map e_id (fst demo_third) = [2]"
  by code_simp+

lemma demo_claim_Inr:
  "demo_claim limit now d = (es, d') \<Longrightarrow> claimDue (no_faults round_half_away8) (\<lambda>_. False) now limit d = Inr (es, d')"
  by (simp add: demo_claim_def claimDue_def Let_def)

theorem claim_is_leased_witness:
  "\<exists>acts d2. sweep_run acts (snd demo_first) d2 \<and> length acts = 3 \<and>
    list_all (\<lambda>a. \<not> claims_before (hd (fst demo_first)) (10 + reconcileLease) a) acts"
proof -
  let ?acts = "[Claims 20 (fst demo_second), Reschedules 2, Claims 30 (fst demo_third)]"
  have 1: "claimDue (no_faults round_half_away8) (\<lambda>_. False) 10 1 demo_queue = Inr (fst demo_first, snd demo_first)"
    by (rule demo_claim_Inr) (simp add: demo_first_def)
  have 2: "sweep_step (Claims 20 (fst demo_second)) (snd demo_first) (snd demo_second)"
    by (rule sweep_step.Claim, rule demo_claim_Inr) (simp add: demo_second_def)
  have "rescheduleTx (no_faults round_half_away8) (snd demo_second) (entry_of (demo_settle 2 ''b'')) 25 [] 1 = Inr (projr demo_back)"
    using demo_claims(3) unfolding demo_back_def by (cases "rescheduleTx (no_faults round_half_away8) (snd demo_second) (entry_of (demo_settle 2 ''b'')) 25 [] 1") auto
  from sweep_step.Put_back [OF this] have 3: "sweep_step (Reschedules 2) (snd demo_second) (projr demo_back)"
    by (simp add: entry_of_def demo_settle_def)
  have 4: "sweep_step (Claims 30 (fst demo_third)) (projr demo_back) (snd demo_third)"
    by (rule sweep_step.Claim, rule demo_claim_Inr) (simp add: demo_third_def)
  have run: "sweep_run ?acts (snd demo_first) (snd demo_third)" 
    by (rule sweep_run.Step [OF 2 sweep_run.Step [OF 3 sweep_run.Step [OF 4 sweep_run.Start]]])
  have ok: "entries_ok demo_queue" by (simp add: entries_ok_def demo_queue_def demo_settle_def demo_reserved_row_def)
  have "fst demo_first \<noteq> []" using demo_claims(1) by auto
  then have e: "hd (fst demo_first) \<in> set (fst demo_first)" "e_id (hd (fst demo_first)) = 1"
    using demo_claims(1) by (simp, cases "fst demo_first") auto
  then have "list_all (\<lambda>a. \<not> hands_back (hd (fst demo_first)) a) ?acts" by (simp add: hands_back_def)
  from claim_is_leased [OF 1 ok e(1) run this] run show ?thesis by (intro exI [of _ ?acts]) auto
qed

end
