(* ===== verification/Spec2Isabelle.thy ===== *)
theory Spec2Isabelle
  imports Routes EventRuns AuthzCache PaymentRuns PriceQuotes PriceCache UpgradeNodes Dispatch UsageRules AutoDisable Glob Slots RateLimits LoginLimit Sessions BalanceCache Precharge ReconcileSettings MoneyModel ReconcileSweep SweepRuns
begin

text \<open>
  Verification of the sup2api server, a gateway that sells access to upstream AI platforms. The
  development follows the server under \<open>next/\<close> (\<open>next/server/internal\<close>, \<open>next/gateway\<close>,
  \<open>next/plugins/payment\<close>); paths below are relative to the first of these unless they begin with
  \<open>next/\<close>.

  \<^bold>\<open>The program.\<close> Several nodes run the same server over one PostgreSQL database and one Redis. A
  request for a model is authenticated, routed to a platform's endpoint (\<open>Routes\<close>), priced, and paid for in advance from the
  user's balance (\<open>Precharge\<close>). The dispatcher tries upstream accounts one after the other, each
  behind rate limits and a bounded number of slots (\<open>Dispatch\<close>, \<open>RateLimits\<close>, \<open>Slots\<close>), and what the upstream
  answers is turned into token counts and facts by declared rules (\<open>UsageRules\<close>). The usage record is inserted, priced by a compiled price
  expression (\<open>PriceEval\<close>) and settled against the ledger (\<open>Settlement\<close>); a record whose cost the platform tells only
  later is charged at an estimate and reconciled (\<open>Reconcile\<close>). Plugins change balances through the host (\<open>HostLedger\<close>), the payment plugin
  among them (\<open>Payments\<close>). Users sign in to a console (\<open>Sessions\<close>, \<open>LoginLimit\<close>), where roles decide what they may do (\<open>Authz\<close>), plugins are told what
  happens through a table of events (\<open>EventDelivery\<close>), and new releases are
  rolled out over the nodes one by one (\<open>Upgrade\<close>).

  \<^bold>\<open>Conventions\<close> (\<open>Prelude\<close>, \<open>GoStrings\<close>, \<open>BillingStore\<close>, \<open>Redis\<close>). A Go string is a list of bytes. A function returning
  a value and an error is a function into a sum, \<open>Inl\<close> being the error; \<open>and_then\<close> is the early return. A
  database transaction is a function from a record of tables to an error, which returns no tables and so is the
  rollback, or to a result with the new tables; each statement of it can fail (\<open>env_fails\<close>). Redis is a map from keys to
  values with expiry and the commands the scripts use. Ids and instants are \<open>int\<close>; where the code computes with
  64 bits and overflow matters, \<open>wrap64\<close> is written out. Decimals are rationals, rounded where the code rounds; a float is a
  rational, an infinity or not a number (\<open>fl\<close>). Operations are total functions; concurrency is an inductive step relation whose
  steps are the code's critical sections, statements or transactions, and invariants are proved by rule
  induction over it.

  \<^bold>\<open>Money.\<close>
  \<^item> \<open>Ledger\<close> (\<open>billing/ledger.go\<close>): \<open>ApplyTx\<close> statement by statement, with the invariant \<open>ledger_ok\<close> (balances are
    the sums of the ledger, keys are unique) and idempotency.
  \<^item> \<open>BalanceCache\<close> (\<open>Apply\<close>, \<open>Balance\<close>, \<open>CheckBalance\<close> of the same file): the locale \<open>versioned_cache\<close> is the contract of the Lua script,
    interpreted on its model; \<open>bstep\<close> interleaves commits, reads and cache writes.
  \<^item> \<open>Precharge\<close> (\<open>billing/precharge.go\<close>): reservation, release and the sweep of expired ones, which keep
    balance plus reservations.
  \<^item> \<open>Settlement\<close> (\<open>usage/settler.go\<close>), \<open>Reconcile\<close> and \<open>ReconcileSettings\<close> (\<open>usage/reconcile.go\<close>, \<open>reconcile_settings.go\<close>): the operations.
    \<open>UsageBooks\<close> states what they need of the ledger as the locale \<open>usage_ledger\<close> and proves the invariant
    \<open>money_ok\<close> inside it; \<open>ReconcileBooks\<close> and \<open>BatchBooks\<close> extend it to reconciliation and to batches; \<open>HoldBooks\<close> adds the reservations of a request and their two keys
    (the locale \<open>hold_ledger\<close> and the invariant \<open>clear\<close>); \<open>MoneyModel\<close> interprets both locales on
    \<open>Ledger\<close> and \<open>Precharge\<close> and lets all actors take turns on stale reads (\<open>mstep\<close>). \<open>ReconcileSweep\<close>: the order of work and giving
    up; \<open>SweepRuns\<close>: the lease of a claim among all other transactions (\<open>sweep_step\<close>). The recursion of \<open>interleave\<close> has the number of entries as fuel; each round removes an entry.
  \<^item> \<open>HostLedger\<close> (\<open>plugin/grpcruntime/host.go\<close>): the calls of plugins, with their grants and the daily counter in Redis; \<open>hstep\<close>
    splits a call at its Redis and database steps, and \<open>host_ledger_is_steps\<close> shows that the call is a run of them.
  \<^item> \<open>Payments\<close> (\<open>next/plugins/payment\<close>): redeem codes, promo codes, orders and the webhook over two databases that commit
    separately. \<open>PaymentBooks\<close>: the host's contract as the locale \<open>credit_port\<close>, the interleaving \<open>pay_step\<close> and its invariants; the locale is interpreted on
    \<open>LedgerCredit\<close>. \<open>PaymentRuns\<close>: what that means for the rows of the ledger, and where tables and ledger part.

  \<^bold>\<open>Prices.\<close>
  \<^item> \<open>PriceText\<close> (\<open>billing/expr/expr.go\<close>, \<open>generate.go\<close>, \<open>video.go\<close>): price texts, versions, rules, quoting and the generators of
    the visual editor. \<open>PriceSplit\<close>: no typed name or value can add, hide or join rules.
  \<^item> \<open>PriceProgram\<close> (\<open>analyze.go\<close>, \<open>expr.go\<close>): the analysis of syntax trees, compilation and the cache of compiled programs (4096 entries,
    \<open>maxCached\<close>, as in the code).
  \<^item> \<open>PriceEval\<close> (\<open>normalize.go\<close>, \<open>eval.go\<close>, \<open>validate.go\<close>, \<open>billing.go\<close>): token categories, evaluation, quotes and the checks of a new price; \<open>PriceQuotes\<close>
    holds the properties.
  \<^item> \<open>PriceCache\<close> (\<open>billing/pricer.go\<close>, \<open>settings.go\<close>): the caches of a node guarded by an epoch, as steps \<open>pstep\<close> against
    a history of committed tables.

  \<^bold>\<open>The gateway.\<close>
  \<^item> \<open>Routes\<close> (\<open>gateway/routes.go\<close>): patterns, the table of a generation, the lookup and its parameters.
  \<^item> \<open>Dispatch\<close> (\<open>gateway/dispatch.go\<close> and the files around it): the loop over candidates with one entry of \<open>round\<close> per attempt, ranking plugins, the weighted
    order (\<open>weighted_from\<close> has the size of the group as fuel, and draws one of it per round), sticky sessions; slots and attempts are a
    trace.
  \<^item> \<open>Glob\<close> (\<open>gateway/util.go\<close>): the matcher as a loop with its termination measure, and its equivalence with the recursive
    definition of a glob.
  \<^item> \<open>UsageRules\<close> (\<open>usagerules/usagerules.go\<close>): extraction of token counts and facts. \<open>AutoDisable\<close>: the administrator's lists of
    status codes and keywords.

  \<^bold>\<open>The cluster.\<close>
  \<^item> \<open>Registry\<close> (\<open>cluster/registry.go\<close>): heartbeats, liveness and fencing. \<open>Slots\<close> (\<open>cluster/slots.go\<close>): leases over all nodes. \<open>RateLimits\<close>: the limiter's windows,
    with the delay between the shared clock and the script.
  \<^item> \<open>Upgrade\<close>, \<open>UpgradeStore\<close> (\<open>next/gateway/internal/control/engine.go\<close>, \<open>store.go\<close>, \<open>types.go\<close>): plans, steps, coordinator and workers, one event per operation.
    \<open>UpgradeJournal\<close> keeps what was issued; \<open>UpgradeRollout\<close> proves the barrier before migration and the refinement of a serial
    program; \<open>UpgradeNodes\<close>: what a node may start.

  \<^item> \<open>EventOutbox\<close> (\<open>event/event.go\<close>, \<open>event/delivery/\<close>): events, the transactions that write them, snapshots and gaps; \<open>EventDelivery\<close>: the workers'
    steps \<open>dstep\<close> with the cursor of a plugin; \<open>EventSafety\<close>: their invariant \<open>delivery_ok\<close>; \<open>EventRuns\<close>: which events reach the plugin, and how one can be lost.

  \<^bold>\<open>Users.\<close>
  \<^item> \<open>Sessions\<close> (\<open>iam/auth.go\<close>, \<open>iam/service.go\<close>): issue, rotation, replay, revocation. \<open>LoginLimit\<close> (\<open>iam/ratelimit.go\<close>): failed logins.
  \<^item> \<open>Authz\<close> (\<open>authz/roles.go\<close>, \<open>service.go\<close>, \<open>helpers.go\<close>, \<open>iam/users.go\<close>), \<open>AuthzCatalog\<close> (\<open>authz/catalog.go\<close>, \<open>sync.go\<close>,
    \<open>plugin_catalog.go\<close>): the tables of roles and permissions and every operation on them, with the permission its route requires (\<open>require_route\<close>). \<open>AuthzRules\<close>: runs of operations with their actors, what they keep,
    and where the rule about granting is lost. \<open>AuthzCache\<close>: the permission sets of a node, as steps \<open>zstep\<close> against the committed tables.

  \<^bold>\<open>Parameters.\<close> Code that is not in the repository is an argument of the definitions that use it: gjson, the parser and the
  virtual machine of expr-lang, SHA-256, semantic versions, printing of floats, runes beyond ASCII and their case, time zones, the decimal
  package. What the code relies on is a named hypothesis (\<open>rounds8\<close>, \<open>places8\<close>, \<open>number_text\<close>, \<open>rune_text\<close> and others), and each property that
  has one has a witness with a concrete function.

  \<^bold>\<open>Not modelled.\<close> HTTP handlers and listings, which turn JSON into the calls modelled here and rows into JSON; columns no modelled operation reads; goroutines
  and channels, whose schedules are the free choice of steps; one upstream attempt (\<open>attempt\<close>, \<open>forward\<close>, \<open>classify\<close>), which streams bytes and is
  a parameter of the dispatch model; recovery of execution observations and managed asynchronous tasks, whose state the plugins hold; the
  short status cache in front of sessions; downloads, releases, processes, telemetry and CPU offload of the gateway shell; plugin processes and
  their sandbox; texts of warnings and error messages; the web interface; the generated data access and the legacy server under \<open>backend/\<close>, which
  \<open>next/\<close> replaces.
\<close>

end
